(* ===== verification/Prelude.thy ===== *)
theory Prelude
  imports Main "HOL-Library.Word"
begin

unbundle bit_operations_syntax

text \<open>
  What every component shares: the machine integer types, C memory seen as a list of bytes
  (\<open>memcpy\<close>, \<open>memset\<close> at an offset), the splitting of a message into blocks, and the lemmas
  on lists and words that carry the component proofs.

  A C array of bytes is a list of 8-bit words, and a pointer into it is the list that starts
  there (\<open>p + n\<close> is \<^term>\<open>drop n p\<close>). A pointer argument that the code compares with
  \<open>NULL\<close> is an option, with \<^term>\<open>None\<close> for \<open>NULL\<close>. Sizes (\<open>size_t\<close>) are natural numbers: an
  object of C is never larger than \<open>PTRDIFF_MAX\<close> bytes, so sums of a size and a buffer fill
  do not wrap around; the places where the code uses a narrower type keep that width.
\<close>

type_synonym u8 = "8 word"
type_synonym u16 = "16 word"
type_synonym u32 = "32 word"
type_synonym u64 = "64 word"
type_synonym bytes = "u8 list"

text \<open>The collections: facts about C memory, about lengths of arrays, and about single bits.\<close>

named_theorems mem_simps \<open>reading and writing C memory\<close>
named_theorems len_simps \<open>lengths that operations keep\<close>
named_theorems bit_facts \<open>single bits of the results of word operations\<close>

subsection \<open>C memory\<close>

text \<open>\<open>memcpy(dst + off, src, n)\<close>: the memory of \<open>dst\<close> afterwards.\<close>

definition memcpy_at :: "'a list \<Rightarrow> nat \<Rightarrow> 'a list \<Rightarrow> nat \<Rightarrow> 'a list" where
  "memcpy_at dst off src n = take off dst @ take n src @ drop (off + n) dst"

text \<open>\<open>memset(dst + off, c, n)\<close>.\<close>

definition memset_at :: "'a list \<Rightarrow> nat \<Rightarrow> 'a \<Rightarrow> nat \<Rightarrow> 'a list" where
  "memset_at dst off c n = take off dst @ replicate n c @ drop (off + n) dst"

lemma length_memcpy_at [mem_simps, len_simps, simp]:
  "off + n \<le> length dst \<Longrightarrow> n \<le> length src \<Longrightarrow> length (memcpy_at dst off src n) = length dst"
  by (simp add: memcpy_at_def)

lemma length_memset_at [mem_simps, len_simps, simp]:
  "off + n \<le> length dst \<Longrightarrow> length (memset_at dst off c n) = length dst"
  by (simp add: memset_at_def)

lemma memcpy_at_0 [mem_simps, simp]: "memcpy_at dst off src 0 = dst"
  by (simp add: memcpy_at_def)

text \<open>A copy to the start of the destination.\<close>

lemma memcpy_at_start [mem_simps]: "memcpy_at dst 0 src n = take n src @ drop n dst"
  by (simp add: memcpy_at_def)

lemma take_memcpy_at [mem_simps]:
  "off \<le> length dst \<Longrightarrow> n \<le> length src \<Longrightarrow> m = off + n \<Longrightarrow>
   take m (memcpy_at dst off src n) = take off dst @ take n src"
  by (simp add: memcpy_at_def)

lemma memcpy_at_full [mem_simps]:
  "off \<le> length dst \<Longrightarrow> n = length dst - off \<Longrightarrow> n \<le> length src \<Longrightarrow>
   memcpy_at dst off src n = take off dst @ take n src"
  by (simp add: memcpy_at_def)

lemma memset_at_full [mem_simps]:
  "off \<le> length dst \<Longrightarrow> n = length dst - off \<Longrightarrow>
   memset_at dst off c n = take off dst @ replicate n c"
  by (simp add: memset_at_def)

lemma nth_memcpy_at:
  "off + n \<le> length dst \<Longrightarrow> n \<le> length src \<Longrightarrow> i < length dst \<Longrightarrow>
   memcpy_at dst off src n ! i =
     (if i < off then dst ! i else if i < off + n then src ! (i - off) else dst ! i)"
  by (auto simp: memcpy_at_def nth_append min_def)

subsection \<open>Accesses to arrays\<close>

text \<open>An access outside the array is \<^term>\<open>None\<close>.\<close>

definition nth_opt :: "'a list \<Rightarrow> nat \<Rightarrow> 'a option" where
  "nth_opt xs i = (if i < length xs then Some (xs ! i) else None)"

definition upd_opt :: "'a list \<Rightarrow> nat \<Rightarrow> 'a \<Rightarrow> 'a list option" where
  "upd_opt xs i x = (if i < length xs then Some (xs[i := x]) else None)"

subsection \<open>Option programs that return\<close>

text \<open>\<open>returns m P\<close>: the program \<open>m\<close> returns, with a result that satisfies \<open>P\<close>.\<close>

definition returns :: "'a option \<Rightarrow> ('a \<Rightarrow> bool) \<Rightarrow> bool" where
  "returns m P \<longleftrightarrow> (\<exists>x. m = Some x \<and> P x)"

named_theorems wp \<open>rules for returns\<close>

lemma returns_Some [wp]: "P x \<Longrightarrow> returns (Some x) P"
  by (simp add: returns_def)

lemma returns_bind [wp]: "returns m (\<lambda>x. returns (f x) P) \<Longrightarrow> returns (Option.bind m f) P"
  by (auto simp: returns_def)

lemma returns_map [wp]: "returns m (\<lambda>x. P (f x)) \<Longrightarrow> returns (map_option f m) P"
  by (auto simp: returns_def)

lemma returns_Some_iff: "returns (Some x) P = P x"
  by (simp add: returns_def)

lemma returns_nth_opt [wp]: "i < length xs \<Longrightarrow> P (xs ! i) \<Longrightarrow> returns (nth_opt xs i) P"
  by (simp add: returns_def nth_opt_def)

lemma returns_upd_opt [wp]: "i < length xs \<Longrightarrow> P (xs[i := x]) \<Longrightarrow> returns (upd_opt xs i x) P"
  by (simp add: returns_def upd_opt_def)

lemma returns_mono: "returns m P \<Longrightarrow> (\<And>x. P x \<Longrightarrow> Q x) \<Longrightarrow> returns m Q"
  by (auto simp: returns_def)

text \<open>
  \<open>yields Q m P\<close>: the program \<open>m\<close> returns with a result that satisfies \<open>P\<close>, or it does not return and
  \<open>Q\<close> holds, the reason why it may not.
\<close>

definition yields :: "bool \<Rightarrow> 'a option \<Rightarrow> ('a \<Rightarrow> bool) \<Rightarrow> bool" where
  "yields Q m P \<longleftrightarrow> (case m of None \<Rightarrow> Q | Some x \<Rightarrow> P x)"

lemma yields_Some: "yields Q (Some x) P = P x"
  by (simp add: yields_def)

lemma yields_bind: "yields Q m (\<lambda>x. yields Q (f x) P) \<Longrightarrow> yields Q (Option.bind m f) P"
  by (cases m) (auto simp: yields_def)

lemma yields_map: "yields Q m (\<lambda>x. P (f x)) \<Longrightarrow> yields Q (map_option f m) P"
  by (cases m) (auto simp: yields_def)

lemma yields_mono: "yields Q m P \<Longrightarrow> (\<And>x. m = Some x \<Longrightarrow> P x \<Longrightarrow> P' x) \<Longrightarrow> yields Q m P'"
  by (cases m) (auto simp: yields_def)

lemma returns_yields: "returns m P \<Longrightarrow> yields Q m P"
  by (auto simp: returns_def yields_def)

subsection \<open>Arrays of a fixed size\<close>

lemma list_update_Cons_numeral [simp]: "(x # xs)[numeral v := y] = x # xs[numeral v - 1 := y]"
  by (cases "numeral v :: nat") simp_all

lemma list_eq_map_nth: "length xs = n \<Longrightarrow> xs = map (\<lambda>i. xs ! i) [0..<n]"
  by (metis map_nth)

lemma map_nth_id: "length xs = n \<Longrightarrow> map (\<lambda>i. xs ! i) [0..<n] = xs"
  by (metis map_nth)

lemma concat_const_length:
  "(\<And>x. x \<in> set xs \<Longrightarrow> length (f x) = n) \<Longrightarrow> length (concat (map f xs)) = n * length xs"
  by (induction xs) auto

subsection \<open>Rotations\<close>

text \<open>
  The idiom \<open>(x >> n) | (x << (w - n))\<close> of the sources is the library's rotation for the
  rotation counts that occur, \<open>0 < n < w\<close>.
\<close>

lemma rotr_idiom:
  fixes x :: "'a::len word"
  assumes "0 < n" and "n < LENGTH('a)"
  shows "drop_bit n x OR push_bit (LENGTH('a) - n) x = word_rotr n x"
proof (rule bit_word_eqI)
  fix m
  assume m: "m < LENGTH('a)"
  have *: "(m + n) mod LENGTH('a) = (if m + n < LENGTH('a) then m + n else m + n - LENGTH('a))"
    using m assms by (simp add: mod_if)
  show "bit (drop_bit n x OR push_bit (LENGTH('a) - n) x) m = bit (word_rotr n x) m"
  proof (cases "m + n < LENGTH('a)")
    case True
    then have "\<not> LENGTH('a) - n \<le> m" by linarith
    with m True show ?thesis
      by (simp add: bit_or_iff bit_drop_bit_eq bit_push_bit_iff bit_word_rotr_iff * add.commute)
  next
    case False
    with m assms have "\<not> bit x (n + m)" "LENGTH('a) - n \<le> m" "m - (LENGTH('a) - n) = m + n - LENGTH('a)"
      by (auto dest: bit_imp_le_length)
    with m False show ?thesis
      by (simp add: bit_or_iff bit_drop_bit_eq bit_push_bit_iff bit_word_rotr_iff *)
  qed
qed

subsection \<open>Counters of several words\<close>

text \<open>The carry of a sum is read off the low word.\<close>

lemma add_carry:
  fixes n k M :: nat
  assumes "k < M"
  shows "(n + k) div M = n div M + (if (n + k) mod M < k then 1 else 0)"
proof -
  have "n + k = (n mod M + k) + n div M * M" using mod_div_mult_eq [of n M] by linarith
  then have "(n + k) div M = ((n mod M + k) + n div M * M) div M" by (rule arg_cong)
  also have "\<dots> = n div M + (n mod M + k) div M" by (rule div_mult_self1) (use assms in simp)
  finally have d: "(n + k) div M = n div M + (n mod M + k) div M" .
  have m: "(n + k) mod M = (n mod M + k) mod M" by (simp add: mod_add_left_eq)
  have lt: "n mod M < M" using assms by simp
  show ?thesis
  proof (cases "n mod M + k < M")
    case True
    then show ?thesis by (simp add: d m)
  next
    case False
    moreover have "n mod M + k - M < M" "n mod M + k - M < k" using False assms lt by linarith+
    ultimately have "(n mod M + k) div M = 1" "(n mod M + k) mod M < k"
      by (simp_all add: le_div_geq le_mod_geq)
    then show ?thesis by (simp only: d m if_True)
  qed
qed

end
