(* ===== verification/Endian.thy ===== *)
theory Endian
  imports Prelude
begin

text \<open>
  \<open>crypto/randomx/blake2/endian.h\<close> and \<open>crypto/randomx/blake2/blake2-impl.h\<close>: loading and
  storing little-endian words, and the rotations. The header has two branches: on a
  little-endian machine a word is copied with \<open>memcpy\<close>, which reads its object
  representation (\<open>le_word\<close>, \<open>le_bytes\<close> below); elsewhere it is assembled from shifted bytes.
  Both branches are modelled (\<open>load64\<close> and \<open>load64_portable\<close>), and proved equal.
\<close>

subsection \<open>Object representation of a word on a little-endian machine\<close>

fun le_word :: "bytes \<Rightarrow> 'a::len word" where
  "le_word [] = 0"
| "le_word (b # bs) = ucast b OR push_bit 8 (le_word bs)"

fun le_bytes :: "nat \<Rightarrow> 'a::len word \<Rightarrow> bytes" where
  "le_bytes 0 w = []"
| "le_bytes (Suc n) w = ucast w # le_bytes n (drop_bit 8 w)"

lemma length_le_bytes [len_simps, simp]: "length (le_bytes n w) = n"
  by (induction n arbitrary: w) auto

lemma nth_le_bytes: "i < n \<Longrightarrow> le_bytes n w ! i = ucast (drop_bit (8 * i) w)"
proof (induction n arbitrary: w i)
  case (Suc n)
  then show ?case by (cases i) (simp_all add: add.commute)
qed simp

lemma bit_u8 [bit_facts]: "bit (b :: u8) n \<Longrightarrow> n < 8"
  using bit_imp_le_length by fastforce

lemma bit_le_word [bit_facts]:
  "bit (le_word bs :: 'a::len word) i \<longleftrightarrow>
     i < LENGTH('a) \<and> i < 8 * length bs \<and> bit (bs ! (i div 8)) (i mod 8)"
proof (induction bs arbitrary: i)
  case Nil
  then show ?case by simp
next
  case (Cons b bs)
  show ?case
  proof (cases "i < 8")
    case True
    then show ?thesis by (auto simp: bit_or_iff bit_push_bit_iff bit_unsigned_iff)
  next
    case False
    then have d: "i div 8 = Suc ((i - 8) div 8)" "i mod 8 = (i - 8) mod 8"
      by (auto simp: div_if mod_if)
    from False show ?thesis
      by (auto simp: bit_or_iff bit_push_bit_iff bit_unsigned_iff Cons.IH d dest: bit_u8)
  qed
qed

lemma le_word_le_bytes [simp]:
  fixes w :: "'a::len word"
  assumes "LENGTH('a) \<le> 8 * n"
  shows "le_word (le_bytes n w) = w"
proof (rule bit_word_eqI)
  fix i assume i: "i < LENGTH('a)"
  with assms have "i div 8 < n" by linarith
  moreover have "8 * (i div 8) + i mod 8 = i" by simp
  ultimately show "bit (le_word (le_bytes n w) :: 'a word) i = bit w i"
    using i assms by (simp add: bit_le_word nth_le_bytes bit_unsigned_iff bit_drop_bit_eq)
qed

lemma le_bytes_le_word:
  fixes bs :: bytes
  assumes "8 * length bs \<le> LENGTH('a::len)" and "n = length bs"
  shows "le_bytes n (le_word bs :: 'a word) = bs"
proof (rule nth_equalityI)
  fix k assume "k < length (le_bytes n (le_word bs :: 'a word))"
  then have k: "k < length bs" using assms by simp
  show "le_bytes n (le_word bs :: 'a word) ! k = bs ! k"
  proof (rule bit_word_eqI)
    fix j assume "j < LENGTH(8)"
    then have j: "j < 8" by simp
    from k j have "8 * k + j < 8 * length bs" by linarith
    then show "bit (le_bytes n (le_word bs :: 'a word) ! k) j = bit (bs ! k) j"
      using k j assms by (simp add: nth_le_bytes bit_unsigned_iff bit_drop_bit_eq bit_le_word)
  qed
qed (use assms in simp)

subsection \<open>endian.h: the portable branches\<close>

definition load32_portable :: "bytes \<Rightarrow> u32" where
  "load32_portable p =
     (let w = ucast (p ! 0);
          w = w OR push_bit 8 (ucast (p ! 1));
          w = w OR push_bit 16 (ucast (p ! 2));
          w = w OR push_bit 24 (ucast (p ! 3))
      in w)"

definition load64_portable :: "bytes \<Rightarrow> u64" where
  "load64_portable p =
     (let w = ucast (p ! 0);
          w = w OR push_bit 8 (ucast (p ! 1));
          w = w OR push_bit 16 (ucast (p ! 2));
          w = w OR push_bit 24 (ucast (p ! 3));
          w = w OR push_bit 32 (ucast (p ! 4));
          w = w OR push_bit 40 (ucast (p ! 5));
          w = w OR push_bit 48 (ucast (p ! 6));
          w = w OR push_bit 56 (ucast (p ! 7))
      in w)"

text \<open>The stores are given as the bytes they write at \<open>dst\<close>.\<close>

definition store32_portable :: "u32 \<Rightarrow> bytes" where
  "store32_portable w =
     (let b0 = ucast w; w = drop_bit 8 w;
          b1 = ucast w; w = drop_bit 8 w;
          b2 = ucast w; w = drop_bit 8 w
      in [b0, b1, b2, ucast w])"

definition store64_portable :: "u64 \<Rightarrow> bytes" where
  "store64_portable w =
     (let b0 = ucast w; w = drop_bit 8 w;
          b1 = ucast w; w = drop_bit 8 w;
          b2 = ucast w; w = drop_bit 8 w;
          b3 = ucast w; w = drop_bit 8 w;
          b4 = ucast w; w = drop_bit 8 w;
          b5 = ucast w; w = drop_bit 8 w;
          b6 = ucast w; w = drop_bit 8 w
      in [b0, b1, b2, b3, b4, b5, b6, ucast w])"

subsection \<open>endian.h: the native branches\<close>

definition load32 :: "bytes \<Rightarrow> u32" where
  "load32 src = le_word (take 4 src)"

definition load64_native :: "bytes \<Rightarrow> u64" where
  "load64_native src = le_word (take 8 src)"

definition load64 :: "bytes \<Rightarrow> u64" where
  "load64 src = load64_native src"

definition store32 :: "u32 \<Rightarrow> bytes" where
  "store32 w = le_bytes 4 w"

definition store64_native :: "u64 \<Rightarrow> bytes" where
  "store64_native w = le_bytes 8 w"

definition store64 :: "u64 \<Rightarrow> bytes" where
  "store64 w = store64_native w"

lemma length_store32 [len_simps, simp]: "length (store32 w) = 4"
  by (simp add: store32_def)

lemma length_store64 [len_simps, simp]: "length (store64 w) = 8"
  by (simp add: store64_def store64_native_def)

subsection \<open>blake2-impl.h\<close>

definition load48 :: "bytes \<Rightarrow> u64" where
  "load48 p =
     (let w = ucast (p ! 0);
          w = w OR push_bit 8 (ucast (p ! 1));
          w = w OR push_bit 16 (ucast (p ! 2));
          w = w OR push_bit 24 (ucast (p ! 3));
          w = w OR push_bit 32 (ucast (p ! 4));
          w = w OR push_bit 40 (ucast (p ! 5))
      in w)"

definition store48 :: "u64 \<Rightarrow> bytes" where
  "store48 w =
     (let b0 = ucast w; w = drop_bit 8 w;
          b1 = ucast w; w = drop_bit 8 w;
          b2 = ucast w; w = drop_bit 8 w;
          b3 = ucast w; w = drop_bit 8 w;
          b4 = ucast w; w = drop_bit 8 w
      in [b0, b1, b2, b3, b4, ucast w])"

definition rotr32 :: "u32 \<Rightarrow> nat \<Rightarrow> u32" where
  "rotr32 w c = drop_bit c w OR push_bit (32 - c) w"

definition rotr64 :: "u64 \<Rightarrow> nat \<Rightarrow> u64" where
  "rotr64 w c = drop_bit c w OR push_bit (64 - c) w"

lemma rotr64_word_rotr: "0 < c \<Longrightarrow> c < 64 \<Longrightarrow> rotr64 w c = word_rotr c w"
  using rotr_idiom [of c w] by (simp add: rotr64_def)

lemma rotr32_word_rotr: "0 < c \<Longrightarrow> c < 32 \<Longrightarrow> rotr32 w c = word_rotr c w"
  using rotr_idiom [of c w] by (simp add: rotr32_def)

subsection \<open>The two branches agree; loads and stores are inverse\<close>

lemma take_nth_expand:
  "4 \<le> length p \<Longrightarrow> take 4 p = [p ! 0, p ! 1, p ! 2, p ! 3]"
  "6 \<le> length p \<Longrightarrow> take 6 p = [p ! 0, p ! 1, p ! 2, p ! 3, p ! 4, p ! 5]"
  "8 \<le> length p \<Longrightarrow> take 8 p = [p ! 0, p ! 1, p ! 2, p ! 3, p ! 4, p ! 5, p ! 6, p ! 7]"
  by (rule nth_equalityI; auto simp: less_Suc_eq numeral_eq_Suc)+

lemma load48_le_word: "6 \<le> length p \<Longrightarrow> load48 p = le_word (take 6 p)"
  by (simp add: load48_def take_nth_expand Let_def or.assoc)

lemma store48_le_bytes: "store48 w = le_bytes 6 w"
  by (simp add: store48_def Let_def numeral_eq_Suc)

lemma load32_store32 [simp]: "load32 (store32 w) = w"
  by (simp add: load32_def store32_def)

lemma load64_store64 [simp]: "load64 (store64 w) = w"
  by (simp add: load64_def load64_native_def store64_def store64_native_def)

text \<open>
  On any machine \<open>load64\<close>, \<open>store64\<close>, \<open>load32\<close> and \<open>store32\<close> mean the same: the portable
  branch that assembles a word from shifted bytes reads the same value as the branch that
  copies the object representation, and the portable stores write the same bytes.
\<close>

theorem endian_portable_native:
  "(8 \<le> length p \<longrightarrow> load64_portable p = load64 p) \<and>
   (4 \<le> length p \<longrightarrow> load32_portable p = load32 p) \<and>
   store64_portable v = store64 v \<and> store32_portable w = store32 w"
proof -
  have "8 \<le> length p \<Longrightarrow> load64_portable p = load64 p"
    by (simp add: load64_portable_def load64_def load64_native_def take_nth_expand Let_def or.assoc)
  moreover have "4 \<le> length p \<Longrightarrow> load32_portable p = load32 p"
    by (simp add: load32_portable_def load32_def take_nth_expand Let_def or.assoc)
  moreover have "store64_portable v = store64 v"
    by (simp add: store64_portable_def store64_def store64_native_def Let_def numeral_eq_Suc)
  moreover have "store32_portable w = store32 w"
    by (simp add: store32_portable_def store32_def Let_def numeral_eq_Suc)
  ultimately show ?thesis by blast
qed

end
