(* ===== verification/Stream_Hash.thy ===== *)
theory Stream_Hash
  imports Prelude
begin

text \<open>
  The interface the hash functions of the library share. Each of them keeps a chaining value
  and a buffer of message bytes, takes the message in pieces of any size, and compresses a
  block of \<open>B\<close> bytes whenever the buffered and incoming bytes together reach a threshold:
  more than \<open>B\<close> bytes for BLAKE2b and Skein, which keep the last block back for the
  finalisation, and at least \<open>B\<close> bytes for the others.

  \<open>absorb\<close> is the abstract specification of such an update, on the whole message at once. The
  locale \<open>stream_hash\<close> states that an implementation's update refines it, and proves once what
  every user of an incremental hash relies on: cutting the message in pieces does not change
  the result.
\<close>

subsection \<open>The abstract update\<close>

text \<open>\<open>step c b\<close> is the chaining value after one block; \<open>k\<close> is the threshold.\<close>

fun absorb :: "nat \<Rightarrow> nat \<Rightarrow> ('c \<Rightarrow> 'b list \<Rightarrow> 'c) \<Rightarrow> 'c \<Rightarrow> 'b list \<Rightarrow> 'c \<times> 'b list" where
  "absorb B k step c zs =
     (if 0 < B \<and> B \<le> k \<and> k \<le> length zs
      then absorb B k step (step c (take B zs)) (drop B zs)
      else (c, zs))"

declare absorb.simps [simp del]

lemma absorb_short: "length zs < k \<Longrightarrow> absorb B k step c zs = (c, zs)"
  by (subst absorb.simps) simp

lemma absorb_step:
  "0 < B \<Longrightarrow> B \<le> k \<Longrightarrow> k \<le> length zs \<Longrightarrow>
   absorb B k step c zs = absorb B k step (step c (take B zs)) (drop B zs)"
  by (subst absorb.simps) simp

lemma absorb_block:
  "0 < B \<Longrightarrow> B \<le> k \<Longrightarrow> length b = B \<Longrightarrow> k \<le> B + length zs \<Longrightarrow>
   absorb B k step c (b @ zs) = absorb B k step (step c b) zs"
  by (simp add: absorb_step)

lemma absorb_append:
  assumes "0 < B" and "B \<le> k"
  shows "absorb B k step c (xs @ ys) =
    (case absorb B k step c xs of (c', r) \<Rightarrow> absorb B k step c' (r @ ys))"
proof (induction "length xs" arbitrary: c xs rule: less_induct)
  case less
  show ?case
  proof (cases "k \<le> length xs")
    case True
    with assms less show ?thesis by (simp add: absorb_step [of B k])
  next
    case False
    then show ?thesis by (simp add: absorb_short)
  qed
qed

lemma length_snd_absorb:
  "0 < B \<Longrightarrow> B \<le> k \<Longrightarrow> length (snd (absorb B k step c zs)) < k"
proof (induction B k step c zs rule: absorb.induct)
  case (1 B k step c zs)
  then show ?case
    by (cases "k \<le> length zs") (auto simp: absorb_step absorb_short)
qed

text \<open>The bytes kept back are the end of the message: nothing is lost or reordered.\<close>

lemma absorb_suffix:
  "0 < B \<Longrightarrow> B \<le> k \<Longrightarrow>
   \<exists>n. snd (absorb B k step c zs) = drop (n * B) zs \<and> n * B \<le> length zs"
proof (induction B k step c zs rule: absorb.induct)
  case (1 B k step c zs)
  show ?case
  proof (cases "k \<le> length zs")
    case True
    with 1 obtain n where n: "snd (absorb B k step (step c (take B zs)) (drop B zs))
        = drop (n * B) (drop B zs)" "n * B \<le> length (drop B zs)"
      by auto
    with True "1.prems" have "snd (absorb B k step c zs) = drop (Suc n * B) zs"
      "Suc n * B \<le> length zs"
      by (auto simp: absorb_step add.commute)
    then show ?thesis by blast
  next
    case False
    then have "snd (absorb B k step c zs) = drop (0 * B) zs" by (simp add: absorb_short)
    then show ?thesis by (metis le0 mult_0)
  qed
qed

text \<open>An invariant of the chaining value that every block keeps holds after any message.\<close>

lemma absorb_invariant:
  assumes "\<And>c b. P c \<Longrightarrow> length b = B \<Longrightarrow> P (step c b)" and "B \<le> k" and "0 < B" and "P c"
  shows "P (fst (absorb B k step c zs))"
  using assms(4)
proof (induction "length zs" arbitrary: c zs rule: less_induct)
  case less
  show ?case
  proof (cases "k \<le> length zs")
    case True
    with assms(2,3) less show ?thesis by (simp add: absorb_step assms(1))
  next
    case False
    with less show ?thesis by (simp add: absorb_short)
  qed
qed

text \<open>A function of the chaining value that commutes with the blocks commutes with the message.\<close>

lemma absorb_map:
  assumes "\<And>c b. f (step c b) = step' (f c) b"
  shows "absorb B k step' (f c) zs = (f (fst (absorb B k step c zs)), snd (absorb B k step c zs))"
proof (induction "length zs" arbitrary: c zs rule: less_induct)
  case less
  show ?case
  proof (cases "0 < B \<and> B \<le> k \<and> k \<le> length zs")
    case True
    then have "length (drop B zs) < length zs" by auto
    with True less [of "drop B zs" "step c (take B zs)"] show ?thesis
      by (simp add: absorb_step assms)
  next
    case False
    then show ?thesis by (subst (1 2 3) absorb.simps) auto
  qed
qed

subsection \<open>The contract of an incremental hash\<close>

locale stream_hash =
  fixes B :: nat
    and k :: nat
    and step :: "'c \<Rightarrow> bytes \<Rightarrow> 'c"
    and upd :: "'s \<Rightarrow> bytes \<Rightarrow> 's"
    and chain :: "'s \<Rightarrow> 'c"
    and pend :: "'s \<Rightarrow> bytes"
    and inv :: "'s \<Rightarrow> bool"
  assumes block_pos: "0 < B"
    and block_le: "B \<le> k"
    and upd_inv: "inv s \<Longrightarrow> inv (upd s m)"
    and upd_refines: "inv s \<Longrightarrow> (chain (upd s m), pend (upd s m)) = absorb B k step (chain s) (pend s @ m)"
begin

lemma upd_append:
  assumes "inv s"
  shows "chain (upd (upd s a) b) = chain (upd s (a @ b)) \<and> pend (upd (upd s a) b) = pend (upd s (a @ b))"
proof -
  have "(chain (upd (upd s a) b), pend (upd (upd s a) b))
      = absorb B k step (chain (upd s a)) (pend (upd s a) @ b)"
    by (rule upd_refines) (rule upd_inv [OF assms])
  also have "\<dots> = (case absorb B k step (chain s) (pend s @ a) of (c', r) \<Rightarrow> absorb B k step c' (r @ b))"
    by (simp flip: upd_refines [OF assms])
  also have "\<dots> = absorb B k step (chain s) (pend s @ a @ b)"
    using absorb_append [OF block_pos block_le, of step "chain s" "pend s @ a" b] by simp
  also have "\<dots> = (chain (upd s (a @ b)), pend (upd s (a @ b)))"
    by (simp add: upd_refines [OF assms])
  finally show ?thesis by simp
qed

lemma foldl_upd_inv: "inv s \<Longrightarrow> inv (foldl upd s ms)"
  by (induction ms arbitrary: s) (auto intro: upd_inv)

lemma foldl_upd_refines:
  assumes "inv s" and "length (pend s) < k"
  shows "(chain (foldl upd s ms), pend (foldl upd s ms)) = absorb B k step (chain s) (pend s @ concat ms)"
  using assms
proof (induction ms arbitrary: s)
  case Nil
  then show ?case by (simp add: absorb_short)
next
  case (Cons m ms)
  have "length (pend (upd s m)) < k"
    using length_snd_absorb [OF block_pos block_le, of step "chain s" "pend s @ m"]
    by (simp flip: upd_refines [OF \<open>inv s\<close>])
  then have "(chain (foldl upd s (m # ms)), pend (foldl upd s (m # ms)))
      = absorb B k step (chain (upd s m)) (pend (upd s m) @ concat ms)"
    using Cons.IH [OF upd_inv [OF \<open>inv s\<close>]] by simp
  also have "\<dots> = (case absorb B k step (chain s) (pend s @ m) of (c', r) \<Rightarrow> absorb B k step c' (r @ concat ms))"
    by (simp flip: upd_refines [OF \<open>inv s\<close>])
  also have "\<dots> = absorb B k step (chain s) (pend s @ concat (m # ms))"
    using absorb_append [OF block_pos block_le, of step "chain s" "pend s @ m" "concat ms"] by simp
  finally show ?case .
qed

end

text \<open>
  An update that keeps the contract only for some pieces: \<open>adm p m\<close> says that the piece \<open>m\<close> may
  be given while the bytes \<open>p\<close> are held back.
\<close>

locale guarded_stream =
  fixes B :: nat
    and k :: nat
    and step :: "'c \<Rightarrow> bytes \<Rightarrow> 'c"
    and upd :: "'s \<Rightarrow> bytes \<Rightarrow> 's"
    and chain :: "'s \<Rightarrow> 'c"
    and pend :: "'s \<Rightarrow> bytes"
    and inv :: "'s \<Rightarrow> bool"
    and adm :: "bytes \<Rightarrow> bytes \<Rightarrow> bool"
  assumes gblock_pos: "0 < B"
    and gblock_le: "B \<le> k"
    and gupd_inv: "inv s \<Longrightarrow> adm (pend s) m \<Longrightarrow> inv (upd s m)"
    and gupd_refines: "inv s \<Longrightarrow> adm (pend s) m \<Longrightarrow>
      (chain (upd s m), pend (upd s m)) = absorb B k step (chain s) (pend s @ m)"
begin

text \<open>A whole sequence of pieces is admissible when each is, after the ones before it.\<close>

primrec adm_all :: "'c \<Rightarrow> bytes \<Rightarrow> bytes list \<Rightarrow> bool" where
  "adm_all c p [] = True"
| "adm_all c p (m # ms) =
     (adm p m \<and> (case absorb B k step c (p @ m) of (c', p') \<Rightarrow> adm_all c' p' ms))"

lemma gfoldl_upd:
  assumes "inv s" and "length (pend s) < k" and "adm_all (chain s) (pend s) ms"
  shows "inv (foldl upd s ms) \<and>
    (chain (foldl upd s ms), pend (foldl upd s ms)) = absorb B k step (chain s) (pend s @ concat ms)"
  using assms
proof (induction ms arbitrary: s)
  case Nil
  then show ?case by (simp add: absorb_short)
next
  case (Cons m ms)
  note r = gupd_refines [of s m]
  have a: "adm (pend s) m" using Cons.prems(3) by simp
  note u = r [OF Cons.prems(1) a]
  have "length (pend (upd s m)) < k"
    using length_snd_absorb [OF gblock_pos gblock_le, of step "chain s" "pend s @ m"] by (simp flip: u)
  moreover have "adm_all (chain (upd s m)) (pend (upd s m)) ms"
    using Cons.prems(3) by (simp flip: u)
  ultimately have "inv (foldl upd s (m # ms)) \<and> (chain (foldl upd s (m # ms)), pend (foldl upd s (m # ms)))
      = absorb B k step (chain (upd s m)) (pend (upd s m) @ concat ms)"
    using Cons.IH [OF gupd_inv [OF Cons.prems(1) a]] by simp
  also have "absorb B k step (chain (upd s m)) (pend (upd s m) @ concat ms)
      = (case absorb B k step (chain s) (pend s @ m) of (c', r) \<Rightarrow> absorb B k step c' (r @ concat ms))"
    by (simp flip: u)
  also have "\<dots> = absorb B k step (chain s) (pend s @ concat (m # ms))"
    using absorb_append [OF gblock_pos gblock_le, of step "chain s" "pend s @ m" "concat ms"] by simp
  finally show ?case .
qed

text \<open>Pieces that are admissible whatever is held back can be given in any order.\<close>

lemma adm_all_any: "(\<And>m p. m \<in> set ms \<Longrightarrow> length p < k \<Longrightarrow> adm p m) \<Longrightarrow> length p < k \<Longrightarrow> adm_all c p ms"
proof (induction ms arbitrary: c p)
  case (Cons m ms)
  have "length (snd (absorb B k step c (p @ m))) < k"
    by (rule length_snd_absorb [OF gblock_pos gblock_le])
  with Cons show ?case by (simp add: case_prod_beta)
qed simp

end

text \<open>An unguarded stream is a guarded one that admits every piece.\<close>

sublocale stream_hash \<subseteq> guarded_stream B k step upd chain pend inv "\<lambda>p m. True"
  by unfold_locales (auto intro: block_pos block_le upd_inv upd_refines)

text \<open>With a finalisation that looks only at the chaining value and the bytes kept back.\<close>

locale stream_digest = stream_hash B k step upd chain pend inv
  for B k and step :: "'c \<Rightarrow> bytes \<Rightarrow> 'c" and upd :: "'s \<Rightarrow> bytes \<Rightarrow> 's"
    and chain :: "'s \<Rightarrow> 'c" and pend :: "'s \<Rightarrow> bytes" and inv :: "'s \<Rightarrow> bool" +
  fixes fin :: "'s \<Rightarrow> 'd"
    and digest :: "'c \<Rightarrow> bytes \<Rightarrow> 'd"
  assumes fin_refines: "inv s \<Longrightarrow> fin s = digest (chain s) (pend s)"
begin

definition hash_spec :: "'s \<Rightarrow> bytes \<Rightarrow> 'd" where
  "hash_spec s msg = case_prod digest (absorb B k step (chain s) (pend s @ msg))"

lemma fin_upd: "inv s \<Longrightarrow> fin (upd s m) = hash_spec s m"
  using upd_refines [of s m] fin_refines [OF upd_inv [of s m]]
  by (simp add: hash_spec_def flip: upd_refines)

lemma fin_chunks:
  "inv s \<Longrightarrow> length (pend s) < k \<Longrightarrow> fin (foldl upd s ms) = hash_spec s (concat ms)"
  using foldl_upd_refines [of s ms] fin_refines [OF foldl_upd_inv [of s ms]]
  by (simp add: hash_spec_def flip: foldl_upd_refines)

lemma fin_chunks_one:
  "inv s \<Longrightarrow> length (pend s) < k \<Longrightarrow> fin (foldl upd s ms) = fin (upd s (concat ms))"
  by (simp add: fin_chunks fin_upd)

end

end
