(* ===== verification/Blake2b.thy ===== *)
theory Blake2b
  imports Endian Stream_Hash
begin

text \<open>
  \<open>crypto/randomx/blake2/blake2b.c\<close> with its header \<open>blake2.h\<close>: the BLAKE2b hash, as an
  incremental API (\<open>init\<close>, \<open>update\<close>, \<open>final\<close>), as one call (\<open>rx_blake2b\<close>), and the
  variable-length hash Argon2 builds from it (\<open>rxa2_blake2b_long\<close>). The theory
  \<open>Blake2b_RFC\<close> relates them to the published specifications. Every function returns its
  C result (0 or -1) and the memory it wrote; a state or data pointer that the code compares
  with \<open>NULL\<close> is an option.
\<close>

subsection \<open>blake2.h: constants and data\<close>

definition BLAKE2B_BLOCKBYTES :: nat where "BLAKE2B_BLOCKBYTES = 128"
definition BLAKE2B_OUTBYTES :: nat where "BLAKE2B_OUTBYTES = 64"
definition BLAKE2B_KEYBYTES :: nat where "BLAKE2B_KEYBYTES = 64"
definition BLAKE2B_SALTBYTES :: nat where "BLAKE2B_SALTBYTES = 16"
definition BLAKE2B_PERSONALBYTES :: nat where "BLAKE2B_PERSONALBYTES = 16"

lemmas blake2b_constants [simp] =
  BLAKE2B_BLOCKBYTES_def BLAKE2B_OUTBYTES_def BLAKE2B_KEYBYTES_def
  BLAKE2B_SALTBYTES_def BLAKE2B_PERSONALBYTES_def

record blake2b_param =
  digest_length :: u8
  key_length :: u8
  fanout :: u8
  depth :: u8
  leaf_length :: u32
  node_offset :: u64
  node_depth :: u8
  inner_length :: u8
  reserved :: bytes
  salt :: bytes
  personal :: bytes

text \<open>The packed struct seen as bytes, \<open>(const unsigned char *)P\<close>.\<close>

definition param_bytes :: "blake2b_param \<Rightarrow> bytes" where
  "param_bytes P =
     [digest_length P, key_length P, fanout P, depth P] @ store32 (leaf_length P) @
     store64 (node_offset P) @ [node_depth P, inner_length P] @ reserved P @ salt P @ personal P"

text \<open>
  \<open>buflen\<close> and \<open>outlen\<close> are \<open>unsigned\<close> in the code and never exceed 128 and 255
  (\<open>blake2b_wf\<close>), so they are natural numbers here.
\<close>

record blake2b_state =
  b2_h :: "u64 list"
  b2_t :: "u64 list"
  b2_f :: "u64 list"
  b2_buf :: bytes
  b2_buflen :: nat
  b2_outlen :: nat
  last_node :: u8

definition blake2b_IV :: "u64 list" where
  "blake2b_IV =
     [0x6a09e667f3bcc908, 0xbb67ae8584caa73b,
      0x3c6ef372fe94f82b, 0xa54ff53a5f1d36f1,
      0x510e527fade682d1, 0x9b05688c2b3e6c1f,
      0x1f83d9abfb41bd6b, 0x5be0cd19137e2179]"

definition blake2b_sigma :: "nat list list" where
  "blake2b_sigma =
     [[0, 1, 2, 3, 4, 5, 6, 7, 8, 9, 10, 11, 12, 13, 14, 15],
      [14, 10, 4, 8, 9, 15, 13, 6, 1, 12, 0, 2, 11, 7, 5, 3],
      [11, 8, 12, 0, 5, 2, 15, 13, 10, 14, 3, 6, 7, 1, 9, 4],
      [7, 9, 3, 1, 13, 12, 11, 14, 2, 6, 5, 10, 4, 0, 15, 8],
      [9, 0, 5, 7, 2, 4, 10, 15, 14, 1, 11, 12, 6, 8, 3, 13],
      [2, 12, 6, 10, 0, 11, 8, 3, 4, 13, 7, 5, 15, 14, 1, 9],
      [12, 5, 1, 15, 14, 13, 4, 10, 0, 7, 6, 3, 9, 2, 8, 11],
      [13, 11, 7, 14, 12, 1, 3, 9, 5, 0, 15, 4, 8, 6, 2, 10],
      [6, 15, 14, 9, 11, 3, 0, 8, 12, 2, 13, 7, 1, 4, 10, 5],
      [10, 2, 8, 4, 7, 6, 1, 5, 15, 11, 9, 14, 3, 12, 13, 0],
      [0, 1, 2, 3, 4, 5, 6, 7, 8, 9, 10, 11, 12, 13, 14, 15],
      [14, 10, 4, 8, 9, 15, 13, 6, 1, 12, 0, 2, 11, 7, 5, 3]]"

subsection \<open>State helpers\<close>

definition blake2b_set_lastnode :: "blake2b_state \<Rightarrow> blake2b_state" where
  "blake2b_set_lastnode S = S\<lparr>b2_f := (b2_f S)[1 := -1]\<rparr>"

definition blake2b_set_lastblock :: "blake2b_state \<Rightarrow> blake2b_state" where
  "blake2b_set_lastblock S =
     (let S = (if last_node S \<noteq> 0 then blake2b_set_lastnode S else S)
      in S\<lparr>b2_f := (b2_f S)[0 := -1]\<rparr>)"

definition blake2b_increment_counter :: "blake2b_state \<Rightarrow> u64 \<Rightarrow> blake2b_state" where
  "blake2b_increment_counter S inc =
     (let S = S\<lparr>b2_t := (b2_t S)[0 := b2_t S ! 0 + inc]\<rparr>
      in S\<lparr>b2_t := (b2_t S)[1 := b2_t S ! 1 + (if b2_t S ! 0 < inc then 1 else 0)]\<rparr>)"

definition blake2b_invalidate_state :: "blake2b_state \<Rightarrow> blake2b_state" where
  "blake2b_invalidate_state S = blake2b_set_lastblock S"

definition blake2b_init0 :: "blake2b_state \<Rightarrow> blake2b_state" where
  "blake2b_init0 S =
     \<lparr>b2_h = blake2b_IV, b2_t = replicate 2 0, b2_f = replicate 2 0,
      b2_buf = replicate BLAKE2B_BLOCKBYTES 0, b2_buflen = 0, b2_outlen = 0, last_node = 0\<rparr>"

subsection \<open>The compression function\<close>

definition blake2b_G :: "u64 list \<Rightarrow> nat \<Rightarrow> nat \<Rightarrow> nat \<Rightarrow> nat \<Rightarrow> nat \<Rightarrow> nat \<Rightarrow> u64 list \<Rightarrow> u64 list" where
  "blake2b_G m r i a b c d v =
     (let v = v[a := v ! a + v ! b + m ! (blake2b_sigma ! r ! (2 * i + 0))];
          v = v[d := rotr64 (v ! d XOR v ! a) 32];
          v = v[c := v ! c + v ! d];
          v = v[b := rotr64 (v ! b XOR v ! c) 24];
          v = v[a := v ! a + v ! b + m ! (blake2b_sigma ! r ! (2 * i + 1))];
          v = v[d := rotr64 (v ! d XOR v ! a) 16];
          v = v[c := v ! c + v ! d];
          v = v[b := rotr64 (v ! b XOR v ! c) 63]
      in v)"

definition blake2b_ROUND :: "u64 list \<Rightarrow> nat \<Rightarrow> u64 list \<Rightarrow> u64 list" where
  "blake2b_ROUND m r v =
     (let v = blake2b_G m r 0 0 4 8 12 v;
          v = blake2b_G m r 1 1 5 9 13 v;
          v = blake2b_G m r 2 2 6 10 14 v;
          v = blake2b_G m r 3 3 7 11 15 v;
          v = blake2b_G m r 4 0 5 10 15 v;
          v = blake2b_G m r 5 1 6 11 12 v;
          v = blake2b_G m r 6 2 7 8 13 v;
          v = blake2b_G m r 7 3 4 9 14 v
      in v)"

definition rx_blake2b_compress_integer :: "blake2b_state \<Rightarrow> bytes \<Rightarrow> blake2b_state" where
  "rx_blake2b_compress_integer S block =
     (let m = map (\<lambda>i. load64 (drop (i * 8) block)) [0..<16];
          v = map (\<lambda>i. b2_h S ! i) [0..<8] @
              [blake2b_IV ! 0, blake2b_IV ! 1, blake2b_IV ! 2, blake2b_IV ! 3,
               blake2b_IV ! 4 XOR b2_t S ! 0, blake2b_IV ! 5 XOR b2_t S ! 1,
               blake2b_IV ! 6 XOR b2_f S ! 0, blake2b_IV ! 7 XOR b2_f S ! 1];
          v = fold (blake2b_ROUND m) [0..<12] v
      in S\<lparr>b2_h := map (\<lambda>i. b2_h S ! i XOR v ! i XOR v ! (i + 8)) [0..<8]\<rparr>)"

text \<open>\<open>rx_blake2b_compress\<close> without \<open>XMRIG_FEATURE_SSE4_1\<close>.\<close>

definition rx_blake2b_compress :: "blake2b_state \<Rightarrow> bytes \<Rightarrow> blake2b_state" where
  "rx_blake2b_compress S block = rx_blake2b_compress_integer S block"

subsection \<open>The incremental API\<close>

definition rx_blake2b_init_param ::
  "blake2b_state option \<Rightarrow> blake2b_param option \<Rightarrow> int \<times> blake2b_state option" where
  "rx_blake2b_init_param Sp Pp =
     (case (Pp, Sp) of
        (Some P, Some S) \<Rightarrow>
          (let p = param_bytes P;
               S = blake2b_init0 S;
               S = S\<lparr>b2_h := map (\<lambda>i. b2_h S ! i XOR load64 (drop (i * 8) p)) [0..<8]\<rparr>
           in (0, Some (S\<lparr>b2_outlen := unat (digest_length P)\<rparr>)))
      | _ \<Rightarrow> (-1, Sp))"

text \<open>The parameter block both initialisations build, with their key length.\<close>

definition blake2b_params :: "nat \<Rightarrow> nat \<Rightarrow> blake2b_param" where
  "blake2b_params outlen keylen =
     \<lparr>digest_length = of_nat outlen, key_length = of_nat keylen, fanout = 1, depth = 1,
      leaf_length = 0, node_offset = 0, node_depth = 0, inner_length = 0,
      reserved = replicate 14 0, salt = replicate BLAKE2B_SALTBYTES 0,
      personal = replicate BLAKE2B_PERSONALBYTES 0\<rparr>"

definition rx_blake2b_init :: "blake2b_state option \<Rightarrow> nat \<Rightarrow> int \<times> blake2b_state option" where
  "rx_blake2b_init Sp outlen =
     (case Sp of
        None \<Rightarrow> (-1, None)
      | Some S \<Rightarrow>
          if outlen = 0 \<or> outlen > BLAKE2B_OUTBYTES
          then (-1, Some (blake2b_invalidate_state S))
          else rx_blake2b_init_param Sp (Some (blake2b_params outlen 0)))"

text \<open>The loop of \<open>rx_blake2b_update\<close> over the full blocks of the input.\<close>

fun blake2b_update_loop :: "blake2b_state \<Rightarrow> bytes \<Rightarrow> nat \<Rightarrow> blake2b_state \<times> bytes \<times> nat" where
  "blake2b_update_loop S pin inlen =
     (if inlen > 128
      then blake2b_update_loop
             (rx_blake2b_compress (blake2b_increment_counter S (of_nat BLAKE2B_BLOCKBYTES)) pin)
             (drop 128 pin) (inlen - 128)
      else (S, pin, inlen))"

declare blake2b_update_loop.simps [simp del]

text \<open>\<open>rx_blake2b_update\<close> once its checks are passed.\<close>

definition blake2b_update_body :: "blake2b_state \<Rightarrow> bytes \<Rightarrow> nat \<Rightarrow> blake2b_state" where
  "blake2b_update_body S pin inlen =
     (let (S, pin, inlen) =
        (if b2_buflen S + inlen > BLAKE2B_BLOCKBYTES
         then
           (let left = b2_buflen S;
                fill = BLAKE2B_BLOCKBYTES - left;
                S = S\<lparr>b2_buf := memcpy_at (b2_buf S) left pin fill\<rparr>;
                S = blake2b_increment_counter S (of_nat BLAKE2B_BLOCKBYTES);
                S = rx_blake2b_compress S (b2_buf S);
                S = S\<lparr>b2_buflen := 0\<rparr>
            in blake2b_update_loop S (drop fill pin) (inlen - fill))
         else (S, pin, inlen))
      in S\<lparr>b2_buf := memcpy_at (b2_buf S) (b2_buflen S) pin inlen,
            b2_buflen := b2_buflen S + inlen\<rparr>)"

definition rx_blake2b_update ::
  "blake2b_state option \<Rightarrow> bytes option \<Rightarrow> nat \<Rightarrow> int \<times> blake2b_state option" where
  "rx_blake2b_update Sp inp inlen =
     (if inlen = 0 then (0, Sp)
      else (case (Sp, inp) of
              (Some S, Some pin) \<Rightarrow>
                if b2_f S ! 0 \<noteq> 0 then (-1, Sp)
                else (0, Some (blake2b_update_body S pin inlen))
            | _ \<Rightarrow> (-1, Sp)))"

text \<open>\<open>rx_blake2b_final\<close> once its checks are passed: the state and the bytes of \<open>buffer\<close>.\<close>

definition blake2b_final_body :: "blake2b_state \<Rightarrow> blake2b_state \<times> bytes" where
  "blake2b_final_body S =
     (let S = blake2b_increment_counter S (of_nat (b2_buflen S));
          S = blake2b_set_lastblock S;
          S = S\<lparr>b2_buf := memset_at (b2_buf S) (b2_buflen S) 0 (BLAKE2B_BLOCKBYTES - b2_buflen S)\<rparr>;
          S = rx_blake2b_compress S (b2_buf S)
      in (S, concat (map (\<lambda>i. store64 (b2_h S ! i)) [0..<8])))"

definition rx_blake2b_final ::
  "blake2b_state option \<Rightarrow> bytes option \<Rightarrow> nat \<Rightarrow> int \<times> blake2b_state option \<times> bytes option" where
  "rx_blake2b_final Sp outp outlen =
     (case (Sp, outp) of
        (Some S, Some out) \<Rightarrow>
          if outlen < b2_outlen S then (-1, Sp, outp)
          else if b2_f S ! 0 \<noteq> 0 then (-1, Sp, outp)
          else (case blake2b_final_body S of
                  (S', buffer) \<Rightarrow> (0, Some S', Some (memcpy_at out 0 buffer (b2_outlen S))))
      | _ \<Rightarrow> (-1, Sp, outp))"

definition rx_blake2b_init_key ::
  "blake2b_state option \<Rightarrow> nat \<Rightarrow> bytes option \<Rightarrow> nat \<Rightarrow> int \<times> blake2b_state option" where
  "rx_blake2b_init_key Sp outlen keyp keylen =
     (case Sp of
        None \<Rightarrow> (-1, None)
      | Some S \<Rightarrow>
          if outlen = 0 \<or> outlen > BLAKE2B_OUTBYTES
          then (-1, Some (blake2b_invalidate_state S))
          else (case keyp of
                  None \<Rightarrow> (-1, Some (blake2b_invalidate_state S))
                | Some key \<Rightarrow>
                    if keylen = 0 \<or> keylen > BLAKE2B_KEYBYTES
                    then (-1, Some (blake2b_invalidate_state S))
                    else
                      (case rx_blake2b_init_param Sp (Some (blake2b_params outlen keylen)) of
                         (ret, S') \<Rightarrow>
                           if ret < 0 then (-1, map_option blake2b_invalidate_state S')
                           else
                             (let block = memcpy_at (replicate BLAKE2B_BLOCKBYTES 0) 0 key keylen
                              in (0, snd (rx_blake2b_update S' (Some block) BLAKE2B_BLOCKBYTES))))))"

subsection \<open>One call\<close>

text \<open>\<open>S0\<close> is the indeterminate initial content of the local variable \<open>S\<close>.\<close>

definition rx_blake2b ::
  "blake2b_state \<Rightarrow> bytes option \<Rightarrow> nat \<Rightarrow> bytes option \<Rightarrow> nat \<Rightarrow> int \<times> bytes option" where
  "rx_blake2b S0 outp outlen inp inlen =
     (if inp = None \<and> inlen > 0 then (-1, outp)
      else if outp = None \<or> outlen = 0 \<or> outlen > BLAKE2B_OUTBYTES then (-1, outp)
      else
        (case rx_blake2b_init (Some S0) outlen of
           (r1, S1) \<Rightarrow>
             if r1 < 0 then (-1, outp)
             else
               (case rx_blake2b_update S1 inp inlen of
                  (r2, S2) \<Rightarrow>
                    if r2 < 0 then (-1, outp)
                    else (case rx_blake2b_final S2 outp outlen of (r3, S3, out') \<Rightarrow> (r3, out')))))"

text \<open>
  The variable-length hash. \<open>out_buffer\<close> is a local array, \<open>ob0\<close> its indeterminate initial
  content; \<open>toproduce\<close> is a \<open>uint32_t\<close> that only decreases. The loop returns the C result, the
  memory at \<open>pout\<close>, the output position, \<open>toproduce\<close> and \<open>out_buffer\<close>.
\<close>

fun blake2b_long_loop ::
  "blake2b_state \<Rightarrow> bytes \<Rightarrow> nat \<Rightarrow> nat \<Rightarrow> bytes \<Rightarrow> int \<times> bytes \<times> nat \<times> nat \<times> bytes" where
  "blake2b_long_loop S0 out pos toproduce out_buffer =
     (if toproduce > 64
      then
        (let in_buffer = out_buffer in
         case rx_blake2b S0 (Some out_buffer) BLAKE2B_OUTBYTES (Some in_buffer) BLAKE2B_OUTBYTES of
           (ret, ob) \<Rightarrow>
             if ret < 0 then (ret, out, pos, toproduce, the ob)
             else blake2b_long_loop S0 (memcpy_at out pos (the ob) (BLAKE2B_OUTBYTES div 2))
                    (pos + 32) (toproduce - 32) (the ob))
      else (0, out, pos, toproduce, out_buffer))"

declare blake2b_long_loop.simps [simp del]

text \<open>The \<open>init\<close>, two \<open>update\<close> and \<open>final\<close> calls both branches start with, each under \<open>TRY\<close>.\<close>

definition blake2b_long_first ::
  "blake2b_state \<Rightarrow> bytes \<Rightarrow> nat \<Rightarrow> bytes \<Rightarrow> bytes option \<Rightarrow> nat \<Rightarrow> int \<times> bytes" where
  "blake2b_long_first S0 dst n outlen_bytes inp inlen =
     (case rx_blake2b_init (Some S0) n of (r, S1) \<Rightarrow>
        if r < 0 then (r, dst) else
      case rx_blake2b_update S1 (Some outlen_bytes) 4 of (r, S2) \<Rightarrow>
        if r < 0 then (r, dst) else
      case rx_blake2b_update S2 inp inlen of (r, S3) \<Rightarrow>
        if r < 0 then (r, dst) else
      case rx_blake2b_final S3 (Some dst) n of (r, S4, dst') \<Rightarrow> (r, the dst'))"

definition rxa2_blake2b_long ::
  "blake2b_state \<Rightarrow> bytes \<Rightarrow> bytes \<Rightarrow> nat \<Rightarrow> bytes option \<Rightarrow> nat \<Rightarrow> int \<times> bytes" where
  "rxa2_blake2b_long S0 ob0 out outlen inp inlen =
     (if outlen > 2 ^ 32 - 1 then (-1, out)
      else
        (let outlen_bytes = store32 (of_nat outlen) in
         if outlen \<le> BLAKE2B_OUTBYTES
         then blake2b_long_first S0 out outlen outlen_bytes inp inlen
         else
           (case blake2b_long_first S0 ob0 BLAKE2B_OUTBYTES outlen_bytes inp inlen of (ret, out_buffer) \<Rightarrow>
              if ret < 0 then (ret, out)
              else
                (case blake2b_long_loop S0 (memcpy_at out 0 out_buffer (BLAKE2B_OUTBYTES div 2))
                        (BLAKE2B_OUTBYTES div 2) (outlen - BLAKE2B_OUTBYTES div 2) out_buffer of
                   (ret, out, pos, toproduce, out_buffer) \<Rightarrow>
                     if ret < 0 then (ret, out)
                     else
                       (let in_buffer = out_buffer in
                        case rx_blake2b S0 (Some out_buffer) toproduce (Some in_buffer) BLAKE2B_OUTBYTES of
                          (ret, ob) \<Rightarrow>
                            if ret < 0 then (ret, out)
                            else (ret, memcpy_at out pos (the ob) toproduce))))))"

subsection \<open>The update refines the abstract one\<close>

text \<open>
  The invariant of a live state: the array sizes of the struct, the buffer fill within the
  buffer, and no finalisation flag set.
\<close>

definition blake2b_wf :: "blake2b_state \<Rightarrow> bool" where
  "blake2b_wf S \<longleftrightarrow> length (b2_h S) = 8 \<and> length (b2_t S) = 2 \<and> b2_f S = [0, 0] \<and>
     length (b2_buf S) = 128 \<and> b2_buflen S \<le> 128 \<and> last_node S = 0 \<and> b2_outlen S \<le> 64"

text \<open>The chaining part of a state, the bytes it holds back, and one block of the message.\<close>

definition blake2b_chain :: "blake2b_state \<Rightarrow> blake2b_state" where
  "blake2b_chain S = S\<lparr>b2_buf := [], b2_buflen := 0\<rparr>"

definition blake2b_pend :: "blake2b_state \<Rightarrow> bytes" where
  "blake2b_pend S = take (b2_buflen S) (b2_buf S)"

definition blake2b_step :: "blake2b_state \<Rightarrow> bytes \<Rightarrow> blake2b_state" where
  "blake2b_step c b = rx_blake2b_compress (blake2b_increment_counter c 128) b"

lemmas blake2b_compress_defs = rx_blake2b_compress_def rx_blake2b_compress_integer_def Let_def

lemma compress_frame [simp]:
  "b2_t (rx_blake2b_compress S b) = b2_t S" "b2_f (rx_blake2b_compress S b) = b2_f S"
  "b2_buf (rx_blake2b_compress S b) = b2_buf S" "b2_buflen (rx_blake2b_compress S b) = b2_buflen S"
  "b2_outlen (rx_blake2b_compress S b) = b2_outlen S" "last_node (rx_blake2b_compress S b) = last_node S"
  "length (b2_h (rx_blake2b_compress S b)) = 8"
  by (simp_all add: blake2b_compress_defs)

lemma increment_frame [simp]:
  "b2_h (blake2b_increment_counter S n) = b2_h S" "b2_f (blake2b_increment_counter S n) = b2_f S"
  "b2_buf (blake2b_increment_counter S n) = b2_buf S" "b2_buflen (blake2b_increment_counter S n) = b2_buflen S"
  "b2_outlen (blake2b_increment_counter S n) = b2_outlen S" "last_node (blake2b_increment_counter S n) = last_node S"
  "length (b2_t (blake2b_increment_counter S n)) = length (b2_t S)"
  by (simp_all add: blake2b_increment_counter_def Let_def)

lemma compress_buf [simp]:
  "rx_blake2b_compress (S\<lparr>b2_buf := x\<rparr>) b = (rx_blake2b_compress S b)\<lparr>b2_buf := x\<rparr>"
  "rx_blake2b_compress (S\<lparr>b2_buflen := n\<rparr>) b = (rx_blake2b_compress S b)\<lparr>b2_buflen := n\<rparr>"
  by (simp_all add: blake2b_compress_defs)

lemma increment_buf [simp]:
  "blake2b_increment_counter (S\<lparr>b2_buf := x\<rparr>) n = (blake2b_increment_counter S n)\<lparr>b2_buf := x\<rparr>"
  "blake2b_increment_counter (S\<lparr>b2_buflen := m\<rparr>) n = (blake2b_increment_counter S n)\<lparr>b2_buflen := m\<rparr>"
  by (simp_all add: blake2b_increment_counter_def Let_def)

lemma load64_block: "i < 16 \<Longrightarrow> load64 (drop (i * 8) (take 128 p)) = load64 (drop (i * 8) p)"
  by (simp add: load64_def load64_native_def drop_take min_def)

lemma compress_take: "rx_blake2b_compress S (take 128 p) = rx_blake2b_compress S p"
proof -
  have "map (\<lambda>i. load64 (drop (i * 8) (take 128 p))) [0..<16] = map (\<lambda>i. load64 (drop (i * 8) p)) [0..<16]"
    by (rule map_cong) (auto simp: load64_block)
  then show ?thesis unfolding blake2b_compress_defs by (simp only:)
qed

lemma step_take: "blake2b_step S (take 128 p) = blake2b_step S p"
  by (simp add: blake2b_step_def compress_take)

lemma length_pend: "blake2b_wf S \<Longrightarrow> length (blake2b_pend S) = b2_buflen S"
  by (simp add: blake2b_pend_def blake2b_wf_def)

lemma chain_step: "blake2b_chain (blake2b_step S b) = blake2b_step (blake2b_chain S) b"
  by (simp add: blake2b_chain_def blake2b_step_def)

lemma update_loop_absorb:
  assumes "length pin = inlen"
  shows "blake2b_update_loop S pin inlen =
    (case absorb 128 129 blake2b_step S pin of (S', p) \<Rightarrow> (S', p, length p))"
  using assms
proof (induction S pin inlen rule: blake2b_update_loop.induct)
  case (1 S pin inlen)
  show ?case
  proof (cases "inlen > 128")
    case True
    then have "blake2b_update_loop S pin inlen =
        blake2b_update_loop (blake2b_step S pin) (drop 128 pin) (inlen - 128)"
      by (simp add: blake2b_update_loop.simps [of S] blake2b_step_def)
    moreover from True 1 have "absorb 128 129 blake2b_step S pin =
        absorb 128 129 blake2b_step (blake2b_step S pin) (drop 128 pin)"
      by (simp add: absorb_step step_take)
    moreover have "blake2b_update_loop (blake2b_step S pin) (drop 128 pin) (inlen - 128) =
        (case absorb 128 129 blake2b_step (blake2b_step S pin) (drop 128 pin) of (S', p) \<Rightarrow> (S', p, length p))"
      using 1 True by (simp flip: blake2b_step_def)
    ultimately show ?thesis by simp
  next
    case False
    with 1 show ?thesis by (simp add: blake2b_update_loop.simps [of S] absorb_short)
  qed
qed

text \<open>\<open>absorb\<close> on a state that still carries its buffer: the buffer is left alone.\<close>

lemma absorb_blake2b_chain:
  "blake2b_chain (fst (absorb 128 129 blake2b_step S zs)) = fst (absorb 128 129 blake2b_step (blake2b_chain S) zs)
   \<and> snd (absorb 128 129 blake2b_step S zs) = snd (absorb 128 129 blake2b_step (blake2b_chain S) zs)"
  using absorb_map [of blake2b_chain blake2b_step blake2b_step 128 129 S zs] by (simp add: chain_step)

lemma absorb_blake2b_wf:
  "blake2b_wf S \<Longrightarrow> blake2b_wf (fst (absorb 128 129 blake2b_step S zs)) \<and>
    b2_buf (fst (absorb 128 129 blake2b_step S zs)) = b2_buf S \<and>
    b2_buflen (fst (absorb 128 129 blake2b_step S zs)) = b2_buflen S \<and>
    b2_outlen (fst (absorb 128 129 blake2b_step S zs)) = b2_outlen S"
  using absorb_invariant [of "\<lambda>c. blake2b_wf c \<and> b2_buf c = b2_buf S \<and> b2_buflen c = b2_buflen S
      \<and> b2_outlen c = b2_outlen S" 128 blake2b_step 129 S zs]
  by (simp add: blake2b_wf_def blake2b_step_def)

text \<open>What the body of \<open>update\<close> does to a live state.\<close>

lemma update_body_long:
  assumes wf: "blake2b_wf S" and long: "b2_buflen S + length m > 128"
  defines "r \<equiv> absorb 128 129 blake2b_step (S\<lparr>b2_buf := blake2b_pend S @ take (128 - b2_buflen S) m, b2_buflen := 0\<rparr>)
                 (blake2b_pend S @ m)"
  shows "blake2b_update_body S m (length m) =
    (fst r)\<lparr>b2_buf := memcpy_at (blake2b_pend S @ take (128 - b2_buflen S) m) 0 (snd r) (length (snd r)),
            b2_buflen := length (snd r)\<rparr>"
proof -
  define fill where "fill = 128 - b2_buflen S"
  define blk where "blk = blake2b_pend S @ take fill m"
  define S1 where "S1 = S\<lparr>b2_buf := blk, b2_buflen := 0\<rparr>"
  have blk: "memcpy_at (b2_buf S) (b2_buflen S) m fill = blk" "length blk = 128"
    using wf long by (auto simp: blk_def fill_def blake2b_pend_def blake2b_wf_def mem_simps)
  have "take 128 (blake2b_pend S @ m) = blk" "drop 128 (blake2b_pend S @ m) = drop fill m"
    using wf by (simp_all add: blk_def fill_def blake2b_pend_def blake2b_wf_def min_def)
  moreover have "129 \<le> length (blake2b_pend S @ m)"
    using wf long by (simp add: blake2b_pend_def blake2b_wf_def min_def)
  ultimately have r: "r = absorb 128 129 blake2b_step (blake2b_step S1 blk) (drop fill m)"
    by (simp add: r_def absorb_step S1_def flip: fill_def blk_def)
  have "blake2b_wf (blake2b_step S1 blk)"
    using wf blk by (simp add: blake2b_wf_def blake2b_step_def S1_def)
  from absorb_blake2b_wf [OF this] r
  have fr: "b2_buf (fst r) = blk" "b2_buflen (fst r) = 0" by (simp_all add: S1_def blake2b_step_def)
  have "blake2b_update_loop (blake2b_step S1 blk) (drop fill m) (length m - fill)
      = (fst r, snd r, length (snd r))"
    by (simp add: update_loop_absorb r case_prod_beta)
  with long show ?thesis
    by (simp add: blake2b_update_body_def Let_def blk fr S1_def blake2b_step_def flip: fill_def blk_def)
qed

lemma update_body_short:
  "blake2b_wf S \<Longrightarrow> b2_buflen S + length m \<le> 128 \<Longrightarrow>
   blake2b_update_body S m (length m) =
     S\<lparr>b2_buf := memcpy_at (b2_buf S) (b2_buflen S) m (length m), b2_buflen := b2_buflen S + length m\<rparr>"
  by (simp add: blake2b_update_body_def)

lemma chain_buf [simp]:
  "blake2b_chain (S\<lparr>b2_buf := x\<rparr>) = blake2b_chain S" "blake2b_chain (S\<lparr>b2_buflen := n\<rparr>) = blake2b_chain S"
  by (simp_all add: blake2b_chain_def)

lemma update_body_refines:
  assumes wf: "blake2b_wf S"
  shows "blake2b_wf (blake2b_update_body S m (length m)) \<and>
    (blake2b_chain (blake2b_update_body S m (length m)), blake2b_pend (blake2b_update_body S m (length m)))
      = absorb 128 129 blake2b_step (blake2b_chain S) (blake2b_pend S @ m)"
proof (cases "b2_buflen S + length m > 128")
  case True
  define S1 where "S1 = S\<lparr>b2_buf := blake2b_pend S @ take (128 - b2_buflen S) m, b2_buflen := 0\<rparr>"
  define r where "r = absorb 128 129 blake2b_step S1 (blake2b_pend S @ m)"
  have wf1: "blake2b_wf S1"
    using wf True by (auto simp: blake2b_wf_def S1_def blake2b_pend_def)
  have len: "length (snd r) < 129" unfolding r_def by (rule length_snd_absorb) simp_all
  have U: "blake2b_update_body S m (length m) =
      (fst r)\<lparr>b2_buf := memcpy_at (b2_buf S1) 0 (snd r) (length (snd r)), b2_buflen := length (snd r)\<rparr>"
    using update_body_long [OF wf True] by (simp add: r_def S1_def)
  have buf: "length (b2_buf S1) = 128" using wf1 by (simp add: blake2b_wf_def)
  from absorb_blake2b_wf [OF wf1, of "blake2b_pend S @ m"] len buf
  have "blake2b_wf (blake2b_update_body S m (length m))"
    by (simp add: U blake2b_wf_def flip: r_def)
  moreover have "blake2b_pend (blake2b_update_body S m (length m)) = snd r"
    using len buf by (simp add: U blake2b_pend_def mem_simps)
  moreover have "blake2b_chain (blake2b_update_body S m (length m)) = blake2b_chain (fst r)"
    by (simp add: U)
  ultimately show ?thesis
    using absorb_blake2b_chain [of S1 "blake2b_pend S @ m"] by (simp add: r_def S1_def prod_eq_iff)
next
  case False
  then have "length (blake2b_pend S @ m) < 129"
    using wf by (simp add: length_pend)
  moreover have "128 \<le> b2_buflen S \<Longrightarrow> m = []" using False by (cases m) auto
  ultimately show ?thesis using False wf
    by (simp add: update_body_short absorb_short blake2b_wf_def blake2b_pend_def mem_simps)
qed

subsection \<open>Finalisation\<close>

definition blake2b_digest :: "blake2b_state \<Rightarrow> bytes \<Rightarrow> bytes" where
  "blake2b_digest c p =
     concat (map (\<lambda>i. store64 (b2_h (rx_blake2b_compress
        (blake2b_set_lastblock (blake2b_increment_counter c (of_nat (length p))))
        (p @ replicate (128 - length p) 0)) ! i)) [0..<8])"

lemma lastblock_buf [simp]:
  "blake2b_set_lastblock (S\<lparr>b2_buf := x\<rparr>) = (blake2b_set_lastblock S)\<lparr>b2_buf := x\<rparr>"
  "blake2b_set_lastblock (S\<lparr>b2_buflen := n\<rparr>) = (blake2b_set_lastblock S)\<lparr>b2_buflen := n\<rparr>"
  "b2_buf (blake2b_set_lastblock S) = b2_buf S" "b2_buflen (blake2b_set_lastblock S) = b2_buflen S"
  by (simp_all add: blake2b_set_lastblock_def blake2b_set_lastnode_def Let_def)

lemma final_body_refines:
  assumes "blake2b_wf S"
  shows "snd (blake2b_final_body S) = blake2b_digest (blake2b_chain S) (blake2b_pend S)"
proof -
  have "memset_at (b2_buf S) (b2_buflen S) 0 (128 - b2_buflen S) =
      blake2b_pend S @ replicate (128 - b2_buflen S) 0"
    using assms by (simp add: blake2b_wf_def blake2b_pend_def mem_simps)
  then show ?thesis using assms
    by (simp add: blake2b_final_body_def blake2b_digest_def blake2b_chain_def length_pend Let_def)
qed

lemma length_blake2b_digest [simp]: "length (blake2b_digest c p) = 64"
  unfolding blake2b_digest_def by (subst concat_const_length [where n = 8]) simp_all

interpretation blake2b: stream_digest 128 129 blake2b_step "\<lambda>S m. blake2b_update_body S m (length m)"
    blake2b_chain blake2b_pend blake2b_wf "\<lambda>S. snd (blake2b_final_body S)" blake2b_digest
  by unfold_locales (simp_all add: update_body_refines final_body_refines)

end
