(* ===== verification/Blake2b_RFC.thy ===== *)
theory Blake2b_RFC
  imports Blake2b
begin

text \<open>
  What the functions of \<open>Blake2b\<close> promise: the hash of RFC 7693 (\<open>blake2b_rfc\<close>), with and
  without a key, in one call or in pieces; the errors; and the variable-length hash \<open>H'\<close> of the
  Argon2 specification.
\<close>

subsection \<open>BLAKE2b as RFC 7693 states it\<close>

text \<open>
  The specification, written from the RFC and apart from the code: the initialisation vector of section 2.6 (the first
  64 bits of the fractional parts of the square roots of the first eight primes, \<open>rfc_IV_roots\<close>), the message schedule of
  section 2.7, the mixing function \<open>G\<close> of section 3.1, the compression function \<open>F\<close> of section 3.2 with a byte offset
  that is a number, and the hash as a loop over the blocks of the whole message, the last one padded with zeros and flagged.
\<close>

definition rfc_IV :: "u64 list" where
  "rfc_IV =
     [0x6A09E667F3BCC908, 0xBB67AE8584CAA73B, 0x3C6EF372FE94F82B, 0xA54FF53A5F1D36F1,
      0x510E527FADE682D1, 0x9B05688C2B3E6C1F, 0x1F83D9ABFB41BD6B, 0x5BE0CD19137E2179]"

definition rfc_sigma :: "nat list list" where
  "rfc_sigma =
     [[0, 1, 2, 3, 4, 5, 6, 7, 8, 9, 10, 11, 12, 13, 14, 15],
      [14, 10, 4, 8, 9, 15, 13, 6, 1, 12, 0, 2, 11, 7, 5, 3],
      [11, 8, 12, 0, 5, 2, 15, 13, 10, 14, 3, 6, 7, 1, 9, 4],
      [7, 9, 3, 1, 13, 12, 11, 14, 2, 6, 5, 10, 4, 0, 15, 8],
      [9, 0, 5, 7, 2, 4, 10, 15, 14, 1, 11, 12, 6, 8, 3, 13],
      [2, 12, 6, 10, 0, 11, 8, 3, 4, 13, 7, 5, 15, 14, 1, 9],
      [12, 5, 1, 15, 14, 13, 4, 10, 0, 7, 6, 3, 9, 2, 8, 11],
      [13, 11, 7, 14, 12, 1, 3, 9, 5, 0, 15, 4, 8, 6, 2, 10],
      [6, 15, 14, 9, 11, 3, 0, 8, 12, 2, 13, 7, 1, 4, 10, 5],
      [10, 2, 8, 4, 7, 6, 1, 5, 15, 11, 9, 14, 3, 12, 13, 0]]"

definition rfc_G :: "nat \<Rightarrow> nat \<Rightarrow> nat \<Rightarrow> nat \<Rightarrow> u64 \<Rightarrow> u64 \<Rightarrow> u64 list \<Rightarrow> u64 list" where
  "rfc_G a b c d x y v =
     (let v = v[a := v ! a + v ! b + x];
          v = v[d := word_rotr 32 (v ! d XOR v ! a)];
          v = v[c := v ! c + v ! d];
          v = v[b := word_rotr 24 (v ! b XOR v ! c)];
          v = v[a := v ! a + v ! b + y];
          v = v[d := word_rotr 16 (v ! d XOR v ! a)];
          v = v[c := v ! c + v ! d];
          v = v[b := word_rotr 63 (v ! b XOR v ! c)]
      in v)"

definition rfc_round :: "u64 list \<Rightarrow> nat \<Rightarrow> u64 list \<Rightarrow> u64 list" where
  "rfc_round m i v =
     (let s = rfc_sigma ! (i mod 10);
          v = rfc_G 0 4 8 12 (m ! (s ! 0)) (m ! (s ! 1)) v;
          v = rfc_G 1 5 9 13 (m ! (s ! 2)) (m ! (s ! 3)) v;
          v = rfc_G 2 6 10 14 (m ! (s ! 4)) (m ! (s ! 5)) v;
          v = rfc_G 3 7 11 15 (m ! (s ! 6)) (m ! (s ! 7)) v;
          v = rfc_G 0 5 10 15 (m ! (s ! 8)) (m ! (s ! 9)) v;
          v = rfc_G 1 6 11 12 (m ! (s ! 10)) (m ! (s ! 11)) v;
          v = rfc_G 2 7 8 13 (m ! (s ! 12)) (m ! (s ! 13)) v;
          v = rfc_G 3 4 9 14 (m ! (s ! 14)) (m ! (s ! 15)) v
      in v)"

definition rfc_F :: "u64 list \<Rightarrow> bytes \<Rightarrow> nat \<Rightarrow> bool \<Rightarrow> u64 list" where
  "rfc_F hs block n final =
     (let m = map (\<lambda>i. le_word (take 8 (drop (i * 8) block))) [0..<16];
          v = hs @ rfc_IV;
          v = v[12 := v ! 12 XOR of_nat n];
          v = v[13 := v ! 13 XOR of_nat (n div 2 ^ 64)];
          v = (if final then v[14 := NOT (v ! 14)] else v);
          v = fold (rfc_round m) [0..<12] v
      in map (\<lambda>i. hs ! i XOR v ! i XOR v ! (i + 8)) [0..<8])"

fun rfc_hash :: "u64 list \<Rightarrow> nat \<Rightarrow> bytes \<Rightarrow> u64 list" where
  "rfc_hash hs n d =
     (if length d > 128
      then rfc_hash (rfc_F hs (take 128 d) (n + 128) False) (n + 128) (drop 128 d)
      else rfc_F hs (d @ replicate (128 - length d) 0) (n + length d) True)"

declare rfc_hash.simps [simp del]

definition rfc_init :: "nat \<Rightarrow> nat \<Rightarrow> u64 list" where
  "rfc_init kk nn = rfc_IV[0 := rfc_IV ! 0 XOR (0x01010000 XOR push_bit 8 (of_nat kk) XOR of_nat nn)]"

definition blake2b_rfc :: "nat \<Rightarrow> bytes \<Rightarrow> bytes \<Rightarrow> bytes" where
  "blake2b_rfc nn key d =
     take nn (concat (map (le_bytes 8) (rfc_hash (rfc_init (length key) nn) 0
       (if key = [] then d else key @ replicate (128 - length key) 0 @ d))))"

lemma store64_code: "store64 = le_bytes 8"
  by (rule ext) (simp add: store64_def store64_native_def)

lemma blake2b_rfc_code:
  "blake2b_rfc nn key d =
     take nn (concat (map store64 (rfc_hash (rfc_init (length key) nn) 0
       (if key = [] then d else key @ replicate (128 - length key) 0 @ d))))"
  by (simp add: blake2b_rfc_def store64_code)

text \<open>The vector is what the RFC says it is: \<open>r\<close> is the integer part of the square root of a prime times \<open>2 ^ 64\<close>.\<close>

lemma rfc_IV_roots:
  "list_all2 (\<lambda>w (p, k). (k * 2 ^ 64 + uint w) ^ 2 \<le> p * 2 ^ 128 \<and> p * 2 ^ 128 < (k * 2 ^ 64 + uint w + 1) ^ 2)
     rfc_IV [(2, 1), (3, 1), (5, 2), (7, 2), (11, 3), (13, 3), (17, 4), (19, 4)]"
  by (simp add: rfc_IV_def)

subsection \<open>The tables and the rounds of the code\<close>

lemma IV_code: "blake2b_IV = rfc_IV"
  by (simp add: blake2b_IV_def rfc_IV_def)

lemma sigma_code: "r < 12 \<Longrightarrow> blake2b_sigma ! r = rfc_sigma ! (r mod 10)"
proof -
  have "list_all (\<lambda>r. blake2b_sigma ! r = rfc_sigma ! (r mod 10)) [0..<12]"
    by (simp add: blake2b_sigma_def rfc_sigma_def upt_rec)
  then show "r < 12 \<Longrightarrow> ?thesis" by (simp add: list_all_iff)
qed

lemma G_code: "blake2b_G m r i a b c d v = rfc_G a b c d (m ! (blake2b_sigma ! r ! (2 * i))) (m ! (blake2b_sigma ! r ! (2 * i + 1))) v"
  unfolding blake2b_G_def rfc_G_def by (simp add: rotr64_word_rotr)

lemma round_code: "r < 12 \<Longrightarrow> blake2b_ROUND m r v = rfc_round m r v"
  unfolding blake2b_ROUND_def rfc_round_def G_code by (simp add: sigma_code Let_def)

lemma rounds_code: "fold (blake2b_ROUND m) [0..<12] v = fold (rfc_round m) [0..<12] v"
  by (rule fold_cong) (simp_all add: round_code fun_eq_iff)

text \<open>The two words of the counter hold a 128-bit number.\<close>

definition ctr_words :: "nat \<Rightarrow> u64 list" where
  "ctr_words n = [of_nat n, of_nat (n div 2 ^ 64)]"

lemma increment_ctr:
  assumes "b2_t S = ctr_words n" and "k < 2 ^ 64"
  shows "b2_t (blake2b_increment_counter S (of_nat k)) = ctr_words (n + k)"
proof -
  have "unat (of_nat (n + k) :: u64) < unat (of_nat k :: u64) \<longleftrightarrow> (n + k) mod 2 ^ 64 < k"
    using assms(2) by (simp add: unat_of_nat del: of_nat_add)
  then have "(of_nat n + of_nat k :: u64) < of_nat k \<longleftrightarrow> (n + k) mod 2 ^ 64 < k"
    by (simp add: word_less_nat_alt)
  then show ?thesis
    using assms(1) add_carry [OF assms(2), of n] 
    by (simp add: blake2b_increment_counter_def ctr_words_def Let_def split: if_splits)
qed

lemma v_start:
  assumes "length hs = 8"
  shows "hs @ [rfc_IV ! 0, rfc_IV ! 1, rfc_IV ! 2, rfc_IV ! 3,
      rfc_IV ! 4 XOR of_nat n, rfc_IV ! 5 XOR of_nat (n div 2 ^ 64),
      rfc_IV ! 6 XOR (if final then -1 else 0), rfc_IV ! 7 XOR 0] =
    (let v = hs @ rfc_IV;
         v = v[12 := v ! 12 XOR of_nat n];
         v = v[13 := v ! 13 XOR of_nat (n div 2 ^ 64)]
     in (if final then v[14 := NOT (v ! 14)] else v))"
  using assms by (simp add: rfc_IV_def nth_append list_update_append Let_def)

lemma compress_rfc:
  assumes "length (b2_h S) = 8" and "b2_t S = ctr_words n"
    and "b2_f S = [if final then -1 else 0, 0]"
  shows "b2_h (rx_blake2b_compress S b) = rfc_F (b2_h S) b n final"
proof -
  let ?v = "map (\<lambda>i. b2_h S ! i) [0..<8] @
       [rfc_IV ! 0, rfc_IV ! 1, rfc_IV ! 2, rfc_IV ! 3,
        rfc_IV ! 4 XOR b2_t S ! 0, rfc_IV ! 5 XOR b2_t S ! 1,
        rfc_IV ! 6 XOR b2_f S ! 0, rfc_IV ! 7 XOR b2_f S ! 1]"
  have v: "?v = (let v = b2_h S @ rfc_IV;
          v = v[12 := v ! 12 XOR of_nat n];
          v = v[13 := v ! 13 XOR of_nat (n div 2 ^ 64)]
      in (if final then v[14 := NOT (v ! 14)] else v))"
    unfolding assms(2,3) ctr_words_def map_nth_id [OF assms(1)]
    using v_start [OF assms(1), of n final] by simp
  show ?thesis
    unfolding rx_blake2b_compress_def rx_blake2b_compress_integer_def rfc_F_def IV_code v [unfolded Let_def] Let_def rounds_code
    by (simp add: load64_def load64_native_def)
qed

lemma step_rfc:
  assumes "length (b2_h c) = 8" and "b2_t c = ctr_words n" and "b2_f c = [0, 0]"
  shows "b2_t (blake2b_step c b) = ctr_words (n + 128) \<and> b2_f (blake2b_step c b) = [0, 0] \<and>
    b2_h (blake2b_step c b) = rfc_F (b2_h c) b (n + 128) False"
proof -
  have t: "b2_t (blake2b_increment_counter c 128) = ctr_words (n + 128)"
    using increment_ctr [of c n 128] assms by simp
  with compress_rfc [of "blake2b_increment_counter c 128" "n + 128" False b] assms
  show ?thesis by (simp add: blake2b_step_def)
qed

lemma digest_rfc:
  assumes "length (b2_h c) = 8" and "b2_t c = ctr_words n" and "b2_f c = [0, 0]"
    and "last_node c = 0" and "length d \<le> 128"
  shows "blake2b_digest c d =
    concat (map store64 (rfc_F (b2_h c) (d @ replicate (128 - length d) 0) (n + length d) True))"
proof -
  let ?c = "blake2b_set_lastblock (blake2b_increment_counter c (of_nat (length d)))"
  let ?b = "d @ replicate (128 - length d) 0"
  have "b2_t ?c = ctr_words (n + length d)" "b2_f ?c = [-1, 0]" "b2_h ?c = b2_h c"
    using assms increment_ctr [of c n "length d"] by (simp_all add: blake2b_set_lastblock_def)
  with assms compress_rfc [of ?c "n + length d" True ?b]
  have h: "b2_h (rx_blake2b_compress ?c ?b) = rfc_F (b2_h c) ?b (n + length d) True"
    by simp
  have "map (\<lambda>i. store64 (xs ! i)) [0..<8] = map store64 xs" if "length xs = 8" for xs
    using arg_cong [OF map_nth_id [OF that], of "map store64"] by (simp add: comp_def del: upt_rec_numeral)
  moreover have "length (rfc_F (b2_h c) ?b (n + length d) True) = 8"
    by (simp add: rfc_F_def Let_def)
  ultimately show ?thesis unfolding blake2b_digest_def h by (simp del: upt_rec_numeral)
qed

lemma length_rfc_F [len_simps, simp]: "length (rfc_F hs b n final) = 8"
  by (simp add: rfc_F_def Let_def)

lemma digest_absorb_rfc:
  assumes "length (b2_h c) = 8" and "b2_t c = ctr_words n" and "b2_f c = [0, 0]" and "last_node c = 0"
  shows "case_prod blake2b_digest (absorb 128 129 blake2b_step c d) =
    concat (map store64 (rfc_hash (b2_h c) n d))"
  using assms
proof (induction "length d" arbitrary: c n d rule: less_induct)
  case less
  show ?case
  proof (cases "129 \<le> length d")
    case True
    let ?c = "blake2b_step c (take 128 d)"
    note st = step_rfc [OF less.prems(1-3), of "take 128 d"]
    have "case_prod blake2b_digest (absorb 128 129 blake2b_step ?c (drop 128 d))
        = concat (map store64 (rfc_hash (b2_h ?c) (n + 128) (drop 128 d)))"
      using True st less.prems(4)
      by (intro less.hyps) (auto simp: blake2b_step_def)
    with True st show ?thesis
      by (simp add: absorb_step rfc_hash.simps [of "b2_h c"])
  next
    case False
    with digest_rfc [OF less.prems, of d] show ?thesis
      by (simp add: absorb_short rfc_hash.simps [of "b2_h c"])
  qed
qed

subsection \<open>Initialisation\<close>

lemma bit_param_const: "bit (0x01010000 :: u64) n \<longleftrightarrow> n = 16 \<or> n = 24"
proof -
  have c: "(0x01010000 :: u64) = push_bit 16 1 OR push_bit 24 1" by simp
  have one: "bit (push_bit k 1 :: u64) n \<longleftrightarrow> n = k \<and> k < 64" for k
    by (auto simp: bit_push_bit_iff bit_1_iff simp del: push_bit_of_1)
  show ?thesis unfolding c bit_or_iff one by simp
qed

lemma param_word_bits:
  fixes a b :: u8 and c :: u64
  assumes c: "\<And>n. bit c n \<longleftrightarrow> n = 16 \<or> n = 24"
  shows "(le_word [a, b, 1, 1, 0, 0, 0, 0] :: u64) = c XOR push_bit 8 (ucast b) XOR ucast a"
proof (rule bit_word_eqI)
  fix n assume "n < LENGTH(64)"
  then show "bit (le_word [a, b, 1, 1, 0, 0, 0, 0] :: u64) n = bit (c XOR push_bit 8 (ucast b) XOR ucast a) n"
    by (simp only: le_word.simps c bit_or_iff bit_xor_iff bit_push_bit_iff bit_unsigned_iff bit_1_iff
        possible_bit_word bit_0_eq) (auto dest: bit_imp_le_length)
qed

lemmas param_word = param_word_bits [OF bit_param_const]

definition blake2b_start :: "nat \<Rightarrow> nat \<Rightarrow> blake2b_state" where
  "blake2b_start kk nn =
     \<lparr>b2_h = rfc_init kk nn, b2_t = [0, 0], b2_f = [0, 0], b2_buf = replicate 128 0,
      b2_buflen = 0, b2_outlen = nn, last_node = 0\<rparr>"

lemma param_bytes_params:
  "param_bytes (blake2b_params nn kk) = [of_nat nn, of_nat kk, 1, 1, 0, 0, 0, 0] @ replicate 56 0"
  by (simp add: param_bytes_def blake2b_params_def store32_def store64_def store64_native_def
      numeral_eq_Suc)

lemma load_param_0: "load64 (param_bytes (blake2b_params nn kk)) =
    0x01010000 XOR push_bit 8 (ucast (of_nat kk :: u8)) XOR ucast (of_nat nn :: u8)"
  by (simp only: load64_def load64_native_def param_bytes_params) (simp add: param_word del: le_word.simps)

lemma le_word_zeros: "le_word (replicate n 0) = 0"
  by (induction n) simp_all

lemma load_param_pos: "0 < i \<Longrightarrow> i < 8 \<Longrightarrow> load64 (drop (i * 8) (param_bytes (blake2b_params nn kk))) = 0"
  by (simp add: load64_def load64_native_def param_bytes_params drop_Cons' le_word_zeros)

lemma init_param_start:
  assumes "nn < 256" and "kk < 256"
  shows "rx_blake2b_init_param (Some S) (Some (blake2b_params nn kk)) = (0, Some (blake2b_start kk nn))"
proof -
  have u: "ucast (of_nat k :: u8) = (of_nat k :: u64)" if "k < 256" for k
    using that by (simp add: unsigned_of_nat take_bit_nat_eq_self)
  have IV: "length rfc_IV = 8" by (simp add: rfc_IV_def)
  have w: "rfc_IV ! i XOR load64 (drop (i * 8) (param_bytes (blake2b_params nn kk))) = rfc_init kk nn ! i"
    if "i < 8" for i
    using that IV assms
    by (cases "i = 0") (simp_all add: rfc_init_def load_param_pos load_param_0 u ac_simps)
  have "map (\<lambda>i. rfc_IV ! i XOR load64 (drop (i * 8) (param_bytes (blake2b_params nn kk)))) [0..<8] = rfc_init kk nn"
    by (rule nth_equalityI) (use IV in \<open>simp_all add: w rfc_init_def del: upt_rec_numeral\<close>)
  with assms show ?thesis
    by (simp add: rx_blake2b_init_param_def IV_code blake2b_init0_def blake2b_start_def blake2b_params_def
        unat_of_nat numeral_2_eq_2 del: upt_rec_numeral)
qed

subsection \<open>Successful calls\<close>

text \<open>A sequence of updates, as a caller makes them: it stops at the first error.\<close>

definition blake2b_updates :: "blake2b_state option \<Rightarrow> bytes list \<Rightarrow> int \<times> blake2b_state option" where
  "blake2b_updates Sp ms =
     foldl (\<lambda>(r, Sp) m. if r < 0 then (r, Sp) else rx_blake2b_update Sp (Some m) (length m)) (0, Sp) ms"

lemma wf_start: "nn \<le> 64 \<Longrightarrow> blake2b_wf (blake2b_start kk nn)"
  by (simp add: blake2b_wf_def blake2b_start_def rfc_init_def rfc_IV_def)

lemma update_ok:
  assumes "blake2b_wf S"
  shows "rx_blake2b_update (Some S) (Some m) (length m) = (0, Some (blake2b_update_body S m (length m)))"
proof (cases "m = []")
  case True
  with assms show ?thesis
    by (simp add: rx_blake2b_update_def blake2b_update_body_def blake2b_wf_def mem_simps)
next
  case False
  with assms show ?thesis by (simp add: rx_blake2b_update_def blake2b_wf_def)
qed

lemma updates_ok:
  "blake2b_wf S \<Longrightarrow> blake2b_updates (Some S) ms =
     (0, Some (foldl (\<lambda>S m. blake2b_update_body S m (length m)) S ms))"
proof (induction ms rule: rev_induct)
  case Nil
  then show ?case by (simp add: blake2b_updates_def)
next
  case (snoc m ms)
  then have "blake2b_wf (foldl (\<lambda>S m. blake2b_update_body S m (length m)) S ms)"
    by (intro blake2b.foldl_upd_inv)
  with snoc show ?case by (simp add: blake2b_updates_def update_ok)
qed

lemma update_loop_outlen: "b2_outlen (fst (blake2b_update_loop S p n)) = b2_outlen S"
  by (induction S p n rule: blake2b_update_loop.induct) (subst blake2b_update_loop.simps, simp)

lemma update_body_outlen [simp]: "b2_outlen (blake2b_update_body S m n) = b2_outlen S"
proof -
  have "b2_outlen S' = b2_outlen S" if "blake2b_update_loop T p k = (S', r)" "b2_outlen T = b2_outlen S" for T p k S' r
    using that update_loop_outlen [of T p k] by simp
  then show ?thesis by (auto simp: blake2b_update_body_def Let_def split: prod.split)
qed

lemma updates_outlen [simp]:
  "b2_outlen (foldl (\<lambda>S m. blake2b_update_body S m (length m)) S ms) = b2_outlen S"
  by (induction ms arbitrary: S) simp_all

lemma final_ok:
  assumes "blake2b_wf S" and "b2_outlen S \<le> outlen" and "b2_outlen S \<le> length out"
  shows "rx_blake2b_final (Some S) (Some out) outlen =
    (0, Some (fst (blake2b_final_body S)), Some (take (b2_outlen S) (snd (blake2b_final_body S)) @ drop (b2_outlen S) out))"
proof -
  have "length (snd (blake2b_final_body S)) = 64"
    using assms by (simp add: final_body_refines)
  with assms show ?thesis
    by (simp add: rx_blake2b_final_def blake2b_wf_def case_prod_beta mem_simps)
qed

text \<open>From a fresh state, any sequence of updates hashes the concatenation.\<close>

lemma start_chunks:
  assumes "nn \<le> 64"
  shows "snd (blake2b_final_body (foldl (\<lambda>S m. blake2b_update_body S m (length m)) (blake2b_start kk nn) ms))
    = concat (map store64 (rfc_hash (rfc_init kk nn) 0 (concat ms)))"
proof -
  let ?S = "blake2b_start kk nn"
  have p: "blake2b_pend ?S = []" by (simp add: blake2b_pend_def blake2b_start_def)
  have c: "length (b2_h (blake2b_chain ?S)) = 8" "b2_t (blake2b_chain ?S) = ctr_words 0"
    "b2_f (blake2b_chain ?S) = [0, 0]" "last_node (blake2b_chain ?S) = 0"
    "b2_h (blake2b_chain ?S) = rfc_init kk nn"
    by (simp_all add: blake2b_chain_def blake2b_start_def ctr_words_def rfc_init_def rfc_IV_def)
  show ?thesis
    using blake2b.fin_chunks [OF wf_start [OF assms], of kk ms] digest_absorb_rfc [OF c(1-4), of "concat ms"]
    by (simp add: blake2b.hash_spec_def p c(5))
qed

lemma init_ok:
  "0 < nn \<Longrightarrow> nn \<le> 64 \<Longrightarrow> rx_blake2b_init (Some S) nn = (0, Some (blake2b_start 0 nn))"
  using init_param_start [of nn 0 S] by (simp add: rx_blake2b_init_def)

lemma init_key_ok:
  assumes "0 < nn" and "nn \<le> 64" and "key \<noteq> []" and "length key \<le> 64"
  shows "rx_blake2b_init_key (Some S) nn (Some key) (length key) =
    (0, Some (blake2b_update_body (blake2b_start (length key) nn) (key @ replicate (128 - length key) 0) 128))"
proof -
  have b: "memcpy_at (replicate 128 0) 0 key (length key) = key @ replicate (128 - length key) 0"
    using assms(4) by (simp add: mem_simps)
  have "rx_blake2b_update (Some (blake2b_start (length key) nn)) (Some (key @ replicate (128 - length key) 0)) 128
      = (0, Some (blake2b_update_body (blake2b_start (length key) nn) (key @ replicate (128 - length key) 0) 128))"
    using update_ok [OF wf_start [OF assms(2)], of "length key" "key @ replicate (128 - length key) 0"] assms(4)
    by simp
  with assms init_param_start [of nn "length key" S] b show ?thesis
    by (simp add: rx_blake2b_init_key_def Let_def)
qed

lemma rfc_start:
  "nn \<le> 64 \<Longrightarrow> key \<noteq> [] \<Longrightarrow> length key \<le> 64 \<Longrightarrow>
   take nn (concat (map store64 (rfc_hash (rfc_init (length key) nn) 0
     (key @ replicate (128 - length key) 0 @ d)))) = blake2b_rfc nn key d"
  "take nn (concat (map store64 (rfc_hash (rfc_init 0 nn) 0 d))) = blake2b_rfc nn [] d"
  by (simp_all add: blake2b_rfc_code)

lemma final_start:
  assumes "nn \<le> 64" and "nn \<le> outlen" and "nn \<le> length out"
  shows "\<exists>S'. rx_blake2b_final
      (Some (foldl (\<lambda>S m. blake2b_update_body S m (length m)) (blake2b_start kk nn) ms)) (Some out) outlen =
    (0, Some S', Some (take nn (concat (map store64 (rfc_hash (rfc_init kk nn) 0 (concat ms)))) @ drop nn out))"
proof -
  let ?S = "foldl (\<lambda>S m. blake2b_update_body S m (length m)) (blake2b_start kk nn) ms"
  have n: "b2_outlen ?S = nn" by simp (simp add: blake2b_start_def)
  have "blake2b_wf ?S" by (rule blake2b.foldl_upd_inv [OF wf_start [OF assms(1)]])
  from final_ok [OF this, of outlen out] assms show ?thesis
    by (simp only: n start_chunks) blast
qed

lemma length_blake2b_rfc: "nn \<le> 64 \<Longrightarrow> length (blake2b_rfc nn key d) = nn"
proof -
  have "length (rfc_hash hs n d) = 8" for hs n d
    by (induction hs n d rule: rfc_hash.induct) (subst rfc_hash.simps, simp)
  then have "length (concat (map store64 (rfc_hash hs n d))) = 64" for hs n d
    by (simp add: length_concat comp_def sum_list_triv)
  then show "nn \<le> 64 \<Longrightarrow> ?thesis" by (simp add: blake2b_rfc_code)
qed

lemma one_call:
  assumes "0 < nn" and "nn \<le> 64" and "nn \<le> length out"
  shows "rx_blake2b S0 (Some out) nn (Some d) (length d) = (0, Some (blake2b_rfc nn [] d @ drop nn out))"
proof -
  obtain S' where "rx_blake2b_final (Some (blake2b_update_body (blake2b_start 0 nn) d (length d))) (Some out) nn
      = (0, Some S', Some (blake2b_rfc nn [] d @ drop nn out))"
    using final_start [OF assms(2) order_refl assms(3), of 0 "[d]"] by (auto simp: rfc_start)
  then show ?thesis using assms
    by (simp add: rx_blake2b_def init_ok update_ok [OF wf_start])
qed

subsection \<open>The properties\<close>

text \<open>
  C12. The incremental interface is independent of how the message is cut: after \<open>init\<close> or
  \<open>init_key\<close>, any sequence of updates succeeds, and \<open>final\<close> writes the (keyed) BLAKE2b of RFC
  7693 of the concatenation of the pieces.
\<close>

theorem blake2b_incremental_rfc:
  assumes "0 < nn" and "nn \<le> 64" and "nn \<le> length out" and "length key \<le> 64"
  shows "\<exists>S1 S2 S3.
    (if key = [] then rx_blake2b_init (Some S0) nn
     else rx_blake2b_init_key (Some S0) nn (Some key) (length key)) = (0, Some S1) \<and>
    blake2b_updates (Some S1) ms = (0, Some S2) \<and>
    rx_blake2b_final (Some S2) (Some out) nn = (0, Some S3, Some (blake2b_rfc nn key (concat ms) @ drop nn out))"
proof (cases "key = []")
  case True
  then show ?thesis
    using init_ok [OF assms(1,2), of S0] updates_ok [OF wf_start [OF assms(2)], of 0 ms]
      final_start [OF assms(2) order_refl assms(3), of 0 ms]
    by (simp add: rfc_start)
next
  case False
  let ?K = "key @ replicate (128 - length key) 0"
  let ?S = "blake2b_update_body (blake2b_start (length key) nn) ?K 128"
  have K: "length ?K = 128" using assms(4) by simp
  then have "blake2b_wf ?S"
    using update_body_refines [OF wf_start [OF assms(2)], of "length key" ?K] by simp
  with False show ?thesis
    using init_key_ok [OF assms(1,2) False assms(4), of S0] updates_ok [of ?S ms] K rfc_start(1) [OF assms(2) False assms(4)]
      final_start [OF assms(2) order_refl assms(3), of "length key" "?K # ms"]
    by simp
qed

theorem blake2b_incremental_rfc_witness:
  "\<exists>S1 S2 S3. rx_blake2b_init_key (Some (blake2b_start 0 0)) 32 (Some [1, 2]) 2 = (0, Some S1) \<and>
     blake2b_updates (Some S1) [[3], [], [4, 5]] = (0, Some S2) \<and>
     rx_blake2b_final (Some S2) (Some (replicate 32 0)) 32 = (0, Some S3, Some (blake2b_rfc 32 [1, 2] [3, 4, 5]))"
  using blake2b_incremental_rfc [of 32 "replicate 32 0" "[1, 2]" "blake2b_start 0 0" "[[3], [], [4, 5]]"]
  by (simp add: numeral_2_eq_2)

text \<open>
  C40. The one-call hash: it fails, leaving the output memory alone, exactly when the input is missing with a non-zero length,
  the output is missing, or the digest length is 0 or above 64; otherwise it writes the unkeyed BLAKE2b of RFC 7693, and
  nothing after it, to the output.
\<close>

theorem rx_blake2b_errors:
  assumes "\<And>out. outp = Some out \<Longrightarrow> nn \<le> length out" and "\<And>d. inp = Some d \<Longrightarrow> n = length d"
  shows "fst (rx_blake2b S0 outp nn inp n) =
      (if (inp = None \<and> 0 < n) \<or> outp = None \<or> nn = 0 \<or> 64 < nn then -1 else 0) \<and>
    (fst (rx_blake2b S0 outp nn inp n) = -1 \<longrightarrow> snd (rx_blake2b S0 outp nn inp n) = outp) \<and>
    (fst (rx_blake2b S0 outp nn inp n) = 0 \<longrightarrow>
      snd (rx_blake2b S0 outp nn inp n) = Some (blake2b_rfc nn [] (case inp of None \<Rightarrow> [] | Some d \<Rightarrow> d) @ drop nn (the outp)))"
proof (cases "(inp = None \<and> 0 < n) \<or> outp = None \<or> nn = 0 \<or> 64 < nn")
  case True
  then show ?thesis by (auto simp: rx_blake2b_def)
next
  case False
  then obtain out where o: "outp = Some out" "0 < nn" "nn \<le> 64" by auto
  have nul: "rx_blake2b S0 op nn None 0 = rx_blake2b S0 op nn (Some []) 0" for op
    by (simp add: rx_blake2b_def rx_blake2b_update_def split: prod.split)
  have l: "nn \<le> length out" using assms(1) o(1) .
  have "rx_blake2b S0 outp nn inp n = (0, Some (blake2b_rfc nn [] (case inp of None \<Rightarrow> [] | Some d \<Rightarrow> d) @ drop nn out))"
  proof (cases inp)
    case None
    then show ?thesis using False one_call [OF o(2,3) l, of S0 "[]"] by (simp add: o(1) nul)
  next
    case (Some d)
    then show ?thesis using assms(2) one_call [OF o(2,3) l, of S0 d] by (simp add: o(1))
  qed
  with False o(1) show ?thesis by simp
qed

theorem rx_blake2b_errors_witness:
  "fst (rx_blake2b (blake2b_start 0 0) (Some (replicate 65 7)) 65 (Some [1]) 1) = -1 \<and>
   snd (rx_blake2b (blake2b_start 0 0) (Some (replicate 65 7)) 65 (Some [1]) 1) = Some (replicate 65 7) \<and>
   snd (rx_blake2b (blake2b_start 0 0) (Some (replicate 32 0)) 32 (Some [1]) 1) = Some (blake2b_rfc 32 [] [1])"
  using rx_blake2b_errors [of "Some (replicate 65 7)" 65 "Some [1]" 1 "blake2b_start 0 0"]
    rx_blake2b_errors [of "Some (replicate 32 0)" 32 "Some [1]" 1 "blake2b_start 0 0"] by simp

text \<open>
  A finished state is sealed: after \<open>final\<close> every further update with data and every further
  \<open>final\<close> returns -1 and changes neither the state nor the output.
\<close>

theorem blake2b_final_seals:
  assumes "blake2b_wf S" and "b2_outlen S \<le> outlen" and "b2_outlen S \<le> length out"
    and "rx_blake2b_final (Some S) (Some out) outlen = (r, Sp, out')" and "0 < n"
  shows "r = 0 \<and> rx_blake2b_update Sp inp n = (-1, Sp) \<and> rx_blake2b_final Sp out2 outlen2 = (-1, Sp, out2)"
proof -
  let ?S = "fst (blake2b_final_body S)"
  have "b2_f ?S = [-1, 0]"
    using assms(1) by (simp add: blake2b_final_body_def blake2b_set_lastblock_def blake2b_wf_def Let_def)
  moreover have "r = 0" "Sp = Some ?S"
    using final_ok [OF assms(1-3)] assms(4) by simp_all
  ultimately show ?thesis
    using assms(5) by (auto simp: rx_blake2b_update_def rx_blake2b_final_def split: option.split)
qed

subsection \<open>The variable-length hash\<close>

text \<open>
  \<open>H'\<close> of RFC 9106, section 3.3: \<open>V\<^sub>1\<close> hashes the length and the message, every further \<open>V\<close>
  hashes the one before, and the output is the first half of each but the last.
\<close>

definition argon_V :: "nat \<Rightarrow> bytes \<Rightarrow> nat \<Rightarrow> bytes" where
  "argon_V T A i = ((\<lambda>V. blake2b_rfc 64 [] V) ^^ i) (blake2b_rfc 64 [] (le_bytes 4 (of_nat T :: u32) @ A))"

definition argon_H :: "nat \<Rightarrow> bytes \<Rightarrow> bytes" where
  "argon_H T A =
     (if T \<le> 64 then blake2b_rfc T [] (le_bytes 4 (of_nat T :: u32) @ A)
      else (let r = (T + 31) div 32 - 2
            in concat (map (\<lambda>i. take 32 (argon_V T A i)) [0..<r]) @ blake2b_rfc (T - 32 * r) [] (argon_V T A (r - 1))))"

text \<open>The same, as the recursion the loop performs.\<close>

fun argon_tail :: "nat \<Rightarrow> bytes \<Rightarrow> bytes" where
  "argon_tail n V =
     (if n > 64 then take 32 (blake2b_rfc 64 [] V) @ argon_tail (n - 32) (blake2b_rfc 64 [] V)
      else blake2b_rfc n [] V)"

declare argon_tail.simps [simp del]

lemma long_count:
  assumes "64 < n"
  shows "(n + 31) div 32 - 2 = Suc ((n - 32 + 31) div 32 - 2)"
proof -
  have "n + 31 = (n - 1) + 32" "n - 32 + 31 = n - 1" using assms by simp_all
  moreover have "(n - 1 + 32) div 32 = (n - 1) div 32 + 1" by simp
  moreover have "2 \<le> (n - 1) div 32" using assms by (simp add: less_eq_div_iff_mult_less_eq)
  ultimately show ?thesis by (simp only:) linarith
qed

lemma argon_tail_closed:
  "32 < n \<Longrightarrow> argon_tail n V =
    concat (map (\<lambda>i. take 32 (((\<lambda>V. blake2b_rfc 64 [] V) ^^ Suc i) V)) [0..<(n + 31) div 32 - 2]) @
    blake2b_rfc (n - 32 * ((n + 31) div 32 - 2)) [] (((\<lambda>V. blake2b_rfc 64 [] V) ^^ ((n + 31) div 32 - 2)) V)"
proof (induction n V rule: argon_tail.induct)
  case (1 n V)
  show ?case
  proof (cases "n > 64")
    case True
    define r where "r = (n - 32 + 31) div 32 - 2"
    have n: "n - 32 * Suc r = n - 32 - 32 * r" by simp
    have "argon_tail n V = take 32 (blake2b_rfc 64 [] V) @ argon_tail (n - 32) (blake2b_rfc 64 [] V)"
      using True by (simp add: argon_tail.simps [of n])
    with 1(1) [OF True] True show ?thesis
      unfolding long_count [OF True] r_def [symmetric] n upt_conv_Cons [OF zero_less_Suc] map_Suc_upt [symmetric]
      by (simp add: comp_def funpow_swap1)
  next
    case False
    then have "(n + 31) div 32 - 2 = 0" by simp
    with False show ?thesis by (simp add: argon_tail.simps)
  qed
qed

lemma argon_H_tail:
  assumes "64 < T"
  shows "argon_H T A = take 32 (argon_V T A 0) @ argon_tail (T - 32) (argon_V T A 0)"
proof -
  define r where "r = (T - 32 + 31) div 32 - 2"
  have n: "T - 32 * Suc r = T - 32 - 32 * r" by simp
  show ?thesis
    using argon_tail_closed [of "T - 32" "argon_V T A 0"] assms
    unfolding argon_H_def long_count [OF assms] r_def [symmetric] Let_def n upt_conv_Cons [OF zero_less_Suc]
      map_Suc_upt [symmetric]
    by (simp add: argon_V_def comp_def funpow_swap1)
qed

text \<open>The loop writes the tail at the output position and stops with the last piece to produce.\<close>

lemma one_call_64:
  assumes "length V = 64" and "length ob = 64" and "0 < n" and "n \<le> 64"
  shows "rx_blake2b S0 (Some ob) n (Some V) 64 = (0, Some (blake2b_rfc n [] V @ drop n ob))"
  using one_call [of n ob S0 V] assms by simp

lemma long_loop_tail:
  assumes "32 < n" and "length ob = 64" and "pos + n \<le> length out"
  shows "case blake2b_long_loop S0 out pos n ob of (ret, out', pos', n', ob') \<Rightarrow>
    ret = 0 \<and> 0 < n' \<and> n' \<le> 64 \<and> length ob' = 64 \<and> length out' = length out \<and>
    memcpy_at out' pos' (blake2b_rfc n' [] ob') n' = take pos out @ argon_tail n ob @ drop (pos + n) out"
  using assms
proof (induction n arbitrary: out pos ob rule: less_induct)
  case (less n)
  show ?case
  proof (cases "n > 64")
    case True
    let ?V = "blake2b_rfc 64 [] ob"
    have V: "length ?V = 64" by (simp add: length_blake2b_rfc)
    have step: "blake2b_long_loop S0 out pos n ob =
        blake2b_long_loop S0 (memcpy_at out pos ?V 32) (pos + 32) (n - 32) ?V"
      using True less.prems(2) one_call_64 [of ob ob 64 S0]
      by (subst blake2b_long_loop.simps) simp
    have "take (pos + 32) (memcpy_at out pos ?V 32) = take pos out @ take 32 ?V"
      "drop (pos + n) (memcpy_at out pos ?V 32) = drop (pos + n) out"
      using less.prems True V by (simp_all add: memcpy_at_def add.commute)
    with less.IH [of "n - 32" ?V "pos + 32" "memcpy_at out pos ?V 32"] True V less.prems show ?thesis
      unfolding step by (simp add: argon_tail.simps [of n] case_prod_beta)
  next
    case False
    with less.prems show ?thesis
      by (simp add: blake2b_long_loop.simps argon_tail.simps memcpy_at_def length_blake2b_rfc)
  qed
qed

lemma long_first:
  assumes "0 < n" and "n \<le> 64" and "n \<le> length dst"
  shows "blake2b_long_first S0 dst n (store32 w) (Some d) (length d) =
    (0, blake2b_rfc n [] (le_bytes 4 w @ d) @ drop n dst)"
proof -
  let ?S = "blake2b_update_body (blake2b_start 0 n) (store32 w) 4"
  have "blake2b_wf ?S"
    using update_body_refines [OF wf_start [OF assms(2)], of 0 "store32 w"] by simp
  with final_start [OF assms(2) order_refl assms(3), of 0 "[store32 w, d]"]
    update_ok [OF wf_start [OF assms(2)], of 0 "store32 w"] init_ok [OF assms(1,2), of S0] update_ok [of ?S d]
  show ?thesis
    by (auto simp: blake2b_long_first_def rfc_start store32_def)
qed

text \<open>
  C30. The variable-length hash computes Argon2's \<open>H'\<close> for every output length from 1 to
  \<open>2^32 - 1\<close>, writing exactly that many bytes.
\<close>

theorem rxa2_blake2b_long_H:
  assumes "0 < T" and "T < 2 ^ 32" and "T \<le> length out" and "length ob0 = 64"
  shows "rxa2_blake2b_long S0 ob0 out T (Some A) (length A) = (0, argon_H T A @ drop T out)"
proof (cases "T \<le> 64")
  case True
  with assms long_first [of T out S0 "of_nat T" A] show ?thesis
    by (simp add: rxa2_blake2b_long_def argon_H_def)
next
  case False
  let ?V = "argon_V T A 0"
  let ?out = "memcpy_at out 0 ?V 32"
  have V: "length ?V = 64" by (simp add: argon_V_def length_blake2b_rfc)
  have f: "blake2b_long_first S0 ob0 64 (store32 (of_nat T)) (Some A) (length A) = (0, ?V)"
    using long_first [of 64 ob0 S0 "of_nat T" A] assms(4) by (simp add: argon_V_def)
  have "length ?out = length out" "take 32 ?out = take 32 ?V" "drop T ?out = drop T out"
    using V assms False by (simp_all add: memcpy_at_def)
  moreover obtain ret out' pos' n' ob' where l: "blake2b_long_loop S0 ?out 32 (T - 32) ?V = (ret, out', pos', n', ob')"
    by (cases "blake2b_long_loop S0 ?out 32 (T - 32) ?V") auto
  ultimately have "ret = 0" "0 < n'" "n' \<le> 64" "length ob' = 64"
    "memcpy_at out' pos' (blake2b_rfc n' [] ob') n' = argon_H T A @ drop T out"
    using long_loop_tail [of "T - 32" ?V 32 ?out S0] False V assms
    by (simp_all add: argon_H_tail)
  then show ?thesis
    using assms False l f one_call_64 [of ob' ob' n' S0]
    by (simp add: rxa2_blake2b_long_def memcpy_at_def length_blake2b_rfc Let_def)
qed

theorem rxa2_blake2b_long_H_witness:
  "rxa2_blake2b_long (blake2b_start 0 0) (replicate 64 0) (replicate 1024 0) 1024 (Some [1, 2]) 2 =
     (0, argon_H 1024 [1, 2])"
  using rxa2_blake2b_long_H [of 1024 "replicate 1024 0" "replicate 64 0" "blake2b_start 0 0" "[1, 2]"]
  by (simp flip: numeral_2_eq_2)

end
