(* ===== verification/Reciprocal.thy ===== *)
theory Reciprocal
  imports Prelude
begin

text \<open>
  \<open>crypto/randomx/reciprocal.c\<close>: the fixed-point reciprocal RandomX multiplies by in
  \<open>IMUL_RCP\<close>. All variables are 64-bit and wrap around; the failing assertion (divisor 0) is
  \<open>None\<close>.
\<close>

subsection \<open>The code\<close>

text \<open>\<open>for (bit = divisor; bit > 0; bit >>= 1) bsr++\<close>\<close>

function bsr_loop :: "u64 \<Rightarrow> nat \<Rightarrow> nat" where
  "bsr_loop b bsr = (if b > 0 then bsr_loop (drop_bit 1 b) (bsr + 1) else bsr)"
  by auto

text \<open>One iteration of the long division, from \<open>(quotient, remainder)\<close>.\<close>

definition reciprocal_step :: "u64 \<Rightarrow> u64 \<times> u64 \<Rightarrow> u64 \<times> u64" where
  "reciprocal_step divisor qr =
     (case qr of (quot, remd) \<Rightarrow>
        if remd \<ge> divisor - remd
        then (quot * 2 + 1, remd * 2 - divisor)
        else (quot * 2, remd * 2))"

definition randomx_reciprocal :: "u64 \<Rightarrow> u64 option" where
  "randomx_reciprocal divisor =
     (if divisor = 0 then None
      else
        (let p2exp63 = push_bit 63 1;
             quot = p2exp63 div divisor;
             remd = p2exp63 mod divisor;
             bsr = bsr_loop divisor 0;
             (quot, remd) = fold (\<lambda>shift. reciprocal_step divisor) [0..<bsr] (quot, remd)
         in Some quot))"

text \<open>The fallback where the assembly version is not available.\<close>

definition randomx_reciprocal_fast :: "u64 \<Rightarrow> u64 option" where
  "randomx_reciprocal_fast divisor = randomx_reciprocal divisor"

subsection \<open>The loop that finds the highest set bit\<close>

lemma unat_half: "unat (drop_bit (Suc 0) (b :: u64)) = unat b div 2"
  by (simp add: drop_bit_eq_div unat_div)

termination bsr_loop
  by (relation "measure (\<lambda>(b, _). unat b)") (auto simp: unat_half unat_gt_0 simp del: unat_drop_bit_eq)

declare bsr_loop.simps [simp del]

lemma bsr_loop_bound:
  "0 < unat b \<Longrightarrow> \<exists>j. bsr_loop b k = k + Suc j \<and> 2 ^ j \<le> unat b \<and> unat b < 2 ^ Suc j"
proof (induction b k rule: bsr_loop.induct)
  case (1 b k)
  then have b: "b > 0" by (simp add: word_less_nat_alt)
  show ?case
  proof (cases "unat b div 2 = 0")
    case True
    then have "unat b = 1" "drop_bit 1 b = 0" using 1(2) by (auto simp: unat_eq_0 [symmetric] unat_half)
    with b show ?thesis
      by (intro exI [of _ 0]) (simp add: bsr_loop.simps [of b] bsr_loop.simps [of 0])
  next
    case False
    with 1(1) [OF b] obtain j where j: "bsr_loop (drop_bit 1 b) (k + 1) = k + 1 + Suc j"
      "2 ^ j \<le> unat b div 2" "unat b div 2 < 2 ^ Suc j"
      by (auto simp: unat_half)
    then have "2 ^ Suc j \<le> unat b" "unat b < 2 ^ Suc (Suc j)" by auto
    with b j(1) show ?thesis
      by (intro exI [of _ "Suc j"]) (simp add: bsr_loop.simps [of b])
  qed
qed

lemma bsr_bounds:
  assumes "d \<noteq> 0"
  obtains j where "bsr_loop d 0 = Suc j" "2 ^ j \<le> unat d" "unat d < 2 ^ Suc j" "j < 64"
proof -
  obtain j where j: "bsr_loop d 0 = Suc j" "2 ^ j \<le> unat d" "unat d < 2 ^ Suc j"
    using bsr_loop_bound [of d 0] assms by (auto simp: unat_gt_0)
  then have "(2 :: nat) ^ j < 2 ^ 64" using unsigned_less [of d, where 'a = nat] by simp
  then have "j < 64" by (rule power_less_imp_less_exp [rotated]) simp
  with j that show thesis by blast
qed

subsection \<open>Long division\<close>

lemma double_div_mod:
  fixes x n :: nat
  assumes "0 < n"
  shows "(2 * x) div n = 2 * (x div n) + (if n \<le> 2 * (x mod n) then 1 else 0)"
    and "(2 * x) mod n = 2 * (x mod n) - (if n \<le> 2 * (x mod n) then n else 0)"
proof -
  have r: "x mod n < n" using assms by simp
  have x: "2 * x = 2 * (x mod n) + n * (2 * (x div n))"
    by (metis distrib_left_numeral mod_mult_div_eq mult.left_commute)
  have d: "(2 * x) div n = 2 * (x div n) + 2 * (x mod n) div n"
    using assms by (subst x) simp
  have m: "(2 * x) mod n = 2 * (x mod n) mod n" by (subst x) (simp only: mod_mult_self2)
  have "2 * (x mod n) div n = (if n \<le> 2 * (x mod n) then 1 else 0)"
    "2 * (x mod n) mod n = 2 * (x mod n) - (if n \<le> 2 * (x mod n) then n else 0)"
    using r by (simp_all add: le_div_geq le_mod_geq)
  with d m show "(2 * x) div n = 2 * (x div n) + (if n \<le> 2 * (x mod n) then 1 else 0)"
    and "(2 * x) mod n = 2 * (x mod n) - (if n \<le> 2 * (x mod n) then n else 0)"
    by simp_all
qed

lemma reciprocal_step_nat:
  fixes d :: u64
  assumes "d \<noteq> 0"
  shows "reciprocal_step d (of_nat (x div unat d), of_nat (x mod unat d)) =
    (of_nat (2 * x div unat d), of_nat (2 * x mod unat d))"
proof -
  define n where "n = unat d"
  define r where "r = x mod n"
  have n: "0 < n" using assms by (simp add: n_def unat_gt_0)
  then have r: "r < n" by (simp add: r_def)
  then have ur: "unat (of_nat r :: u64) = r"
    using unsigned_less [of d, where 'a = nat] by (simp add: n_def unat_of_nat)
  have d: "d = of_nat n" by (simp add: n_def)
  have "unat (d - of_nat r) = n - r"
    using r ur by (simp add: unat_sub_if' n_def)
  then have c: "d - of_nat r \<le> of_nat r \<longleftrightarrow> n \<le> 2 * r"
    unfolding word_le_nat_alt ur using r by linarith
  have m: "of_nat r * 2 - d = of_nat (2 * r - n)" if "n \<le> 2 * r"
    using that by (simp add: d of_nat_diff mult.commute)
  have "reciprocal_step d (of_nat (x div n), of_nat r) =
      (if n \<le> 2 * r then (of_nat (2 * (x div n) + 1), of_nat (2 * r - n))
       else (of_nat (2 * (x div n)), of_nat (2 * r)))"
    unfolding reciprocal_step_def case_prod_conv c using m by (simp add: mult.commute)
  then show ?thesis
    unfolding n_def [symmetric] double_div_mod [OF n] r_def [symmetric] by simp
qed

lemma reciprocal_loop:
  assumes "d \<noteq> 0"
  shows "fold (\<lambda>shift. reciprocal_step d) [0..<k] (of_nat (x div unat d), of_nat (x mod unat d)) =
    (of_nat (2 ^ k * x div unat d), of_nat (2 ^ k * x mod unat d))"
proof (induction k)
  case (Suc k)
  then show ?case using reciprocal_step_nat [OF assms, of "2 ^ k * x"] by (simp add: mult.assoc)
qed simp

lemma reciprocal_eq:
  assumes "d \<noteq> 0"
  shows "randomx_reciprocal d = Some (of_nat (2 ^ (63 + bsr_loop d 0) div unat d))"
proof -
  have p: "unat (push_bit 63 1 :: u64) = 2 ^ 63" by simp
  have "push_bit 63 1 div d = of_nat (2 ^ 63 div unat d)" "push_bit 63 1 mod d = of_nat (2 ^ 63 mod unat d)"
    unfolding p [symmetric] by (metis of_nat_unat ucast_id unat_div, metis of_nat_unat ucast_id unat_mod)
  with reciprocal_loop [OF assms, of "bsr_loop d 0" "2 ^ 63"] assms show ?thesis
    by (simp only: randomx_reciprocal_def Let_def power_add mult.commute if_False case_prod_conv)
qed

subsection \<open>What it computes\<close>

text \<open>
  C32. \<open>randomx_reciprocal\<close> returns for every divisor but 0. With \<open>2^j\<close> the highest power of 2 in
  the divisor, the result is \<open>2^(64+j) / divisor\<close>: it fits 64 bits and the next higher exponent
  would not, as the comment on the function says; only for a power of 2, which the comment
  excludes, the exact quotient \<open>2^64\<close> wraps around to 0.
\<close>

theorem randomx_reciprocal_correct:
  assumes "d \<noteq> 0"
  shows "\<exists>j rcp. randomx_reciprocal d = Some rcp \<and> 2 ^ j \<le> unat d \<and> unat d < 2 ^ (j + 1) \<and>
    (if unat d = 2 ^ j then rcp = 0
     else unat rcp = 2 ^ (64 + j) div unat d \<and> 2 ^ 63 \<le> unat rcp \<and> 2 ^ 64 \<le> 2 ^ (64 + j + 1) div unat d)"
proof -
  obtain j where j: "bsr_loop d 0 = Suc j" "2 ^ j \<le> unat d" "unat d < 2 ^ Suc j"
    using bsr_bounds [OF assms] by blast
  let ?q = "2 ^ (64 + j) div unat d"
  have r: "randomx_reciprocal d = Some (of_nat ?q)" using reciprocal_eq [OF assms] by (simp add: j)
  show ?thesis
  proof (cases "unat d = 2 ^ j")
    case True
    then have "?q = 2 ^ 64" by (simp add: power_add)
    then have "of_nat ?q = (0 :: u64)" by simp
    with r j True show ?thesis by auto
  next
    case False
    with j have pos: "0 < unat d" and less: "2 ^ j < unat d" by (simp_all add: le_neq_implies_less)
    have "2 ^ (64 + j) < 2 ^ 64 * unat d" using less by (simp add: power_add)
    then have lt: "?q < 2 ^ 64" using pos by (simp only: div_less_iff_less_mult)
    have ge: "2 ^ 63 \<le> ?q"
      using j(3) pos by (simp add: less_eq_div_iff_mult_less_eq power_add)
    have "2 ^ 64 \<le> (2 ^ (64 + j + 1) :: nat) div unat d"
      using j(3) pos by (simp add: less_eq_div_iff_mult_less_eq power_add)
    moreover have "unat (of_nat ?q :: u64) = ?q" using lt by (simp only: unat_of_nat) simp
    ultimately show ?thesis using r j False ge by auto
  qed
qed

theorem randomx_reciprocal_correct_witness:
  "(\<exists>j rcp. randomx_reciprocal 3 = Some rcp \<and> 2 ^ j \<le> (3 :: nat) \<and> (3 :: nat) < 2 ^ (j + 1) \<and>
    (if (3 :: nat) = 2 ^ j then rcp = 0
     else unat rcp = 2 ^ (64 + j) div 3 \<and> 2 ^ 63 \<le> unat rcp \<and> 2 ^ 64 \<le> 2 ^ (64 + j + 1) div (3 :: nat)))"
proof -
  have u: "unat (3 :: u64) = 3" and n: "(3 :: u64) \<noteq> 0" by simp_all
  show ?thesis using randomx_reciprocal_correct [OF n] unfolding u .
qed

end
