(* ===== verification/Blake256.thy ===== *)
theory Blake256
  imports Stream_Hash
begin

text \<open>
  \<open>crypto/cn/c_blake256.c\<close>: BLAKE-256 and BLAKE-224 of the SHA-3 competition and HMAC over
  them, one of the final hashes of CryptoNight. Lengths of the incremental interface are in
  bits, as in the code; \<open>Blake256_Spec\<close> relates the functions to the published definition.
\<close>

subsection \<open>Data\<close>

definition U8TO32 :: "bytes \<Rightarrow> u32" where
  "U8TO32 p = push_bit 24 (ucast (p ! 0)) OR push_bit 16 (ucast (p ! 1)) OR
     push_bit 8 (ucast (p ! 2)) OR ucast (p ! 3)"

text \<open>The four bytes \<open>U32TO8\<close> writes.\<close>

definition U32TO8 :: "u32 \<Rightarrow> bytes" where
  "U32TO8 v = [ucast (drop_bit 24 v), ucast (drop_bit 16 v), ucast (drop_bit 8 v), ucast v]"

definition blake256_sigma :: "nat list list" where
  "blake256_sigma =
     [[0, 1, 2, 3, 4, 5, 6, 7, 8, 9, 10, 11, 12, 13, 14, 15],
      [14, 10, 4, 8, 9, 15, 13, 6, 1, 12, 0, 2, 11, 7, 5, 3],
      [11, 8, 12, 0, 5, 2, 15, 13, 10, 14, 3, 6, 7, 1, 9, 4],
      [7, 9, 3, 1, 13, 12, 11, 14, 2, 6, 5, 10, 4, 0, 15, 8],
      [9, 0, 5, 7, 2, 4, 10, 15, 14, 1, 11, 12, 6, 8, 3, 13],
      [2, 12, 6, 10, 0, 11, 8, 3, 4, 13, 7, 5, 15, 14, 1, 9],
      [12, 5, 1, 15, 14, 13, 4, 10, 0, 7, 6, 3, 9, 2, 8, 11],
      [13, 11, 7, 14, 12, 1, 3, 9, 5, 0, 15, 4, 8, 6, 2, 10],
      [6, 15, 14, 9, 11, 3, 0, 8, 12, 2, 13, 7, 1, 4, 10, 5],
      [10, 2, 8, 4, 7, 6, 1, 5, 15, 11, 9, 14, 3, 12, 13, 0],
      [0, 1, 2, 3, 4, 5, 6, 7, 8, 9, 10, 11, 12, 13, 14, 15],
      [14, 10, 4, 8, 9, 15, 13, 6, 1, 12, 0, 2, 11, 7, 5, 3],
      [11, 8, 12, 0, 5, 2, 15, 13, 10, 14, 3, 6, 7, 1, 9, 4],
      [7, 9, 3, 1, 13, 12, 11, 14, 2, 6, 5, 10, 4, 0, 15, 8]]"

definition blake256_cst :: "u32 list" where
  "blake256_cst =
     [0x243F6A88, 0x85A308D3, 0x13198A2E, 0x03707344,
      0xA4093822, 0x299F31D0, 0x082EFA98, 0xEC4E6C89,
      0x452821E6, 0x38D01377, 0xBE5466CF, 0x34E90C6C,
      0xC0AC29B7, 0xC97C50DD, 0x3F84D5B5, 0xB5470917]"

definition blake256_padding :: bytes where
  "blake256_padding = 0x80 # replicate 63 0"

text \<open>
  \<open>state\<close> of the header. \<open>buflen\<close> (bits in the buffer) and \<open>nullt\<close> are \<open>int\<close> in the code;
  they stay within 0 to 512 and 0 to 1.
\<close>

record blake256_state =
  bl_h :: "u32 list"
  bl_s :: "u32 list"
  bl_t :: "u32 list"
  bl_buflen :: nat
  bl_nullt :: nat
  bl_buf :: bytes

record hmac_state =
  hm_inner :: blake256_state
  hm_outer :: blake256_state

subsection \<open>The compression function\<close>

definition blake256_ROT :: "u32 \<Rightarrow> nat \<Rightarrow> u32" where
  "blake256_ROT x n = push_bit (32 - n) x OR drop_bit n x"

definition blake256_G ::
  "u32 list \<Rightarrow> nat \<Rightarrow> nat \<Rightarrow> nat \<Rightarrow> nat \<Rightarrow> nat \<Rightarrow> nat \<Rightarrow> u32 list \<Rightarrow> u32 list" where
  "blake256_G m i a b c d e v =
     (let s = blake256_sigma ! i;
          v = v[a := v ! a + (m ! (s ! e) XOR blake256_cst ! (s ! (e + 1))) + v ! b];
          v = v[d := blake256_ROT (v ! d XOR v ! a) 16];
          v = v[c := v ! c + v ! d];
          v = v[b := blake256_ROT (v ! b XOR v ! c) 12];
          v = v[a := v ! a + (m ! (s ! (e + 1)) XOR blake256_cst ! (s ! e)) + v ! b];
          v = v[d := blake256_ROT (v ! d XOR v ! a) 8];
          v = v[c := v ! c + v ! d];
          v = v[b := blake256_ROT (v ! b XOR v ! c) 7]
      in v)"

definition blake256_round :: "u32 list \<Rightarrow> nat \<Rightarrow> u32 list \<Rightarrow> u32 list" where
  "blake256_round m i v =
     (let v = blake256_G m i 0 4 8 12 0 v;
          v = blake256_G m i 1 5 9 13 2 v;
          v = blake256_G m i 2 6 10 14 4 v;
          v = blake256_G m i 3 7 11 15 6 v;
          v = blake256_G m i 3 4 9 14 14 v;
          v = blake256_G m i 2 7 8 13 12 v;
          v = blake256_G m i 0 5 10 15 8 v;
          v = blake256_G m i 1 6 11 12 10 v
      in v)"

definition blake256_compress :: "blake256_state \<Rightarrow> bytes \<Rightarrow> blake256_state" where
  "blake256_compress S block =
     (let m = map (\<lambda>i. U8TO32 (drop (i * 4) block)) [0..<16];
          v = map (\<lambda>i. bl_h S ! i) [0..<8] @
              [bl_s S ! 0 XOR 0x243F6A88, bl_s S ! 1 XOR 0x85A308D3,
               bl_s S ! 2 XOR 0x13198A2E, bl_s S ! 3 XOR 0x03707344,
               0xA4093822, 0x299F31D0, 0x082EFA98, 0xEC4E6C89];
          v = (if bl_nullt S = 0
               then v[12 := v ! 12 XOR bl_t S ! 0, 13 := v ! 13 XOR bl_t S ! 0,
                      14 := v ! 14 XOR bl_t S ! 1, 15 := v ! 15 XOR bl_t S ! 1]
               else v);
          v = fold (blake256_round m) [0..<14] v;
          h = fold (\<lambda>i h. h[i mod 8 := h ! (i mod 8) XOR v ! i]) [0..<16] (bl_h S);
          h = fold (\<lambda>i h. h[i := h ! i XOR bl_s S ! (i mod 4)]) [0..<8] h
      in S\<lparr>bl_h := h\<rparr>)"

subsection \<open>The incremental interface\<close>

definition blake256_init :: "blake256_state \<Rightarrow> blake256_state" where
  "blake256_init S =
     S\<lparr>bl_h := [0x6A09E667, 0xBB67AE85, 0x3C6EF372, 0xA54FF53A,
                0x510E527F, 0x9B05688C, 0x1F83D9AB, 0x5BE0CD19],
       bl_t := [0, 0], bl_buflen := 0, bl_nullt := 0, bl_s := [0, 0, 0, 0]\<rparr>"

definition blake224_init :: "blake256_state \<Rightarrow> blake256_state" where
  "blake224_init S =
     S\<lparr>bl_h := [0xC1059ED8, 0x367CD507, 0x3070DD17, 0xF70E5939,
                0xFFC00B31, 0x68581511, 0x64F98FA7, 0xBEFA4FA4],
       bl_t := [0, 0], bl_buflen := 0, bl_nullt := 0, bl_s := [0, 0, 0, 0]\<rparr>"

text \<open>\<open>S->t[0] += 512; if (S->t[0] == 0) S->t[1]++;\<close>\<close>

definition blake256_count :: "blake256_state \<Rightarrow> blake256_state" where
  "blake256_count S =
     (let S = S\<lparr>bl_t := (bl_t S)[0 := bl_t S ! 0 + 512]\<rparr>
      in if bl_t S ! 0 = 0 then S\<lparr>bl_t := (bl_t S)[1 := bl_t S ! 1 + 1]\<rparr> else S)"

fun blake256_update_loop :: "blake256_state \<Rightarrow> bytes \<Rightarrow> nat \<Rightarrow> blake256_state \<times> bytes \<times> nat" where
  "blake256_update_loop S data datalen =
     (if datalen \<ge> 512
      then blake256_update_loop (blake256_compress (blake256_count S) data) (drop 64 data) (datalen - 512)
      else (S, data, datalen))"

declare blake256_update_loop.simps [simp del]

definition blake256_update :: "blake256_state \<Rightarrow> bytes \<Rightarrow> nat \<Rightarrow> blake256_state" where
  "blake256_update S data datalen =
     (let left = bl_buflen S div 8;
          fill = 64 - left;
          (S, data, datalen, left) =
            (if left \<noteq> 0 \<and> (datalen div 8) mod 64 \<ge> fill
             then
               (let S = S\<lparr>bl_buf := memcpy_at (bl_buf S) left data fill\<rparr>;
                    S = blake256_count S;
                    S = blake256_compress S (bl_buf S)
                in (S, drop fill data, datalen - fill * 8, 0))
             else (S, data, datalen, left));
          (S, data, datalen) = blake256_update_loop S data datalen
      in if datalen > 0
         then S\<lparr>bl_buf := memcpy_at (bl_buf S) left data (datalen div 8),
                bl_buflen := left * 8 + datalen\<rparr>
         else S\<lparr>bl_buflen := 0\<rparr>)"

definition blake224_update :: "blake256_state \<Rightarrow> bytes \<Rightarrow> nat \<Rightarrow> blake256_state" where
  "blake224_update S data datalen = blake256_update S data datalen"

text \<open>\<open>S->t[0] -= n\<close>\<close>

definition blake256_uncount :: "blake256_state \<Rightarrow> nat \<Rightarrow> blake256_state" where
  "blake256_uncount S n = S\<lparr>bl_t := (bl_t S)[0 := bl_t S ! 0 - of_nat n]\<rparr>"

text \<open>The state after finalisation, and the 32 bytes written to \<open>digest\<close>.\<close>

definition blake256_final_h :: "blake256_state \<Rightarrow> u8 \<Rightarrow> u8 \<Rightarrow> blake256_state \<times> bytes" where
  "blake256_final_h S pa pb =
     (let lo = bl_t S ! 0 + of_nat (bl_buflen S);
          hi = bl_t S ! 1;
          hi = (if lo < of_nat (bl_buflen S) then hi + 1 else hi);
          msglen = U32TO8 hi @ U32TO8 lo;
          S = (if bl_buflen S = 440
               then blake256_update (blake256_uncount S 8) [pa] 8
               else
                 (let S = (if bl_buflen S < 440
                           then
                             (let b = bl_buflen S;
                                  S = (if b = 0 then S\<lparr>bl_nullt := 1\<rparr> else S);
                                  S = blake256_uncount S (440 - b)
                              in blake256_update S blake256_padding (440 - b))
                           else
                             (let b = bl_buflen S;
                                  S = blake256_uncount S (512 - b);
                                  S = blake256_update S blake256_padding (512 - b);
                                  S = blake256_uncount S 440;
                                  S = blake256_update S (drop 1 blake256_padding) 440
                              in S\<lparr>bl_nullt := 1\<rparr>));
                      S = blake256_update S [pb] 8
                  in blake256_uncount S 8));
          S = blake256_uncount S 64;
          S = blake256_update S msglen 64
      in (S, concat (map (\<lambda>i. U32TO8 (bl_h S ! i)) [0..<8])))"

definition blake256_final :: "blake256_state \<Rightarrow> blake256_state \<times> bytes" where
  "blake256_final S = blake256_final_h S 0x81 0x01"

definition blake224_final :: "blake256_state \<Rightarrow> blake256_state \<times> bytes" where
  "blake224_final S = blake256_final_h S 0x80 0x00"

text \<open>One call: \<open>S0\<close> is the indeterminate content of the local state, \<open>out\<close> the output memory.\<close>

definition blake256_hash :: "blake256_state \<Rightarrow> bytes \<Rightarrow> bytes \<Rightarrow> nat \<Rightarrow> bytes" where
  "blake256_hash S0 out inp inlen =
     memcpy_at out 0 (snd (blake256_final (blake256_update (blake256_init S0) inp (inlen * 8 mod 2 ^ 64)))) 32"

definition blake224_hash :: "blake256_state \<Rightarrow> bytes \<Rightarrow> bytes \<Rightarrow> nat \<Rightarrow> bytes" where
  "blake224_hash S0 out inp inlen =
     memcpy_at out 0 (snd (blake224_final (blake224_update (blake224_init S0) inp (inlen * 8 mod 2 ^ 64)))) 32"

subsection \<open>HMAC\<close>

text \<open>\<open>memset(pad, c, 64); for (i = 0; i < keylen; ++i) pad[i] ^= key[i];\<close>\<close>

definition hmac_pad :: "u8 \<Rightarrow> bytes \<Rightarrow> nat \<Rightarrow> bytes" where
  "hmac_pad c key keylen =
     fold (\<lambda>i pad. pad[i := pad ! i XOR key ! i]) [0..<keylen] (replicate 64 c)"

text \<open>
  \<open>S0\<close> is the indeterminate state of the hash of a long key, \<open>kh0\<close> the indeterminate content
  of \<open>keyhash\<close>.
\<close>

definition hmac_blake256_init :: "blake256_state \<Rightarrow> bytes \<Rightarrow> hmac_state \<Rightarrow> bytes \<Rightarrow> nat \<Rightarrow> hmac_state" where
  "hmac_blake256_init S0 kh0 S key keylen =
     (let (key, keylen) = (if keylen > 64 then (blake256_hash S0 kh0 key keylen, 32) else (key, keylen));
          S = S\<lparr>hm_inner := blake256_init (hm_inner S)\<rparr>;
          S = S\<lparr>hm_inner := blake256_update (hm_inner S) (hmac_pad 0x36 key keylen) 512\<rparr>;
          S = S\<lparr>hm_outer := blake256_init (hm_outer S)\<rparr>;
          S = S\<lparr>hm_outer := blake256_update (hm_outer S) (hmac_pad 0x5c key keylen) 512\<rparr>
      in S)"

definition hmac_blake224_init :: "blake256_state \<Rightarrow> bytes \<Rightarrow> hmac_state \<Rightarrow> bytes \<Rightarrow> nat \<Rightarrow> hmac_state" where
  "hmac_blake224_init S0 kh0 S key keylen =
     (let (key, keylen) = (if keylen > 64 then (blake256_hash S0 kh0 key keylen, 28) else (key, keylen));
          S = S\<lparr>hm_inner := blake224_init (hm_inner S)\<rparr>;
          S = S\<lparr>hm_inner := blake224_update (hm_inner S) (hmac_pad 0x36 key keylen) 512\<rparr>;
          S = S\<lparr>hm_outer := blake224_init (hm_outer S)\<rparr>;
          S = S\<lparr>hm_outer := blake224_update (hm_outer S) (hmac_pad 0x5c key keylen) 512\<rparr>
      in S)"

definition hmac_blake256_update :: "hmac_state \<Rightarrow> bytes \<Rightarrow> nat \<Rightarrow> hmac_state" where
  "hmac_blake256_update S data datalen = S\<lparr>hm_inner := blake256_update (hm_inner S) data datalen\<rparr>"

definition hmac_blake224_update :: "hmac_state \<Rightarrow> bytes \<Rightarrow> nat \<Rightarrow> hmac_state" where
  "hmac_blake224_update S data datalen = S\<lparr>hm_inner := blake224_update (hm_inner S) data datalen\<rparr>"

definition hmac_blake256_final :: "hmac_state \<Rightarrow> hmac_state \<times> bytes" where
  "hmac_blake256_final S =
     (let (inner, ihash) = blake256_final (hm_inner S);
          S = S\<lparr>hm_inner := inner\<rparr>;
          S = S\<lparr>hm_outer := blake256_update (hm_outer S) ihash 256\<rparr>;
          (outer, digest) = blake256_final (hm_outer S)
      in (S\<lparr>hm_outer := outer\<rparr>, digest))"

definition hmac_blake224_final :: "hmac_state \<Rightarrow> hmac_state \<times> bytes" where
  "hmac_blake224_final S =
     (let (inner, ihash) = blake224_final (hm_inner S);
          S = S\<lparr>hm_inner := inner\<rparr>;
          S = S\<lparr>hm_outer := blake224_update (hm_outer S) ihash 224\<rparr>;
          (outer, digest) = blake224_final (hm_outer S)
      in (S\<lparr>hm_outer := outer\<rparr>, digest))"

definition hmac_blake256_hash ::
  "hmac_state \<Rightarrow> blake256_state \<Rightarrow> bytes \<Rightarrow> bytes \<Rightarrow> bytes \<Rightarrow> nat \<Rightarrow> bytes \<Rightarrow> nat \<Rightarrow> bytes" where
  "hmac_blake256_hash H0 S0 kh0 out key keylen inp inlen =
     memcpy_at out 0
       (snd (hmac_blake256_final
          (hmac_blake256_update (hmac_blake256_init S0 kh0 H0 key keylen) inp (inlen * 8 mod 2 ^ 64)))) 32"

definition hmac_blake224_hash ::
  "hmac_state \<Rightarrow> blake256_state \<Rightarrow> bytes \<Rightarrow> bytes \<Rightarrow> bytes \<Rightarrow> nat \<Rightarrow> bytes \<Rightarrow> nat \<Rightarrow> bytes" where
  "hmac_blake224_hash H0 S0 kh0 out key keylen inp inlen =
     memcpy_at out 0
       (snd (hmac_blake224_final
          (hmac_blake224_update (hmac_blake224_init S0 kh0 H0 key keylen) inp (inlen * 8 mod 2 ^ 64)))) 32"

end
