(* ===== verification/Blake256_Spec.thy ===== *)
theory Blake256_Spec
  imports Blake256 Endian
begin

text \<open>
  What the functions of \<open>Blake256\<close> promise: the update is the abstract one for the pieces it
  handles (\<open>blake256_adm\<close>) and moves held-back bytes behind the new blocks for the others; the
  one-call hashes are BLAKE-256 and BLAKE-224 as published (\<open>blake_spec\<close>), and HMAC over them.
\<close>

subsection \<open>The update refines the abstract one\<close>

definition blake256_wf :: "blake256_state \<Rightarrow> bool" where
  "blake256_wf S \<longleftrightarrow> length (bl_h S) = 8 \<and> length (bl_s S) = 4 \<and> length (bl_t S) = 2 \<and>
     length (bl_buf S) = 64 \<and> bl_buflen S mod 8 = 0 \<and> bl_buflen S < 512"

definition blake256_chain :: "blake256_state \<Rightarrow> blake256_state" where
  "blake256_chain S = S\<lparr>bl_buf := [], bl_buflen := 0\<rparr>"

definition blake256_pend :: "blake256_state \<Rightarrow> bytes" where
  "blake256_pend S = take (bl_buflen S div 8) (bl_buf S)"

definition blake256_step :: "blake256_state \<Rightarrow> bytes \<Rightarrow> blake256_state" where
  "blake256_step c b = blake256_compress (blake256_count c) b"

text \<open>The pieces the update handles while the bytes \<open>p\<close> are held back.\<close>

definition blake256_adm :: "bytes \<Rightarrow> bytes \<Rightarrow> bool" where
  "blake256_adm p m \<longleftrightarrow> p = [] \<or> (m \<noteq> [] \<and> length p + length m < 64) \<or> 64 \<le> length p + length m mod 64"

lemma length_fold_update [simp]: "length (fold (\<lambda>i h. h[f i := g i h]) is h) = length h"
  by (induction "is" arbitrary: h) simp_all

lemma blake256_compress_frame [simp]:
  "bl_t (blake256_compress S b) = bl_t S" "bl_s (blake256_compress S b) = bl_s S"
  "bl_nullt (blake256_compress S b) = bl_nullt S"
  "bl_buf (blake256_compress S b) = bl_buf S" "bl_buflen (blake256_compress S b) = bl_buflen S"
  "length (bl_h (blake256_compress S b)) = length (bl_h S)"
  by (simp_all add: blake256_compress_def Let_def del: upt_rec_numeral)

lemma blake256_count_frame [simp]:
  "bl_h (blake256_count S) = bl_h S" "bl_s (blake256_count S) = bl_s S"
  "bl_nullt (blake256_count S) = bl_nullt S"
  "bl_buf (blake256_count S) = bl_buf S" "bl_buflen (blake256_count S) = bl_buflen S"
  "length (bl_t (blake256_count S)) = length (bl_t S)"
  by (simp_all add: blake256_count_def Let_def)

lemma blake256_buf_frame [simp]:
  "blake256_compress (S\<lparr>bl_buf := x\<rparr>) b = (blake256_compress S b)\<lparr>bl_buf := x\<rparr>"
  "blake256_compress (S\<lparr>bl_buflen := n\<rparr>) b = (blake256_compress S b)\<lparr>bl_buflen := n\<rparr>"
  "blake256_count (S\<lparr>bl_buf := x\<rparr>) = (blake256_count S)\<lparr>bl_buf := x\<rparr>"
  "blake256_count (S\<lparr>bl_buflen := n\<rparr>) = (blake256_count S)\<lparr>bl_buflen := n\<rparr>"
  by (simp_all add: blake256_compress_def blake256_count_def Let_def del: upt_rec_numeral)

lemma blake256_chain_buf [simp]:
  "blake256_chain (S\<lparr>bl_buf := x\<rparr>) = blake256_chain S" "blake256_chain (S\<lparr>bl_buflen := n\<rparr>) = blake256_chain S"
  by (simp_all add: blake256_chain_def)

lemma blake256_chain_step: "blake256_chain (blake256_step S b) = blake256_step (blake256_chain S) b"
  by (simp add: blake256_chain_def blake256_step_def)

lemma blake256_compress_take: "blake256_compress S (take 64 p) = blake256_compress S p"
proof -
  have "U8TO32 (drop (i * 4) (take 64 p)) = U8TO32 (drop (i * 4) p)" if "i < 16" "64 \<le> length p" for i
    using that by (simp add: U8TO32_def)
  then have "map (\<lambda>i. U8TO32 (drop (i * 4) (take 64 p))) [0..<16] = map (\<lambda>i. U8TO32 (drop (i * 4) p)) [0..<16]"
    by (cases "64 \<le> length p") (auto simp del: upt_rec_numeral)
  then show ?thesis unfolding blake256_compress_def Let_def by (simp only:)
qed

lemma blake256_loop_absorb:
  "blake256_update_loop S data (8 * length data) =
    (case absorb 64 64 blake256_step S data of (S', p) \<Rightarrow> (S', p, 8 * length p))"
proof (induction "length data" arbitrary: S data rule: less_induct)
  case less
  show ?case
  proof (cases "64 \<le> length data")
    case True
    then have "8 * length data - 512 = 8 * length (drop 64 data)" "512 \<le> 8 * length data"
      "length (drop 64 data) < length data" by simp_all
    then have "blake256_update_loop S data (8 * length data) =
        blake256_update_loop (blake256_step S (take 64 data)) (drop 64 data) (8 * length (drop 64 data))"
      by (subst blake256_update_loop.simps) (simp only: if_True blake256_step_def blake256_compress_take)
    also have "\<dots> = (case absorb 64 64 blake256_step (blake256_step S (take 64 data)) (drop 64 data) of
        (S', p) \<Rightarrow> (S', p, 8 * length p))"
      by (rule less) fact
    finally show ?thesis using True by (simp add: absorb_step)
  next
    case False
    then show ?thesis by (subst blake256_update_loop.simps) (simp add: absorb_short)
  qed
qed

lemma absorb_blake256:
  "blake256_wf S \<Longrightarrow> blake256_wf (fst (absorb 64 64 blake256_step S zs)) \<and>
    bl_buf (fst (absorb 64 64 blake256_step S zs)) = bl_buf S \<and>
    bl_buflen (fst (absorb 64 64 blake256_step S zs)) = bl_buflen S"
  using absorb_invariant [of "\<lambda>c. blake256_wf c \<and> bl_buf c = bl_buf S \<and> bl_buflen c = bl_buflen S"
      64 blake256_step 64 S zs]
  by (simp add: blake256_wf_def blake256_step_def)

lemma length_blake256_pend [simp]: "blake256_wf S \<Longrightarrow> length (blake256_pend S) = bl_buflen S div 8"
  by (auto simp: blake256_pend_def blake256_wf_def min_def)

lemma blake256_pend_less: "blake256_wf S \<Longrightarrow> length (blake256_pend S) < 64"
  by simp (simp add: blake256_wf_def less_mult_imp_div_less)

text \<open>The end of the update, after the full blocks: \<open>r\<close> is put behind the first \<open>left\<close> bytes.\<close>

definition blake256_keep :: "blake256_state \<Rightarrow> nat \<Rightarrow> bytes \<Rightarrow> blake256_state" where
  "blake256_keep S left r =
     (if r \<noteq> []
      then S\<lparr>bl_buf := memcpy_at (bl_buf S) left r (length r), bl_buflen := left * 8 + 8 * length r\<rparr>
      else S\<lparr>bl_buflen := 0\<rparr>)"

lemma blake256_keep:
  assumes "blake256_wf S" and "left + length r < 64"
  shows "blake256_wf (blake256_keep S left r) \<and> blake256_chain (blake256_keep S left r) = blake256_chain S \<and>
    blake256_pend (blake256_keep S left r) = (if r = [] then [] else take left (bl_buf S) @ r)"
  using assms by (auto simp: blake256_wf_def blake256_pend_def memcpy_at_def blake256_keep_def)

lemma blake256_upd_blocks:
  assumes "blake256_wf S" and "bl_buflen S div 8 = 0"
  shows "blake256_wf (blake256_update S m (8 * length m)) \<and>
    (blake256_chain (blake256_update S m (8 * length m)), blake256_pend (blake256_update S m (8 * length m)))
      = absorb 64 64 blake256_step (blake256_chain S) m"
proof -
  let ?r = "absorb 64 64 blake256_step S m"
  have u: "blake256_update S m (8 * length m) = blake256_keep (fst ?r) 0 (snd ?r)"
    using assms(2) by (simp add: blake256_update_def blake256_loop_absorb case_prod_beta blake256_keep_def)
  have "length (snd ?r) < 64" by (rule length_snd_absorb) simp_all
  with absorb_blake256 [OF assms(1), of m] blake256_keep [of "fst ?r" 0 "snd ?r"]
  show ?thesis unfolding u
    using absorb_map [of blake256_chain blake256_step blake256_step 64 64 S m]
    by (simp add: blake256_chain_step)
qed

text \<open>Completing the held-back block first is the same as having it in front of the message.\<close>

lemma blake256_loop_buflen:
  "blake256_update_loop (S\<lparr>bl_buflen := k\<rparr>) d n =
     (case blake256_update_loop S d n of (S, d, n) \<Rightarrow> (S\<lparr>bl_buflen := k\<rparr>, d, n))"
proof (induction S d n rule: blake256_update_loop.induct)
  case (1 S d n)
  then show ?case by (subst (1 2) blake256_update_loop.simps) simp
qed

lemma blake256_upd_fill_aux:
  assumes c: "left \<noteq> 0 \<and> 64 - left \<le> (datalen div 8) mod 64" and l: "left = bl_buflen S div 8"
    and mm: "memcpy_at (bl_buf S) left m (64 - left) = blk"
  shows "blake256_update S m datalen =
    blake256_update (blake256_step (S\<lparr>bl_buf := blk, bl_buflen := 0\<rparr>) blk) (drop (64 - left) m) (datalen - (64 - left) * 8)"
proof -
  obtain S2 d n where r: "blake256_update_loop (blake256_compress (blake256_count S) blk\<lparr>bl_buf := blk\<rparr>)
      (drop (64 - left) m) (datalen - (64 - left) * 8) = (S2, d, n)"
    by (cases "blake256_update_loop (blake256_compress (blake256_count S) blk\<lparr>bl_buf := blk\<rparr>)
      (drop (64 - left) m) (datalen - (64 - left) * 8)") auto
  have b: "bl_buf (S\<lparr>bl_buf := x\<rparr>) = x" for S :: blake256_state and x by simp
  have "blake256_update S m datalen =
      (if n > 0 then S2\<lparr>bl_buf := memcpy_at (bl_buf S2) 0 d (n div 8), bl_buflen := n\<rparr> else S2\<lparr>bl_buflen := 0\<rparr>)"
    unfolding blake256_update_def Let_def l [symmetric] if_P [OF c] mm prod.case
    by (simp only: blake256_buf_frame b r prod.case mult_zero_left add_0)
  moreover have "blake256_update (blake256_step (S\<lparr>bl_buf := blk, bl_buflen := 0\<rparr>) blk) (drop (64 - left) m)
        (datalen - (64 - left) * 8) =
      (if n > 0 then S2\<lparr>bl_buf := memcpy_at (bl_buf S2) 0 d (n div 8), bl_buflen := n\<rparr> else S2\<lparr>bl_buflen := 0\<rparr>)"
    by (simp add: blake256_update_def blake256_step_def blake256_loop_buflen r)
  ultimately show ?thesis by (simp only:)
qed

lemma blake256_upd_fill:
  assumes "blake256_wf S" and "0 < left" and "64 - left \<le> length m mod 64" and "left = bl_buflen S div 8"
  defines "S1 \<equiv> S\<lparr>bl_buf := blake256_pend S @ take (64 - left) m, bl_buflen := 0\<rparr>"
  shows "blake256_wf S1 \<and> blake256_update S m (8 * length m) =
    blake256_update (blake256_step S1 (bl_buf S1)) (drop (64 - left) m) (8 * length m - (64 - left) * 8)"
proof -
  define n where "n = 64 - left"
  have p: "left < 64" "length (blake256_pend S) = left"
    using blake256_pend_less [OF assms(1)] length_blake256_pend [OF assms(1)] unfolding assms(4) by simp_all
  have m: "n \<le> length m"
    using assms(3) unfolding n_def by (rule order_trans) (rule mod_less_eq_dividend)
  have w: "length (bl_buf S) = 64" using assms(1) by (simp add: blake256_wf_def)
  have buf: "memcpy_at (bl_buf S) left m n = blake256_pend S @ take n m"
    unfolding memcpy_at_def blake256_pend_def assms(4) [symmetric] using w p(1) by (simp add: n_def)
  have "length (blake256_pend S @ take n m) = 64" using p m by (simp add: n_def)
  then have "blake256_wf S1"
    using assms(1) unfolding S1_def n_def blake256_wf_def by simp
  moreover have "left \<noteq> 0 \<and> 64 - left \<le> (8 * length m div 8) mod 64" using assms(2,3) by simp
  from blake256_upd_fill_aux [OF this assms(4) buf [unfolded n_def]]
  have "blake256_update S m (8 * length m) =
      blake256_update (blake256_step S1 (bl_buf S1)) (drop (64 - left) m) (8 * length m - (64 - left) * 8)"
    by (simp add: S1_def)
  ultimately show ?thesis by blast
qed

lemma blake256_upd_refines:
  assumes wf: "blake256_wf S" and adm: "blake256_adm (blake256_pend S) m"
  shows "blake256_wf (blake256_update S m (8 * length m)) \<and>
    (blake256_chain (blake256_update S m (8 * length m)), blake256_pend (blake256_update S m (8 * length m)))
      = absorb 64 64 blake256_step (blake256_chain S) (blake256_pend S @ m)"
proof -
  define left where "left = bl_buflen S div 8"
  have left: "left < 64" "length (blake256_pend S) = left"
    using wf blake256_pend_less [OF wf] by (simp_all add: left_def)
  consider "left = 0" | "left > 0" "m \<noteq> []" "left + length m < 64" | "left > 0" "64 \<le> left + length m mod 64"
    using adm left(2) by (auto simp: blake256_adm_def)
  then show ?thesis
  proof cases
    case 1
    then have "blake256_pend S = []" using left(2) by simp
    with 1 blake256_upd_blocks [OF wf, of m] show ?thesis by (simp add: left_def)
  next
    case 2
    then have "length m mod 64 = length m" by simp
    with 2 have l: "\<not> 64 \<le> left + length m mod 64" by linarith
    have "blake256_update_loop S m (8 * length m) = (S, m, 8 * length m)"
      using 2 by (subst blake256_update_loop.simps) simp
    with l have u: "blake256_update S m (8 * length m) = blake256_keep S left m"
      using 2 by (simp add: blake256_update_def blake256_keep_def Let_def flip: left_def)
    show ?thesis unfolding u
      using blake256_keep [OF wf 2(3)] 2 left
      by (simp add: absorb_short blake256_pend_def left_def)
  next
    case 3
    define n where "n = 64 - left"
    define S1 where "S1 = S\<lparr>bl_buf := blake256_pend S @ take n m, bl_buflen := 0\<rparr>"
    have "8 * length m - n * 8 = 8 * length (drop n m)" by simp
    moreover have "64 - left \<le> length m mod 64" using 3 by linarith
    ultimately have f: "blake256_wf S1" "blake256_update S m (8 * length m) =
        blake256_update (blake256_step S1 (bl_buf S1)) (drop n m) (8 * length (drop n m))"
      using blake256_upd_fill [OF wf 3(1) _ left_def, of m] by (simp_all add: S1_def n_def)
    have "blake256_wf (blake256_step S1 (bl_buf S1))" "bl_buflen (blake256_step S1 (bl_buf S1)) div 8 = 0"
      using f(1) by (simp_all add: blake256_wf_def blake256_step_def S1_def)
    from blake256_upd_blocks [OF this, of "drop n m"] f(2)
    have r: "blake256_wf (blake256_update S m (8 * length m))"
      "(blake256_chain (blake256_update S m (8 * length m)), blake256_pend (blake256_update S m (8 * length m)))
       = absorb 64 64 blake256_step (blake256_step (blake256_chain S) (blake256_pend S @ take n m)) (drop n m)"
      by (simp_all add: blake256_chain_step S1_def)
    have "length m mod 64 \<le> length m" by simp
    then have "64 \<le> left + length m" using 3 by linarith
    then have "absorb 64 64 blake256_step (blake256_chain S) (blake256_pend S @ m) =
        absorb 64 64 blake256_step (blake256_step (blake256_chain S) (blake256_pend S @ take n m)) (drop n m)"
      using left by (simp add: absorb_step n_def)
    with r show ?thesis by simp
  qed
qed

interpretation blake256: guarded_stream 64 64 blake256_step "\<lambda>S m. blake256_update S m (8 * length m)"
    blake256_chain blake256_pend blake256_wf blake256_adm
  by unfold_locales (simp_all add: blake256_upd_refines)

subsection \<open>The published definition\<close>

definition blake_words :: "nat \<Rightarrow> u32 list" where
  "blake_words t = [of_nat t, of_nat (t div 2 ^ 32)]"

text \<open>
  The specification, written from the submission and apart from the code: the constants (the leading digits of pi) and
  permutations, the function \<open>G\<close> on four words, a round (the columns, then the diagonals in the order of the paper), and the
  compression function with a salt of 0 and a counter \<open>t\<close> that is a number. Words are big-endian.
\<close>

definition blake_consts :: "u32 list" where
  "blake_consts =
     [0x243F6A88, 0x85A308D3, 0x13198A2E, 0x03707344, 0xA4093822, 0x299F31D0, 0x082EFA98, 0xEC4E6C89,
      0x452821E6, 0x38D01377, 0xBE5466CF, 0x34E90C6C, 0xC0AC29B7, 0xC97C50DD, 0x3F84D5B5, 0xB5470917]"

definition blake_perm :: "nat list list" where
  "blake_perm =
     [[0, 1, 2, 3, 4, 5, 6, 7, 8, 9, 10, 11, 12, 13, 14, 15],
      [14, 10, 4, 8, 9, 15, 13, 6, 1, 12, 0, 2, 11, 7, 5, 3],
      [11, 8, 12, 0, 5, 2, 15, 13, 10, 14, 3, 6, 7, 1, 9, 4],
      [7, 9, 3, 1, 13, 12, 11, 14, 2, 6, 5, 10, 4, 0, 15, 8],
      [9, 0, 5, 7, 2, 4, 10, 15, 14, 1, 11, 12, 6, 8, 3, 13],
      [2, 12, 6, 10, 0, 11, 8, 3, 4, 13, 7, 5, 15, 14, 1, 9],
      [12, 5, 1, 15, 14, 13, 4, 10, 0, 7, 6, 3, 9, 2, 8, 11],
      [13, 11, 7, 14, 12, 1, 3, 9, 5, 0, 15, 4, 8, 6, 2, 10],
      [6, 15, 14, 9, 11, 3, 0, 8, 12, 2, 13, 7, 1, 4, 10, 5],
      [10, 2, 8, 4, 7, 6, 1, 5, 15, 11, 9, 14, 3, 12, 13, 0]]"

fun blake_quarter :: "u32 \<Rightarrow> u32 \<Rightarrow> u32 \<times> u32 \<times> u32 \<times> u32 \<Rightarrow> u32 \<times> u32 \<times> u32 \<times> u32" where
  "blake_quarter x y (a, b, c, d) =
     (let a = a + b + x; d = word_rotr 16 (d XOR a); c = c + d; b = word_rotr 12 (b XOR c);
          a = a + b + y; d = word_rotr 8 (d XOR a); c = c + d; b = word_rotr 7 (b XOR c)
      in (a, b, c, d))"

definition blake_G :: "u32 list \<Rightarrow> nat \<Rightarrow> nat \<Rightarrow> nat \<Rightarrow> nat \<Rightarrow> nat \<Rightarrow> nat \<Rightarrow> u32 list \<Rightarrow> u32 list" where
  "blake_G m r i a b c d v =
     (let p = blake_perm ! (r mod 10) ! (2 * i); q = blake_perm ! (r mod 10) ! (2 * i + 1)
      in case blake_quarter (m ! p XOR blake_consts ! q) (m ! q XOR blake_consts ! p) (v ! a, v ! b, v ! c, v ! d) of
           (a', b', c', d') \<Rightarrow> v[a := a', b := b', c := c', d := d'])"

definition blake_round :: "u32 list \<Rightarrow> nat \<Rightarrow> u32 list \<Rightarrow> u32 list" where
  "blake_round m r v =
     (let v = blake_G m r 0 0 4 8 12 v; v = blake_G m r 1 1 5 9 13 v;
          v = blake_G m r 2 2 6 10 14 v; v = blake_G m r 3 3 7 11 15 v;
          v = blake_G m r 4 0 5 10 15 v; v = blake_G m r 5 1 6 11 12 v;
          v = blake_G m r 6 2 7 8 13 v; v = blake_G m r 7 3 4 9 14 v
      in v)"

definition blake_F :: "u32 list \<Rightarrow> bytes \<Rightarrow> nat \<Rightarrow> u32 list" where
  "blake_F hs b t =
     (let m = map (\<lambda>i. le_word (map (\<lambda>k. drop (i * 4) b ! k) [3, 2, 1, 0])) [0..<16];
          v = hs @ [blake_consts ! 0, blake_consts ! 1, blake_consts ! 2, blake_consts ! 3,
                    blake_consts ! 4 XOR of_nat t, blake_consts ! 5 XOR of_nat t,
                    blake_consts ! 6 XOR of_nat (t div 2 ^ 32), blake_consts ! 7 XOR of_nat (t div 2 ^ 32)];
          v = fold (blake_round m) [0..<14] v
      in map (\<lambda>i. hs ! i XOR v ! i XOR v ! (i + 8)) [0..<8])"

text \<open>
  The padding of a message of \<open>n\<close> bytes: a bit 1, zeros up to 65 bits short of a block, a bit that
  tells BLAKE-256 (1) from BLAKE-224 (0), and the length in bits.
\<close>

definition blake_len :: "nat \<Rightarrow> bytes" where
  "blake_len n = rev (le_bytes 8 (of_nat (8 * n) :: u64))"

definition blake_pad :: "u8 \<Rightarrow> nat \<Rightarrow> bytes" where
  "blake_pad pb n =
     (let k = (119 - n mod 64) mod 64 + 1
      in (if k = 1 then [0x80 OR pb] else 0x80 # replicate (k - 2) 0 @ [pb]) @ blake_len n)"

text \<open>The counter of block \<open>i\<close>: the message bits up to its end, 0 if it has none.\<close>

definition blake_ctr :: "nat \<Rightarrow> nat \<Rightarrow> nat" where
  "blake_ctr n i = (if 64 * i < n then min (8 * n) (512 * (i + 1)) else 0)"

fun blake_blocks :: "nat \<Rightarrow> u32 list \<Rightarrow> nat \<Rightarrow> bytes \<Rightarrow> u32 list" where
  "blake_blocks n hs i d =
     (if length d < 64 then hs
      else blake_blocks n (blake_F hs (take 64 d) (blake_ctr n i)) (i + 1) (drop 64 d))"

declare blake_blocks.simps [simp del]

definition blake_iv256 :: "u32 list" where
  "blake_iv256 = [0x6A09E667, 0xBB67AE85, 0x3C6EF372, 0xA54FF53A,
                  0x510E527F, 0x9B05688C, 0x1F83D9AB, 0x5BE0CD19]"

definition blake_iv224 :: "u32 list" where
  "blake_iv224 = [0xC1059ED8, 0x367CD507, 0x3070DD17, 0xF70E5939,
                  0xFFC00B31, 0x68581511, 0x64F98FA7, 0xBEFA4FA4]"

definition blake_spec :: "u32 list \<Rightarrow> u8 \<Rightarrow> bytes \<Rightarrow> bytes" where
  "blake_spec iv pb d = concat (map (rev \<circ> le_bytes 4) (blake_blocks (length d) iv 0 (d @ blake_pad pb (length d))))"

definition blake256_spec :: "bytes \<Rightarrow> bytes" where
  "blake256_spec d = blake_spec blake_iv256 1 d"

definition blake224_spec :: "bytes \<Rightarrow> bytes" where
  "blake224_spec d = take 28 (blake_spec blake_iv224 0 d)"

subsection \<open>The compression function and the counter\<close>

lemma U32TO8_rev: "U32TO8 v = rev (le_bytes 4 v)"
  by (simp add: U32TO8_def numeral_eq_Suc drop_bit_drop_bit add.commute)

lemma le_bytes_halves: "le_bytes 8 (w :: u64) = le_bytes 4 (ucast w :: u32) @ le_bytes 4 (ucast (drop_bit 32 w) :: u32)"
proof (rule nth_equalityI)
  fix i assume "i < length (le_bytes 8 w)"
  then have "i < 8" by simp
  then show "le_bytes 8 w ! i = (le_bytes 4 (ucast w :: u32) @ le_bytes 4 (ucast (drop_bit 32 w) :: u32)) ! i"
  proof (cases "i < 4")
    case False
    then obtain k where "i = k + 4" by (metis add.commute le_add_diff_inverse not_less)
    then show ?thesis using \<open>i < 8\<close> by (auto simp: nth_append nth_le_bytes intro!: bit_word_eqI simp: bit_simps algebra_simps)
  qed (auto simp: nth_append nth_le_bytes intro!: bit_word_eqI simp: bit_simps)
qed simp

lemma blake_len_code: "blake_len n = U32TO8 (of_nat (8 * n div 2 ^ 32)) @ U32TO8 (of_nat (8 * n))"
proof -
  have "ucast (of_nat k :: u64) = (of_nat k :: u32)" "ucast (drop_bit 32 (of_nat k :: u64)) = (of_nat (k div 2 ^ 32) :: u32)" for k
    unfolding drop_bit_eq_div [symmetric] by (rule bit_word_eqI, auto simp: bit_simps simp del: drop_bit_numeral_bit0)+
  from this [of "8 * n"]
  show ?thesis by (simp only: blake_len_def le_bytes_halves U32TO8_rev rev_append)
qed

lemma blake_spec_code: "blake_spec iv pb d = concat (map U32TO8 (blake_blocks (length d) iv 0 (d @ blake_pad pb (length d))))"
proof -
  have "rev \<circ> le_bytes 4 = U32TO8" by (rule ext) (simp add: U32TO8_rev)
  then show ?thesis by (simp only: blake_spec_def)
qed

lemma U8TO32_word: "U8TO32 p = le_word (map (\<lambda>k. p ! k) [3, 2, 1, 0])"
  by (simp add: U8TO32_def push_bit_or ac_simps)

lemma consts_code: "blake256_cst = blake_consts"
  by (simp add: blake256_cst_def blake_consts_def)

lemma perm_code: "r < 14 \<Longrightarrow> blake256_sigma ! r = blake_perm ! (r mod 10)"
proof -
  have "list_all (\<lambda>r. blake256_sigma ! r = blake_perm ! (r mod 10)) [0..<14]"
    by (simp add: blake256_sigma_def blake_perm_def upt_rec)
  then show "r < 14 \<Longrightarrow> ?thesis" by (simp add: list_all_iff)
qed

lemma ROT_code: "0 < n \<Longrightarrow> n < 32 \<Longrightarrow> blake256_ROT x n = word_rotr n x"
  using rotr_idiom [of n x] by (simp add: blake256_ROT_def or.commute)

lemma length_blake256_G [simp]: "length (blake256_G m i a b c d e v) = length v"
  by (simp add: blake256_G_def Let_def)

lemma length_blake256_rounds [simp]: "length (fold (blake256_round m) rs v) = length v"
  by (induction rs arbitrary: v) (simp_all add: blake256_round_def Let_def)

lemma length_blake_F [simp]: "length (blake_F hs b t) = 8"
  by (simp add: blake_F_def Let_def)

text \<open>The code updates the four words in place, and takes the diagonals in another order.\<close>

lemma let_trans: "e = e' \<Longrightarrow> f e' = s \<Longrightarrow> Let e f = s"
  by simp

lemma quarter_in_place:
  assumes "distinct [a, b, c, d]" "a < length v" "b < length v" "c < length v" "d < length v"
  shows "(let v = v[a := v ! a + x + v ! b]; v = v[d := word_rotr 16 (v ! d XOR v ! a)];
      v = v[c := v ! c + v ! d]; v = v[b := word_rotr 12 (v ! b XOR v ! c)];
      v = v[a := v ! a + y + v ! b]; v = v[d := word_rotr 8 (v ! d XOR v ! a)];
      v = v[c := v ! c + v ! d]; v = v[b := word_rotr 7 (v ! b XOR v ! c)] in v) =
    (case blake_quarter x y (v ! a, v ! b, v ! c, v ! d) of (a', b', c', d') \<Rightarrow> v[a := a', b := b', c := c', d := d'])"
proof -
  define a1 where "a1 = v ! a + v ! b + x"
  define d1 where "d1 = word_rotr 16 (v ! d XOR a1)"
  define c1 where "c1 = v ! c + d1"
  define b1 where "b1 = word_rotr 12 (v ! b XOR c1)"
  define a2 where "a2 = a1 + b1 + y"
  define d2 where "d2 = word_rotr 8 (d1 XOR a2)"
  define c2 where "c2 = c1 + d2"
  define b2 where "b2 = word_rotr 7 (b1 XOR c2)"
  note eqs = a1_def [symmetric] d1_def [symmetric] c1_def [symmetric] b1_def [symmetric] a2_def [symmetric] d2_def [symmetric]
    c2_def [symmetric] b2_def [symmetric]
  have q: "blake_quarter x y (v ! a, v ! b, v ! c, v ! d) = (a2, b2, c2, d2)"
    unfolding blake_quarter.simps Let_def eqs ..
  define v1 v2 v3 v4 where "v1 = v[a := a1]" and "v2 = v1[d := d1]" and "v3 = v2[c := c1]" and "v4 = v3[b := b1]"
  define v5 v6 v7 v8 where "v5 = v4[a := a2]" and "v6 = v5[d := d2]" and "v7 = v6[c := c2]" and "v8 = v7[b := b2]"
  note vs = v1_def v2_def v3_def v4_def v5_def v6_def v7_def v8_def
  have s: "v[a := v ! a + x + v ! b] = v1" "v1[d := word_rotr 16 (v1 ! d XOR v1 ! a)] = v2"
    "v2[c := v2 ! c + v2 ! d] = v3" "v3[b := word_rotr 12 (v3 ! b XOR v3 ! c)] = v4"
    "v4[a := v4 ! a + y + v4 ! b] = v5" "v5[d := word_rotr 8 (v5 ! d XOR v5 ! a)] = v6"
    "v6[c := v6 ! c + v6 ! d] = v7" "v7[b := word_rotr 7 (v7 ! b XOR v7 ! c)] = v8"
    using assms by (simp_all add: vs a1_def ac_simps d1_def c1_def b1_def a2_def d2_def c2_def b2_def)
  have "v8 = v[a := a2, b := b2, c := c2, d := d2]"
    by (rule nth_equalityI) (use assms in \<open>auto simp: vs nth_list_update\<close>)
  then show ?thesis
    unfolding q prod.case
    by (intro let_trans [OF s(1)] let_trans [OF s(2)] let_trans [OF s(3)] let_trans [OF s(4)]
        let_trans [OF s(5)] let_trans [OF s(6)] let_trans [OF s(7)] let_trans [OF s(8)])
qed

lemma blake_G_code:
  assumes "r < 14" "distinct [a, b, c, d]" "a < length v" "b < length v" "c < length v" "d < length v"
  shows "blake256_G m r a b c d (2 * i) v = blake_G m r i a b c d v"
  unfolding blake256_G_def blake_G_def perm_code [OF assms(1)] consts_code Let_def [of "blake_perm ! (r mod 10)"]
    Let_def [of "blake_perm ! (r mod 10) ! (2 * i)"] Let_def [of "blake_perm ! (r mod 10) ! (2 * i + 1)"]
    quarter_in_place [OF assms(2-), symmetric]
  by (simp add: ROT_code)

lemma length_blake_G [simp]: "length (blake_G m r i a b c d v) = length v"
  by (simp add: blake_G_def Let_def split: prod.split)

lemma G_commute:
  assumes "distinct [a, b, c, d, a', b', c', d']"
  shows "blake_G m r i a b c d (blake_G m r i' a' b' c' d' v) = blake_G m r i' a' b' c' d' (blake_G m r i a b c d v)" (is "?l = ?r")
proof -
  obtain x y x' y' where G: "blake_G m r i a b c d v = (case blake_quarter x y (v ! a, v ! b, v ! c, v ! d) of
        (p, q, s, t) \<Rightarrow> v[a := p, b := q, c := s, d := t])"
      "blake_G m r i' a' b' c' d' v = (case blake_quarter x' y' (v ! a', v ! b', v ! c', v ! d') of
        (p, q, s, t) \<Rightarrow> v[a' := p, b' := q, c' := s, d' := t])" for v
    by (simp add: blake_G_def Let_def)
  obtain p q s t where u: "blake_quarter x y (v ! a, v ! b, v ! c, v ! d) = (p, q, s, t)" by (metis prod_cases4)
  obtain p' q' s' t' where u': "blake_quarter x' y' (v ! a', v ! b', v ! c', v ! d') = (p', q', s', t')" by (metis prod_cases4)
  have eq: "v[a' := p', b' := q', c' := s', d' := t', a := p, b := q, c := s, d := t] =
      v[a := p, b := q, c := s, d := t, a' := p', b' := q', c' := s', d' := t']"
    (is "?m = ?n")
  proof (rule nth_equalityI)
    fix j assume "j < length ?m"
    then have j: "j < length v" by simp
    consider "j = a" | "j = b" | "j = c" | "j = d" | "j = a'" | "j = b'" | "j = c'" | "j = d'" | "j \<notin> {a, b, c, d, a', b', c', d'}" by blast
    then show "?m ! j = ?n ! j" using assms j by cases auto
  qed simp
  have read: "v[a' := p', b' := q', c' := s', d' := t'] ! k = v ! k" if "k \<in> {a, b, c, d}" for k using assms that by auto
  have read': "v[a := p, b := q, c := s, d := t] ! k = v ! k" if "k \<in> {a', b', c', d'}" for k using assms that by auto
  have "?l = ?m" by (simp only: G u' prod.case) (simp add: read u del: blake_quarter.simps)
  moreover have "?r = ?n" by (simp only: G u prod.case) (simp add: read' u' del: blake_quarter.simps)
  ultimately show ?thesis using eq by simp
qed

lemma blake_round_code:
  assumes r: "r < 14" and v: "length v = 16"
  shows "blake256_round m r v = blake_round m r v"
proof -
  note G = blake_G_code [OF r, of _ _ _ _ _ m 0, simplified] blake_G_code [OF r, of _ _ _ _ _ m 1, simplified] blake_G_code [OF r, of _ _ _ _ _ m 2, simplified]
    blake_G_code [OF r, of _ _ _ _ _ m 3, simplified] blake_G_code [OF r, of _ _ _ _ _ m 4, simplified] blake_G_code [OF r, of _ _ _ _ _ m 5, simplified]
    blake_G_code [OF r, of _ _ _ _ _ m 6, simplified] blake_G_code [OF r, of _ _ _ _ _ m 7, simplified]
  note diagonals = G_commute [of 0 5 10 15 2 7 8 13 m r 4 6, simplified] G_commute [of 0 5 10 15 3 4 9 14 m r 4 7, simplified]
    G_commute [of 1 6 11 12 2 7 8 13 m r 5 6, simplified] G_commute [of 1 6 11 12 3 4 9 14 m r 5 7, simplified]
    G_commute [of 2 7 8 13 3 4 9 14 m r 6 7, simplified]
  show ?thesis
    unfolding blake256_round_def blake_round_def Let_def
    by (simp add: G v diagonals)
qed

lemma blake_rounds_code: "length v = 16 \<Longrightarrow> fold (blake256_round m) [0..<14] v = fold (blake_round m) [0..<14] v"
proof -
  have "length u = 16 \<Longrightarrow> \<forall>r \<in> set rs. r < 14 \<Longrightarrow> fold (blake256_round m) rs u = fold (blake_round m) rs u" for rs u
  proof (induction rs arbitrary: u)
    case (Cons r rs)
    have "length (blake_round m r u) = 16" using Cons.prems(1) by (simp add: blake_round_def Let_def)
    then show ?case using Cons by (simp add: blake_round_code)
  qed simp
  then show "length v = 16 \<Longrightarrow> ?thesis" by simp
qed

lemma blake256_feed_forward:
  assumes "length hs = 8"
  shows "fold (\<lambda>i h. h[i := h ! i XOR [0, 0, 0, 0 :: u32] ! (i mod 4)]) [0..<8]
      (fold (\<lambda>i h. h[i mod 8 := h ! (i mod 8) XOR v ! i]) [0..<16] hs) =
    map (\<lambda>i. hs ! i XOR v ! i XOR v ! (i + 8)) [0..<8]"
proof -
  obtain a b c d e f g h where "hs = [a, b, c, d, e, f, g, h]"
    using assms by (auto simp: numeral_eq_Suc length_Suc_conv)
  moreover have "[0..<8] = [0, 1, 2, 3, 4, 5, 6, 7]" "[0..<16] = [0, 1, 2, 3, 4, 5, 6, 7, 8, 9, 10, 11, 12, 13, 14, 15]"
    by (simp_all add: upt_rec)
  ultimately show ?thesis by (simp add: xor.assoc)
qed

lemma compress_blake_F:
  assumes "length (bl_h c) = 8" and "bl_s c = [0, 0, 0, 0]"
    and "bl_nullt c = 0 \<and> bl_t c = blake_words t \<or> bl_nullt c \<noteq> 0 \<and> t = 0"
  shows "bl_h (blake256_compress c b) = blake_F (bl_h c) b t"
proof -
  let ?v = "bl_h c @ [0x243F6A88, 0x85A308D3, 0x13198A2E, 0x03707344, 0xA4093822, 0x299F31D0, 0x082EFA98, 0xEC4E6C89]"
  have v: "(if bl_nullt c = 0
       then ?v[12 := ?v ! 12 XOR bl_t c ! 0, 13 := ?v ! 13 XOR bl_t c ! 0,
               14 := ?v ! 14 XOR bl_t c ! 1, 15 := ?v ! 15 XOR bl_t c ! 1]
       else ?v) = bl_h c @ [blake_consts ! 0, blake_consts ! 1, blake_consts ! 2, blake_consts ! 3,
                    blake_consts ! 4 XOR of_nat t, blake_consts ! 5 XOR of_nat t,
                    blake_consts ! 6 XOR of_nat (t div 2 ^ 32), blake_consts ! 7 XOR of_nat (t div 2 ^ 32)]"
    using assms by (auto simp: blake_consts_def blake_words_def list_update_append nth_append)
  have s: "bl_s c ! 0 XOR 0x243F6A88 = 0x243F6A88" "bl_s c ! 1 XOR 0x85A308D3 = 0x85A308D3"
    "bl_s c ! 2 XOR 0x13198A2E = 0x13198A2E" "bl_s c ! 3 XOR 0x03707344 = 0x03707344"
    using assms(2) by simp_all
  have l: "length (bl_h c @ [blake_consts ! 0, blake_consts ! 1, blake_consts ! 2, blake_consts ! 3,
                    blake_consts ! 4 XOR of_nat t, blake_consts ! 5 XOR of_nat t,
                    blake_consts ! 6 XOR of_nat (t div 2 ^ 32), blake_consts ! 7 XOR of_nat (t div 2 ^ 32)]) = 16"
    using assms(1) by simp
  show ?thesis
    unfolding blake256_compress_def blake_F_def Let_def map_nth_id [OF assms(1)] s v blake_rounds_code [OF l] U8TO32_word
    unfolding assms(2) by (simp add: blake256_feed_forward [OF assms(1)] del: upt_rec_numeral)
qed

lemma blake_carry:
  fixes b i :: nat
  assumes "0 < b" and "b < 512"
  shows "(512 * i + b) mod 2 ^ 32 \<noteq> 0" and "(512 * i + b) div 2 ^ 32 = 512 * i div 2 ^ 32"
proof -
  have "(512 * i + b) mod 2 ^ 32 mod 512 = (512 * i + b) mod 512" by (rule mod_mod_cancel) simp
  also have "\<dots> = b" using assms by (simp only: mod_mult_self4) simp
  finally show "(512 * i + b) mod 2 ^ 32 \<noteq> 0" using assms by (metis less_nat_zero_code mod_0)
  have "(2 :: nat) ^ 32 = 512 * 2 ^ 23" by simp
  then show "(512 * i + b) div 2 ^ 32 = 512 * i div 2 ^ 32"
    using assms by (simp only: div_mult2_eq) simp
qed

lemma count_low:
  assumes "bl_t c = [lo, hi]"
  shows "bl_t (blake256_count c) = (if lo + 512 = 0 then [0, hi + 1] else [lo + 512, hi])"
    and "bl_t (blake256_uncount c k) = [lo - of_nat k, hi]"
  using assms by (simp_all add: blake256_count_def blake256_uncount_def Let_def)

lemma of_nat_u32_eq_0: "(of_nat n :: u32) = 0 \<longleftrightarrow> n mod 2 ^ 32 = 0"
proof -
  have "unat (of_nat n :: u32) = n mod 2 ^ 32" by (simp add: unat_of_nat)
  then show ?thesis by (metis unat_eq_0)
qed

lemma count_words:
  assumes "bl_t c = blake_words (512 * i)"
  shows "bl_t (blake256_count c) = blake_words (512 * i + 512)"
proof -
  define x where "x = 512 * i"
  have c: "(x + 512) div 2 ^ 32 = x div 2 ^ 32 + (if (x + 512) mod 2 ^ 32 < 512 then 1 else 0)"
    by (rule add_carry) simp
  have "(x + 512) mod 2 ^ 32 mod 512 = (x + 512) mod 512" by (rule mod_mod_cancel) simp
  also have "\<dots> = 0" by (simp add: x_def)
  finally have "(x + 512) mod 2 ^ 32 < 512 \<longleftrightarrow> (x + 512) mod 2 ^ 32 = 0"
    by (metis mod_less zero_less_numeral)
  then have "(x + 512) mod 2 ^ 32 < 512 \<longleftrightarrow> (of_nat x + 512 :: u32) = 0"
    using of_nat_u32_eq_0 [of "x + 512"] by simp
  with c count_low(1) [OF assms [unfolded blake_words_def]] show ?thesis
    by (simp add: blake_words_def flip: x_def)
qed

lemma count_uncount:
  assumes "bl_t c = blake_words (512 * i)" and "k + b = 512" and "0 < b" and "b < 512"
  shows "bl_t (blake256_count (blake256_uncount c k)) = blake_words (512 * i + b)"
proof -
  have "of_nat k + of_nat b = (512 :: u32)" using assms(2) by (metis of_nat_add of_nat_numeral)
  then have "512 - of_nat k = (of_nat b :: u32)" by (simp add: algebra_simps)
  then have t: "of_nat (512 * i) - of_nat k + 512 = (of_nat (512 * i + b) :: u32)"
    by (simp add: algebra_simps)
  have "of_nat (512 * i + b) \<noteq> (0 :: u32)"
    using blake_carry(1) [OF assms(3,4), of i] by (simp only: of_nat_u32_eq_0) simp
  then show ?thesis
    using count_low(1) [OF count_low(2) [OF assms(1) [unfolded blake_words_def], of k]]
    unfolding t blake_words_def blake_carry(2) [OF assms(3,4)] by simp
qed

subsection \<open>Finalisation\<close>

text \<open>A state given by its chaining part and the bytes it holds back.\<close>

definition blake256_rep :: "blake256_state \<Rightarrow> blake256_state \<Rightarrow> bytes \<Rightarrow> bool" where
  "blake256_rep S c p \<longleftrightarrow> blake256_wf S \<and> blake256_chain S = c \<and> blake256_pend S = p"

lemma rep_buflen: "blake256_rep S c p \<Longrightarrow> bl_buflen S = 8 * length p \<and> length p < 64"
  using blake256_pend_less [of S] by (auto simp: blake256_rep_def blake256_wf_def)

lemma rep_select:
  "blake256_rep S c p \<Longrightarrow> bl_h S = bl_h c \<and> bl_t S = bl_t c"
  by (auto simp: blake256_rep_def blake256_chain_def)

lemma rep_uncount: "blake256_rep S c p \<Longrightarrow> blake256_rep (blake256_uncount S n) (blake256_uncount c n) p"
  by (auto simp: blake256_rep_def blake256_wf_def blake256_chain_def blake256_pend_def blake256_uncount_def)

lemma rep_nullt: "blake256_rep S c p \<Longrightarrow> blake256_rep (S\<lparr>bl_nullt := n\<rparr>) (c\<lparr>bl_nullt := n\<rparr>) p"
  by (auto simp: blake256_rep_def blake256_wf_def blake256_chain_def blake256_pend_def)

lemma rep_keep:
  assumes "blake256_rep S c p" and "0 < k" and "length p + k < 64" and "k \<le> length data"
  shows "blake256_rep (blake256_update S data (8 * k)) c (p @ take k data)"
proof -
  note b = rep_buflen [OF assms(1)]
  have "blake256_update_loop S data (8 * k) = (S, data, 8 * k)"
    using assms(3) by (subst blake256_update_loop.simps) simp
  moreover have "k mod 64 = k" "\<not> 64 - length p \<le> k" using assms(3) by simp_all
  ultimately have "blake256_update S data (8 * k) =
      S\<lparr>bl_buf := memcpy_at (bl_buf S) (length p) data k, bl_buflen := length p * 8 + 8 * k\<rparr>"
    using assms(2) b by (simp add: blake256_update_def Let_def)
  then have "blake256_update S data (8 * k) = blake256_keep S (length p) (take k data)"
    using assms(2,4) by (auto simp: blake256_keep_def memcpy_at_def)
  then show ?thesis
    using blake256_keep [of S "length p" "take k data"] assms b
    by (auto simp: blake256_rep_def blake256_pend_def)
qed

lemma rep_exact:
  assumes "blake256_rep S c p" and "p \<noteq> []" and "length p + k = 64" and "k \<le> length data"
  shows "blake256_rep (blake256_update S data (8 * k)) (blake256_step c (p @ take k data)) []"
proof -
  note b = rep_buflen [OF assms(1)]
  have w: "blake256_wf S" "blake256_pend S = p" "blake256_chain S = c"
    using assms(1) by (simp_all add: blake256_rep_def)
  let ?blk = "p @ take k data"
  let ?S = "blake256_step (S\<lparr>bl_buf := ?blk, bl_buflen := 0\<rparr>) ?blk"
  have k: "k = 64 - length p" using assms(3) by simp
  have "memcpy_at (bl_buf S) (length p) data (64 - length p) = ?blk"
    using w b assms(4) by (simp add: memcpy_at_def blake256_wf_def k) (simp add: blake256_pend_def)
  moreover have "k mod 64 = k" using assms(2,3) by (cases p) simp_all
  then have "length p \<noteq> 0 \<and> 64 - length p \<le> (8 * k div 8) mod 64" using assms(2) k by simp
  ultimately have "blake256_update S data (8 * k) = blake256_update ?S (drop (64 - length p) data) (8 * k - (64 - length p) * 8)"
    using b by (intro blake256_upd_fill_aux) simp_all
  also have "\<dots> = ?S\<lparr>bl_buflen := 0\<rparr>"
    by (subst blake256_update_def) (simp add: blake256_update_loop.simps k blake256_step_def)
  finally have "blake256_update S data (8 * k) = ?S\<lparr>bl_buflen := 0\<rparr>" .
  moreover have "length ?blk = 64" using assms(3,4) by simp
  ultimately show ?thesis using w
    by (auto simp: blake256_rep_def blake256_wf_def blake256_chain_step blake256_pend_def blake256_step_def)
      (simp add: blake256_chain_def)
qed

text \<open>A chaining value after \<open>i\<close> blocks of the message.\<close>

definition blake_after :: "blake256_state \<Rightarrow> u32 list \<Rightarrow> nat \<Rightarrow> bool" where
  "blake_after c hs i \<longleftrightarrow> bl_h c = hs \<and> length hs = 8 \<and> bl_s c = [0, 0, 0, 0] \<and> bl_nullt c = 0 \<and>
     bl_t c = blake_words (512 * i)"

lemma uncount_frame [simp]:
  "bl_h (blake256_uncount c k) = bl_h c" "bl_s (blake256_uncount c k) = bl_s c"
  "bl_nullt (blake256_uncount c k) = bl_nullt c" "bl_buflen (blake256_uncount c k) = bl_buflen c"
  "length (bl_t (blake256_uncount c k)) = length (bl_t c)"
  by (simp_all add: blake256_uncount_def)

lemma uncount_uncount: "bl_t c = [x, y] \<Longrightarrow> blake256_uncount (blake256_uncount c a) b = blake256_uncount c (a + b)"
  by (simp add: blake256_uncount_def algebra_simps)

text \<open>The last block with message bits: the counter is set back so that it ends up at \<open>8 n\<close>.\<close>

lemma last_step:
  assumes "blake_after c hs i" and "k + 8 * r = 512" and "0 < r" and "r < 64"
  shows "bl_h (blake256_step (blake256_uncount c k) b) = blake_F hs b (8 * (64 * i + r))"
    and "bl_s (blake256_step (blake256_uncount c k) b) = [0, 0, 0, 0]"
proof -
  let ?c = "blake256_count (blake256_uncount c k)"
  have "bl_t ?c = blake_words (512 * i + 8 * r)"
    using assms by (intro count_uncount) (simp_all add: blake_after_def)
  then have t: "bl_t ?c = blake_words (8 * (64 * i + r))" by simp
  show "bl_h (blake256_step (blake256_uncount c k) b) = blake_F hs b (8 * (64 * i + r))"
    using compress_blake_F [of ?c "8 * (64 * i + r)" b] t assms(1)
    by (simp add: blake256_step_def blake_after_def)
  show "bl_s (blake256_step (blake256_uncount c k) b) = [0, 0, 0, 0]"
    using assms(1) by (simp add: blake256_step_def blake_after_def)
qed

text \<open>A block without message bits: the counter is not used.\<close>

lemma null_step:
  assumes "length (bl_h c) = 8" and "bl_s c = [0, 0, 0, 0]" and "bl_nullt c = 1"
  shows "bl_h (blake256_step c b) = blake_F (bl_h c) b 0"
  using compress_blake_F [of "blake256_count c" 0 b] assms by (simp add: blake256_step_def)

lemma msglen_words:
  assumes "bl_t c = blake_words (512 * i)" and "r < 64"
  defines "lo \<equiv> bl_t c ! 0 + of_nat (8 * r)"
  shows "U32TO8 (if lo < of_nat (8 * r) then bl_t c ! 1 + 1 else bl_t c ! 1) @ U32TO8 lo =
    blake_len (64 * i + r)"
proof -
  define x where "x = 512 * i"
  have lo: "lo = of_nat (x + 8 * r)" using assms by (simp add: blake_words_def x_def lo_def)
  have c: "(x + 8 * r) div 2 ^ 32 = x div 2 ^ 32 + (if (x + 8 * r) mod 2 ^ 32 < 8 * r then 1 else 0)"
    using assms(2) by (intro add_carry) simp
  have d: "(x + 8 * r) div 2 ^ 32 = x div 2 ^ 32"
    using blake_carry(2) [of "8 * r" i] assms(2) unfolding x_def by (cases "r = 0") simp_all
  have "unat lo = (x + 8 * r) mod 2 ^ 32" unfolding lo by (simp only: unat_of_nat) simp
  moreover have "unat (of_nat (8 * r) :: u32) = 8 * r" using assms(2) by (simp only: unat_of_nat) simp
  ultimately have "\<not> lo < of_nat (8 * r)" using c d by (simp add: word_less_nat_alt del: of_nat_mult split: if_splits)
  moreover have "bl_t c ! 1 = of_nat ((x + 8 * r) div 2 ^ 32)"
    using assms(1) d by (simp add: blake_words_def x_def)
  moreover have "x + 8 * r = 8 * (64 * i + r)" by (simp add: x_def)
  ultimately show ?thesis using lo by (simp add: blake_len_code)
qed

lemma length_U32TO8 [simp]: "length (U32TO8 v) = 4"
  by (simp add: U32TO8_def)

lemma blake_blocks_1: "length d = 64 \<Longrightarrow> blake_blocks n hs i d = blake_F hs d (blake_ctr n i)"
  by (subst blake_blocks.simps, subst blake_blocks.simps) simp

lemma blake_blocks_2:
  "length a = 64 \<Longrightarrow> length b = 64 \<Longrightarrow>
   blake_blocks n hs i (a @ b) = blake_F (blake_F hs a (blake_ctr n i)) b (blake_ctr n (i + 1))"
  by (subst blake_blocks.simps) (simp add: blake_blocks_1)

lemma take_padding: "k \<le> 63 \<Longrightarrow> take (Suc k) blake256_padding = 0x80 # replicate k 0"
  by (simp add: blake256_padding_def)

lemma blake_pad_cases:
  assumes "r < 64"
  shows "r < 55 \<Longrightarrow> blake_pad pb (64 * i + r) = (0x80 # replicate (54 - r) 0) @ [pb] @ blake_len (64 * i + r)"
    and "r = 55 \<Longrightarrow> blake_pad pb (64 * i + r) = [0x80 OR pb] @ blake_len (64 * i + r)"
    and "55 < r \<Longrightarrow> blake_pad pb (64 * i + r) = (0x80 # replicate (63 - r) 0) @ replicate 55 0 @ [pb] @ blake_len (64 * i + r)"
proof -
  have m: "(64 * i + r) mod 64 = r" using assms by simp
  show "blake_pad pb (64 * i + r) = (0x80 # replicate (54 - r) 0) @ [pb] @ blake_len (64 * i + r)" if "r < 55"
  proof -
    have "(119 - r) mod 64 = 55 - r" using that by (simp add: le_mod_geq)
    with that show ?thesis by (simp add: blake_pad_def m)
  qed
  show "blake_pad pb (64 * i + r) = [0x80 OR pb] @ blake_len (64 * i + r)" if "r = 55"
    using that by (simp add: blake_pad_def m)
  show "blake_pad pb (64 * i + r) = (0x80 # replicate (63 - r) 0) @ replicate 55 0 @ [pb] @ blake_len (64 * i + r)" if "55 < r"
  proof -
    have "(119 - r) mod 64 + 1 - 2 = (63 - r) + 55" using that assms(1) by simp
    moreover have "(119 - r) mod 64 + 1 \<noteq> 1" using that assms(1) by simp
    ultimately show ?thesis by (simp only: blake_pad_def m Let_def if_False replicate_add append.assoc append_Cons)
  qed
qed

text \<open>The three cases of the finalisation, up to the state that holds the result.\<close>

lemma final_case_one:
  fixes pa :: u8
  assumes "blake256_rep S c p" and "blake_after c hs i" and "length p = 55" and "length msg = 8"
  defines "S' \<equiv> blake256_update (blake256_uncount (blake256_update (blake256_uncount S 8) [pa] 8) 64) msg 64"
  shows "\<exists>c'. blake256_rep S' c' [] \<and> bl_h c' = blake_F hs (p @ [pa] @ msg) (8 * (64 * i + length p))"
proof -
  have "blake256_rep (blake256_update (blake256_uncount S 8) [pa] 8) (blake256_uncount c 8) (p @ [pa])"
    using rep_keep [OF rep_uncount [OF assms(1)], of 1 "[pa]"] assms(3) by simp
  from rep_exact [OF rep_uncount [OF this], of 8 msg] assms(3,4)
  have "blake256_rep S' (blake256_step (blake256_uncount (blake256_uncount c 8) 64) (p @ [pa] @ msg)) []"
    by (simp add: S'_def)
  moreover have "blake256_uncount (blake256_uncount c 8) 64 = blake256_uncount c 72"
    using assms(2) uncount_uncount [of c _ _ 8 64] by (simp add: blake_after_def blake_words_def)
  ultimately show ?thesis
    using last_step(1) [OF assms(2), of 72 55 "p @ [pa] @ msg"] assms(3) by auto
qed

lemma final_case_short:
  fixes pb :: u8
  assumes "blake256_rep S c p" and "blake_after c hs i" and "length p < 55" and "length msg = 8"
  defines "b \<equiv> 8 * length p"
  defines "S1 \<equiv> (if b = 0 then S\<lparr>bl_nullt := 1\<rparr> else S)"
  defines "S' \<equiv> blake256_update (blake256_uncount (blake256_uncount
      (blake256_update (blake256_update (blake256_uncount S1 (440 - b)) blake256_padding (440 - b)) [pb] 8) 8) 64) msg 64"
  shows "\<exists>c'. blake256_rep S' c' [] \<and>
    bl_h c' = blake_F hs (p @ (0x80 # replicate (54 - length p) 0) @ [pb] @ msg)
      (if p = [] then 0 else 8 * (64 * i + length p))"
proof -
  define c1 where "c1 = (if p = [] then c\<lparr>bl_nullt := 1\<rparr> else c)"
  define z where "z = p @ (0x80 # replicate (54 - length p) 0)"
  have r1: "blake256_rep S1 c1 p"
    using assms(1) rep_nullt [OF assms(1), of 1] by (auto simp: S1_def c1_def b_def)
  have b: "440 - b = 8 * (55 - length p)" "55 - length p = Suc (54 - length p)"
    using assms(3) by (simp_all add: b_def)
  have "blake256_rep (blake256_update (blake256_uncount S1 (440 - b)) blake256_padding (440 - b))
      (blake256_uncount c1 (440 - b)) z"
    using rep_keep [OF rep_uncount [OF r1], of "55 - length p" blake256_padding "440 - b"] assms(3)
    unfolding z_def b(2) by (simp add: take_padding b blake256_padding_def [THEN arg_cong, of length])
  from rep_keep [OF this, of 1 "[pb]"] assms(3)
  have "blake256_rep (blake256_update (blake256_update (blake256_uncount S1 (440 - b)) blake256_padding (440 - b)) [pb] 8)
      (blake256_uncount c1 (440 - b)) (z @ [pb])"
    by (simp add: z_def)
  from rep_exact [OF rep_uncount [OF rep_uncount [OF this]], of 8 msg 8 64] assms(3,4)
  have "blake256_rep S' (blake256_step (blake256_uncount (blake256_uncount (blake256_uncount c1 (440 - b)) 8) 64)
      (z @ [pb] @ msg)) []"
    by (simp add: S'_def z_def)
  moreover have "blake256_uncount (blake256_uncount (blake256_uncount c1 (440 - b)) 8) 64 = blake256_uncount c1 (512 - b)"
    using assms(2,3) by (simp add: blake_after_def blake_words_def blake256_uncount_def c1_def b_def algebra_simps)
  ultimately have rep: "blake256_rep S' (blake256_step (blake256_uncount c1 (512 - b)) (z @ [pb] @ msg)) []" by simp
  show ?thesis
  proof (cases "p = []")
    case True
    then have "bl_h (blake256_step (blake256_uncount c1 (512 - b)) (z @ [pb] @ msg)) = blake_F hs (z @ [pb] @ msg) 0"
      using null_step [of "blake256_uncount c1 (512 - b)"] assms(2) by (simp add: c1_def blake_after_def)
    with rep True show ?thesis by (auto simp: z_def)
  next
    case False
    then have "bl_h (blake256_step (blake256_uncount c1 (512 - b)) (z @ [pb] @ msg)) =
        blake_F hs (z @ [pb] @ msg) (8 * (64 * i + length p))"
      using last_step(1) [OF assms(2), of "512 - b" "length p"] assms(3) by (simp add: c1_def b_def)
    with rep False show ?thesis by (auto simp: z_def)
  qed
qed

lemma final_case_long:
  fixes pb :: u8
  assumes "blake256_rep S c p" and "blake_after c hs i" and "55 < length p" and "length msg = 8"
  defines "b \<equiv> 8 * length p"
  defines "S1 \<equiv> blake256_update (blake256_uncount S (512 - b)) blake256_padding (512 - b)"
  defines "S2 \<equiv> (blake256_update (blake256_uncount S1 440) (drop 1 blake256_padding) 440)\<lparr>bl_nullt := 1\<rparr>"
  defines "S' \<equiv> blake256_update (blake256_uncount (blake256_uncount (blake256_update S2 [pb] 8) 8) 64) msg 64"
  shows "\<exists>c'. blake256_rep S' c' [] \<and>
    bl_h c' = blake_F (blake_F hs (p @ 0x80 # replicate (63 - length p) 0) (8 * (64 * i + length p)))
      (replicate 55 0 @ [pb] @ msg) 0"
proof -
  define c1 where "c1 = blake256_step (blake256_uncount c (512 - b)) (p @ 0x80 # replicate (63 - length p) 0)"
  have l: "length p < 64" "bl_buflen S = 8 * length p" using rep_buflen [OF assms(1)] by simp_all
  have b: "512 - b = 8 * (64 - length p)" "64 - length p = Suc (63 - length p)"
    using l by (simp_all add: b_def)
  have ne: "p \<noteq> []" using assms(3) by auto
  then have r1: "blake256_rep S1 c1 []"
    using rep_exact [OF rep_uncount [OF assms(1)], of "64 - length p" blake256_padding "512 - b"] l
    unfolding S1_def c1_def b(2) by (simp add: take_padding b blake256_padding_def [THEN arg_cong, of length])
  have "take 55 (drop 1 blake256_padding) = replicate 55 0" "55 \<le> length (drop 1 blake256_padding)"
    by (simp_all add: blake256_padding_def)
  with rep_keep [OF rep_uncount [OF r1], of 55 "drop 1 blake256_padding" 440]
  have "blake256_rep S2 ((blake256_uncount c1 440)\<lparr>bl_nullt := 1\<rparr>) (replicate 55 0)"
    unfolding S2_def by (intro rep_nullt) simp
  from rep_keep [OF this, of 1 "[pb]"]
  have "blake256_rep (blake256_update S2 [pb] 8) ((blake256_uncount c1 440)\<lparr>bl_nullt := 1\<rparr>) (replicate 55 0 @ [pb])"
    by simp
  from rep_exact [OF rep_uncount [OF rep_uncount [OF this]], of 8 msg 8 64] assms(4)
  have "blake256_rep S' (blake256_step (blake256_uncount (blake256_uncount ((blake256_uncount c1 440)\<lparr>bl_nullt := 1\<rparr>) 8) 64)
      (replicate 55 0 @ [pb] @ msg)) []"
    by (simp add: S'_def)
  moreover have h: "bl_h c1 = blake_F hs (p @ 0x80 # replicate (63 - length p) 0) (8 * (64 * i + length p))"
    "bl_s c1 = [0, 0, 0, 0]"
    using last_step [OF assms(2), of "512 - b" "length p"] l ne assms(3) by (auto simp: c1_def b_def)
  moreover have "bl_h (blake256_step (blake256_uncount (blake256_uncount ((blake256_uncount c1 440)\<lparr>bl_nullt := 1\<rparr>) 8) 64) blk)
      = blake_F (bl_h c1) blk 0" for blk
    using null_step [of "blake256_uncount (blake256_uncount ((blake256_uncount c1 440)\<lparr>bl_nullt := 1\<rparr>) 8) 64" blk] h
    by simp
  ultimately show ?thesis by (metis (no_types))
qed

text \<open>The state at the end of the finalisation, on each of its branches.\<close>

lemma final_h_state:
  fixes S :: blake256_state
  defines "b \<equiv> bl_buflen S"
  defines "msg \<equiv> U32TO8 (if bl_t S ! 0 + of_nat b < of_nat b then bl_t S ! 1 + 1 else bl_t S ! 1) @
      U32TO8 (bl_t S ! 0 + of_nat b)"
  shows "b = 440 \<Longrightarrow> fst (blake256_final_h S pa pb) =
      blake256_update (blake256_uncount (blake256_update (blake256_uncount S 8) [pa] 8) 64) msg 64"
    and "b < 440 \<Longrightarrow> fst (blake256_final_h S pa pb) =
      blake256_update (blake256_uncount (blake256_uncount
        (blake256_update (blake256_update (blake256_uncount (if b = 0 then S\<lparr>bl_nullt := 1\<rparr> else S) (440 - b))
           blake256_padding (440 - b)) [pb] 8) 8) 64) msg 64"
    and "440 < b \<Longrightarrow> fst (blake256_final_h S pa pb) =
      blake256_update (blake256_uncount (blake256_uncount (blake256_update
        ((blake256_update (blake256_uncount (blake256_update (blake256_uncount S (512 - b)) blake256_padding (512 - b)) 440)
           (drop 1 blake256_padding) 440)\<lparr>bl_nullt := 1\<rparr>) [pb] 8) 8) 64) msg 64"
  unfolding blake256_final_h_def Let_def fst_conv b_def [symmetric] msg_def [symmetric]
  subgoal premises p
  proof -
    have "b = 440" by (rule p)
    then show ?thesis by (simp only: refl if_True)
  qed
  subgoal premises p
  proof -
    have "b \<noteq> 440" "b < 440" using p by simp_all
    then show ?thesis by (simp only: if_True if_False)
  qed
  subgoal premises p
  proof -
    have "b \<noteq> 440" "\<not> b < 440" using p by simp_all
    then show ?thesis by (simp only: if_False)
  qed
  done

lemma blake_ctr_last:
  assumes "r < 64"
  shows "blake_ctr (64 * i + r) i = (if r = 0 then 0 else 8 * (64 * i + r))" and "blake_ctr (64 * i + r) (i + 1) = 0"
  using assms by (simp_all add: blake_ctr_def)

lemma final_rep_state:
  assumes rep: "blake256_rep S c p" and aft: "blake_after c hs i" and pa: "pa = 0x80 OR pb"
  shows "\<exists>c'. blake256_rep (fst (blake256_final_h S pa pb)) c' [] \<and>
    bl_h c' = blake_blocks (64 * i + length p) hs i (p @ blake_pad pb (64 * i + length p))"
proof -
  let ?n = "64 * i + length p"
  define b where "b = 8 * length p"
  have l: "length p < 64" "bl_buflen S = b" "bl_t S = blake_words (512 * i)"
    using rep_buflen [OF rep] rep_select [OF rep] aft by (simp_all add: b_def blake_after_def)
  define msg where "msg = U32TO8 (if bl_t S ! 0 + of_nat b < of_nat b then bl_t S ! 1 + 1 else bl_t S ! 1) @
      U32TO8 (bl_t S ! 0 + of_nat b)"
  have m: "blake_len ?n = msg" "length msg = 8"
    using msglen_words [OF l(3,1)] by (simp only: msg_def b_def) (simp only: msg_def length_append length_U32TO8)
  note state = final_h_state [of S, unfolded l(2), folded msg_def]
  note pad = blake_pad_cases [OF l(1), of pb i, unfolded m(1)]
  note ctr = blake_ctr_last [OF l(1), of i]
  consider "length p < 55" | "length p = 55" | "55 < length p" by linarith
  then show ?thesis
  proof cases
    case 1
    then have "b < 440" by (simp add: b_def)
    moreover have "length (p @ (0x80 # replicate (54 - length p) 0) @ [pb] @ msg) = 64" using 1 m(2) by simp
    ultimately show ?thesis
      using final_case_short [OF rep aft 1 m(2), of pb, folded b_def]
      by (simp only: state(2) pad(1) [OF 1] blake_blocks_1 ctr length_0_conv)
  next
    case 2
    then have "b = 440" by (simp add: b_def)
    moreover have "length (p @ [pa] @ msg) = 64" "length p \<noteq> 0" using 2 m(2) by simp_all
    ultimately show ?thesis
      using final_case_one [OF rep aft 2 m(2), of pa]
      by (simp only: state(1) pad(2) [OF 2] pa [symmetric] blake_blocks_1 ctr if_False)
  next
    case 3
    then have "440 < b" by (simp add: b_def)
    let ?b1 = "p @ 0x80 # replicate (63 - length p) 0" and ?b2 = "replicate 55 0 @ [pb] @ msg"
    have "length ?b1 = 64" "length ?b2 = 64" "length p \<noteq> 0" using 3 l(1) m(2) by (simp_all del: length_0_conv)
    then have "blake_blocks ?n hs i (?b1 @ ?b2) = blake_F (blake_F hs ?b1 (8 * ?n)) ?b2 0"
      by (simp only: blake_blocks_2 ctr if_False)
    moreover have "p @ blake_pad pb ?n = ?b1 @ ?b2" unfolding pad(3) [OF 3] by simp
    ultimately show ?thesis
      using final_case_long [OF rep aft 3 m(2), of pb, folded b_def] \<open>440 < b\<close>
      by (simp only: state(3))
  qed
qed

lemma final_rep:
  assumes "blake256_rep S c p" and "blake_after c hs i" and "pa = 0x80 OR pb"
  shows "snd (blake256_final_h S pa pb) =
    concat (map U32TO8 (blake_blocks (64 * i + length p) hs i (p @ blake_pad pb (64 * i + length p))))"
proof -
  let ?S' = "fst (blake256_final_h S pa pb)"
  obtain c' where c': "blake256_rep ?S' c' []"
    "bl_h c' = blake_blocks (64 * i + length p) hs i (p @ blake_pad pb (64 * i + length p))"
    using final_rep_state [OF assms] by blast
  then have "length (bl_h ?S') = 8" "bl_h ?S' = bl_h c'"
    using rep_select [OF c'(1)] by (simp_all only: blake256_rep_def blake256_wf_def)
  moreover have "snd (blake256_final_h S pa pb) = concat (map (\<lambda>i. U32TO8 (bl_h ?S' ! i)) [0..<8])"
    by (simp only: blake256_final_h_def Let_def fst_conv snd_conv)
  moreover have "map (\<lambda>i. U32TO8 (xs ! i)) [0..<8] = map U32TO8 xs" if "length xs = 8" for xs
    using arg_cong [OF map_nth_id [OF that], of "map U32TO8"] by (simp add: comp_def del: upt_rec_numeral)
  ultimately show ?thesis using c'(2) by (simp only:)
qed

subsection \<open>Whole messages\<close>

lemma blake_step_F:
  assumes "blake_after c hs i" and "64 * (i + 1) \<le> n"
  shows "blake_after (blake256_step c b) (blake_F hs b (blake_ctr n i)) (i + 1)"
proof -
  have "bl_t (blake256_count c) = blake_words (512 * (i + 1))"
    using count_words [of c i] assms(1) by (simp add: blake_after_def add.commute)
  moreover have "blake_ctr n i = 512 * (i + 1)" using assms(2) by (simp add: blake_ctr_def min_def)
  ultimately show ?thesis
    using assms(1) compress_blake_F [of "blake256_count c" "512 * (i + 1)" b]
    by (simp add: blake_after_def blake256_step_def)
qed

lemma absorb_blake_blocks:
  assumes "blake_after c hs i" and "64 * i + length d \<le> n"
  shows "\<exists>hs' i'. blake_after (fst (absorb 64 64 blake256_step c d)) hs' i' \<and>
    64 * i' + length (snd (absorb 64 64 blake256_step c d)) = 64 * i + length d \<and>
    (\<forall>tail. blake_blocks n hs i (d @ tail) = blake_blocks n hs' i' (snd (absorb 64 64 blake256_step c d) @ tail))"
  using assms
proof (induction "length d" arbitrary: c hs i d rule: less_induct)
  case less
  show ?case
  proof (cases "64 \<le> length d")
    case True
    let ?c = "blake256_step c (take 64 d)" and ?hs = "blake_F hs (take 64 d) (blake_ctr n i)"
    have "blake_after ?c ?hs (i + 1)"
      using less.prems True by (intro blake_step_F) simp_all
    moreover have "length (drop 64 d) < length d" "64 * (i + 1) + length (drop 64 d) \<le> n"
      using True less.prems(2) by simp_all
    moreover have "64 * (i + 1) + length (drop 64 d) = 64 * i + length d" using True by simp
    ultimately obtain hs' i' where r: "blake_after (fst (absorb 64 64 blake256_step ?c (drop 64 d))) hs' i'"
      "64 * i' + length (snd (absorb 64 64 blake256_step ?c (drop 64 d))) = 64 * i + length d"
      "\<And>tail. blake_blocks n ?hs (i + 1) (drop 64 d @ tail) =
        blake_blocks n hs' i' (snd (absorb 64 64 blake256_step ?c (drop 64 d)) @ tail)"
      using less.hyps by metis
    have "blake_blocks n hs i (d @ tail) = blake_blocks n ?hs (i + 1) (drop 64 d @ tail)" for tail
      using True by (subst blake_blocks.simps) simp
    with r True show ?thesis
      by (intro exI [of _ hs'] exI [of _ i']) (simp add: absorb_step)
  next
    case False
    with less.prems(1) show ?thesis
      by (intro exI [of _ hs] exI [of _ i]) (simp add: absorb_short)
  qed
qed

text \<open>
  A state that holds what the abstract update gives for a message \<open>d\<close> finishes with its
  published hash.
\<close>

lemma rep_blake_spec:
  assumes rep: "blake256_rep S (fst (absorb 64 64 blake256_step c d)) (snd (absorb 64 64 blake256_step c d))"
    and "blake_after c iv 0" and "pa = 0x80 OR pb"
  shows "snd (blake256_final_h S pa pb) = blake_spec iv pb d"
proof -
  obtain hs i where "blake_after (fst (absorb 64 64 blake256_step c d)) hs i"
    "64 * i + length (snd (absorb 64 64 blake256_step c d)) = length d"
    "\<And>tail. blake_blocks (length d) iv 0 (d @ tail) =
       blake_blocks (length d) hs i (snd (absorb 64 64 blake256_step c d) @ tail)"
    using absorb_blake_blocks [OF assms(2), of d "length d"] by auto
  with final_rep [OF rep _ assms(3)] show ?thesis by (simp add: blake_spec_code)
qed

lemma pieces_blake_spec:
  assumes "blake256_wf S" and "blake256_pend S = []" and "blake_after (blake256_chain S) iv 0"
    and "blake256.adm_all (blake256_chain S) [] ms" and "pa = 0x80 OR pb"
  shows "snd (blake256_final_h (foldl (\<lambda>S m. blake256_update S m (8 * length m)) S ms) pa pb) =
    blake_spec iv pb (concat ms)"
proof -
  let ?S = "foldl (\<lambda>S m. blake256_update S m (8 * length m)) S ms"
  have r: "blake256_wf ?S"
    "(blake256_chain ?S, blake256_pend ?S) = absorb 64 64 blake256_step (blake256_chain S) (concat ms)"
    using blake256.gfoldl_upd [OF assms(1)] assms(2,4) by simp_all
  then have "blake256_rep ?S (fst (absorb 64 64 blake256_step (blake256_chain S) (concat ms)))
      (snd (absorb 64 64 blake256_step (blake256_chain S) (concat ms)))"
    by (simp add: blake256_rep_def flip: r(2))
  then show ?thesis by (rule rep_blake_spec) fact+
qed

text \<open>What the update does with the other pieces: the new blocks overtake the bytes held back.\<close>

lemma absorb_blocks:
  "length d = 64 * j \<Longrightarrow> length r < 64 \<Longrightarrow>
   absorb 64 64 blake256_step c (d @ r) = (fst (absorb 64 64 blake256_step c d), r)"
proof (induction j arbitrary: c d)
  case 0
  then show ?case by (simp add: absorb_short)
next
  case (Suc j)
  then have l: "64 \<le> length d" "64 \<le> length (d @ r)" "length (drop 64 d) = 64 * j" by simp_all
  have "absorb 64 64 blake256_step c (d @ r) = absorb 64 64 blake256_step (blake256_step c (take 64 d)) (drop 64 d @ r)"
    using l(1,2) by (subst absorb_step) simp_all
  moreover have "absorb 64 64 blake256_step c d = absorb 64 64 blake256_step (blake256_step c (take 64 d)) (drop 64 d)"
    using l(1) by (subst absorb_step) simp_all
  ultimately show ?case using Suc.IH [OF l(3) Suc.prems(2)] by simp
qed

lemma blake256_upd_overtakes:
  assumes rep: "blake256_rep S c p" and "p \<noteq> []" and "length d = 64 * j" and "length p + length r < 64"
  shows "blake256_rep (blake256_update S (d @ r) (8 * length (d @ r)))
    (fst (absorb 64 64 blake256_step c d)) (if r = [] then [] else p @ r)"
proof -
  let ?r = "absorb 64 64 blake256_step S (d @ r)"
  have w: "blake256_wf S" "blake256_chain S = c" "blake256_pend S = p" "bl_buflen S = 8 * length p"
    using rep rep_buflen [OF rep] by (simp_all add: blake256_rep_def)
  have "length (d @ r) mod 64 = length r" using assms(3,4) by simp
  moreover have "\<not> 64 - length p \<le> length r" using assms(4) by linarith
  ultimately have n: "\<not> (length p \<noteq> 0 \<and> 64 - length p \<le> (8 * length (d @ r) div 8) mod 64)" by simp
  have l: "blake256_update_loop S (d @ r) (8 * length (d @ r)) = (fst ?r, snd ?r, 8 * length (snd ?r))"
    by (simp only: blake256_loop_absorb) (simp add: case_prod_beta)
  have "8 * length p div 8 = length p" by simp
  then have u: "blake256_update S (d @ r) (8 * length (d @ r)) = blake256_keep (fst ?r) (length p) (snd ?r)"
    unfolding blake256_update_def w(4) Let_def by (simp only: n if_False prod.case l) (simp add: blake256_keep_def)
  have a: "?r = (fst (absorb 64 64 blake256_step S d), r)" using assms(3,4) by (simp add: absorb_blocks)
  have m: "fst (absorb 64 64 blake256_step c d) = blake256_chain (fst (absorb 64 64 blake256_step S d))"
    using absorb_map [of blake256_chain blake256_step blake256_step 64 64 S d] w(2) by (simp add: blake256_chain_step)
  have f: "blake256_wf (fst (absorb 64 64 blake256_step S d))" "bl_buf (fst (absorb 64 64 blake256_step S d)) = bl_buf S"
    using absorb_blake256 [OF w(1), of d] by simp_all
  have "take (length p) (bl_buf S) = p" using w(3,4) by (simp add: blake256_pend_def)
  with blake256_keep [OF f(1) assms(4)] f(2) show ?thesis
    unfolding u a fst_conv snd_conv by (simp add: blake256_rep_def m)
qed

lemma init_blake:
  assumes "length (bl_buf S0) = 64"
  shows "blake256_wf (blake256_init S0)" "blake256_pend (blake256_init S0) = []"
    "blake_after (blake256_chain (blake256_init S0)) blake_iv256 0"
    "blake256_wf (blake224_init S0)" "blake256_pend (blake224_init S0) = []"
    "blake_after (blake256_chain (blake224_init S0)) blake_iv224 0"
  using assms by (simp_all add: blake256_init_def blake224_init_def blake256_wf_def blake256_pend_def
      blake256_chain_def blake_after_def blake_words_def blake_iv256_def blake_iv224_def)

lemma adm_one: "blake256.adm_all c [] [m]"
  by (simp add: blake256_adm_def)

lemma length_blake_spec [simp]: "length iv = 8 \<Longrightarrow> length (blake_spec iv pb d) = 32"
proof -
  have "length iv = 8 \<Longrightarrow> length (blake_blocks n iv i d) = 8" for n i d
    by (induction n iv i d rule: blake_blocks.induct) (subst blake_blocks.simps, simp)
  then show "length iv = 8 \<Longrightarrow> ?thesis"
    by (simp add: blake_spec_code length_concat comp_def sum_list_triv)
qed

lemma hash_256:
  assumes "length (bl_buf S0) = 64" and "8 * length d < 2 ^ 64" and "32 \<le> length out"
  shows "blake256_hash S0 out d (length d) = blake256_spec d @ drop 32 out"
proof -
  have "snd (blake256_final (blake256_update (blake256_init S0) d (8 * length d))) = blake256_spec d"
    using pieces_blake_spec [OF init_blake(1-3) [OF assms(1)] adm_one [of _ d], where pa = "0x81" and pb = 1]
    by (simp add: blake256_final_def blake256_spec_def)
  then show ?thesis using assms(2)
    by (simp add: blake256_hash_def memcpy_at_start mult.commute blake256_spec_def blake_iv256_def)
qed

lemma hash_224:
  assumes "length (bl_buf S0) = 64" and "8 * length d < 2 ^ 64" and "32 \<le> length out"
  shows "blake224_hash S0 out d (length d) = blake_spec blake_iv224 0 d @ drop 32 out"
proof -
  have "snd (blake224_final (blake224_update (blake224_init S0) d (8 * length d))) = blake_spec blake_iv224 0 d"
    using pieces_blake_spec [OF init_blake(4-6) [OF assms(1)] adm_one [of _ d], where pa = "0x80" and pb = 0]
    by (simp add: blake224_final_def blake224_update_def)
  then show ?thesis using assms(2)
    by (simp add: blake224_hash_def memcpy_at_start mult.commute blake_iv224_def)
qed

subsection \<open>The properties\<close>

text \<open>
  C25. \<open>blake256_hash\<close> and \<open>blake224_hash\<close> compute the published BLAKE-256 and BLAKE-224: padding,
  message length, counter (which stops counting for a block without message bits) and
  truncation are those of the specification, for every message whose length in bits fits 64
  bits. Both write 32 bytes; the BLAKE-224 digest is the first 28.
\<close>

theorem blake_hash_spec:
  assumes "length (bl_buf S0) = 64" and "8 * length d < 2 ^ 64" and "32 \<le> length out"
  shows "blake256_hash S0 out d (length d) = blake256_spec d @ drop 32 out \<and>
    take 28 (blake224_hash S0 out d (length d)) = blake224_spec d \<and>
    drop 32 (blake224_hash S0 out d (length d)) = drop 32 out"
  using hash_256 [OF assms] hash_224 [OF assms] by (simp add: blake224_spec_def blake_iv224_def)

definition blake256_any :: blake256_state where
  "blake256_any = \<lparr>bl_h = replicate 8 7, bl_s = replicate 4 7, bl_t = [7, 7], bl_buflen = 7, bl_nullt = 7,
     bl_buf = replicate 64 7\<rparr>"

theorem blake_hash_spec_witness:
  "blake256_hash blake256_any (replicate 32 0) [1, 2] 2 = blake256_spec [1, 2] \<and>
   take 28 (blake224_hash blake256_any (replicate 32 0) [1, 2] 2) = blake224_spec [1, 2]"
  using blake_hash_spec [of blake256_any "[1, 2]" "replicate 32 0"]
  by (simp add: blake256_any_def flip: numeral_2_eq_2)

text \<open>
  The incremental BLAKE-256 gives the hash of the concatenation when the first piece is of
  any size and every further piece has 1 to 63 bytes.
\<close>

theorem blake256_pieces:
  assumes "length (bl_buf S0) = 64" and "\<forall>m\<in>set ms. 0 < length m \<and> length m < 64"
  shows "snd (blake256_final (foldl (\<lambda>S m. blake256_update S m (8 * length m)) (blake256_init S0) (m0 # ms))) =
    blake256_spec (m0 @ concat ms)"
proof -
  have any: "blake256_adm p m" if "0 < length m" "length m < 64" "length p < 64" for p m
    using that by (cases "length p + length m < 64") (auto simp: blake256_adm_def)
  have "blake256.adm_all c p ms" if "length p < 64" for c p
    using that assms(2) by (intro blake256.adm_all_any any) auto
  then have "blake256.adm_all c [] (m0 # ms)" for c
    using length_snd_absorb [of 64 64 blake256_step c m0] by (auto simp: blake256_adm_def case_prod_beta)
  from pieces_blake_spec [OF init_blake(1-3) [OF assms(1)] this, where pa = "0x81" and pb = 1] show ?thesis
    by (simp add: blake256_final_def blake256_spec_def)
qed

text \<open>
  C33. For other pieces it does not: when bytes \<open>p\<close> are held back and the next piece consists of
  whole blocks \<open>d\<close> and a rest \<open>r\<close> too short to fill the buffer, the blocks overtake the held-back
  bytes, and without a rest the held-back bytes are lost. The digest is that of another message.
\<close>

theorem blake256_update_overtakes:
  assumes "length (bl_buf S0) = 64" and "p \<noteq> []" and "length d = 64 * j" and "length p + length r < 64"
  shows "snd (blake256_final (blake256_update (blake256_update (blake256_init S0) p (8 * length p))
      (d @ r) (8 * length (d @ r)))) = blake256_spec (if r = [] then d else d @ p @ r)"
proof -
  let ?c = "blake256_chain (blake256_init S0)"
  note i = init_blake(1-3) [OF assms(1)]
  have "blake256_rep (blake256_init S0) ?c []" using i by (simp add: blake256_rep_def)
  from rep_keep [OF this, of "length p" p] assms(2,4)
  have "blake256_rep (blake256_update (blake256_init S0) p (8 * length p)) ?c p" by simp
  from blake256_upd_overtakes [OF this assms(2-4)]
  have rep: "blake256_rep (blake256_update (blake256_update (blake256_init S0) p (8 * length p)) (d @ r) (8 * length (d @ r)))
      (fst (absorb 64 64 blake256_step ?c d)) (if r = [] then [] else p @ r)" .
  have "absorb 64 64 blake256_step ?c (if r = [] then d else d @ p @ r) =
      (fst (absorb 64 64 blake256_step ?c d), if r = [] then [] else p @ r)"
    using absorb_blocks [OF assms(3), of "[]" ?c] absorb_blocks [OF assms(3), of "p @ r" ?c] assms(4) by simp
  with rep_blake_spec [OF _ i(3), of _ "if r = [] then d else d @ p @ r" "0x81" 1] rep show ?thesis
    by (simp add: blake256_final_def blake256_spec_def)
qed

theorem blake256_update_overtakes_witness:
  "snd (blake256_final (blake256_update (blake256_update (blake256_init blake256_any) [1] 8) (replicate 64 2 @ [3]) 520))
     = blake256_spec (replicate 64 2 @ [1, 3]) \<and>
   snd (blake256_final (blake256_update (blake256_update (blake256_init blake256_any) [1] 8) (replicate 64 2) 512))
     = blake256_spec (replicate 64 2)"
  using blake256_update_overtakes [of blake256_any "[1]" "replicate 64 2" 1 "[3]"]
    blake256_update_overtakes [of blake256_any "[1]" "replicate 64 2" 1 "[]"] by (simp add: blake256_any_def)

subsection \<open>HMAC\<close>

text \<open>RFC 2104 for a hash with blocks of 64 bytes; \<open>hmac_core\<close> takes the key after the hashing.\<close>

definition hmac_core :: "(bytes \<Rightarrow> bytes) \<Rightarrow> bytes \<Rightarrow> bytes \<Rightarrow> bytes" where
  "hmac_core H k m =
     (let k0 = k @ replicate (64 - length k) 0
      in H (map (\<lambda>b. 0x5c XOR b) k0 @ H (map (\<lambda>b. 0x36 XOR b) k0 @ m)))"

definition hmac_spec :: "(bytes \<Rightarrow> bytes) \<Rightarrow> bytes \<Rightarrow> bytes \<Rightarrow> bytes" where
  "hmac_spec H k m = hmac_core H (if length k > 64 then H k else k) m"

lemma hmac_pad_map:
  assumes "length key \<le> 64"
  shows "hmac_pad c key (length key) = map (\<lambda>b. c XOR b) (key @ replicate (64 - length key) 0)"
proof -
  have "fold (\<lambda>i pad. pad[i := pad ! i XOR key ! i]) [0..<n] (replicate 64 c)
      = map (\<lambda>b. c XOR b) (take n key @ replicate (64 - n) 0)" if "n \<le> length key" for n
    using that
  proof (induction n)
    case (Suc n)
    then have "64 - n = Suc (64 - Suc n)" "take (Suc n) key = take n key @ [key ! n]"
      using assms by (simp_all add: take_Suc_conv_app_nth)
    with Suc show ?case by (simp add: list_update_append nth_append)
  qed simp
  from this [of "length key"] show ?thesis by (simp add: hmac_pad_def)
qed

lemma pad_then_pieces:
  assumes S: "blake256_wf S" "blake256_pend S = []" "blake_after (blake256_chain S) iv 0"
    and "length pad = 64" and "pa = 0x80 OR pb"
  shows "snd (blake256_final_h (blake256_update (blake256_update S pad 512) m (8 * length m)) pa pb) = blake_spec iv pb (pad @ m)"
    and "0 < k \<Longrightarrow> k < 64 \<Longrightarrow> k \<le> length m \<Longrightarrow>
      snd (blake256_final_h (blake256_update (blake256_update S pad 512) m (8 * k)) pa pb) = blake_spec iv pb (pad @ take k m)"
proof -
  have a: "absorb 64 64 blake256_step c pad = (fst (absorb 64 64 blake256_step c pad), [])" for c
    using absorb_blocks [of pad 1 "[]" c] assms(4) by simp
  have "blake256.adm_all (blake256_chain S) [] [pad, m]"
    using a [of "blake256_chain S"] by (auto simp: blake256_adm_def case_prod_beta prod_eq_iff)
  from pieces_blake_spec [OF S this assms(5)]
  show "snd (blake256_final_h (blake256_update (blake256_update S pad 512) m (8 * length m)) pa pb) = blake_spec iv pb (pad @ m)"
    using assms(4) by simp
  assume k: "0 < k" "k < 64" "k \<le> length m"
  have "blake256_rep (blake256_update S pad 512) (fst (absorb 64 64 blake256_step (blake256_chain S) pad)) []"
    using blake256_upd_refines [OF S(1), of pad] S(2) a [of "blake256_chain S"] assms(4)
    by (simp add: blake256_rep_def blake256_adm_def prod_eq_iff)
  from rep_keep [OF this k(1) _ k(3)] k(2)
  have rep: "blake256_rep (blake256_update (blake256_update S pad 512) m (8 * k))
      (fst (absorb 64 64 blake256_step (blake256_chain S) pad)) (take k m)" by simp
  have "absorb 64 64 blake256_step (blake256_chain S) (pad @ take k m)
      = (fst (absorb 64 64 blake256_step (blake256_chain S) pad), take k m)"
    using absorb_blocks [of pad 1 "take k m"] assms(4) k by simp
  with rep_blake_spec [OF _ S(3) assms(5), of _ "pad @ take k m"] rep
  show "snd (blake256_final_h (blake256_update (blake256_update S pad 512) m (8 * k)) pa pb) = blake_spec iv pb (pad @ take k m)"
    by simp
qed

lemma length_final_h [simp]: "length (snd (blake256_final_h S pa pb)) = 32"
proof -
  have "length (concat (map (\<lambda>i. U32TO8 (h ! i)) [0..<8])) = 32" for h
    by (subst concat_const_length [where n = 4]) simp_all
  then show ?thesis by (simp only: blake256_final_h_def Let_def snd_conv)
qed

lemma length_hmac_final [simp]:
  "length (snd (hmac_blake256_final S)) = 32" "length (snd (hmac_blake224_final S)) = 32"
  by (simp_all add: hmac_blake256_final_def hmac_blake224_final_def blake256_final_def blake224_final_def
      case_prod_beta Let_def)

lemma hmac_256_core:
  assumes "length (bl_buf (hm_inner H)) = 64" and "length (bl_buf (hm_outer H)) = 64" and "length k \<le> 64"
  shows "snd (hmac_blake256_final (hmac_blake256_update
      (H\<lparr>hm_inner := blake256_update (blake256_init (hm_inner H)) (hmac_pad 0x36 k (length k)) 512,
         hm_outer := blake256_update (blake256_init (hm_outer H)) (hmac_pad 0x5c k (length k)) 512\<rparr>) m (8 * length m)))
    = hmac_core blake256_spec k m"
proof -
  have l: "length (map f (k @ replicate (64 - length k) 0)) = 64" for f :: "u8 \<Rightarrow> u8" using assms(3) by simp
  note p = pad_then_pieces [OF init_blake(1-3) l, where pa = "0x81" and pb = 1]
  have i: "snd (blake256_final (blake256_update (blake256_update (blake256_init (hm_inner H))
      (map (\<lambda>b. 0x36 XOR b) (k @ replicate (64 - length k) 0)) 512) m (8 * length m)))
    = blake256_spec (map (\<lambda>b. 0x36 XOR b) (k @ replicate (64 - length k) 0) @ m)"
    using p(1) [OF assms(1), of "\<lambda>b. 0x36 XOR b" m] assms(1) by (simp add: blake256_final_def blake256_spec_def)
  have o: "snd (blake256_final (blake256_update (blake256_update (blake256_init (hm_outer H))
      (map (\<lambda>b. 0x5c XOR b) (k @ replicate (64 - length k) 0)) 512) (blake256_spec x) 256))
    = blake256_spec (map (\<lambda>b. 0x5c XOR b) (k @ replicate (64 - length k) 0) @ blake256_spec x)" for x
    using p(1) [OF assms(2), of "\<lambda>b. 0x5c XOR b" "blake256_spec x"] assms(2)
    by (simp add: blake256_final_def blake256_spec_def blake_iv256_def)
  show ?thesis
    using i o by (simp add: hmac_blake256_final_def hmac_blake256_update_def hmac_pad_map [OF assms(3)]
        hmac_core_def case_prod_beta Let_def)
qed

lemma hmac_224_core:
  assumes "length (bl_buf (hm_inner H)) = 64" and "length (bl_buf (hm_outer H)) = 64" and "length k \<le> 64"
  shows "take 28 (snd (hmac_blake224_final (hmac_blake224_update
      (H\<lparr>hm_inner := blake224_update (blake224_init (hm_inner H)) (hmac_pad 0x36 k (length k)) 512,
         hm_outer := blake224_update (blake224_init (hm_outer H)) (hmac_pad 0x5c k (length k)) 512\<rparr>) m (8 * length m))))
    = hmac_core blake224_spec k m"
proof -
  have l: "length (map f (k @ replicate (64 - length k) 0)) = 64" for f :: "u8 \<Rightarrow> u8" using assms(3) by simp
  note p = pad_then_pieces [OF init_blake(4-6) l, where pa = "0x80" and pb = 0]
  have i: "snd (blake224_final (blake256_update (blake256_update (blake224_init (hm_inner H))
      (map (\<lambda>b. 0x36 XOR b) (k @ replicate (64 - length k) 0)) 512) m (8 * length m)))
    = blake_spec blake_iv224 0 (map (\<lambda>b. 0x36 XOR b) (k @ replicate (64 - length k) 0) @ m)"
    using p(1) [OF assms(1), of "\<lambda>b. 0x36 XOR b" m] assms(1) by (simp add: blake224_final_def)
  have o: "snd (blake224_final (blake256_update (blake256_update (blake224_init (hm_outer H))
      (map (\<lambda>b. 0x5c XOR b) (k @ replicate (64 - length k) 0)) 512) (blake_spec blake_iv224 0 x) 224))
    = blake_spec blake_iv224 0 (map (\<lambda>b. 0x5c XOR b) (k @ replicate (64 - length k) 0) @ blake224_spec x)" for x
    using p(2) [OF assms(2), of 28 "blake_spec blake_iv224 0 x" "\<lambda>b. 0x5c XOR b"] assms(2)
    by (simp add: blake224_final_def blake224_spec_def blake_iv224_def)
  show ?thesis
    using i o by (simp add: hmac_blake224_final_def hmac_blake224_update_def hmac_pad_map [OF assms(3)]
        hmac_core_def case_prod_beta Let_def blake224_update_def blake224_spec_def)
qed

text \<open>
  C34. HMAC. \<open>hmac_blake256_hash\<close> is the HMAC of RFC 2104 over BLAKE-256 for keys of any length.
  \<open>hmac_blake224_hash\<close> is the one over BLAKE-224 for keys of up to 64 bytes; a longer key is
  replaced by the first 28 bytes of its BLAKE-256 hash, not by its BLAKE-224 hash.
\<close>

theorem hmac_blake_spec:
  assumes "length (bl_buf (hm_inner H)) = 64" and "length (bl_buf (hm_outer H)) = 64" and "length (bl_buf S0) = 64"
    and "length kh0 = 32" and "32 \<le> length out" and "8 * length key < 2 ^ 64" and "8 * length m < 2 ^ 64"
  shows "take 32 (hmac_blake256_hash H S0 kh0 out key (length key) m (length m)) = hmac_spec blake256_spec key m \<and>
    take 28 (hmac_blake224_hash H S0 kh0 out key (length key) m (length m)) =
      hmac_core blake224_spec (if length key > 64 then take 28 (blake256_spec key) else key) m"
proof -
  have kh: "blake256_hash S0 kh0 key (length key) = blake256_spec key" "length (blake256_spec key) = 32"
    using hash_256 [OF assms(3,6)] assms(4) by (simp_all add: blake256_spec_def blake_iv256_def)
  have len: "8 * length m mod 2 ^ 64 = 8 * length m" "length m * 8 mod 18446744073709551616 = 8 * length m" using assms(7) by simp_all
  define k256 where "k256 = (if length key > 64 then blake256_spec key else key)"
  define k224 where "k224 = (if length key > 64 then take 28 (blake256_spec key) else key)"
  have l: "length k256 \<le> 64" "length k224 \<le> 64" using kh by (simp_all add: k256_def k224_def)
  have pad28: "hmac_pad c key' 28 = hmac_pad c (take 28 key') 28" for c key'
    unfolding hmac_pad_def by (rule fold_cong) auto
  have "hmac_blake256_init S0 kh0 H key (length key) =
      H\<lparr>hm_inner := blake256_update (blake256_init (hm_inner H)) (hmac_pad 0x36 k256 (length k256)) 512,
        hm_outer := blake256_update (blake256_init (hm_outer H)) (hmac_pad 0x5c k256 (length k256)) 512\<rparr>"
    using kh by (simp add: hmac_blake256_init_def k256_def)
  moreover have "hmac_blake224_init S0 kh0 H key (length key) =
      H\<lparr>hm_inner := blake224_update (blake224_init (hm_inner H)) (hmac_pad 0x36 k224 (length k224)) 512,
        hm_outer := blake224_update (blake224_init (hm_outer H)) (hmac_pad 0x5c k224 (length k224)) 512\<rparr>"
    using kh pad28 [of _ "blake256_spec key"] by (simp add: hmac_blake224_init_def k224_def)
  moreover have "hmac_core blake256_spec k256 m = hmac_spec blake256_spec key m"
    by (simp add: hmac_spec_def k256_def)
  moreover have "length (hmac_core blake256_spec k256 m) = 32"
    by (simp add: hmac_core_def blake256_spec_def blake_iv256_def Let_def)
  ultimately show ?thesis
    using hmac_256_core [OF assms(1,2) l(1), of m] hmac_224_core [OF assms(1,2) l(2), of m]
    unfolding k224_def [symmetric]
    by (simp add: hmac_blake256_hash_def hmac_blake224_hash_def len memcpy_at_start)
qed

theorem hmac_blake_spec_witness:
  "take 32 (hmac_blake256_hash \<lparr>hm_inner = blake256_any, hm_outer = blake256_any\<rparr> blake256_any (replicate 32 0) (replicate 32 0)
      [1, 2] 2 [3, 4] 2) = hmac_spec blake256_spec [1, 2] [3, 4]"
  using hmac_blake_spec [of "\<lparr>hm_inner = blake256_any, hm_outer = blake256_any\<rparr>" blake256_any "replicate 32 0" "replicate 32 0"
      "[1, 2]" "[3, 4]"]
  by (simp add: blake256_any_def flip: numeral_2_eq_2)

end
