(* ===== verification/Skein.thy ===== *)
theory Skein
  imports Endian Stream_Hash
begin

text \<open>
  \<open>crypto/cn/c_skein.c\<close> with \<open>skein_port.h\<close>: Skein-512, one of the final hashes of CryptoNight, in
  the configuration the file compiles to by default (fully unrolled block function, no assembly,
  no run-time checks, little-endian platform). \<open>Skein_Spec\<close> relates it to the published algorithm.
\<close>

subsection \<open>Constants\<close>

definition SKEIN_512_STATE_WORDS :: nat where "SKEIN_512_STATE_WORDS = 8"
definition SKEIN_512_STATE_BYTES :: nat where "SKEIN_512_STATE_BYTES = 64"
definition SKEIN_512_BLOCK_BYTES :: nat where "SKEIN_512_BLOCK_BYTES = 64"

lemmas skein_sizes [simp] = SKEIN_512_STATE_WORDS_def SKEIN_512_STATE_BYTES_def SKEIN_512_BLOCK_BYTES_def

definition SKEIN_T1_BIT :: "nat \<Rightarrow> nat" where "SKEIN_T1_BIT b = b - 64"

definition SKEIN_T1_POS_BIT_PAD :: nat where "SKEIN_T1_POS_BIT_PAD = SKEIN_T1_BIT 119"
definition SKEIN_T1_POS_BLK_TYPE :: nat where "SKEIN_T1_POS_BLK_TYPE = SKEIN_T1_BIT 120"
definition SKEIN_T1_POS_FIRST :: nat where "SKEIN_T1_POS_FIRST = SKEIN_T1_BIT 126"
definition SKEIN_T1_POS_FINAL :: nat where "SKEIN_T1_POS_FINAL = SKEIN_T1_BIT 127"

definition SKEIN_T1_FLAG_FIRST :: u64 where "SKEIN_T1_FLAG_FIRST = push_bit SKEIN_T1_POS_FIRST 1"
definition SKEIN_T1_FLAG_FINAL :: u64 where "SKEIN_T1_FLAG_FINAL = push_bit SKEIN_T1_POS_FINAL 1"
definition SKEIN_T1_FLAG_BIT_PAD :: u64 where "SKEIN_T1_FLAG_BIT_PAD = push_bit SKEIN_T1_POS_BIT_PAD 1"

definition SKEIN_BLK_TYPE_CFG :: u64 where "SKEIN_BLK_TYPE_CFG = 4"
definition SKEIN_BLK_TYPE_MSG :: u64 where "SKEIN_BLK_TYPE_MSG = 48"
definition SKEIN_BLK_TYPE_OUT :: u64 where "SKEIN_BLK_TYPE_OUT = 63"

definition SKEIN_T1_BLK_TYPE :: "u64 \<Rightarrow> u64" where
  "SKEIN_T1_BLK_TYPE t = push_bit SKEIN_T1_POS_BLK_TYPE t"

definition SKEIN_T1_BLK_TYPE_MSG :: u64 where "SKEIN_T1_BLK_TYPE_MSG = SKEIN_T1_BLK_TYPE SKEIN_BLK_TYPE_MSG"
definition SKEIN_T1_BLK_TYPE_CFG_FINAL :: u64 where
  "SKEIN_T1_BLK_TYPE_CFG_FINAL = SKEIN_T1_BLK_TYPE SKEIN_BLK_TYPE_CFG OR SKEIN_T1_FLAG_FINAL"
definition SKEIN_T1_BLK_TYPE_OUT_FINAL :: u64 where
  "SKEIN_T1_BLK_TYPE_OUT_FINAL = SKEIN_T1_BLK_TYPE SKEIN_BLK_TYPE_OUT OR SKEIN_T1_FLAG_FINAL"

definition SKEIN_MK_64 :: "u32 \<Rightarrow> u32 \<Rightarrow> u64" where
  "SKEIN_MK_64 hi32 lo32 = ucast lo32 + push_bit 32 (ucast hi32)"

definition SKEIN_SCHEMA_VER :: u64 where "SKEIN_SCHEMA_VER = SKEIN_MK_64 1 0x33414853"
definition SKEIN_KS_PARITY :: u64 where "SKEIN_KS_PARITY = SKEIN_MK_64 0x1BD11BDA 0xA9FC1A22"
definition SKEIN_CFG_STR_LEN :: nat where "SKEIN_CFG_STR_LEN = 4 * 8"

definition SKEIN_CFG_TREE_INFO :: "u64 \<Rightarrow> u64 \<Rightarrow> u64 \<Rightarrow> u64" where
  "SKEIN_CFG_TREE_INFO leaf node maxLvl = push_bit 0 leaf OR push_bit 8 node OR push_bit 16 maxLvl"

definition SKEIN_CFG_TREE_INFO_SEQUENTIAL :: u64 where
  "SKEIN_CFG_TREE_INFO_SEQUENTIAL = SKEIN_CFG_TREE_INFO 0 0 0"

text \<open>The rotation constants, \<open>R_512_i_j\<close>.\<close>

definition R_512 :: "nat list list" where
  "R_512 = [[46, 36, 19, 37], [33, 27, 14, 42], [17, 49, 36, 39], [44, 9, 54, 56],
            [39, 30, 34, 24], [13, 50, 10, 17], [25, 29, 39, 43], [8, 35, 56, 22]]"

definition SKEIN_512_ROUNDS_TOTAL :: nat where "SKEIN_512_ROUNDS_TOTAL = 72"

definition SKEIN_512_IV_256 :: "u64 list" where
  "SKEIN_512_IV_256 =
     [SKEIN_MK_64 0xCCD044A1 0x2FDB3E13, SKEIN_MK_64 0xE8359030 0x1A79A9EB,
      SKEIN_MK_64 0x55AEA061 0x4F816E6F, SKEIN_MK_64 0x2A2767A4 0xAE9B94DB,
      SKEIN_MK_64 0xEC06025E 0x74DD7683, SKEIN_MK_64 0xE7A436CD 0xC4746251,
      SKEIN_MK_64 0xC36FBAF9 0x393AD185, SKEIN_MK_64 0x3EEDBA18 0x33EDFC13]"

text \<open>The error codes of \<open>c_skein.h\<close>; without run-time checks only success is returned.\<close>

datatype SkeinHashReturn = SKEIN_SUCCESS | SKEIN_FAIL | SKEIN_BAD_HASHLEN

subsection \<open>skein_port.h\<close>

definition RotL_64 :: "u64 \<Rightarrow> nat \<Rightarrow> u64" where
  "RotL_64 x n = push_bit n x OR drop_bit (64 - n) x"

definition Skein_Swap64 :: "u64 \<Rightarrow> u64" where "Skein_Swap64 w64 = w64"

definition Skein_Get64_LSB_First :: "bytes \<Rightarrow> nat \<Rightarrow> u64 list" where
  "Skein_Get64_LSB_First src wCnt = map (\<lambda>i. le_word (take 8 (drop (8 * i) src))) [0..<wCnt]"

text \<open>The bytes \<open>Skein_Put64_LSB_First\<close> copies to its destination.\<close>

definition Skein_Put64_LSB_First :: "u64 list \<Rightarrow> nat \<Rightarrow> bytes" where
  "Skein_Put64_LSB_First src bCnt = take bCnt (concat (map (le_bytes 8) src))"

subsection \<open>Contexts\<close>

text \<open>The common header, kept inside the context; \<open>sk_T\<close> holds the two tweak words.\<close>

record skein_ctx =
  sk_hashBitLen :: nat
  sk_bCnt :: nat
  sk_T :: "u64 list"
  sk_X :: "u64 list"
  sk_b :: bytes

record skein_state =
  statebits :: nat
  ctx_512 :: skein_ctx

definition Skein_Start_New_Type :: "skein_ctx \<Rightarrow> u64 \<Rightarrow> skein_ctx" where
  "Skein_Start_New_Type ctx blk_type =
     ctx\<lparr>sk_T := [0, SKEIN_T1_FLAG_FIRST OR blk_type], sk_bCnt := 0\<rparr>"

definition Skein_Set_Bit_Pad_Flag :: "skein_ctx \<Rightarrow> skein_ctx" where
  "Skein_Set_Bit_Pad_Flag ctx = ctx\<lparr>sk_T := (sk_T ctx)[1 := sk_T ctx ! 1 OR SKEIN_T1_FLAG_BIT_PAD]\<rparr>"

subsection \<open>The block function\<close>

text \<open>
  A line of the macro \<open>Round512\<close>, on the words \<open>p\<close> and \<open>q\<close>, and the macro with the rotation
  constants \<open>rot\<close> of its row.
\<close>

definition skein_mix :: "nat \<Rightarrow> nat \<Rightarrow> nat \<Rightarrow> u64 list \<Rightarrow> u64 list" where
  "skein_mix p q rot X =
     (let X = X[p := X ! p + X ! q];
          X = X[q := RotL_64 (X ! q) rot]
      in X[q := X ! q XOR X ! p])"

definition Round512 :: "nat \<Rightarrow> nat \<Rightarrow> nat \<Rightarrow> nat \<Rightarrow> nat \<Rightarrow> nat \<Rightarrow> nat \<Rightarrow> nat \<Rightarrow> nat list \<Rightarrow> u64 list \<Rightarrow> u64 list" where
  "Round512 p0 p1 p2 p3 p4 p5 p6 p7 rot X =
     (let X = skein_mix p0 p1 (rot ! 0) X;
          X = skein_mix p2 p3 (rot ! 1) X;
          X = skein_mix p4 p5 (rot ! 2) X
      in skein_mix p6 p7 (rot ! 3) X)"

definition I512 :: "u64 list \<Rightarrow> u64 list \<Rightarrow> nat \<Rightarrow> u64 list \<Rightarrow> u64 list" where
  "I512 ks ts R X =
     [X ! 0 + ks ! ((R + 1) mod 9),
      X ! 1 + ks ! ((R + 2) mod 9),
      X ! 2 + ks ! ((R + 3) mod 9),
      X ! 3 + ks ! ((R + 4) mod 9),
      X ! 4 + ks ! ((R + 5) mod 9),
      X ! 5 + (ks ! ((R + 6) mod 9) + ts ! ((R + 1) mod 3)),
      X ! 6 + (ks ! ((R + 7) mod 9) + ts ! ((R + 2) mod 3)),
      X ! 7 + (ks ! ((R + 8) mod 9) + (of_nat R + 1))]"

definition R512_8_rounds :: "u64 list \<Rightarrow> u64 list \<Rightarrow> nat \<Rightarrow> u64 list \<Rightarrow> u64 list" where
  "R512_8_rounds ks ts R X =
     (let X = Round512 0 1 2 3 4 5 6 7 (R_512 ! 0) X;
          X = Round512 2 1 4 7 6 5 0 3 (R_512 ! 1) X;
          X = Round512 4 1 6 3 0 5 2 7 (R_512 ! 2) X;
          X = Round512 6 1 0 7 2 5 4 3 (R_512 ! 3) X;
          X = I512 ks ts (2 * R) X;
          X = Round512 0 1 2 3 4 5 6 7 (R_512 ! 4) X;
          X = Round512 2 1 4 7 6 5 0 3 (R_512 ! 5) X;
          X = Round512 4 1 6 3 0 5 2 7 (R_512 ! 6) X;
          X = Round512 6 1 0 7 2 5 4 3 (R_512 ! 7) X;
          X = I512 ks ts (2 * R + 1) X
      in X)"

text \<open>One iteration of the loop over the blocks: from the chaining variables \<open>X\<close> and the tweak \<open>ts\<close>.\<close>

definition Skein_512_block :: "u64 list \<Rightarrow> u64 list \<Rightarrow> bytes \<Rightarrow> nat \<Rightarrow> u64 list \<times> u64 list" where
  "Skein_512_block X ts blkPtr byteCntAdd =
     (let ts0 = ts ! 0 + of_nat byteCntAdd;
          ts1 = ts ! 1;
          ks = map (\<lambda>i. X ! i) [0..<8] @
               [X ! 0 XOR X ! 1 XOR X ! 2 XOR X ! 3 XOR X ! 4 XOR X ! 5 XOR X ! 6 XOR X ! 7 XOR SKEIN_KS_PARITY];
          tw = [ts0, ts1, ts0 XOR ts1];
          w = Skein_Get64_LSB_First blkPtr SKEIN_512_STATE_WORDS;
          V = [w ! 0 + ks ! 0, w ! 1 + ks ! 1, w ! 2 + ks ! 2, w ! 3 + ks ! 3, w ! 4 + ks ! 4,
               w ! 5 + ks ! 5 + ts0, w ! 6 + ks ! 6 + ts1, w ! 7 + ks ! 7];
          V = fold (R512_8_rounds ks tw) [0..<SKEIN_512_ROUNDS_TOTAL div 8] V
      in (map (\<lambda>i. V ! i XOR w ! i) [0..<8], [ts0, ts1 AND NOT SKEIN_T1_FLAG_FIRST]))"

text \<open>The loop; the code never calls it with \<open>blkCnt = 0\<close>.\<close>

fun Skein_512_loop :: "u64 list \<Rightarrow> u64 list \<Rightarrow> bytes \<Rightarrow> nat \<Rightarrow> nat \<Rightarrow> u64 list \<times> u64 list" where
  "Skein_512_loop X ts blkPtr blkCnt byteCntAdd =
     (case Skein_512_block X ts blkPtr byteCntAdd of
        (X, ts) \<Rightarrow>
          if blkCnt - 1 \<noteq> 0
          then Skein_512_loop X ts (drop SKEIN_512_BLOCK_BYTES blkPtr) (blkCnt - 1) byteCntAdd
          else (X, ts))"

declare Skein_512_loop.simps [simp del]

definition Skein_512_Process_Block :: "skein_ctx \<Rightarrow> bytes \<Rightarrow> nat \<Rightarrow> nat \<Rightarrow> skein_ctx" where
  "Skein_512_Process_Block ctx blkPtr blkCnt byteCntAdd =
     (case Skein_512_loop (sk_X ctx) (sk_T ctx) blkPtr blkCnt byteCntAdd of
        (X, ts) \<Rightarrow> ctx\<lparr>sk_X := X, sk_T := ts\<rparr>)"

subsection \<open>Init, Update, Final\<close>

definition Skein_512_Init :: "skein_ctx \<Rightarrow> nat \<Rightarrow> SkeinHashReturn \<times> skein_ctx" where
  "Skein_512_Init ctx hashBitLen =
     (let ctx = ctx\<lparr>sk_hashBitLen := hashBitLen\<rparr>;
          ctx = (if hashBitLen = 256 then ctx\<lparr>sk_X := SKEIN_512_IV_256\<rparr>
                 else
                   (let ctx = Skein_Start_New_Type ctx SKEIN_T1_BLK_TYPE_CFG_FINAL;
                        cfg = concat (map (le_bytes 8)
                          ([Skein_Swap64 SKEIN_SCHEMA_VER, Skein_Swap64 (of_nat hashBitLen),
                            Skein_Swap64 SKEIN_CFG_TREE_INFO_SEQUENTIAL] @ replicate 5 0));
                        ctx = ctx\<lparr>sk_X := replicate 8 0\<rparr>
                    in Skein_512_Process_Block ctx cfg 1 SKEIN_CFG_STR_LEN))
      in (SKEIN_SUCCESS, Skein_Start_New_Type ctx SKEIN_T1_BLK_TYPE_MSG))"

text \<open>
  The parts of \<open>Skein_512_Update\<close>, each from and to the context, the message pointer and the
  byte count: finishing a buffered block, the full blocks straight from the message, and the copy
  of the rest.
\<close>

definition skein_update_fill :: "skein_ctx \<Rightarrow> bytes \<Rightarrow> nat \<Rightarrow> skein_ctx \<times> bytes \<times> nat" where
  "skein_update_fill ctx msg msgByteCnt =
     (if sk_bCnt ctx \<noteq> 0
      then
        (let n = SKEIN_512_BLOCK_BYTES - sk_bCnt ctx;
             (ctx, msg, msgByteCnt) =
               (if n \<noteq> 0
                then (ctx\<lparr>sk_b := memcpy_at (sk_b ctx) (sk_bCnt ctx) msg n, sk_bCnt := sk_bCnt ctx + n\<rparr>,
                      drop n msg, msgByteCnt - n)
                else (ctx, msg, msgByteCnt));
             ctx = Skein_512_Process_Block ctx (sk_b ctx) 1 SKEIN_512_BLOCK_BYTES
         in (ctx\<lparr>sk_bCnt := 0\<rparr>, msg, msgByteCnt))
      else (ctx, msg, msgByteCnt))"

definition skein_update_direct :: "skein_ctx \<Rightarrow> bytes \<Rightarrow> nat \<Rightarrow> skein_ctx \<times> bytes \<times> nat" where
  "skein_update_direct ctx msg msgByteCnt =
     (if msgByteCnt > SKEIN_512_BLOCK_BYTES
      then
        (let n = (msgByteCnt - 1) div SKEIN_512_BLOCK_BYTES
         in (Skein_512_Process_Block ctx msg n SKEIN_512_BLOCK_BYTES,
             drop (n * SKEIN_512_BLOCK_BYTES) msg, msgByteCnt - n * SKEIN_512_BLOCK_BYTES))
      else (ctx, msg, msgByteCnt))"

definition skein_update_copy :: "skein_ctx \<Rightarrow> bytes \<Rightarrow> nat \<Rightarrow> skein_ctx" where
  "skein_update_copy ctx msg msgByteCnt =
     (if msgByteCnt \<noteq> 0
      then ctx\<lparr>sk_b := memcpy_at (sk_b ctx) (sk_bCnt ctx) msg msgByteCnt, sk_bCnt := sk_bCnt ctx + msgByteCnt\<rparr>
      else ctx)"

definition Skein_512_Update :: "skein_ctx \<Rightarrow> bytes \<Rightarrow> nat \<Rightarrow> SkeinHashReturn \<times> skein_ctx" where
  "Skein_512_Update ctx msg msgByteCnt =
     (let (ctx, msg, msgByteCnt) =
        (if msgByteCnt + sk_bCnt ctx > SKEIN_512_BLOCK_BYTES
         then (case skein_update_fill ctx msg msgByteCnt of
                 (ctx, msg, msgByteCnt) \<Rightarrow> skein_update_direct ctx msg msgByteCnt)
         else (ctx, msg, msgByteCnt))
      in (SKEIN_SUCCESS, skein_update_copy ctx msg msgByteCnt))"

text \<open>
  The output loop: \<open>X\<close> is the saved chaining value, \<open>out\<close> the memory at \<open>hashVal\<close>. The buffer holds
  the counter block.
\<close>

function skein_output_loop :: "u64 list \<Rightarrow> nat \<Rightarrow> nat \<Rightarrow> skein_ctx \<Rightarrow> bytes \<Rightarrow> skein_ctx \<times> bytes" where
  "skein_output_loop X byteCnt i ctx out =
     (if i * SKEIN_512_BLOCK_BYTES < byteCnt
      then
        (let ctx = ctx\<lparr>sk_b := memcpy_at (sk_b ctx) 0 (le_bytes 8 (Skein_Swap64 (of_nat i))) 8\<rparr>;
             ctx = Skein_Start_New_Type ctx SKEIN_T1_BLK_TYPE_OUT_FINAL;
             ctx = Skein_512_Process_Block ctx (sk_b ctx) 1 8;
             n = byteCnt - i * SKEIN_512_BLOCK_BYTES;
             n = (if n \<ge> SKEIN_512_BLOCK_BYTES then SKEIN_512_BLOCK_BYTES else n);
             out = memcpy_at out (i * SKEIN_512_BLOCK_BYTES) (Skein_Put64_LSB_First (sk_X ctx) n) n
         in skein_output_loop X byteCnt (i + 1) (ctx\<lparr>sk_X := X\<rparr>) out)
      else (ctx, out))"
  by auto
termination
  by (relation "measure (\<lambda>(X, byteCnt, i, ctx, out). byteCnt - i * 64)") auto

declare skein_output_loop.simps [simp del]

definition Skein_512_Final :: "skein_ctx \<Rightarrow> bytes \<Rightarrow> SkeinHashReturn \<times> skein_ctx \<times> bytes" where
  "Skein_512_Final ctx hashVal =
     (let ctx = ctx\<lparr>sk_T := (sk_T ctx)[1 := sk_T ctx ! 1 OR SKEIN_T1_FLAG_FINAL]\<rparr>;
          ctx = (if sk_bCnt ctx < SKEIN_512_BLOCK_BYTES
                 then ctx\<lparr>sk_b := memset_at (sk_b ctx) (sk_bCnt ctx) 0 (SKEIN_512_BLOCK_BYTES - sk_bCnt ctx)\<rparr>
                 else ctx);
          ctx = Skein_512_Process_Block ctx (sk_b ctx) 1 (sk_bCnt ctx);
          byteCnt = ((sk_hashBitLen ctx + 7) mod 2 ^ 64) div 8;
          ctx = ctx\<lparr>sk_b := memset_at (sk_b ctx) 0 0 64\<rparr>;
          (ctx, out) = skein_output_loop (sk_X ctx) byteCnt 0 ctx hashVal
      in (SKEIN_SUCCESS, ctx, out))"

subsection \<open>The bit-oriented interface\<close>

definition skein_Init :: "skein_state \<Rightarrow> int \<Rightarrow> SkeinHashReturn \<times> skein_state" where
  "skein_Init state hashbitlen =
     (let state = state\<lparr>statebits := 64 * SKEIN_512_STATE_WORDS\<rparr>
      in case Skein_512_Init (ctx_512 state) (nat (hashbitlen mod 2 ^ 64)) of
           (r, ctx) \<Rightarrow> (r, state\<lparr>ctx_512 := ctx\<rparr>))"

definition skein_Update :: "skein_state \<Rightarrow> bytes \<Rightarrow> nat \<Rightarrow> SkeinHashReturn \<times> skein_state" where
  "skein_Update state data databitlen =
     (if databitlen mod 8 = 0
      then (case Skein_512_Update (ctx_512 state) data (databitlen div 8) of
              (r, ctx) \<Rightarrow> (r, state\<lparr>ctx_512 := ctx\<rparr>))
      else
        (let bCnt = databitlen div 8 + 1;
             mask = push_bit (7 - databitlen mod 8) 1;
             b = (data ! (bCnt - 1) AND (0 - mask)) OR mask;
             ctx = snd (Skein_512_Update (ctx_512 state) data (bCnt - 1));
             ctx = snd (Skein_512_Update ctx [b] 1)
         in (SKEIN_SUCCESS, state\<lparr>ctx_512 := Skein_Set_Bit_Pad_Flag ctx\<rparr>)))"

definition skein_Final :: "skein_state \<Rightarrow> bytes \<Rightarrow> SkeinHashReturn \<times> skein_state \<times> bytes" where
  "skein_Final state hashval =
     (case Skein_512_Final (ctx_512 state) hashval of
        (r, ctx, out) \<Rightarrow> (r, state\<lparr>ctx_512 := ctx\<rparr>, out))"

text \<open>\<open>S0\<close> is the indeterminate content of the local \<open>state\<close>.\<close>

definition skein_hash :: "skein_state \<Rightarrow> int \<Rightarrow> bytes \<Rightarrow> nat \<Rightarrow> bytes \<Rightarrow> SkeinHashReturn \<times> bytes" where
  "skein_hash S0 hashbitlen data databitlen hashval =
     (case skein_Init S0 hashbitlen of
        (r, state) \<Rightarrow>
          if r = SKEIN_SUCCESS
          then (case skein_Update state data databitlen of
                  (r, state) \<Rightarrow> (case skein_Final state hashval of (_, _, out) \<Rightarrow> (r, out)))
          else (r, hashval))"

definition XMR_HASHBITLEN :: nat where "XMR_HASHBITLEN = 256"
definition XMR_DATABITLEN :: nat where "XMR_DATABITLEN = 1600"

definition xmr_skein :: "skein_state \<Rightarrow> bytes \<Rightarrow> bytes \<Rightarrow> bytes" where
  "xmr_skein S0 data hashval =
     (let state = S0\<lparr>statebits := 64 * SKEIN_512_STATE_WORDS\<rparr>;
          ctx = (ctx_512 state)\<lparr>sk_hashBitLen := XMR_HASHBITLEN, sk_X := SKEIN_512_IV_256\<rparr>;
          ctx = Skein_Start_New_Type ctx SKEIN_T1_BLK_TYPE_MSG;
          ctx = (if XMR_DATABITLEN mod 8 = 0
                 then snd (Skein_512_Update ctx data (XMR_DATABITLEN div 8))
                 else
                   (let bCnt = XMR_DATABITLEN div 8 + 1;
                        mask = push_bit (7 - XMR_DATABITLEN mod 8) 1;
                        b = (data ! (bCnt - 1) AND (0 - mask)) OR mask;
                        ctx = snd (Skein_512_Update ctx data (bCnt - 1));
                        ctx = snd (Skein_512_Update ctx [b] 1)
                    in Skein_Set_Bit_Pad_Flag ctx))
      in snd (snd (Skein_512_Final ctx hashval)))"

end
