(* ===== verification/Skein_Spec.thy ===== *)
theory Skein_Spec
  imports Skein
begin

text \<open>
  What \<open>Skein\<close> promises: its unrolled block function is Threefish-512 as the Skein paper defines
  it, its update is the abstract one, and \<open>skein_hash\<close> is Skein-512 in terms of the UBI chaining
  mode, for whole bytes and for a last partial byte.
\<close>

subsection \<open>Threefish-512\<close>

definition tf_mix :: "nat list \<Rightarrow> u64 list \<Rightarrow> u64 list" where
  "tf_mix rot v =
     [v ! 0 + v ! 1, word_rotl (rot ! 0) (v ! 1) XOR (v ! 0 + v ! 1),
      v ! 2 + v ! 3, word_rotl (rot ! 1) (v ! 3) XOR (v ! 2 + v ! 3),
      v ! 4 + v ! 5, word_rotl (rot ! 2) (v ! 5) XOR (v ! 4 + v ! 5),
      v ! 6 + v ! 7, word_rotl (rot ! 3) (v ! 7) XOR (v ! 6 + v ! 7)]"

definition tf_permute :: "u64 list \<Rightarrow> u64 list" where
  "tf_permute f = map (\<lambda>i. f ! i) [2, 1, 4, 7, 6, 5, 0, 3]"

definition tf_subkey :: "u64 list \<Rightarrow> u64 list \<Rightarrow> nat \<Rightarrow> u64 list" where
  "tf_subkey K T s =
     (let K = K @ [fold (XOR) K 0x1BD11BDAA9FC1A22]; T = T @ [T ! 0 XOR T ! 1]
      in map (\<lambda>i. K ! ((s + i) mod 9) +
           (if i = 5 then T ! (s mod 3) else if i = 6 then T ! ((s + 1) mod 3) else if i = 7 then of_nat s else 0))
         [0, 1, 2, 3, 4, 5, 6, 7])"

definition tf_add :: "u64 list \<Rightarrow> u64 list \<Rightarrow> u64 list" where
  "tf_add v k = map (\<lambda>i. v ! i + k ! i) [0, 1, 2, 3, 4, 5, 6, 7]"

text \<open>The rotation constants of the paper, its table for eight words.\<close>

definition tf_rotations :: "nat list list" where
  "tf_rotations = [[46, 36, 19, 37], [33, 27, 14, 42], [17, 49, 36, 39], [44, 9, 54, 56],
     [39, 30, 34, 24], [13, 50, 10, 17], [25, 29, 39, 43], [8, 35, 56, 22]]"

definition tf_round :: "u64 list \<Rightarrow> u64 list \<Rightarrow> nat \<Rightarrow> u64 list \<Rightarrow> u64 list" where
  "tf_round K T d v =
     (let e = (if d mod 4 = 0 then tf_add v (tf_subkey K T (d div 4)) else v)
      in tf_permute (tf_mix (tf_rotations ! (d mod 8)) e))"

definition threefish_512 :: "u64 list \<Rightarrow> u64 list \<Rightarrow> u64 list \<Rightarrow> u64 list" where
  "threefish_512 K T P = tf_add (fold (tf_round K T) [0..<72] P) (tf_subkey K T 18)"

subsection \<open>The unrolled rounds are Threefish\<close>

lemma rotations_code: "tf_rotations = R_512"
  by (simp add: tf_rotations_def R_512_def)

lemma RotL_64_rotl: "0 < n \<Longrightarrow> n < 64 \<Longrightarrow> RotL_64 x n = word_rotl n x"
proof -
  assume n: "0 < n" "n < 64"
  have "RotL_64 x n = word_rotr (64 - n) x"
    using rotr_idiom [of "64 - n" x] n by (simp add: RotL_64_def or.commute)
  also have "\<dots> = word_rotl n x"
    using n by (intro bit_word_eqI) (simp add: bit_word_rotr_iff bit_word_rotl_iff)
  finally show ?thesis .
qed

lemma length_8: "length X = 8 \<Longrightarrow> \<exists>a b c d e f g h. X = [a, b, c, d, e, f, g, h]"
  by (auto simp: numeral_eq_Suc length_Suc_conv)

text \<open>The permutation applied \<open>n\<close> times, as the index lists of the unrolled rounds have it.\<close>

definition view1 :: "u64 list \<Rightarrow> u64 list" where "view1 X = map (\<lambda>i. X ! i) [2, 1, 4, 7, 6, 5, 0, 3]"
definition view2 :: "u64 list \<Rightarrow> u64 list" where "view2 X = map (\<lambda>i. X ! i) [4, 1, 6, 3, 0, 5, 2, 7]"
definition view3 :: "u64 list \<Rightarrow> u64 list" where "view3 X = map (\<lambda>i. X ! i) [6, 1, 0, 7, 2, 5, 4, 3]"

lemma skein_mix_eq:
  "p \<noteq> q \<Longrightarrow> p < length X \<Longrightarrow> q < length X \<Longrightarrow>
   skein_mix p q r X = X[p := X ! p + X ! q, q := RotL_64 (X ! q) r XOR (X ! p + X ! q)]"
  by (simp add: skein_mix_def Let_def list_update_swap)

lemma Round512_mix:
  "Round512 p0 p1 p2 p3 p4 p5 p6 p7 rot X =
    skein_mix p6 p7 (rot ! 3) (skein_mix p4 p5 (rot ! 2) (skein_mix p2 p3 (rot ! 1) (skein_mix p0 p1 (rot ! 0) X)))"
  by (simp add: Round512_def)

lemma round_views:
  assumes "length X = 8" and "\<And>i. i < 4 \<Longrightarrow> 0 < rot ! i \<and> rot ! i < 64"
  shows "view1 (Round512 0 1 2 3 4 5 6 7 rot X) = tf_permute (tf_mix rot X)"
    and "view2 (Round512 2 1 4 7 6 5 0 3 rot X) = tf_permute (tf_mix rot (view1 X))"
    and "view3 (Round512 4 1 6 3 0 5 2 7 rot X) = tf_permute (tf_mix rot (view2 X))"
    and "Round512 6 1 0 7 2 5 4 3 rot X = tf_permute (tf_mix rot (view3 X))"
proof -
  obtain a b c d e f g h where X: "X = [a, b, c, d, e, f, g, h]" using length_8 [OF assms(1)] by blast
  have r: "RotL_64 x (rot ! 0) = word_rotl (rot ! 0) x" "RotL_64 x (rot ! Suc 0) = word_rotl (rot ! Suc 0) x" "RotL_64 x (rot ! 1) = word_rotl (rot ! 1) x"
    "RotL_64 x (rot ! 2) = word_rotl (rot ! 2) x" "RotL_64 x (rot ! 3) = word_rotl (rot ! 3) x" for x
    using assms(2) [of 0] assms(2) [of 1] assms(2) [of 2] assms(2) [of 3] by (simp_all add: RotL_64_rotl)
  note defs = X Round512_mix skein_mix_eq r view1_def view2_def view3_def tf_permute_def tf_mix_def
  show "view1 (Round512 0 1 2 3 4 5 6 7 rot X) = tf_permute (tf_mix rot X)" by (simp add: defs)
  show "view2 (Round512 2 1 4 7 6 5 0 3 rot X) = tf_permute (tf_mix rot (view1 X))" by (simp add: defs)
  show "view3 (Round512 4 1 6 3 0 5 2 7 rot X) = tf_permute (tf_mix rot (view2 X))" by (simp add: defs)
  show "Round512 6 1 0 7 2 5 4 3 rot X = tf_permute (tf_mix rot (view3 X))" by (simp add: defs)
qed

lemma length_Round512 [simp]: "length (Round512 p0 p1 p2 p3 p4 p5 p6 p7 rot X) = length X"
  by (simp add: Round512_def skein_mix_def Let_def)

text \<open>A row of the rotation table, and four rounds with the rows \<open>k\<close> to \<open>k + 3\<close>.\<close>

lemma rot_range:
  assumes "k < 8" and "i < 4"
  shows "0 < R_512 ! k ! i \<and> R_512 ! k ! i < 64"
proof -
  have "list_all (\<lambda>r. length r = 4 \<and> list_all (\<lambda>x. 0 < x \<and> x < 64) r) R_512" "length R_512 = 8"
    by (simp_all add: R_512_def)
  with assms show ?thesis by (simp add: list_all_length)
qed

definition tf_four :: "nat \<Rightarrow> u64 list \<Rightarrow> u64 list" where
  "tf_four k v = tf_permute (tf_mix (R_512 ! (k + 3)) (tf_permute (tf_mix (R_512 ! (k + 2))
     (tf_permute (tf_mix (R_512 ! (k + 1)) (tf_permute (tf_mix (R_512 ! k) v)))))))"

lemma four_rounds:
  assumes "length X = 8" and "k + 3 < 8"
  shows "Round512 6 1 0 7 2 5 4 3 (R_512 ! (k + 3)) (Round512 4 1 6 3 0 5 2 7 (R_512 ! (k + 2))
    (Round512 2 1 4 7 6 5 0 3 (R_512 ! (k + 1)) (Round512 0 1 2 3 4 5 6 7 (R_512 ! k) X))) = tf_four k X"
proof -
  let ?r0 = "R_512 ! k" and ?r1 = "R_512 ! (k + 1)" and ?r2 = "R_512 ! (k + 2)" and ?r3 = "R_512 ! (k + 3)"
  let ?A = "Round512 0 1 2 3 4 5 6 7 ?r0 X"
  let ?B = "Round512 2 1 4 7 6 5 0 3 ?r1 ?A"
  let ?C = "Round512 4 1 6 3 0 5 2 7 ?r2 ?B"
  have l: "length ?A = 8" "length ?B = 8" "length ?C = 8" using assms(1) by simp_all
  have k: "k < 8" "k + 1 < 8" "k + 2 < 8" using assms(2) by simp_all
  have "Round512 6 1 0 7 2 5 4 3 ?r3 ?C = tf_permute (tf_mix ?r3 (view3 ?C))"
    by (rule round_views(4) [OF l(3) rot_range [OF assms(2)]])
  moreover have "view3 ?C = tf_permute (tf_mix ?r2 (view2 ?B))"
    by (rule round_views(3) [OF l(2) rot_range [OF k(3)]])
  moreover have "view2 ?B = tf_permute (tf_mix ?r1 (view1 ?A))"
    by (rule round_views(2) [OF l(1) rot_range [OF k(2)]])
  moreover have "view1 ?A = tf_permute (tf_mix ?r0 X)"
    by (rule round_views(1) [OF assms(1) rot_range [OF k(1)]])
  ultimately show ?thesis by (simp only: tf_four_def)
qed

lemmas four_rounds_0 = four_rounds [where k = 0, unfolded add_0]

lemma four_rounds_4:
  assumes "length X = 8"
  shows "Round512 6 1 0 7 2 5 4 3 (R_512 ! 7) (Round512 4 1 6 3 0 5 2 7 (R_512 ! 6)
    (Round512 2 1 4 7 6 5 0 3 (R_512 ! 5) (Round512 0 1 2 3 4 5 6 7 (R_512 ! 4) X))) = tf_four 4 X"
proof -
  have n: "(4 :: nat) + 1 = 5" "(4 :: nat) + 2 = 6" "(4 :: nat) + 3 = 7" by simp_all
  show ?thesis using four_rounds [OF assms, of 4] unfolding n by simp
qed

lemma length_tf [simp]:
  "length (tf_permute v) = 8" "length (tf_add v k) = 8" "length (tf_four j v) = 8" "length (I512 ks ts R X) = 8"
  by (simp_all add: tf_permute_def tf_add_def tf_four_def I512_def)

lemma I512_subkey:
  assumes "length K = 8" and "ks = K @ [K ! 0 XOR K ! 1 XOR K ! 2 XOR K ! 3 XOR K ! 4 XOR K ! 5 XOR K ! 6 XOR K ! 7 XOR SKEIN_KS_PARITY]"
    and "ts = [t0, t1, t0 XOR t1]"
  shows "I512 ks ts R X = tf_add X (tf_subkey K [t0, t1] (R + 1))"
proof -
  obtain a b c d e f g h where K: "K = [a, b, c, d, e, f, g, h]" using length_8 [OF assms(1)] by blast
  have p: "SKEIN_KS_PARITY = 0x1BD11BDAA9FC1A22" by (simp add: SKEIN_KS_PARITY_def SKEIN_MK_64_def)
  have "ks = K @ [fold (XOR) K 0x1BD11BDAA9FC1A22]"
    unfolding assms(2) p by (simp add: K ac_simps)
  then show ?thesis
    by (simp add: I512_def tf_add_def tf_subkey_def assms(3) Let_def ac_simps)
qed

lemma first_injection:
  assumes "length K = 8"
  shows "[w ! 0 + K ! 0, w ! 1 + K ! 1, w ! 2 + K ! 2, w ! 3 + K ! 3, w ! 4 + K ! 4,
      w ! 5 + K ! 5 + t0, w ! 6 + K ! 6 + t1, w ! 7 + K ! 7] = tf_add w (tf_subkey K [t0, t1] 0)"
proof -
  obtain a b c d e f g h where K: "K = [a, b, c, d, e, f, g, h]" using length_8 [OF assms(1)] by blast
  then show ?thesis by (simp add: tf_add_def tf_subkey_def Let_def add.assoc)
qed

lemma upt_eight:
  "[0..<8 * Suc n] = [0..<8 * n] @ [8 * n, 8 * n + 1, 8 * n + 2, 8 * n + 3, 8 * n + 4, 8 * n + 5, 8 * n + 6, 8 * n + 7]"
proof -
  have "8 * Suc n = 8 * n + 8" by simp
  moreover have "[j..<j + 8] = [j, j + 1, j + 2, j + 3, j + 4, j + 5, j + 6, j + 7]" for j
    by (simp add: upt_rec)
  ultimately show ?thesis by (simp only: upt_add_eq_append [OF le0])
qed

lemma tf_round_row:
  assumes "k < 8"
  shows "tf_round K T (8 * n + k) v = tf_permute (tf_mix (R_512 ! k)
    (if k mod 4 = 0 then tf_add v (tf_subkey K T (2 * n + k div 4)) else v))"
proof -
  have "(8 * n + k) mod 8 = k" "(8 * n + k) mod 4 = k mod 4" "(8 * n + k) div 4 = 2 * n + k div 4"
  proof -
    have e: "8 * n + k = k + 4 * (2 * n)" by simp
    show "(8 * n + k) mod 8 = k" using assms by simp
    show "(8 * n + k) mod 4 = k mod 4" unfolding e by (rule mod_mult_self2)
    show "(8 * n + k) div 4 = 2 * n + k div 4" unfolding e by (subst div_mult_self2) simp_all
  qed
  then show ?thesis by (simp only: tf_round_def Let_def rotations_code)
qed

lemma fold_eight_step:
  "fold (tf_round K T) [8 * n, 8 * n + 1, 8 * n + 2, 8 * n + 3, 8 * n + 4, 8 * n + 5, 8 * n + 6, 8 * n + 7] v =
   tf_four 4 (tf_add (tf_four 0 (tf_add v (tf_subkey K T (2 * n)))) (tf_subkey K T (2 * n + 1)))"
proof -
  have "tf_round K T (8 * n) v = tf_permute (tf_mix (R_512 ! 0) (tf_add v (tf_subkey K T (2 * n))))"
    "tf_round K T (8 * n + 4) v = tf_permute (tf_mix (R_512 ! 4) (tf_add v (tf_subkey K T (2 * n + 1))))" for v
    using tf_round_row [of 0 K T n v] tf_round_row [of 4 K T n v] by simp_all
  moreover have "tf_round K T (8 * n + k) v = tf_permute (tf_mix (R_512 ! k) v)" if "k \<in> {1, 2, 3, 5, 6, 7}" for k v
    using tf_round_row [of k K T n v] that by auto
  moreover have "1 \<in> {1, 2, 3, 5, 6, 7 :: nat}" "2 \<in> {1, 2, 3, 5, 6, 7 :: nat}" "3 \<in> {1, 2, 3, 5, 6, 7 :: nat}"
    "5 \<in> {1, 2, 3, 5, 6, 7 :: nat}" "6 \<in> {1, 2, 3, 5, 6, 7 :: nat}" "7 \<in> {1, 2, 3, 5, 6, 7 :: nat}" by simp_all
  moreover have "(0 :: nat) + 1 = 1" "(0 :: nat) + 2 = 2" "(0 :: nat) + 3 = 3" "(4 :: nat) + 1 = 5" "(4 :: nat) + 2 = 6" "(4 :: nat) + 3 = 7"
    by simp_all
  ultimately show ?thesis
    by (simp only: tf_four_def fold_simps)
qed

lemma fold_eight:
  "fold (tf_round K T) [0..<8 * n] P =
   fold (\<lambda>R v. tf_four 4 (tf_add (tf_four 0 (tf_add v (tf_subkey K T (2 * R)))) (tf_subkey K T (2 * R + 1)))) [0..<n] P"
proof (induction n)
  case (Suc n)
  show ?case
    unfolding upt_eight fold_append comp_def fold_eight_step Suc.IH by simp
qed simp

lemma rounds_threefish:
  assumes "length K = 8" and "ks = K @ [K ! 0 XOR K ! 1 XOR K ! 2 XOR K ! 3 XOR K ! 4 XOR K ! 5 XOR K ! 6 XOR K ! 7 XOR SKEIN_KS_PARITY]"
    and "ts = [t0, t1, t0 XOR t1]"
  shows "fold (R512_8_rounds ks ts) [0..<9] (tf_add w (tf_subkey K [t0, t1] 0)) = threefish_512 K [t0, t1] w"
proof -
  have step: "R512_8_rounds ks ts R (tf_add v k) =
      tf_add (tf_four 4 (tf_add (tf_four 0 (tf_add v k)) (tf_subkey K [t0, t1] (2 * R + 1)))) (tf_subkey K [t0, t1] (2 * R + 2))" for R v k
  proof -
    have l: "length (tf_add v k) = 8" "(3 :: nat) < 8" by simp_all
    show ?thesis
      unfolding R512_8_rounds_def Let_def four_rounds_0 [OF l] I512_subkey [OF assms] four_rounds_4 [OF length_tf(2)]
      by simp
  qed
  have "fold (R512_8_rounds ks ts) [0..<n] (tf_add w (tf_subkey K [t0, t1] 0)) =
      tf_add (fold (tf_round K [t0, t1]) [0..<8 * n] w) (tf_subkey K [t0, t1] (2 * n))" for n
    unfolding fold_eight by (induction n) (simp_all add: step)
  from this [of 9] show ?thesis by (simp add: threefish_512_def)
qed

text \<open>One block of the code is Threefish, keyed with the chaining value, fed forward.\<close>

lemma block_threefish:
  assumes "length X = 8" and "ts = [t0, t1]"
  shows "Skein_512_block X ts b k =
    (map (\<lambda>i. threefish_512 X [t0 + of_nat k, t1] (Skein_Get64_LSB_First b 8) ! i XOR Skein_Get64_LSB_First b 8 ! i) [0..<8],
     [t0 + of_nat k, t1 AND NOT SKEIN_T1_FLAG_FIRST])"
proof -
  let ?ks = "X @ [X ! 0 XOR X ! 1 XOR X ! 2 XOR X ! 3 XOR X ! 4 XOR X ! 5 XOR X ! 6 XOR X ! 7 XOR SKEIN_KS_PARITY]"
  let ?w = "Skein_Get64_LSB_First b 8"
  let ?V = "tf_add ?w (tf_subkey X [t0 + of_nat k, t1] 0)"
  have k: "?ks ! 0 = X ! 0" "?ks ! 1 = X ! 1" "?ks ! 2 = X ! 2" "?ks ! 3 = X ! 3" "?ks ! 4 = X ! 4" "?ks ! 5 = X ! 5"
    "?ks ! 6 = X ! 6" "?ks ! 7 = X ! 7" using assms(1) by (simp_all add: nth_append)
  have V: "[?w ! 0 + ?ks ! 0, ?w ! 1 + ?ks ! 1, ?w ! 2 + ?ks ! 2, ?w ! 3 + ?ks ! 3, ?w ! 4 + ?ks ! 4,
      ?w ! 5 + ?ks ! 5 + (t0 + of_nat k), ?w ! 6 + ?ks ! 6 + t1, ?w ! 7 + ?ks ! 7] = ?V"
    unfolding k by (rule first_injection [OF assms(1)])
  have n: "SKEIN_512_ROUNDS_TOTAL div 8 = 9" by (simp add: SKEIN_512_ROUNDS_TOTAL_def)
  have t: "[t0, t1] ! 0 = t0" "[t0, t1] ! 1 = t1" by simp_all
  show ?thesis
    unfolding Skein_512_block_def Let_def map_nth_id [OF assms(1)] SKEIN_512_STATE_WORDS_def assms(2) n t V
      rounds_threefish [OF assms(1) refl refl] ..
qed

subsection \<open>The update refines the abstract one\<close>

definition skein_wf :: "skein_ctx \<Rightarrow> bool" where
  "skein_wf c \<longleftrightarrow> length (sk_X c) = 8 \<and> length (sk_T c) = 2 \<and> length (sk_b c) = 64 \<and> sk_bCnt c \<le> 64"

definition skein_chain :: "skein_ctx \<Rightarrow> skein_ctx" where
  "skein_chain c = c\<lparr>sk_b := [], sk_bCnt := 0\<rparr>"

definition skein_pend :: "skein_ctx \<Rightarrow> bytes" where
  "skein_pend c = take (sk_bCnt c) (sk_b c)"

definition skein_step :: "skein_ctx \<Rightarrow> bytes \<Rightarrow> skein_ctx" where
  "skein_step c b = Skein_512_Process_Block c b 1 64"

lemma length_block: "length (fst (Skein_512_block X ts b k)) = 8 \<and> length (snd (Skein_512_block X ts b k)) = 2"
  by (simp add: Skein_512_block_def Let_def)

lemma loop_1: "Skein_512_loop X ts b 1 k = Skein_512_block X ts b k"
  by (subst Skein_512_loop.simps) (simp add: case_prod_beta)

lemma loop_Suc: "0 < n \<Longrightarrow> Skein_512_loop X ts b (Suc n) k =
    (case Skein_512_block X ts b k of (X, ts) \<Rightarrow> Skein_512_loop X ts (drop 64 b) n k)"
  by (subst Skein_512_loop.simps) (simp add: case_prod_beta)

lemma length_loop: "length (fst (Skein_512_loop X ts b n k)) = 8 \<and> length (snd (Skein_512_loop X ts b n k)) = 2"
proof (induction n arbitrary: X ts b)
  case 0
  have "Skein_512_loop X ts b 0 k = Skein_512_block X ts b k"
    by (subst Skein_512_loop.simps) (simp add: case_prod_beta)
  then show ?case using length_block by simp
next
  case (Suc n)
  then show ?case
    by (cases "n = 0") (simp_all add: loop_1 [unfolded One_nat_def] length_block loop_Suc case_prod_beta)
qed

lemma process_frame [simp]:
  "sk_b (Skein_512_Process_Block c b n k) = sk_b c" "sk_bCnt (Skein_512_Process_Block c b n k) = sk_bCnt c"
  "sk_hashBitLen (Skein_512_Process_Block c b n k) = sk_hashBitLen c"
  "length (sk_X (Skein_512_Process_Block c b n k)) = 8" "length (sk_T (Skein_512_Process_Block c b n k)) = 2"
  by (simp_all add: Skein_512_Process_Block_def case_prod_beta length_loop)

lemma process_buf [simp]:
  "Skein_512_Process_Block (c\<lparr>sk_b := x\<rparr>) b n k = (Skein_512_Process_Block c b n k)\<lparr>sk_b := x\<rparr>"
  "Skein_512_Process_Block (c\<lparr>sk_bCnt := j\<rparr>) b n k = (Skein_512_Process_Block c b n k)\<lparr>sk_bCnt := j\<rparr>"
  by (simp_all add: Skein_512_Process_Block_def case_prod_beta)

lemma process_1:
  "Skein_512_Process_Block c b 1 k =
    c\<lparr>sk_X := fst (Skein_512_block (sk_X c) (sk_T c) b k), sk_T := snd (Skein_512_block (sk_X c) (sk_T c) b k)\<rparr>"
  unfolding Skein_512_Process_Block_def loop_1 by (simp add: case_prod_beta)

lemma process_Suc:
  "0 < n \<Longrightarrow> Skein_512_Process_Block c b (Suc n) 64 = Skein_512_Process_Block (skein_step c b) (drop 64 b) n 64"
  unfolding skein_step_def process_1 by (simp add: Skein_512_Process_Block_def loop_Suc case_prod_beta)

lemma block_take: "Skein_512_block X ts (take 64 b) k = Skein_512_block X ts b k"
proof -
  have "take 8 (drop (8 * i) (take 64 b)) = take 8 (drop (8 * i) b)" if "i < 8" for i
    using that by (simp add: drop_take min_def)
  then have "Skein_Get64_LSB_First (take 64 b) 8 = Skein_Get64_LSB_First b 8"
    by (auto simp: Skein_Get64_LSB_First_def simp del: upt_rec_numeral)
  then show ?thesis by (simp only: Skein_512_block_def SKEIN_512_STATE_WORDS_def)
qed

lemma skein_step_take: "skein_step c (take 64 b) = skein_step c b"
  by (simp only: skein_step_def process_1 block_take)

lemma skein_chain_frame [simp]:
  "skein_chain (c\<lparr>sk_b := x\<rparr>) = skein_chain c" "skein_chain (c\<lparr>sk_bCnt := n\<rparr>) = skein_chain c"
  by (simp_all add: skein_chain_def)

lemma skein_chain_step: "skein_chain (skein_step c b) = skein_step (skein_chain c) b"
  by (simp add: skein_chain_def skein_step_def)

lemma process_absorb:
  "0 < n \<Longrightarrow> 64 * n < length m \<Longrightarrow> length m \<le> 64 * n + 64 \<Longrightarrow>
   absorb 64 65 skein_step c m = (Skein_512_Process_Block c m n 64, drop (n * 64) m)"
proof (induction n arbitrary: c m)
  case (Suc n)
  have a: "absorb 64 65 skein_step c m = absorb 64 65 skein_step (skein_step c m) (drop 64 m)"
    using Suc.prems by (simp add: absorb_step skein_step_take)
  show ?case
  proof (cases "n = 0")
    case True
    with Suc.prems show ?thesis unfolding a
      by (subst absorb_short) (simp_all add: skein_step_def)
  next
    case False
    with Suc.prems Suc.IH [of "drop 64 m" "skein_step c m"] show ?thesis
      unfolding a by (simp add: process_Suc add.commute)
  qed
qed simp

lemma absorb_skein_wf:
  "skein_wf c \<Longrightarrow> skein_wf (fst (absorb 64 65 skein_step c m)) \<and>
    sk_b (fst (absorb 64 65 skein_step c m)) = sk_b c \<and> sk_bCnt (fst (absorb 64 65 skein_step c m)) = sk_bCnt c"
  using absorb_invariant [of "\<lambda>d. skein_wf d \<and> sk_b d = sk_b c \<and> sk_bCnt d = sk_bCnt c" 64 skein_step 65 c m]
  by (simp add: skein_wf_def skein_step_def)

text \<open>The second half of the update: blocks straight from the message, and the copy of the rest.\<close>

definition skein_rest :: "skein_ctx \<Rightarrow> bytes \<Rightarrow> skein_ctx" where
  "skein_rest c m = (case absorb 64 65 skein_step c m of (c, r) \<Rightarrow>
     if r \<noteq> [] then c\<lparr>sk_b := memcpy_at (sk_b c) 0 r (length r), sk_bCnt := length r\<rparr> else c)"

lemma skein_rest:
  assumes "skein_wf c" and "sk_bCnt c = 0"
  shows "skein_wf (skein_rest c m) \<and>
    (skein_chain (skein_rest c m), skein_pend (skein_rest c m)) = absorb 64 65 skein_step (skein_chain c) m"
proof -
  have "length (snd (absorb 64 65 skein_step c m)) < 65" by (rule length_snd_absorb) simp_all
  moreover have "absorb 64 65 skein_step (skein_chain c) m =
      (skein_chain (fst (absorb 64 65 skein_step c m)), snd (absorb 64 65 skein_step c m))"
    by (rule absorb_map) (rule skein_chain_step)
  ultimately show ?thesis
    using absorb_skein_wf [OF assms(1), of m] assms(2)
    by (auto simp: skein_rest_def case_prod_beta skein_wf_def skein_pend_def memcpy_at_start)
qed

abbreviation skein_upd :: "skein_ctx \<Rightarrow> bytes \<Rightarrow> skein_ctx" where
  "skein_upd c m \<equiv> snd (Skein_512_Update c m (length m))"

lemma skein_direct_copy:
  assumes "sk_bCnt c = 0" and that: "k = length m"
  shows "(case skein_update_direct c m k of (c, m, k) \<Rightarrow> skein_update_copy c m k) = skein_rest c m"
proof (cases "k > 64")
  case True
  define n where "n = (k - 1) div 64"
  have n: "0 < n" "64 * n < length m" "length m \<le> 64 * n + 64"
  proof -
    have "k - 1 = n * 64 + (k - 1) mod 64" "(k - 1) mod 64 < 64" unfolding n_def by simp_all
    then show "0 < n" "64 * n < length m" "length m \<le> 64 * n + 64" using True that by linarith+
  qed
  have r: "k - n * 64 = length (drop (n * 64) m)" using that by simp
  show ?thesis
    unfolding skein_update_direct_def skein_sizes if_P [OF True] n_def [symmetric] Let_def prod.case
      skein_update_copy_def process_frame assms(1) r add_0 skein_rest_def process_absorb [OF n] by simp
next
  case False
  with that assms show ?thesis
    by (simp add: skein_rest_def absorb_short skein_update_direct_def skein_update_copy_def)
qed

lemma skein_upd_short:
  "length m + sk_bCnt c \<le> 64 \<Longrightarrow> skein_upd c m =
    (if m \<noteq> [] then c\<lparr>sk_b := memcpy_at (sk_b c) (sk_bCnt c) m (length m), sk_bCnt := sk_bCnt c + length m\<rparr> else c)"
  by (simp add: Skein_512_Update_def skein_update_copy_def)

lemma skein_upd_long:
  assumes "skein_wf c" and "length m + sk_bCnt c > 64"
  defines "n \<equiv> 64 - sk_bCnt c"
  defines "c1 \<equiv> c\<lparr>sk_b := skein_pend c @ take n m, sk_bCnt := 0\<rparr>"
  shows "skein_upd c m = (if sk_bCnt c = 0 then skein_rest c m
    else skein_rest (skein_step c1 (sk_b c1)) (drop n m))"
proof (cases "sk_bCnt c = 0")
  case True
  then have "skein_update_fill c m (length m) = (c, m, length m)" by (simp add: skein_update_fill_def)
  then show ?thesis
    using skein_direct_copy [OF True refl, of m] assms(2) True
    by (simp add: Skein_512_Update_def case_prod_beta)
next
  case False
  have nm: "n \<le> length m" "sk_bCnt c \<le> 64" "sk_bCnt c + n = 64"
    using assms(1,2) by (simp_all add: skein_wf_def n_def)
  have buf: "memcpy_at (sk_b c) (sk_bCnt c) m n = skein_pend c @ take n m"
    using assms(1) nm by (simp add: skein_wf_def skein_pend_def memcpy_at_def n_def)
  have "skein_update_fill c m (length m) = (skein_step c1 (sk_b c1), drop n m, length (drop n m))"
  proof (cases "n = 0")
    case True
    then have "sk_b c1 = sk_b c" using nm assms(1) by (simp add: c1_def skein_pend_def skein_wf_def)
    with True False show ?thesis
      by (simp add: skein_update_fill_def c1_def skein_step_def flip: n_def)
  next
    case n: False
    with False nm buf show ?thesis
      by (simp add: skein_update_fill_def c1_def skein_step_def flip: n_def)
  qed
  moreover have "sk_bCnt (skein_step c1 (sk_b c1)) = 0" by (simp add: skein_step_def c1_def)
  ultimately show ?thesis
    using skein_direct_copy [OF _ refl, of "skein_step c1 (sk_b c1)" "drop n m"] False assms(2)
    by (simp add: Skein_512_Update_def case_prod_beta)
qed

lemma length_skein_pend [simp]: "skein_wf c \<Longrightarrow> length (skein_pend c) = sk_bCnt c"
  by (simp add: skein_pend_def skein_wf_def)

lemma skein_upd_refines:
  assumes wf: "skein_wf c"
  shows "skein_wf (skein_upd c m) \<and>
    (skein_chain (skein_upd c m), skein_pend (skein_upd c m)) = absorb 64 65 skein_step (skein_chain c) (skein_pend c @ m)"
proof (cases "length m + sk_bCnt c > 64")
  case True
  show ?thesis
  proof (cases "sk_bCnt c = 0")
    case True
    then have "skein_pend c = []" by (simp add: skein_pend_def)
    with True skein_upd_long [OF wf \<open>length m + sk_bCnt c > 64\<close>] skein_rest [OF wf True, of m] show ?thesis by simp
  next
    case False
    define n where "n = 64 - sk_bCnt c"
    define c1 where "c1 = c\<lparr>sk_b := skein_pend c @ take n m, sk_bCnt := 0\<rparr>"
    have n: "sk_bCnt c \<le> 64" "n \<le> length m" using wf True by (simp_all add: n_def skein_wf_def)
    have U: "skein_upd c m = skein_rest (skein_step c1 (sk_b c1)) (drop n m)"
      using skein_upd_long [OF wf True] False by (simp add: n_def c1_def)
    have "skein_wf (skein_step c1 (sk_b c1))" "sk_bCnt (skein_step c1 (sk_b c1)) = 0"
      using wf n by (simp_all add: skein_wf_def skein_step_def c1_def n_def)
    from skein_rest [OF this, of "drop n m"]
    have "skein_wf (skein_upd c m)" "(skein_chain (skein_upd c m), skein_pend (skein_upd c m)) =
        absorb 64 65 skein_step (skein_step (skein_chain c) (skein_pend c @ take n m)) (drop n m)"
      by (simp_all add: U skein_chain_step c1_def)
    moreover have "absorb 64 65 skein_step (skein_chain c) (skein_pend c @ m) =
        absorb 64 65 skein_step (skein_step (skein_chain c) (skein_pend c @ take n m)) (drop n m)"
      using wf True n by (simp add: absorb_step n_def)
    ultimately show ?thesis by simp
  qed
next
  case False
  with wf show ?thesis
    by (auto simp: skein_upd_short absorb_short skein_wf_def skein_pend_def memcpy_at_def)
qed

interpretation skein: stream_hash 64 65 skein_step "\<lambda>c m. skein_upd c m" skein_chain skein_pend skein_wf
  by unfold_locales (simp_all add: skein_upd_refines)

subsection \<open>Skein-512 as published\<close>

text \<open>Threefish fed forward, with the two tweak words, and the flags of the second one.\<close>

definition skein_E :: "u64 list \<Rightarrow> u64 \<Rightarrow> u64 \<Rightarrow> bytes \<Rightarrow> u64 list" where
  "skein_E X t0 t1 b =
     (let w = map (\<lambda>i. le_word (take 8 (drop (8 * i) b))) [0..<8]
      in map (\<lambda>i. threefish_512 X [t0, t1] w ! i XOR w ! i) [0..<8])"

definition ubi_flags :: "u64 \<Rightarrow> bool \<Rightarrow> bool \<Rightarrow> bool \<Rightarrow> u64" where
  "ubi_flags ty first final pad =
     push_bit 56 ty OR (if first then push_bit 62 1 else 0) OR (if final then push_bit 63 1 else 0) OR
     (if pad then push_bit 55 1 else 0)"

text \<open>Unique block iteration: a message of type \<open>ty\<close>, after \<open>pos\<close> bytes.\<close>

fun ubi :: "u64 \<Rightarrow> bool \<Rightarrow> u64 list \<Rightarrow> nat \<Rightarrow> bool \<Rightarrow> bytes \<Rightarrow> u64 list" where
  "ubi ty pad X pos first m =
     (if length m > 64
      then ubi ty pad (skein_E X (of_nat (pos + 64)) (ubi_flags ty first False False) (take 64 m)) (pos + 64) False (drop 64 m)
      else skein_E X (of_nat (pos + length m)) (ubi_flags ty first True pad) (m @ replicate (64 - length m) 0))"

declare ubi.simps [simp del]

text \<open>
  The chaining value that depends only on the output length: the hash of the configuration string with the schema
  identifier and version 1, the output length and no tree.
\<close>

definition skein_iv :: "nat \<Rightarrow> u64 list" where
  "skein_iv bits = ubi 4 False (replicate 8 0) 0 True
     (le_bytes 8 (0x0000000133414853 :: u64) @ le_bytes 8 (of_nat bits :: u64) @ replicate 16 0)"

text \<open>The output function: the chaining value hashes counters.\<close>

definition skein_out :: "u64 list \<Rightarrow> nat \<Rightarrow> bytes" where
  "skein_out X n =
     take n (concat (map (\<lambda>i. concat (map (le_bytes 8) (ubi 63 False X 0 True (le_bytes 8 (of_nat i :: u64))))) [0..<(n + 63) div 64]))"

definition skein_512_spec :: "nat \<Rightarrow> bool \<Rightarrow> bytes \<Rightarrow> bytes" where
  "skein_512_spec bits pad m = skein_out (ubi 48 pad (skein_iv bits) 0 True m) ((bits + 7) div 8)"

text \<open>A message of \<open>8 n + k\<close> bits, \<open>0 < k < 8\<close>, is padded in its last byte.\<close>

definition skein_pad_bits :: "bytes \<Rightarrow> nat \<Rightarrow> bytes" where
  "skein_pad_bits d bits =
     (if bits mod 8 = 0 then take (bits div 8) d
      else take (bits div 8) d @ [(d ! (bits div 8) AND NOT (mask (8 - bits mod 8))) OR push_bit (7 - bits mod 8) 1])"

subsection \<open>The code is Skein-512\<close>

lemma block_E:
  assumes "length X = 8" and "ts = [t0, t1]"
  shows "Skein_512_block X ts b k = (skein_E X (t0 + of_nat k) t1 b, [t0 + of_nat k, t1 AND NOT SKEIN_T1_FLAG_FIRST])"
  unfolding block_threefish [OF assms] skein_E_def Skein_Get64_LSB_First_def Let_def ..

definition skein_after :: "skein_ctx \<Rightarrow> u64 list \<Rightarrow> nat \<Rightarrow> bool \<Rightarrow> bool" where
  "skein_after c X pos first \<longleftrightarrow> sk_X c = X \<and> length X = 8 \<and> sk_T c = [of_nat pos, ubi_flags 48 first False False]"

lemma flags_code:
  "SKEIN_T1_FLAG_FIRST OR SKEIN_T1_BLK_TYPE_MSG = ubi_flags 48 True False False"
  "ubi_flags 48 first False False AND NOT SKEIN_T1_FLAG_FIRST = ubi_flags 48 False False False"
  "ubi_flags 48 first False False OR SKEIN_T1_FLAG_BIT_PAD OR SKEIN_T1_FLAG_FINAL = ubi_flags 48 first True True"
  "ubi_flags 48 first False False OR SKEIN_T1_FLAG_FINAL = ubi_flags 48 first True False"
  "SKEIN_T1_FLAG_FIRST OR SKEIN_T1_BLK_TYPE_OUT_FINAL = ubi_flags 63 True True False"
  "SKEIN_T1_FLAG_FIRST OR SKEIN_T1_BLK_TYPE_CFG_FINAL = ubi_flags 4 True True False"
  by (cases first; simp add: ubi_flags_def SKEIN_T1_FLAG_FIRST_def SKEIN_T1_FLAG_FINAL_def SKEIN_T1_FLAG_BIT_PAD_def
      SKEIN_T1_BLK_TYPE_def SKEIN_T1_BLK_TYPE_MSG_def SKEIN_T1_BLK_TYPE_OUT_FINAL_def SKEIN_T1_BLK_TYPE_CFG_FINAL_def
      SKEIN_BLK_TYPE_MSG_def SKEIN_BLK_TYPE_OUT_def SKEIN_BLK_TYPE_CFG_def SKEIN_T1_POS_BLK_TYPE_def SKEIN_T1_POS_FIRST_def
      SKEIN_T1_POS_FINAL_def SKEIN_T1_POS_BIT_PAD_def SKEIN_T1_BIT_def)+

lemma step_ubi:
  assumes "skein_after c X pos first"
  shows "skein_after (skein_step c b) (skein_E X (of_nat (pos + 64)) (ubi_flags 48 first False False) b) (pos + 64) False"
proof -
  have "Skein_512_block (sk_X c) (sk_T c) b 64 = (skein_E X (of_nat (pos + 64)) (ubi_flags 48 first False False) b,
      [of_nat (pos + 64), ubi_flags 48 False False False])"
    using assms block_E [of X "sk_T c" "of_nat pos" "ubi_flags 48 first False False" b 64]
    by (simp add: skein_after_def flags_code)
  moreover have "length (skein_E X t0 t1 b) = 8" for t0 t1 by (simp add: skein_E_def Let_def)
  ultimately show ?thesis by (simp add: skein_after_def skein_step_def process_1 [unfolded One_nat_def])
qed

lemma absorb_ubi:
  assumes "skein_after c X pos first"
  shows "\<exists>X' pos' first'. skein_after (fst (absorb 64 65 skein_step c m)) X' pos' first' \<and>
    length (snd (absorb 64 65 skein_step c m)) \<le> 64 \<and>
    (\<forall>pad. ubi 48 pad X pos first m = ubi 48 pad X' pos' first' (snd (absorb 64 65 skein_step c m)))"
  using assms
proof (induction "length m" arbitrary: c X pos first m rule: less_induct)
  case less
  show ?case
  proof (cases "65 \<le> length m")
    case True
    have s: "skein_after (skein_step c (take 64 m)) (skein_E X (of_nat (pos + 64)) (ubi_flags 48 first False False) (take 64 m)) (pos + 64) False"
      by (rule step_ubi [OF less.prems])
    have l: "length (drop 64 m) < length m" using True by simp
    have u: "ubi 48 pad X pos first m =
        ubi 48 pad (skein_E X (of_nat (pos + 64)) (ubi_flags 48 first False False) (take 64 m)) (pos + 64) False (drop 64 m)" for pad
      using True by (subst ubi.simps) simp
    show ?thesis
      using less.hyps [OF l s] True by (simp only: absorb_step [of 64 65] u)
  next
    case False
    with less.prems show ?thesis by (intro exI [of _ X] exI [of _ pos] exI [of _ first]) (simp add: absorb_short)
  qed
qed

end
