(* ===== verification/Skein_Iv.thy ===== *)
theory Skein_Iv
  imports Skein_Spec
begin

text \<open>
  The table of the code for 256 bits of output is the chaining value of the Skein paper, computed from the configuration
  string: \<open>skein_iv_256\<close>.
\<close>

subsection \<open>Words as reduced numbers\<close>

definition wi :: "int \<Rightarrow> u64" where
  "wi = word_of_int"

definition roti :: "nat \<Rightarrow> int \<Rightarrow> int" where
  "roti n a = (let q = a div 2 ^ (64 - n) in (a - q * 2 ^ (64 - n)) * 2 ^ n + q)"

lemma wi_mod: "wi (a mod 18446744073709551616) = wi a"
  by (simp add: wi_def word_of_int_eq_iff take_bit_eq_mod)

lemma wi_add: "wi a + wi b = wi ((a + b) mod 18446744073709551616)"
  unfolding wi_mod by (simp add: wi_def)

lemma wi_xor: "wi a XOR wi b = wi (a XOR b)"
  by (rule bit_word_eqI) (simp add: wi_def bit_simps)

lemma wi_numeral: "(numeral n :: u64) = wi (numeral n)" "(1 :: u64) = wi 1" "(0 :: u64) = wi 0"
  by (simp_all add: wi_def)

lemma wi_rot:
  assumes "0 < n" "n < 64" "0 \<le> a" "a < 18446744073709551616"
  shows "word_rotl n (wi a) = wi (roti n a)"
proof -
  define q r where "q = a div 2 ^ (64 - n)" and "r = a mod 2 ^ (64 - n)"
  have a: "a = r + q * 2 ^ (64 - n)" unfolding q_def r_def by (rule mod_div_mult_eq [symmetric])
  have "a < 2 ^ n * 2 ^ (64 - n)" using assms by (simp flip: power_add)
  moreover have "q * 2 ^ (64 - n) \<le> a" using a pos_mod_sign [of "2 ^ (64 - n)" a] unfolding r_def [symmetric] by simp
  ultimately have "q * 2 ^ (64 - n) < 2 ^ n * 2 ^ (64 - n)" by linarith
  then have "q < 2 ^ n" by simp
  moreover have "0 \<le> q" using assms(3) by (simp add: q_def pos_imp_zdiv_nonneg_iff)
  ultimately have q: "take_bit n q = q" by (simp add: take_bit_int_eq_self)
  have t: "take_bit 64 a = a" using assms(3,4) by (simp add: take_bit_int_eq_self)
  have "roti n a = q + push_bit n r"
    using a by (simp add: roti_def Let_def push_bit_eq_mult flip: q_def) (simp add: minus_mod_eq_div_mult [symmetric] r_def q_def)
  also have "\<dots> = concat_bit n q r" by (simp add: concat_bit_eq q)
  finally have e: "roti n a = concat_bit n q r" .
  show ?thesis
    unfolding RotL_64_rotl [OF assms(1,2), symmetric]
  proof (rule bit_word_eqI)
    fix i assume "i < LENGTH(64)"
    then have i: "i < 64" by simp
    define m where "m = 64 - n"
    with assms(1,2) have m: "64 - n = m" "n = 64 - m" "m < 64" "0 < m" by simp_all
    have qb: "bit q k = bit a (m + k)" for k
      unfolding q_def m(1) by (simp add: bit_simps add.commute flip: drop_bit_eq_div)
    have rb: "bit r k = (k < m \<and> bit a k)" for k
      unfolding r_def m(1) by (simp add: bit_simps flip: take_bit_eq_mod)
    have top: "\<not> bit a k" if "64 \<le> k" for k
      using t that by (metis bit_take_bit_iff not_le)
    show "bit (RotL_64 (wi a) n) i = bit (wi (roti n a)) i"
      using i m(3,4) top [of "m + i"] unfolding e RotL_64_def wi_def m(1) unfolding m(2)
      by (cases "i < 64 - m"; cases "64 \<le> i + m") (auto simp: bit_simps bit_concat_bit_iff qb rb add.commute)
  qed
qed

subsection \<open>The computation\<close>

lemma wi_unit: "wi 0 + x = x" "x + wi 0 = x" "wi 0 XOR x = x" "x XOR wi 0 = x"
  by (simp_all add: wi_def)

lemma wi_mixed:
  "wi a + numeral n = wi ((a + numeral n) mod 18446744073709551616)" "numeral n + wi a = wi ((numeral n + a) mod 18446744073709551616)"
  "wi a + 1 = wi ((a + 1) mod 18446744073709551616)" "wi a XOR numeral n = wi (a XOR numeral n)"
  using wi_add [of a "numeral n"] wi_add [of "numeral n" a] wi_add [of a 1] wi_xor [of a "numeral n"] by (simp_all add: wi_numeral)

lemmas wi_compute = wi_add wi_xor wi_rot wi_unit wi_mixed roti_def
  tf_round_def tf_mix_def tf_add_def tf_permute_def tf_subkey_def tf_rotations_def

definition config_rounds :: "nat list \<Rightarrow> u64 list \<Rightarrow> u64 list" where
  "config_rounds = fold (tf_round (replicate 8 0) [wi 32, wi 14123288431433875456])"

lemma zeros: "replicate 8 (0 :: u64) = [wi 0, wi 0, wi 0, wi 0, wi 0, wi 0, wi 0, wi 0]"
  by (simp add: wi_def numeral_eq_Suc)

lemma config_1:
  "config_rounds [0, 1, 2, 3, 4, 5, 6, 7, 8, 9, 10, 11, 12, 13, 14, 15, 16, 17]
     [wi 5154883667, wi 256, wi 0, wi 0,
      wi 0, wi 0, wi 0, wi 0] =
     [wi 3578917821795534492, wi 2247771924370174542, wi 6827734821210596098, wi 9426336548680248325,
      wi 12038840838425010412, wi 258051653278931467, wi 1758798064525409592, wi 5485645173262300218]"
  unfolding config_rounds_def zeros by (simp add: wi_compute)

lemma config_2:
  "config_rounds [18, 19, 20, 21, 22, 23, 24, 25, 26, 27, 28, 29, 30, 31, 32, 33, 34, 35]
     [wi 3578917821795534492, wi 2247771924370174542, wi 6827734821210596098, wi 9426336548680248325,
      wi 12038840838425010412, wi 258051653278931467, wi 1758798064525409592, wi 5485645173262300218] =
     [wi 9629068337239565704, wi 13249308817783264923, wi 1145796941127888862, wi 8489788065224588812,
      wi 7436856141557285494, wi 1165840143753010539, wi 16347815032773080432, wi 1344527640622482121]"
  unfolding config_rounds_def zeros by (simp add: wi_compute)

lemma config_3:
  "config_rounds [36, 37, 38, 39, 40, 41, 42, 43, 44, 45, 46, 47, 48, 49, 50, 51, 52, 53]
     [wi 9629068337239565704, wi 13249308817783264923, wi 1145796941127888862, wi 8489788065224588812,
      wi 7436856141557285494, wi 1165840143753010539, wi 16347815032773080432, wi 1344527640622482121] =
     [wi 12765651831828971921, wi 16988422972830276886, wi 6476225259272825805, wi 9895561304965648340,
      wi 14365086091860755257, wi 504302814854880127, wi 6874404036151407692, wi 13386903069202579254]"
  unfolding config_rounds_def zeros by (simp add: wi_compute)

lemma config_4:
  "config_rounds [54, 55, 56, 57, 58, 59, 60, 61, 62, 63, 64, 65, 66, 67, 68, 69, 70, 71]
     [wi 12765651831828971921, wi 16988422972830276886, wi 6476225259272825805, wi 9895561304965648340,
      wi 14365086091860755257, wi 504302814854880127, wi 6874404036151407692, wi 13386903069202579254] =
     [wi 14758371433358456384, wi 16732438526841956587, wi 6174048478977683055, wi 3037510430686418139,
      wi 17007283647522109059, wi 16691526376334058033, wi 18406135781656285573, wi 4534485012945173505]"
  unfolding config_rounds_def zeros by (simp add: wi_compute)

lemma config_threefish:
  "threefish_512 (replicate 8 0) [wi 32, wi 14123288431433875456]
     [wi 5154883667, wi 256, wi 0, wi 0, wi 0, wi 0, wi 0, wi 0] =
   [wi 14758371433358456384, wi 16732438526841956587, wi 6174048478977683055, wi 3037510430686418139,
    wi 17007283647522109059, wi 16691526376334058065, wi 14082680139380609413, wi 4534485012945173523]"
proof -
  have u:
    "[0..<18] = [0, 1, 2, 3, 4, 5, 6, 7, 8, 9, 10, 11, 12, 13, 14, 15, 16, 17]"
    "[18..<36] = [18, 19, 20, 21, 22, 23, 24, 25, 26, 27, 28, 29, 30, 31, 32, 33, 34, 35]"
    "[36..<54] = [36, 37, 38, 39, 40, 41, 42, 43, 44, 45, 46, 47, 48, 49, 50, 51, 52, 53]"
    "[54..<72] = [54, 55, 56, 57, 58, 59, 60, 61, 62, 63, 64, 65, 66, 67, 68, 69, 70, 71]"
    by (simp_all add: upt_rec)
  have "[0..<72] = [0..<18] @ [18..<36] @ [36..<54] @ [54..<72 :: nat]"
    unfolding u by (simp add: upt_rec)
  then have "fold (tf_round (replicate 8 0) [wi 32, wi 14123288431433875456]) [0..<72] v =
      config_rounds [54, 55, 56, 57, 58, 59, 60, 61, 62, 63, 64, 65, 66, 67, 68, 69, 70, 71] (config_rounds [36, 37, 38, 39, 40, 41, 42, 43, 44, 45, 46, 47, 48, 49, 50, 51, 52, 53]
        (config_rounds [18, 19, 20, 21, 22, 23, 24, 25, 26, 27, 28, 29, 30, 31, 32, 33, 34, 35] (config_rounds [0, 1, 2, 3, 4, 5, 6, 7, 8, 9, 10, 11, 12, 13, 14, 15, 16, 17] v)))" for v
    by (simp only: u config_rounds_def fold_append comp_apply)
  then show ?thesis
    unfolding threefish_512_def by (simp only: config_1 config_2 config_3 config_4) (simp add: zeros wi_compute)
qed

lemma word_of_zeros: "le_word (replicate n 0) = (0 :: u64)"
  by (induction n) simp_all

lemma config_words:
  fixes a b :: u64
  shows "map (\<lambda>i. le_word (take 8 (drop (8 * i) (le_bytes 8 a @ le_bytes 8 b @ replicate 48 0)))) [0..<8] = [a, b, 0, 0, 0, 0, 0, 0]"
  by (simp add: upt_rec word_of_zeros le_word_le_bytes)

lemma skein_iv_config:
  "skein_iv 256 = skein_E (replicate 8 0) (wi 32) (wi 14123288431433875456)
     (le_bytes 8 (0x0000000133414853 :: u64) @ le_bytes 8 (256 :: u64) @ replicate 48 0)"
proof -
  have f: "ubi_flags 4 True True False = wi 14123288431433875456"
    by (simp add: ubi_flags_def wi_def)
  have z: "replicate 16 (0 :: u8) @ replicate 32 0 = replicate 48 0"
    by (simp flip: replicate_add)
  show ?thesis
    unfolding skein_iv_def f [symmetric] by (simp add: ubi.simps [of 4] z wi_def)
qed

lemma skein_iv_256: "skein_iv 256 = SKEIN_512_IV_256"
proof -
  have w: "[wi 5154883667, wi 256, wi 0, wi 0, wi 0, wi 0, wi 0, wi 0] = [0x133414853, 256, 0, 0, 0, 0, 0, 0]"
    by (simp add: wi_def)
  have i: "[0..<8] = [0, 1, 2, 3, 4, 5, 6, 7 :: nat]" by (simp add: upt_rec)
  have "skein_iv 256 = map (\<lambda>i. [wi 14758371433358456384, wi 16732438526841956587, wi 6174048478977683055, wi 3037510430686418139,
    wi 17007283647522109059, wi 16691526376334058065, wi 14082680139380609413, wi 4534485012945173523] ! i XOR [0x133414853, 256, 0, 0, 0, 0, 0, 0] ! i) [0..<8]"
    unfolding skein_iv_config skein_E_def config_words Let_def config_threefish [unfolded w] ..
  also have "\<dots> = SKEIN_512_IV_256"
    unfolding i by (simp add: SKEIN_512_IV_256_def SKEIN_MK_64_def wi_def)
  finally show ?thesis .
qed

end
