(* ===== verification/Skein_Hash.thy ===== *)
theory Skein_Hash
  imports Skein_Iv
begin

text \<open>
  Initialisation, update, finalisation and the bit-oriented interface of \<open>Skein\<close> put together:
  \<open>skein_hash\<close> and \<open>xmr_skein\<close> are Skein-512, for whole bytes and for a last partial byte, and the
  message may be given to \<open>Skein_512_Update\<close> in pieces.
\<close>

subsection \<open>Finalisation\<close>

lemma length_skein_E [len_simps, simp]: "length (skein_E X t0 t1 b) = 8"
  by (simp add: skein_E_def Let_def)

lemma ubi_short:
  "length m \<le> 64 \<Longrightarrow>
   ubi ty pad X pos first m = skein_E X (of_nat (pos + length m)) (ubi_flags ty first True pad) (m @ replicate (64 - length m) 0)"
  by (subst ubi.simps) simp

text \<open>A context that is ready for the last block of a message.\<close>

definition skein_ready :: "skein_ctx \<Rightarrow> u64 list \<Rightarrow> nat \<Rightarrow> bool \<Rightarrow> bool \<Rightarrow> bool" where
  "skein_ready c X pos first pad \<longleftrightarrow>
     skein_wf c \<and> sk_X c = X \<and> length X = 8 \<and> sk_T c = [of_nat pos, ubi_flags 48 first False pad]"

definition skein_ctr_block :: "u64 list \<Rightarrow> nat \<Rightarrow> bytes" where
  "skein_ctr_block X i = concat (map (le_bytes 8) (ubi 63 False X 0 True (le_bytes 8 (of_nat i :: u64))))"

lemma length_ctr_block [simp]: "length (skein_ctr_block X i) = 64"
  by (simp add: skein_ctr_block_def ubi_short concat_const_length [where n = 8])

lemma counter_block:
  fixes i :: nat
  assumes "length X = 8" and "sk_X ctx = X" and "drop 8 (sk_b ctx) = replicate 56 0"
  defines "c1 \<equiv> Skein_Start_New_Type (ctx\<lparr>sk_b := memcpy_at (sk_b ctx) 0 (le_bytes 8 (Skein_Swap64 (of_nat i))) 8\<rparr>)
      SKEIN_T1_BLK_TYPE_OUT_FINAL"
  defines "c2 \<equiv> Skein_512_Process_Block c1 (sk_b c1) 1 8"
  shows "sk_X c2 = ubi 63 False X 0 True (le_bytes 8 (of_nat i :: u64))" and "drop 8 (sk_b c2) = replicate 56 0"
proof -
  have b: "sk_b c1 = le_bytes 8 (of_nat i :: u64) @ replicate 56 0" and X: "sk_X c1 = X"
    and T: "sk_T c1 = [0, ubi_flags 63 True True False]"
    using assms(2,3) by (simp_all add: c1_def Skein_Start_New_Type_def memcpy_at_start Skein_Swap64_def flags_code)
  have "Skein_512_block X [0, ubi_flags 63 True True False] (sk_b c1) 8 =
      (skein_E X (0 + of_nat 8) (ubi_flags 63 True True False) (sk_b c1),
       [0 + of_nat 8, ubi_flags 63 True True False AND NOT SKEIN_T1_FLAG_FIRST])"
    by (rule block_E [OF assms(1) refl])
  then show "sk_X c2 = ubi 63 False X 0 True (le_bytes 8 (of_nat i :: u64))"
    by (simp add: c2_def process_1 [unfolded One_nat_def] b X T ubi_short)
  show "drop 8 (sk_b c2) = replicate 56 0"
    by (simp add: c2_def process_1 [unfolded One_nat_def] b)
qed

lemma output_loop:
  assumes "length X = 8" and "sk_X ctx = X" and "drop 8 (sk_b ctx) = replicate 56 0"
    and "n \<le> length out"
  shows "snd (skein_output_loop X n i ctx out) =
    take (64 * i) out @ take (n - 64 * i) (concat (map (skein_ctr_block X) [i..<(n + 63) div 64])) @ drop (max n (64 * i)) out"
  using assms
proof (induction X n i ctx out rule: skein_output_loop.induct)
  case (1 X n i ctx out)
  show ?case
  proof (cases "i * 64 < n")
    case False
    then have "(n + 63) div 64 \<le> i" by (simp add: less_mult_imp_div_less mult.commute Suc_leI flip: less_Suc_eq_le)
    with False show ?thesis by (subst skein_output_loop.simps) (simp add: mult.commute max_def)
  next
    case True
    define c1 where "c1 = Skein_Start_New_Type (ctx\<lparr>sk_b := memcpy_at (sk_b ctx) 0 (le_bytes 8 (Skein_Swap64 (of_nat i))) 8\<rparr>)
      SKEIN_T1_BLK_TYPE_OUT_FINAL"
    define c2 where "c2 = Skein_512_Process_Block c1 (sk_b c1) 1 8"
    define k where "k = (if n - i * 64 \<ge> 64 then 64 else n - i * 64)"
    define out' where "out' = memcpy_at out (i * 64) (Skein_Put64_LSB_First (sk_X c2) k) k"
    note cb = counter_block [OF "1.prems"(1-3), of i, folded c1_def, folded c2_def]
    have P: "Skein_Put64_LSB_First (sk_X c2) k = take k (skein_ctr_block X i)"
      by (simp add: Skein_Put64_LSB_First_def cb skein_ctr_block_def)
    have k: "k \<le> 64" "i * 64 + k \<le> n" using True by (auto simp: k_def)
    have out': "out' = take (64 * i) out @ take k (skein_ctr_block X i) @ drop (64 * i + k) out"
      by (simp add: out'_def memcpy_at_def P mult.commute)
    have step: "skein_output_loop X n i ctx out = skein_output_loop X n (i + 1) (c2\<lparr>sk_X := X\<rparr>) out'"
      using True by (subst skein_output_loop.simps) (simp add: Let_def c1_def c2_def k_def out'_def)
    have IH: "snd (skein_output_loop X n (i + 1) (c2\<lparr>sk_X := X\<rparr>) out') =
        take (64 * (i + 1)) out' @ take (n - 64 * (i + 1)) (concat (map (skein_ctr_block X) [i + 1..<(n + 63) div 64])) @
        drop (max n (64 * (i + 1))) out'"
    proof (rule "1.IH")
      show "n \<le> length out'" using "1.prems"(4) k by (simp add: out' min_absorb2)
    qed (use True "1.prems" cb in \<open>auto simp: c1_def c2_def k_def out'_def\<close>)
    have lt: "i < (n + 63) div 64" using True by linarith
    then have u: "[i..<(n + 63) div 64] = i # [i + 1..<(n + 63) div 64]" by (simp add: upt_conv_Cons)
    show ?thesis
    proof (cases "n - i * 64 \<ge> 64")
      case True
      then have "k = 64" by (simp add: k_def)
      with "1.prems"(4) k show ?thesis
        unfolding step IH u
        by (cases "n = 64 + 64 * i") (simp_all add: out' min_def max_def mult.commute add.commute)
    next
      case False
      then have kn: "k = n - i * 64" "(n + 63) div 64 \<le> i + 1" using True by (simp_all add: k_def)
      have m: "max n (64 * (i + 1)) = 64 * (i + 1)" "n - 64 * (i + 1) = 0" using False by simp_all
      have "snd (skein_output_loop X n i ctx out) = out'"
        unfolding step IH m take_0 append_Nil by (rule append_take_drop_id)
      with "1.prems"(4) k kn True show ?thesis
        unfolding u by (simp add: out' mult.commute)
    qed
  qed
qed


text \<open>The number of output bytes, and the last block with the output.\<close>

lemma Final_spec:
  assumes "skein_ready c X pos first pad"
  defines "n \<equiv> ((sk_hashBitLen c + 7) mod 2 ^ 64) div 8"
  assumes "n \<le> length out"
  shows "snd (snd (Skein_512_Final c out)) = skein_out (ubi 48 pad X pos first (skein_pend c)) n @ drop n out"
proof -
  define c1 where "c1 = c\<lparr>sk_T := (sk_T c)[1 := sk_T c ! 1 OR SKEIN_T1_FLAG_FINAL]\<rparr>"
  define c2 where "c2 = (if sk_bCnt c1 < 64 then c1\<lparr>sk_b := memset_at (sk_b c1) (sk_bCnt c1) 0 (64 - sk_bCnt c1)\<rparr> else c1)"
  define c3 where "c3 = Skein_512_Process_Block c2 (sk_b c2) 1 (sk_bCnt c2)"
  define c4 where "c4 = c3\<lparr>sk_b := memset_at (sk_b c3) 0 0 64\<rparr>"
  define U where "U = ubi 48 pad X pos first (skein_pend c)"
  have wf: "skein_wf c" "length X = 8" using assms(1) by (simp_all add: skein_ready_def)
  then have wf': "sk_bCnt c \<le> 64" "length (sk_b c) = 64" by (simp_all add: skein_wf_def)
  have "ubi_flags 48 first False pad OR SKEIN_T1_FLAG_FINAL = ubi_flags 48 first True pad"
    by (cases pad; cases first; simp add: ubi_flags_def SKEIN_T1_FLAG_FINAL_def SKEIN_T1_POS_FINAL_def SKEIN_T1_BIT_def)
  then have T: "sk_T c1 = [of_nat pos, ubi_flags 48 first True pad]"
    using assms(1) by (simp add: c1_def skein_ready_def)
  have f2: "sk_T c2 = sk_T c1" "sk_X c2 = X" "sk_bCnt c2 = sk_bCnt c" "sk_hashBitLen c2 = sk_hashBitLen c"
    using assms(1) by (simp_all add: c2_def c1_def skein_ready_def)
  have b2: "sk_b c2 = skein_pend c @ replicate (64 - sk_bCnt c) 0"
    using wf' by (simp add: c2_def c1_def memset_at_def skein_pend_def)
  have "length (skein_pend c) = sk_bCnt c" using wf by simp
  then have "sk_X c3 = U"
    using wf' block_E [OF wf(2) T, of "sk_b c2" "sk_bCnt c"]
    by (simp add: c3_def process_1 [unfolded One_nat_def] f2 U_def ubi_short b2)
  moreover have "sk_b c3 = sk_b c2" "sk_hashBitLen c3 = sk_hashBitLen c"
    by (simp_all add: c3_def process_1 [unfolded One_nat_def] f2)
  ultimately have c4: "sk_X c4 = U" "drop 8 (sk_b c4) = replicate 56 0" "sk_hashBitLen c4 = sk_hashBitLen c"
    using wf' \<open>length (skein_pend c) = sk_bCnt c\<close> by (simp_all add: c4_def memset_at_def b2)
  have "length U = 8" using wf' \<open>length (skein_pend c) = sk_bCnt c\<close> by (simp add: U_def ubi_short)
  then have "snd (skein_output_loop U n 0 c4 out) = skein_out U n @ drop n out"
    using output_loop [of U c4 n out 0] c4 assms(3) by (simp add: skein_out_def skein_ctr_block_def [abs_def])
  moreover have "snd (snd (Skein_512_Final c out)) =
      snd (skein_output_loop (sk_X c4) (((sk_hashBitLen c4 + 7) mod 2 ^ 64) div 8) 0 c4 out)"
    by (simp add: Skein_512_Final_def Let_def case_prod_beta c1_def c2_def c3_def c4_def)
  ultimately show ?thesis by (simp add: U_def c4 n_def)
qed

subsection \<open>Initialisation and update\<close>

lemma Init_spec:
  assumes "n < 2 ^ 64"
  shows "\<exists>c'. Skein_512_Init c n = (SKEIN_SUCCESS, c') \<and> skein_after c' (skein_iv n) 0 True \<and>
    sk_hashBitLen c' = n \<and> sk_bCnt c' = 0 \<and> sk_b c' = sk_b c"
proof (cases "n = 256")
  case True
  then show ?thesis
    by (simp add: Skein_512_Init_def skein_after_def Skein_Start_New_Type_def flags_code skein_iv_256)
      (simp add: SKEIN_512_IV_256_def)
next
  case False
  define cfg :: bytes where "cfg = concat (map (le_bytes 8) ([Skein_Swap64 SKEIN_SCHEMA_VER, Skein_Swap64 (of_nat n),
      Skein_Swap64 SKEIN_CFG_TREE_INFO_SEQUENTIAL] @ replicate 5 0))"
  have "SKEIN_SCHEMA_VER = 0x0000000133414853" by (simp add: SKEIN_SCHEMA_VER_def SKEIN_MK_64_def)
  moreover have "SKEIN_CFG_TREE_INFO_SEQUENTIAL = 0"
    by (simp add: SKEIN_CFG_TREE_INFO_SEQUENTIAL_def SKEIN_CFG_TREE_INFO_def)
  moreover have "le_bytes 8 (0 :: u64) = replicate 8 0" by (simp add: numeral_eq_Suc)
  ultimately have cfg: "cfg = (le_bytes 8 (0x0000000133414853 :: u64) @ le_bytes 8 (of_nat n :: u64) @ replicate 16 0)
      @ replicate 32 0"
    by (simp add: cfg_def Skein_Swap64_def numeral_eq_Suc del: length_le_bytes)
  let ?c = "Skein_Start_New_Type (c\<lparr>sk_hashBitLen := n\<rparr>) SKEIN_T1_BLK_TYPE_CFG_FINAL\<lparr>sk_X := replicate 8 0\<rparr>"
  have "sk_X (Skein_512_Process_Block ?c cfg 1 SKEIN_CFG_STR_LEN) = skein_iv n"
    using block_E [of "replicate 8 0" "[0, ubi_flags 4 True True False]" 0 _ cfg 32] False
    by (simp add: process_1 [unfolded One_nat_def] SKEIN_CFG_STR_LEN_def Skein_Start_New_Type_def flags_code
        skein_iv_def ubi_short cfg)
  moreover have "length (skein_iv n) = 8" using False by (simp add: skein_iv_def ubi_short)
  ultimately show ?thesis
    using False
    by (simp add: Skein_512_Init_def cfg_def [symmetric, simplified] skein_after_def Skein_Start_New_Type_def flags_code
        process_1 [unfolded One_nat_def])
qed


text \<open>The update reads exactly the bytes it is told to.\<close>

lemma process_take: "64 * n \<le> j \<Longrightarrow> 0 < n \<Longrightarrow> Skein_512_Process_Block c (take j b) n 64 = Skein_512_Process_Block c b n 64"
proof (induction n arbitrary: c b j)
  case (Suc n)
  have s: "skein_step c (take j b) = skein_step c b"
    using skein_step_take [of c "take j b"] skein_step_take [of c b] Suc.prems by (simp add: min_def)
  show ?case
  proof (cases "n = 0")
    case True
    then show ?thesis using s by (simp add: skein_step_def)
  next
    case False
    then show ?thesis using Suc by (simp add: process_Suc s drop_take)
  qed
qed simp

lemma memcpy_at_take: "n \<le> k \<Longrightarrow> memcpy_at dst off (take k src) n = memcpy_at dst off src n"
  by (simp add: memcpy_at_def)

lemma fill_take:
  assumes "sk_bCnt c \<le> 64" and "64 - sk_bCnt c \<le> n"
  shows "skein_update_fill c (take n m) n =
    (case skein_update_fill c m n of (c, m, k) \<Rightarrow> (c, take k m, k))"
  using assms by (simp add: skein_update_fill_def Let_def memcpy_at_take drop_take)

lemma direct_take:
  "skein_update_direct c (take n m) n = (case skein_update_direct c m n of (c, m, k) \<Rightarrow> (c, take k m, k))"
proof (cases "n > 64")
  case True
  define j where "j = (n - 1) div 64"
  have "n - 1 = j * 64 + (n - 1) mod 64" unfolding j_def by simp
  then have "64 * j \<le> n" "0 < j" using True unfolding j_def by linarith+
  then show ?thesis
    unfolding skein_update_direct_def skein_sizes if_P [OF True] j_def [symmetric] Let_def
    by (simp add: process_take drop_take)
qed (simp add: skein_update_direct_def)

lemma copy_take: "skein_update_copy c (take n m) n = skein_update_copy c m n"
  by (simp add: skein_update_copy_def memcpy_at_take)

lemma Update_take:
  assumes "sk_bCnt c \<le> 64" and "n \<le> length m"
  shows "snd (Skein_512_Update c m n) = skein_upd c (take n m)"
proof (cases "n + sk_bCnt c > 64")
  case True
  then have "64 - sk_bCnt c \<le> n" by simp
  then show ?thesis
    using True assms by (simp add: Skein_512_Update_def fill_take direct_take copy_take case_prod_beta min_absorb2)
next
  case False
  then show ?thesis using assms by (simp add: Skein_512_Update_def copy_take min_absorb2)
qed

text \<open>The frame: an update keeps the length of the output.\<close>

lemma absorb_hashBitLen: "sk_hashBitLen (fst (absorb 64 65 skein_step c m)) = sk_hashBitLen c"
  using absorb_invariant [of "\<lambda>d. sk_hashBitLen d = sk_hashBitLen c" 64 skein_step 65 c m] by (simp add: skein_step_def)

lemma upd_hashBitLen:
  assumes "skein_wf c"
  shows "sk_hashBitLen (skein_upd c m) = sk_hashBitLen c"
proof -
  have "sk_hashBitLen (skein_chain (skein_upd c m)) = sk_hashBitLen (skein_chain c)"
    using skein_upd_refines [OF assms, of m] absorb_hashBitLen [of "skein_chain c" "skein_pend c @ m"]
    by (metis fst_conv)
  then show ?thesis by (simp add: skein_chain_def)
qed

lemma skein_after_chain: "skein_after (skein_chain c) = skein_after c"
  by (simp add: fun_eq_iff skein_after_def skein_chain_def)

text \<open>What is left after any number of updates is a context from which the last block gives the whole chain.\<close>

lemma upds_after:
  fixes ms :: "bytes list"
  assumes "skein_wf c" and "sk_bCnt c = 0" and "skein_after c X 0 True"
  defines "c' \<equiv> foldl (\<lambda>c m. skein_upd c m) c ms"
  shows "\<exists>X' pos first. skein_wf c' \<and> skein_after c' X' pos first \<and>
    (\<forall>pad. ubi 48 pad X 0 True (concat ms) = ubi 48 pad X' pos first (skein_pend c'))"
proof -
  have p: "skein_pend c = []" using assms(2) by (simp add: skein_pend_def)
  have r: "(skein_chain c', skein_pend c') = absorb 64 65 skein_step (skein_chain c) (concat ms)"
    using skein.foldl_upd_refines [OF assms(1), of ms] p by (simp add: c'_def)
  have a: "skein_after (skein_chain c) X 0 True" using assms(3) by (simp only: skein_after_chain)
  have f: "fst (absorb 64 65 skein_step (skein_chain c) (concat ms)) = skein_chain c'"
    "snd (absorb 64 65 skein_step (skein_chain c) (concat ms)) = skein_pend c'"
    by (simp_all flip: r)
  have "skein_wf c'" unfolding c'_def by (rule skein.foldl_upd_inv [OF assms(1)])
  with absorb_ubi [OF a, of "concat ms"] show ?thesis
    unfolding f skein_after_chain by blast
qed


subsection \<open>The whole hash\<close>

lemma after_ready:
  assumes "skein_wf c" and "skein_after c X pos first"
  shows "skein_ready (if pad then Skein_Set_Bit_Pad_Flag c else c) X pos first pad"
proof -
  have "ubi_flags 48 first False False OR SKEIN_T1_FLAG_BIT_PAD = ubi_flags 48 first False True"
    by (cases first; simp add: ubi_flags_def SKEIN_T1_FLAG_BIT_PAD_def SKEIN_T1_POS_BIT_PAD_def SKEIN_T1_BIT_def)
  then show ?thesis
    using assms by (simp add: skein_ready_def skein_after_def Skein_Set_Bit_Pad_Flag_def skein_wf_def)
qed

lemma Set_Bit_Pad_frame [simp]:
  "sk_hashBitLen (Skein_Set_Bit_Pad_Flag c) = sk_hashBitLen c" "skein_pend (Skein_Set_Bit_Pad_Flag c) = skein_pend c"
  by (simp_all add: Skein_Set_Bit_Pad_Flag_def skein_pend_def)

lemma upds_Final:
  assumes "skein_wf c" and "sk_bCnt c = 0" and "skein_after c (skein_iv n) 0 True" and "sk_hashBitLen c = n"
    and "n + 7 < 2 ^ 64" and "(n + 7) div 8 \<le> length out"
    and "c' = foldl (\<lambda>c m. skein_upd c m) c ms"
  shows "snd (snd (Skein_512_Final (if pad then Skein_Set_Bit_Pad_Flag c' else c') out)) =
    skein_512_spec n pad (concat ms) @ drop ((n + 7) div 8) out"
proof -
  let ?f = "if pad then Skein_Set_Bit_Pad_Flag c' else c'"
  obtain X' pos first where a: "skein_wf c'" "skein_after c' X' pos first"
    and u: "ubi 48 pad (skein_iv n) 0 True (concat ms) = ubi 48 pad X' pos first (skein_pend c')"
    using upds_after [OF assms(1-3), of ms] unfolding assms(7) by blast
  have "sk_hashBitLen c' = n"
    unfolding assms(7) using assms(1,4)
    by (induction ms arbitrary: c) (simp_all add: upd_hashBitLen skein.upd_inv)
  then have h: "sk_hashBitLen ?f = n" "skein_pend ?f = skein_pend c'" by simp_all
  show ?thesis
    using Final_spec [OF after_ready [OF a, of pad], of out] assms(5,6) unfolding h
    by (simp add: skein_512_spec_def u)
qed

text \<open>The last byte of a message that is not a whole number of bytes.\<close>

lemma pad_byte:
  fixes x :: u8
  assumes "0 < k" and "k < 8"
  shows "(x AND (0 - push_bit (7 - k) 1)) OR push_bit (7 - k) 1 = (x AND NOT (mask (8 - k))) OR push_bit (7 - k) 1"
proof -
  have "k \<in> {1, 2, 3, 4, 5, 6, 7}" using assms by auto
  then have *: "(0 - push_bit (7 - k) 1) OR push_bit (7 - k) (1 :: u8) = NOT (mask (8 - k)) OR push_bit (7 - k) 1"
    by (auto simp: mask_eq_exp_minus_1)
  have dist: "(x AND a) OR m = (x OR m) AND (a OR m)" for a m :: u8 by (simp add: word_oa_dist)
  show ?thesis unfolding dist * ..
qed

lemma skein_Update_spec:
  assumes "skein_wf (ctx_512 s)" and "(k + 7) div 8 \<le> length d"
  shows "\<exists>ms. concat ms = skein_pad_bits d k \<and>
    (skein_Update s d k = (SKEIN_SUCCESS, s\<lparr>ctx_512 :=
      (let c' = foldl (\<lambda>c m. skein_upd c m) (ctx_512 s) ms in if k mod 8 \<noteq> 0 then Skein_Set_Bit_Pad_Flag c' else c')\<rparr>))"
proof (cases "k mod 8 = 0")
  case True
  have l: "k div 8 \<le> length d" using assms(2) by linarith
  have b: "sk_bCnt (ctx_512 s) \<le> 64" using assms(1) by (simp add: skein_wf_def)
  have "fst (Skein_512_Update c d n) = SKEIN_SUCCESS" for c d n by (simp add: Skein_512_Update_def case_prod_beta)
  with True Update_take [OF b l] show ?thesis
    by (intro exI [of _ "[take (k div 8) d]"]) (simp add: skein_Update_def skein_pad_bits_def case_prod_beta)
next
  case False
  define r where "r = k mod 8"
  have r: "0 < r" "r < 8" using False by (simp_all add: r_def)
  have l: "k div 8 < length d" using assms(2) r div_mult_mod_eq [of k 8] unfolding r_def by linarith
  have b: "sk_bCnt (ctx_512 s) \<le> 64" using assms(1) by (simp add: skein_wf_def)
  define y where "y = (d ! (k div 8) AND NOT (mask (8 - r))) OR push_bit (7 - r) 1"
  have y: "(d ! (k div 8) AND (0 - push_bit (7 - r) 1)) OR push_bit (7 - r) 1 = y"
    unfolding y_def by (rule pad_byte [OF r])
  show ?thesis
    using False Update_take [OF b less_imp_le [OF l]] y
    by (intro exI [of _ "[take (k div 8) d, [y]]"])
      (simp add: skein_Update_def skein_pad_bits_def y_def r_def Let_def)
qed


lemma Init_wf:
  assumes "length (sk_b (ctx_512 S0)) = 64" and "n < 2 ^ 31"
  shows "\<exists>c. skein_Init S0 (int n) = (SKEIN_SUCCESS, S0\<lparr>statebits := 512, ctx_512 := c\<rparr>) \<and> skein_wf c \<and>
    skein_after c (skein_iv n) 0 True \<and> sk_hashBitLen c = n \<and> sk_bCnt c = 0"
proof -
  have "nat (int n mod 2 ^ 64) = n" using assms(2) by simp
  with assms show ?thesis
    using Init_spec [of n "ctx_512 S0"] by (auto simp: skein_Init_def skein_wf_def skein_after_def)
qed

text \<open>
  C22. \<open>skein_hash\<close> is Skein-512 of the given output length: the chaining value is initialised from
  the output length, the message runs through the chaining mode, with the bits after the message's
  last one masked and the pad bit set when it is not a whole number of bytes, and the output
  function fills exactly the digest's bytes of the result buffer.
\<close>

theorem skein_hash_spec:
  assumes "length (sk_b (ctx_512 S0)) = 64" and "bits < 2 ^ 31" and "(bits + 7) div 8 \<le> length out"
    and "(k + 7) div 8 \<le> length data"
  shows "skein_hash S0 (int bits) data k out =
    (SKEIN_SUCCESS, skein_512_spec bits (k mod 8 \<noteq> 0) (skein_pad_bits data k) @ drop ((bits + 7) div 8) out)"
proof -
  obtain c where I: "skein_Init S0 (int bits) = (SKEIN_SUCCESS, S0\<lparr>statebits := 512, ctx_512 := c\<rparr>)"
    and c: "skein_wf c" "sk_bCnt c = 0" "skein_after c (skein_iv bits) 0 True" "sk_hashBitLen c = bits"
    using Init_wf [OF assms(1,2)] by blast
  obtain ms where ms: "concat ms = skein_pad_bits data k"
    and U: "skein_Update (S0\<lparr>statebits := 512, ctx_512 := c\<rparr>) data k = (SKEIN_SUCCESS, S0\<lparr>statebits := 512, ctx_512 :=
      (let c' = foldl (\<lambda>c m. skein_upd c m) c ms in if k mod 8 \<noteq> 0 then Skein_Set_Bit_Pad_Flag c' else c')\<rparr>)"
    using skein_Update_spec [of "S0\<lparr>statebits := 512, ctx_512 := c\<rparr>" k data] c(1) assms(4) by auto
  have "bits + 7 < 2 ^ 64" using assms(2) by simp
  from upds_Final [OF c this assms(3) refl, of "k mod 8 \<noteq> 0" ms] show ?thesis
    by (simp add: skein_hash_def I U ms skein_Final_def case_prod_beta Let_def)
qed

theorem skein_hash_spec_witness:
  "let S0 = \<lparr>statebits = 7, ctx_512 = \<lparr>sk_hashBitLen = 1, sk_bCnt = 77, sk_T = [], sk_X = [], sk_b = replicate 64 3\<rparr>\<rparr>
   in skein_hash S0 224 [1, 2, 0xFF] 19 (replicate 29 9) =
     (SKEIN_SUCCESS, skein_512_spec 224 True [1, 2, 0xF0] @ [9])"
  using skein_hash_spec [of "\<lparr>statebits = 7, ctx_512 = \<lparr>sk_hashBitLen = 1, sk_bCnt = 77, sk_T = [], sk_X = [], sk_b = replicate 64 3\<rparr>\<rparr>"
      224 "replicate 29 9" 19 "[1, 2, 0xFF]"]
  by (simp add: skein_pad_bits_def mask_eq_exp_minus_1)

text \<open>
  The incremental interface: whatever pieces of whole bytes a message is given in, empty ones and
  ones that end in the middle of a block included, the digest is that of the concatenation.
\<close>

theorem skein_pieces:
  assumes "length (sk_b (ctx_512 S0)) = 64" and "bits < 2 ^ 31" and "(bits + 7) div 8 \<le> length out"
  shows "snd (snd (skein_Final (foldl (\<lambda>s m. snd (skein_Update s m (8 * length m))) (snd (skein_Init S0 (int bits))) ms) out)) =
    skein_512_spec bits False (concat ms) @ drop ((bits + 7) div 8) out"
proof -
  obtain c where I: "skein_Init S0 (int bits) = (SKEIN_SUCCESS, S0\<lparr>statebits := 512, ctx_512 := c\<rparr>)"
    and c: "skein_wf c" "sk_bCnt c = 0" "skein_after c (skein_iv bits) 0 True" "sk_hashBitLen c = bits"
    using Init_wf [OF assms(1,2)] by blast
  have f: "ctx_512 (foldl (\<lambda>s m. snd (skein_Update s m (8 * length m))) s ms) = foldl (\<lambda>c m. skein_upd c m) (ctx_512 s) ms" for s
    by (induction ms arbitrary: s) (simp_all add: skein_Update_def case_prod_beta)
  have "bits + 7 < 2 ^ 64" using assms(2) by simp
  from upds_Final [OF c this assms(3) refl, of False ms]
  show ?thesis by (simp add: I f skein_Final_def case_prod_beta)
qed

text \<open>
  \<open>xmr_skein\<close>, the variant CryptoNight calls, is Skein-512-256 of the first 200 bytes it is given.
\<close>

theorem xmr_skein_spec:
  assumes "length (sk_b (ctx_512 S0)) = 64" and "200 \<le> length data" and "32 \<le> length out"
  shows "xmr_skein S0 data out = skein_512_spec 256 False (take 200 data) @ drop 32 out"
proof -
  let ?c = "Skein_Start_New_Type ((ctx_512 S0)\<lparr>sk_hashBitLen := 256, sk_X := SKEIN_512_IV_256\<rparr>) SKEIN_T1_BLK_TYPE_MSG"
  have c: "skein_wf ?c" "sk_bCnt ?c = 0" "skein_after ?c (skein_iv 256) 0 True" "sk_hashBitLen ?c = 256"
    using assms(1)
    by (simp_all add: skein_wf_def Skein_Start_New_Type_def skein_after_def skein_iv_256 flags_code)
      (simp_all add: SKEIN_512_IV_256_def)
  have "snd (Skein_512_Update ?c data 200) = skein_upd ?c (take 200 data)"
    by (rule Update_take) (use c assms(2) in \<open>simp_all add: skein_wf_def\<close>)
  with upds_Final [OF c, of out _ "[take 200 data]" False] assms(3) show ?thesis
    by (simp add: xmr_skein_def XMR_DATABITLEN_def XMR_HASHBITLEN_def Let_def)
qed

text \<open>
  The fully unrolled block function, with its permuted register names, its running subkey index
  and its in-line key schedule, is Threefish-512 of the paper in the feed-forward mode, for every
  chaining value, tweak and block.
\<close>

theorem skein_block_is_threefish:
  assumes "length X = 8" and "ts = [t0, t1]"
  shows "Skein_512_block X ts b k =
    (skein_E X (t0 + of_nat k) t1 b, [t0 + of_nat k, t1 AND NOT SKEIN_T1_FLAG_FIRST])"
  by (rule block_E [OF assms])

end
