(* ===== verification/Blake2_Generator.thy ===== *)
theory Blake2_Generator
  imports Blake2b_RFC
begin

text \<open>
  The pseudo-random generator of \<open>blake2_generator.cpp\<close>: a 64-byte block that is hashed again when
  it does not hold the bytes a caller asks for. The hash is an argument \<open>H\<close> of the operations;
  the program's is \<open>block_hash\<close>.
\<close>

record Blake2Generator =
  gen_data :: bytes
  dataIndex :: nat

definition maxSeedSize :: nat where "maxSeedSize = 60"

definition Blake2Generator_init :: "bytes \<Rightarrow> bytes \<Rightarrow> u32 \<Rightarrow> Blake2Generator" where
  "Blake2Generator_init data0 seed nonce =
     (let data = memset_at data0 0 0 64;
          data = memcpy_at data 0 seed (if length seed > maxSeedSize then maxSeedSize else length seed);
          data = memcpy_at data maxSeedSize (store32 nonce) 4
      in \<lparr>gen_data = data, dataIndex = 64\<rparr>)"

text \<open>\<open>S0\<close> is the indeterminate state of the local hash context.\<close>

definition block_hash :: "blake2b_state \<Rightarrow> bytes \<Rightarrow> bytes" where
  "block_hash S0 data = (case rx_blake2b S0 (Some data) 64 (Some data) 64 of (_, out) \<Rightarrow> (case out of None \<Rightarrow> data | Some data \<Rightarrow> data))"

definition checkData :: "(bytes \<Rightarrow> bytes) \<Rightarrow> nat \<Rightarrow> Blake2Generator \<Rightarrow> Blake2Generator" where
  "checkData H bytesNeeded g =
     (if dataIndex g + bytesNeeded > 64 then g\<lparr>gen_data := H (gen_data g), dataIndex := 0\<rparr> else g)"

definition getByte :: "(bytes \<Rightarrow> bytes) \<Rightarrow> Blake2Generator \<Rightarrow> u8 \<times> Blake2Generator" where
  "getByte H g = (let g = checkData H 1 g in (gen_data g ! dataIndex g, g\<lparr>dataIndex := dataIndex g + 1\<rparr>))"

definition getUInt32 :: "(bytes \<Rightarrow> bytes) \<Rightarrow> Blake2Generator \<Rightarrow> u32 \<times> Blake2Generator" where
  "getUInt32 H g = (let g = checkData H 4 g in (load32 (drop (dataIndex g) (gen_data g)), g\<lparr>dataIndex := dataIndex g + 4\<rparr>))"

subsection \<open>Invariant\<close>

definition gen_ok :: "Blake2Generator \<Rightarrow> bool" where
  "gen_ok g \<longleftrightarrow> length (gen_data g) = 64 \<and> dataIndex g \<le> 64"

definition hash_ok :: "(bytes \<Rightarrow> bytes) \<Rightarrow> bool" where
  "hash_ok H \<longleftrightarrow> (\<forall>d. length d = 64 \<longrightarrow> length (H d) = 64)"

lemma Blake2Generator_init_ok: "length data0 = 64 \<Longrightarrow> gen_ok (Blake2Generator_init data0 seed nonce)"
  by (simp add: gen_ok_def Blake2Generator_init_def Let_def maxSeedSize_def)

lemma block_hash_rfc: "length d = 64 \<Longrightarrow> block_hash S0 d = blake2b_rfc 64 [] d"
  using one_call [of 64 d S0 d] by (simp add: block_hash_def)

lemma block_hash_ok: "hash_ok (block_hash S0)"
  by (simp add: hash_ok_def block_hash_rfc length_blake2b_rfc)

lemma getByte_ok: "hash_ok H \<Longrightarrow> gen_ok g \<Longrightarrow> gen_ok (snd (getByte H g))"
  by (auto simp: getByte_def checkData_def gen_ok_def hash_ok_def Let_def)

lemma getUInt32_ok: "hash_ok H \<Longrightarrow> gen_ok g \<Longrightarrow> gen_ok (snd (getUInt32 H g))"
  by (auto simp: getUInt32_def checkData_def gen_ok_def hash_ok_def Let_def)

subsection \<open>The stream\<close>

text \<open>
  What the generator promises: it reads along the stream of the blocks \<open>H d\<close>, \<open>H (H d)\<close>, ... of its
  seed block \<open>d\<close>; a 32-bit value never spans two blocks. \<open>gen_at H d p g\<close>: \<open>g\<close> has read up to
  position \<open>p\<close>.
\<close>

definition gen_stream :: "(bytes \<Rightarrow> bytes) \<Rightarrow> bytes \<Rightarrow> nat \<Rightarrow> u8" where
  "gen_stream H d p = (H ^^ Suc (p div 64)) d ! (p mod 64)"

definition gen_at :: "(bytes \<Rightarrow> bytes) \<Rightarrow> bytes \<Rightarrow> nat \<Rightarrow> Blake2Generator \<Rightarrow> bool" where
  "gen_at H d p g \<longleftrightarrow> (\<exists>k. gen_data g = (H ^^ k) d \<and> dataIndex g \<le> 64 \<and> p + 64 = 64 * k + dataIndex g)"

text \<open>Where a read of \<open>n\<close> bytes at position \<open>p\<close> starts.\<close>

definition read_start :: "nat \<Rightarrow> nat \<Rightarrow> nat" where
  "read_start n p = (if p mod 64 + n > 64 then 64 * (p div 64 + 1) else p)"

definition seed_block :: "bytes \<Rightarrow> u32 \<Rightarrow> bytes" where
  "seed_block seed nonce = take 60 seed @ replicate (60 - length seed) 0 @ store32 nonce"

lemma gen_at_init: "length data0 = 64 \<Longrightarrow> gen_at H (seed_block seed nonce) 0 (Blake2Generator_init data0 seed nonce)"
  unfolding gen_at_def
  by (intro exI [of _ 0]) (auto simp: Blake2Generator_init_def Let_def maxSeedSize_def seed_block_def
      memset_at_def memcpy_at_def min_def)

lemma gen_at_checkData:
  assumes "gen_at H d p g" and "0 < n" and "n \<le> 64"
  shows "\<exists>i. checkData H n g = \<lparr>gen_data = (H ^^ Suc (read_start n p div 64)) d, dataIndex = i\<rparr> \<and> i = read_start n p mod 64 \<and> i + n \<le> 64"
proof -
  obtain k where k: "gen_data g = (H ^^ k) d" "dataIndex g \<le> 64" "p + 64 = 64 * k + dataIndex g"
    using assms(1) by (auto simp: gen_at_def)
  consider "dataIndex g = 64" | "dataIndex g < 64" "dataIndex g + n > 64" | "dataIndex g + n \<le> 64" "dataIndex g < 64"
    using k(2) by linarith
  then show ?thesis
  proof cases
    case 1
    then have "p = 64 * k" using k(3) by simp
    with 1 k assms(2,3) show ?thesis by (simp add: checkData_def read_start_def)
  next
    case 2
    then have "k \<noteq> 0" using k(3) by (cases k) auto
    then obtain j where j: "k = Suc j" by (cases k) auto
    then have "p = 64 * j + dataIndex g" using k(3) by simp
    then have "p div 64 = j" "p mod 64 = dataIndex g" using 2 by simp_all
    with 2 k j assms(2,3) show ?thesis by (simp add: checkData_def read_start_def)
  next
    case 3
    then have "k \<noteq> 0" using k(3) by (cases k) auto
    then obtain j where j: "k = Suc j" by (cases k) auto
    then have "p = 64 * j + dataIndex g" using k(3) by simp
    then have "p div 64 = j" "p mod 64 = dataIndex g" using 3 by simp_all
    with 3 k j show ?thesis by (cases g) (simp add: checkData_def read_start_def)
  qed
qed

lemma gen_at_getByte:
  assumes "gen_at H d p g"
  shows "\<exists>g'. getByte H g = (gen_stream H d p, g') \<and> gen_at H d (Suc p) g'"
proof -
  have "p mod 64 < 64" by simp
  then have "\<not> 64 < p mod 64 + 1" by linarith
  then have "read_start 1 p = p" by (simp only: read_start_def if_False)
  then have s: "read_start (Suc 0) p = p" by simp
  show ?thesis using gen_at_checkData [OF assms, of 1]
    by (auto simp: s getByte_def gen_stream_def gen_at_def Let_def intro!: exI [of _ "Suc (p div 64)"])
qed

lemma gen_at_getUInt32:
  assumes "gen_at H d p g" and "hash_ok H" and "length d = 64"
  shows "\<exists>g'. getUInt32 H g = (load32 (map (gen_stream H d) [read_start 4 p..<read_start 4 p + 4]), g') \<and>
    gen_at H d (read_start 4 p + 4) g'"
proof -
  let ?q = "read_start 4 p"
  obtain i where i: "checkData H 4 g = \<lparr>gen_data = (H ^^ Suc (?q div 64)) d, dataIndex = i\<rparr>" "i = ?q mod 64" "i + 4 \<le> 64"
    using gen_at_checkData [OF assms(1), of 4] by auto
  have len: "length ((H ^^ k) d) = 64" for k using assms(2,3) by (induction k) (auto simp: hash_ok_def)
  have "take 4 (drop i ((H ^^ Suc (?q div 64)) d)) = map (gen_stream H d) [?q..<?q + 4]"
  proof (rule nth_equalityI)
    fix j assume "j < length (take 4 (drop i ((H ^^ Suc (?q div 64)) d)))"
    then have j: "j < 4" by simp
    have q: "?q + j = (i + j) + 64 * (?q div 64)" "i + j < 64" using j i(2,3) by simp_all
    then have "(?q + j) div 64 = ?q div 64" "(?q + j) mod 64 = i + j" by (simp_all only: q(1)) (use q(2) in simp_all)
    then show "take 4 (drop i ((H ^^ Suc (?q div 64)) d)) ! j = map (gen_stream H d) [?q..<?q + 4] ! j"
      using j i(3) len [of "Suc (?q div 64)"] by (simp add: gen_stream_def)
  qed (use i(3) len [of "Suc (?q div 64)"] in simp)
  then have "load32 (drop i ((H ^^ Suc (?q div 64)) d)) = load32 (map (gen_stream H d) [?q..<?q + 4])"
    by (metis load32_def take_all_iff length_map length_upt diff_add_inverse order_refl)
  moreover have "gen_at H d (?q + 4) \<lparr>gen_data = (H ^^ Suc (?q div 64)) d, dataIndex = i + 4\<rparr>"
    unfolding gen_at_def using i(2,3) by (intro exI [of _ "Suc (?q div 64)"]) simp
  ultimately show ?thesis by (simp add: getUInt32_def i(1) Let_def)
qed

subsection \<open>The properties\<close>

text \<open>
  C31. The generator is a reader of one stream of bytes: the BLAKE2b chain of its seed block (the
  first 60 bytes of the seed, padded with zeros, and the nonce). A fresh generator stands at its
  start; at position \<open>p\<close>, \<open>getByte\<close> delivers byte \<open>p\<close>, and \<open>getUInt32\<close> the next four bytes that lie
  in one block, in little-endian order.
\<close>

theorem generator_stream:
  defines "H \<equiv> blake2b_rfc 64 []"
  assumes "length data0 = 64" and "gen_at H (seed_block seed nonce) p g"
  shows "gen_at H (seed_block seed nonce) 0 (Blake2Generator_init data0 seed nonce) \<and>
    (\<exists>g'. getByte (block_hash S0) g = (gen_stream H (seed_block seed nonce) p, g') \<and> gen_at H (seed_block seed nonce) (Suc p) g') \<and>
    (\<exists>g'. getUInt32 (block_hash S0) g =
         (load32 (map (gen_stream H (seed_block seed nonce)) [read_start 4 p..<read_start 4 p + 4]), g') \<and>
       gen_at H (seed_block seed nonce) (read_start 4 p + 4) g')"
proof -
  have len: "length ((H ^^ k) (seed_block seed nonce)) = 64" for k
    by (cases k) (simp_all add: H_def length_blake2b_rfc seed_block_def min_def)
  then have "length (gen_data g) = 64" using assms(3) by (auto simp: gen_at_def)
  then have "checkData (block_hash S0) n g = checkData H n g" for n by (simp add: checkData_def block_hash_rfc H_def)
  then have "getByte (block_hash S0) g = getByte H g" "getUInt32 (block_hash S0) g = getUInt32 H g"
    by (simp_all add: getByte_def getUInt32_def)
  moreover have "hash_ok H" by (simp add: hash_ok_def H_def length_blake2b_rfc)
  ultimately show ?thesis
    using gen_at_getByte [OF assms(3)] gen_at_getUInt32 [OF assms(3) _ len [of 0, simplified]] gen_at_init [OF assms(2), of H seed nonce]
    by simp
qed

theorem generator_stream_witness:
  "\<exists>g. getByte (block_hash (blake2b_start 0 0)) (Blake2Generator_init (replicate 64 7) [1, 2, 3] 9) =
     (gen_stream (blake2b_rfc 64 []) (seed_block [1, 2, 3] 9) 0, g)"
  using generator_stream [OF _ gen_at_init [of "replicate 64 7" "blake2b_rfc 64 []" "[1, 2, 3]" 9], of "replicate 64 7" "blake2b_start 0 0"]
  by auto

end
