(* ===== verification/Rx_Config.thy ===== *)
theory Rx_Config
  imports Endian
begin

text \<open>
  The parameters of RandomX: \<open>RandomX_ConfigurationBase\<close> and the variants derived from it
  (\<open>randomx.h\<close>, \<open>randomx.cpp\<close>), the masks and the dispatch table that \<open>Apply\<close> computes from them,
  and the compile-time constants of \<open>common.hpp\<close> and \<open>configuration.h\<close>.

  The machine-code templates that \<open>Apply\<close> patches for the JIT compilers are left out; its dispatch
  table is kept, with the instruction type in place of the handler's address.
\<close>

subsection \<open>Constants\<close>

definition RANDOMX_PROGRAM_MAX_SIZE :: nat where "RANDOMX_PROGRAM_MAX_SIZE = 256"
definition RANDOMX_SUPERSCALAR_MAX_LATENCY :: nat where "RANDOMX_SUPERSCALAR_MAX_LATENCY = 256"
definition RANDOMX_DATASET_ITEM_SIZE :: u64 where "RANDOMX_DATASET_ITEM_SIZE = 64"

definition ArgonMemory :: u64 where "ArgonMemory = 262144"
definition CacheAccesses :: nat where "CacheAccesses = 8"
definition SuperscalarLatency :: nat where "SuperscalarLatency = 170"
definition DatasetBaseSize :: u64 where "DatasetBaseSize = 2147483648"
definition DatasetExtraSize :: u64 where "DatasetExtraSize = 33554368"
definition JumpBits :: nat where "JumpBits = 8"
definition JumpOffset :: nat where "JumpOffset = 8"

definition CacheLineAlignMask :: u64 where
  "CacheLineAlignMask = (DatasetBaseSize - 1) AND NOT (RANDOMX_DATASET_ITEM_SIZE - 1)"

definition DatasetExtraItems :: u64 where
  "DatasetExtraItems = DatasetExtraSize div RANDOMX_DATASET_ITEM_SIZE"

definition ConditionMask_Calculated :: u64 where
  "ConditionMask_Calculated = push_bit JumpOffset (push_bit JumpBits 1 - 1)"

definition ArgonBlockSize :: u32 where "ArgonBlockSize = 1024"
definition SuperscalarMaxSize :: nat where "SuperscalarMaxSize = 3 * RANDOMX_SUPERSCALAR_MAX_LATENCY + 2"
definition CacheLineSize :: nat where "CacheLineSize = unat RANDOMX_DATASET_ITEM_SIZE"
definition StoreL3Condition :: u32 where "StoreL3Condition = 14"

definition RegistersCount :: nat where "RegistersCount = 8"
definition RegisterCountFlt :: nat where "RegisterCountFlt = RegistersCount div 2"
definition RegisterNeedsDisplacement :: nat where "RegisterNeedsDisplacement = 5"

definition isZeroOrPowerOf2 :: "u64 \<Rightarrow> bool" where
  "isZeroOrPowerOf2 x \<longleftrightarrow> x AND (x - 1) = 0"

definition mantissaSize :: nat where "mantissaSize = 52"
definition exponentSize :: nat where "exponentSize = 11"
definition mantissaMask :: u64 where "mantissaMask = push_bit mantissaSize 1 - 1"
definition exponentMask :: u64 where "exponentMask = push_bit exponentSize 1 - 1"
definition exponentBias :: u64 where "exponentBias = 1023"
definition dynamicExponentBits :: nat where "dynamicExponentBits = 4"
definition staticExponentBits :: nat where "staticExponentBits = 4"
definition constExponentBits :: u64 where "constExponentBits = 0x300"
definition dynamicMantissaMask :: u64 where
  "dynamicMantissaMask = push_bit (mantissaSize + dynamicExponentBits) 1 - 1"

text \<open>A 128-bit integer vector, its four 32-bit lanes from the lowest.\<close>

type_synonym rx_vec_i128 = "u32 \<times> u32 \<times> u32 \<times> u32"

definition rx_set_int_vec_i128 :: "u32 \<Rightarrow> u32 \<Rightarrow> u32 \<Rightarrow> u32 \<Rightarrow> rx_vec_i128" where
  "rx_set_int_vec_i128 I3 I2 I1 I0 = (I0, I1, I2, I3)"

subsection \<open>Instruction types\<close>

datatype InstructionType =
    IADD_RS | IADD_M | ISUB_R | ISUB_M | IMUL_R | IMUL_M
  | IMULH_R | IMULH_M | ISMULH_R | ISMULH_M | IMUL_RCP | INEG_R
  | IXOR_R | IXOR_M | IROR_R | IROL_R | ISWAP_R | FSWAP_R
  | FADD_R | FADD_M | FSUB_R | FSUB_M | FSCAL_R | FMUL_R
  | FDIV_M | FSQRT_R | CBRANCH | CFROUND | ISTORE | NOP

subsection \<open>The configuration\<close>

record RandomX_Configuration =
  ArgonIterations :: u32
  ArgonLanes :: u32
  ArgonSalt :: string
  ScratchpadL1_Size :: u32
  ScratchpadL2_Size :: u32
  ScratchpadL3_Size :: u32
  ProgramSize :: nat
  ProgramIterations :: nat
  ProgramCount :: nat
  RANDOMX_FREQ_IADD_RS :: nat
  RANDOMX_FREQ_IADD_M :: nat
  RANDOMX_FREQ_ISUB_R :: nat
  RANDOMX_FREQ_ISUB_M :: nat
  RANDOMX_FREQ_IMUL_R :: nat
  RANDOMX_FREQ_IMUL_M :: nat
  RANDOMX_FREQ_IMULH_R :: nat
  RANDOMX_FREQ_IMULH_M :: nat
  RANDOMX_FREQ_ISMULH_R :: nat
  RANDOMX_FREQ_ISMULH_M :: nat
  RANDOMX_FREQ_IMUL_RCP :: nat
  RANDOMX_FREQ_INEG_R :: nat
  RANDOMX_FREQ_IXOR_R :: nat
  RANDOMX_FREQ_IXOR_M :: nat
  RANDOMX_FREQ_IROR_R :: nat
  RANDOMX_FREQ_IROL_R :: nat
  RANDOMX_FREQ_ISWAP_R :: nat
  RANDOMX_FREQ_FSWAP_R :: nat
  RANDOMX_FREQ_FADD_R :: nat
  RANDOMX_FREQ_FADD_M :: nat
  RANDOMX_FREQ_FSUB_R :: nat
  RANDOMX_FREQ_FSUB_M :: nat
  RANDOMX_FREQ_FSCAL_R :: nat
  RANDOMX_FREQ_FMUL_R :: nat
  RANDOMX_FREQ_FDIV_M :: nat
  RANDOMX_FREQ_FSQRT_R :: nat
  RANDOMX_FREQ_CBRANCH :: nat
  RANDOMX_FREQ_CFROUND :: nat
  RANDOMX_FREQ_ISTORE :: nat
  RANDOMX_FREQ_NOP :: nat
  fillAes4Rx4_Key :: "rx_vec_i128 list"
  AddressMask_Calculated :: "u32 list"
  ScratchpadL3Mask_Calculated :: u32
  ScratchpadL3Mask64_Calculated :: u32

text \<open>The masks are indeterminate before \<open>Apply\<close>; the constructor leaves them 0 here.\<close>

definition RandomX_ConfigurationBase :: RandomX_Configuration where
  "RandomX_ConfigurationBase =
     \<lparr>ArgonIterations = 3, ArgonLanes = 1, ArgonSalt = ''RandomX'' @ [CHR 0x03],
      ScratchpadL1_Size = 16384, ScratchpadL2_Size = 262144, ScratchpadL3_Size = 2097152,
      ProgramSize = 256, ProgramIterations = 2048, ProgramCount = 8,
      RANDOMX_FREQ_IADD_RS = 16, RANDOMX_FREQ_IADD_M = 7, RANDOMX_FREQ_ISUB_R = 16, RANDOMX_FREQ_ISUB_M = 7,
      RANDOMX_FREQ_IMUL_R = 16, RANDOMX_FREQ_IMUL_M = 4, RANDOMX_FREQ_IMULH_R = 4, RANDOMX_FREQ_IMULH_M = 1,
      RANDOMX_FREQ_ISMULH_R = 4, RANDOMX_FREQ_ISMULH_M = 1, RANDOMX_FREQ_IMUL_RCP = 8, RANDOMX_FREQ_INEG_R = 2,
      RANDOMX_FREQ_IXOR_R = 15, RANDOMX_FREQ_IXOR_M = 5, RANDOMX_FREQ_IROR_R = 8, RANDOMX_FREQ_IROL_R = 2,
      RANDOMX_FREQ_ISWAP_R = 4, RANDOMX_FREQ_FSWAP_R = 4, RANDOMX_FREQ_FADD_R = 16, RANDOMX_FREQ_FADD_M = 5,
      RANDOMX_FREQ_FSUB_R = 16, RANDOMX_FREQ_FSUB_M = 5, RANDOMX_FREQ_FSCAL_R = 6, RANDOMX_FREQ_FMUL_R = 32,
      RANDOMX_FREQ_FDIV_M = 4, RANDOMX_FREQ_FSQRT_R = 6, RANDOMX_FREQ_CBRANCH = 25, RANDOMX_FREQ_CFROUND = 1,
      RANDOMX_FREQ_ISTORE = 16, RANDOMX_FREQ_NOP = 0,
      fillAes4Rx4_Key =
        [rx_set_int_vec_i128 0x99e5d23f 0x2f546d2b 0xd1833ddb 0x6421aadd,
         rx_set_int_vec_i128 0xa5dfcde5 0x06f79d53 0xb6913f55 0xb20e3450,
         rx_set_int_vec_i128 0x171c02bf 0x0aa4679f 0x515e7baf 0x5c3ed904,
         rx_set_int_vec_i128 0xd8ded291 0xcd673785 0xe78f5d08 0x85623763,
         rx_set_int_vec_i128 0x229effb4 0x3d518b6d 0xe3d6a7a6 0xb5826f73,
         rx_set_int_vec_i128 0xb272b7d2 0xe9024d4e 0x9c10b3d9 0xc7566bf3,
         rx_set_int_vec_i128 0xf63befa7 0x2ba9660a 0xf765a38b 0xf273c9e7,
         rx_set_int_vec_i128 0xc0b0762d 0x0c06d1fd 0x915839de 0x7a7cd609],
      AddressMask_Calculated = replicate 4 0, ScratchpadL3Mask_Calculated = 0, ScratchpadL3Mask64_Calculated = 0\<rparr>"

definition RandomX_ConfigurationMonero :: RandomX_Configuration where
  "RandomX_ConfigurationMonero = RandomX_ConfigurationBase"

definition RandomX_ConfigurationWownero :: RandomX_Configuration where
  "RandomX_ConfigurationWownero = RandomX_ConfigurationBase
     \<lparr>ArgonSalt := ''RandomWOW'' @ [CHR 0x01], ProgramIterations := 1024, ProgramCount := 16,
      ScratchpadL2_Size := 131072, ScratchpadL3_Size := 1048576,
      RANDOMX_FREQ_IADD_RS := 25, RANDOMX_FREQ_IROR_R := 10, RANDOMX_FREQ_IROL_R := 0,
      RANDOMX_FREQ_FSWAP_R := 8, RANDOMX_FREQ_FADD_R := 20, RANDOMX_FREQ_FSUB_R := 20,
      RANDOMX_FREQ_FMUL_R := 20, RANDOMX_FREQ_CBRANCH := 16,
      fillAes4Rx4_Key :=
        (let k0 = rx_set_int_vec_i128 0xcf359e95 0x141f82b7 0x7ffbe4a6 0xf890465d;
             k1 = rx_set_int_vec_i128 0x6741ffdc 0xbd5c5ac3 0xfee8278a 0x6a55c450;
             k2 = rx_set_int_vec_i128 0x3d324aac 0xa7279ad2 0xd524fde4 0x114c47a4;
             k3 = rx_set_int_vec_i128 0x76f6db08 0x42d3dbd9 0x99a9aeff 0x810c3a2a
         in [k0, k1, k2, k3, k0, k1, k2, k3])\<rparr>"

definition RandomX_ConfigurationArqma :: RandomX_Configuration where
  "RandomX_ConfigurationArqma = RandomX_ConfigurationBase
     \<lparr>ArgonIterations := 1, ArgonSalt := ''RandomARQ'' @ [CHR 0x01], ProgramIterations := 1024,
      ProgramCount := 4, ScratchpadL2_Size := 131072, ScratchpadL3_Size := 262144\<rparr>"

definition RandomX_ConfigurationSafex :: RandomX_Configuration where
  "RandomX_ConfigurationSafex = RandomX_ConfigurationBase\<lparr>ArgonSalt := ''RandomSFX'' @ [CHR 0x01]\<rparr>"

definition RandomX_ConfigurationKeva :: RandomX_Configuration where
  "RandomX_ConfigurationKeva = RandomX_ConfigurationBase
     \<lparr>ArgonSalt := ''RandomKV'' @ [CHR 0x01], ScratchpadL2_Size := 131072, ScratchpadL3_Size := 1048576\<rparr>"

subsection \<open>Apply\<close>

text \<open>The masks: \<open>size_t\<close> arithmetic, stored in 32 bits.\<close>

definition scratchpad_mask :: "u32 \<Rightarrow> u32" where
  "scratchpad_mask sz = ucast ((ucast sz div 8 - 1) * 8 :: u64)"

definition scratchpad_mask64 :: "u32 \<Rightarrow> u32" where
  "scratchpad_mask64 sz = ucast ((ucast sz div 8 div 8 - 1) * 64 :: u64)"

definition Apply :: "RandomX_Configuration \<Rightarrow> RandomX_Configuration" where
  "Apply cfg =
     (let ScratchpadL1Mask = scratchpad_mask (ScratchpadL1_Size cfg);
          ScratchpadL2Mask = scratchpad_mask (ScratchpadL2_Size cfg)
      in cfg\<lparr>AddressMask_Calculated := [ScratchpadL2Mask, ScratchpadL1Mask, ScratchpadL1Mask, ScratchpadL1Mask],
             ScratchpadL3Mask_Calculated := scratchpad_mask (ScratchpadL3_Size cfg),
             ScratchpadL3Mask64_Calculated := scratchpad_mask64 (ScratchpadL3_Size cfg)\<rparr>)"

text \<open>
  The dispatch table: \<open>INST_HANDLE\<close> adds the frequency of its instruction to the running sum and
  fills the entries from \<open>k\<close> up to it.
\<close>

definition INST_HANDLE :: "InstructionType \<Rightarrow> nat \<Rightarrow> nat \<times> nat \<times> (nat \<rightharpoonup> InstructionType) \<Rightarrow> nat \<times> nat \<times> (nat \<rightharpoonup> InstructionType)" where
  "INST_HANDLE x freq = (\<lambda>(k, freq_sum, engine).
     (let freq_sum = freq_sum + freq
      in (max k freq_sum, freq_sum, fold (\<lambda>k engine. engine(k \<mapsto> x)) [k..<freq_sum] engine)))"

definition inst_freqs :: "RandomX_Configuration \<Rightarrow> (InstructionType \<times> nat) list" where
  "inst_freqs cfg =
     [(IADD_RS, RANDOMX_FREQ_IADD_RS cfg), (IADD_M, RANDOMX_FREQ_IADD_M cfg), (ISUB_R, RANDOMX_FREQ_ISUB_R cfg),
      (ISUB_M, RANDOMX_FREQ_ISUB_M cfg), (IMUL_R, RANDOMX_FREQ_IMUL_R cfg), (IMUL_M, RANDOMX_FREQ_IMUL_M cfg),
      (IMULH_R, RANDOMX_FREQ_IMULH_R cfg), (IMULH_M, RANDOMX_FREQ_IMULH_M cfg), (ISMULH_R, RANDOMX_FREQ_ISMULH_R cfg),
      (ISMULH_M, RANDOMX_FREQ_ISMULH_M cfg), (IMUL_RCP, RANDOMX_FREQ_IMUL_RCP cfg), (INEG_R, RANDOMX_FREQ_INEG_R cfg),
      (IXOR_R, RANDOMX_FREQ_IXOR_R cfg), (IXOR_M, RANDOMX_FREQ_IXOR_M cfg), (IROR_R, RANDOMX_FREQ_IROR_R cfg),
      (IROL_R, RANDOMX_FREQ_IROL_R cfg), (ISWAP_R, RANDOMX_FREQ_ISWAP_R cfg), (FSWAP_R, RANDOMX_FREQ_FSWAP_R cfg),
      (FADD_R, RANDOMX_FREQ_FADD_R cfg), (FADD_M, RANDOMX_FREQ_FADD_M cfg), (FSUB_R, RANDOMX_FREQ_FSUB_R cfg),
      (FSUB_M, RANDOMX_FREQ_FSUB_M cfg), (FSCAL_R, RANDOMX_FREQ_FSCAL_R cfg), (FMUL_R, RANDOMX_FREQ_FMUL_R cfg),
      (FDIV_M, RANDOMX_FREQ_FDIV_M cfg), (FSQRT_R, RANDOMX_FREQ_FSQRT_R cfg), (CBRANCH, RANDOMX_FREQ_CBRANCH cfg),
      (CFROUND, RANDOMX_FREQ_CFROUND cfg), (ISTORE, RANDOMX_FREQ_ISTORE cfg), (NOP, RANDOMX_FREQ_NOP cfg)]"

definition apply_engine :: "RandomX_Configuration \<Rightarrow> nat \<rightharpoonup> InstructionType" where
  "apply_engine cfg =
     snd (snd (fold (\<lambda>(x, freq). INST_HANDLE x freq) (inst_freqs cfg) (0, 0, \<lambda>_. None)))"


subsection \<open>Masks stay inside the scratchpad\<close>

lemma unat_scratchpad_mask:
  assumes "8 \<le> unat sz"
  shows "unat (scratchpad_mask sz) = (unat sz div 8 - 1) * 8"
proof -
  have s: "unat sz < 2 ^ 32" using unsigned_less [of sz] by simp
  have "unat (ucast sz div 8 :: u64) = unat sz div 8"
    using s by (simp add: unat_div_distrib unsigned_ucast_eq take_bit_nat_eq_self)
  moreover have "1 \<le> unat sz div 8" using assms by (simp add: div_greater_zero_iff Suc_le_eq)
  ultimately have "unat (ucast sz div 8 - 1 :: u64) = unat sz div 8 - 1"
    by (subst unat_sub) (simp_all add: word_le_nat_alt)
  then have "unat ((ucast sz div 8 - 1) * 8 :: u64) = (unat sz div 8 - 1) * 8 mod 2 ^ 64"
    unfolding unat_word_ariths(2) by simp
  moreover have le: "(unat sz div 8 - 1) * 8 \<le> unat sz" by (simp add: diff_mult_distrib le_diff_conv)
  ultimately have "unat ((ucast sz div 8 - 1) * 8 :: u64) = (unat sz div 8 - 1) * 8" using s by simp
  then show ?thesis using le s by (simp add: scratchpad_mask_def unsigned_ucast_eq take_bit_nat_eq_self)
qed

lemma unat_scratchpad_mask64:
  assumes "64 \<le> unat sz"
  shows "unat (scratchpad_mask64 sz) = (unat sz div 64 - 1) * 64"
proof -
  have s: "unat sz < 2 ^ 32" using unsigned_less [of sz] by simp
  have "unat (ucast sz div 8 div 8 :: u64) = unat sz div 64"
    using s by (simp add: unat_div_distrib unsigned_ucast_eq take_bit_nat_eq_self div_mult2_eq [symmetric])
  moreover have "1 \<le> unat sz div 64" using assms by (simp add: div_greater_zero_iff Suc_le_eq)
  ultimately have "unat (ucast sz div 8 div 8 - 1 :: u64) = unat sz div 64 - 1"
    by (subst unat_sub) (simp_all add: word_le_nat_alt)
  then have "unat ((ucast sz div 8 div 8 - 1) * 64 :: u64) = (unat sz div 64 - 1) * 64 mod 2 ^ 64"
    unfolding unat_word_ariths(2) by simp
  moreover have le: "(unat sz div 64 - 1) * 64 \<le> unat sz" by (simp add: diff_mult_distrib le_diff_conv)
  ultimately have "unat ((ucast sz div 8 div 8 - 1) * 64 :: u64) = (unat sz div 64 - 1) * 64" using s by simp
  then show ?thesis using le s by (simp add: scratchpad_mask64_def unsigned_ucast_eq take_bit_nat_eq_self)
qed

text \<open>
  The contract of a configuration that the virtual machine relies on: every masked address leaves
  room for the access, the frequencies cover the opcodes, and the program fits its buffer.
\<close>

definition mask_ok :: "RandomX_Configuration \<Rightarrow> u32 \<Rightarrow> bool" where
  "mask_ok cfg m \<longleftrightarrow> unat m + 8 \<le> unat (ScratchpadL3_Size cfg)"

definition config_ok :: "RandomX_Configuration \<Rightarrow> bool" where
  "config_ok cfg \<longleftrightarrow>
     length (AddressMask_Calculated cfg) = 4 \<and> list_all (mask_ok cfg) (AddressMask_Calculated cfg) \<and>
     mask_ok cfg (ScratchpadL3Mask_Calculated cfg) \<and>
     unat (ScratchpadL3Mask64_Calculated cfg) + 64 \<le> unat (ScratchpadL3_Size cfg) \<and>
     sum_list (map snd (inst_freqs cfg)) = 256 \<and> ProgramSize cfg \<le> RANDOMX_PROGRAM_MAX_SIZE"

text \<open>
  The mask of a level: the last multiple of the alignment \<open>n\<close> that leaves room for \<open>n\<close> bytes inside the level. The table of the
  address masks has the mask of the second level for the mode 0 and the mask of the first level for the modes 1 to 3.
\<close>

definition level_mask :: "u32 \<Rightarrow> nat \<Rightarrow> u32 \<Rightarrow> bool" where
  "level_mask sz n m \<longleftrightarrow> n dvd unat m \<and> unat m + n \<le> unat sz \<and> unat sz < unat m + 2 * n"

definition level_masks_ok :: "RandomX_Configuration \<Rightarrow> bool" where
  "level_masks_ok cfg \<longleftrightarrow>
     length (AddressMask_Calculated cfg) = 4 \<and> level_mask (ScratchpadL2_Size cfg) 8 (AddressMask_Calculated cfg ! 0) \<and>
     list_all (level_mask (ScratchpadL1_Size cfg) 8) (drop 1 (AddressMask_Calculated cfg)) \<and>
     level_mask (ScratchpadL3_Size cfg) 8 (ScratchpadL3Mask_Calculated cfg) \<and>
     level_mask (ScratchpadL3_Size cfg) 64 (ScratchpadL3Mask64_Calculated cfg)"

lemma masked_le: "unat (ucast (x AND ucast m :: u64) :: u32) \<le> unat (m :: u32)"
proof -
  have "(ucast (x AND ucast m :: u64) :: u32) = ucast x AND m"
    by (rule bit_word_eqI) (simp add: bit_unsigned_iff bit_and_iff)
  then show ?thesis using word_and_le1 [of "ucast x" m] by (simp add: word_le_nat_alt)
qed

lemma masked_le_64: "unat (x AND ucast m :: u64) \<le> unat (m :: u32)"
proof -
  have "unat (x AND ucast m :: u64) \<le> unat (ucast m :: u64)"
    using word_and_le1 [of x "ucast m"] by (simp only: word_le_nat_alt)
  also have "unat (ucast m :: u64) \<le> unat m" by (simp add: unsigned_ucast_eq take_bit_nat_less_eq_self)
  finally show ?thesis .
qed

lemma level_mask_access: "level_mask sz n m \<Longrightarrow> unat (x AND ucast m :: u64) + n \<le> unat sz"
  using masked_le_64 [of x m] by (simp add: level_mask_def)

lemma level_mask_scratchpad:
  "8 \<le> unat sz \<Longrightarrow> level_mask sz 8 (scratchpad_mask sz)" "64 \<le> unat sz \<Longrightarrow> level_mask sz 64 (scratchpad_mask64 sz)"
proof -
  have f: "n dvd (s div n - 1) * n \<and> (s div n - 1) * n + n \<le> s \<and> s < (s div n - 1) * n + 2 * n" if "0 < n" "n \<le> s" for n s :: nat
  proof -
    have "1 \<le> s div n" using that by (simp add: div_greater_zero_iff Suc_le_eq)
    then have "(s div n - 1) * n + n = s div n * n" by (simp add: diff_mult_distrib)
    moreover have "s div n * n \<le> s" "s < s div n * n + n"
      using that(1) div_mult_mod_eq [of s n] mod_less_divisor [OF that(1), of s] by linarith+
    ultimately show ?thesis by simp
  qed
  show "8 \<le> unat sz \<Longrightarrow> level_mask sz 8 (scratchpad_mask sz)"
    using f [of 8 "unat sz"] by (simp add: level_mask_def unat_scratchpad_mask)
  show "64 \<le> unat sz \<Longrightarrow> level_mask sz 64 (scratchpad_mask64 sz)"
    using f [of 64 "unat sz"] by (simp add: level_mask_def unat_scratchpad_mask64)
qed

lemma Apply_level_masks:
  assumes "8 \<le> unat (ScratchpadL1_Size cfg)" and "8 \<le> unat (ScratchpadL2_Size cfg)" and "64 \<le> unat (ScratchpadL3_Size cfg)"
  shows "level_masks_ok (Apply cfg)"
  using assms by (simp add: level_masks_ok_def Apply_def Let_def level_mask_scratchpad)

lemma Apply_masks_ok:
  assumes "8 \<le> unat (ScratchpadL1_Size cfg)" and "unat (ScratchpadL1_Size cfg) \<le> unat (ScratchpadL2_Size cfg)"
    and "unat (ScratchpadL2_Size cfg) \<le> unat (ScratchpadL3_Size cfg)" and "64 \<le> unat (ScratchpadL3_Size cfg)"
    and "sum_list (map snd (inst_freqs cfg)) = 256" and "ProgramSize cfg \<le> 256"
  shows "config_ok (Apply cfg)"
proof -
  have f: "(n div 8 - 1) * 8 + 8 \<le> m" if "8 \<le> n" "n \<le> m" for n m :: nat
  proof -
    have "1 \<le> n div 8" using that(1) by (simp add: div_greater_zero_iff Suc_le_eq)
    then have "(n div 8 - 1) * 8 + 8 = n div 8 * 8" by (simp add: diff_mult_distrib)
    with that(2) show ?thesis by (metis div_times_less_eq_dividend le_trans)
  qed
  have f64: "(n div 64 - 1) * 64 + 64 \<le> n" if "64 \<le> n" for n :: nat
  proof -
    have "1 \<le> n div 64" using that(1) by (simp add: div_greater_zero_iff Suc_le_eq)
    then have "(n div 64 - 1) * 64 + 64 = n div 64 * 64" by (simp add: diff_mult_distrib)
    then show ?thesis by (metis div_times_less_eq_dividend)
  qed
  have freqs: "inst_freqs (Apply cfg) = inst_freqs cfg" by (simp add: inst_freqs_def Apply_def Let_def)
  show ?thesis
    using assms f f64 unfolding config_ok_def freqs
    by (simp add: Apply_def Let_def mask_ok_def unat_scratchpad_mask unat_scratchpad_mask64 RANDOMX_PROGRAM_MAX_SIZE_def)
qed

lemmas configurations = RandomX_ConfigurationMonero_def RandomX_ConfigurationWownero_def RandomX_ConfigurationArqma_def
  RandomX_ConfigurationSafex_def RandomX_ConfigurationKeva_def RandomX_ConfigurationBase_def

subsection \<open>The dispatch table\<close>

text \<open>What an opcode selects: the instruction in whose share of the 256 opcodes it falls.\<close>

fun decode_freqs :: "(InstructionType \<times> nat) list \<Rightarrow> nat \<Rightarrow> InstructionType option" where
  "decode_freqs [] n = None"
| "decode_freqs ((x, f) # fs) n = (if n < f then Some x else decode_freqs fs (n - f))"

lemma fold_fill: "fold (\<lambda>k m. m(k \<mapsto> x)) [a..<b] m = (\<lambda>k. if a \<le> k \<and> k < b then Some x else m k)"
proof (induction b)
  case (Suc b)
  then show ?case by (cases "a \<le> b") (auto simp: fun_eq_iff less_Suc_eq)
qed auto

lemma INST_HANDLE_fill:
  "INST_HANDLE x f (k, k, m) = (k + f, k + f, \<lambda>j. if k \<le> j \<and> j < k + f then Some x else m j)"
  by (simp add: INST_HANDLE_def Let_def fold_fill)

lemma fold_INST_HANDLE:
  "(\<And>j. k \<le> j \<Longrightarrow> m j = None) \<Longrightarrow>
   snd (snd (fold (\<lambda>(x, f). INST_HANDLE x f) fs (k, k, m))) j = (if j < k then m j else decode_freqs fs (j - k))"
proof (induction fs arbitrary: k m)
  case (Cons p fs)
  obtain x f where p: "p = (x, f)" by (cases p)
  show ?case
    using Cons.prems by (auto simp: p INST_HANDLE_fill Cons.IH not_less)
qed simp

lemma engine_decode: "apply_engine cfg j = decode_freqs (inst_freqs cfg) j"
  by (simp add: apply_engine_def fold_INST_HANDLE)

lemma decode_freqs_total: "n < sum_list (map snd fs) \<Longrightarrow> \<exists>x. decode_freqs fs n = Some x"
  by (induction fs n rule: decode_freqs.induct) auto



end
