(* ===== verification/Rx_Int.thy ===== *)
theory Rx_Int
  imports Rx_Config
begin

text \<open>
  The integer operations of the RandomX machine: \<open>instructions_portable.cpp\<close> and the first part of
  \<open>intrin_portable.h\<close>. A signed 64-bit integer of C is the word with its bits, read with \<open>sint\<close>. Where
  the sources have one version for compilers with 128-bit integers (or two's complement conversions)
  and one without, both are modelled, and the theorems of this file say that they agree.
\<close>

subsection \<open>Conversions\<close>

text \<open>The branch for two's complement machines is a cast; the other spells the conversion out.\<close>

definition unsigned64ToSigned2sCompl :: "u64 \<Rightarrow> u64" where
  "unsigned64ToSigned2sCompl x = x"

definition unsigned64ToSigned2sCompl_other :: "u64 \<Rightarrow> int" where
  "unsigned64ToSigned2sCompl_other x =
     (if x > 0x7FFFFFFFFFFFFFFF then - uint (0xFFFFFFFFFFFFFFFF - x) - 1 else uint x)"

definition unsigned32ToSigned2sCompl_other :: "u32 \<Rightarrow> int" where
  "unsigned32ToSigned2sCompl_other x =
     (if x > 0x7FFFFFFF then - uint (0xFFFFFFFF - x) - 1 else uint x)"

definition signExtend2sCompl :: "u32 \<Rightarrow> u64" where
  "signExtend2sCompl x = scast x"

definition signExtend2sCompl_other :: "u32 \<Rightarrow> u64" where
  "signExtend2sCompl_other x = (if x > 0x7FFFFFFF then ucast x OR 0xFFFFFFFF00000000 else ucast x)"

subsection \<open>Rotations\<close>

text \<open>Rotation counts are taken modulo 64 before the calls; \<open>- b AND 63\<close> is the complement.\<close>

definition rx_rotr64 :: "u64 \<Rightarrow> u32 \<Rightarrow> u64" where
  "rx_rotr64 a b = drop_bit (unat b) a OR push_bit (unat (- b AND 63)) a"

definition rx_rotl64 :: "u64 \<Rightarrow> u32 \<Rightarrow> u64" where
  "rx_rotl64 a b = push_bit (unat b) a OR drop_bit (unat (- b AND 63)) a"

subsection \<open>High halves of products\<close>

definition mulh :: "u64 \<Rightarrow> u64 \<Rightarrow> u64" where
  "mulh a b = ucast (drop_bit 64 (ucast a * ucast b :: 128 word))"

definition smulh :: "u64 \<Rightarrow> u64 \<Rightarrow> u64" where
  "smulh a b = ucast (signed_drop_bit 64 (scast a * scast b :: 128 word))"

definition LO :: "u64 \<Rightarrow> u64" where "LO x = x AND 0xFFFFFFFF"
definition HI :: "u64 \<Rightarrow> u64" where "HI x = drop_bit 32 x"

definition mulh_other :: "u64 \<Rightarrow> u64 \<Rightarrow> u64" where
  "mulh_other a b =
     (let ah = HI a; al = LO a;
          bh = HI b; bl = LO b;
          x00 = al * bl;
          x01 = al * bh;
          x10 = ah * bl;
          x11 = ah * bh;
          m1 = LO x10 + LO x01 + HI x00;
          m2 = HI x10 + HI x01 + LO x11 + HI m1;
          m3 = HI x11 + HI m2
      in push_bit 32 m3 + LO m2)"

text \<open>\<open>smulh_other\<close> is built on whichever \<open>mulh\<close> the platform has.\<close>

definition smulh_other :: "(u64 \<Rightarrow> u64 \<Rightarrow> u64) \<Rightarrow> u64 \<Rightarrow> u64 \<Rightarrow> u64" where
  "smulh_other mulh_impl a b =
     (let hi = mulh_impl a b;
          hi = (if a <s 0 then hi - b else hi);
          hi = (if b <s 0 then hi - a else hi)
      in hi)"

subsection \<open>The two versions agree\<close>

lemma uint_mulh: "uint (mulh a b) = uint a * uint b div 2 ^ 64"
proof -
  have r: "0 \<le> uint a" "uint a < 2 ^ 64" "0 \<le> uint b" "uint b < 2 ^ 64"
    using uint_lt2p [of a] uint_lt2p [of b] by simp_all
  then have lt: "uint a * uint b < 2 ^ 64 * 2 ^ 64" by (intro mult_strict_mono) simp_all
  have "uint (ucast a * ucast b :: 128 word) = uint a * uint b mod 2 ^ 128"
    by (simp add: uint_word_ariths unsigned_ucast_eq take_bit_eq_mod mod_mult_eq)
  also have "\<dots> = uint a * uint b" using lt r by (intro mod_pos_pos_trivial) simp_all
  finally have p: "uint (ucast a * ucast b :: 128 word) = uint a * uint b" .
  have "uint a * uint b div 2 ^ 64 < 2 ^ 64" using lt by (simp add: div_less_iff_less_mult)
  moreover have "0 \<le> uint a * uint b div 2 ^ 64" using r by (simp add: pos_imp_zdiv_nonneg_iff)
  ultimately show ?thesis
    by (simp add: mulh_def unsigned_ucast_eq drop_bit_eq_div uint_div_distrib p take_bit_eq_mod)
qed


lemma uint_LO: "uint (LO x) = uint x mod 2 ^ 32"
proof -
  have "LO x = take_bit 32 x" by (simp add: LO_def take_bit_eq_mask mask_eq_exp_minus_1)
  then show ?thesis by (simp add: take_bit_eq_mod uint_mod_distrib)
qed

lemma uint_HI: "uint (HI x) = uint x div 2 ^ 32"
  by (simp add: HI_def drop_bit_eq_div uint_div_distrib)

lemma uint_mult_small:
  fixes x y :: u64
  assumes "uint x < 2 ^ 32" and "uint y < 2 ^ 32"
  shows "uint (x * y) = uint x * uint y"
proof -
  have "uint x * uint y < 2 ^ 32 * 2 ^ 32" using assms by (intro mult_strict_mono) simp_all
  then show ?thesis by (simp add: uint_word_ariths)
qed

lemma uint_sum_small:
  fixes x y z w :: u64
  shows "uint x + uint y + uint z < 2 ^ 64 \<Longrightarrow> uint (x + y + z) = uint x + uint y + uint z"
    and "uint x + uint y + uint z + uint w < 2 ^ 64 \<Longrightarrow> uint (x + y + z + w) = uint x + uint y + uint z + uint w"
  by (simp_all add: uint_word_ariths mod_simps)

lemma uint_add64: "uint (x + y :: u64) = (uint x + uint y) mod 2 ^ 64"
  by (simp add: uint_word_ariths)

lemma uint_shl32: "uint (push_bit 32 x :: u64) = uint x * 2 ^ 32 mod 2 ^ 64"
  by (simp add: push_bit_eq_mult uint_word_ariths)

text \<open>Long multiplication by halves, on numbers.\<close>

lemma long_multiplication:
  fixes al ah bl bh :: int
  assumes "0 \<le> al" "0 \<le> ah" "0 \<le> bl" "0 \<le> bh"
  defines "R \<equiv> 2 ^ 32"
  defines "m1 \<equiv> (ah * bl) mod R + (al * bh) mod R + (al * bl) div R"
  defines "m2 \<equiv> (ah * bl) div R + (al * bh) div R + (ah * bh) mod R + m1 div R"
  shows "(ah * R + al) * (bh * R + bl) div (R * R) = ((ah * bh) div R + m2 div R) * R + m2 mod R"
proof -
  have R: "0 < R" by (simp add: R_def)
  define p q r s where "p = al * bl" and "q = ah * bl" and "r = al * bh" and "s = ah * bh"
  have "(ah * R + al) * (bh * R + bl) = s * (R * R) + (q + r) * R + p"
    by (simp add: p_def q_def r_def s_def algebra_simps)
  also have "\<dots> = (s * R + (q + r + p div R)) * R + p mod R"
    by (simp add: algebra_simps flip: minus_mod_eq_mult_div)
  finally have e: "(ah * R + al) * (bh * R + bl) = (s * R + (q + r + p div R)) * R + p mod R" .
  have m1: "m1 = q mod R + r mod R + p div R" by (simp add: m1_def p_def q_def r_def)
  have qr: "q + r + p div R = (q div R + r div R) * R + m1"
    unfolding m1 by (simp add: algebra_simps flip: minus_mod_eq_mult_div)
  have m2: "m2 = q div R + r div R + s mod R + m1 div R" by (simp add: m2_def q_def r_def s_def)
  have "(ah * R + al) * (bh * R + bl) div (R * R) = ((s * R + (q + r + p div R)) * R + p mod R) div R div R"
    by (simp add: e zdiv_zmult2_eq R order_less_imp_le)
  also have "((s * R + (q + r + p div R)) * R + p mod R) div R = s * R + (q + r + p div R)"
    using R by (simp add: div_add1_eq)
  also have "s * R + (q + r + p div R) = m1 + (s + (q div R + r div R)) * R"
    unfolding qr by (simp add: algebra_simps)
  also have "\<dots> div R = s + (q div R + r div R) + m1 div R"
    using R by (simp only: div_mult_self1)
  also have "\<dots> = (s div R) * R + m2"
    unfolding m2 by (simp add: algebra_simps flip: minus_mod_eq_mult_div)
  also have "\<dots> = (s div R + m2 div R) * R + m2 mod R"
    by (simp add: algebra_simps flip: minus_mod_eq_mult_div)
  finally show ?thesis by (simp add: s_def)
qed

lemma mulh_other_eq: "mulh_other a b = mulh a b"
proof (rule word_uint_eqI)
  define R where "R = (2 :: int) ^ 32"
  define al ah bl bh where "al = uint (LO a)" and "ah = uint (HI a)" and "bl = uint (LO b)" and "bh = uint (HI b)"
  have ab: "uint a = ah * R + al" "uint b = bh * R + bl"
    by (simp_all add: al_def ah_def bl_def bh_def uint_LO uint_HI R_def)
  have lt: "al < R" "ah < R" "bl < R" "bh < R"
    using uint_lt2p [of a] uint_lt2p [of b]
    by (simp_all add: al_def ah_def bl_def bh_def uint_LO uint_HI R_def div_less_iff_less_mult)
  have ge: "0 \<le> al" "0 \<le> ah" "0 \<le> bl" "0 \<le> bh" by (simp_all add: al_def ah_def bl_def bh_def)
  have x: "uint (LO a * LO b) = al * bl" "uint (LO a * HI b) = al * bh"
    "uint (HI a * LO b) = ah * bl" "uint (HI a * HI b) = ah * bh"
    using lt unfolding al_def ah_def bl_def bh_def R_def by (simp_all add: uint_mult_small)
  have d: "x * y div R \<le> R - 2" if "0 \<le> x" "x < R" "0 \<le> y" "y < R" for x y :: int
  proof -
    have "x * y \<le> (R - 1) * (R - 1)" using that by (intro mult_mono) simp_all
    then have "x * y div R \<le> (R - 1) * (R - 1) div R" by (rule zdiv_mono1) (simp add: R_def)
    also have "\<dots> = R - 2" by (simp add: R_def)
    finally show ?thesis .
  qed
  have nn: "0 \<le> x * y div R" if "0 \<le> x" "0 \<le> y" for x y :: int
    using that by (simp add: R_def pos_imp_zdiv_nonneg_iff)
  have md: "0 \<le> x mod R" "x mod R < R" for x by (simp_all add: R_def)
  define m1 m2 where "m1 = (ah * bl) mod R + (al * bh) mod R + (al * bl) div R"
    and "m2 = (ah * bl) div R + (al * bh) div R + (ah * bh) mod R + m1 div R"
  have m1: "0 \<le> m1" "m1 < 3 * R" "0 \<le> m1 div R" "m1 div R < 3"
    using md [of "ah * bl"] md [of "al * bh"] d [of al bl] nn [of al bl] lt ge
    unfolding m1_def by (simp_all add: R_def pos_imp_zdiv_nonneg_iff div_less_iff_less_mult)
  have m2: "0 \<le> m2" "m2 < 3 * R + 3"
    using md [of "ah * bh"] d [of ah bl] d [of al bh] nn [of ah bl] nn [of al bh] lt ge m1
    unfolding m2_def by linarith+
  have Rle: "3 * R + 3 < 2 ^ 64" "R * R = 2 ^ 64" by (simp_all add: R_def)
  let ?m1 = "LO (HI a * LO b) + LO (LO a * HI b) + HI (LO a * LO b)"
  have "uint (LO (HI a * LO b)) + uint (LO (LO a * HI b)) + uint (HI (LO a * LO b)) = m1"
    by (simp only: uint_LO uint_HI x m1_def R_def)
  then have um1: "uint ?m1 = m1" using m1 Rle by (subst uint_sum_small(1)) simp_all
  let ?m2 = "HI (HI a * LO b) + HI (LO a * HI b) + LO (HI a * HI b) + HI ?m1"
  have "uint (HI (HI a * LO b)) + uint (HI (LO a * HI b)) + uint (LO (HI a * HI b)) + uint (HI ?m1) = m2"
    by (simp only: uint_LO uint_HI x um1 m2_def R_def)
  then have um2: "uint ?m2 = m2" using m2 Rle by (subst uint_sum_small(2)) simp_all
  let ?H = "(ah * bh) div R + m2 div R"
  have prod: "?H * R + m2 mod R = uint a * uint b div (R * R)"
    unfolding ab R_def m2_def m1_def by (rule long_multiplication [OF ge(1,2,3,4), symmetric])
  have H0: "0 \<le> ?H" using nn [OF ge(2,4)] m2(1) by (simp add: R_def pos_imp_zdiv_nonneg_iff)
  have ublt: "uint a * uint b div (R * R) < R * R"
    using uint_mulh [of a b] uint_lt2p [of "mulh a b"] by (simp add: R_def)
  have "?H * R < R * R" using prod ublt md(1) [of m2] by linarith
  then have "?H < R" by (simp add: R_def)
  let ?m3 = "HI (HI a * HI b) + HI ?m2"
  have "uint (HI (HI a * HI b)) + uint (HI ?m2) = ?H" by (simp only: uint_HI x um2 R_def)
  moreover have "?H mod 2 ^ 64 = ?H" using H0 \<open>?H < R\<close> Rle by (intro mod_pos_pos_trivial) simp_all
  ultimately have m3: "uint ?m3 = ?H" by (simp only: uint_add64)
  have "uint (push_bit 32 ?m3 + LO ?m2) = (uint ?m3 * R mod 2 ^ 64 + m2 mod R) mod 2 ^ 64"
    unfolding uint_add64 [of "push_bit 32 ?m3"] uint_shl32 uint_LO [of ?m2] um2 R_def ..
  also have "\<dots> = (?H * R + m2 mod R) mod 2 ^ 64" unfolding m3 by (rule mod_add_left_eq)
  also have "\<dots> = uint (mulh a b)"
    unfolding prod Rle uint_mulh [symmetric] using uint_lt2p [of "mulh a b"]
    by (intro mod_pos_pos_trivial) simp_all
  finally show "uint (mulh_other a b) = uint (mulh a b)" by (simp add: mulh_other_def Let_def)
qed


text \<open>The signed product differs from the unsigned one by a multiple of the operands.\<close>

lemma sint_range_64: "- (2 ^ 63) \<le> sint (x :: u64)" "sint (x :: u64) < 2 ^ 63"
  using sint_ge [of x] sint_lt [of x] by simp_all

lemma uint_sint_64: "uint (x :: u64) = sint x + (if x <s 0 then 2 ^ 64 else 0)"
proof -
  have u: "uint x = sint x mod 2 ^ 64" by (simp add: uint_sint take_bit_eq_mod)
  have n: "x <s 0 \<longleftrightarrow> sint x < 0" by (simp add: word_sless_alt)
  show ?thesis
  proof (cases "sint x < 0")
    case True
    have "sint x mod 2 ^ 64 = (sint x + 2 ^ 64) mod 2 ^ 64" by simp
    also have "\<dots> = sint x + 2 ^ 64" using True sint_range_64 [of x] by (intro mod_pos_pos_trivial) simp_all
    finally show ?thesis using True by (simp add: u n)
  next
    case False
    then have "sint x mod 2 ^ 64 = sint x" using sint_range_64 [of x] by (intro mod_pos_pos_trivial) simp_all
    then show ?thesis using False by (simp add: u n)
  qed
qed

lemma mulh_int: "mulh a b = word_of_int (uint a * uint b div 2 ^ 64)"
  using uint_mulh [of a b] by (metis word_of_int_uint)

lemma smulh_int: "smulh a b = word_of_int (sint a * sint b div 2 ^ 64)"
proof -
  have "\<bar>sint a * sint b\<bar> \<le> 2 ^ 63 * 2 ^ 63"
    unfolding abs_mult using sint_range_64 [of a] sint_range_64 [of b] by (intro mult_mono) auto
  then have b: "- (2 ^ 126) \<le> sint a * sint b" "sint a * sint b \<le> 2 ^ 126" by (simp_all add: abs_le_iff)
  have w: "scast a * scast b = (word_of_int (sint a * sint b) :: 128 word)"
    by (metis of_int_mult of_int_sint scast_eq)
  have "sint (word_of_int (sint a * sint b) :: 128 word) = signed_take_bit 127 (sint a * sint b)"
    by (simp only: sint_sbintrunc') simp
  also have "\<dots> = sint a * sint b" using b by (intro signed_take_bit_int_eq_self) simp_all
  finally have p: "sint (scast a * scast b :: 128 word) = sint a * sint b" by (simp only: w)
  then have q: "sint (signed_drop_bit 64 (scast a * scast b :: 128 word)) = sint a * sint b div 2 ^ 64"
    by (simp add: sint_signed_drop_bit_eq drop_bit_eq_div)
  have "smulh a b = word_of_int (sint (signed_drop_bit 64 (scast a * scast b :: 128 word)))"
    unfolding smulh_def scast_eq [symmetric] 
    by (rule fun_cong [OF down_cast_same]) (simp add: is_down)
  then show ?thesis by (simp only: q)
qed

lemma sint_smulh: "sint (smulh a b) = sint a * sint b div 2 ^ 64"
proof -
  have "\<bar>sint a * sint b\<bar> \<le> 2 ^ 63 * 2 ^ 63"
    unfolding abs_mult using sint_range_64 [of a] sint_range_64 [of b] by (intro mult_mono) auto
  then have "- (2 ^ 126) \<le> sint a * sint b" "sint a * sint b \<le> 2 ^ 126" by (simp_all add: abs_le_iff)
  then have "- (2 ^ 126) div 2 ^ 64 \<le> sint a * sint b div 2 ^ 64" "sint a * sint b div 2 ^ 64 \<le> 2 ^ 126 div 2 ^ 64"
    by (intro zdiv_mono1; simp)+
  then have "- (2 ^ 63) \<le> sint a * sint b div 2 ^ 64" "sint a * sint b div 2 ^ 64 < 2 ^ 63" by simp_all
  then show ?thesis unfolding smulh_int sint_sbintrunc' by (intro signed_take_bit_int_eq_self) simp_all
qed

lemma smulh_other_eq: "smulh_other mulh a b = smulh a b"
proof -
  define \<alpha> \<beta> :: int where "\<alpha> = (if a <s 0 then 1 else 0)" and "\<beta> = (if b <s 0 then 1 else 0)"
  have ua: "uint a = sint a + \<alpha> * 2 ^ 64" and ub: "uint b = sint b + \<beta> * 2 ^ 64"
    by (simp_all add: uint_sint_64 \<alpha>_def \<beta>_def)
  have "uint a * uint b = sint a * sint b + (\<alpha> * sint b + \<beta> * sint a + \<alpha> * \<beta> * 2 ^ 64) * 2 ^ 64"
    unfolding ua ub by (simp add: algebra_simps)
  then have m: "uint a * uint b div 2 ^ 64 = sint a * sint b div 2 ^ 64 + (\<alpha> * sint b + \<beta> * sint a + \<alpha> * \<beta> * 2 ^ 64)"
    by simp
  have s: "word_of_int (sint a) = a" "word_of_int (sint b) = b" by simp_all
  have "word_of_int (\<alpha> * \<beta> * 2 ^ 64) = (0 :: u64)" by (simp only: word_of_int_eq_0_iff take_bit_eq_mod) simp
  then have "word_of_int (\<alpha> * sint b + \<beta> * sint a + \<alpha> * \<beta> * 2 ^ 64) = word_of_int \<alpha> * b + word_of_int \<beta> * a"
    by (simp only: of_int_add of_int_mult s add_0_right)
  then have "mulh a b = smulh a b + (word_of_int \<alpha> * b + word_of_int \<beta> * a)"
    unfolding mulh_int m smulh_int by simp
  then show ?thesis by (simp add: smulh_other_def Let_def \<alpha>_def \<beta>_def)
qed


lemma bit_31: "bit (x :: u32) 31 \<longleftrightarrow> 0x7FFFFFFF < x"
proof -
  have "bit x 31 \<longleftrightarrow> odd (uint x div 2 ^ 31)" using bit_uint_iff [of x 31] by (simp add: bit_iff_odd)
  moreover have "uint x < 2 ^ 32" "0 \<le> uint x" using uint_lt2p [of x] by simp_all
  then have "uint x div 2 ^ 31 = (if 2 ^ 31 \<le> uint x then 1 else 0)"
    by (simp add: div_pos_pos_trivial div_pos_geq)
  ultimately show ?thesis by (simp add: word_less_alt split: if_splits)
qed

lemma signExtend_other_eq: "signExtend2sCompl_other x = signExtend2sCompl x"
proof (rule bit_word_eqI)
  fix n assume "n < LENGTH(64)"
  then have n: "n < 64" by simp
  have "0xFFFFFFFF00000000 = (push_bit 32 (mask 32) :: u64)" by (simp add: mask_eq_exp_minus_1)
  then have h: "bit (0xFFFFFFFF00000000 :: u64) n \<longleftrightarrow> 32 \<le> n"
    using n by (simp only: bit_push_bit_iff bit_mask_iff) auto
  have x: "bit x n \<Longrightarrow> n < 32" using bit_imp_le_length by fastforce
  show "bit (signExtend2sCompl_other x) n = bit (signExtend2sCompl x) n"
  proof (cases "n < 31")
    case True
    with h n show ?thesis
      by (simp add: signExtend2sCompl_other_def signExtend2sCompl_def bit_or_iff bit_unsigned_iff bit_signed_iff)
  next
    case False
    with h n x show ?thesis
      by (cases "n = 31") (auto simp: signExtend2sCompl_other_def signExtend2sCompl_def bit_or_iff bit_unsigned_iff
        bit_signed_iff simp flip: bit_31)
  qed
qed

lemma toSigned_other_eq: "unsigned64ToSigned2sCompl_other x = sint (unsigned64ToSigned2sCompl x)"
proof -
  have "sint x = (if x <s 0 then uint x - 2 ^ 64 else uint x)" using uint_sint_64 [of x] by simp
  moreover have "x <s 0 \<longleftrightarrow> 0x7FFFFFFFFFFFFFFF < x"
    using uint_sint_64 [of x] sint_range_64 [of x] by (auto simp: word_sless_alt word_less_alt split: if_splits)
  moreover have "uint (0xFFFFFFFFFFFFFFFF - x) = 0xFFFFFFFFFFFFFFFF - uint x"
  proof -
    have "uint (0xFFFFFFFFFFFFFFFF - x) = (0xFFFFFFFFFFFFFFFF - uint x) mod 2 ^ 64" by (simp add: uint_word_ariths)
    also have "\<dots> = 0xFFFFFFFFFFFFFFFF - uint x"
    proof (rule mod_pos_pos_trivial)
      have "- 1 < uint x" using uint_ge_0 [of x] by linarith
      then show "0xFFFFFFFFFFFFFFFF - uint x < 2 ^ 64" by simp
    qed (use uint_lt2p [of x] in simp)
    finally show ?thesis .
  qed
  ultimately show ?thesis by (simp add: unsigned64ToSigned2sCompl_other_def unsigned64ToSigned2sCompl_def)
qed

lemma complement_64:
  assumes "0 < b" and "b < (64 :: u32)"
  shows "unat (- b AND 63) = 64 - unat b"
proof -
  have b: "0 < uint b" "uint b < 64" using assms by (simp_all add: word_less_alt)
  have "- b AND 63 = take_bit 6 (- b)" by (simp add: take_bit_eq_mask mask_eq_exp_minus_1)
  then have "uint (- b AND 63) = (- uint b mod 2 ^ 32) mod 64"
    by (simp only: unsigned_take_bit_eq) (simp add: take_bit_eq_mod uint_word_ariths)
  also have "\<dots> = - uint b mod 64" by (rule mod_mod_cancel) simp
  also have "\<dots> = (64 - uint b) mod 64" by (metis minus_mod_self1 mod_self diff_0 mod_diff_left_eq)
  also have "\<dots> = 64 - uint b" using b by (intro mod_pos_pos_trivial) simp_all
  finally have "uint (- b AND 63) = 64 - uint b" .
  then have "int (unat (- b AND 63)) = 64 - int (unat b)" by (simp only: uint_nat)
  then show ?thesis by linarith
qed

lemma rotation_idiom:
  assumes "b < 64"
  shows "rx_rotr64 a b = word_rotr (unat b) a" and "rx_rotl64 a b = word_rotl (unat b) a"
proof -
  have u: "unat b < 64" using assms by (simp add: word_less_nat_alt)
  have "rx_rotr64 a b = word_rotr (unat b) a \<and> rx_rotl64 a b = word_rotl (unat b) a"
  proof (cases "b = 0")
    case False
    then have b: "0 < unat b" "0 < b" by (simp_all add: word_less_nat_alt unat_gt_0)
    have "push_bit (unat b) a OR drop_bit (64 - unat b) a = word_rotr (64 - unat b) a"
      using rotr_idiom [of "64 - unat b" a] u b by (simp add: or.commute)
    moreover have "word_rotr (64 - unat b) a = word_rotl (unat b) a"
      using u b by (intro bit_word_eqI) (simp add: bit_word_rotr_iff bit_word_rotl_iff)
    moreover have "drop_bit (unat b) a OR push_bit (64 - unat b) a = word_rotr (unat b) a"
      using rotr_idiom [of "unat b" a] u b by simp
    ultimately show ?thesis
      by (simp only: rx_rotr64_def rx_rotl64_def complement_64 [OF b(2) assms])
  next
    case True
    have "word_rotr 0 a = a" "word_rotl 0 a = a" by (rule bit_word_eqI, simp add: bit_word_rotr_iff bit_word_rotl_iff)+
    with True show ?thesis by (simp add: rx_rotr64_def rx_rotl64_def)
  qed
  then show "rx_rotr64 a b = word_rotr (unat b) a" and "rx_rotl64 a b = word_rotl (unat b) a" by simp_all
qed

text \<open>
  The versions for compilers without 128-bit integers, and for machines that are not two's
  complement, compute the same as the others, and those compute what they are for: \<open>mulh\<close> and \<open>smulh\<close>
  are the upper halves of the exact unsigned and signed products (rounded down), the sign extension
  keeps the signed value, and the conversion reads the signed value. The rotations are rotations for
  every count below 64, the count 0 included.
\<close>

theorem rx_int_ops_correct:
  "mulh_other a b = mulh a b \<and> uint (mulh a b) = uint a * uint b div 2 ^ 64 \<and>
   smulh_other mulh a b = smulh a b \<and> sint (smulh a b) = sint a * sint b div 2 ^ 64 \<and>
   signExtend2sCompl_other x = signExtend2sCompl x \<and> sint (signExtend2sCompl x) = sint x \<and>
   unsigned64ToSigned2sCompl_other a = sint (unsigned64ToSigned2sCompl a) \<and>
   (c < 64 \<longrightarrow> rx_rotr64 a c = word_rotr (unat c) a \<and> rx_rotl64 a c = word_rotl (unat c) a)"
proof -
  have "sint (signExtend2sCompl x) = sint x" by (simp add: signExtend2sCompl_def sint_up_scast is_up)
  moreover have "sint (smulh a b) = sint a * sint b div 2 ^ 64" by (rule sint_smulh)
  ultimately show ?thesis
    by (simp only: mulh_other_eq uint_mulh smulh_other_eq signExtend_other_eq toSigned_other_eq)
      (simp add: rotation_idiom)
qed

end
