(* ===== verification/Rx_Program.thy ===== *)
theory Rx_Program
  imports Rx_Int
begin

text \<open>
  \<open>instruction.hpp\<close> and \<open>program.hpp\<close>: the 8-byte instruction, the program buffer and the run-time
  configuration of the virtual machine.
\<close>

record Instruction =
  opcode :: u8
  instr_dst :: u8
  instr_src :: u8
  instr_mod :: u8
  imm32 :: u32

definition getImm32 :: "Instruction \<Rightarrow> u32" where "getImm32 instr = imm32 instr"
definition setImm32 :: "u32 \<Rightarrow> Instruction \<Rightarrow> Instruction" where "setImm32 val instr = instr\<lparr>imm32 := val\<rparr>"
definition getModMem :: "Instruction \<Rightarrow> u32" where "getModMem instr = ucast (instr_mod instr) AND 3"
definition getModShift :: "Instruction \<Rightarrow> u32" where "getModShift instr = drop_bit 2 (ucast (instr_mod instr)) AND 3"
definition getModCond :: "Instruction \<Rightarrow> u32" where "getModCond instr = drop_bit 4 (ucast (instr_mod instr))"
definition setMod :: "u8 \<Rightarrow> Instruction \<Rightarrow> Instruction" where "setMod val instr = instr\<lparr>instr_mod := val\<rparr>"

text \<open>The bytes of the object are its fields in order; \<open>imm32\<close> is read in little-endian order.\<close>

definition instruction_of_bytes :: "bytes \<Rightarrow> Instruction" where
  "instruction_of_bytes b =
     \<lparr>opcode = b ! 0, instr_dst = b ! 1, instr_src = b ! 2, instr_mod = b ! 3, imm32 = load32 (drop 4 b)\<rparr>"

definition bytes_of_instruction :: "Instruction \<Rightarrow> bytes" where
  "bytes_of_instruction instr =
     [opcode instr, instr_dst instr, instr_src instr, instr_mod instr] @ store32 (imm32 instr)"

text \<open>
  The bytes of a \<open>Program\<close>: \<open>programBuffer\<close> for 256 instructions, then the 16 words of
  \<open>entropyBuffer\<close>.
\<close>

type_synonym program = bytes

definition program_instr :: "program \<Rightarrow> nat \<Rightarrow> Instruction" where
  "program_instr p pc = instruction_of_bytes (take 8 (drop (8 * pc) p))"

definition getEntropy :: "program \<Rightarrow> nat \<Rightarrow> u64" where
  "getEntropy p i = load64 (drop (8 * RANDOMX_PROGRAM_MAX_SIZE + 8 * i) p)"

record ProgramConfiguration =
  eMask :: "u64 \<times> u64"
  readReg0 :: nat
  readReg1 :: nat
  readReg2 :: nat
  readReg3 :: nat

subsection \<open>Facts\<close>

lemma instruction_roundtrip: "instruction_of_bytes (bytes_of_instruction instr) = instr"
  by (simp add: instruction_of_bytes_def bytes_of_instruction_def)

lemma bytes_roundtrip:
  assumes "length b = 8"
  shows "bytes_of_instruction (instruction_of_bytes b) = b"
proof -
  have "store32 (load32 (drop 4 b)) = drop 4 b"
    using assms by (simp add: store32_def load32_def le_bytes_le_word)
  moreover have "[b ! 0, b ! 1, b ! 2, b ! 3] @ drop 4 b = b"
    using take_nth_expand(1) [of b] assms append_take_drop_id [of 4 b] by simp
  ultimately show ?thesis by (simp add: instruction_of_bytes_def bytes_of_instruction_def)
qed

lemma mod_fields:
  "unat (getModMem instr) < 4" "unat (getModShift instr) < 4" "unat (getModCond instr) < 16"
proof -
  have m: "unat (x AND 3) < 4" for x :: u32
    using word_and_le1 [of x 3] by (simp add: word_le_nat_alt)
  show "unat (getModMem instr) < 4" "unat (getModShift instr) < 4" by (simp_all only: getModMem_def getModShift_def m)
  have "unat (instr_mod instr) < 256" using unsigned_less [of "instr_mod instr"] by simp
  then show "unat (getModCond instr) < 16"
    by (simp add: getModCond_def drop_bit_eq_div unat_div_distrib unsigned_ucast_eq take_bit_eq_mod
        less_mult_imp_div_less)
qed

end
