(* ===== verification/Superscalar.thy ===== *)
theory Superscalar
  imports Blake2_Generator Rx_Int Rx_Program Reciprocal "HOL-Library.Monad_Syntax"
begin

text \<open>
  The superscalar programs of RandomX (\<open>superscalar.cpp\<close>): the generator, which simulates the
  decoder, the execution ports and the register dependencies of a reference CPU, and
  \<open>executeSuperscalar\<close>, which runs a program on eight registers. The random numbers come from a
  \<open>Blake2Generator\<close> over the hash \<open>H\<close>. The C type \<open>int\<close> is \<^typ>\<open>int\<close>: the counters stay below a few
  thousand. An access outside an array, and a rejection loop that never ends, is \<^term>\<open>None\<close>. The
  trace output and the names it prints are left out, and \<open>ipc\<close>, a floating-point statistic of the
  program that nothing reads.
\<close>

subsection \<open>Instructions of the reference CPU\<close>

datatype SuperscalarInstructionType =
  S_ISUB_R | S_IXOR_R | S_IADD_RS | S_IMUL_R | S_IROR_C | S_IADD_C7 | S_IXOR_C7 | S_IADD_C8 | S_IXOR_C8
  | S_IADD_C9 | S_IXOR_C9 | S_IMULH_R | S_ISMULH_R | S_IMUL_RCP | S_INVALID

fun type_code :: "SuperscalarInstructionType \<Rightarrow> int" where
  "type_code S_ISUB_R = 0"
| "type_code S_IXOR_R = 1"
| "type_code S_IADD_RS = 2"
| "type_code S_IMUL_R = 3"
| "type_code S_IROR_C = 4"
| "type_code S_IADD_C7 = 5"
| "type_code S_IXOR_C7 = 6"
| "type_code S_IADD_C8 = 7"
| "type_code S_IXOR_C8 = 8"
| "type_code S_IADD_C9 = 9"
| "type_code S_IXOR_C9 = 10"
| "type_code S_IMULH_R = 11"
| "type_code S_ISMULH_R = 12"
| "type_code S_IMUL_RCP = 13"
| "type_code S_INVALID = - 1"

definition isMultiplication :: "SuperscalarInstructionType \<Rightarrow> bool" where
  "isMultiplication type \<longleftrightarrow> type = S_IMUL_R \<or> type = S_IMULH_R \<or> type = S_ISMULH_R \<or> type = S_IMUL_RCP"

definition P_Null :: int where "P_Null = 0"
definition P0 :: int where "P0 = 1"
definition P1 :: int where "P1 = 2"
definition P5 :: int where "P5 = 4"
definition P01 :: int where "P01 = P0 OR P1"
definition P05 :: int where "P05 = P0 OR P5"
definition P015 :: int where "P015 = P0 OR P1 OR P5"

record MacroOp =
  mop_size :: int
  mop_latency :: int
  uop1 :: int
  uop2 :: int
  dependent :: bool

definition mop0 :: "int \<Rightarrow> MacroOp" where
  "mop0 sz = \<lparr>mop_size = sz, mop_latency = 0, uop1 = P_Null, uop2 = P_Null, dependent = False\<rparr>"

definition mop1 :: "int \<Rightarrow> int \<Rightarrow> int \<Rightarrow> MacroOp" where
  "mop1 sz latency uop = \<lparr>mop_size = sz, mop_latency = latency, uop1 = uop, uop2 = P_Null, dependent = False\<rparr>"

definition mop2 :: "int \<Rightarrow> int \<Rightarrow> int \<Rightarrow> int \<Rightarrow> MacroOp" where
  "mop2 sz latency u1 u2 = \<lparr>mop_size = sz, mop_latency = latency, uop1 = u1, uop2 = u2, dependent = False\<rparr>"

definition isSimple :: "MacroOp \<Rightarrow> bool" where "isSimple mop \<longleftrightarrow> uop2 mop = P_Null"
definition isEliminated :: "MacroOp \<Rightarrow> bool" where "isEliminated mop \<longleftrightarrow> uop1 mop = P_Null"

definition Sub_rr :: MacroOp where "Sub_rr = mop1 3 1 P015"
definition Xor_rr :: MacroOp where "Xor_rr = mop1 3 1 P015"
definition Imul_r :: MacroOp where "Imul_r = mop2 3 4 P1 P5"
definition Mul_r :: MacroOp where "Mul_r = mop2 3 4 P1 P5"
definition Mov_rr :: MacroOp where "Mov_rr = mop0 3"
definition Lea_sib :: MacroOp where "Lea_sib = mop1 4 1 P01"
definition Imul_rr :: MacroOp where "Imul_rr = mop1 4 3 P1"
definition Ror_ri :: MacroOp where "Ror_ri = mop1 4 1 P05"
definition Add_ri :: MacroOp where "Add_ri = mop1 7 1 P015"
definition Xor_ri :: MacroOp where "Xor_ri = mop1 7 1 P015"
definition Mov_ri64 :: MacroOp where "Mov_ri64 = mop1 10 1 P015"

definition IMULH_R_ops_array :: "MacroOp list" where "IMULH_R_ops_array = [Mov_rr, Mul_r, Mov_rr]"
definition ISMULH_R_ops_array :: "MacroOp list" where "ISMULH_R_ops_array = [Mov_rr, Imul_r, Mov_rr]"
definition IMUL_RCP_ops_array :: "MacroOp list" where "IMUL_RCP_ops_array = [Mov_ri64, Imul_rr\<lparr>dependent := True\<rparr>]"

text \<open>What is known of each superscalar instruction; \<open>- 1\<close> stands for no operand.\<close>

record SuperscalarInstructionInfo =
  info_type :: SuperscalarInstructionType
  info_ops :: "MacroOp list"
  info_latency :: int
  resultOp :: int
  dstOp :: int
  srcOp :: int

definition info_none :: SuperscalarInstructionInfo where
  "info_none = \<lparr>info_type = S_INVALID, info_ops = [], info_latency = 0, resultOp = 0, dstOp = 0, srcOp = 0\<rparr>"

definition info_single :: "SuperscalarInstructionType \<Rightarrow> MacroOp \<Rightarrow> int \<Rightarrow> SuperscalarInstructionInfo" where
  "info_single type mop src = \<lparr>info_type = type, info_ops = [mop], info_latency = mop_latency mop, resultOp = 0, dstOp = 0, srcOp = src\<rparr>"

definition info_multi :: "SuperscalarInstructionType \<Rightarrow> MacroOp list \<Rightarrow> int \<Rightarrow> int \<Rightarrow> int \<Rightarrow> SuperscalarInstructionInfo" where
  "info_multi type arr res dst src =
     \<lparr>info_type = type, info_ops = arr, info_latency = sum_list (map mop_latency arr), resultOp = res, dstOp = dst, srcOp = src\<rparr>"

definition Info_ISUB_R :: SuperscalarInstructionInfo where "Info_ISUB_R = info_single S_ISUB_R Sub_rr 0"
definition Info_IXOR_R :: SuperscalarInstructionInfo where "Info_IXOR_R = info_single S_IXOR_R Xor_rr 0"
definition Info_IADD_RS :: SuperscalarInstructionInfo where "Info_IADD_RS = info_single S_IADD_RS Lea_sib 0"
definition Info_IMUL_R :: SuperscalarInstructionInfo where "Info_IMUL_R = info_single S_IMUL_R Imul_rr 0"
definition Info_IROR_C :: SuperscalarInstructionInfo where "Info_IROR_C = info_single S_IROR_C Ror_ri (- 1)"
definition Info_IADD_C7 :: SuperscalarInstructionInfo where "Info_IADD_C7 = info_single S_IADD_C7 Add_ri (- 1)"
definition Info_IXOR_C7 :: SuperscalarInstructionInfo where "Info_IXOR_C7 = info_single S_IXOR_C7 Xor_ri (- 1)"
definition Info_IADD_C8 :: SuperscalarInstructionInfo where "Info_IADD_C8 = info_single S_IADD_C8 Add_ri (- 1)"
definition Info_IXOR_C8 :: SuperscalarInstructionInfo where "Info_IXOR_C8 = info_single S_IXOR_C8 Xor_ri (- 1)"
definition Info_IADD_C9 :: SuperscalarInstructionInfo where "Info_IADD_C9 = info_single S_IADD_C9 Add_ri (- 1)"
definition Info_IXOR_C9 :: SuperscalarInstructionInfo where "Info_IXOR_C9 = info_single S_IXOR_C9 Xor_ri (- 1)"
definition Info_IMULH_R :: SuperscalarInstructionInfo where "Info_IMULH_R = info_multi S_IMULH_R IMULH_R_ops_array 1 0 1"
definition Info_ISMULH_R :: SuperscalarInstructionInfo where "Info_ISMULH_R = info_multi S_ISMULH_R ISMULH_R_ops_array 1 0 1"
definition Info_IMUL_RCP :: SuperscalarInstructionInfo where "Info_IMUL_RCP = info_multi S_IMUL_RCP IMUL_RCP_ops_array 1 1 (- 1)"

definition info_size :: "SuperscalarInstructionInfo \<Rightarrow> int" where "info_size info = int (length (info_ops info))"

definition getOp :: "SuperscalarInstructionInfo \<Rightarrow> int \<Rightarrow> MacroOp option" where
  "getOp info index = (if 0 \<le> index \<and> index < info_size info then Some (info_ops info ! nat index) else None)"

subsection \<open>Decode buffers\<close>

record DecoderBuffer =
  db_index :: int
  db_counts :: "int list"

definition DecoderBuffer_Default :: DecoderBuffer where "DecoderBuffer_Default = \<lparr>db_index = - 1, db_counts = []\<rparr>"
definition decodeBuffer484 :: DecoderBuffer where "decodeBuffer484 = \<lparr>db_index = 0, db_counts = [4, 8, 4]\<rparr>"
definition decodeBuffer7333 :: DecoderBuffer where "decodeBuffer7333 = \<lparr>db_index = 1, db_counts = [7, 3, 3, 3]\<rparr>"
definition decodeBuffer3733 :: DecoderBuffer where "decodeBuffer3733 = \<lparr>db_index = 2, db_counts = [3, 7, 3, 3]\<rparr>"
definition decodeBuffer493 :: DecoderBuffer where "decodeBuffer493 = \<lparr>db_index = 3, db_counts = [4, 9, 3]\<rparr>"
definition decodeBuffer4444 :: DecoderBuffer where "decodeBuffer4444 = \<lparr>db_index = 4, db_counts = [4, 4, 4, 4]\<rparr>"
definition decodeBuffer3310 :: DecoderBuffer where "decodeBuffer3310 = \<lparr>db_index = 5, db_counts = [3, 3, 10]\<rparr>"

definition decodeBuffers :: "DecoderBuffer list" where
  "decodeBuffers = [decodeBuffer484, decodeBuffer7333, decodeBuffer3733, decodeBuffer493]"

definition db_size :: "DecoderBuffer \<Rightarrow> int" where "db_size b = int (length (db_counts b))"

definition fetchNextDefault :: "(bytes \<Rightarrow> bytes) \<Rightarrow> Blake2Generator \<Rightarrow> DecoderBuffer \<times> Blake2Generator" where
  "fetchNextDefault H gen = (let (b, gen) = getByte H gen in (decodeBuffers ! unat (b AND 3), gen))"

definition fetchNext :: "(bytes \<Rightarrow> bytes) \<Rightarrow> SuperscalarInstructionType \<Rightarrow> int \<Rightarrow> int \<Rightarrow> Blake2Generator \<Rightarrow> DecoderBuffer \<times> Blake2Generator" where
  "fetchNext H instrType cycle mulCount gen =
     (if instrType = S_IMULH_R \<or> instrType = S_ISMULH_R then (decodeBuffer3310, gen)
      else if mulCount < cycle + 1 then (decodeBuffer4444, gen)
      else if instrType = S_IMUL_RCP then
        (let (b, gen) = getByte H gen in (if b AND 1 \<noteq> 0 then decodeBuffer484 else decodeBuffer493, gen))
      else fetchNextDefault H gen)"

subsection \<open>Selection of instructions and registers\<close>

definition slot_3 :: "SuperscalarInstructionInfo list" where "slot_3 = [Info_ISUB_R, Info_IXOR_R]"
definition slot_3L :: "SuperscalarInstructionInfo list" where "slot_3L = [Info_ISUB_R, Info_IXOR_R, Info_IMULH_R, Info_ISMULH_R]"
definition slot_4 :: "SuperscalarInstructionInfo list" where "slot_4 = [Info_IROR_C, Info_IADD_RS]"
definition slot_7 :: "SuperscalarInstructionInfo list" where "slot_7 = [Info_IXOR_C7, Info_IADD_C7]"
definition slot_8 :: "SuperscalarInstructionInfo list" where "slot_8 = [Info_IXOR_C8, Info_IADD_C8]"
definition slot_9 :: "SuperscalarInstructionInfo list" where "slot_9 = [Info_IXOR_C9, Info_IADD_C9]"
definition slot_10 :: SuperscalarInstructionInfo where "slot_10 = Info_IMUL_RCP"

definition selectRegister :: "(bytes \<Rightarrow> bytes) \<Rightarrow> int list \<Rightarrow> Blake2Generator \<Rightarrow> int \<Rightarrow> bool \<times> Blake2Generator \<times> int" where
  "selectRegister H availableRegisters gen reg =
     (if length availableRegisters = 0 then (False, gen, reg)
      else if length availableRegisters > 1 then
        (let (x, gen) = getUInt32 H gen in (True, gen, availableRegisters ! (unat x mod length availableRegisters)))
      else (True, gen, availableRegisters ! 0))"

record RegisterInfo =
  reg_latency :: int
  lastOpGroup :: SuperscalarInstructionType
  lastOpPar :: int
  reg_value :: int

definition RegisterInfo_init :: RegisterInfo where
  "RegisterInfo_init = \<lparr>reg_latency = 0, lastOpGroup = S_INVALID, lastOpPar = - 1, reg_value = 0\<rparr>"

record SuperscalarInstruction =
  info :: SuperscalarInstructionInfo
  ssrc :: int
  sdst :: int
  smod :: int
  simm32 :: u32
  opGroup :: SuperscalarInstructionType
  opGroupPar :: int
  canReuse :: bool
  groupParIsSource :: bool

definition SuperscalarInstruction_Null :: SuperscalarInstruction where
  "SuperscalarInstruction_Null =
     \<lparr>info = info_none, ssrc = - 1, sdst = - 1, smod = 0, simm32 = 0, opGroup = S_INVALID, opGroupPar = 0, canReuse = False, groupParIsSource = False\<rparr>"

definition toInstr :: "SuperscalarInstruction \<Rightarrow> Instruction" where
  "toInstr c =
     \<lparr>opcode = word_of_int (type_code (info_type (info c))), instr_dst = word_of_int (sdst c),
      instr_src = word_of_int (if ssrc c \<ge> 0 then ssrc c else sdst c), instr_mod = word_of_int (smod c), imm32 = simm32 c\<rparr>"

text \<open>The rejection loops for the immediate values.\<close>

partial_function (option) ror_imm :: "(bytes \<Rightarrow> bytes) \<Rightarrow> Blake2Generator \<Rightarrow> (u32 \<times> Blake2Generator) option" where
  "ror_imm H gen = (let (b, gen) = getByte H gen; imm = ucast b AND 63 in if imm = 0 then ror_imm H gen else Some (imm, gen))"

partial_function (option) rcp_imm :: "(bytes \<Rightarrow> bytes) \<Rightarrow> Blake2Generator \<Rightarrow> (u32 \<times> Blake2Generator) option" where
  "rcp_imm H gen = (let (imm, gen) = getUInt32 H gen in if isZeroOrPowerOf2 (ucast imm) then rcp_imm H gen else Some (imm, gen))"

definition reset :: "SuperscalarInstruction \<Rightarrow> SuperscalarInstruction" where
  "reset c = c\<lparr>ssrc := - 1, sdst := - 1, canReuse := False, groupParIsSource := False\<rparr>"

definition create :: "(bytes \<Rightarrow> bytes) \<Rightarrow> SuperscalarInstructionInfo \<Rightarrow> Blake2Generator \<Rightarrow> SuperscalarInstruction \<Rightarrow>
    (SuperscalarInstruction \<times> Blake2Generator) option" where
  "create H new_info gen c =
     (let c = reset (c\<lparr>info := new_info\<rparr>);
          add_xor_imm = (\<lambda>grp. let (imm, gen) = getUInt32 H gen
            in Some (c\<lparr>smod := 0, simm32 := imm, opGroup := grp, opGroupPar := - 1\<rparr>, gen));
          high_mul = (\<lambda>grp. let (par, gen) = getUInt32 H gen
            in Some (c\<lparr>canReuse := True, smod := 0, simm32 := 0, opGroup := grp, opGroupPar := sint par\<rparr>, gen))
      in case info_type new_info of
           S_ISUB_R \<Rightarrow> Some (c\<lparr>smod := 0, simm32 := 0, opGroup := S_IADD_RS, groupParIsSource := True\<rparr>, gen)
         | S_IXOR_R \<Rightarrow> Some (c\<lparr>smod := 0, simm32 := 0, opGroup := S_IXOR_R, groupParIsSource := True\<rparr>, gen)
         | S_IADD_RS \<Rightarrow>
             (let (b, gen) = getByte H gen
              in Some (c\<lparr>smod := uint b, simm32 := 0, opGroup := S_IADD_RS, groupParIsSource := True\<rparr>, gen))
         | S_IMUL_R \<Rightarrow> Some (c\<lparr>smod := 0, simm32 := 0, opGroup := S_IMUL_R, groupParIsSource := True\<rparr>, gen)
         | S_IROR_C \<Rightarrow>
             map_option (\<lambda>(imm, gen). (c\<lparr>smod := 0, simm32 := imm, opGroup := S_IROR_C, opGroupPar := - 1\<rparr>, gen)) (ror_imm H gen)
         | S_IADD_C7 \<Rightarrow> add_xor_imm S_IADD_C7
         | S_IADD_C8 \<Rightarrow> add_xor_imm S_IADD_C7
         | S_IADD_C9 \<Rightarrow> add_xor_imm S_IADD_C7
         | S_IXOR_C7 \<Rightarrow> add_xor_imm S_IXOR_C7
         | S_IXOR_C8 \<Rightarrow> add_xor_imm S_IXOR_C7
         | S_IXOR_C9 \<Rightarrow> add_xor_imm S_IXOR_C7
         | S_IMULH_R \<Rightarrow> high_mul S_IMULH_R
         | S_ISMULH_R \<Rightarrow> high_mul S_ISMULH_R
         | S_IMUL_RCP \<Rightarrow>
             map_option (\<lambda>(imm, gen). (c\<lparr>smod := 0, simm32 := imm, opGroup := S_IMUL_RCP, opGroupPar := - 1\<rparr>, gen)) (rcp_imm H gen)
         | S_INVALID \<Rightarrow> Some (c, gen))"

definition createForSlot :: "(bytes \<Rightarrow> bytes) \<Rightarrow> Blake2Generator \<Rightarrow> int \<Rightarrow> int \<Rightarrow> bool \<Rightarrow> SuperscalarInstruction \<Rightarrow>
    (SuperscalarInstruction \<times> Blake2Generator) option" where
  "createForSlot H gen slotSize fetchType isLast c =
     (let pick = (\<lambda>slot m. let (b, gen) = getByte H gen in create H (slot ! unat (b AND m)) gen c)
      in if slotSize = 3 then (if isLast then pick slot_3L 3 else pick slot_3 1)
         else if slotSize = 4 then (if fetchType = 4 \<and> \<not> isLast then create H Info_IMUL_R gen c else pick slot_4 1)
         else if slotSize = 7 then pick slot_7 1
         else if slotSize = 8 then pick slot_8 1
         else if slotSize = 9 then pick slot_9 1
         else if slotSize = 10 then create H slot_10 gen c
         else None)"

definition selectDestination :: "(bytes \<Rightarrow> bytes) \<Rightarrow> int \<Rightarrow> bool \<Rightarrow> RegisterInfo list \<Rightarrow> Blake2Generator \<Rightarrow> SuperscalarInstruction \<Rightarrow>
    bool \<times> Blake2Generator \<times> SuperscalarInstruction" where
  "selectDestination H cycle allowChainedMul registers gen c =
     (let availableRegisters = filter (\<lambda>i.
            reg_latency (registers ! nat i) \<le> cycle \<and>
            (canReuse c \<or> i \<noteq> ssrc c) \<and>
            (allowChainedMul \<or> opGroup c \<noteq> S_IMUL_R \<or> lastOpGroup (registers ! nat i) \<noteq> S_IMUL_R) \<and>
            (lastOpGroup (registers ! nat i) \<noteq> opGroup c \<or> lastOpPar (registers ! nat i) \<noteq> opGroupPar c) \<and>
            (info_type (info c) \<noteq> S_IADD_RS \<or> i \<noteq> int RegisterNeedsDisplacement)) [0..7];
          (found, gen, reg) = selectRegister H availableRegisters gen (sdst c)
      in (found, gen, c\<lparr>sdst := reg\<rparr>))"

definition selectSource :: "(bytes \<Rightarrow> bytes) \<Rightarrow> int \<Rightarrow> RegisterInfo list \<Rightarrow> Blake2Generator \<Rightarrow> SuperscalarInstruction \<Rightarrow>
    bool \<times> Blake2Generator \<times> SuperscalarInstruction" where
  "selectSource H cycle registers gen c =
     (let availableRegisters = filter (\<lambda>i. reg_latency (registers ! nat i) \<le> cycle) [0..7]
      in if length availableRegisters = 2 \<and> info_type (info c) = S_IADD_RS \<and>
            (availableRegisters ! 0 = int RegisterNeedsDisplacement \<or> availableRegisters ! 1 = int RegisterNeedsDisplacement)
         then (True, gen, c\<lparr>opGroupPar := int RegisterNeedsDisplacement, ssrc := int RegisterNeedsDisplacement\<rparr>)
         else (let (found, gen, reg) = selectRegister H availableRegisters gen (ssrc c);
                   c = c\<lparr>ssrc := reg\<rparr>
               in (found, gen, if found \<and> groupParIsSource c then c\<lparr>opGroupPar := ssrc c\<rparr> else c)))"

subsection \<open>Scheduling\<close>

definition CYCLE_MAP_SIZE :: nat where "CYCLE_MAP_SIZE = RANDOMX_SUPERSCALAR_MAX_LATENCY + 4"
definition LOOK_FORWARD_CYCLES :: nat where "LOOK_FORWARD_CYCLES = 4"
definition MAX_THROWAWAY_COUNT :: int where "MAX_THROWAWAY_COUNT = 256"

type_synonym port_map = "int list list"

definition port_free :: "port_map \<Rightarrow> int \<Rightarrow> nat \<Rightarrow> bool" where
  "port_free portBusy cycle port \<longleftrightarrow> portBusy ! nat cycle ! port = 0"

definition port_take :: "bool \<Rightarrow> int \<Rightarrow> port_map \<Rightarrow> int \<Rightarrow> nat \<Rightarrow> port_map" where
  "port_take commit uop portBusy cycle port =
     (if commit then portBusy[nat cycle := (portBusy ! nat cycle)[port := uop]] else portBusy)"

text \<open>The end of the port map that the loops use.\<close>

definition last_cycle :: int where "last_cycle = int SuperscalarLatency + 4"

function scheduleUop :: "bool \<Rightarrow> int \<Rightarrow> port_map \<Rightarrow> int \<Rightarrow> int \<times> port_map" where
  "scheduleUop commit uop portBusy cycle =
     (if cycle < last_cycle then
        if uop AND P5 \<noteq> 0 \<and> port_free portBusy cycle 2 then (cycle, port_take commit uop portBusy cycle 2)
        else if uop AND P0 \<noteq> 0 \<and> port_free portBusy cycle 0 then (cycle, port_take commit uop portBusy cycle 0)
        else if uop AND P1 \<noteq> 0 \<and> port_free portBusy cycle 1 then (cycle, port_take commit uop portBusy cycle 1)
        else scheduleUop commit uop portBusy (cycle + 1)
      else (- 1, portBusy))"
  by pat_completeness auto

termination scheduleUop
  by (relation "measure (\<lambda>(_, _, _, cycle). nat (last_cycle - cycle))") simp_all

declare scheduleUop.simps [simp del]

text \<open>The search for a cycle in which both micro-operations execute.\<close>

function schedule_pair :: "bool \<Rightarrow> MacroOp \<Rightarrow> port_map \<Rightarrow> int \<Rightarrow> int \<times> port_map" where
  "schedule_pair commit mop portBusy cycle =
     (if cycle < last_cycle then
        (let cycle1 = fst (scheduleUop False (uop1 mop) portBusy cycle);
             cycle2 = fst (scheduleUop False (uop2 mop) portBusy cycle)
         in if cycle1 \<ge> 0 \<and> cycle1 = cycle2 then
              (cycle1,
               if commit then snd (scheduleUop True (uop2 mop) (snd (scheduleUop True (uop1 mop) portBusy cycle1)) cycle2)
               else portBusy)
            else schedule_pair commit mop portBusy (cycle + 1))
      else (- 1, portBusy))"
  by pat_completeness auto

termination schedule_pair
  by (relation "measure (\<lambda>(_, _, _, cycle). nat (last_cycle - cycle))") simp_all

declare schedule_pair.simps [simp del]

definition scheduleMop :: "bool \<Rightarrow> MacroOp \<Rightarrow> port_map \<Rightarrow> int \<Rightarrow> int \<Rightarrow> int \<times> port_map" where
  "scheduleMop commit mop portBusy cycle depCycle =
     (let cycle = (if dependent mop then (if cycle > depCycle then cycle else depCycle) else cycle)
      in if isEliminated mop then (cycle, portBusy)
         else if isSimple mop then scheduleUop commit (uop1 mop) portBusy cycle
         else schedule_pair commit mop portBusy cycle)"

subsection \<open>The generator\<close>

record SuperscalarProgram =
  ss_programBuffer :: "Instruction list"
  ss_size :: u32
  addrReg :: int
  ss_codeSize :: int
  ss_macroOps :: int
  ss_decodeCycles :: int
  ss_cpuLatency :: int
  ss_asicLatency :: int
  ss_mulCount :: int
  cpuLatencies :: "int list"
  asicLatencies :: "int list"

text \<open>The local variables of \<open>generateSuperscalar\<close> and its two arguments.\<close>

record gen_state =
  portBusy :: port_map
  registers :: "RegisterInfo list"
  currentInstruction :: SuperscalarInstruction
  macroOpIndex :: int
  codeSize :: int
  macroOpCount :: int
  cycle :: int
  depCycle :: int
  retireCycle :: int
  portsSaturated :: bool
  programSize :: int
  mulCount :: int
  throwAwayCount :: int
  gprog :: "Instruction list"
  ggen :: Blake2Generator

definition max_program :: int where "max_program = 3 * int SuperscalarLatency + 2"

definition cur_size :: "gen_state \<Rightarrow> int" where "cur_size s = info_size (info (currentInstruction s))"

text \<open>The loops that look for an operand up to \<open>LOOK_FORWARD_CYCLES\<close> ahead; the result says whether one was found.\<close>

fun find_source :: "(bytes \<Rightarrow> bytes) \<Rightarrow> nat \<Rightarrow> int \<Rightarrow> gen_state \<Rightarrow> bool \<times> int \<times> gen_state" where
  "find_source H 0 scheduleCycle s = (False, scheduleCycle, s)"
| "find_source H (Suc left) scheduleCycle s =
     (let (found, gen, c) = selectSource H scheduleCycle (registers s) (ggen s) (currentInstruction s);
          s = s\<lparr>ggen := gen, currentInstruction := c\<rparr>
      in if found then (True, scheduleCycle, s) else find_source H left (scheduleCycle + 1) (s\<lparr>cycle := cycle s + 1\<rparr>))"

fun find_destination :: "(bytes \<Rightarrow> bytes) \<Rightarrow> nat \<Rightarrow> int \<Rightarrow> gen_state \<Rightarrow> bool \<times> int \<times> gen_state" where
  "find_destination H 0 scheduleCycle s = (False, scheduleCycle, s)"
| "find_destination H (Suc left) scheduleCycle s =
     (let (found, gen, c) = selectDestination H scheduleCycle (throwAwayCount s > 0) (registers s) (ggen s) (currentInstruction s);
          s = s\<lparr>ggen := gen, currentInstruction := c\<rparr>
      in if found then (True, scheduleCycle, s) else find_destination H left (scheduleCycle + 1) (s\<lparr>cycle := cycle s + 1\<rparr>))"

text \<open>
  The operands of a macro-operation: the source if this operation reads it, then the destination if
  it selects it.
\<close>

definition find_operands :: "(bytes \<Rightarrow> bytes) \<Rightarrow> int \<Rightarrow> gen_state \<Rightarrow> bool \<times> int \<times> gen_state" where
  "find_operands H scheduleCycle s =
     (let (found, scheduleCycle, s) =
        (if macroOpIndex s = srcOp (info (currentInstruction s)) then find_source H LOOK_FORWARD_CYCLES scheduleCycle s
         else (True, scheduleCycle, s))
      in if found \<and> macroOpIndex s = dstOp (info (currentInstruction s)) then find_destination H LOOK_FORWARD_CYCLES scheduleCycle s
         else (found, scheduleCycle, s))"

text \<open>
  The body of the loop over the slots of a decode buffer. Its result says whether the loop goes on
  and gives the next \<open>bufferIndex\<close>: \<open>throw_away\<close> is the \<open>continue\<close> or the \<open>break\<close> after a failed
  search, \<open>issue\<close> the rest of the body once the operands are known.
\<close>

definition throw_away :: "int \<Rightarrow> gen_state \<Rightarrow> bool \<times> int \<times> gen_state" where
  "throw_away bufferIndex s =
     (if throwAwayCount s < MAX_THROWAWAY_COUNT
      then (True, bufferIndex, s\<lparr>throwAwayCount := throwAwayCount s + 1, macroOpIndex := cur_size s\<rparr>)
      else (False, bufferIndex, s\<lparr>currentInstruction := SuperscalarInstruction_Null\<rparr>))"

definition issue :: "MacroOp \<Rightarrow> int \<Rightarrow> int \<Rightarrow> int \<Rightarrow> gen_state \<Rightarrow> (bool \<times> int \<times> gen_state) option" where
  "issue mop topCycle scheduleCycle bufferIndex s =
     (let s = s\<lparr>throwAwayCount := 0\<rparr>;
          (scheduleCycle, busy) = scheduleMop True mop (portBusy s) scheduleCycle scheduleCycle;
          s = s\<lparr>portBusy := busy\<rparr>
      in if scheduleCycle < 0 then Some (False, bufferIndex, s\<lparr>portsSaturated := True\<rparr>)
         else do {
           let s = s\<lparr>depCycle := scheduleCycle + mop_latency mop\<rparr>;
           s \<leftarrow> (if macroOpIndex s = resultOp (info (currentInstruction s)) then do {
                  let dst = sdst (currentInstruction s);
                  ri \<leftarrow> (if 0 \<le> dst \<and> dst < 8 then Some (registers s ! nat dst) else None);
                  let ri = ri\<lparr>reg_latency := depCycle s, lastOpGroup := opGroup (currentInstruction s), lastOpPar := opGroupPar (currentInstruction s)\<rparr>;
                  Some (s\<lparr>retireCycle := depCycle s, registers := (registers s)[nat dst := ri]\<rparr>)
                } else Some s);
           let s = s\<lparr>codeSize := codeSize s + mop_size mop, macroOpIndex := macroOpIndex s + 1, macroOpCount := macroOpCount s + 1\<rparr>;
           let s = (if scheduleCycle \<ge> int SuperscalarLatency then s\<lparr>portsSaturated := True\<rparr> else s);
           let s = s\<lparr>cycle := topCycle\<rparr>;
           s \<leftarrow> (if macroOpIndex s \<ge> cur_size s then
                  if 0 \<le> programSize s \<and> programSize s < int (length (gprog s)) then
                    Some (s\<lparr>gprog := (gprog s)[nat (programSize s) := toInstr (currentInstruction s)], programSize := programSize s + 1,
                           mulCount := mulCount s + of_bool (isMultiplication (info_type (info (currentInstruction s))))\<rparr>)
                  else None
                else Some s);
           Some (True, bufferIndex + 1, s)
         })"

text \<open>A new instruction, when all operations of the last one have been issued.\<close>

definition next_instruction :: "(bytes \<Rightarrow> bytes) \<Rightarrow> DecoderBuffer \<Rightarrow> int \<Rightarrow> gen_state \<Rightarrow> gen_state option" where
  "next_instruction H buf bufferIndex s =
     map_option (\<lambda>(c, gen). s\<lparr>currentInstruction := c, ggen := gen, macroOpIndex := 0\<rparr>)
       (createForSlot H (ggen s) (db_counts buf ! nat bufferIndex) (db_index buf) (db_size buf = bufferIndex + 1) (currentInstruction s))"

definition fill_slot :: "(bytes \<Rightarrow> bytes) \<Rightarrow> DecoderBuffer \<Rightarrow> int \<Rightarrow> gen_state \<Rightarrow> (bool \<times> int \<times> gen_state) option" where
  "fill_slot H buf bufferIndex s =
     (let topCycle = cycle s;
          fresh = macroOpIndex s \<ge> cur_size s
      in if fresh \<and> (portsSaturated s \<or> programSize s \<ge> max_program) then Some (False, bufferIndex, s)
         else do {
           s \<leftarrow> (if fresh then next_instruction H buf bufferIndex s else Some s);
           mop \<leftarrow> getOp (info (currentInstruction s)) (macroOpIndex s);
           let scheduleCycle = fst (scheduleMop False mop (portBusy s) (cycle s) (depCycle s));
           if scheduleCycle < 0 then Some (False, bufferIndex, s\<lparr>portsSaturated := True\<rparr>)
           else do {
             let (found, scheduleCycle, s) = find_operands H scheduleCycle s;
             if found then issue mop topCycle scheduleCycle bufferIndex s
             else Some (throw_away bufferIndex s)
           }
         })"

lemma find_source_keeps:
  "throwAwayCount (snd (snd (find_source H n c s))) = throwAwayCount s"
  by (induction H n c s rule: find_source.induct) (simp_all add: Let_def split: prod.split)

lemma find_destination_keeps:
  "throwAwayCount (snd (snd (find_destination H n c s))) = throwAwayCount s"
  by (induction H n c s rule: find_destination.induct) (simp_all add: Let_def split: prod.split)

text \<open>Each pass of the loop fills a slot or throws an instruction away.\<close>

lemma throw_away_progress:
  "throw_away i s = (True, i', s') \<Longrightarrow> i' = i \<and> throwAwayCount s < MAX_THROWAWAY_COUNT \<and> throwAwayCount s' = throwAwayCount s + 1"
  by (auto simp: throw_away_def split: if_splits)

lemma issue_progress: "issue mop t sc i s = Some (True, i', s') \<Longrightarrow> i' = i + 1"
  by (auto simp: issue_def Let_def split: if_splits prod.splits Option.bind_splits)

lemma find_operands_keeps: "throwAwayCount (snd (snd (find_operands H c s))) = throwAwayCount s"
  using find_source_keeps [of H LOOK_FORWARD_CYCLES c s] find_destination_keeps [of H LOOK_FORWARD_CYCLES]
  by (simp add: find_operands_def split: prod.split) (metis snd_conv)

lemma next_instruction_keeps: "next_instruction H buf i s = Some s' \<Longrightarrow> throwAwayCount s' = throwAwayCount s"
  by (auto simp: next_instruction_def)

lemma fill_slot_progress:
  assumes "fill_slot H buf i s = Some (True, i', s')"
  shows "i' = i + 1 \<or> i' = i \<and> throwAwayCount s < MAX_THROWAWAY_COUNT \<and> throwAwayCount s' = throwAwayCount s + 1"
proof -
  obtain t mop sc where t: "throwAwayCount t = throwAwayCount s"
    and r: "(case find_operands H sc t of (found, sc, t) \<Rightarrow> if found then issue mop (cycle s) sc i t else Some (throw_away i t)) = Some (True, i', s')"
    using assms next_instruction_keeps [of H buf i s]
    by (auto simp: fill_slot_def Let_def split: if_split_asm Option.bind_split_asm)
  obtain found sc' t' where f: "find_operands H sc t = (found, sc', t')" by (cases "find_operands H sc t")
  then have "throwAwayCount t' = throwAwayCount s" using find_operands_keeps [of H sc t] t by simp
  then show ?thesis using r f by (auto split: if_split_asm dest: throw_away_progress issue_progress)
qed

function fill_buffer :: "(bytes \<Rightarrow> bytes) \<Rightarrow> DecoderBuffer \<Rightarrow> int \<Rightarrow> gen_state \<Rightarrow> gen_state option" where
  "fill_buffer H buf bufferIndex s =
     (if bufferIndex < db_size buf then
        (case fill_slot H buf bufferIndex s of
           None \<Rightarrow> None
         | Some (go, bufferIndex, s) \<Rightarrow> if go then fill_buffer H buf bufferIndex s else Some s)
      else Some s)"
  by pat_completeness auto

termination fill_buffer
proof (relation "measures [\<lambda>(_, buf, i, s). nat (db_size buf - i), \<lambda>(_, buf, i, s). nat (MAX_THROWAWAY_COUNT - throwAwayCount s)]")
  fix H buf i s r go y i' s'
  assume "i < db_size buf" "fill_slot H buf i s = Some r" "(go, y) = r" "(i', s') = y" "go"
  then show "((H, buf, i', s'), H, buf, i, s) \<in>
      measures [\<lambda>(_, buf, i, s). nat (db_size buf - i), \<lambda>(_, buf, i, s). nat (MAX_THROWAWAY_COUNT - throwAwayCount s)]"
    using fill_slot_progress [of H buf i s i' s'] by auto
qed simp

declare fill_buffer.simps [simp del]

text \<open>The loop over the decode cycles.\<close>

function decode_cycles :: "(bytes \<Rightarrow> bytes) \<Rightarrow> int \<Rightarrow> gen_state \<Rightarrow> (int \<times> gen_state) option" where
  "decode_cycles H decodeCycle s =
     (if decodeCycle < int SuperscalarLatency \<and> \<not> portsSaturated s \<and> programSize s < max_program then
        (let (buf, gen) = fetchNext H (info_type (info (currentInstruction s))) decodeCycle (mulCount s) (ggen s)
         in case fill_buffer H buf 0 (s\<lparr>ggen := gen\<rparr>) of
              None \<Rightarrow> None
            | Some s \<Rightarrow> decode_cycles H (decodeCycle + 1) (s\<lparr>cycle := cycle s + 1\<rparr>))
      else Some (decodeCycle, s))"
  by pat_completeness auto

termination decode_cycles
  by (relation "measure (\<lambda>(_, c, _). nat (int SuperscalarLatency - c))") simp_all

declare decode_cycles.simps [simp del]

text \<open>The latencies of a program on hardware with unlimited parallelism.\<close>

fun asic_latencies :: "Instruction list \<Rightarrow> int list \<Rightarrow> int list option" where
  "asic_latencies [] lat = Some lat"
| "asic_latencies (instr # prog) lat = do {
     dst \<leftarrow> nth_opt lat (unat (instr_dst instr));
     src \<leftarrow> (if instr_dst instr \<noteq> instr_src instr then map_option (\<lambda>l. l + 1) (nth_opt lat (unat (instr_src instr))) else Some 0);
     let latDst = dst + 1;
     asic_latencies prog (lat[unat (instr_dst instr) := if latDst > src then latDst else src])
   }"

definition address_register :: "int list \<Rightarrow> int \<times> int" where
  "address_register lat = fold (\<lambda>i (latMax, reg). if lat ! i > latMax then (lat ! i, int i) else (latMax, reg)) [0..<8] (0, 0)"

definition gen_start :: "Instruction list \<Rightarrow> Blake2Generator \<Rightarrow> gen_state" where
  "gen_start buffer gen =
     \<lparr>portBusy = replicate CYCLE_MAP_SIZE (replicate 3 0), registers = replicate 8 RegisterInfo_init,
      currentInstruction = SuperscalarInstruction_Null, macroOpIndex = 0, codeSize = 0, macroOpCount = 0, cycle = 0,
      depCycle = 0, retireCycle = 0, portsSaturated = False, programSize = 0, mulCount = 0, throwAwayCount = 0,
      gprog = buffer, ggen = gen\<rparr>"

definition generateSuperscalar :: "(bytes \<Rightarrow> bytes) \<Rightarrow> SuperscalarProgram \<Rightarrow> Blake2Generator \<Rightarrow> (SuperscalarProgram \<times> Blake2Generator) option" where
  "generateSuperscalar H prog gen = do {
     (decodeCycle, s) \<leftarrow> decode_cycles H 0 (gen_start (ss_programBuffer prog) gen);
     lat \<leftarrow> asic_latencies (take (nat (programSize s)) (gprog s)) (replicate 8 0);
     let (asicLatencyMax, addressReg) = address_register lat;
     Some (\<lparr>ss_programBuffer = gprog s, ss_size = word_of_int (programSize s), addrReg = addressReg, ss_codeSize = codeSize s,
            ss_macroOps = macroOpCount s, ss_decodeCycles = decodeCycle, ss_cpuLatency = retireCycle s, ss_asicLatency = asicLatencyMax,
            ss_mulCount = mulCount s, cpuLatencies = map reg_latency (registers s), asicLatencies = lat\<rparr>, ggen s)
   }"

subsection \<open>Execution\<close>

text \<open>One instruction; a register number outside \<open>r\<close> and an opcode outside the type are \<^term>\<open>None\<close>.\<close>

definition superscalar_types :: "SuperscalarInstructionType list" where
  "superscalar_types = [S_ISUB_R, S_IXOR_R, S_IADD_RS, S_IMUL_R, S_IROR_C, S_IADD_C7, S_IXOR_C7, S_IADD_C8, S_IXOR_C8,
     S_IADD_C9, S_IXOR_C9, S_IMULH_R, S_ISMULH_R, S_IMUL_RCP]"

definition superscalar_op :: "SuperscalarInstructionType \<Rightarrow> Instruction \<Rightarrow> u64 \<Rightarrow> u64 option \<Rightarrow> u64 option" where
  "superscalar_op type instr dst src =
     (case type of
        S_ISUB_R \<Rightarrow> map_option (\<lambda>src. dst - src) src
      | S_IXOR_R \<Rightarrow> map_option (\<lambda>src. dst XOR src) src
      | S_IADD_RS \<Rightarrow> map_option (\<lambda>src. dst + push_bit (unat (getModShift instr)) src) src
      | S_IMUL_R \<Rightarrow> map_option (\<lambda>src. dst * src) src
      | S_IROR_C \<Rightarrow> Some (rx_rotr64 dst (getImm32 instr))
      | S_IADD_C7 \<Rightarrow> Some (dst + signExtend2sCompl (getImm32 instr))
      | S_IADD_C8 \<Rightarrow> Some (dst + signExtend2sCompl (getImm32 instr))
      | S_IADD_C9 \<Rightarrow> Some (dst + signExtend2sCompl (getImm32 instr))
      | S_IXOR_C7 \<Rightarrow> Some (dst XOR signExtend2sCompl (getImm32 instr))
      | S_IXOR_C8 \<Rightarrow> Some (dst XOR signExtend2sCompl (getImm32 instr))
      | S_IXOR_C9 \<Rightarrow> Some (dst XOR signExtend2sCompl (getImm32 instr))
      | S_IMULH_R \<Rightarrow> map_option (\<lambda>src. mulh dst src) src
      | S_ISMULH_R \<Rightarrow> map_option (\<lambda>src. smulh dst src) src
      | S_IMUL_RCP \<Rightarrow> map_option (\<lambda>rcp. dst * rcp) (randomx_reciprocal (ucast (getImm32 instr)))
      | S_INVALID \<Rightarrow> None)"

definition superscalar_step :: "Instruction \<Rightarrow> u64 list \<Rightarrow> u64 list option" where
  "superscalar_step instr r = do {
     type \<leftarrow> nth_opt superscalar_types (unat (opcode instr));
     dst \<leftarrow> nth_opt r (unat (instr_dst instr));
     v \<leftarrow> superscalar_op type instr dst (nth_opt r (unat (instr_src instr)));
     upd_opt r (unat (instr_dst instr)) v
   }"

fun superscalar_steps :: "Instruction list \<Rightarrow> u64 list \<Rightarrow> u64 list option" where
  "superscalar_steps [] r = Some r"
| "superscalar_steps (instr # prog) r = Option.bind (superscalar_step instr r) (superscalar_steps prog)"

definition executeSuperscalar :: "u64 list \<Rightarrow> SuperscalarProgram \<Rightarrow> u64 list option" where
  "executeSuperscalar r prog = superscalar_steps (take (unat (ss_size prog)) (ss_programBuffer prog)) r"

end
