(* ===== verification/Superscalar_Safety.thy ===== *)
theory Superscalar_Safety
  imports Superscalar
begin

text \<open>
  The superscalar generator makes good programs. The invariant of its state covers the instruction
  under construction, the registers and the program written so far; each part of the loop keeps it.
  The generator can only fail to return in the rejection loops for the immediate values, which is a
  matter of the random numbers: \<open>productive H\<close> says that these loops end over the hash \<open>H\<close>.
\<close>

subsection \<open>Good instructions and programs\<close>

definition superscalar_instr_ok :: "Instruction \<Rightarrow> bool" where
  "superscalar_instr_ok instr \<longleftrightarrow>
     unat (opcode instr) < 14 \<and> unat (instr_dst instr) < 8 \<and> unat (instr_src instr) < 8 \<and>
     (opcode instr = 2 \<longrightarrow> instr_dst instr \<noteq> 5) \<and>
     (unat (opcode instr) < 4 \<longrightarrow> instr_dst instr \<noteq> instr_src instr) \<and>
     (opcode instr = 4 \<longrightarrow> imm32 instr \<noteq> 0 \<and> unat (imm32 instr) < 64) \<and>
     (opcode instr = 13 \<longrightarrow> \<not> isZeroOrPowerOf2 (ucast (imm32 instr)))"

definition superscalar_ok :: "SuperscalarProgram \<Rightarrow> bool" where
  "superscalar_ok prog \<longleftrightarrow>
     unat (ss_size prog) \<le> 3 * SuperscalarLatency + 2 \<and> unat (ss_size prog) \<le> length (ss_programBuffer prog) \<and>
     (\<forall>i<unat (ss_size prog). superscalar_instr_ok (ss_programBuffer prog ! i)) \<and> 0 \<le> addrReg prog \<and> addrReg prog < 8"

subsection \<open>Random choices\<close>

definition productive :: "(bytes \<Rightarrow> bytes) \<Rightarrow> bool" where
  "productive H \<longleftrightarrow> (\<forall>g. gen_ok g \<longrightarrow> ror_imm H g \<noteq> None \<and> rcp_imm H g \<noteq> None)"

lemma unat_and_63: "unat (w AND 63 :: u32) < 64"
  using word_and_le1 [of w 63] by (simp add: word_le_nat_alt)

lemma ror_imm_result:
  "ror_imm H g = Some r \<Longrightarrow> hash_ok H \<longrightarrow> gen_ok g \<longrightarrow> fst r \<noteq> 0 \<and> unat (fst r) < 64 \<and> gen_ok (snd r)"
proof (erule ror_imm.raw_induct [rotated], intro impI)
  fix f :: "(bytes \<Rightarrow> bytes) \<Rightarrow> Blake2Generator \<Rightarrow> (u32 \<times> Blake2Generator) option" and H g r
  assume f: "\<And>H g r. f H g = Some r \<Longrightarrow> hash_ok H \<longrightarrow> gen_ok g \<longrightarrow> fst r \<noteq> 0 \<and> unat (fst r) < 64 \<and> gen_ok (snd r)"
    and r: "(let (b, gen) = getByte H g; imm = ucast b AND 63 in if imm = 0 then f H gen else Some (imm, gen)) = Some r"
    and ok: "hash_ok H" "gen_ok g"
  obtain b g1 where b: "getByte H g = (b, g1)" by (cases "getByte H g")
  then have "gen_ok g1" using getByte_ok [OF ok] by simp
  then show "fst r \<noteq> 0 \<and> unat (fst r) < 64 \<and> gen_ok (snd r)"
    using r f [of H g1 r] b ok(1) unat_and_63 [of "ucast b"] by (auto simp: Let_def split: if_splits)
qed

lemma rcp_imm_result:
  "rcp_imm H g = Some r \<Longrightarrow> hash_ok H \<longrightarrow> gen_ok g \<longrightarrow> \<not> isZeroOrPowerOf2 (ucast (fst r)) \<and> gen_ok (snd r)"
proof (erule rcp_imm.raw_induct [rotated], intro impI)
  fix f :: "(bytes \<Rightarrow> bytes) \<Rightarrow> Blake2Generator \<Rightarrow> (u32 \<times> Blake2Generator) option" and H g r
  assume f: "\<And>H g r. f H g = Some r \<Longrightarrow> hash_ok H \<longrightarrow> gen_ok g \<longrightarrow> \<not> isZeroOrPowerOf2 (ucast (fst r)) \<and> gen_ok (snd r)"
    and r: "(let (imm, gen) = getUInt32 H g in if isZeroOrPowerOf2 (ucast imm) then f H gen else Some (imm, gen)) = Some r"
    and ok: "hash_ok H" "gen_ok g"
  obtain x g1 where x: "getUInt32 H g = (x, g1)" by (cases "getUInt32 H g")
  then have "gen_ok g1" using getUInt32_ok [OF ok] by simp
  then show "\<not> isZeroOrPowerOf2 (ucast (fst r)) \<and> gen_ok (snd r)"
    using r f [of H g1 r] x ok(1) by (cases r) (auto simp: Let_def simp del: prod.collapse split: if_splits)
qed

lemma ror_imm_yields:
  "hash_ok H \<Longrightarrow> gen_ok g \<Longrightarrow> yields (\<not> productive H) (ror_imm H g) (\<lambda>(imm, g'). imm \<noteq> 0 \<and> unat imm < 64 \<and> gen_ok g')"
  using ror_imm_result [of H g] by (auto simp: yields_def productive_def split: option.split)

lemma rcp_imm_yields:
  "hash_ok H \<Longrightarrow> gen_ok g \<Longrightarrow> yields (\<not> productive H) (rcp_imm H g) (\<lambda>(imm, g'). \<not> isZeroOrPowerOf2 (ucast imm) \<and> gen_ok g')"
  using rcp_imm_result [of H g] by (auto simp: yields_def productive_def split: option.split)

subsection \<open>The instruction under construction\<close>

definition known_infos :: "SuperscalarInstructionInfo list" where
  "known_infos = [Info_ISUB_R, Info_IXOR_R, Info_IADD_RS, Info_IMUL_R, Info_IROR_C, Info_IADD_C7, Info_IXOR_C7, Info_IADD_C8,
     Info_IXOR_C8, Info_IADD_C9, Info_IXOR_C9, Info_IMULH_R, Info_ISMULH_R, Info_IMUL_RCP]"

lemmas info_defs = Info_ISUB_R_def Info_IXOR_R_def Info_IADD_RS_def Info_IMUL_R_def Info_IROR_C_def Info_IADD_C7_def
  Info_IXOR_C7_def Info_IADD_C8_def Info_IXOR_C8_def Info_IADD_C9_def Info_IXOR_C9_def Info_IMULH_R_def Info_ISMULH_R_def
  Info_IMUL_RCP_def info_single_def info_multi_def IMULH_R_ops_array_def ISMULH_R_ops_array_def IMUL_RCP_ops_array_def

definition high_mul :: "SuperscalarInstruction \<Rightarrow> bool" where
  "high_mul c \<longleftrightarrow> info_type (info c) = S_IMULH_R \<or> info_type (info c) = S_ISMULH_R"

definition const_info :: "SuperscalarInstructionInfo \<Rightarrow> bool" where
  "const_info i \<longleftrightarrow> srcOp i = - 1"

text \<open>The shape of the table of instructions.\<close>

lemma known_info:
  assumes "i \<in> set known_infos"
  shows "0 \<le> dstOp i" "dstOp i \<le> resultOp i" "resultOp i < info_size i" "srcOp i \<noteq> - 1 \<Longrightarrow> 0 \<le> srcOp i" "srcOp i < info_size i"
    "dstOp i < srcOp i \<Longrightarrow> info_type i = S_IMULH_R \<or> info_type i = S_ISMULH_R"
    "0 \<le> type_code (info_type i) \<and> type_code (info_type i) < 14"
    "type_code (info_type i) < 4 \<Longrightarrow> srcOp i = 0 \<and> dstOp i = 0"
  using assms by (auto simp: known_infos_def info_defs info_size_def)

definition imm_ok :: "SuperscalarInstruction \<Rightarrow> bool" where
  "imm_ok c \<longleftrightarrow> (info_type (info c) = S_IROR_C \<longrightarrow> simm32 c \<noteq> 0 \<and> unat (simm32 c) < 64) \<and>
     (info_type (info c) = S_IMUL_RCP \<longrightarrow> \<not> isZeroOrPowerOf2 (ucast (simm32 c)))"

definition dst_ok :: "SuperscalarInstruction \<Rightarrow> bool" where
  "dst_ok c \<longleftrightarrow> 0 \<le> sdst c \<and> sdst c < 8 \<and> (canReuse c \<or> sdst c \<noteq> ssrc c) \<and> (info_type (info c) = S_IADD_RS \<longrightarrow> sdst c \<noteq> 5)"

text \<open>\<open>opers_ok c n\<close>: the first \<open>n\<close> macro-operations of \<open>c\<close> have found their operands.\<close>

definition opers_ok :: "SuperscalarInstruction \<Rightarrow> int \<Rightarrow> bool" where
  "opers_ok c n \<longleftrightarrow> info c \<in> set known_infos \<and> imm_ok c \<and> (canReuse c \<longleftrightarrow> high_mul c) \<and>
     (const_info (info c) \<longrightarrow> ssrc c = - 1) \<and>
     (\<not> const_info (info c) \<and> srcOp (info c) < n \<longrightarrow> 0 \<le> ssrc c \<and> ssrc c < 8) \<and> (dstOp (info c) < n \<longrightarrow> dst_ok c)"

lemma create_yields:
  assumes "hash_ok H" and "gen_ok g" and "i \<in> set known_infos"
  shows "yields (\<not> productive H) (create H i g c) (\<lambda>(c', g'). opers_ok c' 0 \<and> gen_ok g')"
proof -
  obtain b g1 where b: "getByte H g = (b, g1)" "gen_ok g1" using getByte_ok [OF assms(1,2)] by (cases "getByte H g") auto
  obtain x g2 where x: "getUInt32 H g = (x, g2)" "gen_ok g2" using getUInt32_ok [OF assms(1,2)] by (cases "getUInt32 H g") auto
  show ?thesis
    using assms(3) unfolding known_infos_def
    by (auto simp: create_def Let_def info_defs assms(2) b x reset_def yields_Some opers_ok_def known_infos_def imm_ok_def high_mul_def const_info_def
        intro!: yields_map yields_mono [OF ror_imm_yields [OF assms(1,2)]] yields_mono [OF rcp_imm_yields [OF assms(1,2)]])
qed

text \<open>A slot of a decode buffer gets an instruction of the table.\<close>

definition buffer_ok :: "DecoderBuffer \<Rightarrow> bool" where
  "buffer_ok b \<longleftrightarrow> set (db_counts b) \<subseteq> {3, 4, 7, 8, 9, 10}"

lemma buffers_ok:
  "buffer_ok decodeBuffer484" "buffer_ok decodeBuffer7333" "buffer_ok decodeBuffer3733"
  "buffer_ok decodeBuffer493" "buffer_ok decodeBuffer4444" "buffer_ok decodeBuffer3310"
  by (simp_all add: buffer_ok_def decodeBuffer484_def decodeBuffer7333_def decodeBuffer3733_def decodeBuffer493_def
      decodeBuffer4444_def decodeBuffer3310_def)

lemma unat_and_less: "unat (b AND 3 :: u8) < 4" "unat (b AND 1 :: u8) < 2"
  using word_and_le1 [of b 3] word_and_le1 [of b 1] by (simp_all add: word_le_nat_alt)

lemma fetchNext_ok:
  assumes "hash_ok H" and "gen_ok g" and "fetchNext H t d m g = (b, g')"
  shows "buffer_ok b" "gen_ok g'"
proof -
  obtain x g1 where x: "getByte H g = (x, g1)" "gen_ok g1" using getByte_ok [OF assms(1,2)] by (cases "getByte H g") auto
  have "decodeBuffers ! unat (x AND 3) \<in> set decodeBuffers"
    using unat_and_less(1) [of x] by (intro nth_mem) (simp add: decodeBuffers_def)
  then have "buffer_ok (decodeBuffers ! unat (x AND 3))" by (auto simp: decodeBuffers_def buffers_ok)
  then show "buffer_ok b" "gen_ok g'" using assms(2,3) x(2)
    by (auto simp: fetchNext_def fetchNextDefault_def x(1) buffers_ok Let_def split: if_splits)
qed

lemma slot_known:
  "slot_3L ! unat (b AND 3 :: u8) \<in> set known_infos" "slot_3 ! unat (b AND 1 :: u8) \<in> set known_infos"
  "slot_4 ! unat (b AND 1 :: u8) \<in> set known_infos" "slot_7 ! unat (b AND 1 :: u8) \<in> set known_infos"
  "slot_8 ! unat (b AND 1 :: u8) \<in> set known_infos" "slot_9 ! unat (b AND 1 :: u8) \<in> set known_infos"
proof -
  have "xs ! n \<in> set known_infos" if "n < length xs" "set xs \<subseteq> set known_infos" for xs n using that nth_mem by blast
  note k = this [of "unat (b AND 3)"] this [of "unat (b AND 1)"]
  show "slot_3L ! unat (b AND 3) \<in> set known_infos" "slot_3 ! unat (b AND 1) \<in> set known_infos"
    "slot_4 ! unat (b AND 1) \<in> set known_infos" "slot_7 ! unat (b AND 1) \<in> set known_infos"
    "slot_8 ! unat (b AND 1) \<in> set known_infos" "slot_9 ! unat (b AND 1) \<in> set known_infos"
    by (rule k; use unat_and_less [of b] in \<open>simp add: slot_3L_def slot_3_def slot_4_def slot_7_def slot_8_def slot_9_def known_infos_def\<close>)+
qed

lemma createForSlot_yields:
  assumes "hash_ok H" and "gen_ok g" and "sz \<in> {3, 4, 7, 8, 9, 10}"
  shows "yields (\<not> productive H) (createForSlot H g sz ty l c) (\<lambda>(c', g'). opers_ok c' 0 \<and> gen_ok g')"
proof -
  obtain b g1 where b: "getByte H g = (b, g1)" "gen_ok g1" using getByte_ok [OF assms(1,2)] by (cases "getByte H g") auto
  have k: "Info_IMUL_R \<in> set known_infos" "slot_10 \<in> set known_infos" by (simp_all add: known_infos_def slot_10_def)
  note c = create_yields [OF assms(1) b(2)] create_yields [OF assms(1,2)]
  show ?thesis using assms(3) by (auto simp: createForSlot_def b Let_def intro!: c slot_known k)
qed

subsection \<open>Operands\<close>

lemma selectRegister_ok:
  assumes "hash_ok H" and "gen_ok g" and "selectRegister H av g r = (found, g', r')"
  shows "gen_ok g' \<and> (if found then r' \<in> set av else r' = r)"
proof -
  obtain x g1 where x: "getUInt32 H g = (x, g1)" "gen_ok g1" using getUInt32_ok [OF assms(1,2)] by (cases "getUInt32 H g") auto
  show ?thesis using assms(2,3) x by (auto simp: selectRegister_def split: if_splits)
qed

text \<open>A chosen source, and a chosen destination.\<close>

definition with_src :: "SuperscalarInstruction \<Rightarrow> SuperscalarInstruction \<Rightarrow> bool" where
  "with_src c c' \<longleftrightarrow> (\<exists>src p. 0 \<le> src \<and> src < 8 \<and> c' = c\<lparr>ssrc := src, opGroupPar := p\<rparr>)"

definition with_dst :: "SuperscalarInstruction \<Rightarrow> SuperscalarInstruction \<Rightarrow> bool" where
  "with_dst c c' \<longleftrightarrow> (\<exists>dst. c' = c\<lparr>sdst := dst\<rparr> \<and> dst_ok c')"

lemma selectSource_ok:
  assumes "hash_ok H" and "gen_ok g" and "selectSource H t regs g c = (found, g', c')"
  shows "gen_ok g' \<and> (if found then with_src c c' else c' = c)"
proof (cases "selectRegister H (filter (\<lambda>i. reg_latency (regs ! nat i) \<le> t) [0..7]) g (ssrc c)")
  case (fields found1 g1 r1)
  from selectRegister_ok [OF assms(1,2) this] assms(2,3) show ?thesis
    unfolding selectSource_def Let_def fields RegisterNeedsDisplacement_def
    by (cases c) (auto simp: with_src_def split: if_splits)
qed

lemma selectDestination_ok:
  assumes "hash_ok H" and "gen_ok g" and "selectDestination H t al regs g c = (found, g', c')"
  shows "gen_ok g' \<and> (if found then with_dst c c' else c' = c)"
  using assms(3) unfolding selectDestination_def Let_def
  by (auto split: prod.split_asm if_splits dest!: selectRegister_ok [OF assms(1,2)] simp: with_dst_def dst_ok_def RegisterNeedsDisplacement_def)

text \<open>The parts of the state that the search for operands leaves alone.\<close>

definition same_frame :: "gen_state \<Rightarrow> gen_state \<Rightarrow> bool" where
  "same_frame s s' \<longleftrightarrow> registers s' = registers s \<and> gprog s' = gprog s \<and> programSize s' = programSize s \<and>
     macroOpIndex s' = macroOpIndex s"

lemma same_frame_refl [simp]: "same_frame s s"
  by (simp add: same_frame_def)

lemma same_frame_trans: "same_frame s t \<Longrightarrow> same_frame t u \<Longrightarrow> same_frame s u"
  by (simp add: same_frame_def)

lemma find_source_ok:
  "find_source H n t s = (found, t', s') \<Longrightarrow> hash_ok H \<Longrightarrow> gen_ok (ggen s) \<Longrightarrow> gen_ok (ggen s') \<and> same_frame s s' \<and>
    (if found then with_src (currentInstruction s) (currentInstruction s')
     else currentInstruction s' = currentInstruction s)"
proof (induction H n t s rule: find_source.induct)
  case (2 H n t s)
  obtain f g c where f: "selectSource H t (registers s) (ggen s) (currentInstruction s) = (f, g, c)"
    by (cases "selectSource H t (registers s) (ggen s) (currentInstruction s)")
  show ?case
  proof (cases f)
    case True
    then show ?thesis using 2(2) selectSource_ok [OF 2(3,4) f] by (auto simp: f same_frame_def)
  next
    case False
    then show ?thesis using 2 selectSource_ok [OF 2(3,4) f] by (auto simp: f same_frame_def)
  qed
qed simp

lemma find_destination_ok:
  "find_destination H n t s = (found, t', s') \<Longrightarrow> hash_ok H \<Longrightarrow> gen_ok (ggen s) \<Longrightarrow> gen_ok (ggen s') \<and> same_frame s s' \<and>
    (if found then with_dst (currentInstruction s) (currentInstruction s')
     else currentInstruction s' = currentInstruction s)"
proof (induction H n t s rule: find_destination.induct)
  case (2 H n t s)
  obtain f g c where f: "selectDestination H t (throwAwayCount s > 0) (registers s) (ggen s) (currentInstruction s) = (f, g, c)"
    by (cases "selectDestination H t (throwAwayCount s > 0) (registers s) (ggen s) (currentInstruction s)")
  show ?case
  proof (cases f)
    case True
    then show ?thesis using 2(2) selectDestination_ok [OF 2(3,4) f] by (auto simp: f same_frame_def)
  next
    case False
    then show ?thesis using 2 selectDestination_ok [OF 2(3,4) f] by (auto simp: f same_frame_def)
  qed
qed simp

text \<open>After a successful search the operation at \<open>macroOpIndex\<close> has its operands too.\<close>

lemma update_simps [simp]:
  "imm_ok (c\<lparr>ssrc := x, opGroupPar := p\<rparr>) = imm_ok c" "high_mul (c\<lparr>ssrc := x, opGroupPar := p\<rparr>) = high_mul c"
  "imm_ok (c\<lparr>sdst := x\<rparr>) = imm_ok c" "high_mul (c\<lparr>sdst := x\<rparr>) = high_mul c"
  by (simp_all add: imm_ok_def high_mul_def)

lemma opers_source:
  assumes o: "opers_ok c n" and n: "srcOp (info c) = n" "0 \<le> n" and w: "with_src c c'"
  shows "opers_ok c' n" "dstOp (info c) \<noteq> n \<Longrightarrow> opers_ok c' (n + 1)" "info c' = info c" "0 \<le> ssrc c' \<and> ssrc c' < 8"
proof -
  obtain src p where c': "c' = c\<lparr>ssrc := src, opGroupPar := p\<rparr>" and src: "0 \<le> src" "src < 8" using w by (auto simp: with_src_def)
  have k: "info c \<in> set known_infos" "imm_ok c" "canReuse c = high_mul c" "dstOp (info c) < n \<longrightarrow> dst_ok c"
    using o by (simp_all add: opers_ok_def)
  have "high_mul c" if "dstOp (info c) < n" using known_info(6) [OF k(1)] that n(1) by (simp add: high_mul_def)
  then have d: "dstOp (info c) < n \<longrightarrow> dst_ok c'" using k(3,4) by (auto simp: dst_ok_def c')
  have nc: "\<not> const_info (info c)" using n by (simp add: const_info_def)
  show "opers_ok c' n" using k d nc n(1) src by (simp add: opers_ok_def c')
  show "opers_ok c' (n + 1)" if "dstOp (info c) \<noteq> n" using k d nc n(1) src that by (simp add: opers_ok_def c')
  show "info c' = info c" "0 \<le> ssrc c' \<and> ssrc c' < 8" using src by (simp_all add: c')
qed

lemma opers_destination:
  assumes o: "opers_ok c n" and src: "srcOp (info c) = n \<Longrightarrow> 0 \<le> ssrc c \<and> ssrc c < 8" and w: "with_dst c c'"
  shows "opers_ok c' (n + 1)" "info c' = info c"
proof -
  obtain dst where c': "c' = c\<lparr>sdst := dst\<rparr>" and d: "dst_ok c'" using w by (auto simp: with_dst_def)
  have "srcOp (info c) < n + 1 \<longleftrightarrow> srcOp (info c) < n \<or> srcOp (info c) = n" by linarith
  then show "opers_ok c' (n + 1)" using o src d by (simp add: opers_ok_def c') blast
  show "info c' = info c" by (simp add: c')
qed

lemma opers_skip: "opers_ok c n \<Longrightarrow> srcOp (info c) \<noteq> n \<Longrightarrow> dstOp (info c) \<noteq> n \<Longrightarrow> opers_ok c (n + 1)"
  by (auto simp: opers_ok_def)

lemma find_operands_ok:
  assumes H: "hash_ok H" and g: "gen_ok (ggen s)" and o: "opers_ok (currentInstruction s) (macroOpIndex s)" and n0: "0 \<le> macroOpIndex s"
    and f: "find_operands H t s = (found, t', s')"
  shows "gen_ok (ggen s') \<and> same_frame s s' \<and>
    (found \<longrightarrow> opers_ok (currentInstruction s') (macroOpIndex s + 1) \<and> info (currentInstruction s') = info (currentInstruction s))"
proof -
  let ?n = "macroOpIndex s" and ?c = "currentInstruction s"
  obtain f1 t1 s1 where 1: "(if ?n = srcOp (info ?c) then find_source H LOOK_FORWARD_CYCLES t s else (True, t, s)) = (f1, t1, s1)"
    by (metis prod.exhaust)
  let ?c1 = "currentInstruction s1"
  have s1: "gen_ok (ggen s1) \<and> same_frame s s1 \<and> (f1 \<longrightarrow> opers_ok ?c1 ?n \<and> info ?c1 = info ?c \<and>
      (srcOp (info ?c1) = ?n \<longrightarrow> 0 \<le> ssrc ?c1 \<and> ssrc ?c1 < 8) \<and> (dstOp (info ?c) \<noteq> ?n \<longrightarrow> opers_ok ?c1 (?n + 1)))"
  proof (cases "?n = srcOp (info ?c)")
    case True
    then have fs: "find_source H LOOK_FORWARD_CYCLES t s = (f1, t1, s1)" using 1 by simp
    show ?thesis
      using find_source_ok [OF fs H g] opers_source [OF o True [symmetric] n0] by auto
  next
    case False
    then show ?thesis using 1 g o opers_skip [OF o] by auto
  qed
  then have n: "macroOpIndex s1 = ?n" by (simp add: same_frame_def)
  show ?thesis
  proof (cases "f1 \<and> macroOpIndex s1 = dstOp (info ?c1)")
    case True
    then have fd: "find_destination H LOOK_FORWARD_CYCLES t1 s1 = (found, t', s')" using f 1 by (simp add: find_operands_def)
    have d: "gen_ok (ggen s')" "same_frame s1 s'" "found \<Longrightarrow> with_dst ?c1 (currentInstruction s')"
      using find_destination_ok [OF fd H] s1 by auto
    have "found \<Longrightarrow> opers_ok (currentInstruction s') (?n + 1) \<and> info (currentInstruction s') = info ?c"
      using opers_destination [OF _ _ d(3), of ?n] s1 True by auto
    then show ?thesis using d(1,2) s1 same_frame_trans by blast
  next
    case False
    then have e: "(found, t', s') = (f1, t1, s1)" using f 1 by (auto simp: find_operands_def)
    show ?thesis using s1 False n e by auto
  qed
qed

lemma opers_mono: "opers_ok c (n + 1) \<Longrightarrow> opers_ok c n"
  by (simp add: opers_ok_def)

subsection \<open>A finished instruction\<close>

lemma u8_of_int: "0 \<le> k \<Longrightarrow> k < 256 \<Longrightarrow> unat (word_of_int k :: u8) = nat k"
  by (simp add: unat_eq_nat_uint uint_word_of_int_eq take_bit_int_eq_self)

lemma u8_of_int_eq: "0 \<le> k \<Longrightarrow> k < 256 \<Longrightarrow> 0 \<le> j \<Longrightarrow> j < 256 \<Longrightarrow> (word_of_int k :: u8) = word_of_int j \<longleftrightarrow> k = j"
  using u8_of_int [of k] u8_of_int [of j] by (metis nat_eq_iff2 nat_0_le)

lemma toInstr_ok:
  assumes o: "opers_ok c n" and n: "info_size (info c) \<le> n"
  shows "superscalar_instr_ok (toInstr c)"
proof -
  have k: "info c \<in> set known_infos" and im: "imm_ok c" and re: "canReuse c = high_mul c"
    using o by (simp_all add: opers_ok_def)
  note t = known_info(7) [OF k]
  have d: "0 \<le> sdst c" "sdst c < 8" "canReuse c \<or> sdst c \<noteq> ssrc c" "info_type (info c) = S_IADD_RS \<Longrightarrow> sdst c \<noteq> 5"
  proof -
    have "dst_ok c" using o n known_info(2,3) [OF k] by (simp add: opers_ok_def)
    then show "0 \<le> sdst c" "sdst c < 8" "canReuse c \<or> sdst c \<noteq> ssrc c" "info_type (info c) = S_IADD_RS \<Longrightarrow> sdst c \<noteq> 5"
      by (simp_all add: dst_ok_def)
  qed
  have sr: "ssrc c < 8" "\<not> const_info (info c) \<Longrightarrow> 0 \<le> ssrc c" using o n known_info(5) [OF k] by (auto simp: opers_ok_def)
  have op: "unat (opcode (toInstr c)) = nat (type_code (info_type (info c)))" using t by (simp add: toInstr_def u8_of_int)
  have opc: "opcode (toInstr c) = word_of_int j \<Longrightarrow> 0 \<le> j \<Longrightarrow> j < 256 \<Longrightarrow> type_code (info_type (info c)) = j" for j
    using t by (simp add: toInstr_def u8_of_int_eq)
  have "opcode (toInstr c) = 2 \<Longrightarrow> info_type (info c) = S_IADD_RS" using opc [of 2] by (cases "info_type (info c)") simp_all
  then have 2: "opcode (toInstr c) = 2 \<Longrightarrow> instr_dst (toInstr c) \<noteq> 5" using d u8_of_int_eq [of "sdst c" 5] by (auto simp: toInstr_def)
  have 3: "instr_dst (toInstr c) \<noteq> instr_src (toInstr c)" if "unat (opcode (toInstr c)) < 4"
  proof -
    have c4: "type_code (info_type (info c)) < 4" using that op by simp
    then have "\<not> const_info (info c)" "\<not> canReuse c" using known_info(8) [OF k] by (auto simp: const_info_def re high_mul_def)
    then show ?thesis using sr d u8_of_int_eq [of "sdst c" "ssrc c"] by (simp add: toInstr_def)
  qed
  have 4: "opcode (toInstr c) = 4 \<Longrightarrow> info_type (info c) = S_IROR_C" using opc [of 4] by (cases "info_type (info c)") simp_all
  have 5: "opcode (toInstr c) = 13 \<Longrightarrow> info_type (info c) = S_IMUL_RCP" using opc [of 13] by (cases "info_type (info c)") simp_all
  show ?thesis unfolding superscalar_instr_ok_def
  proof (intro conjI impI 2 3)
    show "unat (opcode (toInstr c)) < 14" unfolding op using t by linarith
    show "unat (instr_dst (toInstr c)) < 8" "unat (instr_src (toInstr c)) < 8" using d(1,2) sr(1) by (auto simp: toInstr_def u8_of_int)
    show "imm32 (toInstr c) \<noteq> 0" "unat (imm32 (toInstr c)) < 64" if "opcode (toInstr c) = 4"
      using im 4 [OF that] by (simp_all add: imm_ok_def toInstr_def)
    show "\<not> isZeroOrPowerOf2 (ucast (imm32 (toInstr c)))" if "opcode (toInstr c) = 13"
      using im 5 [OF that] by (simp add: imm_ok_def toInstr_def)
  qed
qed

subsection \<open>The invariant of the generator\<close>

definition prog_part :: "gen_state \<Rightarrow> bool" where
  "prog_part s \<longleftrightarrow> max_program \<le> int (length (gprog s)) \<and> 0 \<le> programSize s \<and> programSize s \<le> max_program \<and>
     (\<forall>i<nat (programSize s). superscalar_instr_ok (gprog s ! i))"

definition gen_inv :: "gen_state \<Rightarrow> bool" where
  "gen_inv s \<longleftrightarrow> length (registers s) = 8 \<and> gen_ok (ggen s) \<and> prog_part s \<and> 0 \<le> macroOpIndex s \<and>
     (macroOpIndex s < cur_size s \<longrightarrow> opers_ok (currentInstruction s) (macroOpIndex s) \<and> programSize s < max_program)"

lemma throw_away_inv:
  "length (registers s) = 8 \<Longrightarrow> gen_ok (ggen s) \<Longrightarrow> prog_part s \<Longrightarrow> 0 \<le> macroOpIndex s \<Longrightarrow> gen_inv (snd (snd (throw_away i s)))"
  by (simp add: throw_away_def gen_inv_def prog_part_def cur_size_def SuperscalarInstruction_Null_def info_none_def info_size_def)

lemma prog_part_add:
  assumes "prog_part s" and "programSize s < max_program" and "superscalar_instr_ok x"
  shows "max_program \<le> int (length ((gprog s)[nat (programSize s) := x])) \<and> 0 \<le> programSize s + 1 \<and> programSize s + 1 \<le> max_program \<and>
    (\<forall>i<nat (programSize s + 1). superscalar_instr_ok ((gprog s)[nat (programSize s) := x] ! i))"
proof -
  have l: "nat (programSize s) < length (gprog s)" using assms(1,2) by (simp add: prog_part_def nat_less_iff)
  have "nat (programSize s + 1) = Suc (nat (programSize s))" using assms(1) by (simp add: prog_part_def Suc_nat_eq_nat_zadd1 add.commute)
  then show ?thesis using assms l by (auto simp: prog_part_def less_Suc_eq nth_list_update)
qed

lemma issue_returns:
  assumes "length (registers s) = 8" and "gen_ok (ggen s)" and "prog_part s" and "0 \<le> macroOpIndex s" and "macroOpIndex s < cur_size s"
    and o: "opers_ok (currentInstruction s) (macroOpIndex s + 1)" and "programSize s < max_program"
  shows "returns (issue mop top_cycle sc i s) (\<lambda>(go, i', s'). gen_inv s')"
proof -
  let ?c = "currentInstruction s" and ?n = "macroOpIndex s"
  obtain sc1 busy where sc1: "scheduleMop True mop (portBusy s) sc sc = (sc1, busy)" by fastforce
  have k: "info ?c \<in> set known_infos" using o by (simp add: opers_ok_def)
  have d: "0 \<le> sdst ?c \<and> sdst ?c < 8" if "?n = resultOp (info ?c)"
    using o that known_info(2) [OF k] by (simp add: opers_ok_def dst_ok_def)
  show ?thesis
  proof (cases "sc1 < 0")
    case True
    then show ?thesis
      using assms opers_mono [OF o] by (simp add: issue_def sc1 returns_Some_iff gen_inv_def prog_part_def cur_size_def)
  next
    case False
    have "programSize s < int (length (gprog s))" "0 \<le> programSize s" using assms(3,7) by (simp_all add: prog_part_def)
    note p = this prog_part_add [OF assms(3,7) toInstr_ok [OF o]]
    show ?thesis
      using False assms(1-5,7) d o p
      by (cases "?n = resultOp (info ?c)"; cases "cur_size s \<le> ?n + 1")
        (simp_all add: issue_def sc1 Let_def returns_Some_iff gen_inv_def cur_size_def prog_part_def)
  qed
qed

lemma getOp_returns: "0 \<le> n \<Longrightarrow> n < info_size i \<Longrightarrow> \<exists>mop. getOp i n = Some mop"
  by (simp add: getOp_def)

lemma next_instruction_yields:
  assumes "hash_ok H" and "gen_inv s" and "buffer_ok buf" and "0 \<le> i" and "i < db_size buf" and "programSize s < max_program"
  shows "yields (\<not> productive H) (next_instruction H buf i s)
    (\<lambda>s'. gen_inv s' \<and> opers_ok (currentInstruction s') 0 \<and> macroOpIndex s' = 0)"
proof -
  have "nat i < length (db_counts buf)" using assms(4,5) by (simp add: db_size_def nat_less_iff)
  then have "db_counts buf ! nat i \<in> {3, 4, 7, 8, 9, 10}" using assms(3) nth_mem unfolding buffer_ok_def by blast
  moreover have "gen_ok (ggen s)" using assms(2) by (simp add: gen_inv_def)
  ultimately show ?thesis
    unfolding next_instruction_def
    by (intro yields_map yields_mono [OF createForSlot_yields [OF assms(1)]])
      (use assms(2,6) in \<open>auto simp: gen_inv_def prog_part_def\<close>)
qed

lemma fill_slot_yields:
  assumes H: "hash_ok H" and inv: "gen_inv s" and buf: "buffer_ok buf" "0 \<le> i" "i < db_size buf"
  shows "yields (\<not> productive H) (fill_slot H buf i s) (\<lambda>(go, i', s'). gen_inv s')"
proof (cases "macroOpIndex s \<ge> cur_size s \<and> (portsSaturated s \<or> programSize s \<ge> max_program)")
  case True
  then show ?thesis using inv by (simp add: fill_slot_def yields_Some)
next
  case False
  have m: "yields (\<not> productive H) (if macroOpIndex s \<ge> cur_size s then next_instruction H buf i s else Some s)
    (\<lambda>t. gen_inv t \<and> opers_ok (currentInstruction t) (macroOpIndex t) \<and> macroOpIndex t < cur_size t)"
  proof (cases "macroOpIndex s \<ge> cur_size s")
    case True
    then have "programSize s < max_program" using False by simp
    moreover have "0 < info_size (info c)" if "opers_ok c 0" for c
      using known_info(1-3) [of "info c"] that by (simp add: opers_ok_def)
    ultimately show ?thesis
      using True by (auto simp: cur_size_def intro!: yields_mono [OF next_instruction_yields [OF H inv buf]])
  next
    case False
    then show ?thesis using inv by (simp add: yields_Some gen_inv_def)
  qed
  have k: "yields (\<not> productive H)
      (do {
         mop \<leftarrow> getOp (info (currentInstruction t)) (macroOpIndex t);
         let scheduleCycle = fst (scheduleMop False mop (portBusy t) (cycle t) (depCycle t));
         if scheduleCycle < 0 then Some (False, i, t\<lparr>portsSaturated := True\<rparr>)
         else do {
           let (found, scheduleCycle, t) = find_operands H scheduleCycle t;
           if found then issue mop (cycle s) scheduleCycle i t else Some (throw_away i t)
         }
       }) (\<lambda>(go, i', s'). gen_inv s')"
    if t: "gen_inv t" "opers_ok (currentInstruction t) (macroOpIndex t)" "macroOpIndex t < cur_size t" for t
  proof -
    from t have p: "length (registers t) = 8" "gen_ok (ggen t)" "prog_part t" "0 \<le> macroOpIndex t" "programSize t < max_program"
      by (simp_all add: gen_inv_def)
    obtain mop where mop: "getOp (info (currentInstruction t)) (macroOpIndex t) = Some mop"
      using getOp_returns p(4) t(3) by (auto simp: cur_size_def)
    let ?sc = "fst (scheduleMop False mop (portBusy t) (cycle t) (depCycle t))"
    obtain found sc1 u where u: "find_operands H ?sc t = (found, sc1, u)" by (cases "find_operands H ?sc t")
    note fo = find_operands_ok [OF H p(2) t(2) p(4) u]
    then have q: "length (registers u) = 8" "gen_ok (ggen u)" "prog_part u" "0 \<le> macroOpIndex u" "programSize u < max_program"
      using p by (simp_all add: same_frame_def prog_part_def)
    show ?thesis
    proof (cases found)
      case True
      then have "opers_ok (currentInstruction u) (macroOpIndex u + 1)" "macroOpIndex u < cur_size u"
        using fo t(3) by (simp_all add: same_frame_def cur_size_def)
      then have "yields (\<not> productive H) (issue mop (cycle s) sc1 i u) (\<lambda>(go, i', s'). gen_inv s')"
        using q by (intro returns_yields issue_returns)
      then show ?thesis using True t p by (simp add: mop u Let_def yields_Some gen_inv_def prog_part_def cur_size_def)
    next
      case False
      then show ?thesis using throw_away_inv [OF q(1-4)] t p
        by (simp add: mop u Let_def yields_Some gen_inv_def prog_part_def cur_size_def split_beta)
    qed
  qed
  show ?thesis
    unfolding fill_slot_def if_not_P [OF False] Let_def
    by (rule yields_bind, rule yields_mono [OF m], rule k [unfolded Let_def]) auto
qed

lemma fill_buffer_yields:
  "hash_ok H \<Longrightarrow> gen_inv s \<Longrightarrow> buffer_ok buf \<Longrightarrow> 0 \<le> i \<Longrightarrow> yields (\<not> productive H) (fill_buffer H buf i s) gen_inv"
proof (induction H buf i s rule: fill_buffer.induct)
  case (1 H buf i s)
  show ?case
  proof (cases "i < db_size buf")
    case True
    note slot = fill_slot_yields [OF "1.prems" True]
    show ?thesis
    proof (cases "fill_slot H buf i s")
      case None
      then show ?thesis using slot True by (simp add: fill_buffer.simps [of H buf i s] yields_def)
    next
      case (Some r)
      obtain go i' s' where r: "r = (go, i', s')" by (cases r)
      have "gen_inv s'" using slot by (simp add: Some r yields_Some)
      moreover have "go \<Longrightarrow> 0 \<le> i'" using fill_slot_progress [of H buf i s i' s'] Some r "1.prems"(4) by auto
      ultimately show ?thesis
        using True Some r "1.IH" [OF True Some r [symmetric] refl _ "1.prems"(1) _ "1.prems"(3)]
        by (simp add: fill_buffer.simps [of H buf i s] yields_Some)
    qed
  next
    case False
    then show ?thesis using "1.prems" by (simp add: fill_buffer.simps [of H buf i s] yields_Some)
  qed
qed

lemma decode_cycles_yields:
  "hash_ok H \<Longrightarrow> gen_inv s \<Longrightarrow> yields (\<not> productive H) (decode_cycles H d s) (\<lambda>(d', s'). gen_inv s')"
proof (induction H d s rule: decode_cycles.induct)
  case (1 H d s)
  show ?case
  proof (cases "d < int SuperscalarLatency \<and> \<not> portsSaturated s \<and> programSize s < max_program")
    case True
    obtain buf g where f: "fetchNext H (info_type (info (currentInstruction s))) d (mulCount s) (ggen s) = (buf, g)" by fastforce
    have "gen_ok (ggen s)" using "1.prems"(2) by (simp add: gen_inv_def)
    note fo = fetchNext_ok [OF "1.prems"(1) this f]
    then have "gen_inv (s\<lparr>ggen := g\<rparr>)" using "1.prems"(2) by (simp add: gen_inv_def prog_part_def cur_size_def)
    note fb = fill_buffer_yields [OF "1.prems"(1) this fo(1) order_refl]
    show ?thesis
    proof (cases "fill_buffer H buf 0 (s\<lparr>ggen := g\<rparr>)")
      case None
      then show ?thesis using fb True by (simp add: decode_cycles.simps [of H d s] f yields_def)
    next
      case (Some t)
      then have "gen_inv (t\<lparr>cycle := cycle t + 1\<rparr>)" using fb by (simp add: yields_Some gen_inv_def prog_part_def cur_size_def)
      then show ?thesis using "1.IH" [OF True f [symmetric] refl Some "1.prems"(1)] True Some
        by (simp add: decode_cycles.simps [of H d s] f)
    qed
  next
    case False
    then have "decode_cycles H d s = Some (d, s)" by (subst decode_cycles.simps) (simp only: if_False)
    then show ?thesis using "1.prems" by (simp add: yields_Some)
  qed
qed

subsection \<open>The whole generator\<close>

lemma asic_latencies_returns:
  "(\<And>x. x \<in> set prog \<Longrightarrow> superscalar_instr_ok x) \<Longrightarrow> length lat = 8 \<Longrightarrow> returns (asic_latencies prog lat) (\<lambda>lat'. length lat' = 8)"
proof (induction prog arbitrary: lat)
  case (Cons x prog)
  have "superscalar_instr_ok x" using Cons.prems(1) by simp
  then have "unat (instr_dst x) < length lat" "unat (instr_src x) < length lat"
    using Cons.prems(2) by (simp_all add: superscalar_instr_ok_def)
  then show ?case using Cons by (simp add: nth_opt_def)
qed (simp add: returns_Some_iff)

lemma address_register_range: "0 \<le> snd (address_register lat) \<and> snd (address_register lat) < 8"
proof -
  have "\<forall>i\<in>set is. i < 8 \<Longrightarrow> 0 \<le> snd p \<and> snd p < 8 \<Longrightarrow>
    0 \<le> snd (fold (\<lambda>i (m, reg). if lat ! i > m then (lat ! i, int i) else (m, reg)) is p) \<and>
    snd (fold (\<lambda>i (m, reg). if lat ! i > m then (lat ! i, int i) else (m, reg)) is p) < 8" for "is" and p :: "int \<times> int"
  proof (induction "is" arbitrary: p)
    case (Cons i "is")
    obtain m r where "p = (m, r)" by (cases p)
    with Cons show ?case by simp
  qed simp
  from this [of "[0..<8]" "(0, 0)"] show ?thesis by (simp add: address_register_def del: upt_rec_numeral)
qed

lemma generateSuperscalar_yields:
  assumes "hash_ok H" and "gen_ok g" and "SuperscalarMaxSize \<le> length (ss_programBuffer prog)"
  shows "yields (\<not> productive H) (generateSuperscalar H prog g) (\<lambda>(prog', g'). superscalar_ok prog' \<and> gen_ok g')"
proof -
  have "gen_inv (gen_start (ss_programBuffer prog) g)"
    using assms(2,3)
    by (simp add: gen_inv_def gen_start_def prog_part_def cur_size_def SuperscalarInstruction_Null_def info_none_def info_size_def
        max_program_def SuperscalarLatency_def SuperscalarMaxSize_def RANDOMX_SUPERSCALAR_MAX_LATENCY_def)
  note dc = decode_cycles_yields [OF assms(1) this, of 0]
  have rest: "yields (\<not> productive H) (do {
       lat \<leftarrow> asic_latencies (take (nat (programSize s)) (gprog s)) (replicate 8 0);
       let (asicLatencyMax, addressReg) = address_register lat;
       Some (\<lparr>ss_programBuffer = gprog s, ss_size = word_of_int (programSize s), addrReg = addressReg, ss_codeSize = codeSize s,
              ss_macroOps = macroOpCount s, ss_decodeCycles = d, ss_cpuLatency = retireCycle s, ss_asicLatency = asicLatencyMax,
              ss_mulCount = mulCount s, cpuLatencies = map reg_latency (registers s), asicLatencies = lat\<rparr>, ggen s)
     }) (\<lambda>(prog', g'). superscalar_ok prog' \<and> gen_ok g')" if inv: "gen_inv s" for d s
  proof -
    let ?n = "nat (programSize s)"
    have p: "?n \<le> length (gprog s)" "?n \<le> 3 * SuperscalarLatency + 2" "\<forall>i<?n. superscalar_instr_ok (gprog s ! i)" "gen_ok (ggen s)"
      "0 \<le> programSize s" "programSize s \<le> 512"
      using inv by (auto simp: gen_inv_def prog_part_def max_program_def SuperscalarLatency_def)
    then have i: "superscalar_instr_ok x" if "x \<in> set (take ?n (gprog s))" for x
      using that by (auto simp: in_set_conv_nth)
    obtain lat where lat: "asic_latencies (take ?n (gprog s)) (replicate 8 0) = Some lat"
      using asic_latencies_returns [of "take ?n (gprog s)" "replicate 8 0"] i by (auto simp: returns_def)
    have "unat (word_of_int (programSize s) :: u32) = ?n"
      using p(5,6) by (simp add: unat_eq_nat_uint uint_word_of_int_eq take_bit_int_eq_self)
    then show ?thesis
      using p address_register_range [of lat] by (simp add: lat yields_Some superscalar_ok_def split_beta)
  qed
  show ?thesis
    unfolding generateSuperscalar_def
    by (rule yields_bind, rule yields_mono [OF dc]) (use rest in \<open>auto split: prod.split\<close>)
qed

subsection \<open>Execution\<close>

lemma reciprocal_nonzero: "d \<noteq> 0 \<Longrightarrow> \<exists>q. randomx_reciprocal d = Some q"
  by (auto simp: randomx_reciprocal_def Let_def split: prod.split)

lemma superscalar_step_returns:
  assumes "superscalar_instr_ok x" and "length r = 8"
  shows "returns (superscalar_step x r) (\<lambda>r'. length r' = 8)"
proof -
  have i: "unat (opcode x) < length superscalar_types" "unat (instr_dst x) < 8" "unat (instr_src x) < 8"
    using assms(1) by (simp_all add: superscalar_instr_ok_def superscalar_types_def)
  let ?t = "superscalar_types ! unat (opcode x)"
  have "?t \<noteq> S_INVALID" using i(1) nth_mem [of "unat (opcode x)" superscalar_types] by (auto simp: superscalar_types_def)
  moreover have "ucast (imm32 x) \<noteq> (0 :: u64)" if "?t = S_IMUL_RCP"
  proof -
    have "distinct superscalar_types" "13 < length superscalar_types" "superscalar_types ! 13 = S_IMUL_RCP"
      by (simp_all add: superscalar_types_def)
    then have "unat (opcode x) = 13" using that i(1) nth_eq_iff_index_eq by metis
    then have "word_of_nat (unat (opcode x)) = (13 :: u8)" by simp
    then have "opcode x = 13" by simp
    then show ?thesis using assms(1) by (auto simp: superscalar_instr_ok_def isZeroOrPowerOf2_def)
  qed
  ultimately obtain v where "superscalar_op ?t x (r ! unat (instr_dst x)) (Some (r ! unat (instr_src x))) = Some v"
    using reciprocal_nonzero [of "ucast (imm32 x)"] by (cases ?t) (auto simp: superscalar_op_def getImm32_def)
  then show ?thesis using i assms(2) by (simp add: superscalar_step_def nth_opt_def upd_opt_def returns_Some_iff)
qed

lemma superscalar_steps_returns:
  "(\<And>x. x \<in> set prog \<Longrightarrow> superscalar_instr_ok x) \<Longrightarrow> length r = 8 \<Longrightarrow> returns (superscalar_steps prog r) (\<lambda>r'. length r' = 8)"
proof (induction prog arbitrary: r)
  case (Cons x prog)
  then obtain r1 where "superscalar_step x r = Some r1" "length r1 = 8"
    using superscalar_step_returns [of x r] by (auto simp: returns_def)
  with Cons show ?case by simp
qed (simp add: returns_Some_iff)

lemma executeSuperscalar_returns:
  assumes "superscalar_ok prog" and "length r = 8"
  shows "returns (executeSuperscalar r prog) (\<lambda>r'. length r' = 8)"
  unfolding executeSuperscalar_def
  by (rule superscalar_steps_returns) (use assms in \<open>auto simp: superscalar_ok_def in_set_conv_nth\<close>)

subsection \<open>A hash for the witnesses\<close>

definition sevens :: "bytes \<Rightarrow> bytes" where "sevens d = replicate 64 7"

lemma sevens_ok: "hash_ok sevens"
  by (simp add: hash_ok_def sevens_def)

lemma ror_imm_sevens: "gen_ok g \<Longrightarrow> ror_imm sevens g \<noteq> None"
proof (induction "64 - dataIndex g" arbitrary: g rule: less_induct)
  case less
  show ?case
  proof (cases "dataIndex g < 64")
    case True
    let ?g = "g\<lparr>dataIndex := dataIndex g + 1\<rparr>"
    have "ror_imm sevens ?g \<noteq> None" using less True by (intro less) (auto simp: gen_ok_def)
    then show ?thesis using True by (subst ror_imm.simps) (simp add: getByte_def checkData_def Let_def)
  next
    case False
    then show ?thesis using less(2) by (subst ror_imm.simps) (simp add: getByte_def checkData_def sevens_def)
  qed
qed

lemma rcp_imm_sevens: "gen_ok g \<Longrightarrow> rcp_imm sevens g \<noteq> None"
proof (induction "64 - dataIndex g" arbitrary: g rule: less_induct)
  case less
  show ?case
  proof (cases "dataIndex g \<le> 60")
    case True
    let ?g = "g\<lparr>dataIndex := dataIndex g + 4\<rparr>"
    have "rcp_imm sevens ?g \<noteq> None" using less True by (intro less) (auto simp: gen_ok_def)
    then show ?thesis using True by (subst rcp_imm.simps) (simp add: getUInt32_def checkData_def Let_def)
  next
    case False
    have "take 4 (replicate 64 7) = [7, 7, 7, 7 :: u8]" by (simp add: numeral_eq_Suc)
    then have "load32 (replicate 64 7) = 0x07070707" by (simp add: load32_def)
    then show ?thesis using less(2) False
      by (subst rcp_imm.simps) (simp add: getUInt32_def checkData_def sevens_def isZeroOrPowerOf2_def)
  qed
qed

lemma sevens_productive: "productive sevens"
  by (simp add: productive_def ror_imm_sevens rcp_imm_sevens)

definition empty_program :: SuperscalarProgram where
  "empty_program = \<lparr>ss_programBuffer = replicate SuperscalarMaxSize (instruction_of_bytes (replicate 8 0)), ss_size = 0, addrReg = 0,
     ss_codeSize = 0, ss_macroOps = 0, ss_decodeCycles = 0, ss_cpuLatency = 0, ss_asicLatency = 0, ss_mulCount = 0,
     cpuLatencies = replicate 8 0, asicLatencies = replicate 8 0\<rparr>"

lemma empty_program_ok: "superscalar_ok empty_program" "length (ss_programBuffer empty_program) = SuperscalarMaxSize"
  by (simp_all add: superscalar_ok_def empty_program_def)

subsection \<open>The port map\<close>

text \<open>A port that \<open>uop\<close> can use and that is free in a cycle, in the order of preference.\<close>

definition usable_ports :: "int \<Rightarrow> port_map \<Rightarrow> int \<Rightarrow> nat list" where
  "usable_ports uop pb t = map snd (filter (\<lambda>(p, port). uop AND p \<noteq> 0 \<and> port_free pb t port) [(P5, 2), (P0, 0), (P1, 1)])"

lemma scheduleUop_first:
  "usable_ports uop pb c = port # rest \<Longrightarrow> c < last_cycle \<Longrightarrow> scheduleUop commit uop pb c = (c, port_take commit uop pb c port)"
  "usable_ports uop pb c = [] \<Longrightarrow> c < last_cycle \<Longrightarrow> scheduleUop commit uop pb c = scheduleUop commit uop pb (c + 1)"
  "\<not> c < last_cycle \<Longrightarrow> scheduleUop commit uop pb c = (- 1, pb)"
  by (subst scheduleUop.simps; auto simp: usable_ports_def split: if_splits)+

subsection \<open>The properties\<close>

text \<open>
  C7. The superscalar generator makes good programs: from any generator, over any hash of 64-byte
  blocks, it writes at most 512 instructions, each with valid registers, no \<open>lea\<close> into r5, no
  \<open>r, r\<close> operand pair that could be optimised away, rotations by 1 to 63 and reciprocals of
  neither zero nor a power of two; the address register exists. It returns whenever the rejection
  loops for the immediate values do.
\<close>

theorem generateSuperscalar_ok:
  assumes "hash_ok H" and "gen_ok g" and "SuperscalarMaxSize \<le> length (ss_programBuffer prog)"
  shows "(productive H \<longrightarrow> (\<exists>prog' g'. generateSuperscalar H prog g = Some (prog', g'))) \<and>
    (\<forall>prog' g'. generateSuperscalar H prog g = Some (prog', g') \<longrightarrow> superscalar_ok prog' \<and> gen_ok g')"
  using generateSuperscalar_yields [OF assms] by (auto simp: yields_def split: option.splits)

theorem generateSuperscalar_ok_witness:
  "\<exists>prog' g'. generateSuperscalar sevens empty_program (Blake2Generator_init (replicate 64 0) [1, 2, 3] 0) = Some (prog', g') \<and>
    superscalar_ok prog'"
  using generateSuperscalar_ok [OF sevens_ok Blake2Generator_init_ok [of "replicate 64 0" "[1, 2, 3]" 0], of empty_program]
    sevens_productive empty_program_ok(2)
  by auto

text \<open>
  A micro-operation is scheduled in the first cycle from the wanted one on in which a port that
  can execute it is free, and when the schedule is committed that port, free until then, and no other
  is marked; if there is no such cycle in the map the result is \<open>- 1\<close> and the map is unchanged. In
  particular a port never gets two operations in a cycle.
\<close>

theorem scheduleUop_earliest:
  assumes "scheduleUop commit uop pb c = (k, pb')" and "0 \<le> c"
  shows "(k = - 1 \<and> pb' = pb \<and> (\<forall>t. c \<le> t \<and> t < last_cycle \<longrightarrow> usable_ports uop pb t = [])) \<or>
    (\<exists>port rest. c \<le> k \<and> k < last_cycle \<and> usable_ports uop pb k = port # rest \<and> port_free pb k port \<and>
       pb' = port_take commit uop pb k port \<and> (\<forall>t. c \<le> t \<and> t < k \<longrightarrow> usable_ports uop pb t = []))"
  using assms
proof (induction "nat (last_cycle - c)" arbitrary: c rule: less_induct)
  case less
  have c: "c \<le> t \<longleftrightarrow> t = c \<or> c + 1 \<le> t" for t by linarith
  show ?case
  proof (cases "c < last_cycle")
    case True
    show ?thesis
    proof (cases "usable_ports uop pb c")
      case Nil
      then show ?thesis using less.hyps [of "c + 1"] less.prems True scheduleUop_first(2) [OF Nil True, of commit]
        by (auto simp: c)
    next
      case (Cons port rest)
      then have "port \<in> set (usable_ports uop pb c)" by simp
      then have "port_free pb c port" by (auto simp: usable_ports_def simp del: filter.simps)
      then show ?thesis using less.prems(1) True scheduleUop_first(1) [OF Cons True, of commit] Cons by auto
    qed
  next
    case False
    then show ?thesis using less.prems(1) scheduleUop_first(3) [OF False, of commit uop pb] by auto
  qed
qed

end
