(* ===== verification/Bytecode.thy ===== *)
theory Bytecode
  imports Rx_Program Reciprocal "HOL-Library.Monad_Syntax"
begin

text \<open>
  The RandomX virtual machine's core, \<open>bytecode_machine.cpp\<close> and \<open>bytecode_machine.hpp\<close>: the
  compilation of instructions to bytecode, with the register usage that gives the targets of the
  branches, and the execution of the bytecode on the register file and the scratchpad.

  Pointers into the register file, to the instruction's own immediate and to the constant \<open>zero\<close> are
  the values of \<open>ptr\<close>. Reading through a pointer of the wrong kind, an access outside the scratchpad
  or the register file, and reaching \<open>UNREACHABLE\<close> are \<^term>\<open>None\<close>, so that a theorem that the result
  is \<^term>\<open>Some\<close> says that none of them happens.

  The arithmetic of the floating-point unit is not part of the sources (compiler intrinsics for the
  SSE2 instructions): it is the parameter \<open>fpu\<close>, operations on the 64 bits of a double under the
  control register \<open>mxcsr\<close>.
\<close>

subsection \<open>State\<close>

type_synonym rx_vec_f128 = "u64 \<times> u64" \<comment> \<open>the low and the high double\<close>

record fpu =
  fp_add :: "u32 \<Rightarrow> u64 \<Rightarrow> u64 \<Rightarrow> u64"
  fp_sub :: "u32 \<Rightarrow> u64 \<Rightarrow> u64 \<Rightarrow> u64"
  fp_mul :: "u32 \<Rightarrow> u64 \<Rightarrow> u64 \<Rightarrow> u64"
  fp_div :: "u32 \<Rightarrow> u64 \<Rightarrow> u64 \<Rightarrow> u64"
  fp_sqrt :: "u32 \<Rightarrow> u64 \<Rightarrow> u64"
  fp_cvt_i32 :: "u32 \<Rightarrow> u64"

record NativeRegisterFile =
  nr_r :: "u64 list"
  nr_f :: "rx_vec_f128 list"
  nr_e :: "rx_vec_f128 list"
  nr_a :: "rx_vec_f128 list"

datatype ptr = PReg nat | PF nat | PE nat | PA nat | PImm | PZero

text \<open>The unions of two pointers are one pointer; \<open>target_shift\<close> is the 16 bits of the other union.\<close>

record InstructionByteCode =
  bdst :: ptr
  bsrc :: ptr
  imm :: u64
  ibc_type :: InstructionType
  target_shift :: u16
  memMask :: u32

record machine =
  nreg :: NativeRegisterFile
  scratchpad :: bytes
  mxcsr :: u32

subsection \<open>Accesses\<close>

fun iget :: "InstructionByteCode \<Rightarrow> ptr \<Rightarrow> machine \<Rightarrow> u64 option" where
  "iget ibc (PReg i) st = nth_opt (nr_r (nreg st)) i"
| "iget ibc PImm st = Some (imm ibc)"
| "iget ibc PZero st = Some 0"
| "iget ibc _ st = None"

fun iset :: "ptr \<Rightarrow> u64 \<Rightarrow> machine \<Rightarrow> machine option" where
  "iset (PReg i) v st = map_option (\<lambda>r. st\<lparr>nreg := (nreg st)\<lparr>nr_r := r\<rparr>\<rparr>) (upd_opt (nr_r (nreg st)) i v)"
| "iset _ v st = None"

fun fget :: "ptr \<Rightarrow> machine \<Rightarrow> rx_vec_f128 option" where
  "fget (PF i) st = nth_opt (nr_f (nreg st)) i"
| "fget (PE i) st = nth_opt (nr_e (nreg st)) i"
| "fget (PA i) st = nth_opt (nr_a (nreg st)) i"
| "fget _ st = None"

fun fset :: "ptr \<Rightarrow> rx_vec_f128 \<Rightarrow> machine \<Rightarrow> machine option" where
  "fset (PF i) v st = map_option (\<lambda>r. st\<lparr>nreg := (nreg st)\<lparr>nr_f := r\<rparr>\<rparr>) (upd_opt (nr_f (nreg st)) i v)"
| "fset (PE i) v st = map_option (\<lambda>r. st\<lparr>nreg := (nreg st)\<lparr>nr_e := r\<rparr>\<rparr>) (upd_opt (nr_e (nreg st)) i v)"
| "fset _ v st = None"

definition load_at :: "bytes \<Rightarrow> nat \<Rightarrow> nat \<Rightarrow> bytes option" where
  "load_at m off n = (if off + n \<le> length m then Some (take n (drop off m)) else None)"

definition store_at :: "bytes \<Rightarrow> nat \<Rightarrow> bytes \<Rightarrow> bytes option" where
  "store_at m off b = (if off + length b \<le> length m then Some (memcpy_at m off b (length b)) else None)"

text \<open>The offset of \<open>getScratchpadAddress\<close>, cut to 32 bits.\<close>

definition getScratchpadAddress :: "InstructionByteCode \<Rightarrow> machine \<Rightarrow> u32 option" where
  "getScratchpadAddress ibc st = do {
     s \<leftarrow> iget ibc (bsrc ibc) st;
     Some (ucast ((s + imm ibc) AND ucast (memMask ibc)))
   }"

definition load64_at :: "InstructionByteCode \<Rightarrow> machine \<Rightarrow> u64 option" where
  "load64_at ibc st = do {
     addr \<leftarrow> getScratchpadAddress ibc st;
     b \<leftarrow> load_at (scratchpad st) (unat addr) 8;
     Some (load64 b)
   }"

subsection \<open>Vectors\<close>

definition vec2 :: "(u64 \<Rightarrow> u64 \<Rightarrow> u64) \<Rightarrow> rx_vec_f128 \<Rightarrow> rx_vec_f128 \<Rightarrow> rx_vec_f128" where
  "vec2 f x y = (f (fst x) (fst y), f (snd x) (snd y))"

definition rx_swap_vec_f128 :: "rx_vec_f128 \<Rightarrow> rx_vec_f128" where
  "rx_swap_vec_f128 a = (snd a, fst a)"

definition rx_set_vec_f128 :: "u64 \<Rightarrow> u64 \<Rightarrow> rx_vec_f128" where
  "rx_set_vec_f128 x1 x0 = (x0, x1)"

definition rx_cvt_packed_int_vec_f128 :: "fpu \<Rightarrow> bytes \<Rightarrow> rx_vec_f128" where
  "rx_cvt_packed_int_vec_f128 F b = (fp_cvt_i32 F (load32 b), fp_cvt_i32 F (load32 (drop 4 b)))"

definition load_packed_int :: "fpu \<Rightarrow> InstructionByteCode \<Rightarrow> machine \<Rightarrow> rx_vec_f128 option" where
  "load_packed_int F ibc st = do {
     addr \<leftarrow> getScratchpadAddress ibc st;
     b \<leftarrow> load_at (scratchpad st) (unat addr) 8;
     Some (rx_cvt_packed_int_vec_f128 F b)
   }"

definition rx_mxcsr_default :: u32 where "rx_mxcsr_default = 0x9FC0"

definition rx_set_rounding_mode :: "u32 \<Rightarrow> u32" where
  "rx_set_rounding_mode mode = rx_mxcsr_default OR push_bit 13 mode"

definition maskRegisterExponentMantissa :: "ProgramConfiguration \<Rightarrow> rx_vec_f128 \<Rightarrow> rx_vec_f128" where
  "maskRegisterExponentMantissa config x =
     (let x = vec2 (AND) x (rx_set_vec_f128 dynamicMantissaMask dynamicMantissaMask)
      in vec2 (OR) x (eMask config))"

subsection \<open>Compilation\<close>

text \<open>The register numbers an instruction selects.\<close>

definition dst8 :: "Instruction \<Rightarrow> nat" where "dst8 instr = unat (instr_dst instr) mod RegistersCount"
definition src8 :: "Instruction \<Rightarrow> nat" where "src8 instr = unat (instr_src instr) mod RegistersCount"
definition dst4 :: "Instruction \<Rightarrow> nat" where "dst4 instr = unat (instr_dst instr) mod RegisterCountFlt"
definition src4 :: "Instruction \<Rightarrow> nat" where "src4 instr = unat (instr_src instr) mod RegisterCountFlt"

text \<open>
  One definition per instruction of \<open>compileInstruction\<close>, from and to the bytecode slot (whose other
  fields keep what they had) and the register usage.
\<close>

definition compile_IADD_RS :: "Instruction \<Rightarrow> nat \<Rightarrow> InstructionByteCode \<times> int list \<Rightarrow> InstructionByteCode \<times> int list" where
  "compile_IADD_RS instr i = (\<lambda>(ibc, registerUsage).
     let dst = dst8 instr; src = src8 instr
     in (if dst \<noteq> RegisterNeedsDisplacement
         then ibc\<lparr>ibc_type := IADD_RS, bdst := PReg dst, bsrc := PReg src,
                  target_shift := ucast (getModShift instr), imm := 0\<rparr>
         else ibc\<lparr>ibc_type := IADD_RS, bdst := PReg dst, bsrc := PReg src,
                  target_shift := ucast (getModShift instr), imm := signExtend2sCompl (getImm32 instr)\<rparr>,
         registerUsage[dst := int i]))"

definition compile_IADD_M :: "RandomX_Configuration \<Rightarrow> Instruction \<Rightarrow> nat \<Rightarrow> InstructionByteCode \<times> int list \<Rightarrow> InstructionByteCode \<times> int list" where
  "compile_IADD_M cfg instr i = (\<lambda>(ibc, registerUsage).
     let dst = dst8 instr; src = src8 instr
     in (if src \<noteq> dst
         then ibc\<lparr>ibc_type := IADD_M, bdst := PReg dst, imm := signExtend2sCompl (getImm32 instr),
                  bsrc := PReg src, memMask := AddressMask_Calculated cfg ! unat (getModMem instr)\<rparr>
         else ibc\<lparr>ibc_type := IADD_M, bdst := PReg dst, imm := signExtend2sCompl (getImm32 instr),
                  bsrc := PZero, memMask := ScratchpadL3Mask_Calculated cfg\<rparr>,
         registerUsage[dst := int i]))"

definition compile_ISUB_R :: "Instruction \<Rightarrow> nat \<Rightarrow> InstructionByteCode \<times> int list \<Rightarrow> InstructionByteCode \<times> int list" where
  "compile_ISUB_R instr i = (\<lambda>(ibc, registerUsage).
     let dst = dst8 instr; src = src8 instr
     in (if src \<noteq> dst
         then ibc\<lparr>ibc_type := ISUB_R, bdst := PReg dst, bsrc := PReg src\<rparr>
         else ibc\<lparr>ibc_type := ISUB_R, bdst := PReg dst, imm := signExtend2sCompl (getImm32 instr), bsrc := PImm\<rparr>,
         registerUsage[dst := int i]))"

definition compile_ISUB_M :: "RandomX_Configuration \<Rightarrow> Instruction \<Rightarrow> nat \<Rightarrow> InstructionByteCode \<times> int list \<Rightarrow> InstructionByteCode \<times> int list" where
  "compile_ISUB_M cfg instr i = (\<lambda>(ibc, registerUsage).
     let dst = dst8 instr; src = src8 instr
     in (if src \<noteq> dst
         then ibc\<lparr>ibc_type := ISUB_M, bdst := PReg dst, imm := signExtend2sCompl (getImm32 instr),
                  bsrc := PReg src, memMask := AddressMask_Calculated cfg ! unat (getModMem instr)\<rparr>
         else ibc\<lparr>ibc_type := ISUB_M, bdst := PReg dst, imm := signExtend2sCompl (getImm32 instr),
                  bsrc := PZero, memMask := ScratchpadL3Mask_Calculated cfg\<rparr>,
         registerUsage[dst := int i]))"

definition compile_IMUL_R :: "Instruction \<Rightarrow> nat \<Rightarrow> InstructionByteCode \<times> int list \<Rightarrow> InstructionByteCode \<times> int list" where
  "compile_IMUL_R instr i = (\<lambda>(ibc, registerUsage).
     let dst = dst8 instr; src = src8 instr
     in (if src \<noteq> dst
         then ibc\<lparr>ibc_type := IMUL_R, bdst := PReg dst, bsrc := PReg src\<rparr>
         else ibc\<lparr>ibc_type := IMUL_R, bdst := PReg dst, imm := signExtend2sCompl (getImm32 instr), bsrc := PImm\<rparr>,
         registerUsage[dst := int i]))"

definition compile_IMUL_M :: "RandomX_Configuration \<Rightarrow> Instruction \<Rightarrow> nat \<Rightarrow> InstructionByteCode \<times> int list \<Rightarrow> InstructionByteCode \<times> int list" where
  "compile_IMUL_M cfg instr i = (\<lambda>(ibc, registerUsage).
     let dst = dst8 instr; src = src8 instr
     in (if src \<noteq> dst
         then ibc\<lparr>ibc_type := IMUL_M, bdst := PReg dst, imm := signExtend2sCompl (getImm32 instr),
                  bsrc := PReg src, memMask := AddressMask_Calculated cfg ! unat (getModMem instr)\<rparr>
         else ibc\<lparr>ibc_type := IMUL_M, bdst := PReg dst, imm := signExtend2sCompl (getImm32 instr),
                  bsrc := PZero, memMask := ScratchpadL3Mask_Calculated cfg\<rparr>,
         registerUsage[dst := int i]))"

definition compile_IMULH_R :: "Instruction \<Rightarrow> nat \<Rightarrow> InstructionByteCode \<times> int list \<Rightarrow> InstructionByteCode \<times> int list" where
  "compile_IMULH_R instr i = (\<lambda>(ibc, registerUsage).
     let dst = dst8 instr; src = src8 instr
     in (ibc\<lparr>ibc_type := IMULH_R, bdst := PReg dst, bsrc := PReg src\<rparr>, registerUsage[dst := int i]))"

definition compile_IMULH_M :: "RandomX_Configuration \<Rightarrow> Instruction \<Rightarrow> nat \<Rightarrow> InstructionByteCode \<times> int list \<Rightarrow> InstructionByteCode \<times> int list" where
  "compile_IMULH_M cfg instr i = (\<lambda>(ibc, registerUsage).
     let dst = dst8 instr; src = src8 instr
     in (if src \<noteq> dst
         then ibc\<lparr>ibc_type := IMULH_M, bdst := PReg dst, imm := signExtend2sCompl (getImm32 instr),
                  bsrc := PReg src, memMask := AddressMask_Calculated cfg ! unat (getModMem instr)\<rparr>
         else ibc\<lparr>ibc_type := IMULH_M, bdst := PReg dst, imm := signExtend2sCompl (getImm32 instr),
                  bsrc := PZero, memMask := ScratchpadL3Mask_Calculated cfg\<rparr>,
         registerUsage[dst := int i]))"

definition compile_ISMULH_R :: "Instruction \<Rightarrow> nat \<Rightarrow> InstructionByteCode \<times> int list \<Rightarrow> InstructionByteCode \<times> int list" where
  "compile_ISMULH_R instr i = (\<lambda>(ibc, registerUsage).
     let dst = dst8 instr; src = src8 instr
     in (ibc\<lparr>ibc_type := ISMULH_R, bdst := PReg dst, bsrc := PReg src\<rparr>, registerUsage[dst := int i]))"

definition compile_ISMULH_M :: "RandomX_Configuration \<Rightarrow> Instruction \<Rightarrow> nat \<Rightarrow> InstructionByteCode \<times> int list \<Rightarrow> InstructionByteCode \<times> int list" where
  "compile_ISMULH_M cfg instr i = (\<lambda>(ibc, registerUsage).
     let dst = dst8 instr; src = src8 instr
     in (if src \<noteq> dst
         then ibc\<lparr>ibc_type := ISMULH_M, bdst := PReg dst, imm := signExtend2sCompl (getImm32 instr),
                  bsrc := PReg src, memMask := AddressMask_Calculated cfg ! unat (getModMem instr)\<rparr>
         else ibc\<lparr>ibc_type := ISMULH_M, bdst := PReg dst, imm := signExtend2sCompl (getImm32 instr),
                  bsrc := PZero, memMask := ScratchpadL3Mask_Calculated cfg\<rparr>,
         registerUsage[dst := int i]))"

definition compile_IMUL_RCP :: "Instruction \<Rightarrow> nat \<Rightarrow> InstructionByteCode \<times> int list \<Rightarrow> (InstructionByteCode \<times> int list) option" where
  "compile_IMUL_RCP instr i = (\<lambda>(ibc, registerUsage).
     let divisor = ucast (getImm32 instr) :: u64
     in if \<not> isZeroOrPowerOf2 divisor
        then
          (let dst = dst8 instr
           in do {
                rcp \<leftarrow> randomx_reciprocal divisor;
                Some (ibc\<lparr>ibc_type := IMUL_R, bdst := PReg dst, imm := rcp, bsrc := PImm\<rparr>, registerUsage[dst := int i])
              })
        else Some (ibc\<lparr>ibc_type := NOP\<rparr>, registerUsage))"

definition compile_INEG_R :: "Instruction \<Rightarrow> nat \<Rightarrow> InstructionByteCode \<times> int list \<Rightarrow> InstructionByteCode \<times> int list" where
  "compile_INEG_R instr i = (\<lambda>(ibc, registerUsage).
     let dst = dst8 instr
     in (ibc\<lparr>ibc_type := INEG_R, bdst := PReg dst\<rparr>, registerUsage[dst := int i]))"

definition compile_IXOR_R :: "Instruction \<Rightarrow> nat \<Rightarrow> InstructionByteCode \<times> int list \<Rightarrow> InstructionByteCode \<times> int list" where
  "compile_IXOR_R instr i = (\<lambda>(ibc, registerUsage).
     let dst = dst8 instr; src = src8 instr
     in (if src \<noteq> dst
         then ibc\<lparr>ibc_type := IXOR_R, bdst := PReg dst, bsrc := PReg src\<rparr>
         else ibc\<lparr>ibc_type := IXOR_R, bdst := PReg dst, imm := signExtend2sCompl (getImm32 instr), bsrc := PImm\<rparr>,
         registerUsage[dst := int i]))"

definition compile_IXOR_M :: "RandomX_Configuration \<Rightarrow> Instruction \<Rightarrow> nat \<Rightarrow> InstructionByteCode \<times> int list \<Rightarrow> InstructionByteCode \<times> int list" where
  "compile_IXOR_M cfg instr i = (\<lambda>(ibc, registerUsage).
     let dst = dst8 instr; src = src8 instr
     in (if src \<noteq> dst
         then ibc\<lparr>ibc_type := IXOR_M, bdst := PReg dst, imm := signExtend2sCompl (getImm32 instr),
                  bsrc := PReg src, memMask := AddressMask_Calculated cfg ! unat (getModMem instr)\<rparr>
         else ibc\<lparr>ibc_type := IXOR_M, bdst := PReg dst, imm := signExtend2sCompl (getImm32 instr),
                  bsrc := PZero, memMask := ScratchpadL3Mask_Calculated cfg\<rparr>,
         registerUsage[dst := int i]))"

definition compile_IROR_R :: "Instruction \<Rightarrow> nat \<Rightarrow> InstructionByteCode \<times> int list \<Rightarrow> InstructionByteCode \<times> int list" where
  "compile_IROR_R instr i = (\<lambda>(ibc, registerUsage).
     let dst = dst8 instr; src = src8 instr
     in (if src \<noteq> dst
         then ibc\<lparr>ibc_type := IROR_R, bdst := PReg dst, bsrc := PReg src\<rparr>
         else ibc\<lparr>ibc_type := IROR_R, bdst := PReg dst, imm := ucast (getImm32 instr), bsrc := PImm\<rparr>,
         registerUsage[dst := int i]))"

definition compile_IROL_R :: "Instruction \<Rightarrow> nat \<Rightarrow> InstructionByteCode \<times> int list \<Rightarrow> InstructionByteCode \<times> int list" where
  "compile_IROL_R instr i = (\<lambda>(ibc, registerUsage).
     let dst = dst8 instr; src = src8 instr
     in (if src \<noteq> dst
         then ibc\<lparr>ibc_type := IROL_R, bdst := PReg dst, bsrc := PReg src\<rparr>
         else ibc\<lparr>ibc_type := IROL_R, bdst := PReg dst, imm := ucast (getImm32 instr), bsrc := PImm\<rparr>,
         registerUsage[dst := int i]))"

definition compile_ISWAP_R :: "Instruction \<Rightarrow> nat \<Rightarrow> InstructionByteCode \<times> int list \<Rightarrow> InstructionByteCode \<times> int list" where
  "compile_ISWAP_R instr i = (\<lambda>(ibc, registerUsage).
     let dst = dst8 instr; src = src8 instr
     in if src \<noteq> dst
        then (ibc\<lparr>bdst := PReg dst, bsrc := PReg src, ibc_type := ISWAP_R\<rparr>, registerUsage[dst := int i, src := int i])
        else (ibc\<lparr>ibc_type := NOP\<rparr>, registerUsage))"

definition compile_FSWAP_R :: "Instruction \<Rightarrow> nat \<Rightarrow> InstructionByteCode \<times> int list \<Rightarrow> InstructionByteCode \<times> int list" where
  "compile_FSWAP_R instr i = (\<lambda>(ibc, registerUsage).
     let dst = dst8 instr
     in (ibc\<lparr>ibc_type := FSWAP_R,
             bdst := (if dst < RegisterCountFlt then PF dst else PE (dst - RegisterCountFlt))\<rparr>, registerUsage))"

definition compile_FADD_R :: "Instruction \<Rightarrow> nat \<Rightarrow> InstructionByteCode \<times> int list \<Rightarrow> InstructionByteCode \<times> int list" where
  "compile_FADD_R instr i = (\<lambda>(ibc, registerUsage).
     let dst = dst4 instr; src = src4 instr
     in (ibc\<lparr>ibc_type := FADD_R, bdst := PF dst, bsrc := PA src\<rparr>, registerUsage))"

definition compile_FADD_M :: "RandomX_Configuration \<Rightarrow> Instruction \<Rightarrow> nat \<Rightarrow> InstructionByteCode \<times> int list \<Rightarrow> InstructionByteCode \<times> int list" where
  "compile_FADD_M cfg instr i = (\<lambda>(ibc, registerUsage).
     let dst = dst4 instr; src = src8 instr
     in (ibc\<lparr>ibc_type := FADD_M, bdst := PF dst, bsrc := PReg src,
             memMask := AddressMask_Calculated cfg ! unat (getModMem instr),
             imm := signExtend2sCompl (getImm32 instr)\<rparr>, registerUsage))"

definition compile_FSUB_R :: "Instruction \<Rightarrow> nat \<Rightarrow> InstructionByteCode \<times> int list \<Rightarrow> InstructionByteCode \<times> int list" where
  "compile_FSUB_R instr i = (\<lambda>(ibc, registerUsage).
     let dst = dst4 instr; src = src4 instr
     in (ibc\<lparr>ibc_type := FSUB_R, bdst := PF dst, bsrc := PA src\<rparr>, registerUsage))"

definition compile_FSUB_M :: "RandomX_Configuration \<Rightarrow> Instruction \<Rightarrow> nat \<Rightarrow> InstructionByteCode \<times> int list \<Rightarrow> InstructionByteCode \<times> int list" where
  "compile_FSUB_M cfg instr i = (\<lambda>(ibc, registerUsage).
     let dst = dst4 instr; src = src8 instr
     in (ibc\<lparr>ibc_type := FSUB_M, bdst := PF dst, bsrc := PReg src,
             memMask := AddressMask_Calculated cfg ! unat (getModMem instr),
             imm := signExtend2sCompl (getImm32 instr)\<rparr>, registerUsage))"

definition compile_FSCAL_R :: "Instruction \<Rightarrow> nat \<Rightarrow> InstructionByteCode \<times> int list \<Rightarrow> InstructionByteCode \<times> int list" where
  "compile_FSCAL_R instr i = (\<lambda>(ibc, registerUsage).
     (ibc\<lparr>bdst := PF (dst4 instr), ibc_type := FSCAL_R\<rparr>, registerUsage))"

definition compile_FMUL_R :: "Instruction \<Rightarrow> nat \<Rightarrow> InstructionByteCode \<times> int list \<Rightarrow> InstructionByteCode \<times> int list" where
  "compile_FMUL_R instr i = (\<lambda>(ibc, registerUsage).
     let dst = dst4 instr; src = src4 instr
     in (ibc\<lparr>ibc_type := FMUL_R, bdst := PE dst, bsrc := PA src\<rparr>, registerUsage))"

definition compile_FDIV_M :: "RandomX_Configuration \<Rightarrow> Instruction \<Rightarrow> nat \<Rightarrow> InstructionByteCode \<times> int list \<Rightarrow> InstructionByteCode \<times> int list" where
  "compile_FDIV_M cfg instr i = (\<lambda>(ibc, registerUsage).
     let dst = dst4 instr; src = src8 instr
     in (ibc\<lparr>ibc_type := FDIV_M, bdst := PE dst, bsrc := PReg src,
             memMask := AddressMask_Calculated cfg ! unat (getModMem instr),
             imm := signExtend2sCompl (getImm32 instr)\<rparr>, registerUsage))"

definition compile_FSQRT_R :: "Instruction \<Rightarrow> nat \<Rightarrow> InstructionByteCode \<times> int list \<Rightarrow> InstructionByteCode \<times> int list" where
  "compile_FSQRT_R instr i = (\<lambda>(ibc, registerUsage).
     (ibc\<lparr>ibc_type := FSQRT_R, bdst := PE (dst4 instr)\<rparr>, registerUsage))"

definition compile_CBRANCH :: "Instruction \<Rightarrow> nat \<Rightarrow> InstructionByteCode \<times> int list \<Rightarrow> InstructionByteCode \<times> int list" where
  "compile_CBRANCH instr i = (\<lambda>(ibc, registerUsage).
     let creg = dst8 instr;
         shift = unat (getModCond instr);
         im = signExtend2sCompl (getImm32 instr) OR push_bit shift (push_bit JumpOffset 1);
         im = im AND NOT (push_bit shift (push_bit (JumpOffset - 1) 1))
     in (ibc\<lparr>ibc_type := CBRANCH, bdst := PReg creg, target_shift := word_of_int (registerUsage ! creg),
             imm := im, memMask := ucast (push_bit shift ConditionMask_Calculated)\<rparr>,
         map (\<lambda>_. int i) [0..<RegistersCount]))"

definition compile_CFROUND :: "Instruction \<Rightarrow> nat \<Rightarrow> InstructionByteCode \<times> int list \<Rightarrow> InstructionByteCode \<times> int list" where
  "compile_CFROUND instr i = (\<lambda>(ibc, registerUsage).
     let src = src8 instr
     in (ibc\<lparr>bsrc := PReg src, ibc_type := CFROUND, imm := ucast (getImm32 instr AND 63)\<rparr>, registerUsage))"

definition compile_ISTORE :: "RandomX_Configuration \<Rightarrow> Instruction \<Rightarrow> nat \<Rightarrow> InstructionByteCode \<times> int list \<Rightarrow> InstructionByteCode \<times> int list" where
  "compile_ISTORE cfg instr i = (\<lambda>(ibc, registerUsage).
     let dst = dst8 instr; src = src8 instr
     in (ibc\<lparr>ibc_type := ISTORE, bdst := PReg dst, bsrc := PReg src, imm := signExtend2sCompl (getImm32 instr),
             memMask := (if getModCond instr < StoreL3Condition then AddressMask_Calculated cfg ! unat (getModMem instr)
                         else ScratchpadL3Mask_Calculated cfg)\<rparr>,
         registerUsage))"

definition compile_NOP :: "Instruction \<Rightarrow> nat \<Rightarrow> InstructionByteCode \<times> int list \<Rightarrow> InstructionByteCode \<times> int list" where
  "compile_NOP instr i = (\<lambda>(ibc, registerUsage).
     (ibc\<lparr>ibc_type := NOP\<rparr>, registerUsage))"

definition compileInstruction :: "RandomX_Configuration \<Rightarrow> Instruction \<Rightarrow> nat \<Rightarrow> InstructionByteCode \<times> int list \<Rightarrow>
    (InstructionByteCode \<times> int list) option" where
  "compileInstruction cfg instr i st =
     (let opc = unat (opcode instr) in
     if opc < RANDOMX_FREQ_IADD_RS cfg then Some (compile_IADD_RS instr i st) else
     let opc = opc - RANDOMX_FREQ_IADD_RS cfg in
     if opc < RANDOMX_FREQ_IADD_M cfg then Some (compile_IADD_M cfg instr i st) else
     let opc = opc - RANDOMX_FREQ_IADD_M cfg in
     if opc < RANDOMX_FREQ_ISUB_R cfg then Some (compile_ISUB_R instr i st) else
     let opc = opc - RANDOMX_FREQ_ISUB_R cfg in
     if opc < RANDOMX_FREQ_ISUB_M cfg then Some (compile_ISUB_M cfg instr i st) else
     let opc = opc - RANDOMX_FREQ_ISUB_M cfg in
     if opc < RANDOMX_FREQ_IMUL_R cfg then Some (compile_IMUL_R instr i st) else
     let opc = opc - RANDOMX_FREQ_IMUL_R cfg in
     if opc < RANDOMX_FREQ_IMUL_M cfg then Some (compile_IMUL_M cfg instr i st) else
     let opc = opc - RANDOMX_FREQ_IMUL_M cfg in
     if opc < RANDOMX_FREQ_IMULH_R cfg then Some (compile_IMULH_R instr i st) else
     let opc = opc - RANDOMX_FREQ_IMULH_R cfg in
     if opc < RANDOMX_FREQ_IMULH_M cfg then Some (compile_IMULH_M cfg instr i st) else
     let opc = opc - RANDOMX_FREQ_IMULH_M cfg in
     if opc < RANDOMX_FREQ_ISMULH_R cfg then Some (compile_ISMULH_R instr i st) else
     let opc = opc - RANDOMX_FREQ_ISMULH_R cfg in
     if opc < RANDOMX_FREQ_ISMULH_M cfg then Some (compile_ISMULH_M cfg instr i st) else
     let opc = opc - RANDOMX_FREQ_ISMULH_M cfg in
     if opc < RANDOMX_FREQ_IMUL_RCP cfg then compile_IMUL_RCP instr i st else
     let opc = opc - RANDOMX_FREQ_IMUL_RCP cfg in
     if opc < RANDOMX_FREQ_INEG_R cfg then Some (compile_INEG_R instr i st) else
     let opc = opc - RANDOMX_FREQ_INEG_R cfg in
     if opc < RANDOMX_FREQ_IXOR_R cfg then Some (compile_IXOR_R instr i st) else
     let opc = opc - RANDOMX_FREQ_IXOR_R cfg in
     if opc < RANDOMX_FREQ_IXOR_M cfg then Some (compile_IXOR_M cfg instr i st) else
     let opc = opc - RANDOMX_FREQ_IXOR_M cfg in
     if opc < RANDOMX_FREQ_IROR_R cfg then Some (compile_IROR_R instr i st) else
     let opc = opc - RANDOMX_FREQ_IROR_R cfg in
     if opc < RANDOMX_FREQ_IROL_R cfg then Some (compile_IROL_R instr i st) else
     let opc = opc - RANDOMX_FREQ_IROL_R cfg in
     if opc < RANDOMX_FREQ_ISWAP_R cfg then Some (compile_ISWAP_R instr i st) else
     let opc = opc - RANDOMX_FREQ_ISWAP_R cfg in
     if opc < RANDOMX_FREQ_FSWAP_R cfg then Some (compile_FSWAP_R instr i st) else
     let opc = opc - RANDOMX_FREQ_FSWAP_R cfg in
     if opc < RANDOMX_FREQ_FADD_R cfg then Some (compile_FADD_R instr i st) else
     let opc = opc - RANDOMX_FREQ_FADD_R cfg in
     if opc < RANDOMX_FREQ_FADD_M cfg then Some (compile_FADD_M cfg instr i st) else
     let opc = opc - RANDOMX_FREQ_FADD_M cfg in
     if opc < RANDOMX_FREQ_FSUB_R cfg then Some (compile_FSUB_R instr i st) else
     let opc = opc - RANDOMX_FREQ_FSUB_R cfg in
     if opc < RANDOMX_FREQ_FSUB_M cfg then Some (compile_FSUB_M cfg instr i st) else
     let opc = opc - RANDOMX_FREQ_FSUB_M cfg in
     if opc < RANDOMX_FREQ_FSCAL_R cfg then Some (compile_FSCAL_R instr i st) else
     let opc = opc - RANDOMX_FREQ_FSCAL_R cfg in
     if opc < RANDOMX_FREQ_FMUL_R cfg then Some (compile_FMUL_R instr i st) else
     let opc = opc - RANDOMX_FREQ_FMUL_R cfg in
     if opc < RANDOMX_FREQ_FDIV_M cfg then Some (compile_FDIV_M cfg instr i st) else
     let opc = opc - RANDOMX_FREQ_FDIV_M cfg in
     if opc < RANDOMX_FREQ_FSQRT_R cfg then Some (compile_FSQRT_R instr i st) else
     let opc = opc - RANDOMX_FREQ_FSQRT_R cfg in
     if opc < RANDOMX_FREQ_CBRANCH cfg then Some (compile_CBRANCH instr i st) else
     let opc = opc - RANDOMX_FREQ_CBRANCH cfg in
     if opc < RANDOMX_FREQ_CFROUND cfg then Some (compile_CFROUND instr i st) else
     let opc = opc - RANDOMX_FREQ_CFROUND cfg in
     if opc < RANDOMX_FREQ_ISTORE cfg then Some (compile_ISTORE cfg instr i st) else
     let opc = opc - RANDOMX_FREQ_ISTORE cfg in
     if opc < RANDOMX_FREQ_NOP cfg then Some (compile_NOP instr i st) else
     None)"

definition beginCompilation :: "int list" where
  "beginCompilation = map (\<lambda>_. -1) [0..<RegistersCount]"

text \<open>The loop of \<open>compileProgram\<close>; \<open>bytecode\<close> is what the array held before.\<close>

fun compile_from :: "RandomX_Configuration \<Rightarrow> program \<Rightarrow> nat \<Rightarrow> nat \<Rightarrow> InstructionByteCode list \<times> int list \<Rightarrow>
    (InstructionByteCode list \<times> int list) option" where
  "compile_from cfg p i 0 st = Some st"
| "compile_from cfg p i (Suc n) (bytecode, registerUsage) = do {
     (ibc, registerUsage) \<leftarrow> compileInstruction cfg (program_instr p i) i (bytecode ! i, registerUsage);
     compile_from cfg p (i + 1) n (bytecode[i := ibc], registerUsage)
   }"

definition compileProgram :: "RandomX_Configuration \<Rightarrow> program \<Rightarrow> InstructionByteCode list \<Rightarrow> InstructionByteCode list option" where
  "compileProgram cfg p bytecode = map_option fst (compile_from cfg p 0 (ProgramSize cfg) (bytecode, beginCompilation))"

subsection \<open>Execution\<close>

definition exe_IADD_RS :: "InstructionByteCode \<Rightarrow> machine \<Rightarrow> machine option" where
  "exe_IADD_RS ibc st = do {
     d \<leftarrow> iget ibc (bdst ibc) st;
     s \<leftarrow> iget ibc (bsrc ibc) st;
     iset (bdst ibc) (d + (push_bit (unat (target_shift ibc)) s + imm ibc)) st
   }"

definition exe_IADD_M :: "InstructionByteCode \<Rightarrow> machine \<Rightarrow> machine option" where
  "exe_IADD_M ibc st = do {
     d \<leftarrow> iget ibc (bdst ibc) st;
     s \<leftarrow> load64_at ibc st;
     iset (bdst ibc) (d + s) st
   }"

definition exe_ISUB_R :: "InstructionByteCode \<Rightarrow> machine \<Rightarrow> machine option" where
  "exe_ISUB_R ibc st = do {
     d \<leftarrow> iget ibc (bdst ibc) st;
     s \<leftarrow> iget ibc (bsrc ibc) st;
     iset (bdst ibc) (d - s) st
   }"

definition exe_ISUB_M :: "InstructionByteCode \<Rightarrow> machine \<Rightarrow> machine option" where
  "exe_ISUB_M ibc st = do {
     d \<leftarrow> iget ibc (bdst ibc) st;
     s \<leftarrow> load64_at ibc st;
     iset (bdst ibc) (d - s) st
   }"

definition exe_IMUL_R :: "InstructionByteCode \<Rightarrow> machine \<Rightarrow> machine option" where
  "exe_IMUL_R ibc st = do {
     d \<leftarrow> iget ibc (bdst ibc) st;
     s \<leftarrow> iget ibc (bsrc ibc) st;
     iset (bdst ibc) (d * s) st
   }"

definition exe_IMUL_M :: "InstructionByteCode \<Rightarrow> machine \<Rightarrow> machine option" where
  "exe_IMUL_M ibc st = do {
     d \<leftarrow> iget ibc (bdst ibc) st;
     s \<leftarrow> load64_at ibc st;
     iset (bdst ibc) (d * s) st
   }"

definition exe_IMULH_R :: "InstructionByteCode \<Rightarrow> machine \<Rightarrow> machine option" where
  "exe_IMULH_R ibc st = do {
     d \<leftarrow> iget ibc (bdst ibc) st;
     s \<leftarrow> iget ibc (bsrc ibc) st;
     iset (bdst ibc) (mulh d s) st
   }"

definition exe_IMULH_M :: "InstructionByteCode \<Rightarrow> machine \<Rightarrow> machine option" where
  "exe_IMULH_M ibc st = do {
     d \<leftarrow> iget ibc (bdst ibc) st;
     s \<leftarrow> load64_at ibc st;
     iset (bdst ibc) (mulh d s) st
   }"

definition exe_ISMULH_R :: "InstructionByteCode \<Rightarrow> machine \<Rightarrow> machine option" where
  "exe_ISMULH_R ibc st = do {
     d \<leftarrow> iget ibc (bdst ibc) st;
     s \<leftarrow> iget ibc (bsrc ibc) st;
     iset (bdst ibc) (smulh (unsigned64ToSigned2sCompl d) (unsigned64ToSigned2sCompl s)) st
   }"

definition exe_ISMULH_M :: "InstructionByteCode \<Rightarrow> machine \<Rightarrow> machine option" where
  "exe_ISMULH_M ibc st = do {
     d \<leftarrow> iget ibc (bdst ibc) st;
     s \<leftarrow> load64_at ibc st;
     iset (bdst ibc) (smulh (unsigned64ToSigned2sCompl d) (unsigned64ToSigned2sCompl s)) st
   }"

definition exe_INEG_R :: "InstructionByteCode \<Rightarrow> machine \<Rightarrow> machine option" where
  "exe_INEG_R ibc st = do {
     d \<leftarrow> iget ibc (bdst ibc) st;
     iset (bdst ibc) (NOT d + 1) st
   }"

definition exe_IXOR_R :: "InstructionByteCode \<Rightarrow> machine \<Rightarrow> machine option" where
  "exe_IXOR_R ibc st = do {
     d \<leftarrow> iget ibc (bdst ibc) st;
     s \<leftarrow> iget ibc (bsrc ibc) st;
     iset (bdst ibc) (d XOR s) st
   }"

definition exe_IXOR_M :: "InstructionByteCode \<Rightarrow> machine \<Rightarrow> machine option" where
  "exe_IXOR_M ibc st = do {
     d \<leftarrow> iget ibc (bdst ibc) st;
     s \<leftarrow> load64_at ibc st;
     iset (bdst ibc) (d XOR s) st
   }"

definition exe_IROR_R :: "InstructionByteCode \<Rightarrow> machine \<Rightarrow> machine option" where
  "exe_IROR_R ibc st = do {
     d \<leftarrow> iget ibc (bdst ibc) st;
     s \<leftarrow> iget ibc (bsrc ibc) st;
     iset (bdst ibc) (rx_rotr64 d (ucast (s AND 63))) st
   }"

definition exe_IROL_R :: "InstructionByteCode \<Rightarrow> machine \<Rightarrow> machine option" where
  "exe_IROL_R ibc st = do {
     d \<leftarrow> iget ibc (bdst ibc) st;
     s \<leftarrow> iget ibc (bsrc ibc) st;
     iset (bdst ibc) (rx_rotl64 d (ucast (s AND 63))) st
   }"

definition exe_ISWAP_R :: "InstructionByteCode \<Rightarrow> machine \<Rightarrow> machine option" where
  "exe_ISWAP_R ibc st = do {
     temp \<leftarrow> iget ibc (bsrc ibc) st;
     d \<leftarrow> iget ibc (bdst ibc) st;
     st \<leftarrow> iset (bsrc ibc) d st;
     iset (bdst ibc) temp st
   }"

definition exe_FSWAP_R :: "InstructionByteCode \<Rightarrow> machine \<Rightarrow> machine option" where
  "exe_FSWAP_R ibc st = do {
     d \<leftarrow> fget (bdst ibc) st;
     fset (bdst ibc) (rx_swap_vec_f128 d) st
   }"

definition exe_FADD_R :: "fpu \<Rightarrow> InstructionByteCode \<Rightarrow> machine \<Rightarrow> machine option" where
  "exe_FADD_R F ibc st = do {
     d \<leftarrow> fget (bdst ibc) st;
     s \<leftarrow> fget (bsrc ibc) st;
     fset (bdst ibc) (vec2 (fp_add F (mxcsr st)) d s) st
   }"

definition exe_FADD_M :: "fpu \<Rightarrow> InstructionByteCode \<Rightarrow> machine \<Rightarrow> machine option" where
  "exe_FADD_M F ibc st = do {
     s \<leftarrow> load_packed_int F ibc st;
     d \<leftarrow> fget (bdst ibc) st;
     fset (bdst ibc) (vec2 (fp_add F (mxcsr st)) d s) st
   }"

definition exe_FSUB_R :: "fpu \<Rightarrow> InstructionByteCode \<Rightarrow> machine \<Rightarrow> machine option" where
  "exe_FSUB_R F ibc st = do {
     d \<leftarrow> fget (bdst ibc) st;
     s \<leftarrow> fget (bsrc ibc) st;
     fset (bdst ibc) (vec2 (fp_sub F (mxcsr st)) d s) st
   }"

definition exe_FSUB_M :: "fpu \<Rightarrow> InstructionByteCode \<Rightarrow> machine \<Rightarrow> machine option" where
  "exe_FSUB_M F ibc st = do {
     s \<leftarrow> load_packed_int F ibc st;
     d \<leftarrow> fget (bdst ibc) st;
     fset (bdst ibc) (vec2 (fp_sub F (mxcsr st)) d s) st
   }"

definition exe_FSCAL_R :: "InstructionByteCode \<Rightarrow> machine \<Rightarrow> machine option" where
  "exe_FSCAL_R ibc st = do {
     d \<leftarrow> fget (bdst ibc) st;
     fset (bdst ibc) (vec2 (XOR) d (0x80F0000000000000, 0x80F0000000000000)) st
   }"

definition exe_FMUL_R :: "fpu \<Rightarrow> InstructionByteCode \<Rightarrow> machine \<Rightarrow> machine option" where
  "exe_FMUL_R F ibc st = do {
     d \<leftarrow> fget (bdst ibc) st;
     s \<leftarrow> fget (bsrc ibc) st;
     fset (bdst ibc) (vec2 (fp_mul F (mxcsr st)) d s) st
   }"

definition exe_FDIV_M :: "fpu \<Rightarrow> ProgramConfiguration \<Rightarrow> InstructionByteCode \<Rightarrow> machine \<Rightarrow> machine option" where
  "exe_FDIV_M F config ibc st = do {
     x \<leftarrow> load_packed_int F ibc st;
     d \<leftarrow> fget (bdst ibc) st;
     fset (bdst ibc) (vec2 (fp_div F (mxcsr st)) d (maskRegisterExponentMantissa config x)) st
   }"

definition exe_FSQRT_R :: "fpu \<Rightarrow> InstructionByteCode \<Rightarrow> machine \<Rightarrow> machine option" where
  "exe_FSQRT_R F ibc st = do {
     d \<leftarrow> fget (bdst ibc) st;
     fset (bdst ibc) (fp_sqrt F (mxcsr st) (fst d), fp_sqrt F (mxcsr st) (snd d)) st
   }"

definition exe_CBRANCH :: "InstructionByteCode \<Rightarrow> int \<Rightarrow> machine \<Rightarrow> (int \<times> machine) option" where
  "exe_CBRANCH ibc pc st = do {
     d \<leftarrow> iget ibc (bdst ibc) st;
     st \<leftarrow> iset (bdst ibc) (d + imm ibc) st;
     d \<leftarrow> iget ibc (bdst ibc) st;
     Some (if d AND ucast (memMask ibc) = 0 then sint (target_shift ibc) else pc, st)
   }"

definition exe_CFROUND :: "InstructionByteCode \<Rightarrow> machine \<Rightarrow> machine option" where
  "exe_CFROUND ibc st = do {
     s \<leftarrow> iget ibc (bsrc ibc) st;
     Some (st\<lparr>mxcsr := rx_set_rounding_mode (ucast (rx_rotr64 s (ucast (imm ibc)) mod 4))\<rparr>)
   }"

definition exe_ISTORE :: "InstructionByteCode \<Rightarrow> machine \<Rightarrow> machine option" where
  "exe_ISTORE ibc st = do {
     d \<leftarrow> iget ibc (bdst ibc) st;
     s \<leftarrow> iget ibc (bsrc ibc) st;
     sp \<leftarrow> store_at (scratchpad st) (unat ((d + imm ibc) AND ucast (memMask ibc))) (store64 s);
     Some (st\<lparr>scratchpad := sp\<rparr>)
   }"

definition executeInstruction :: "fpu \<Rightarrow> ProgramConfiguration \<Rightarrow> InstructionByteCode \<Rightarrow> int \<Rightarrow> machine \<Rightarrow> (int \<times> machine) option" where
  "executeInstruction F config ibc pc st =
     (case ibc_type ibc of
        IADD_RS \<Rightarrow> map_option (Pair pc) (exe_IADD_RS ibc st)
      | IADD_M \<Rightarrow> map_option (Pair pc) (exe_IADD_M ibc st)
      | ISUB_R \<Rightarrow> map_option (Pair pc) (exe_ISUB_R ibc st)
      | ISUB_M \<Rightarrow> map_option (Pair pc) (exe_ISUB_M ibc st)
      | IMUL_R \<Rightarrow> map_option (Pair pc) (exe_IMUL_R ibc st)
      | IMUL_M \<Rightarrow> map_option (Pair pc) (exe_IMUL_M ibc st)
      | IMULH_R \<Rightarrow> map_option (Pair pc) (exe_IMULH_R ibc st)
      | IMULH_M \<Rightarrow> map_option (Pair pc) (exe_IMULH_M ibc st)
      | ISMULH_R \<Rightarrow> map_option (Pair pc) (exe_ISMULH_R ibc st)
      | ISMULH_M \<Rightarrow> map_option (Pair pc) (exe_ISMULH_M ibc st)
      | INEG_R \<Rightarrow> map_option (Pair pc) (exe_INEG_R ibc st)
      | IXOR_R \<Rightarrow> map_option (Pair pc) (exe_IXOR_R ibc st)
      | IXOR_M \<Rightarrow> map_option (Pair pc) (exe_IXOR_M ibc st)
      | IROR_R \<Rightarrow> map_option (Pair pc) (exe_IROR_R ibc st)
      | IROL_R \<Rightarrow> map_option (Pair pc) (exe_IROL_R ibc st)
      | ISWAP_R \<Rightarrow> map_option (Pair pc) (exe_ISWAP_R ibc st)
      | FSWAP_R \<Rightarrow> map_option (Pair pc) (exe_FSWAP_R ibc st)
      | FADD_R \<Rightarrow> map_option (Pair pc) (exe_FADD_R F ibc st)
      | FADD_M \<Rightarrow> map_option (Pair pc) (exe_FADD_M F ibc st)
      | FSUB_R \<Rightarrow> map_option (Pair pc) (exe_FSUB_R F ibc st)
      | FSUB_M \<Rightarrow> map_option (Pair pc) (exe_FSUB_M F ibc st)
      | FSCAL_R \<Rightarrow> map_option (Pair pc) (exe_FSCAL_R ibc st)
      | FMUL_R \<Rightarrow> map_option (Pair pc) (exe_FMUL_R F ibc st)
      | FDIV_M \<Rightarrow> map_option (Pair pc) (exe_FDIV_M F config ibc st)
      | FSQRT_R \<Rightarrow> map_option (Pair pc) (exe_FSQRT_R F ibc st)
      | CBRANCH \<Rightarrow> exe_CBRANCH ibc pc st
      | CFROUND \<Rightarrow> map_option (Pair pc) (exe_CFROUND ibc st)
      | ISTORE \<Rightarrow> map_option (Pair pc) (exe_ISTORE ibc st)
      | NOP \<Rightarrow> Some (pc, st)
      | IMUL_RCP \<Rightarrow> None)"

partial_function (option) execute_from :: "fpu \<Rightarrow> ProgramConfiguration \<Rightarrow> InstructionByteCode list \<Rightarrow> nat \<Rightarrow> int \<Rightarrow> machine \<Rightarrow> machine option" where
  "execute_from F config bytecode psize pc st =
     (if pc < int psize
      then if 0 \<le> pc \<and> pc < int (length bytecode)
        then do {
          (pc, st) \<leftarrow> executeInstruction F config (bytecode ! nat pc) pc st;
          execute_from F config bytecode psize (pc + 1) st
        }
        else None
      else Some st)"

definition executeBytecode :: "fpu \<Rightarrow> RandomX_Configuration \<Rightarrow> ProgramConfiguration \<Rightarrow> InstructionByteCode list \<Rightarrow> machine \<Rightarrow> machine option" where
  "executeBytecode F cfg config bytecode st = execute_from F config bytecode (ProgramSize cfg) 0 st"

end
