(* ===== verification/Bytecode_Safety.thy ===== *)
theory Bytecode_Safety
  imports Bytecode
begin

text \<open>
  What the compiled bytecode promises: every slot that \<open>compileInstruction\<close> produces is well formed,
  and a well-formed slot executes without an access outside the register file or the scratchpad
  (progress) and keeps the shape of the machine (preservation).
\<close>

subsection \<open>Decoding\<close>

lemma bind_if: "Option.bind (if c then Some x else r) f = (if c then f x else Option.bind r f)"
  by simp

text \<open>The case of \<open>compileInstruction\<close> that an instruction type selects.\<close>

definition compile_case :: "RandomX_Configuration \<Rightarrow> InstructionType \<Rightarrow> Instruction \<Rightarrow> nat \<Rightarrow> InstructionByteCode \<times> int list \<Rightarrow>
    (InstructionByteCode \<times> int list) option" where
  "compile_case cfg x instr i st =
     (case x of
        IADD_RS \<Rightarrow> Some (compile_IADD_RS instr i st) | IADD_M \<Rightarrow> Some (compile_IADD_M cfg instr i st)
      | ISUB_R \<Rightarrow> Some (compile_ISUB_R instr i st) | ISUB_M \<Rightarrow> Some (compile_ISUB_M cfg instr i st)
      | IMUL_R \<Rightarrow> Some (compile_IMUL_R instr i st) | IMUL_M \<Rightarrow> Some (compile_IMUL_M cfg instr i st)
      | IMULH_R \<Rightarrow> Some (compile_IMULH_R instr i st) | IMULH_M \<Rightarrow> Some (compile_IMULH_M cfg instr i st)
      | ISMULH_R \<Rightarrow> Some (compile_ISMULH_R instr i st) | ISMULH_M \<Rightarrow> Some (compile_ISMULH_M cfg instr i st)
      | IMUL_RCP \<Rightarrow> compile_IMUL_RCP instr i st | INEG_R \<Rightarrow> Some (compile_INEG_R instr i st)
      | IXOR_R \<Rightarrow> Some (compile_IXOR_R instr i st) | IXOR_M \<Rightarrow> Some (compile_IXOR_M cfg instr i st)
      | IROR_R \<Rightarrow> Some (compile_IROR_R instr i st) | IROL_R \<Rightarrow> Some (compile_IROL_R instr i st)
      | ISWAP_R \<Rightarrow> Some (compile_ISWAP_R instr i st) | FSWAP_R \<Rightarrow> Some (compile_FSWAP_R instr i st)
      | FADD_R \<Rightarrow> Some (compile_FADD_R instr i st) | FADD_M \<Rightarrow> Some (compile_FADD_M cfg instr i st)
      | FSUB_R \<Rightarrow> Some (compile_FSUB_R instr i st) | FSUB_M \<Rightarrow> Some (compile_FSUB_M cfg instr i st)
      | FSCAL_R \<Rightarrow> Some (compile_FSCAL_R instr i st) | FMUL_R \<Rightarrow> Some (compile_FMUL_R instr i st)
      | FDIV_M \<Rightarrow> Some (compile_FDIV_M cfg instr i st) | FSQRT_R \<Rightarrow> Some (compile_FSQRT_R instr i st)
      | CBRANCH \<Rightarrow> Some (compile_CBRANCH instr i st) | CFROUND \<Rightarrow> Some (compile_CFROUND instr i st)
      | ISTORE \<Rightarrow> Some (compile_ISTORE cfg instr i st) | NOP \<Rightarrow> Some (compile_NOP instr i st))"

lemma compile_decode:
  "compileInstruction cfg instr i st =
     Option.bind (decode_freqs (inst_freqs cfg) (unat (opcode instr))) (\<lambda>x. compile_case cfg x instr i st)"
  unfolding compileInstruction_def Let_def inst_freqs_def decode_freqs.simps bind_if compile_case_def
    InstructionType.case Option.bind.bind_lzero ..

subsection \<open>Well-formed slots and machines\<close>

fun int_dst :: "ptr \<Rightarrow> bool" where
  "int_dst (PReg n) \<longleftrightarrow> n < 8"
| "int_dst _ \<longleftrightarrow> False"

fun int_src :: "ptr \<Rightarrow> bool" where
  "int_src (PReg n) \<longleftrightarrow> n < 8"
| "int_src PImm \<longleftrightarrow> True"
| "int_src PZero \<longleftrightarrow> True"
| "int_src _ \<longleftrightarrow> False"

fun flt_dst :: "ptr \<Rightarrow> bool" where
  "flt_dst (PF n) \<longleftrightarrow> n < 4"
| "flt_dst (PE n) \<longleftrightarrow> n < 4"
| "flt_dst _ \<longleftrightarrow> False"

fun flt_src :: "ptr \<Rightarrow> bool" where
  "flt_src (PA n) \<longleftrightarrow> n < 4"
| "flt_src _ \<longleftrightarrow> False"

definition wf_ibc :: "RandomX_Configuration \<Rightarrow> InstructionByteCode \<Rightarrow> bool" where
  "wf_ibc cfg ibc \<longleftrightarrow>
     (let t = ibc_type ibc; d = bdst ibc; s = bsrc ibc; m = mask_ok cfg (memMask ibc)
      in if t \<in> {IADD_RS, ISUB_R, IMUL_R, IMULH_R, ISMULH_R, IXOR_R, IROR_R, IROL_R} then int_dst d \<and> int_src s
         else if t \<in> {IADD_M, ISUB_M, IMUL_M, IMULH_M, ISMULH_M, IXOR_M, ISTORE} then int_dst d \<and> int_src s \<and> m
         else if t = ISWAP_R then int_dst d \<and> int_dst s
         else if t \<in> {INEG_R, CBRANCH} then int_dst d
         else if t \<in> {FSWAP_R, FSCAL_R, FSQRT_R} then flt_dst d
         else if t \<in> {FADD_R, FSUB_R, FMUL_R} then flt_dst d \<and> flt_src s
         else if t \<in> {FADD_M, FSUB_M, FDIV_M} then flt_dst d \<and> int_src s \<and> m
         else if t = CFROUND then int_src s
         else t = NOP)"

definition machine_ok :: "RandomX_Configuration \<Rightarrow> machine \<Rightarrow> bool" where
  "machine_ok cfg st \<longleftrightarrow>
     length (nr_r (nreg st)) = 8 \<and> length (nr_f (nreg st)) = 4 \<and> length (nr_e (nreg st)) = 4 \<and>
     length (nr_a (nreg st)) = 4 \<and> length (scratchpad st) = unat (ScratchpadL3_Size cfg)"

abbreviation ireg :: "machine \<Rightarrow> nat \<Rightarrow> u64" where
  "ireg st r \<equiv> nr_r (nreg st) ! r"

text \<open>\<open>st'\<close> is a well-formed machine that agrees with \<open>st\<close> on the integer registers outside \<open>W\<close>.\<close>

definition steps_to :: "RandomX_Configuration \<Rightarrow> nat set \<Rightarrow> machine \<Rightarrow> machine \<Rightarrow> bool" where
  "steps_to cfg W st st' \<longleftrightarrow> machine_ok cfg st' \<and> (\<forall>r. r \<notin> W \<longrightarrow> ireg st' r = ireg st r) \<and> nr_a (nreg st') = nr_a (nreg st)"

lemma steps_to_refl: "machine_ok cfg st \<Longrightarrow> steps_to cfg W st st"
  by (simp add: steps_to_def)

lemma iget_returns [wp]:
  "machine_ok cfg st \<Longrightarrow> int_src p \<Longrightarrow> (\<And>v. P v) \<Longrightarrow> returns (iget ibc p st) P"
  by (cases p) (auto simp: returns_def machine_ok_def nth_opt_def)

lemma int_dst_src: "int_dst p \<Longrightarrow> int_src p"
  by (cases p) auto

lemma iset_returns [wp]:
  "machine_ok cfg st \<Longrightarrow> int_dst p \<Longrightarrow> (\<And>st'. steps_to cfg {r. p = PReg r} st st' \<Longrightarrow> iget ibc p st' = Some v \<Longrightarrow> P st') \<Longrightarrow>
   returns (iset p v st) P"
  by (cases p) (auto simp: returns_def machine_ok_def steps_to_def upd_opt_def nth_opt_def)

lemma fget_returns [wp]:
  "machine_ok cfg st \<Longrightarrow> flt_dst p \<or> flt_src p \<Longrightarrow> (\<And>v. P v) \<Longrightarrow> returns (fget p st) P"
  by (cases p) (auto simp: returns_def machine_ok_def nth_opt_def)

lemma fset_returns [wp]:
  "machine_ok cfg st \<Longrightarrow> flt_dst p \<Longrightarrow> (\<And>st'. steps_to cfg {} st st' \<Longrightarrow> P st') \<Longrightarrow> returns (fset p v st) P"
  by (cases p) (auto simp: returns_def machine_ok_def steps_to_def upd_opt_def)

text \<open>A masked address leaves room for eight bytes.\<close>

lemma address_returns [wp]:
  "machine_ok cfg st \<Longrightarrow> int_src (bsrc ibc) \<Longrightarrow> (\<And>addr. unat addr \<le> unat (memMask ibc) \<Longrightarrow> P addr) \<Longrightarrow>
   returns (getScratchpadAddress ibc st) P"
  unfolding getScratchpadAddress_def using masked_le by (intro wp) auto

lemma load_at_returns [wp]:
  "machine_ok cfg st \<Longrightarrow> mask_ok cfg m \<Longrightarrow> unat addr \<le> unat m \<Longrightarrow> (\<And>b. P b) \<Longrightarrow>
   returns (load_at (scratchpad st) (unat addr) 8) P"
  by (auto simp: returns_def load_at_def machine_ok_def mask_ok_def)

lemma load64_returns [wp]:
  "machine_ok cfg st \<Longrightarrow> int_src (bsrc ibc) \<Longrightarrow> mask_ok cfg (memMask ibc) \<Longrightarrow> (\<And>v. P v) \<Longrightarrow> returns (load64_at ibc st) P"
  unfolding load64_at_def by (intro wp) auto

lemma load_packed_int_returns [wp]:
  "machine_ok cfg st \<Longrightarrow> int_src (bsrc ibc) \<Longrightarrow> mask_ok cfg (memMask ibc) \<Longrightarrow> (\<And>v. P v) \<Longrightarrow> returns (load_packed_int F ibc st) P"
  unfolding load_packed_int_def by (intro wp) auto

lemma store_at_returns [wp]:
  "machine_ok cfg st \<Longrightarrow> mask_ok cfg m \<Longrightarrow> (\<And>sp. length sp = length (scratchpad st) \<Longrightarrow> P sp) \<Longrightarrow>
   returns (store_at (scratchpad st) (unat (x AND ucast m :: u64)) (store64 v)) P"
  using masked_le_64 [of x m]
  by (auto simp: returns_def store_at_def machine_ok_def mask_ok_def)


subsection \<open>Execution of a slot\<close>

text \<open>The integer registers a slot changes.\<close>

definition int_writes :: "InstructionByteCode \<Rightarrow> nat set" where
  "int_writes ibc =
     (if ibc_type ibc \<in> {FSWAP_R, FADD_R, FADD_M, FSUB_R, FSUB_M, FSCAL_R, FMUL_R, FDIV_M, FSQRT_R, CFROUND, ISTORE, NOP}
      then {}
      else {r. bdst ibc = PReg r \<or> ibc_type ibc = ISWAP_R \<and> bsrc ibc = PReg r})"

lemma steps_to_mono: "steps_to cfg W st st' \<Longrightarrow> W \<subseteq> W' \<Longrightarrow> steps_to cfg W' st st'"
  by (auto simp: steps_to_def)

lemma steps_to_trans: "steps_to cfg W st st' \<Longrightarrow> steps_to cfg W st' st'' \<Longrightarrow> steps_to cfg W st st''"
  by (simp add: steps_to_def)

lemma steps_to_ok: "steps_to cfg W st st' \<Longrightarrow> machine_ok cfg st'"
  by (simp add: steps_to_def)

lemma steps_to_frame: "machine_ok cfg st \<Longrightarrow> length sp = length (scratchpad st) \<Longrightarrow> steps_to cfg W st (st\<lparr>scratchpad := sp\<rparr>)"
  "machine_ok cfg st \<Longrightarrow> steps_to cfg W st (st\<lparr>mxcsr := c\<rparr>)"
  by (simp_all add: steps_to_def machine_ok_def)

lemmas exe_int_defs = exe_IADD_RS_def exe_IADD_M_def exe_ISUB_R_def exe_ISUB_M_def exe_IMUL_R_def exe_IMUL_M_def
  exe_IMULH_R_def exe_IMULH_M_def exe_ISMULH_R_def exe_ISMULH_M_def exe_INEG_R_def exe_IXOR_R_def exe_IXOR_M_def
  exe_IROR_R_def exe_IROL_R_def

lemmas exe_flt_defs = exe_FSWAP_R_def exe_FADD_R_def exe_FADD_M_def exe_FSUB_R_def exe_FSUB_M_def exe_FSCAL_R_def
  exe_FMUL_R_def exe_FDIV_M_def exe_FSQRT_R_def

text \<open>The slots that are not branches.\<close>

lemma exec_straight:
  assumes "wf_ibc cfg ibc" and "machine_ok cfg st" and "ibc_type ibc \<noteq> CBRANCH"
  shows "returns (executeInstruction F config ibc pc st) (\<lambda>(pc', st'). pc' = pc \<and> steps_to cfg (int_writes ibc) st st')"
proof (cases "ibc_type ibc")
  case ISWAP_R
  then have d: "int_dst (bdst ibc)" "int_dst (bsrc ibc)" using assms(1) by (simp_all add: wf_ibc_def)
  have w: "int_writes ibc = {r. bdst ibc = PReg r \<or> bsrc ibc = PReg r}" using ISWAP_R by (simp add: int_writes_def)
  have "returns (exe_ISWAP_R ibc st) (steps_to cfg (int_writes ibc) st)"
    unfolding exe_ISWAP_R_def w using assms(2) d
    by (intro wp) (auto simp: int_dst_src dest: steps_to_ok intro: steps_to_trans steps_to_mono)
  with ISWAP_R show ?thesis by (auto simp: executeInstruction_def returns_def)
next
  case IMUL_RCP
  then show ?thesis using assms(1) by (simp add: wf_ibc_def)
qed (use assms in \<open>simp_all add: wf_ibc_def executeInstruction_def int_writes_def exe_int_defs exe_flt_defs
    exe_CFROUND_def exe_ISTORE_def Let_def\<close>;
  (intro wp; auto simp: int_dst_src steps_to_refl steps_to_frame)?)+

end
