(* ===== verification/Bytecode_Compile.thy ===== *)
theory Bytecode_Compile
  imports Bytecode_Safety
begin

text \<open>
  The compilation of a program: every slot is well formed, \<open>registerUsage\<close> holds the last slot that
  changes a register, and the target of a branch is the last slot before it that changes the
  branch's register (or is a branch itself), so no instruction between the target and the branch
  changes that register.
\<close>

subsection \<open>One instruction\<close>

text \<open>The slots that count as a change of register \<open>r\<close>: a branch counts for every register.\<close>

definition marks :: "InstructionByteCode \<Rightarrow> nat \<Rightarrow> bool" where
  "marks ibc r \<longleftrightarrow> ibc_type ibc = CBRANCH \<or> r \<in> int_writes ibc"

text \<open>A compiled branch: its register, its condition bits and the bits forced in its immediate.\<close>

definition branch_slot :: "InstructionByteCode \<Rightarrow> int list \<Rightarrow> bool" where
  "branch_slot ibc usage \<longleftrightarrow>
     (\<exists>creg s. creg < 8 \<and> s < 16 \<and> bdst ibc = PReg creg \<and> target_shift ibc = word_of_int (usage ! creg) \<and>
       memMask ibc = push_bit s 0xFF00 \<and> bit (imm ibc) (8 + s) \<and> \<not> bit (imm ibc) (7 + s))"

definition slot_ok :: "RandomX_Configuration \<Rightarrow> nat \<Rightarrow> int list \<Rightarrow> InstructionByteCode \<times> int list \<Rightarrow> bool" where
  "slot_ok cfg i usage = (\<lambda>(ibc, usage').
     wf_ibc cfg ibc \<and> length usage' = 8 \<and> (\<forall>r<8. usage' ! r = (if marks ibc r then int i else usage ! r)) \<and>
     (ibc_type ibc = CBRANCH \<longrightarrow> branch_slot ibc usage))"

lemma reg_numbers [simp]: "dst8 instr < 8" "src8 instr < 8" "dst4 instr < 4" "src4 instr < 4"
  by (simp_all add: dst8_def src8_def dst4_def src4_def RegistersCount_def RegisterCountFlt_def)

lemma config_masks:
  assumes "config_ok cfg"
  shows "mask_ok cfg (AddressMask_Calculated cfg ! unat (getModMem instr))" "mask_ok cfg (ScratchpadL3Mask_Calculated cfg)"
  using assms mod_fields(1) [of instr] by (auto simp: config_ok_def list_all_length)

lemma CBRANCH_immediate:
  assumes "s < 16"
  shows "bit ((x OR push_bit s (push_bit JumpOffset 1)) AND NOT (push_bit s (push_bit (JumpOffset - 1) 1)) :: u64) (8 + s)"
    and "\<not> bit ((x OR push_bit s (push_bit JumpOffset 1)) AND NOT (push_bit s (push_bit (JumpOffset - 1) 1)) :: u64) (7 + s)"
  using assms by (simp_all add: bit_and_iff bit_or_iff bit_not_iff bit_push_bit_iff JumpOffset_def bit_1_iff)

lemma CBRANCH_mask:
  assumes "s < 16"
  shows "ucast (push_bit s ConditionMask_Calculated) = (push_bit s 0xFF00 :: u32)"
proof (rule bit_word_eqI)
  fix n assume "n < LENGTH(32)"
  then have n: "n < 32" by simp
  have c64: "ConditionMask_Calculated = push_bit 8 (mask 8)"
    by (simp add: ConditionMask_Calculated_def JumpOffset_def JumpBits_def mask_eq_exp_minus_1)
  have c32: "(0xFF00 :: u32) = push_bit 8 (mask 8)" by (simp add: mask_eq_exp_minus_1)
  show "bit (ucast (push_bit s ConditionMask_Calculated) :: u32) n = bit (push_bit s (0xFF00 :: u32)) n"
    unfolding c64 c32 using n by (simp only: bit_unsigned_iff bit_push_bit_iff bit_mask_iff) auto
qed

lemmas compile_defs = compile_IADD_RS_def compile_IADD_M_def compile_ISUB_R_def compile_ISUB_M_def compile_IMUL_R_def
  compile_IMUL_M_def compile_IMULH_R_def compile_IMULH_M_def compile_ISMULH_R_def compile_ISMULH_M_def
  compile_IMUL_RCP_def compile_INEG_R_def compile_IXOR_R_def compile_IXOR_M_def compile_IROR_R_def compile_IROL_R_def
  compile_ISWAP_R_def compile_FSWAP_R_def compile_FADD_R_def compile_FADD_M_def compile_FSUB_R_def compile_FSUB_M_def
  compile_FSCAL_R_def compile_FMUL_R_def compile_FDIV_M_def compile_FSQRT_R_def compile_CFROUND_def
  compile_ISTORE_def compile_NOP_def

lemma reciprocal_returns: "\<not> isZeroOrPowerOf2 d \<Longrightarrow> \<exists>rcp. randomx_reciprocal d = Some rcp"
  using reciprocal_eq [of d] by (cases "d = 0") (auto simp: isZeroOrPowerOf2_def)

lemma compile_CBRANCH_ok:
  assumes "length usage = 8"
  shows "slot_ok cfg i usage (compile_CBRANCH instr i (ibc, usage))"
proof -
  let ?s = "unat (getModCond instr)"
  have s: "?s < 16" by (rule mod_fields)
  note I = CBRANCH_immediate [OF s, of "signExtend2sCompl (getImm32 instr)"]
  have "branch_slot (fst (compile_CBRANCH instr i (ibc, usage))) usage"
    unfolding branch_slot_def compile_CBRANCH_def
    by (rule exI [of _ "dst8 instr"], rule exI [of _ ?s]) (use I in \<open>simp add: Let_def s CBRANCH_mask [OF s]\<close>)
  then show ?thesis
    by (simp add: slot_ok_def compile_CBRANCH_def Let_def wf_ibc_def marks_def RegistersCount_def del: upt_rec_numeral)
qed

lemma compile_case_ok:
  assumes "config_ok cfg" and "length usage = 8"
  shows "returns (compile_case cfg x instr i (ibc, usage)) (slot_ok cfg i usage)"
proof (cases x)
  case CBRANCH
  then show ?thesis using compile_CBRANCH_ok [OF assms(2)] by (simp add: compile_case_def returns_Some_iff)
next
  case IMUL_RCP
  then show ?thesis
    using reciprocal_returns [of "ucast (getImm32 instr)"] assms(2)
    by (cases "isZeroOrPowerOf2 (ucast (getImm32 instr))") (auto simp: compile_case_def returns_Some_iff compile_IMUL_RCP_def slot_ok_def wf_ibc_def marks_def int_writes_def Let_def)
qed (use assms config_masks(1) [OF assms(1), of instr] config_masks(2) [OF assms(1)] in
  \<open>auto simp: compile_case_def returns_Some_iff compile_defs slot_ok_def wf_ibc_def marks_def int_writes_def Let_def
     RegisterCountFlt_def RegistersCount_def RegisterNeedsDisplacement_def nth_list_update not_less less_diff_conv2\<close>)

lemma compileInstruction_ok:
  assumes "config_ok cfg" and "length usage = 8"
  shows "returns (compileInstruction cfg instr i (ibc, usage)) (slot_ok cfg i usage)"
proof -
  have "unat (opcode instr) < 256" using unsigned_less [of "opcode instr"] by simp
  then obtain x where "decode_freqs (inst_freqs cfg) (unat (opcode instr)) = Some x"
    using decode_freqs_total [of "unat (opcode instr)" "inst_freqs cfg"] assms(1) by (auto simp: config_ok_def)
  then show ?thesis using compile_case_ok [OF assms] by (simp add: compile_decode)
qed


subsection \<open>The whole program\<close>

definition usage_inv :: "InstructionByteCode list \<Rightarrow> nat \<Rightarrow> int list \<Rightarrow> bool" where
  "usage_inv bc i usage \<longleftrightarrow>
     length usage = 8 \<and>
     (\<forall>r<8. - 1 \<le> usage ! r \<and> usage ! r < int i \<and>
       (\<forall>k<i. usage ! r < int k \<longrightarrow> \<not> marks (bc ! k) r) \<and>
       (0 \<le> usage ! r \<longrightarrow> marks (bc ! nat (usage ! r)) r))"

text \<open>Slot \<open>j\<close> is a branch whose target is the last change of its register.\<close>

definition branch_ok :: "InstructionByteCode list \<Rightarrow> nat \<Rightarrow> bool" where
  "branch_ok bc j \<longleftrightarrow>
     (\<exists>creg s. creg < 8 \<and> s < 16 \<and> bdst (bc ! j) = PReg creg \<and>
       memMask (bc ! j) = push_bit s 0xFF00 \<and> bit (imm (bc ! j)) (8 + s) \<and> \<not> bit (imm (bc ! j)) (7 + s) \<and>
       (let t = sint (target_shift (bc ! j))
        in - 1 \<le> t \<and> t < int j \<and> (\<forall>k<j. t < int k \<longrightarrow> \<not> marks (bc ! k) creg) \<and>
           (0 \<le> t \<longrightarrow> marks (bc ! nat t) creg)))"

definition prog_ok :: "RandomX_Configuration \<Rightarrow> InstructionByteCode list \<Rightarrow> nat \<Rightarrow> bool" where
  "prog_ok cfg bc n \<longleftrightarrow> (\<forall>j<n. wf_ibc cfg (bc ! j) \<and> (ibc_type (bc ! j) = CBRANCH \<longrightarrow> branch_ok bc j))"

lemma branch_ok_update: "j < i \<Longrightarrow> branch_ok (bc[i := b]) j = branch_ok bc j"
proof -
  assume j: "j < i"
  have "k < j \<Longrightarrow> bc[i := b] ! k = bc ! k" for k using j by simp
  moreover have "t < int j \<Longrightarrow> 0 \<le> t \<Longrightarrow> bc[i := b] ! nat t = bc ! nat t" for t using j by simp
  ultimately show ?thesis using j by (simp add: branch_ok_def Let_def cong: conj_cong imp_cong)
qed

lemma slot_branch_ok:
  assumes "usage_inv bc i usage" and "branch_slot (bc ! i) usage" and "i \<le> 256"
  shows "branch_ok bc i"
proof -
  obtain creg s where c: "creg < 8" "s < 16" "bdst (bc ! i) = PReg creg"
    "target_shift (bc ! i) = word_of_int (usage ! creg)" "memMask (bc ! i) = push_bit s 0xFF00"
    "bit (imm (bc ! i)) (8 + s)" "\<not> bit (imm (bc ! i)) (7 + s)"
    using assms(2) by (auto simp: branch_slot_def)
  have r: "- 1 \<le> usage ! creg" "usage ! creg < int i" using assms(1) c(1) by (auto simp: usage_inv_def)
  then have "sint (target_shift (bc ! i)) = usage ! creg"
    unfolding c(4) sint_sbintrunc' using assms(3) by (intro signed_take_bit_int_eq_self) simp_all
  then show ?thesis
    unfolding branch_ok_def using c r assms(1)
    by (intro exI [of _ creg] exI [of _ s]) (simp add: usage_inv_def Let_def)
qed

lemma usage_inv_step:
  assumes inv: "usage_inv bc i usage" and l: "length usage' = 8" and i: "i < length bc"
    and m: "\<forall>r<8. usage' ! r = (if marks b r then int i else usage ! r)"
  shows "usage_inv (bc[i := b]) (Suc i) usage'"
proof -
  have "- 1 \<le> usage' ! r \<and> usage' ! r < int (Suc i) \<and>
      (\<forall>k<Suc i. usage' ! r < int k \<longrightarrow> \<not> marks (bc[i := b] ! k) r) \<and>
      (0 \<le> usage' ! r \<longrightarrow> marks (bc[i := b] ! nat (usage' ! r)) r)" if r: "r < 8" for r
  proof (cases "marks b r")
    case True
    with m i r show ?thesis by simp
  next
    case False
    have old: "- 1 \<le> usage ! r" "usage ! r < int i" "\<forall>k<i. usage ! r < int k \<longrightarrow> \<not> marks (bc ! k) r"
      "0 \<le> usage ! r \<longrightarrow> marks (bc ! nat (usage ! r)) r"
      using inv r by (auto simp: usage_inv_def)
    have "usage' ! r = usage ! r" using m r False by simp
    with old False i show ?thesis by (auto simp: less_Suc_eq nth_list_update)
  qed
  with l show ?thesis by (simp add: usage_inv_def)
qed

lemma compile_from_ok:
  assumes "config_ok cfg" and "usage_inv bc i usage" and "prog_ok cfg bc i" and "i + n \<le> length bc" and "i + n \<le> 256"
  shows "returns (compile_from cfg p i n (bc, usage))
    (\<lambda>(bc', usage'). length bc' = length bc \<and> usage_inv bc' (i + n) usage' \<and> prog_ok cfg bc' (i + n))"
  using assms(2-5)
proof (induction n arbitrary: i bc usage)
  case 0
  then show ?case by (simp add: returns_def)
next
  case (Suc n)
  have "length usage = 8" using Suc.prems(1) by (simp add: usage_inv_def)
  then obtain b usage' where c: "compileInstruction cfg (program_instr p i) i (bc ! i, usage) = Some (b, usage')"
    and s: "slot_ok cfg i usage (b, usage')"
    using compileInstruction_ok [OF assms(1), of usage "program_instr p i" i "bc ! i"] by (auto simp: returns_def)
  have i: "i < length bc" "i \<le> 256" using Suc.prems by simp_all
  have u: "usage_inv (bc[i := b]) (Suc i) usage'"
    using usage_inv_step [OF Suc.prems(1) _ i(1)] s by (simp add: slot_ok_def)
  have u0: "usage_inv (bc[i := b]) i usage"
  proof -
    have "bc[i := b] ! nat (usage ! r) = bc ! nat (usage ! r)" if "r < 8" "0 \<le> usage ! r" for r
    proof -
      have "nat (usage ! r) < i" using Suc.prems(1) that by (auto simp: usage_inv_def)
      then show ?thesis by simp
    qed
    with Suc.prems(1) show ?thesis by (simp add: usage_inv_def)
  qed
  have "prog_ok cfg (bc[i := b]) (Suc i)"
    unfolding prog_ok_def
  proof (intro allI impI)
    fix j assume "j < Suc i"
    then consider "j < i" | "j = i" by linarith
    then show "wf_ibc cfg (bc[i := b] ! j) \<and> (ibc_type (bc[i := b] ! j) = CBRANCH \<longrightarrow> branch_ok (bc[i := b]) j)"
    proof cases
      case 1
      with Suc.prems(2) show ?thesis by (simp add: prog_ok_def branch_ok_update)
    next
      case 2
      with s i slot_branch_ok [OF u0] show ?thesis by (simp add: slot_ok_def)
    qed
  qed
  with Suc.IH [OF u this] Suc.prems show ?case by (simp add: c)
qed

lemma compileProgram_ok:
  assumes "config_ok cfg" and "ProgramSize cfg \<le> length bc"
  shows "returns (compileProgram cfg p bc) (\<lambda>bc'. length bc' = length bc \<and> prog_ok cfg bc' (ProgramSize cfg))"
proof -
  have "usage_inv bc 0 beginCompilation" by (simp add: usage_inv_def beginCompilation_def RegistersCount_def del: upt_rec_numeral)
  moreover have "prog_ok cfg bc 0" by (simp add: prog_ok_def)
  moreover have "ProgramSize cfg \<le> 256" using assms(1) by (simp add: config_ok_def RANDOMX_PROGRAM_MAX_SIZE_def)
  ultimately have "returns (compile_from cfg p 0 (ProgramSize cfg) (bc, beginCompilation))
      (\<lambda>(bc', usage'). length bc' = length bc \<and> usage_inv bc' (ProgramSize cfg) usage' \<and> prog_ok cfg bc' (ProgramSize cfg))"
    using compile_from_ok [OF assms(1), of bc 0 beginCompilation "ProgramSize cfg" p] assms(2) by simp
  then show ?thesis by (auto simp: compileProgram_def returns_def)
qed

end
