(* ===== verification/Bytecode_Frame.thy ===== *)
theory Bytecode_Frame
  imports Bytecode_Compile
begin

text \<open>
  What an instruction of a program changes, read off the instruction itself and not off its bytecode: the destination that
  its type and its register fields name, the scratchpad for a store, the rounding mode for \<open>CFROUND\<close>. The compiled slot
  changes nothing else.
\<close>

subsection \<open>What an instruction may change\<close>

definition instr_writes :: "InstructionType \<Rightarrow> Instruction \<Rightarrow> ptr set" where
  "instr_writes x instr =
     (let d = unat (instr_dst instr); s = unat (instr_src instr)
      in if x \<in> {CFROUND, ISTORE, NOP} then {}
         else if x \<in> {FADD_R, FADD_M, FSUB_R, FSUB_M, FSCAL_R} then {PF (d mod 4)}
         else if x \<in> {FMUL_R, FDIV_M, FSQRT_R} then {PE (d mod 4)}
         else if x = FSWAP_R then {if d mod 8 < 4 then PF (d mod 8) else PE (d mod 8 - 4)}
         else if x = ISWAP_R then {PReg (d mod 8), PReg (s mod 8)}
         else {PReg (d mod 8)})"

text \<open>The registers of the integer, the additive and the multiplicative group outside \<open>W\<close>, and the constant ones, are kept.\<close>

definition keeps :: "ptr set \<Rightarrow> machine \<Rightarrow> machine \<Rightarrow> bool" where
  "keeps W st st' \<longleftrightarrow>
     (\<forall>r. PReg r \<notin> W \<longrightarrow> nr_r (nreg st') ! r = nr_r (nreg st) ! r) \<and>
     (\<forall>r. PF r \<notin> W \<longrightarrow> nr_f (nreg st') ! r = nr_f (nreg st) ! r) \<and>
     (\<forall>r. PE r \<notin> W \<longrightarrow> nr_e (nreg st') ! r = nr_e (nreg st) ! r) \<and>
     nr_a (nreg st') = nr_a (nreg st)"

subsection \<open>What a slot changes\<close>

definition slot_writes :: "InstructionByteCode \<Rightarrow> ptr set" where
  "slot_writes ibc =
     (if ibc_type ibc \<in> {CFROUND, ISTORE, NOP} then {}
      else if ibc_type ibc = ISWAP_R then {bdst ibc, bsrc ibc} else {bdst ibc})"

text \<open>Only a store, \<open>CFROUND\<close> and a branch change the scratchpad, the rounding mode and the program counter.\<close>

definition slot_frame :: "InstructionType \<Rightarrow> ptr set \<Rightarrow> int \<Rightarrow> machine \<Rightarrow> int \<Rightarrow> machine \<Rightarrow> bool" where
  "slot_frame x W pc st pc' st' \<longleftrightarrow>
     keeps W st st' \<and> (x \<noteq> ISTORE \<longrightarrow> scratchpad st' = scratchpad st) \<and>
     (x \<noteq> CFROUND \<longrightarrow> mxcsr st' = mxcsr st) \<and> (x \<noteq> CBRANCH \<longrightarrow> pc' = pc)"

lemma keeps_refl [simp]: "keeps W st st" "keeps W st (st\<lparr>scratchpad := sp\<rparr>)" "keeps W st (st\<lparr>mxcsr := c\<rparr>)"
  by (simp_all add: keeps_def)

lemma iset_keeps:
  "iset p v st = Some st' \<Longrightarrow> p \<in> W \<Longrightarrow> keeps W st st' \<and> scratchpad st' = scratchpad st \<and> mxcsr st' = mxcsr st"
  by (cases p) (auto simp: keeps_def upd_opt_def nth_list_update split: if_splits)

lemma fset_keeps:
  "fset p v st = Some st' \<Longrightarrow> p \<in> W \<Longrightarrow> keeps W st st' \<and> scratchpad st' = scratchpad st \<and> mxcsr st' = mxcsr st"
  by (cases p) (auto simp: keeps_def upd_opt_def nth_list_update split: if_splits)

lemma keeps_trans: "keeps W st st1 \<Longrightarrow> keeps W st1 st2 \<Longrightarrow> keeps W st st2"
  by (simp add: keeps_def)

lemma exe_ISWAP_R_keeps:
  assumes "exe_ISWAP_R ibc st = Some st'" and "bdst ibc \<in> W" and "bsrc ibc \<in> W"
  shows "keeps W st st' \<and> scratchpad st' = scratchpad st \<and> mxcsr st' = mxcsr st"
proof -
  obtain d t st1 where 1: "iset (bsrc ibc) d st = Some st1" and 2: "iset (bdst ibc) t st1 = Some st'"
    using assms(1) by (auto simp: exe_ISWAP_R_def bind_eq_Some_conv)
  from iset_keeps [OF 1 assms(3)] iset_keeps [OF 2 assms(2)] show ?thesis by (auto intro: keeps_trans)
qed

lemma exe_CBRANCH_keeps:
  assumes "exe_CBRANCH ibc pc st = Some (pc', st')" and "bdst ibc \<in> W"
  shows "keeps W st st' \<and> scratchpad st' = scratchpad st \<and> mxcsr st' = mxcsr st"
  using assms iset_keeps [of "bdst ibc" _ st _ W] by (auto simp: exe_CBRANCH_def bind_eq_Some_conv)

lemma exec_frame:
  assumes "executeInstruction F config ibc pc st = Some (pc', st')"
  shows "slot_frame (ibc_type ibc) (slot_writes ibc) pc st pc' st'"
proof (cases "ibc_type ibc")
  case ISWAP_R
  then show ?thesis
    using assms exe_ISWAP_R_keeps [of ibc st st'] by (auto simp: executeInstruction_def slot_frame_def slot_writes_def)
next
  case CBRANCH
  then show ?thesis
    using assms exe_CBRANCH_keeps [of ibc pc st pc' st'] by (auto simp: executeInstruction_def slot_frame_def slot_writes_def)
qed (use assms in \<open>auto simp: executeInstruction_def slot_frame_def slot_writes_def exe_int_defs exe_flt_defs exe_CFROUND_def
    exe_ISTORE_def bind_eq_Some_conv dest: iset_keeps [where W = "{bdst ibc}"] fset_keeps [where W = "{bdst ibc}"]\<close>)

subsection \<open>The slot of an instruction changes what the instruction names\<close>

lemma case_writes:
  assumes "compile_case cfg x instr i st = Some (ibc, usage)"
  shows "slot_writes ibc \<subseteq> instr_writes x instr" and "ibc_type ibc = ISTORE \<longrightarrow> x = ISTORE"
    and "ibc_type ibc = CFROUND \<longrightarrow> x = CFROUND" and "ibc_type ibc = CBRANCH \<longrightarrow> x = CBRANCH"
proof -
  obtain b u where st: "st = (b, u)" by (cases st)
  have "slot_writes ibc \<subseteq> instr_writes x instr \<and> (ibc_type ibc = ISTORE \<longrightarrow> x = ISTORE) \<and>
      (ibc_type ibc = CFROUND \<longrightarrow> x = CFROUND) \<and> (ibc_type ibc = CBRANCH \<longrightarrow> x = CBRANCH)"
    using assms
    by (cases x) (auto simp: st compile_case_def compile_defs compile_CBRANCH_def Let_def slot_writes_def instr_writes_def
        dst8_def src8_def dst4_def src4_def RegistersCount_def RegisterCountFlt_def bind_eq_Some_conv split: if_splits)
  then show "slot_writes ibc \<subseteq> instr_writes x instr" and "ibc_type ibc = ISTORE \<longrightarrow> x = ISTORE"
    and "ibc_type ibc = CFROUND \<longrightarrow> x = CFROUND" and "ibc_type ibc = CBRANCH \<longrightarrow> x = CBRANCH" by simp_all
qed

lemma compile_from_slot:
  assumes "compile_from cfg p i n (bc0, u0) = Some (bc, u)" and "i + n \<le> length bc0"
  shows "(\<forall>j. j < i \<longrightarrow> bc ! j = bc0 ! j) \<and>
    (\<forall>j. i \<le> j \<and> j < i + n \<longrightarrow> (\<exists>x st usage. decode_freqs (inst_freqs cfg) (unat (opcode (program_instr p j))) = Some x \<and>
      compile_case cfg x (program_instr p j) j st = Some (bc ! j, usage)))"
  using assms
proof (induction n arbitrary: i bc0 u0)
  case (Suc n)
  then obtain b u1 where b: "compileInstruction cfg (program_instr p i) i (bc0 ! i, u0) = Some (b, u1)"
    and r: "compile_from cfg p (i + 1) n (bc0[i := b], u1) = Some (bc, u)"
    by (auto simp: bind_eq_Some_conv)
  have IH: "(\<forall>j. j < i + 1 \<longrightarrow> bc ! j = bc0[i := b] ! j) \<and>
    (\<forall>j. i + 1 \<le> j \<and> j < i + 1 + n \<longrightarrow> (\<exists>x st usage. decode_freqs (inst_freqs cfg) (unat (opcode (program_instr p j))) = Some x \<and>
      compile_case cfg x (program_instr p j) j st = Some (bc ! j, usage)))"
    using Suc.IH [OF r] Suc.prems(2) by simp
  have "bc ! i = b" using IH Suc.prems(2) by simp
  with b have "\<exists>x st usage. decode_freqs (inst_freqs cfg) (unat (opcode (program_instr p i))) = Some x \<and>
      compile_case cfg x (program_instr p i) i st = Some (bc ! i, usage)"
    by (auto simp: compile_decode bind_eq_Some_conv)
  moreover have "i \<le> j \<and> j < i + Suc n \<longleftrightarrow> j = i \<or> i + 1 \<le> j \<and> j < i + 1 + n" for j by auto
  ultimately show ?case using IH by auto
qed auto

text \<open>Executing slot \<open>j\<close> changes what instruction \<open>j\<close> of the program names.\<close>

lemma program_slot_frame:
  assumes "compileProgram cfg p bc0 = Some bc" and "ProgramSize cfg \<le> length bc0" and "j < ProgramSize cfg"
    and "executeInstruction F config (bc ! j) pc st = Some (pc', st')"
  shows "\<exists>x. apply_engine cfg (unat (opcode (program_instr p j))) = Some x \<and>
    slot_frame x (instr_writes x (program_instr p j)) pc st pc' st'"
proof -
  obtain u where "compile_from cfg p 0 (ProgramSize cfg) (bc0, beginCompilation) = Some (bc, u)"
    using assms(1) by (auto simp: compileProgram_def)
  from compile_from_slot [OF this] assms(2,3) obtain x s usage where
    x: "decode_freqs (inst_freqs cfg) (unat (opcode (program_instr p j))) = Some x"
    and c: "compile_case cfg x (program_instr p j) j s = Some (bc ! j, usage)" by auto
  have "slot_frame x (instr_writes x (program_instr p j)) pc st pc' st'"
    using exec_frame [OF assms(4)] case_writes [OF c] by (auto simp: slot_frame_def keeps_def)
  with x show ?thesis by (simp add: engine_decode)
qed

end
