(* ===== verification/Bytecode_Run.thy ===== *)
theory Bytecode_Run
  imports Bytecode_Frame
begin

text \<open>
  Running a compiled program: it returns, after at most three executions per instruction, and
  keeps the machine well formed. A branch is taken at most twice in a row, because the bits forced
  in its immediate make its condition fail at the third attempt, and nothing between its target
  and the branch changes its register.
\<close>

subsection \<open>The condition of a branch\<close>

lemma condition_numbers:
  fixes P H a1 a2 m l :: nat
  assumes "P = 2 * H" and "l < H" and "odd m" and "m < 256" and "a1 < P"
    and "a2 = (a1 + (m * P + l)) mod (256 * P)" and "a2 < P"
  shows "P \<le> (a2 + (m * P + l)) mod (256 * P)"
proof -
  have P: "0 < P" using assms(1,2) by simp
  have m1: "P \<le> m * P" using assms(3) by (cases m) auto
  have small: "(m * P + k) mod (256 * P) = m * P + k" if "k < P" for k
  proof -
    have "(m + 1) * P \<le> 256 * P" using assms(4) by (intro mult_le_mono1) simp
    then have "m * P + P \<le> 256 * P" by simp
    then have "m * P + k < 256 * P" using that by linarith
    then show ?thesis by (rule mod_less)
  qed
  have "\<not> a1 + l < P"
  proof
    assume "a1 + l < P"
    then have "a2 = m * P + (a1 + l)" using small [of "a1 + l"] assms(6) by (simp add: ac_simps)
    with m1 assms(7) show False by linarith
  qed
  then obtain b where b: "a1 + l = P + b" by (auto simp: not_less dest: le_Suc_ex)
  then have bH: "b < H" "b < P" using assms(1,2,5) by linarith+
  have sum: "a1 + (m * P + l) = (m + 1) * P + b" using b by simp
  have "m = 255"
  proof (rule ccontr)
    assume "m \<noteq> 255"
    then have "(m + 2) * P \<le> 256 * P" using assms(4) by (intro mult_le_mono1) simp
    then have "(m + 1) * P + P \<le> 256 * P" by simp
    then have "(m + 1) * P + b < 256 * P" using bH(2) by linarith
    then have "a2 = (m + 1) * P + b" unfolding assms(6) sum by (rule mod_less)
    moreover have "P \<le> (m + 1) * P" by simp
    ultimately show False using assms(7) by linarith
  qed
  then have "a2 = (256 * P + b) mod (256 * P)" unfolding assms(6) sum by simp
  then have "a2 = b" using bH(2) by simp
  then have "a2 + (m * P + l) = m * P + (b + l)" by simp
  moreover have "b + l < P" using bH(1) assms(1,2) by simp
  ultimately have "(a2 + (m * P + l)) mod (256 * P) = m * P + (b + l)" by (simp only: small)
  with m1 show ?thesis by linarith
qed

lemma condition_mod:
  assumes "x AND ucast (push_bit s 0xFF00 :: u32) = (0 :: u64)" and "s < 16"
  shows "unat x mod 2 ^ (16 + s) < 2 ^ (8 + s)"
proof -
  have c: "(0xFF00 :: u32) = push_bit 8 (mask 8)" by (simp add: mask_eq_exp_minus_1)
  have "bit (ucast (push_bit s 0xFF00 :: u32) :: u64) n" if "8 + s \<le> n" "n < 16 + s" for n
    unfolding c using that assms(2) by (simp only: bit_unsigned_iff bit_push_bit_iff bit_mask_iff) auto
  then have "\<not> bit x n" if "8 + s \<le> n" "n < 16 + s" for n
    using assms(1) that by (metis bit_0_eq bit_and_iff bot_apply bot_bool_def)
  then have "bit (take_bit (16 + s) x) n = bit (take_bit (8 + s) x) n" for n
    by (cases "n < 8 + s"; cases "n < 16 + s") (simp_all add: bit_take_bit_iff not_less)
  then have "take_bit (16 + s) x = take_bit (8 + s) x" by (intro bit_word_eqI)
  then have "take_bit (16 + s) (unat x) = take_bit (8 + s) (unat x)" by (metis unsigned_take_bit_eq)
  then show ?thesis by (simp add: take_bit_eq_mod)
qed

lemma immediate_mod:
  assumes "bit (i :: u64) (8 + s)" and "\<not> bit i (7 + s)"
  defines "I \<equiv> unat i mod 2 ^ (16 + s)"
  shows "\<exists>m l. I = m * 2 ^ (8 + s) + l \<and> l < 2 ^ (7 + s) \<and> odd m \<and> m < 256"
proof -
  let ?P = "2 ^ (8 + s) :: nat"
  have Q: "(2 :: nat) ^ (16 + s) = ?P * 256" by (simp add: power_add)
  have I: "I = ?P * (unat i div ?P mod 256) + unat i mod ?P"
    unfolding I_def Q by (rule mod_mult2_eq)
  have "odd (unat i div ?P)" using assms(1) by (simp add: bit_unsigned_iff flip: bit_iff_odd)
  then have "odd (unat i div ?P mod 256)" by (simp add: dvd_mod_iff)
  moreover have "unat i mod ?P < 2 ^ (7 + s)"
  proof -
    have "even (unat i div 2 ^ (7 + s))"
    proof -
      have "\<not> bit (unat i) (7 + s)" using assms(2) by (simp add: bit_unsigned_iff)
      then show ?thesis by (simp add: bit_iff_odd)
    qed
    moreover have "unat i mod (2 ^ (7 + s) * 2) = 2 ^ (7 + s) * (unat i div 2 ^ (7 + s) mod 2) + unat i mod 2 ^ (7 + s)"
      by (rule mod_mult2_eq)
    moreover have "?P = 2 ^ (7 + s) * 2" by (simp add: power_add)
    ultimately show ?thesis by (simp only: even_iff_mod_2_eq_zero) simp
  qed
  ultimately show ?thesis using I by (intro exI [of _ "unat i div ?P mod 256"] exI [of _ "unat i mod ?P"]) (simp add: mult.commute)
qed

text \<open>The third attempt fails.\<close>

lemma third_attempt:
  fixes x i :: u64
  assumes "s < 16" and "bit i (8 + s)" and "\<not> bit i (7 + s)"
    and "x AND ucast (push_bit s 0xFF00 :: u32) = 0" and "(x + i) AND ucast (push_bit s 0xFF00 :: u32) = 0"
  shows "(x + i + i) AND ucast (push_bit s 0xFF00 :: u32) \<noteq> 0"
proof
  assume 3: "(x + i + i) AND ucast (push_bit s 0xFF00 :: u32) = 0"
  let ?P = "2 ^ (8 + s) :: nat"
  have Q: "(2 :: nat) ^ (16 + s) = 256 * ?P" by (simp add: power_add)
  have dvd: "(2 :: nat) ^ (16 + s) dvd 2 ^ 64" using assms(1) by (intro le_imp_power_dvd) simp
  have add: "unat (y + i) mod 2 ^ (16 + s) = (unat y mod 2 ^ (16 + s) + unat i mod 2 ^ (16 + s)) mod 2 ^ (16 + s)" for y
    using mod_mod_cancel [OF dvd, of "unat y + unat i"] by (simp add: unat_word_ariths mod_add_eq)
  obtain m l where ml: "unat i mod 2 ^ (16 + s) = m * ?P + l" "l < 2 ^ (7 + s)" "odd m" "m < 256"
    using immediate_mod [OF assms(2,3)] by blast
  have "?P \<le> (unat (x + i) mod 2 ^ (16 + s) + (m * ?P + l)) mod (256 * ?P)"
  proof (rule condition_numbers [where H = "2 ^ (7 + s)"])
    show "unat x mod 2 ^ (16 + s) < ?P" using condition_mod assms by blast
    show "unat (x + i) mod 2 ^ (16 + s) < ?P" using condition_mod assms by blast
    show "unat (x + i) mod 2 ^ (16 + s) = (unat x mod 2 ^ (16 + s) + (m * ?P + l)) mod (256 * ?P)"
      using add [of x] by (simp only: ml(1) [unfolded Q] Q)
  qed (use ml in \<open>simp_all add: power_add\<close>)
  moreover have "unat (x + i + i) mod 2 ^ (16 + s) < ?P" using condition_mod 3 assms(1) by blast
  ultimately show False using add [of "x + i"] by (simp add: ml(1) [unfolded Q] Q)
qed


subsection \<open>Counting executed instructions\<close>

text \<open>One round of the loop of \<open>executeBytecode\<close>, and \<open>k\<close> rounds.\<close>

fun bc_step :: "fpu \<Rightarrow> ProgramConfiguration \<Rightarrow> InstructionByteCode list \<Rightarrow> nat \<Rightarrow> int \<times> machine \<Rightarrow> (int \<times> machine) option" where
  "bc_step F config bc n (pc, st) =
     (if 0 \<le> pc \<and> pc < int n
      then map_option (\<lambda>(pc, st). (pc + 1, st)) (executeInstruction F config (bc ! nat pc) pc st)
      else None)"

fun bc_steps :: "fpu \<Rightarrow> ProgramConfiguration \<Rightarrow> InstructionByteCode list \<Rightarrow> nat \<Rightarrow> nat \<Rightarrow> int \<times> machine \<Rightarrow> (int \<times> machine) option" where
  "bc_steps F config bc n 0 s = Some s"
| "bc_steps F config bc n (Suc k) s = Option.bind (bc_step F config bc n s) (bc_steps F config bc n k)"

lemma bc_steps_add:
  "bc_steps F config bc n (a + b) s = Option.bind (bc_steps F config bc n a s) (bc_steps F config bc n b)"
  by (induction a arbitrary: s) (auto split: Option.bind_split)

lemma bc_steps_execute:
  "bc_steps F config bc n k (pc, st) = Some (int n, st') \<Longrightarrow> n \<le> length bc \<Longrightarrow>
   execute_from F config bc n pc st = Some st'"
proof (induction k arbitrary: pc st)
  case 0
  then show ?case by (subst execute_from.simps) simp
next
  case (Suc k)
  then obtain pc1 st1 where e: "0 \<le> pc" "pc < int n" "executeInstruction F config (bc ! nat pc) pc st = Some (pc1, st1)"
    "bc_steps F config bc n k (pc1 + 1, st1) = Some (int n, st')"
    by (auto split: if_splits simp: bind_eq_Some_conv)
  with Suc show ?case by (subst execute_from.simps) simp
qed

subsection \<open>Straight code and branches\<close>

lemma steps_to_UNIV: "steps_to cfg W st st' \<Longrightarrow> steps_to cfg UNIV st st'"
  by (rule steps_to_mono) simp_all

lemma straight_code:
  assumes "prog_ok cfg bc n" and "q \<le> n" and "\<forall>k. p \<le> k \<and> k < q \<longrightarrow> ibc_type (bc ! k) \<noteq> CBRANCH"
    and "p \<le> q" and "machine_ok cfg st" and "\<forall>k. p \<le> k \<and> k < q \<longrightarrow> int_writes (bc ! k) \<subseteq> W"
  shows "returns (bc_steps F config bc n (q - p) (int p, st)) (\<lambda>(pc', st'). pc' = int q \<and> steps_to cfg W st st')"
  using assms(3-6)
proof (induction "q - p" arbitrary: p st)
  case 0
  then show ?case by (simp add: returns_Some_iff steps_to_refl)
next
  case (Suc d)
  then have p: "p < q" "p < n" "d = q - Suc p" using assms(2) by simp_all
  have wf: "wf_ibc cfg (bc ! p)" "ibc_type (bc ! p) \<noteq> CBRANCH"
    using assms(1) Suc.prems(1) p by (auto simp: prog_ok_def)
  obtain st1 where e: "executeInstruction F config (bc ! p) (int p) st = Some (int p, st1)"
    and s1: "steps_to cfg (int_writes (bc ! p)) st st1"
    using exec_straight [OF wf(1) Suc.prems(3) wf(2), of F config "int p"] by (auto simp: returns_def)
  have s: "steps_to cfg W st st1" using s1 Suc.prems(4) p by (blast intro: steps_to_mono)
  have "returns (bc_steps F config bc n (q - Suc p) (int (Suc p), st1)) (\<lambda>(pc', st'). pc' = int q \<and> steps_to cfg W st1 st')"
    using Suc.prems p s by (intro Suc.hyps(1) [OF p(3)]) (auto dest: steps_to_ok)
  then show ?case
    using p e s by (auto simp: returns_def ac_simps simp flip: Suc.hyps(2) intro: steps_to_trans)
qed

lemma branch_step:
  assumes "ibc_type (bc ! j) = CBRANCH" and "bdst (bc ! j) = PReg c" and "c < 8" and "machine_ok cfg st" and "j < n"
  shows "returns (bc_step F config bc n (int j, st)) (\<lambda>(pc', st'). steps_to cfg {c} st st' \<and>
    ireg st' c = ireg st c + imm (bc ! j) \<and>
    pc' = (if ireg st' c AND ucast (memMask (bc ! j)) = 0 then sint (target_shift (bc ! j)) + 1 else int j + 1))"
  using assms
  by (simp add: executeInstruction_def exe_CBRANCH_def nth_opt_def upd_opt_def machine_ok_def steps_to_def returns_Some_iff)

lemma segment:
  assumes ok: "prog_ok cfg bc n" and j: "j < n" "ibc_type (bc ! j) = CBRANCH" "p \<le> j"
    and free: "\<forall>k. p \<le> k \<and> k < j \<longrightarrow> ibc_type (bc ! k) \<noteq> CBRANCH"
    and start: "p = 0 \<or> ibc_type (bc ! (p - 1)) = CBRANCH" and st: "machine_ok cfg st"
  shows "\<exists>k st'. k \<le> 3 * (j + 1 - p) \<and> bc_steps F config bc n k (int p, st) = Some (int (j + 1), st') \<and> steps_to cfg UNIV st st'"
proof -
  let ?b = "bc ! j"
  let ?t = "sint (target_shift ?b)"
  have "branch_ok bc j" using ok j by (simp add: prog_ok_def)
  then obtain c s where c: "c < 8" "s < 16" "bdst ?b = PReg c" "memMask ?b = push_bit s 0xFF00"
    "bit (imm ?b) (8 + s)" "\<not> bit (imm ?b) (7 + s)"
    and t: "- 1 \<le> ?t" "?t < int j" "\<forall>k<j. ?t < int k \<longrightarrow> \<not> marks (bc ! k) c"
    by (auto simp: branch_ok_def Let_def)
  define q where "q = nat (?t + 1)"
  have q: "int q = ?t + 1" "q \<le> j" using t(1,2) by (simp_all add: q_def nat_le_iff)
  have pq: "p \<le> q"
  proof (cases "p = 0")
    case False
    then have "marks (bc ! (p - 1)) c" using start by (simp add: marks_def)
    then have "\<not> ?t < int (p - 1)" using t(3) j(3) False by auto
    then show ?thesis using False q(1) by linarith
  qed simp
  have quiet: "\<forall>k. q \<le> k \<and> k < j \<longrightarrow> int_writes (bc ! k) \<subseteq> - {c}"
    using t(3) q(1) by (auto simp: marks_def)
  have reach: "\<exists>st1. bc_steps F config bc n (j - r) (int r, st0) = Some (int j, st1) \<and> steps_to cfg UNIV st0 st1 \<and>
      (r = q \<longrightarrow> ireg st1 c = ireg st0 c)" if "p \<le> r" "r \<le> j" "machine_ok cfg st0" for r st0
  proof -
    let ?W = "if r = q then - {c} else UNIV"
    have "returns (bc_steps F config bc n (j - r) (int r, st0)) (\<lambda>(pc', st'). pc' = int j \<and> steps_to cfg ?W st0 st')"
      by (rule straight_code [OF ok]) (use that free quiet j in auto)
    then show ?thesis by (auto simp: returns_def steps_to_def split: if_splits)
  qed
  have pass: "\<exists>st2. bc_steps F config bc n (j - r + 1) (int r, st0) =
        Some (if ireg st2 c AND ucast (push_bit s 0xFF00 :: u32) = 0 then int q else int (j + 1), st2) \<and>
      steps_to cfg UNIV st0 st2 \<and> (r = q \<longrightarrow> ireg st2 c = ireg st0 c + imm ?b)"
    if r: "p \<le> r" "r \<le> j" "machine_ok cfg st0" for r st0
  proof -
    obtain st1 where s1: "bc_steps F config bc n (j - r) (int r, st0) = Some (int j, st1)" "steps_to cfg UNIV st0 st1"
      "r = q \<longrightarrow> ireg st1 c = ireg st0 c"
      using reach [OF r] by blast
    obtain st2 where s2: "bc_step F config bc n (int j, st1) =
        Some (if ireg st2 c AND ucast (memMask ?b) = 0 then ?t + 1 else int j + 1, st2)"
      "steps_to cfg {c} st1 st2" "ireg st2 c = ireg st1 c + imm ?b"
      using branch_step [OF j(2) c(3,1) steps_to_ok [OF s1(2)] j(1), of F config] by (auto simp: returns_def)
    have "bc_steps F config bc n (j - r + 1) (int r, st0) = Option.bind (bc_step F config bc n (int j, st1)) (bc_steps F config bc n 0)"
      unfolding bc_steps_add by (simp add: s1(1))
    moreover have "steps_to cfg UNIV st0 st2" using s1(2) s2(2) by (blast intro: steps_to_trans steps_to_UNIV)
    ultimately show ?thesis using s1(3) s2 c(4) q(1) by (intro exI [of _ st2]) (auto simp: add.commute)
  qed
  obtain st1 where 1: "bc_steps F config bc n (j - p + 1) (int p, st) =
      Some (if ireg st1 c AND ucast (push_bit s 0xFF00 :: u32) = 0 then int q else int (j + 1), st1)" "steps_to cfg UNIV st st1"
    using pass [OF order_refl j(3) st] by blast
  show ?thesis
  proof (cases "ireg st1 c AND ucast (push_bit s 0xFF00 :: u32) = 0")
    case False
    with 1 have "bc_steps F config bc n (j - p + 1) (int p, st) = Some (int (j + 1), st1)" by simp
    moreover have "j - p + 1 \<le> 3 * (j + 1 - p)" using j(3) by linarith
    ultimately show ?thesis using 1(2) by blast
  next
    case J1: True
    obtain st2 where 2: "bc_steps F config bc n (j - q + 1) (int q, st1) =
        Some (if ireg st2 c AND ucast (push_bit s 0xFF00 :: u32) = 0 then int q else int (j + 1), st2)"
      "steps_to cfg UNIV st1 st2" "ireg st2 c = ireg st1 c + imm ?b"
      using pass [OF pq q(2) steps_to_ok [OF 1(2)]] by blast
    obtain st3 where 3: "bc_steps F config bc n (j - q + 1) (int q, st2) =
        Some (if ireg st3 c AND ucast (push_bit s 0xFF00 :: u32) = 0 then int q else int (j + 1), st3)"
      "steps_to cfg UNIV st2 st3" "ireg st3 c = ireg st2 c + imm ?b"
      using pass [OF pq q(2) steps_to_ok [OF 2(2)]] by blast
    show ?thesis
    proof (cases "ireg st2 c AND ucast (push_bit s 0xFF00 :: u32) = 0")
      case False
      have "bc_steps F config bc n ((j - p + 1) + (j - q + 1)) (int p, st) = Some (int (j + 1), st2)"
        unfolding bc_steps_add [of _ _ _ _ "j - p + 1"] 1(1) using J1 2(1) False by (simp del: bc_steps.simps)
      moreover have "(j - p + 1) + (j - q + 1) \<le> 3 * (j + 1 - p)" using pq q(2) by linarith
      ultimately show ?thesis using 1(2) 2(2) steps_to_trans by blast
    next
      case J2: True
      have "ireg st3 c AND ucast (push_bit s 0xFF00 :: u32) \<noteq> 0"
        using third_attempt [OF c(2,5,6) J1] J2 2(3) 3(3) by simp
      then have "bc_steps F config bc n ((j - p + 1) + ((j - q + 1) + (j - q + 1))) (int p, st) = Some (int (j + 1), st3)"
        unfolding bc_steps_add [of _ _ _ _ "j - p + 1"] bc_steps_add [of _ _ _ _ "j - q + 1"] 1(1)
        using J1 J2 2(1) 3(1) by (simp del: bc_steps.simps)
      moreover have "(j - p + 1) + ((j - q + 1) + (j - q + 1)) \<le> 3 * (j + 1 - p)" using pq q(2) by linarith
      ultimately show ?thesis using 1(2) 2(2) 3(2) steps_to_trans by blast
    qed
  qed
qed


text \<open>From the start of a segment to the end of the program.\<close>

lemma run_from:
  assumes ok: "prog_ok cfg bc n" and "p \<le> n" and "p = 0 \<or> ibc_type (bc ! (p - 1)) = CBRANCH" and "machine_ok cfg st"
  shows "\<exists>k st'. k \<le> 3 * (n - p) \<and> bc_steps F config bc n k (int p, st) = Some (int n, st') \<and> steps_to cfg UNIV st st'"
  using assms(2-4)
proof (induction "n - p" arbitrary: p st rule: less_induct)
  case less
  show ?case
  proof (cases "\<exists>j. p \<le> j \<and> j < n \<and> ibc_type (bc ! j) = CBRANCH")
    case False
    then have "returns (bc_steps F config bc n (n - p) (int p, st)) (\<lambda>(pc', st'). pc' = int n \<and> steps_to cfg UNIV st st')"
      using less.prems by (intro straight_code [OF ok order_refl]) auto
    then obtain st' where "bc_steps F config bc n (n - p) (int p, st) = Some (int n, st')" "steps_to cfg UNIV st st'"
      by (auto simp: returns_def)
    moreover have "n - p \<le> 3 * (n - p)" by simp
    ultimately show ?thesis by blast
  next
    case True
    define j where "j = (LEAST j. p \<le> j \<and> j < n \<and> ibc_type (bc ! j) = CBRANCH)"
    have j: "p \<le> j" "j < n" "ibc_type (bc ! j) = CBRANCH" using LeastI_ex [OF True] by (simp_all add: j_def)
    have free: "\<forall>k. p \<le> k \<and> k < j \<longrightarrow> ibc_type (bc ! k) \<noteq> CBRANCH"
    proof (intro allI impI)
      fix k assume k: "p \<le> k \<and> k < j"
      then have "k < n" using j(2) by simp
      with k not_less_Least [of k "\<lambda>j. p \<le> j \<and> j < n \<and> ibc_type (bc ! j) = CBRANCH"] show "ibc_type (bc ! k) \<noteq> CBRANCH"
        by (simp add: j_def)
    qed
    obtain k1 st1 where 1: "k1 \<le> 3 * (j + 1 - p)" "bc_steps F config bc n k1 (int p, st) = Some (int (j + 1), st1)"
      "steps_to cfg UNIV st st1"
      using segment [OF ok j(2,3,1) free less.prems(2,3)] by blast
    obtain k2 st2 where 2: "k2 \<le> 3 * (n - (j + 1))" "bc_steps F config bc n k2 (int (j + 1), st1) = Some (int n, st2)"
      "steps_to cfg UNIV st1 st2"
    proof -
      have "n - (j + 1) < n - p" "j + 1 \<le> n" using j by linarith+
      moreover have "j + 1 = 0 \<or> ibc_type (bc ! (j + 1 - 1)) = CBRANCH" using j(3) by simp
      ultimately show ?thesis using less.hyps [of "j + 1" st1] steps_to_ok [OF 1(3)] that by blast
    qed
    have "bc_steps F config bc n (k1 + k2) (int p, st) = Some (int n, st2)" unfolding bc_steps_add 1(2) using 2(2) by simp
    moreover have "k1 + k2 \<le> 3 * (n - p)" using 1(1) 2(1) j by linarith
    ultimately show ?thesis using 1(3) 2(3) steps_to_trans by blast
  qed
qed

lemma executeBytecode_returns:
  assumes "prog_ok cfg bc (ProgramSize cfg)" and "machine_ok cfg st" and "ProgramSize cfg \<le> length bc"
  shows "returns (executeBytecode F cfg config bc st) (steps_to cfg UNIV st)"
proof -
  obtain k st' where "bc_steps F config bc (ProgramSize cfg) k (0, st) = Some (int (ProgramSize cfg), st')" "steps_to cfg UNIV st st'"
    using run_from [OF assms(1) _ _ assms(2), of 0 F config] by auto
  with bc_steps_execute [OF this(1) assms(3)] show ?thesis by (simp add: returns_def executeBytecode_def)
qed


subsection \<open>The properties\<close>

text \<open>A small configuration for the witnesses, and a machine of its size.\<close>

definition small_config :: RandomX_Configuration where
  "small_config = Apply (RandomX_ConfigurationBase\<lparr>ScratchpadL1_Size := 64, ScratchpadL2_Size := 64, ScratchpadL3_Size := 64, ProgramSize := 3\<rparr>)"

lemma small_config_ok: "config_ok small_config" "ProgramSize small_config = 3" "ScratchpadL3_Size small_config = 64"
proof -
  show "config_ok small_config"
    unfolding small_config_def by (rule Apply_masks_ok) (simp_all add: RandomX_ConfigurationBase_def inst_freqs_def)
qed (simp_all add: small_config_def Apply_def Let_def)

lemma small_config_decode:
  "inst_freqs small_config = inst_freqs RandomX_ConfigurationBase"
  "decode_freqs (inst_freqs RandomX_ConfigurationBase) 0 = Some IADD_RS"
  "decode_freqs (inst_freqs RandomX_ConfigurationBase) 214 = Some CBRANCH"
  by (simp_all add: small_config_def inst_freqs_def Apply_def Let_def RandomX_ConfigurationBase_def)

definition zero_machine :: machine where
  "zero_machine = \<lparr>nreg = \<lparr>nr_r = replicate 8 0, nr_f = replicate 4 (0, 0), nr_e = replicate 4 (0, 0), nr_a = replicate 4 (0, 0)\<rparr>,
     scratchpad = replicate 64 0, mxcsr = rx_mxcsr_default\<rparr>"

lemma zero_machine_ok: "machine_ok small_config zero_machine"
  by (simp add: machine_ok_def zero_machine_def small_config_ok)

text \<open>Arithmetic on the bit patterns, in the place of the floating-point unit, and a set of registers.\<close>

definition bit_fpu :: fpu where
  "bit_fpu = \<lparr>fp_add = (\<lambda>_ x y. x + y), fp_sub = (\<lambda>_ x y. x - y), fp_mul = (\<lambda>_ x y. x * y), fp_div = (\<lambda>_ x y. x div y),
     fp_sqrt = (\<lambda>_ x. drop_bit 1 x), fp_cvt_i32 = signExtend2sCompl\<rparr>"

definition small_registers :: ProgramConfiguration where
  "small_registers = \<lparr>eMask = (0, 0), readReg0 = 0, readReg1 = 2, readReg2 = 4, readReg3 = 6\<rparr>"

definition any_slot :: InstructionByteCode where
  "any_slot = \<lparr>bdst = PZero, bsrc = PA 77, imm = 5, ibc_type = IMUL_RCP, target_shift = 9, memMask = 1\<rparr>"

text \<open>
  C1. Every program, whatever its bytes, compiles, and its bytecode runs to the end from every
  well-formed machine: at most three instructions are executed per instruction of the program,
  no access leaves the register file or the scratchpad, and the machine stays well formed.
\<close>

theorem compiled_program_runs:
  assumes "config_ok cfg" and "ProgramSize cfg \<le> length bc0" and "machine_ok cfg st"
  shows "\<exists>bc k st'. compileProgram cfg p bc0 = Some bc \<and> executeBytecode F cfg config bc st = Some st' \<and> machine_ok cfg st' \<and>
    k \<le> 3 * ProgramSize cfg \<and> bc_steps F config bc (ProgramSize cfg) k (0, st) = Some (int (ProgramSize cfg), st')"
proof -
  obtain bc where bc: "compileProgram cfg p bc0 = Some bc" "length bc = length bc0" "prog_ok cfg bc (ProgramSize cfg)"
    using compileProgram_ok [OF assms(1,2), of p] by (auto simp: returns_def)
  obtain k st' where k: "k \<le> 3 * ProgramSize cfg" "steps_to cfg UNIV st st'"
    "bc_steps F config bc (ProgramSize cfg) k (0, st) = Some (int (ProgramSize cfg), st')"
    using run_from [OF bc(3) _ _ assms(3), of 0 F config] by auto
  with bc assms(2) bc_steps_execute [OF k(3)] show ?thesis
    unfolding executeBytecode_def using steps_to_ok by (metis of_nat_0)
qed

theorem compiled_program_runs_witness:
  "\<exists>bc k st'. compileProgram small_config (replicate 24 7) (replicate 3 any_slot) = Some bc \<and>
    executeBytecode bit_fpu small_config small_registers bc zero_machine = Some st' \<and> machine_ok small_config st' \<and>
    k \<le> 9 \<and> bc_steps bit_fpu small_registers bc 3 k (0, zero_machine) = Some (3, st')"
  using compiled_program_runs [OF small_config_ok(1) _ zero_machine_ok, of "replicate 3 any_slot" "replicate 24 7" bit_fpu small_registers]
  by (simp add: small_config_ok(2))

text \<open>
  C13. Each slot of a compiled program is safe by itself, from every well-formed machine and at every program counter: it is
  well formed, it executes, and it keeps the machine well formed. What it changes is what the instruction of the program
  names: of the integer registers and of the two groups of floating-point registers only the destination of that
  instruction (both registers for a swap), never a constant register; the scratchpad only if it is a store, the rounding
  mode only if it is \<open>CFROUND\<close>, the program counter only if it is a branch.
\<close>

theorem compiled_slot_safe:
  assumes "config_ok cfg" and "compileProgram cfg p bc0 = Some bc" and "ProgramSize cfg \<le> length bc0"
    and "i < ProgramSize cfg" and "machine_ok cfg st"
  shows "\<exists>x pc' st'. apply_engine cfg (unat (opcode (program_instr p i))) = Some x \<and> wf_ibc cfg (bc ! i) \<and>
    executeInstruction F config (bc ! i) pc st = Some (pc', st') \<and> machine_ok cfg st' \<and>
    (\<forall>r. PReg r \<notin> instr_writes x (program_instr p i) \<longrightarrow> nr_r (nreg st') ! r = nr_r (nreg st) ! r) \<and>
    (\<forall>r. PF r \<notin> instr_writes x (program_instr p i) \<longrightarrow> nr_f (nreg st') ! r = nr_f (nreg st) ! r) \<and>
    (\<forall>r. PE r \<notin> instr_writes x (program_instr p i) \<longrightarrow> nr_e (nreg st') ! r = nr_e (nreg st) ! r) \<and>
    nr_a (nreg st') = nr_a (nreg st) \<and> (x \<noteq> ISTORE \<longrightarrow> scratchpad st' = scratchpad st) \<and>
    (x \<noteq> CFROUND \<longrightarrow> mxcsr st' = mxcsr st) \<and> (x \<noteq> CBRANCH \<longrightarrow> pc' = pc)"
proof -
  have ok: "prog_ok cfg bc (ProgramSize cfg)"
    using compileProgram_ok [OF assms(1,3), of p] assms(2) by (simp add: returns_def)
  then have wf: "wf_ibc cfg (bc ! i)" using assms(4) by (simp add: prog_ok_def)
  have "\<exists>pc' st'. executeInstruction F config (bc ! i) pc st = Some (pc', st') \<and> machine_ok cfg st'"
  proof (cases "ibc_type (bc ! i) = CBRANCH")
    case False
    then show ?thesis using exec_straight [OF wf assms(5) False, of F config pc] by (auto simp: returns_def steps_to_def)
  next
    case True
    then obtain c where "bdst (bc ! i) = PReg c" "c < 8" using wf by (cases "bdst (bc ! i)") (auto simp: wf_ibc_def)
    with True assms(5) show ?thesis
      by (simp add: executeInstruction_def exe_CBRANCH_def nth_opt_def upd_opt_def machine_ok_def)
  qed
  then obtain pc' st' where e: "executeInstruction F config (bc ! i) pc st = Some (pc', st')" "machine_ok cfg st'" by blast
  from program_slot_frame [OF assms(2-4) e(1)] wf e show ?thesis
    unfolding slot_frame_def keeps_def by blast
qed

theorem compiled_slot_safe_witness:
  "\<exists>bc pc' st'. compileProgram small_config (replicate 24 0) (replicate 3 any_slot) = Some bc \<and>
    executeInstruction bit_fpu small_registers (bc ! 2) 2 zero_machine = Some (pc', st') \<and> machine_ok small_config st' \<and>
    nr_f (nreg st') ! 1 = (0, 0) \<and> nr_r (nreg st') ! 3 = 0 \<and> pc' = 2 \<and> scratchpad st' = replicate 64 0"
proof -
  obtain bc where bc: "compileProgram small_config (replicate 24 0) (replicate 3 any_slot) = Some bc"
    using compileProgram_ok [OF small_config_ok(1), of "replicate 3 any_slot" "replicate 24 0"]
    by (auto simp: returns_def small_config_ok(2))
  have i: "opcode (program_instr (replicate 24 0) 2) = 0" "instr_dst (program_instr (replicate 24 0) 2) = 0"
    by (simp_all add: program_instr_def instruction_of_bytes_def)
  have "nr_f (nreg zero_machine) ! 1 = (0, 0)" "nr_r (nreg zero_machine) ! 3 = 0" "scratchpad zero_machine = replicate 64 0"
    by (simp_all add: zero_machine_def)
  with compiled_slot_safe [OF small_config_ok(1) bc _ _ zero_machine_ok, of 2 bit_fpu small_registers 2] bc show ?thesis
    by (auto simp: small_config_ok(2) i engine_decode small_config_decode instr_writes_def)
qed

text \<open>
  C14. The invariant of the register usage: the target of every compiled branch is the last slot
  before it that changes its register or is a branch itself, or the place before the program; so
  the code that a taken branch repeats neither changes its register nor branches.
\<close>

theorem branch_targets:
  assumes "config_ok cfg" and "compileProgram cfg p bc0 = Some bc" and "ProgramSize cfg \<le> length bc0"
    and "j < ProgramSize cfg" and "ibc_type (bc ! j) = CBRANCH"
  shows "\<exists>creg t. bdst (bc ! j) = PReg creg \<and> creg < 8 \<and> t = sint (target_shift (bc ! j)) \<and> - 1 \<le> t \<and> t < int j \<and>
    (\<forall>k<j. t < int k \<longrightarrow> ibc_type (bc ! k) \<noteq> CBRANCH \<and> creg \<notin> int_writes (bc ! k)) \<and>
    (t = - 1 \<or> ibc_type (bc ! nat t) = CBRANCH \<or> creg \<in> int_writes (bc ! nat t))"
proof -
  have "prog_ok cfg bc (ProgramSize cfg)"
    using compileProgram_ok [OF assms(1,3), of p] assms(2) by (simp add: returns_def)
  then have "branch_ok bc j" using assms(4,5) by (simp add: prog_ok_def)
  then show ?thesis by (force simp: branch_ok_def Let_def marks_def)
qed

theorem branch_targets_witness:
  "\<exists>bc creg t. compileProgram small_config (replicate 16 0 @ [214, 0, 0, 0, 0, 0, 0, 0]) [any_slot, any_slot, any_slot] = Some bc \<and>
    ibc_type (bc ! 2) = CBRANCH \<and> bdst (bc ! 2) = PReg creg \<and> t = sint (target_shift (bc ! 2)) \<and> t < 2 \<and>
    (\<forall>k<2. t < int k \<longrightarrow> creg \<notin> int_writes (bc ! k))"
proof -
  let ?p = "replicate 16 0 @ [214, 0, 0, 0, 0, 0, 0, 0]"
  have n: "ProgramSize small_config = Suc (Suc (Suc 0))" by (simp add: small_config_ok(2))
  obtain bc where bc: "compileProgram small_config ?p [any_slot, any_slot, any_slot] = Some bc" and t: "ibc_type (bc ! 2) = CBRANCH"
    by (simp add: n compileProgram_def compile_decode small_config_decode program_instr_def instruction_of_bytes_def
        compile_case_def compile_IADD_RS_def compile_CBRANCH_def Let_def RegisterNeedsDisplacement_def dst8_def)
  have "3 \<le> length [any_slot, any_slot, any_slot]" by simp
  with branch_targets [OF small_config_ok(1) bc, of 2] t obtain creg where
    "bdst (bc ! 2) = PReg creg" "sint (target_shift (bc ! 2)) < 2"
    "\<forall>k<2. sint (target_shift (bc ! 2)) < int k \<longrightarrow> creg \<notin> int_writes (bc ! k)"
    by (auto simp: small_config_ok(2))
  with bc t show ?thesis by blast
qed

text \<open>
  The interpreter and the dispatch table of the JIT compilers read an opcode the same way: the
  instruction that the chain of comparisons in \<open>compileInstruction\<close> selects is the one whose handler
  \<open>Apply\<close> enters in the table, for every opcode and all of the 256 entries are filled.
\<close>

theorem dispatch_agrees:
  assumes "config_ok cfg"
  shows "\<exists>x. apply_engine cfg (unat (opcode instr)) = Some x \<and> compileInstruction cfg instr i st = compile_case cfg x instr i st"
proof -
  have "unat (opcode instr) < 256" using unsigned_less [of "opcode instr"] by simp
  then obtain x where "decode_freqs (inst_freqs cfg) (unat (opcode instr)) = Some x"
    using decode_freqs_total [of "unat (opcode instr)" "inst_freqs cfg"] assms by (auto simp: config_ok_def)
  then show ?thesis by (simp add: engine_decode compile_decode)
qed

end
