(* ===== verification/Rx_Vm.thy ===== *)
theory Rx_Vm
  imports Bytecode_Run
begin

text \<open>
  The virtual machine around the bytecode: its set-up from the entropy of a program
  (\<open>virtual_machine.cpp\<close>) and the interpreter's main loop (\<open>vm_interpreted.cpp\<close>). The dataset line
  that an iteration mixes into the registers comes from \<open>read\<close>, the \<open>datasetRead\<close> of the machine:
  from memory here, computed from the cache for the light machine. A read outside the dataset is
  \<^term>\<open>None\<close>.
\<close>

subsection \<open>State\<close>

record RegisterFile =
  rf_r :: "u64 list"
  rf_f :: "rx_vec_f128 list"
  rf_e :: "rx_vec_f128 list"
  rf_a :: "rx_vec_f128 list"

record MemoryRegisters =
  mx :: u32
  ma :: u32

record vm =
  vm_program :: program
  vm_reg :: RegisterFile
  vm_config :: ProgramConfiguration
  vm_mem :: MemoryRegisters
  vm_scratchpad :: bytes
  datasetOffset :: u64
  vm_mxcsr :: u32

subsection \<open>Initialisation\<close>

definition getSmallPositiveFloatBits :: "u64 \<Rightarrow> u64" where
  "getSmallPositiveFloatBits entropy =
     (let exponent = drop_bit 59 entropy;
          mantissa = entropy AND mantissaMask;
          exponent = exponent + exponentBias;
          exponent = exponent AND exponentMask;
          exponent = push_bit mantissaSize exponent
      in exponent OR mantissa)"

definition getStaticExponent :: "u64 \<Rightarrow> u64" where
  "getStaticExponent entropy =
     (let exponent = constExponentBits;
          exponent = exponent OR push_bit dynamicExponentBits (drop_bit (64 - staticExponentBits) entropy)
      in push_bit mantissaSize exponent)"

definition getFloatMask :: "u64 \<Rightarrow> u64" where
  "getFloatMask entropy =
     (let mask22bit = push_bit 22 1 - 1
      in (entropy AND mask22bit) OR getStaticExponent entropy)"

definition initialize :: "vm \<Rightarrow> vm" where
  "initialize s =
     (let getEntropy = getEntropy (vm_program s);
          a = map (\<lambda>i. (getSmallPositiveFloatBits (getEntropy (2 * i)), getSmallPositiveFloatBits (getEntropy (2 * i + 1)))) [0..<4];
          mem = \<lparr>mx = ucast (getEntropy 10), ma = ucast (getEntropy 8 AND CacheLineAlignMask)\<rparr>;
          addressRegisters = getEntropy 12;
          readReg0 = 0 + (addressRegisters AND 1);
          addressRegisters = drop_bit 1 addressRegisters;
          readReg1 = 2 + (addressRegisters AND 1);
          addressRegisters = drop_bit 1 addressRegisters;
          readReg2 = 4 + (addressRegisters AND 1);
          addressRegisters = drop_bit 1 addressRegisters;
          readReg3 = 6 + (addressRegisters AND 1);
          offset = (getEntropy 13 mod (DatasetExtraItems + 1)) * of_nat CacheLineSize
      in s\<lparr>vm_reg := (vm_reg s)\<lparr>rf_a := a\<rparr>,
           vm_mem := mem,
           vm_config := \<lparr>eMask = (getFloatMask (getEntropy 14), getFloatMask (getEntropy 15)),
             readReg0 = unat readReg0, readReg1 = unat readReg1, readReg2 = unat readReg2, readReg3 = unat readReg3\<rparr>,
           datasetOffset := offset\<rparr>)"

subsection \<open>The main loop\<close>

text \<open>Reading \<open>n\<close> items of \<open>w\<close> bytes from the scratchpad.\<close>

definition sp_items :: "bytes \<Rightarrow> nat \<Rightarrow> nat \<Rightarrow> nat \<Rightarrow> bytes list option" where
  "sp_items sp off w n = map_option (\<lambda>b. map (\<lambda>i. take w (drop (w * i) b)) [0..<n]) (load_at sp off (w * n))"

definition store_vec :: "rx_vec_f128 \<Rightarrow> bytes" where
  "store_vec x = store64 (fst x) @ store64 (snd x)"

text \<open>The start of an iteration: the two addresses and the registers mixed with the scratchpad.\<close>

definition load_registers :: "fpu \<Rightarrow> RandomX_Configuration \<Rightarrow> ProgramConfiguration \<Rightarrow> u32 \<Rightarrow> u32 \<Rightarrow> machine \<Rightarrow>
    (u32 \<times> u32 \<times> machine) option" where
  "load_registers F cfg config spAddr0 spAddr1 st = do {
     let r = nr_r (nreg st);
     spMix0 \<leftarrow> nth_opt r (readReg0 config);
     spMix1 \<leftarrow> nth_opt r (readReg1 config);
     let spMix = spMix0 XOR spMix1;
     let spAddr0 = (spAddr0 XOR ucast spMix) AND ScratchpadL3Mask64_Calculated cfg;
     let spAddr1 = (spAddr1 XOR ucast (drop_bit 32 spMix)) AND ScratchpadL3Mask64_Calculated cfg;
     words \<leftarrow> sp_items (scratchpad st) (unat spAddr0) 8 8;
     ints \<leftarrow> sp_items (scratchpad st) (unat spAddr1) 8 8;
     let fl = map (rx_cvt_packed_int_vec_f128 F) ints;
     Some (spAddr0, spAddr1,
       st\<lparr>nreg := (nreg st)\<lparr>nr_r := map2 (\<lambda>x b. x XOR load64 b) r words,
                            nr_f := take 4 fl,
                            nr_e := map (maskRegisterExponentMantissa config) (drop 4 fl)\<rparr>\<rparr>)
   }"

text \<open>The end of an iteration: the registers back to the scratchpad.\<close>

definition store_registers :: "u32 \<Rightarrow> u32 \<Rightarrow> machine \<Rightarrow> machine option" where
  "store_registers spAddr0 spAddr1 st = do {
     let rf = nreg st;
     sp \<leftarrow> store_at (scratchpad st) (unat spAddr1) (concat (map store64 (nr_r rf)));
     let f = map2 (vec2 (XOR)) (nr_f rf) (nr_e rf);
     sp \<leftarrow> store_at sp (unat spAddr0) (concat (map store_vec f));
     Some (st\<lparr>nreg := rf\<lparr>nr_f := f\<rparr>, scratchpad := sp\<rparr>)
   }"

definition iteration :: "fpu \<Rightarrow> RandomX_Configuration \<Rightarrow> (u64 \<Rightarrow> u64 list option) \<Rightarrow> ProgramConfiguration \<Rightarrow> u64 \<Rightarrow>
    InstructionByteCode list \<Rightarrow> u32 \<times> u32 \<times> MemoryRegisters \<times> machine \<Rightarrow> (u32 \<times> u32 \<times> MemoryRegisters \<times> machine) option" where
  "iteration F cfg read config offset bytecode = (\<lambda>(spAddr0, spAddr1, mem, st). do {
     (spAddr0, spAddr1, st) \<leftarrow> load_registers F cfg config spAddr0 spAddr1 st;
     st \<leftarrow> executeBytecode F cfg config bytecode st;
     r2 \<leftarrow> nth_opt (nr_r (nreg st)) (readReg2 config);
     r3 \<leftarrow> nth_opt (nr_r (nreg st)) (readReg3 config);
     let mem = mem\<lparr>mx := (mx mem XOR ucast (r2 XOR r3)) AND ucast CacheLineAlignMask\<rparr>;
     line \<leftarrow> read (offset + ucast (ma mem));
     let st = st\<lparr>nreg := (nreg st)\<lparr>nr_r := map2 (XOR) (nr_r (nreg st)) line\<rparr>\<rparr>;
     let mem = \<lparr>mx = ma mem, ma = mx mem\<rparr>;
     st \<leftarrow> store_registers spAddr0 spAddr1 st;
     Some (0, 0, mem, st)
   })"

fun iterations :: "nat \<Rightarrow> ('a \<Rightarrow> 'a option) \<Rightarrow> 'a \<Rightarrow> 'a option" where
  "iterations 0 f s = Some s"
| "iterations (Suc n) f s = Option.bind (f s) (iterations n f)"

text \<open>
  \<open>execute\<close>; \<open>f0\<close> and \<open>e0\<close> are the indeterminate contents of the local register file, \<open>bc0\<close> those of
  the bytecode array.
\<close>

definition execute :: "fpu \<Rightarrow> RandomX_Configuration \<Rightarrow> (u64 \<Rightarrow> u64 list option) \<Rightarrow> rx_vec_f128 list \<Rightarrow> rx_vec_f128 list \<Rightarrow>
    InstructionByteCode list \<Rightarrow> vm \<Rightarrow> vm option" where
  "execute F cfg read f0 e0 bc0 s = do {
     let rf = \<lparr>nr_r = replicate RegistersCount 0, nr_f = f0, nr_e = e0, nr_a = rf_a (vm_reg s)\<rparr>;
     bytecode \<leftarrow> compileProgram cfg (vm_program s) bc0;
     let mem = vm_mem s;
     let st = \<lparr>nreg = rf, scratchpad = vm_scratchpad s, mxcsr = vm_mxcsr s\<rparr>;
     (_, _, mem, st) \<leftarrow> iterations (ProgramIterations cfg) (iteration F cfg read (vm_config s) (datasetOffset s) bytecode)
       (mx mem, ma mem, mem, st);
     Some (s\<lparr>vm_reg := (vm_reg s)\<lparr>rf_r := nr_r (nreg st), rf_f := nr_f (nreg st), rf_e := nr_e (nreg st)\<rparr>,
             vm_mem := mem, vm_scratchpad := scratchpad st, vm_mxcsr := mxcsr st\<rparr>)
   }"

text \<open>\<open>datasetRead\<close> of the machine with the full dataset.\<close>

definition datasetRead :: "bytes \<Rightarrow> u64 \<Rightarrow> u64 list option" where
  "datasetRead memory address = map_option (map load64) (sp_items memory (unat address) 8 RegistersCount)"

text \<open>\<open>run\<close> after the program has been generated.\<close>

definition run_program :: "fpu \<Rightarrow> RandomX_Configuration \<Rightarrow> (u64 \<Rightarrow> u64 list option) \<Rightarrow> rx_vec_f128 list \<Rightarrow> rx_vec_f128 list \<Rightarrow>
    InstructionByteCode list \<Rightarrow> vm \<Rightarrow> vm option" where
  "run_program F cfg read f0 e0 bc0 s = execute F cfg read f0 e0 bc0 (initialize s)"

end
