(* ===== verification/Rx_Vm_Safety.thy ===== *)
theory Rx_Vm_Safety
  imports Rx_Vm
begin

text \<open>
  The virtual machine is safe: the ranges that \<open>initialize\<close> establishes, and a run that never leaves
  the scratchpad, the register file or the dataset, whatever the program. The interface
  \<open>dataset_reader\<close> is what the main loop relies on; the full dataset provides it here.
\<close>

subsection \<open>Ranges set by the initialisation\<close>

definition program_config_ok :: "ProgramConfiguration \<Rightarrow> bool" where
  "program_config_ok config \<longleftrightarrow> readReg0 config < 8 \<and> readReg1 config < 8 \<and> readReg2 config < 8 \<and> readReg3 config < 8"

definition dataset_size :: nat where
  "dataset_size = unat DatasetBaseSize + unat DatasetExtraSize"

definition address_ok :: "u64 \<Rightarrow> bool" where
  "address_ok a \<longleftrightarrow> 64 dvd unat a \<and> unat a + 64 \<le> dataset_size"

definition line_ok :: "u32 \<Rightarrow> bool" where
  "line_ok m \<longleftrightarrow> 64 dvd unat m \<and> unat m + 64 \<le> unat DatasetBaseSize"

definition offset_ok :: "u64 \<Rightarrow> bool" where
  "offset_ok a \<longleftrightarrow> 64 dvd unat a \<and> unat a \<le> unat DatasetExtraSize"

lemma and_1_cases: "x AND 1 = 0 \<or> x AND 1 = (1 :: u64)"
  by (simp add: and_one_eq mod_2_eq_odd)

lemma read_registers:
  "unat (x AND 1 :: u64) < 2" "unat (2 + (x AND 1) :: u64) < 4" "unat (4 + (x AND 1) :: u64) < 6" "unat (6 + (x AND 1) :: u64) < 8"
  using and_1_cases [of x] by auto

lemma CacheLineAlignMask_bits: "CacheLineAlignMask = push_bit 6 (mask 25)"
  by (simp add: CacheLineAlignMask_def DatasetBaseSize_def RANDOMX_DATASET_ITEM_SIZE_def mask_eq_exp_minus_1)

lemma line_ok_mask: "line_ok (x AND ucast CacheLineAlignMask)"
proof -
  have "x AND ucast CacheLineAlignMask = push_bit 6 (take_bit 25 (drop_bit 6 x))"
    unfolding CacheLineAlignMask_bits
    by (rule bit_word_eqI) (auto simp: bit_and_iff bit_unsigned_iff bit_push_bit_iff bit_mask_iff bit_take_bit_iff bit_drop_bit_eq)
  moreover have "unat (push_bit 6 (take_bit 25 (drop_bit 6 x))) = 64 * unat (take_bit 25 (drop_bit 6 x))"
  proof -
    have "unat (take_bit 25 (drop_bit 6 x)) < 2 ^ 25" by (simp add: unsigned_take_bit_eq take_bit_nat_less_exp [of 25, simplified])
    then show ?thesis by (simp add: push_bit_eq_mult unat_word_ariths mult.commute)
  qed
  moreover have "unat (take_bit 25 (drop_bit 6 x)) < 2 ^ 25" by (simp add: unsigned_take_bit_eq take_bit_nat_less_exp [of 25, simplified])
  ultimately show ?thesis by (simp add: line_ok_def DatasetBaseSize_def)
qed

lemma address_sum:
  assumes "offset_ok a" and "line_ok m"
  shows "address_ok (a + ucast m)"
proof -
  have "unat m < 2 ^ 32" using unsigned_less [of m] by simp
  then have "unat (ucast m :: u64) = unat m" by (simp add: unsigned_ucast_eq take_bit_nat_eq_self)
  then have "unat (a + ucast m) = (unat a + unat m) mod 2 ^ 64" by (simp add: unat_word_ariths)
  also have "\<dots> = unat a + unat m"
    using assms by (simp add: offset_ok_def line_ok_def DatasetExtraSize_def DatasetBaseSize_def)
  finally show ?thesis using assms by (simp add: address_ok_def offset_ok_def line_ok_def dataset_size_def)
qed


lemma initialize_ranges:
  "program_config_ok (vm_config (initialize s))" "line_ok (ma (vm_mem (initialize s)))"
  "offset_ok (datasetOffset (initialize s))" "length (rf_a (vm_reg (initialize s))) = 4"
proof -
  have c: "program_config_ok \<lparr>eMask = m, readReg0 = unat (x0 AND 1 :: u64), readReg1 = unat (2 + (x1 AND 1) :: u64),
      readReg2 = unat (4 + (x2 AND 1) :: u64), readReg3 = unat (6 + (x3 AND 1) :: u64)\<rparr>" for m x0 x1 x2 x3
    unfolding program_config_ok_def ProgramConfiguration.simps
    using read_registers(1) [of x0] read_registers(2) [of x1] read_registers(3) [of x2] read_registers(4) [of x3] by linarith
  show "program_config_ok (vm_config (initialize s))"
    by (cases s) (simp only: initialize_def Let_def add_0 vm.simps c)
  have "ucast (x AND CacheLineAlignMask) = (ucast x AND ucast CacheLineAlignMask :: u32)" for x :: u64
    by (rule bit_word_eqI) (simp add: bit_unsigned_iff bit_and_iff)
  then show "line_ok (ma (vm_mem (initialize s)))"
    by (simp add: initialize_def Let_def line_ok_mask)
  show "length (rf_a (vm_reg (initialize s))) = 4" by (simp add: initialize_def Let_def del: upt_rec_numeral)
  let ?e = "getEntropy (vm_program s) 13"
  have "unat (?e mod (DatasetExtraItems + 1)) = unat ?e mod 524288"
    by (simp add: unat_mod_distrib DatasetExtraItems_def DatasetExtraSize_def RANDOMX_DATASET_ITEM_SIZE_def)
  then have n: "unat (?e mod (DatasetExtraItems + 1)) \<le> 524287"
    using mod_less_divisor [of 524288 "unat ?e"] by linarith
  then have "unat (?e mod (DatasetExtraItems + 1) * 64) = unat (?e mod (DatasetExtraItems + 1)) * 64"
    by (simp add: unat_word_ariths)
  with n show "offset_ok (datasetOffset (initialize s))"
    by (simp add: initialize_def Let_def offset_ok_def CacheLineSize_def RANDOMX_DATASET_ITEM_SIZE_def DatasetExtraSize_def)
qed


subsection \<open>One iteration\<close>

lemma sp_items_returns:
  "off + w * n \<le> length sp \<Longrightarrow> (\<And>bs. length bs = n \<Longrightarrow> P bs) \<Longrightarrow> returns (sp_items sp off w n) P"
  by (simp add: sp_items_def load_at_def returns_Some_iff)

lemma nth_opt_returns: "i < length xs \<Longrightarrow> P (xs ! i) \<Longrightarrow> returns (nth_opt xs i) P"
  by (simp add: nth_opt_def returns_Some_iff)

text \<open>Before the first iteration the floating-point registers are not set up; their number is.\<close>

lemma mask64_line:
  assumes "config_ok cfg"
  shows "unat (x AND ScratchpadL3Mask64_Calculated cfg) + 64 \<le> unat (ScratchpadL3_Size cfg)"
proof -
  have "unat (x AND ScratchpadL3Mask64_Calculated cfg) \<le> unat (ScratchpadL3Mask64_Calculated cfg)"
    using word_and_le1 [of x "ScratchpadL3Mask64_Calculated cfg"] by (simp only: word_le_nat_alt)
  then show ?thesis using assms by (simp add: config_ok_def)
qed

definition sp_line :: "RandomX_Configuration \<Rightarrow> u32 \<Rightarrow> bool" where
  "sp_line cfg a \<longleftrightarrow> unat a + 64 \<le> unat (ScratchpadL3_Size cfg)"

lemma load_registers_returns:
  assumes "config_ok cfg" and "program_config_ok config" and "machine_ok cfg st"
  shows "returns (load_registers F cfg config a0 a1 st)
    (\<lambda>(a0', a1', st'). sp_line cfg a0' \<and> sp_line cfg a1' \<and> machine_ok cfg st' \<and> nr_a (nreg st') = nr_a (nreg st))"
proof -
  have l: "length (nr_r (nreg st)) = 8" "length (scratchpad st) = unat (ScratchpadL3_Size cfg)"
    using assms(3) by (simp_all add: machine_ok_def)
  note m = mask64_line [OF assms(1)]
  show ?thesis
    unfolding load_registers_def Let_def
    by (intro returns_bind nth_opt_returns sp_items_returns returns_Some)
      (use assms(2,3) m in \<open>simp_all add: l program_config_ok_def sp_line_def machine_ok_def\<close>)
qed

lemma length_concat_store [simp]:
  "length (concat (map store64 xs)) = 8 * length xs" "length (concat (map store_vec ys)) = 16 * length ys"
  by (rule concat_const_length, simp add: store_vec_def)+

lemma store_registers_returns:
  assumes "machine_ok cfg st" and "sp_line cfg a0" and "sp_line cfg a1"
  shows "returns (store_registers a0 a1 st) (\<lambda>st'. machine_ok cfg st' \<and> nr_a (nreg st') = nr_a (nreg st))"
proof -
  have s: "returns (store_at sp off b) P"
    if "off + length b \<le> length sp" "\<And>sp'. length sp' = length sp \<Longrightarrow> P sp'" for sp off b and P :: "bytes \<Rightarrow> bool"
    using that by (simp add: store_at_def returns_Some_iff)
  show ?thesis
    unfolding store_registers_def Let_def
    by (intro returns_bind s returns_Some) (use assms in \<open>simp_all add: machine_ok_def sp_line_def del: map_map\<close>)
qed

text \<open>
  What the main loop relies on: a reader that delivers eight words at every address that is a
  multiple of 64 inside the dataset. \<open>valid m\<close> says that \<open>m\<close> is a dataset (or a cache).
\<close>

locale dataset_reader =
  fixes read :: "'m \<Rightarrow> u64 \<Rightarrow> u64 list option"
    and valid :: "'m \<Rightarrow> bool"
  assumes read_line: "valid m \<Longrightarrow> address_ok a \<Longrightarrow> returns (read m a) (\<lambda>line. length line = 8)"
begin

lemma iteration_returns:
  assumes "valid m" and "config_ok cfg" and "program_config_ok config" and "offset_ok offset" and "line_ok (ma mem)"
    and "prog_ok cfg bc (ProgramSize cfg)" and "ProgramSize cfg \<le> length bc" and "machine_ok cfg st"
  shows "returns (iteration F cfg (read m) config offset bc (a0, a1, mem, st))
    (\<lambda>(a0', a1', mem', st'). line_ok (ma mem') \<and> machine_ok cfg st' \<and> nr_a (nreg st') = nr_a (nreg st))"
proof -
  obtain b0 b1 st1 where 1: "load_registers F cfg config a0 a1 st = Some (b0, b1, st1)" "sp_line cfg b0" "sp_line cfg b1"
    "machine_ok cfg st1" "nr_a (nreg st1) = nr_a (nreg st)"
    using load_registers_returns [OF assms(2,3,8), of F a0 a1] by (auto simp: returns_def)
  obtain st2 where 2: "executeBytecode F cfg config bc st1 = Some st2" "steps_to cfg UNIV st1 st2"
    using executeBytecode_returns [OF assms(6) 1(4) assms(7), of F config] by (auto simp: returns_def)
  have ok2: "machine_ok cfg st2" "nr_a (nreg st2) = nr_a (nreg st)" using 2(2) 1(5) by (simp_all add: steps_to_def)
  then have l: "length (nr_r (nreg st2)) = 8" by (simp add: machine_ok_def)
  obtain line where 3: "read m (offset + ucast (ma mem)) = Some line" "length line = 8"
    using read_line [OF assms(1) address_sum [OF assms(4,5)]] by (auto simp: returns_def)
  let ?st3 = "st2\<lparr>nreg := (nreg st2)\<lparr>nr_r := map2 (XOR) (nr_r (nreg st2)) line\<rparr>\<rparr>"
  have "machine_ok cfg ?st3" using ok2(1) 3(2) by (simp add: machine_ok_def)
  then obtain st4 where 4: "store_registers b0 b1 ?st3 = Some st4" "machine_ok cfg st4" "nr_a (nreg st4) = nr_a (nreg st)"
    using store_registers_returns [of cfg ?st3 b0 b1] 1(2,3) ok2(2) by (auto simp: returns_def)
  show ?thesis
    using assms(3) l by (simp add: iteration_def 1(1) 2(1) 3(1) 4 Let_def program_config_ok_def nth_opt_def returns_Some_iff line_ok_mask)
qed

lemma execute_returns:
  assumes "valid m" and "config_ok cfg" and "program_config_ok (vm_config s)" and "offset_ok (datasetOffset s)"
    and "line_ok (ma (vm_mem s))" and "length (rf_a (vm_reg s)) = 4" and "length f0 = 4" and "length e0 = 4"
    and "ProgramSize cfg \<le> length bc0" and "length (vm_scratchpad s) = unat (ScratchpadL3_Size cfg)"
  shows "returns (execute F cfg (read m) f0 e0 bc0 s) (\<lambda>s'. line_ok (ma (vm_mem s')) \<and>
    length (vm_scratchpad s') = length (vm_scratchpad s) \<and> length (rf_r (vm_reg s')) = 8 \<and> rf_a (vm_reg s') = rf_a (vm_reg s) \<and>
    length (rf_f (vm_reg s')) = 4 \<and> length (rf_e (vm_reg s')) = 4)"
proof -
  obtain bc where bc: "compileProgram cfg (vm_program s) bc0 = Some bc" "length bc = length bc0" "prog_ok cfg bc (ProgramSize cfg)"
    using compileProgram_ok [OF assms(2,9), of "vm_program s"] by (auto simp: returns_def)
  have it: "returns (iterations n (iteration F cfg (read m) (vm_config s) (datasetOffset s) bc) (a0, a1, mem, st))
      (\<lambda>(a0', a1', mem', st'). line_ok (ma mem') \<and> machine_ok cfg st' \<and> nr_a (nreg st') = nr_a (nreg st))"
    if "line_ok (ma mem)" "machine_ok cfg st" for n a0 a1 mem st
    using that
  proof (induction n arbitrary: a0 a1 mem st)
    case 0
    then show ?case by (simp add: returns_Some_iff)
  next
    case (Suc n)
    obtain a0' a1' mem' st' where i: "iteration F cfg (read m) (vm_config s) (datasetOffset s) bc (a0, a1, mem, st) =
        Some (a0', a1', mem', st')" "line_ok (ma mem')" "machine_ok cfg st'" "nr_a (nreg st') = nr_a (nreg st)"
      using iteration_returns [OF assms(1-4) Suc.prems(1) bc(3) _ Suc.prems(2), of F a0 a1] assms(9) bc(2)
      by (auto simp: returns_def)
    with Suc.IH [OF i(2,3), of a0' a1'] show ?case by (simp add: i(4))
  qed
  let ?st = "\<lparr>nreg = \<lparr>nr_r = replicate RegistersCount 0, nr_f = f0, nr_e = e0, nr_a = rf_a (vm_reg s)\<rparr>,
    scratchpad = vm_scratchpad s, mxcsr = vm_mxcsr s\<rparr>"
  have "machine_ok cfg ?st" using assms by (simp add: machine_ok_def RegistersCount_def)
  from it [OF assms(5) this, of "ProgramIterations cfg" "mx (vm_mem s)" "ma (vm_mem s)"] show ?thesis
    using assms(10) by (auto simp: execute_def bc(1) Let_def returns_def machine_ok_def)
qed

end

interpretation full: dataset_reader datasetRead "\<lambda>memory. length memory = dataset_size"
  by unfold_locales (simp add: datasetRead_def sp_items_def load_at_def returns_Some_iff address_ok_def RegistersCount_def)


subsection \<open>The constant and the divisor registers\<close>

text \<open>The sign and exponent of a double.\<close>

definition sign_exponent :: "u64 \<Rightarrow> nat" where
  "sign_exponent x = unat x div 2 ^ 52"

lemma sign_exponent_drop: "sign_exponent x = unat (drop_bit 52 x)"
  by (simp add: sign_exponent_def drop_bit_eq_div unat_div_distrib)

lemma small_float_exponent: "1023 \<le> sign_exponent (getSmallPositiveFloatBits w) \<and> sign_exponent (getSmallPositiveFloatBits w) \<le> 1054"
proof -
  let ?e = "drop_bit 59 w + 1023 :: u64"
  have d: "unat (drop_bit 59 w) < 32"
  proof -
    have "unat w < 2 ^ 64" using unsigned_less [of w] by simp
    then have "unat w div 2 ^ 59 < 32" by (simp add: less_mult_imp_div_less)
    then show ?thesis by (simp add: drop_bit_eq_div unat_div_distrib)
  qed
  then have e: "unat ?e = unat (drop_bit 59 w) + 1023" by (simp add: unat_word_ariths)
  have m: "exponentMask = mask 11" "mantissaMask = mask 52"
    by (simp_all add: exponentMask_def mantissaMask_def exponentSize_def mantissaSize_def mask_eq_exp_minus_1)
  have "drop_bit 52 (getSmallPositiveFloatBits w) = take_bit 11 ?e"
    unfolding getSmallPositiveFloatBits_def Let_def m exponentBias_def mantissaSize_def
    by (rule bit_word_eqI) (auto simp: bit_drop_bit_eq bit_or_iff bit_and_iff bit_push_bit_iff bit_mask_iff bit_take_bit_iff)
  moreover have "unat (take_bit 11 ?e) = unat ?e"
    using d unfolding unsigned_take_bit_eq e by (intro take_bit_nat_eq_self) simp
  ultimately show ?thesis using d e by (simp add: sign_exponent_drop)
qed

lemma float_mask_bits:
  fixes x w :: u64
  defines "y \<equiv> (x AND dynamicMantissaMask) OR getFloatMask w"
  shows "drop_bit 60 y = 3"
proof (rule bit_word_eqI)
  fix n assume "n < LENGTH(64)"
  have m: "dynamicMantissaMask = mask 56" "(push_bit 22 1 - 1 :: u64) = mask 22"
    by (simp_all add: dynamicMantissaMask_def mantissaSize_def dynamicExponentBits_def mask_eq_exp_minus_1)
  have c: "constExponentBits = push_bit 8 (mask 2)" "(3 :: u64) = mask 2"
    by (simp_all add: constExponentBits_def mask_eq_exp_minus_1)
  show "bit (drop_bit 60 y) n = bit (3 :: u64) n"
    unfolding y_def getFloatMask_def getStaticExponent_def Let_def m c staticExponentBits_def dynamicExponentBits_def mantissaSize_def
    using bit_imp_le_length [of w "n + 64"]
    by (auto simp: bit_drop_bit_eq bit_or_iff bit_and_iff bit_push_bit_iff bit_mask_iff dest: bit_imp_le_length)
qed

lemma masked_exponent: "drop_bit 60 y = (3 :: u64) \<Longrightarrow> 0x300 \<le> sign_exponent y \<and> sign_exponent y \<le> 0x3FF"
proof -
  assume "drop_bit 60 y = 3"
  then have "unat (drop_bit 60 y) = 3" by simp
  then have "unat y div 2 ^ 60 = 3" by (simp add: drop_bit_eq_div unat_div_distrib)
  moreover have "unat y div 2 ^ 60 = sign_exponent y div 2 ^ 8" by (simp add: sign_exponent_def div_mult2_eq [symmetric])
  ultimately have "sign_exponent y div 256 = 3" by simp
  then show ?thesis using div_mult_mod_eq [of "sign_exponent y" 256] mod_less_divisor [of 256 "sign_exponent y"] by linarith
qed

subsection \<open>The properties\<close>

text \<open>
  C26. \<open>initialize\<close> leaves the machine in range for every program: the registers that select the
  addresses are four different ones, one of each pair; the first dataset line and the dataset
  offset are multiples of 64 whose sum, with room for a line, is inside the dataset; the constants
  of group \<open>a\<close> are doubles from 1 to below \<open>2^32\<close>.
\<close>

theorem initialize_in_range:
  "readReg0 (vm_config (initialize s)) \<in> {0, 1} \<and> readReg1 (vm_config (initialize s)) \<in> {2, 3} \<and>
   readReg2 (vm_config (initialize s)) \<in> {4, 5} \<and> readReg3 (vm_config (initialize s)) \<in> {6, 7} \<and>
   64 dvd unat (ma (vm_mem (initialize s))) \<and> 64 dvd unat (datasetOffset (initialize s)) \<and>
   unat (datasetOffset (initialize s)) + unat (ma (vm_mem (initialize s))) + 64 \<le> 2147483648 + 33554368 \<and>
   list_all (\<lambda>(lo, hi). 1023 \<le> sign_exponent lo \<and> sign_exponent lo < 1023 + 32 \<and> 1023 \<le> sign_exponent hi \<and> sign_exponent hi < 1023 + 32)
     (rf_a (vm_reg (initialize s)))"
proof -
  have reg: "unat (0 + (x AND 1) :: u64) \<in> {0, 1}" "unat (2 + (x AND 1) :: u64) \<in> {2, 3}" "unat (4 + (x AND 1) :: u64) \<in> {4, 5}"
    "unat (6 + (x AND 1) :: u64) \<in> {6, 7}" for x
    using and_1_cases [of x] by auto
  have "readReg0 (vm_config (initialize s)) \<in> {0, 1}" "readReg1 (vm_config (initialize s)) \<in> {2, 3}"
    "readReg2 (vm_config (initialize s)) \<in> {4, 5}" "readReg3 (vm_config (initialize s)) \<in> {6, 7}"
    by (cases s; simp only: initialize_def Let_def vm.simps ProgramConfiguration.simps reg)+
  moreover have "list_all (\<lambda>(lo, hi). 1023 \<le> sign_exponent lo \<and> sign_exponent lo < 1023 + 32 \<and> 1023 \<le> sign_exponent hi \<and> sign_exponent hi < 1023 + 32)
     (rf_a (vm_reg (initialize s)))"
    using small_float_exponent [THEN conjunct1] small_float_exponent [THEN conjunct2, THEN le_imp_less_Suc]
    by (simp add: initialize_def Let_def list_all_iff del: upt_rec_numeral)
  moreover note initialize_ranges(2,3) [of s]
  ultimately show ?thesis
    by (simp add: line_ok_def offset_ok_def DatasetBaseSize_def DatasetExtraSize_def)
qed

text \<open>
  The operands that can be divisors are well behaved: whatever the 64 bits \<open>x\<close> read from memory
  and the entropy are, a component that \<open>maskRegisterExponentMantissa\<close> produces with a mask of
  \<open>getFloatMask\<close> is a positive, normal, finite double, with an exponent from \<open>0x300\<close> to \<open>0x3FF\<close>.
\<close>

theorem masked_registers_positive:
  "eMask config = (getFloatMask w0, getFloatMask w1) \<Longrightarrow> maskRegisterExponentMantissa config x = (lo, hi) \<Longrightarrow>
   0x300 \<le> sign_exponent lo \<and> sign_exponent lo \<le> 0x3FF \<and> 0x300 \<le> sign_exponent hi \<and> sign_exponent hi \<le> 0x3FF"
  using masked_exponent [OF float_mask_bits [of "fst x" w0]] masked_exponent [OF float_mask_bits [of "snd x" w1]]
  by (auto simp: maskRegisterExponentMantissa_def vec2_def rx_set_vec_f128_def Let_def)

text \<open>
  C6. A whole run of the interpreter - the set-up, the compilation of the program and all its
  iterations, each with the bytecode, the dataset line and the scratchpad - returns for every
  program whatever its bytes are: no access leaves the scratchpad, the register file or the
  dataset, and the sizes are kept.
\<close>

theorem vm_run_safe:
  assumes "config_ok cfg" and "length memory = dataset_size" and "length (vm_scratchpad s) = unat (ScratchpadL3_Size cfg)"
    and "length f0 = 4" and "length e0 = 4" and "ProgramSize cfg \<le> length bc0"
  shows "\<exists>s'. run_program F cfg (datasetRead memory) f0 e0 bc0 s = Some s' \<and>
    length (vm_scratchpad s') = length (vm_scratchpad s) \<and> length (rf_r (vm_reg s')) = 8 \<and>
    length (rf_f (vm_reg s')) = 4 \<and> length (rf_e (vm_reg s')) = 4 \<and> rf_a (vm_reg s') = rf_a (vm_reg (initialize s))"
proof -
  have "vm_scratchpad (initialize s) = vm_scratchpad s" by (simp add: initialize_def Let_def)
  then show ?thesis
    using full.execute_returns [OF assms(2,1) initialize_ranges(1,3,2,4) assms(4-6), of s F] assms(3)
    by (auto simp: run_program_def returns_def)
qed

theorem vm_run_safe_witness:
  "\<exists>s'. run_program bit_fpu small_config (datasetRead (replicate dataset_size 5)) (replicate 4 (1, 2)) (replicate 4 (3, 4)) (replicate 3 any_slot)
      \<lparr>vm_program = replicate 3000 9, vm_reg = \<lparr>rf_r = [], rf_f = [], rf_e = [], rf_a = []\<rparr>,
       vm_config = \<lparr>eMask = (0, 0), readReg0 = 9, readReg1 = 9, readReg2 = 9, readReg3 = 9\<rparr>,
       vm_mem = \<lparr>mx = 1, ma = 1\<rparr>, vm_scratchpad = replicate 64 1, datasetOffset = 7, vm_mxcsr = 0\<rparr> = Some s' \<and>
    length (vm_scratchpad s') = 64"
  using vm_run_safe [OF small_config_ok(1), of "replicate dataset_size 5"
      "\<lparr>vm_program = replicate 3000 9, vm_reg = \<lparr>rf_r = [], rf_f = [], rf_e = [], rf_a = []\<rparr>,
       vm_config = \<lparr>eMask = (0, 0), readReg0 = 9, readReg1 = 9, readReg2 = 9, readReg3 = 9\<rparr>,
       vm_mem = \<lparr>mx = 1, ma = 1\<rparr>, vm_scratchpad = replicate 64 1, datasetOffset = 7, vm_mxcsr = 0\<rparr>"
      "replicate 4 (1, 2)" "replicate 4 (3, 4)" "replicate 3 any_slot" bit_fpu]
  by (auto simp: small_config_ok)

end
