(* ===== verification/Dataset.thy ===== *)
theory Dataset
  imports Superscalar_Safety Rx_Vm_Safety
begin

text \<open>
  The dataset of RandomX (\<open>dataset.cpp\<close>): its items, each computed from the cache with the superscalar
  programs; its initialisation by several threads (\<open>RxDataset.cpp\<close>); and the light machine
  (\<open>vm_interpreted_light.cpp\<close>), which computes an item whenever it is read. The Argon2 fill of the
  cache memory is code of a third party: \<open>argon2\<close>, an argument of \<open>initCache\<close>.
\<close>

subsection \<open>The cache\<close>

record randomx_cache =
  cache_memory :: bytes
  programs :: "SuperscalarProgram list"

fun init_programs :: "(bytes \<Rightarrow> bytes) \<Rightarrow> nat list \<Rightarrow> randomx_cache \<Rightarrow> Blake2Generator \<Rightarrow> randomx_cache option" where
  "init_programs H [] cache gen = Some cache"
| "init_programs H (i # is) cache gen = do {
     prog0 \<leftarrow> nth_opt (programs cache) i;
     (prog, gen) \<leftarrow> generateSuperscalar H prog0 gen;
     init_programs H is (cache\<lparr>programs := (programs cache)[i := prog]\<rparr>) gen
   }"

text \<open>\<open>argon2 cfg key memory\<close>: \<open>memory\<close> after \<open>argon2_ctx_mem\<close>. \<open>data0\<close> is the indeterminate block of the generator.\<close>

definition initCache :: "(RandomX_Configuration \<Rightarrow> bytes \<Rightarrow> bytes \<Rightarrow> bytes) \<Rightarrow> (bytes \<Rightarrow> bytes) \<Rightarrow> RandomX_Configuration \<Rightarrow>
    bytes \<Rightarrow> randomx_cache \<Rightarrow> bytes \<Rightarrow> randomx_cache option" where
  "initCache argon2 H cfg data0 cache key =
     (let cache = cache\<lparr>cache_memory := argon2 cfg key (cache_memory cache)\<rparr>;
          gen = Blake2Generator_init data0 key 0
      in init_programs H [0..<CacheAccesses] cache gen)"

subsection \<open>Dataset items\<close>

definition superscalarMul0 :: u64 where "superscalarMul0 = 6364136223846793005"
definition superscalarAdd1 :: u64 where "superscalarAdd1 = 9298411001130361340"
definition superscalarAdd2 :: u64 where "superscalarAdd2 = 12065312585734608966"
definition superscalarAdd3 :: u64 where "superscalarAdd3 = 9306329213124626780"
definition superscalarAdd4 :: u64 where "superscalarAdd4 = 5281919268842080866"
definition superscalarAdd5 :: u64 where "superscalarAdd5 = 10536153434571861004"
definition superscalarAdd6 :: u64 where "superscalarAdd6 = 3398623926847679864"
definition superscalarAdd7 :: u64 where "superscalarAdd7 = 9549104520008361294"

text \<open>The offset of the block in the cache.\<close>

definition getMixBlock :: "u64 \<Rightarrow> nat" where
  "getMixBlock registerValue =
     (let mask = ucast (ArgonMemory * ucast ArgonBlockSize div of_nat CacheLineSize - 1) :: u32
      in unat ((registerValue AND ucast mask) * of_nat CacheLineSize))"

definition dataset_start :: "u64 \<Rightarrow> u64 list" where
  "dataset_start itemNumber =
     (let r0 = (itemNumber + 1) * superscalarMul0
      in [r0, r0 XOR superscalarAdd1, r0 XOR superscalarAdd2, r0 XOR superscalarAdd3, r0 XOR superscalarAdd4,
          r0 XOR superscalarAdd5, r0 XOR superscalarAdd6, r0 XOR superscalarAdd7])"

definition dataset_mix :: "randomx_cache \<Rightarrow> nat \<Rightarrow> u64 list \<times> u64 \<Rightarrow> (u64 list \<times> u64) option" where
  "dataset_mix cache i = (\<lambda>(rl, registerValue). do {
     let mixBlock = getMixBlock registerValue;
     prog \<leftarrow> nth_opt (programs cache) i;
     rl \<leftarrow> executeSuperscalar rl prog;
     block \<leftarrow> sp_items (cache_memory cache) mixBlock 8 8;
     let rl = map2 (\<lambda>x b. x XOR load64_native b) rl block;
     registerValue \<leftarrow> (if 0 \<le> addrReg prog then nth_opt rl (nat (addrReg prog)) else None);
     Some (rl, registerValue)
   })"

fun dataset_mixes :: "randomx_cache \<Rightarrow> nat list \<Rightarrow> u64 list \<times> u64 \<Rightarrow> (u64 list \<times> u64) option" where
  "dataset_mixes cache [] s = Some s"
| "dataset_mixes cache (i # is) s = Option.bind (dataset_mix cache i s) (dataset_mixes cache is)"

definition initDatasetItem :: "randomx_cache \<Rightarrow> bytes \<Rightarrow> nat \<Rightarrow> u64 \<Rightarrow> bytes option" where
  "initDatasetItem cache mem out itemNumber = do {
     (rl, _) \<leftarrow> dataset_mixes cache [0..<CacheAccesses] (dataset_start itemNumber, itemNumber);
     store_at mem out (concat (map store64_native rl))
   }"

text \<open>\<open>dataset\<close> is the offset of the pointer of that name.\<close>

function initDataset :: "randomx_cache \<Rightarrow> bytes \<Rightarrow> nat \<Rightarrow> nat \<Rightarrow> nat \<Rightarrow> bytes option" where
  "initDataset cache mem dataset itemNumber endItem =
     (if itemNumber < endItem then do {
        mem \<leftarrow> initDatasetItem cache mem dataset (of_nat itemNumber);
        initDataset cache mem (dataset + CacheLineSize) (itemNumber + 1) endItem
      } else Some mem)"
  by pat_completeness auto

termination initDataset
  by (relation "measure (\<lambda>(_, _, _, i, e). e - i)") auto

declare initDataset.simps [simp del]

subsection \<open>Initialisation of the whole dataset\<close>

definition DatasetItemCount :: nat where
  "DatasetItemCount = unat ((DatasetBaseSize + DatasetExtraSize) div RANDOMX_DATASET_ITEM_SIZE)"

text \<open>A failed assertion is \<^term>\<open>None\<close>.\<close>

definition randomx_init_dataset :: "bytes \<Rightarrow> randomx_cache \<Rightarrow> nat \<Rightarrow> nat \<Rightarrow> bytes option" where
  "randomx_init_dataset dataset cache startItem itemCount =
     (if startItem < DatasetItemCount \<and> itemCount \<le> DatasetItemCount \<and> startItem + itemCount \<le> DatasetItemCount
      then initDataset cache dataset (startItem * CacheLineSize) startItem (startItem + itemCount)
      else None)"

text \<open>The start of the second call wraps around, and fails the assertion, when it would be negative.\<close>

definition init_dataset_wrapper :: "bool \<Rightarrow> bytes \<Rightarrow> randomx_cache \<Rightarrow> nat \<Rightarrow> nat \<Rightarrow> bytes option" where
  "init_dataset_wrapper hasAVX2 dataset cache startItem itemCount =
     (if hasAVX2 \<and> itemCount mod 5 \<noteq> 0 then do {
        dataset \<leftarrow> randomx_init_dataset dataset cache startItem (itemCount - itemCount mod 5);
        if startItem + itemCount < 5 then None else randomx_init_dataset dataset cache (startItem + itemCount - 5) 5
      } else randomx_init_dataset dataset cache startItem itemCount)"

text \<open>The bounds of the range of thread \<open>i\<close>.\<close>

definition thread_bound :: "u64 \<Rightarrow> u32 \<Rightarrow> u64 \<Rightarrow> u32" where
  "thread_bound datasetItemCount numThreads i = ucast ((datasetItemCount * i) div ucast numThreads)"

text \<open>The ranges (start and number of items) that \<open>RxDataset::init\<close> hands to the wrapper, one per thread.\<close>

definition init_ranges :: "u32 \<Rightarrow> (nat \<times> nat) list" where
  "init_ranges numThreads =
     (let datasetItemCount = of_nat DatasetItemCount
      in if numThreads > 1 then
           map (\<lambda>i. let a = thread_bound datasetItemCount numThreads (of_nat i);
                        b = thread_bound datasetItemCount numThreads (of_nat i + 1)
                    in (unat a, unat (b - a))) [0..<unat numThreads]
         else [(0, DatasetItemCount)])"

subsection \<open>The light machine\<close>

text \<open>\<open>rl0\<close> is the indeterminate array on the stack that receives the item.\<close>

definition light_datasetRead :: "bytes \<Rightarrow> randomx_cache \<Rightarrow> u64 \<Rightarrow> u64 list option" where
  "light_datasetRead rl0 cache address = do {
     let itemNumber = (ucast (address div of_nat CacheLineSize) :: u32);
     rl \<leftarrow> initDatasetItem cache rl0 0 (ucast itemNumber);
     map_option (map load64) (sp_items rl 0 8 8)
   }"

subsection \<open>Items are always computed\<close>

definition cache_ok :: "randomx_cache \<Rightarrow> bool" where
  "cache_ok cache \<longleftrightarrow> length (cache_memory cache) = 268435456 \<and> CacheAccesses \<le> length (programs cache) \<and>
     (\<forall>i<CacheAccesses. superscalar_ok (programs cache ! i))"

lemma getMixBlock_range: "getMixBlock v + 64 \<le> 268435456"
proof -
  have m: "(ucast (ArgonMemory * ucast ArgonBlockSize div of_nat CacheLineSize - 1) :: u32) = mask 22"
    by (simp add: ArgonMemory_def ArgonBlockSize_def CacheLineSize_def RANDOMX_DATASET_ITEM_SIZE_def mask_eq_exp_minus_1)
  have "v AND ucast (mask 22 :: u32) = take_bit 22 v"
    by (rule bit_word_eqI) (auto simp: bit_and_iff bit_unsigned_iff bit_mask_iff bit_take_bit_iff)
  moreover have l: "unat (take_bit 22 v) < 2 ^ 22" by (simp add: unsigned_take_bit_eq take_bit_nat_less_exp [of 22, simplified])
  then have "unat (take_bit 22 v * 64) = unat (take_bit 22 v) * 64" by (simp add: unat_word_ariths)
  ultimately show ?thesis using l unfolding getMixBlock_def Let_def m by (simp add: CacheLineSize_def RANDOMX_DATASET_ITEM_SIZE_def)
qed

lemma dataset_mix_returns:
  assumes "cache_ok cache" and "i < CacheAccesses" and "length rl = 8"
  shows "returns (dataset_mix cache i (rl, v)) (\<lambda>(rl', v'). length rl' = 8)"
proof -
  let ?p = "programs cache ! i"
  have p: "superscalar_ok ?p" "i < length (programs cache)" using assms(1,2) by (auto simp: cache_ok_def)
  obtain r where r: "executeSuperscalar rl ?p = Some r" "length r = 8"
    using executeSuperscalar_returns [OF p(1) assms(3)] by (auto simp: returns_def)
  have "getMixBlock v + 64 \<le> length (cache_memory cache)" using assms(1) getMixBlock_range [of v] by (simp add: cache_ok_def)
  then have "\<exists>b. sp_items (cache_memory cache) (getMixBlock v) 8 8 = Some b \<and> length b = 8"
    by (simp add: sp_items_def load_at_def)
  then obtain b where b: "sp_items (cache_memory cache) (getMixBlock v) 8 8 = Some b" "length b = 8" by blast
  have "0 \<le> addrReg ?p" "nat (addrReg ?p) < 8" using p(1) by (simp_all add: superscalar_ok_def nat_less_iff)
  then show ?thesis using p(2) r b by (simp add: dataset_mix_def nth_opt_def Let_def returns_Some_iff)
qed

lemma dataset_mixes_returns:
  assumes "cache_ok cache"
  shows "(\<And>i. i \<in> set is \<Longrightarrow> i < CacheAccesses) \<Longrightarrow> length rl = 8 \<Longrightarrow> returns (dataset_mixes cache is (rl, v)) (\<lambda>(rl', v'). length rl' = 8)"
proof (induction "is" arbitrary: rl v)
  case (Cons i "is")
  then obtain rl1 v1 where "dataset_mix cache i (rl, v) = Some (rl1, v1)" "length rl1 = 8"
    using dataset_mix_returns [OF assms, of i rl v] by (auto simp: returns_def)
  with Cons show ?case by simp
qed (simp add: returns_Some_iff)

text \<open>The words and the bytes of an item.\<close>

definition item_words :: "randomx_cache \<Rightarrow> u64 \<Rightarrow> u64 list" where
  "item_words cache n =
     (case dataset_mixes cache [0..<CacheAccesses] (dataset_start n, n) of None \<Rightarrow> [] | Some (rl, v) \<Rightarrow> rl)"

definition item_bytes :: "randomx_cache \<Rightarrow> u64 \<Rightarrow> bytes" where
  "item_bytes cache n = concat (map store64_native (item_words cache n))"

lemma item_words:
  assumes "cache_ok cache"
  shows "length (item_words cache n) = 8"
    and "initDatasetItem cache mem out n = store_at mem out (item_bytes cache n)"
proof -
  have "length (dataset_start n) = 8" by (simp add: dataset_start_def Let_def)
  from dataset_mixes_returns [OF assms _ this, of "[0..<CacheAccesses]" n] obtain rl v where
    "dataset_mixes cache [0..<CacheAccesses] (dataset_start n, n) = Some (rl, v)" "length rl = 8"
    by (auto simp: returns_def)
  then show "length (item_words cache n) = 8" "initDatasetItem cache mem out n = store_at mem out (item_bytes cache n)"
    by (simp_all add: item_words_def item_bytes_def initDatasetItem_def)
qed

lemma length_item_bytes: "cache_ok cache \<Longrightarrow> length (item_bytes cache n) = 64"
proof -
  assume "cache_ok cache"
  then have "length (item_words cache n) = 8" by (rule item_words(1))
  moreover have "length (concat (map store64_native xs)) = 8 * length xs" for xs
    by (induction xs) (simp_all add: store64_native_def)
  ultimately show ?thesis by (simp add: item_bytes_def)
qed

text \<open>Reading the words of an item back.\<close>

lemma sp_items_words:
  assumes "length ws = 8" and "take 64 (drop off m) = concat (map store64_native ws)" and "off + 64 \<le> length m"
  shows "map_option (map load64) (sp_items m off 8 8) = Some ws"
proof -
  have c: "take 8 (drop (8 * i) (concat (map store64_native ws))) = store64_native (ws ! i)" if "i < length ws" for i
    using that
  proof (induction ws arbitrary: i)
    case (Cons w ws)
    then show ?case by (cases i) (simp_all add: store64_native_def)
  qed simp
  have "load64 (store64_native w) = w" for w using load64_store64 [of w] by (simp add: store64_def)
  then show ?thesis using assms c
    by (auto simp: sp_items_def load_at_def intro!: nth_equalityI simp del: upt_rec_numeral)
qed

subsection \<open>Writing items in any order\<close>

fun init_items :: "randomx_cache \<Rightarrow> nat list \<Rightarrow> bytes \<Rightarrow> bytes option" where
  "init_items cache [] mem = Some mem"
| "init_items cache (n # ns) mem = Option.bind (initDatasetItem cache mem (64 * n) (of_nat n)) (init_items cache ns)"

lemma init_items_append: "init_items cache (xs @ ys) mem = Option.bind (init_items cache xs mem) (init_items cache ys)"
proof (induction xs arbitrary: mem)
  case (Cons x xs)
  then show ?case by (cases "initDatasetItem cache mem (64 * x) (of_nat x)") simp_all
qed simp

lemma CacheLineSize_64: "CacheLineSize = 64"
  by (simp add: CacheLineSize_def RANDOMX_DATASET_ITEM_SIZE_def)

lemma initDataset_items: "initDataset cache mem (64 * a) a b = init_items cache [a..<b] mem"
proof (induction "b - a" arbitrary: a mem)
  case 0
  then show ?case by (simp add: initDataset.simps)
next
  case (Suc k)
  then have a: "a < b" by simp
  have "initDataset cache m (64 * a + CacheLineSize) (Suc a) b = init_items cache [Suc a..<b] m" for m
    using Suc.hyps(1) [of "Suc a" m] Suc.hyps(2) by (simp add: CacheLineSize_64 algebra_simps)
  then show ?case using a by (simp add: initDataset.simps [of _ _ _ a] upt_conv_Cons)
qed

definition block :: "bytes \<Rightarrow> nat \<Rightarrow> bytes" where "block m n = take 64 (drop (64 * n) m)"

lemma block_memcpy:
  assumes "64 * n + 64 \<le> length m" and "length b = 64" and "64 * k + 64 \<le> length m"
  shows "block (memcpy_at m (64 * n) b 64) k = (if k = n then b else block m k)"
proof (rule nth_equalityI)
  show "length (block (memcpy_at m (64 * n) b 64) k) = length (if k = n then b else block m k)"
    using assms by (simp add: block_def)
  fix i assume "i < length (block (memcpy_at m (64 * n) b 64) k)"
  then have "i < 64" using assms by (simp add: block_def)
  then show "block (memcpy_at m (64 * n) b 64) k ! i = (if k = n then b else block m k) ! i"
    using assms by (cases k n rule: linorder_cases) (auto simp: block_def nth_memcpy_at)
qed

lemma blocks_eqI:
  assumes "length m = 64 * N" and "length m' = 64 * N" and "\<And>k. k < N \<Longrightarrow> block m k = block m' k"
  shows "m = m'"
proof (rule nth_equalityI)
  fix i assume "i < length m"
  then have i: "i div 64 < N" "i mod 64 < 64" "64 * (i div 64) + i mod 64 = i" using assms(1) by (simp_all add: less_mult_imp_div_less)
  then have "64 * (i div 64) + 64 \<le> 64 * N" by linarith
  then have "block m (i div 64) ! (i mod 64) = m ! i" "block m' (i div 64) ! (i mod 64) = m' ! i"
    using i assms(1,2) by (simp_all add: block_def)
  then show "m ! i = m' ! i" using assms(3) [OF i(1)] by simp
qed (use assms in simp)

lemma init_items_blocks:
  assumes "cache_ok cache"
  shows "(\<And>n. n \<in> set ns \<Longrightarrow> n < N) \<Longrightarrow> length mem = 64 * N \<Longrightarrow>
    \<exists>mem'. init_items cache ns mem = Some mem' \<and> length mem' = 64 * N \<and>
      (\<forall>k<N. block mem' k = (if k \<in> set ns then item_bytes cache (of_nat k) else block mem k))"
proof (induction ns arbitrary: mem)
  case (Cons n ns)
  have n: "64 * n + 64 \<le> length mem" using Cons.prems(1) [of n] Cons.prems(2) by simp
  let ?m = "memcpy_at mem (64 * n) (item_bytes cache (of_nat n)) 64"
  have s: "initDatasetItem cache mem (64 * n) (of_nat n) = Some ?m"
    using n by (simp add: item_words(2) [OF assms] store_at_def length_item_bytes [OF assms])
  have "length ?m = 64 * N" using Cons.prems(2) n by (simp add: length_item_bytes [OF assms])
  from Cons.IH [OF _ this] Cons.prems(1) obtain mem' where m': "init_items cache ns ?m = Some mem'" "length mem' = 64 * N"
    "\<forall>k<N. block mem' k = (if k \<in> set ns then item_bytes cache (of_nat k) else block ?m k)" by auto
  have "block ?m k = (if k = n then item_bytes cache (of_nat n) else block mem k)" if "k < N" for k
    using that Cons.prems(2) n by (intro block_memcpy) (simp_all add: length_item_bytes [OF assms])
  with m' s show ?case by auto
qed simp

lemma init_items_all:
  assumes "cache_ok cache" and "set ns = {0..<N}" and "length mem = 64 * N"
  shows "init_items cache ns mem = init_items cache [0..<N] mem"
proof -
  obtain m1 where 1: "init_items cache ns mem = Some m1" "length m1 = 64 * N"
    "\<forall>k<N. block m1 k = (if k \<in> set ns then item_bytes cache (of_nat k) else block mem k)"
    using init_items_blocks [OF assms(1) _ assms(3), of ns] assms(2) by auto
  obtain m2 where 2: "init_items cache [0..<N] mem = Some m2" "length m2 = 64 * N"
    "\<forall>k<N. block m2 k = (if k \<in> set [0..<N] then item_bytes cache (of_nat k) else block mem k)"
    using init_items_blocks [OF assms(1) _ assms(3), of "[0..<N]"] by auto
  have "m1 = m2" by (rule blocks_eqI [OF 1(2) 2(2)]) (simp add: 1(3) 2(3) assms(2))
  then show ?thesis by (simp add: 1(1) 2(1))
qed

subsection \<open>Threads\<close>

lemma DatasetItemCount_val: "DatasetItemCount = 34078719"
  by (simp add: DatasetItemCount_def DatasetBaseSize_def DatasetExtraSize_def RANDOMX_DATASET_ITEM_SIZE_def)

lemma dataset_size_items: "dataset_size = 64 * DatasetItemCount"
  by (simp add: dataset_size_def DatasetItemCount_val DatasetBaseSize_def DatasetExtraSize_def)

text \<open>The items that the wrapper writes, in order.\<close>

definition wrapper_items :: "bool \<Rightarrow> nat \<Rightarrow> nat \<Rightarrow> nat list" where
  "wrapper_items avx a n =
     (if avx \<and> n mod 5 \<noteq> 0 then [a..<a + (n - n mod 5)] @ [a + n - 5..<a + n] else [a..<a + n])"

lemma wrapper_init:
  assumes "a < DatasetItemCount" and "a + n \<le> DatasetItemCount" and "5 \<le> a + n"
  shows "init_dataset_wrapper avx mem cache a n = init_items cache (wrapper_items avx a n) mem"
proof -
  have r: "randomx_init_dataset m cache b k = init_items cache [b..<b + k] m" if "b < DatasetItemCount" "b + k \<le> DatasetItemCount" for m b k
    using that initDataset_items [of cache m b "b + k"] by (simp add: randomx_init_dataset_def CacheLineSize_64 mult.commute)
  have 2: "randomx_init_dataset m cache (a + n - 5) 5 = init_items cache [a + n - 5..<a + n] m" for m
    using r [of "a + n - 5" 5 m] assms by (simp add: DatasetItemCount_val)
  have "a + (n - n mod 5) \<le> DatasetItemCount" using assms(2) by simp
  note r1 = r [OF assms(1) this] r [OF assms(1,2)]
  show ?thesis using assms(3) by (simp add: init_dataset_wrapper_def wrapper_items_def r1 2 init_items_append)
qed

lemma wrapper_items_set:
  assumes "5 \<le> a + n" and "a + n \<le> N"
  shows "{a..<a + n} \<subseteq> set (wrapper_items avx a n)" and "set (wrapper_items avx a n) \<subseteq> {0..<N}"
proof -
  have "n mod 5 < 5" by simp
  then have c: "a + (n - n mod 5) \<ge> a + n - 5" by linarith
  have "n - n mod 5 \<le> n" by simp
  then show "{a..<a + n} \<subseteq> set (wrapper_items avx a n)" "set (wrapper_items avx a n) \<subseteq> {0..<N}"
    using c assms by (auto simp: wrapper_items_def)
qed

lemma unat_of_nat_small: "n < 2 ^ LENGTH('a) \<Longrightarrow> unat (of_nat n :: 'a::len word) = n"
  by (simp add: unsigned_of_nat take_bit_nat_eq_self)

lemma thread_bound_val:
  assumes "0 < numThreads" and "i \<le> unat numThreads"
  shows "unat (thread_bound (of_nat DatasetItemCount) numThreads (of_nat i)) = DatasetItemCount * i div unat numThreads"
    and "DatasetItemCount * i div unat numThreads \<le> DatasetItemCount"
proof -
  have n: "unat numThreads < 2 ^ 32" "0 < unat numThreads"
    using unsigned_less [of numThreads] assms(1) by (simp_all add: unat_gt_0 word_gt_0)
  then have i: "i < 2 ^ 32" using assms(2) by simp
  have "DatasetItemCount * i < 2 ^ 64" using i by (simp add: DatasetItemCount_val)
  then have m: "unat (of_nat DatasetItemCount * of_nat i :: u64) = DatasetItemCount * i"
    using unat_of_nat_small [where 'a = 64, of "DatasetItemCount * i"] by simp
  have u: "unat (ucast numThreads :: u64) = unat numThreads"
    using n by (simp add: unsigned_ucast_eq take_bit_nat_eq_self)
  have "DatasetItemCount * i \<le> DatasetItemCount * unat numThreads" using assms(2) by simp
  then have "DatasetItemCount * i div unat numThreads \<le> DatasetItemCount * unat numThreads div unat numThreads" by (rule div_le_mono)
  then show le: "DatasetItemCount * i div unat numThreads \<le> DatasetItemCount" using n(2) by simp
  then have l: "DatasetItemCount * i div unat numThreads < 2 ^ 32" by (simp add: DatasetItemCount_val)
  have "unat ((of_nat DatasetItemCount * of_nat i :: u64) div ucast numThreads) = DatasetItemCount * i div unat numThreads"
    unfolding unat_div m u ..
  with l show "unat (thread_bound (of_nat DatasetItemCount) numThreads (of_nat i)) = DatasetItemCount * i div unat numThreads"
    unfolding thread_bound_def unsigned_ucast_eq by (simp add: take_bit_nat_eq_self)
qed

text \<open>The ranges follow one another from the first item to the last.\<close>

lemma init_ranges_val:
  assumes "1 < numThreads"
  shows "init_ranges numThreads = map (\<lambda>i. (DatasetItemCount * i div unat numThreads,
      DatasetItemCount * (i + 1) div unat numThreads - DatasetItemCount * i div unat numThreads)) [0..<unat numThreads]"
proof -
  let ?b = "\<lambda>i. thread_bound (of_nat DatasetItemCount) numThreads (of_nat i)"
  have "0 < numThreads" using assms by (simp add: word_less_nat_alt)
  note v = thread_bound_val(1) [OF this]
  have "(unat (?b i), unat (thread_bound (of_nat DatasetItemCount) numThreads (of_nat i + 1) - ?b i)) = (DatasetItemCount * i div unat numThreads,
      DatasetItemCount * (i + 1) div unat numThreads - DatasetItemCount * i div unat numThreads)" if "i < unat numThreads" for i
  proof -
    have s: "of_nat i + 1 = (of_nat (i + 1) :: u64)" by simp
    have "DatasetItemCount * i div unat numThreads \<le> DatasetItemCount * (i + 1) div unat numThreads" by (intro div_le_mono) simp
    then have "?b i \<le> ?b (i + 1)" using v [of i] v [of "i + 1"] that by (simp add: word_le_nat_alt)
    then have "unat (?b (i + 1) - ?b i) = unat (?b (i + 1)) - unat (?b i)" by (rule unat_sub)
    then show ?thesis using v [of i] v [of "i + 1"] that unfolding s by simp
  qed
  then show ?thesis using assms by (simp add: init_ranges_def Let_def)
qed

lemma init_ranges_ok:
  assumes "5 * unat numThreads \<le> DatasetItemCount" and "(a, n) \<in> set (init_ranges numThreads)"
  shows "a < DatasetItemCount" "a + n \<le> DatasetItemCount" "5 \<le> a + n"
proof -
  consider "1 < numThreads" | "numThreads \<le> 1" by fastforce
  then have "a < DatasetItemCount \<and> a + n \<le> DatasetItemCount \<and> 5 \<le> a + n"
  proof cases
    case 1
    let ?N = DatasetItemCount and ?n = "unat numThreads"
    have n: "0 < ?n" "0 < numThreads" using 1 by (simp_all add: word_less_nat_alt)
    obtain i where i: "i < ?n" "a = ?N * i div ?n" "n = ?N * (i + 1) div ?n - ?N * i div ?n"
      using assms(2) by (auto simp: init_ranges_val [OF 1])
    have le: "?N * i div ?n \<le> ?N * (i + 1) div ?n" by (intro div_le_mono) simp
    then have e: "a + n = ?N * (i + 1) div ?n" using i by simp
    have "?N * i < ?N * ?n" using i(1) by (simp add: DatasetItemCount_val)
    then have "a < ?N" using n(1) i(2) by (simp add: less_mult_imp_div_less mult.commute)
    moreover have "a + n \<le> ?N" using thread_bound_val(2) [OF n(2), of "i + 1"] i(1) e by simp
    moreover have "5 * ?n \<le> ?N * (i + 1)" using assms(1) by simp
    then have "5 \<le> a + n" using n(1) e by (simp add: less_eq_div_iff_mult_less_eq)
    ultimately show ?thesis by simp
  next
    case 2
    then have "\<not> 1 < numThreads" by simp
    then show ?thesis using assms(2) by (simp add: init_ranges_def DatasetItemCount_val)
  qed
  then show "a < DatasetItemCount" "a + n \<le> DatasetItemCount" "5 \<le> a + n" by simp_all
qed

lemma init_ranges_cover:
  assumes "k < DatasetItemCount"
  shows "\<exists>(a, n) \<in> set (init_ranges numThreads). a \<le> k \<and> k < a + n"
proof (cases "1 < numThreads")
  case True
  let ?N = DatasetItemCount and ?n = "unat numThreads"
  let ?b = "\<lambda>i. ?N * i div ?n"
  have n: "0 < ?n" using True by (simp add: word_less_nat_alt)
  have "\<exists>i<m. ?b i \<le> k \<and> k < ?b (i + 1)" if "k < ?b m" for m
    using that
  proof (induction m)
    case (Suc m)
    then show ?case by (cases "k < ?b m") (auto intro: less_SucI)
  qed simp
  from this [of ?n] n assms obtain i where i: "i < ?n" "?b i \<le> k" "k < ?b (i + 1)" by auto
  have "?b i \<le> ?b (i + 1)" by (intro div_le_mono) simp
  then have "(?b i, ?b (i + 1) - ?b i) \<in> set (init_ranges numThreads) \<and> ?b i \<le> k \<and> k < ?b i + (?b (i + 1) - ?b i)"
    using i by (auto simp: init_ranges_val [OF True])
  then show ?thesis by blast
next
  case False
  then show ?thesis using assms by (simp add: init_ranges_def)
qed

subsection \<open>Reading the dataset\<close>

lemma address_item:
  assumes "address_ok a"
  shows "unat a = 64 * (unat a div 64)" and "unat a div 64 < DatasetItemCount"
    and "ucast (ucast (a div of_nat CacheLineSize) :: u32) = (of_nat (unat a div 64) :: u64)"
proof -
  show e: "unat a = 64 * (unat a div 64)" using assms by (simp add: address_ok_def)
  have "unat a + 64 \<le> 64 * DatasetItemCount" using assms by (simp add: address_ok_def dataset_size_items)
  with e show l: "unat a div 64 < DatasetItemCount" by linarith
  have "unat (a div of_nat CacheLineSize) = unat a div 64" by (simp add: CacheLineSize_64 unat_div)
  then have "unat (ucast (ucast (a div of_nat CacheLineSize) :: u32) :: u64) = unat a div 64"
    using l by (simp add: unsigned_ucast_eq unsigned_take_bit_eq take_bit_nat_eq_self DatasetItemCount_val)
  moreover have "unat (of_nat (unat a div 64) :: u64) = unat a div 64"
    using l by (intro unat_of_nat_small) (simp add: DatasetItemCount_val)
  ultimately show "ucast (ucast (a div of_nat CacheLineSize) :: u32) = (of_nat (unat a div 64) :: u64)"
    by (simp add: word_unat_eq_iff)
qed

lemma light_item:
  assumes "cache_ok cache" and "length rl0 = 64" and "address_ok a"
  shows "light_datasetRead rl0 cache a = Some (item_words cache (of_nat (unat a div 64)))"
proof -
  let ?n = "of_nat (unat a div 64) :: u64"
  have l: "length (item_bytes cache ?n) = 64" by (rule length_item_bytes [OF assms(1)])
  have "initDatasetItem cache rl0 0 ?n = Some (item_bytes cache ?n)"
    using l assms(2) by (simp add: item_words(2) [OF assms(1)] store_at_def memcpy_at_def)
  moreover have "map_option (map load64) (sp_items (item_bytes cache ?n) 0 8 8) = Some (item_words cache ?n)"
    using l by (intro sp_items_words item_words(1) [OF assms(1)]) (simp_all add: item_bytes_def [symmetric])
  ultimately show ?thesis by (simp add: light_datasetRead_def address_item(3) [OF assms(3)])
qed

lemma full_item:
  assumes "cache_ok cache" and "length mem = dataset_size" and "initDataset cache mem 0 0 DatasetItemCount = Some D" and "address_ok a"
  shows "datasetRead D a = Some (item_words cache (of_nat (unat a div 64)))" and "length D = dataset_size"
proof -
  let ?k = "unat a div 64"
  have "init_items cache [0..<DatasetItemCount] mem = Some D"
    using assms(3) initDataset_items [of cache mem 0 DatasetItemCount] by simp
  with init_items_blocks [OF assms(1), of "[0..<DatasetItemCount]" DatasetItemCount mem] assms(2)
  have D: "length D = 64 * DatasetItemCount" "\<forall>k<DatasetItemCount. block D k = item_bytes cache (of_nat k)"
    by (auto simp: dataset_size_items)
  show "length D = dataset_size" using D(1) by (simp add: dataset_size_items)
  have "take 64 (drop (unat a) D) = concat (map store64_native (item_words cache (of_nat ?k)))"
    using D(2) [rule_format, OF address_item(2) [OF assms(4)]] address_item(1) [OF assms(4), symmetric]
    by (simp add: block_def item_bytes_def)
  moreover have "unat a + 64 \<le> length D" using assms(4) D(1) by (simp add: address_ok_def dataset_size_items)
  ultimately show "datasetRead D a = Some (item_words cache (of_nat ?k))"
    unfolding datasetRead_def RegistersCount_def by (intro sp_items_words item_words(1) [OF assms(1)])
qed

text \<open>The light machine provides the interface of the main loop.\<close>

interpretation light: dataset_reader "light_datasetRead (replicate 64 0)" cache_ok
  by unfold_locales (simp add: light_item item_words(1) returns_Some_iff)

text \<open>Two readers that agree inside the dataset give the same run.\<close>

lemma iterations_cong:
  assumes r: "\<And>a. address_ok a \<Longrightarrow> read1 a = read2 a" and off: "offset_ok offset"
  shows "line_ok (ma mem) \<Longrightarrow> iterations n (iteration F cfg read1 config offset bc) (a0, a1, mem, st) =
    iterations n (iteration F cfg read2 config offset bc) (a0, a1, mem, st)"
proof (induction n arbitrary: a0 a1 mem st)
  case (Suc n)
  have e: "iteration F cfg read1 config offset bc (a0, a1, mem, st) = iteration F cfg read2 config offset bc (a0, a1, mem, st)"
    using r [OF address_sum [OF off Suc.prems]] by (simp add: iteration_def)
  show ?case
  proof (cases "iteration F cfg read2 config offset bc (a0, a1, mem, st)")
    case None
    then show ?thesis by (simp add: e)
  next
    case (Some s')
    obtain a0' a1' mem' st' where s': "s' = (a0', a1', mem', st')" by (cases s')
    have "line_ok (ma mem')"
      using Some s' by (auto simp: iteration_def Let_def line_ok_mask split: Option.bind_split_asm)
    then show ?thesis using Suc.IH by (simp add: e Some s')
  qed
qed simp

lemma run_program_cong:
  assumes "\<And>a. address_ok a \<Longrightarrow> read1 a = read2 a"
  shows "run_program F cfg read1 f0 e0 bc0 s = run_program F cfg read2 f0 e0 bc0 s"
  using iterations_cong [OF assms initialize_ranges(3) [of s] initialize_ranges(2) [of s]]
  by (simp add: run_program_def execute_def Let_def)

subsection \<open>The set-up of the cache\<close>

lemma init_programs_yields:
  assumes "hash_ok H"
  shows "\<forall>i\<in>set is. i < length (programs cache) \<and> SuperscalarMaxSize \<le> length (ss_programBuffer (programs cache ! i)) \<Longrightarrow> distinct is \<Longrightarrow>
    gen_ok gen \<Longrightarrow> yields (\<not> productive H) (init_programs H is cache gen) (\<lambda>cache'. cache_memory cache' = cache_memory cache \<and>
      length (programs cache') = length (programs cache) \<and> (\<forall>i\<in>set is. superscalar_ok (programs cache' ! i)) \<and>
      (\<forall>i. i \<notin> set is \<longrightarrow> programs cache' ! i = programs cache ! i))"
proof (induction "is" arbitrary: cache gen)
  case (Cons i "is")
  let ?p = "programs cache ! i"
  have i: "i < length (programs cache)" "SuperscalarMaxSize \<le> length (ss_programBuffer ?p)" "i \<notin> set is" using Cons.prems by simp_all
  have g: "yields (\<not> productive H) (generateSuperscalar H ?p gen) (\<lambda>(prog, gen). superscalar_ok prog \<and> gen_ok gen)"
    using generateSuperscalar_yields [OF assms Cons.prems(3) i(2)] .
  show ?case
  proof (cases "generateSuperscalar H ?p gen")
    case None
    then show ?thesis using g i(1) by (simp add: nth_opt_def yields_def)
  next
    case (Some r)
    obtain prog gen' where r: "r = (prog, gen')" by (cases r)
    then have ok: "superscalar_ok prog" "gen_ok gen'" using g Some by (simp_all add: yields_Some)
    let ?c = "cache\<lparr>programs := (programs cache)[i := prog]\<rparr>"
    have "\<forall>j\<in>set is. j < length (programs ?c) \<and> SuperscalarMaxSize \<le> length (ss_programBuffer (programs ?c ! j))"
      using Cons.prems(1) i(3) by (auto simp: nth_list_update)
    note c = Cons.IH [OF this _ ok(2)]
    have "init_programs H (i # is) cache gen = init_programs H is ?c gen'" using Some r i(1) by (simp add: nth_opt_def)
    then show ?thesis using c Cons.prems(2) ok(1) i by (auto elim!: yields_mono)
  qed
qed (simp add: yields_Some)

text \<open>The caches that \<open>initCache\<close> starts from: allocated, with room for the programs.\<close>

definition cache_allocated :: "randomx_cache \<Rightarrow> bool" where
  "cache_allocated cache \<longleftrightarrow> length (cache_memory cache) = 268435456 \<and> CacheAccesses \<le> length (programs cache) \<and>
     (\<forall>i<CacheAccesses. SuperscalarMaxSize \<le> length (ss_programBuffer (programs cache ! i)))"

definition zero_cache :: randomx_cache where
  "zero_cache = \<lparr>cache_memory = replicate 268435456 0, programs = replicate 16 empty_program\<rparr>"

lemma zero_cache_ok: "cache_ok zero_cache" "cache_allocated zero_cache"
  by (simp_all add: cache_ok_def cache_allocated_def zero_cache_def CacheAccesses_def empty_program_ok)

subsection \<open>The properties\<close>

text \<open>
  The set-up of a cache gives one from which every item can be computed: the memory keeps its
  size, and the eight programs are good superscalar programs; it returns whenever the random numbers
  do not keep a rejection loop running. The fill of the memory by Argon2 is only assumed to keep its
  length.
\<close>

lemma initCache_ok:
  assumes "\<And>m. length (argon2 cfg key m) = length m" and "hash_ok H" and "cache_allocated cache" and "length data0 = 64"
  shows "(productive H \<longrightarrow> (\<exists>cache'. initCache argon2 H cfg data0 cache key = Some cache')) \<and>
    (\<forall>cache'. initCache argon2 H cfg data0 cache key = Some cache' \<longrightarrow>
       cache_ok cache' \<and> cache_memory cache' = argon2 cfg key (cache_memory cache))"
proof -
  let ?c = "cache\<lparr>cache_memory := argon2 cfg key (cache_memory cache)\<rparr>"
  have "yields (\<not> productive H) (initCache argon2 H cfg data0 cache key)
    (\<lambda>cache'. cache_ok cache' \<and> cache_memory cache' = argon2 cfg key (cache_memory cache))"
    unfolding initCache_def Let_def
    by (rule yields_mono [OF init_programs_yields [OF assms(2)]])
      (use assms in \<open>auto simp: cache_allocated_def cache_ok_def intro: Blake2Generator_init_ok\<close>)
  then show ?thesis by (auto simp: yields_def split: option.splits)
qed

text \<open>
  C9. The dataset does not depend on the threads that fill it: for any number of threads (up to a
  fifth of the items), with the ranges and the overlapping calls of the code, and for every order in
  which the items of the threads are written, the memory ends up as after writing all items one after
  the other, which succeeds.
\<close>

theorem dataset_threads:
  assumes "cache_ok cache" and "length mem = dataset_size" and "5 * unat numThreads \<le> DatasetItemCount"
    and "set writes = (\<Union>(a, n)\<in>set (init_ranges numThreads). set (wrapper_items avx a n))"
  shows "\<exists>D. initDataset cache mem 0 0 DatasetItemCount = Some D \<and> init_items cache writes mem = Some D \<and>
    (\<forall>(a, n)\<in>set (init_ranges numThreads). init_dataset_wrapper avx mem cache a n = init_items cache (wrapper_items avx a n) mem)"
proof -
  note ok = init_ranges_ok [OF assms(3)]
  have "set writes \<subseteq> {0..<DatasetItemCount}"
    using wrapper_items_set(2) [OF ok(3,2)] by (fastforce simp: assms(4))
  moreover have "k \<in> set writes" if k: "k < DatasetItemCount" for k
  proof -
    obtain a n where an: "(a, n) \<in> set (init_ranges numThreads)" "a \<le> k" "k < a + n"
      using init_ranges_cover [OF k, of numThreads] by blast
    have "k \<in> set (wrapper_items avx a n)" using wrapper_items_set(1) [OF ok(3,2) [OF an(1)], of avx] an(2,3) by auto
    then show ?thesis using an(1) by (auto simp: assms(4))
  qed
  ultimately have w: "set writes = {0..<DatasetItemCount}" by auto
  have len: "length mem = 64 * DatasetItemCount" using assms(2) by (simp add: dataset_size_items)
  obtain D where D: "init_items cache [0..<DatasetItemCount] mem = Some D"
    using init_items_blocks [OF assms(1) _ len, of "[0..<DatasetItemCount]"] by auto
  then show ?thesis
    using init_items_all [OF assms(1) w len] initDataset_items [of cache mem 0 DatasetItemCount] wrapper_init [OF ok] by auto
qed

theorem dataset_threads_witness:
  "\<exists>writes D. set writes = (\<Union>(a, n)\<in>set (init_ranges 3). set (wrapper_items True a n)) \<and>
    init_items zero_cache writes (replicate dataset_size 7) = Some D \<and>
    initDataset zero_cache (replicate dataset_size 7) 0 0 DatasetItemCount = Some D"
proof -
  have "set (rev (concat (map (\<lambda>(a, n). wrapper_items True a n) (init_ranges 3)))) =
      (\<Union>(a, n)\<in>set (init_ranges 3). set (wrapper_items True a n))" by auto
  then obtain writes where w: "set writes = (\<Union>(a, n)\<in>set (init_ranges 3). set (wrapper_items True a n))" by blast
  have "length (replicate dataset_size 7 :: bytes) = dataset_size" "5 * unat (3 :: u32) \<le> DatasetItemCount"
    by (simp_all add: DatasetItemCount_val)
  from dataset_threads [OF zero_cache_ok(1) this w] w show ?thesis by blast
qed

text \<open>
  C8. The light machine computes what the full machine does: with the dataset filled from the same
  cache, every run of a program gives the same result, whatever the program, the scratchpad and the
  state.
\<close>

theorem light_full_agree:
  assumes "cache_ok cache" and "length mem = dataset_size" and "initDataset cache mem 0 0 DatasetItemCount = Some D" and "length rl0 = 64"
  shows "run_program F cfg (light_datasetRead rl0 cache) f0 e0 bc0 s = run_program F cfg (datasetRead D) f0 e0 bc0 s"
  by (rule run_program_cong) (simp add: light_item [OF assms(1,4)] full_item(1) [OF assms(1-3)])

theorem light_full_agree_witness:
  "\<exists>D. initDataset zero_cache (replicate dataset_size 7) 0 0 DatasetItemCount = Some D \<and>
    (\<forall>s. run_program bit_fpu small_config (light_datasetRead (replicate 64 9) zero_cache) (replicate 4 (1, 2)) (replicate 4 (3, 4)) (replicate 3 any_slot) s =
       run_program bit_fpu small_config (datasetRead D) (replicate 4 (1, 2)) (replicate 4 (3, 4)) (replicate 3 any_slot) s)"
proof -
  have len: "length (replicate dataset_size 7 :: bytes) = 64 * DatasetItemCount" by (simp add: dataset_size_items)
  obtain D where "init_items zero_cache [0..<DatasetItemCount] (replicate dataset_size 7) = Some D"
    using init_items_blocks [OF zero_cache_ok(1) _ len, of "[0..<DatasetItemCount]"] by auto
  then have D: "initDataset zero_cache (replicate dataset_size 7) 0 0 DatasetItemCount = Some D"
    using initDataset_items [of zero_cache "replicate dataset_size 7" 0 DatasetItemCount] by simp
  show ?thesis
    using light_full_agree [OF zero_cache_ok(1) _ D, of "replicate 64 9" bit_fpu small_config "replicate 4 (1, 2)" "replicate 4 (3, 4)" "replicate 3 any_slot"] D
    by auto
qed

text \<open>
  C29. The light machine is safe too: a run over a cache that has been set up returns for every
  program, without an access outside the scratchpad, the registers or the cache.
\<close>

theorem light_run_safe:
  assumes "config_ok cfg" and "cache_ok cache" and "length (vm_scratchpad s) = unat (ScratchpadL3_Size cfg)"
    and "length f0 = 4" and "length e0 = 4" and "ProgramSize cfg \<le> length bc0"
  shows "\<exists>s'. run_program F cfg (light_datasetRead (replicate 64 0) cache) f0 e0 bc0 s = Some s' \<and>
    length (vm_scratchpad s') = length (vm_scratchpad s) \<and> length (rf_r (vm_reg s')) = 8"
proof -
  have "vm_scratchpad (initialize s) = vm_scratchpad s" by (simp add: initialize_def Let_def)
  then show ?thesis
    using light.execute_returns [OF assms(2,1) initialize_ranges(1,3,2,4) assms(4-6), of s F] assms(3)
    by (auto simp: run_program_def returns_def)
qed

theorem light_run_safe_witness:
  "\<exists>s'. run_program bit_fpu small_config (light_datasetRead (replicate 64 0) zero_cache) (replicate 4 (1, 2)) (replicate 4 (3, 4)) (replicate 3 any_slot)
      \<lparr>vm_program = replicate 3000 9, vm_reg = \<lparr>rf_r = [], rf_f = [], rf_e = [], rf_a = []\<rparr>,
       vm_config = small_registers, vm_mem = \<lparr>mx = 1, ma = 1\<rparr>, vm_scratchpad = replicate 64 1, datasetOffset = 7, vm_mxcsr = 0\<rparr> = Some s'"
  using light_run_safe [OF small_config_ok(1) zero_cache_ok(1), of
      "\<lparr>vm_program = replicate 3000 9, vm_reg = \<lparr>rf_r = [], rf_f = [], rf_e = [], rf_a = []\<rparr>,
       vm_config = small_registers, vm_mem = \<lparr>mx = 1, ma = 1\<rparr>, vm_scratchpad = replicate 64 1, datasetOffset = 7, vm_mxcsr = 0\<rparr>"
      "replicate 4 (1, 2)" "replicate 4 (3, 4)" "replicate 3 any_slot" bit_fpu]
  by (auto simp: small_config_ok)

end
