(* ===== verification/Soft_Aes.thy ===== *)
theory Soft_Aes
  imports Rx_Config "HOL-Library.Monad_Syntax"
begin

text \<open>
  \<open>soft_aes.cpp\<close>, \<open>soft_aes.h\<close> and the integer vectors of \<open>intrin_portable.h\<close>: one round of AES
  encryption and of decryption on a 128-bit vector, by tables that a static initialiser computes.
  The hardware instructions behind \<open>aesenc<0>\<close> and \<open>aesdec<0>\<close> are a parameter, a pair of functions.
  \<open>Aes_Fips\<close> compares the tables with the rounds of FIPS 197.
\<close>

subsection \<open>intrin_portable.h: integer vectors\<close>

definition rx_vec_i128_x :: "rx_vec_i128 \<Rightarrow> u32" where "rx_vec_i128_x a = (case a of (x, y, z, w) \<Rightarrow> x)"
definition rx_vec_i128_y :: "rx_vec_i128 \<Rightarrow> u32" where "rx_vec_i128_y a = (case a of (x, y, z, w) \<Rightarrow> y)"
definition rx_vec_i128_z :: "rx_vec_i128 \<Rightarrow> u32" where "rx_vec_i128_z a = (case a of (x, y, z, w) \<Rightarrow> z)"
definition rx_vec_i128_w :: "rx_vec_i128 \<Rightarrow> u32" where "rx_vec_i128_w a = (case a of (x, y, z, w) \<Rightarrow> w)"

definition rx_xor_vec_i128 :: "rx_vec_i128 \<Rightarrow> rx_vec_i128 \<Rightarrow> rx_vec_i128" where
  "rx_xor_vec_i128 a b =
     (rx_vec_i128_x a XOR rx_vec_i128_x b, rx_vec_i128_y a XOR rx_vec_i128_y b,
      rx_vec_i128_z a XOR rx_vec_i128_z b, rx_vec_i128_w a XOR rx_vec_i128_w b)"

definition rx_load_vec_i128 :: "bytes \<Rightarrow> rx_vec_i128" where
  "rx_load_vec_i128 p = (load32 p, load32 (drop 4 p), load32 (drop 8 p), load32 (drop 12 p))"

text \<open>The 16 bytes that the store writes.\<close>

definition rx_store_vec_i128 :: "rx_vec_i128 \<Rightarrow> bytes" where
  "rx_store_vec_i128 b =
     store32 (rx_vec_i128_x b) @ store32 (rx_vec_i128_y b) @ store32 (rx_vec_i128_z b) @ store32 (rx_vec_i128_w b)"

subsection \<open>soft_aes.cpp: the tables\<close>

text \<open>The loop of \<open>mul_gf2\<close> stops at \<open>k = 0x100\<close> or when no bit of \<open>j\<close> is left.\<close>

partial_function (option) mul_gf2_loop :: "u32 \<Rightarrow> u32 \<Rightarrow> u32 \<Rightarrow> u32 \<Rightarrow> u32 option" where
  "mul_gf2_loop i j k s =
     (if k < 0x100 \<and> j \<noteq> 0 then
        (let s' = (if j AND k \<noteq> 0 then s XOR i else s);
             j' = (if j AND k \<noteq> 0 then j XOR k else j);
             i' = push_bit 1 i;
             i' = (if i' AND 0x100 \<noteq> 0
                   then i' XOR (push_bit 8 1 OR push_bit 4 1 OR push_bit 3 1 OR push_bit 1 1 OR push_bit 0 1) else i')
         in mul_gf2_loop i' j' (push_bit 1 k) s')
      else Some s)"

definition mul_gf2 :: "u32 \<Rightarrow> u32 \<Rightarrow> u32 option" where
  "mul_gf2 b c = mul_gf2_loop b c 1 0"

definition ROTL8 :: "u8 \<Rightarrow> nat \<Rightarrow> u8" where
  "ROTL8 x shift = push_bit shift x OR drop_bit (8 - shift) x"

text \<open>One pass of the loop over the powers of the generator 3: the new \<open>p\<close>, the new \<open>q\<close> and the value.\<close>

definition next_p :: "u8 \<Rightarrow> u8" where
  "next_p p = p XOR push_bit 1 p XOR (if p AND 0x80 \<noteq> 0 then 0x1B else 0)"

definition next_q :: "u8 \<Rightarrow> u8" where
  "next_q q =
     (let q = q XOR push_bit 1 q;
          q = q XOR push_bit 2 q;
          q = q XOR push_bit 4 q
      in q XOR (if q AND 0x80 \<noteq> 0 then 0x09 else 0))"

definition sbox_value :: "u8 \<Rightarrow> u8" where
  "sbox_value q = q XOR ROTL8 q 1 XOR ROTL8 q 2 XOR ROTL8 q 3 XOR ROTL8 q 4 XOR 0x63"

text \<open>The \<open>do ... while (p != 1)\<close> loop; it may run forever as written, so its result is an option.\<close>

partial_function (option) sbox_loop :: "u8 \<Rightarrow> u8 \<Rightarrow> u8 list \<Rightarrow> u8 list \<Rightarrow> (u8 list \<times> u8 list) option" where
  "sbox_loop p q sbox sbox_reverse =
     (let p' = next_p p;
          q' = next_q q;
          v = sbox_value q';
          sbox' = sbox[unat p' := v];
          sbox_reverse' = sbox_reverse[unat v := p']
      in if p' \<noteq> 1 then sbox_loop p' q' sbox' sbox_reverse' else Some (sbox', sbox_reverse'))"

definition sboxes :: "(u8 list \<times> u8 list) option" where
  "sboxes = do {
     (sbox, sbox_reverse) \<leftarrow> sbox_loop 1 1 (replicate 256 0) (replicate 256 0);
     Some (sbox[0 := 0x63], sbox_reverse[0x63 := 0])
   }"

record aes_luts =
  lutEnc0 :: "u32 list"
  lutEnc1 :: "u32 list"
  lutEnc2 :: "u32 list"
  lutEnc3 :: "u32 list"
  lutDec0 :: "u32 list"
  lutDec1 :: "u32 list"
  lutDec2 :: "u32 list"
  lutDec3 :: "u32 list"

text \<open>
  One pass of the loop over \<open>i\<close>: the word \<open>w\<close> that shares its storage with the bytes \<open>p\<close>, from the
  entry of \<open>sbox\<close> or of \<open>sbox_reverse\<close>, and the four words written, each \<open>w\<close> rotated again.
\<close>

definition enc_word :: "u8 list \<Rightarrow> nat \<Rightarrow> u32 option" where
  "enc_word sbox i = do {
     let s = (ucast (sbox ! i) :: u32);
     p0 \<leftarrow> mul_gf2 s 2;
     p3 \<leftarrow> mul_gf2 s 3;
     Some (le_word [ucast p0, ucast s, ucast s, ucast p3])
   }"

definition dec_word :: "u8 list \<Rightarrow> nat \<Rightarrow> u32 option" where
  "dec_word sbox_reverse i = do {
     let s = (ucast (sbox_reverse ! i) :: u32);
     p0 \<leftarrow> mul_gf2 s 0xe;
     p1 \<leftarrow> mul_gf2 s 0x9;
     p2 \<leftarrow> mul_gf2 s 0xd;
     p3 \<leftarrow> mul_gf2 s 0xb;
     Some (le_word [ucast p0, ucast p1, ucast p2, ucast p3])
   }"

definition rot8 :: "u32 \<Rightarrow> u32" where
  "rot8 w = push_bit 8 w OR drop_bit 24 w"

text \<open>The static initialiser.\<close>

definition aes_initializer :: "aes_luts option" where
  "aes_initializer = do {
     (sbox, sbox_reverse) \<leftarrow> sboxes;
     e \<leftarrow> those (map (enc_word sbox) [0..<0x100]);
     d \<leftarrow> those (map (dec_word sbox_reverse) [0..<0x100]);
     Some \<lparr>lutEnc0 = e, lutEnc1 = map rot8 e, lutEnc2 = map (rot8 \<circ> rot8) e, lutEnc3 = map (rot8 \<circ> rot8 \<circ> rot8) e,
           lutDec0 = d, lutDec1 = map rot8 d, lutDec2 = map (rot8 \<circ> rot8) d, lutDec3 = map (rot8 \<circ> rot8 \<circ> rot8) d\<rparr>
   }"

subsection \<open>soft_aes.h: the rounds\<close>

definition aesenc1 :: "aes_luts \<Rightarrow> rx_vec_i128 \<Rightarrow> rx_vec_i128 \<Rightarrow> rx_vec_i128" where
  "aesenc1 T inp key =
     (let s = map unat (rx_store_vec_i128 inp);
          s0 = lutEnc0 T ! (s ! 0);
          s1 = lutEnc0 T ! (s ! 4);
          s2 = lutEnc0 T ! (s ! 8);
          s3 = lutEnc0 T ! (s ! 12);
          s0 = s0 XOR lutEnc1 T ! (s ! 5);
          s1 = s1 XOR lutEnc1 T ! (s ! 9);
          s2 = s2 XOR lutEnc1 T ! (s ! 13);
          s3 = s3 XOR lutEnc1 T ! (s ! 1);
          s0 = s0 XOR lutEnc2 T ! (s ! 10);
          s1 = s1 XOR lutEnc2 T ! (s ! 14);
          s2 = s2 XOR lutEnc2 T ! (s ! 2);
          s3 = s3 XOR lutEnc2 T ! (s ! 6);
          s0 = s0 XOR lutEnc3 T ! (s ! 15);
          s1 = s1 XOR lutEnc3 T ! (s ! 3);
          s2 = s2 XOR lutEnc3 T ! (s ! 7);
          s3 = s3 XOR lutEnc3 T ! (s ! 11)
      in rx_xor_vec_i128 (rx_set_int_vec_i128 s3 s2 s1 s0) key)"

definition aesdec1 :: "aes_luts \<Rightarrow> rx_vec_i128 \<Rightarrow> rx_vec_i128 \<Rightarrow> rx_vec_i128" where
  "aesdec1 T inp key =
     (let s = map unat (rx_store_vec_i128 inp);
          s0 = lutDec0 T ! (s ! 0);
          s1 = lutDec0 T ! (s ! 4);
          s2 = lutDec0 T ! (s ! 8);
          s3 = lutDec0 T ! (s ! 12);
          s0 = s0 XOR lutDec1 T ! (s ! 13);
          s1 = s1 XOR lutDec1 T ! (s ! 1);
          s2 = s2 XOR lutDec1 T ! (s ! 5);
          s3 = s3 XOR lutDec1 T ! (s ! 9);
          s0 = s0 XOR lutDec2 T ! (s ! 10);
          s1 = s1 XOR lutDec2 T ! (s ! 14);
          s2 = s2 XOR lutDec2 T ! (s ! 2);
          s3 = s3 XOR lutDec2 T ! (s ! 6);
          s0 = s0 XOR lutDec3 T ! (s ! 7);
          s1 = s1 XOR lutDec3 T ! (s ! 11);
          s2 = s2 XOR lutDec3 T ! (s ! 15);
          s3 = s3 XOR lutDec3 T ! (s ! 3)
      in rx_xor_vec_i128 (rx_set_int_vec_i128 s3 s2 s1 s0) key)"

text \<open>\<open>t[i]\<close> for a 32-bit index.\<close>

abbreviation lut :: "u32 list \<Rightarrow> u32 \<Rightarrow> u32" where
  "lut t i \<equiv> t ! unat i"

definition aesenc2 :: "aes_luts \<Rightarrow> rx_vec_i128 \<Rightarrow> rx_vec_i128 \<Rightarrow> rx_vec_i128" where
  "aesenc2 T inp key =
     (let s0 = rx_vec_i128_w inp;
          s1 = rx_vec_i128_z inp;
          s2 = rx_vec_i128_y inp;
          s3 = rx_vec_i128_x inp;
          out = rx_set_int_vec_i128
            (lut (lutEnc0 T) (s0 AND 0xff) XOR lut (lutEnc1 T) (drop_bit 8 s3 AND 0xff) XOR
             lut (lutEnc2 T) (drop_bit 16 s2 AND 0xff) XOR lut (lutEnc3 T) (drop_bit 24 s1))
            (lut (lutEnc0 T) (s1 AND 0xff) XOR lut (lutEnc1 T) (drop_bit 8 s0 AND 0xff) XOR
             lut (lutEnc2 T) (drop_bit 16 s3 AND 0xff) XOR lut (lutEnc3 T) (drop_bit 24 s2))
            (lut (lutEnc0 T) (s2 AND 0xff) XOR lut (lutEnc1 T) (drop_bit 8 s1 AND 0xff) XOR
             lut (lutEnc2 T) (drop_bit 16 s0 AND 0xff) XOR lut (lutEnc3 T) (drop_bit 24 s3))
            (lut (lutEnc0 T) (s3 AND 0xff) XOR lut (lutEnc1 T) (drop_bit 8 s2 AND 0xff) XOR
             lut (lutEnc2 T) (drop_bit 16 s1 AND 0xff) XOR lut (lutEnc3 T) (drop_bit 24 s0))
      in rx_xor_vec_i128 out key)"

definition aesdec2 :: "aes_luts \<Rightarrow> rx_vec_i128 \<Rightarrow> rx_vec_i128 \<Rightarrow> rx_vec_i128" where
  "aesdec2 T inp key =
     (let s0 = rx_vec_i128_w inp;
          s1 = rx_vec_i128_z inp;
          s2 = rx_vec_i128_y inp;
          s3 = rx_vec_i128_x inp;
          out = rx_set_int_vec_i128
            (lut (lutDec0 T) (s0 AND 0xff) XOR lut (lutDec1 T) (drop_bit 8 s1 AND 0xff) XOR
             lut (lutDec2 T) (drop_bit 16 s2 AND 0xff) XOR lut (lutDec3 T) (drop_bit 24 s3))
            (lut (lutDec0 T) (s1 AND 0xff) XOR lut (lutDec1 T) (drop_bit 8 s2 AND 0xff) XOR
             lut (lutDec2 T) (drop_bit 16 s3 AND 0xff) XOR lut (lutDec3 T) (drop_bit 24 s0))
            (lut (lutDec0 T) (s2 AND 0xff) XOR lut (lutDec1 T) (drop_bit 8 s3 AND 0xff) XOR
             lut (lutDec2 T) (drop_bit 16 s0 AND 0xff) XOR lut (lutDec3 T) (drop_bit 24 s1))
            (lut (lutDec0 T) (s3 AND 0xff) XOR lut (lutDec1 T) (drop_bit 8 s0 AND 0xff) XOR
             lut (lutDec2 T) (drop_bit 16 s1 AND 0xff) XOR lut (lutDec3 T) (drop_bit 24 s2))
      in rx_xor_vec_i128 out key)"

text \<open>
  The template \<open>aesenc<soft>\<close>: \<open>hw\<close> is the pair of hardware instructions, \<open>T\<close> the tables of the
  static initialiser.
\<close>

type_synonym aes_instructions = "(rx_vec_i128 \<Rightarrow> rx_vec_i128 \<Rightarrow> rx_vec_i128) \<times> (rx_vec_i128 \<Rightarrow> rx_vec_i128 \<Rightarrow> rx_vec_i128)"

definition aesenc :: "aes_instructions \<Rightarrow> aes_luts \<Rightarrow> nat \<Rightarrow> rx_vec_i128 \<Rightarrow> rx_vec_i128 \<Rightarrow> rx_vec_i128" where
  "aesenc hw T soft = (if soft = 0 then fst hw else if soft = 1 then aesenc1 T else aesenc2 T)"

definition aesdec :: "aes_instructions \<Rightarrow> aes_luts \<Rightarrow> nat \<Rightarrow> rx_vec_i128 \<Rightarrow> rx_vec_i128 \<Rightarrow> rx_vec_i128" where
  "aesdec hw T soft = (if soft = 0 then snd hw else if soft = 1 then aesdec1 T else aesdec2 T)"

end
