(* ===== verification/Aes_Hash.thy ===== *)
theory Aes_Hash
  imports Bytecode Soft_Aes
begin

text \<open>
  \<open>aes_hash.cpp\<close>: the hash and the generators of RandomX made of single AES rounds in four lanes, and
  the routine that hashes the scratchpad and refills it in the same pass. A read or a write outside
  its buffer is \<^term>\<open>None\<close>. The pair \<open>A\<close> holds \<open>aesenc\<close> and \<open>aesdec\<close> of the template instance.
\<close>

subsection \<open>Lanes\<close>

type_synonym lanes = "rx_vec_i128 \<times> rx_vec_i128 \<times> rx_vec_i128 \<times> rx_vec_i128"

definition aes_pair :: "aes_instructions \<Rightarrow> aes_luts \<Rightarrow> nat \<Rightarrow> aes_instructions" where
  "aes_pair hw T softAes = (aesenc hw T softAes, aesdec hw T softAes)"

definition load_lanes :: "bytes \<Rightarrow> nat \<Rightarrow> lanes option" where
  "load_lanes m off = map_option (\<lambda>b. (rx_load_vec_i128 b, rx_load_vec_i128 (drop 16 b),
     rx_load_vec_i128 (drop 32 b), rx_load_vec_i128 (drop 48 b))) (load_at m off 64)"

definition lanes_bytes :: "lanes \<Rightarrow> bytes" where
  "lanes_bytes = (\<lambda>(s0, s1, s2, s3). rx_store_vec_i128 s0 @ rx_store_vec_i128 s1 @ rx_store_vec_i128 s2 @ rx_store_vec_i128 s3)"

definition store_lanes :: "bytes \<Rightarrow> nat \<Rightarrow> lanes \<Rightarrow> bytes option" where
  "store_lanes m off s = store_at m off (lanes_bytes s)"

subsection \<open>Constants\<close>

definition AES_HASH_1R_STATE :: lanes where
  "AES_HASH_1R_STATE =
     (rx_set_int_vec_i128 0xd7983aad 0xcc82db47 0x9fa856de 0x92b52c0d,
      rx_set_int_vec_i128 0xace78057 0xf59e125a 0x15c7b798 0x338d996e,
      rx_set_int_vec_i128 0xe8a07ce4 0x5079506b 0xae62c7d0 0x6a770017,
      rx_set_int_vec_i128 0x7e994948 0x79a10005 0x07ad828d 0x630a240c)"

definition AES_HASH_1R_XKEY0 :: rx_vec_i128 where
  "AES_HASH_1R_XKEY0 = rx_set_int_vec_i128 0x06890201 0x90dc56bf 0x8b24949f 0xf6fa8389"

definition AES_HASH_1R_XKEY1 :: rx_vec_i128 where
  "AES_HASH_1R_XKEY1 = rx_set_int_vec_i128 0xed18f99b 0xee1043c6 0x51f4e03c 0x61b263d1"

definition AES_GEN_1R_KEY :: lanes where
  "AES_GEN_1R_KEY =
     (rx_set_int_vec_i128 0xb4f44917 0xdbb5552b 0x62716609 0x6daca553,
      rx_set_int_vec_i128 0x0da1dc4e 0x1725d378 0x846a710d 0x6d7caf07,
      rx_set_int_vec_i128 0x3e20e345 0xf4c0794f 0x9f947ec6 0x3f1262f1,
      rx_set_int_vec_i128 0x49169154 0x16314c88 0xb1ba317c 0x6aef8135)"

subsection \<open>Hashing\<close>

definition hash_round :: "aes_instructions \<Rightarrow> lanes \<Rightarrow> lanes \<Rightarrow> lanes" where
  "hash_round A = (\<lambda>(state0, state1, state2, state3) (in0, in1, in2, in3).
     (fst A state0 in0, snd A state1 in1, fst A state2 in2, snd A state3 in3))"

text \<open>The two extra rounds.\<close>

definition hash_final :: "aes_instructions \<Rightarrow> lanes \<Rightarrow> lanes" where
  "hash_final A s =
     (let s = hash_round A s (AES_HASH_1R_XKEY0, AES_HASH_1R_XKEY0, AES_HASH_1R_XKEY0, AES_HASH_1R_XKEY0)
      in hash_round A s (AES_HASH_1R_XKEY1, AES_HASH_1R_XKEY1, AES_HASH_1R_XKEY1, AES_HASH_1R_XKEY1))"

function hash_loop :: "aes_instructions \<Rightarrow> bytes \<Rightarrow> nat \<Rightarrow> nat \<Rightarrow> lanes \<Rightarrow> lanes option" where
  "hash_loop A input inptr inputEnd s =
     (if inptr < inputEnd then do {
        i \<leftarrow> load_lanes input inptr;
        hash_loop A input (inptr + 64) inputEnd (hash_round A s i)
      } else Some s)"
  by pat_completeness auto
termination by (relation "measure (\<lambda>(A, input, inptr, inputEnd, s). inputEnd - inptr)") auto

text \<open>The 64 bytes of the hash.\<close>

definition hashAes1Rx4 :: "aes_instructions \<Rightarrow> bytes \<Rightarrow> nat \<Rightarrow> bytes option" where
  "hashAes1Rx4 A input inputSize =
     map_option (\<lambda>s. lanes_bytes (hash_final A s)) (hash_loop A input 0 inputSize AES_HASH_1R_STATE)"

subsection \<open>Generators\<close>

definition fill_round :: "aes_instructions \<Rightarrow> lanes \<Rightarrow> lanes" where
  "fill_round A = (\<lambda>(state0, state1, state2, state3). case AES_GEN_1R_KEY of (key0, key1, key2, key3) \<Rightarrow>
     (snd A state0 key0, fst A state1 key1, snd A state2 key2, fst A state3 key3))"

text \<open>The loop of both generators, over the function that makes the next 64 bytes.\<close>

function fill_loop :: "(lanes \<Rightarrow> lanes) \<Rightarrow> nat \<Rightarrow> nat \<Rightarrow> lanes \<Rightarrow> bytes \<Rightarrow> (lanes \<times> bytes) option" where
  "fill_loop R outptr outputEnd s buffer =
     (if outptr < outputEnd then do {
        let s' = R s;
        buffer' \<leftarrow> store_lanes buffer outptr s';
        fill_loop R (outptr + 64) outputEnd s' buffer'
      } else Some (s, buffer))"
  by pat_completeness auto
termination by (relation "measure (\<lambda>(R, outptr, outputEnd, s, buffer). outputEnd - outptr)") auto

text \<open>The state afterwards and the buffer.\<close>

definition fillAes1Rx4 :: "aes_instructions \<Rightarrow> bytes \<Rightarrow> nat \<Rightarrow> bytes \<Rightarrow> (bytes \<times> bytes) option" where
  "fillAes1Rx4 A state outputSize buffer = do {
     s \<leftarrow> load_lanes state 0;
     (s, buffer) \<leftarrow> fill_loop (fill_round A) 0 outputSize s buffer;
     state \<leftarrow> store_lanes state 0 s;
     Some (state, buffer)
   }"

definition fill_round4 :: "aes_instructions \<Rightarrow> rx_vec_i128 list \<Rightarrow> lanes \<Rightarrow> lanes" where
  "fill_round4 A key = (\<lambda>(state0, state1, state2, state3).
     (let state0 = snd A state0 (key ! 0);
          state1 = fst A state1 (key ! 0);
          state2 = snd A state2 (key ! 4);
          state3 = fst A state3 (key ! 4);
          state0 = snd A state0 (key ! 1);
          state1 = fst A state1 (key ! 1);
          state2 = snd A state2 (key ! 5);
          state3 = fst A state3 (key ! 5);
          state0 = snd A state0 (key ! 2);
          state1 = fst A state1 (key ! 2);
          state2 = snd A state2 (key ! 6);
          state3 = fst A state3 (key ! 6);
          state0 = snd A state0 (key ! 3);
          state1 = fst A state1 (key ! 3);
          state2 = snd A state2 (key ! 7);
          state3 = fst A state3 (key ! 7)
      in (state0, state1, state2, state3)))"

text \<open>The state is not written back by this one.\<close>

definition fillAes4Rx4 :: "aes_instructions \<Rightarrow> RandomX_Configuration \<Rightarrow> bytes \<Rightarrow> nat \<Rightarrow> bytes \<Rightarrow> bytes option" where
  "fillAes4Rx4 A cfg state outputSize buffer = do {
     s \<leftarrow> load_lanes state 0;
     map_option snd (fill_loop (fill_round4 A (fillAes4Rx4_Key cfg)) 0 outputSize s buffer)
   }"

subsection \<open>Hashing and filling in one pass\<close>

definition PREFETCH_DISTANCE :: nat where "PREFETCH_DISTANCE = 7168"

definition HASH_STATE :: "aes_instructions \<Rightarrow> nat \<Rightarrow> nat \<Rightarrow> bytes \<times> lanes \<times> lanes \<Rightarrow> (bytes \<times> lanes \<times> lanes) option" where
  "HASH_STATE A scratchpadPtr k = (\<lambda>(sp, hash_state, fill_state). do {
     i \<leftarrow> load_lanes sp (scratchpadPtr + 64 * k);
     Some (sp, hash_round A hash_state i, fill_state)
   })"

definition FILL_STATE :: "aes_instructions \<Rightarrow> nat \<Rightarrow> nat \<Rightarrow> bytes \<times> lanes \<times> lanes \<Rightarrow> (bytes \<times> lanes \<times> lanes) option" where
  "FILL_STATE A scratchpadPtr k = (\<lambda>(sp, hash_state, fill_state). do {
     let fill_state = fill_round A fill_state;
     sp \<leftarrow> store_lanes sp (scratchpadPtr + 64 * k) fill_state;
     Some (sp, hash_state, fill_state)
   })"

text \<open>One pass of the inner loop and the distance that it advances.\<close>

definition stride :: "nat \<Rightarrow> nat \<Rightarrow> nat" where
  "stride softAes unroll =
     (if softAes = 0 then 128 else if unroll = 4 then 64 * 4 else if unroll = 2 then 64 * 2 else 64)"

definition hash_and_fill_pass :: "aes_instructions \<Rightarrow> nat \<Rightarrow> nat \<Rightarrow> nat \<Rightarrow> bytes \<times> lanes \<times> lanes \<Rightarrow>
    (bytes \<times> lanes \<times> lanes) option" where
  "hash_and_fill_pass A softAes unroll p x =
     (if softAes = 0 then do {
        x \<leftarrow> HASH_STATE A p 0 x; x \<leftarrow> HASH_STATE A p 1 x;
        x \<leftarrow> FILL_STATE A p 0 x; FILL_STATE A p 1 x
      } else if unroll = 4 then do {
        x \<leftarrow> HASH_STATE A p 0 x; x \<leftarrow> FILL_STATE A p 0 x;
        x \<leftarrow> HASH_STATE A p 1 x; x \<leftarrow> FILL_STATE A p 1 x;
        x \<leftarrow> HASH_STATE A p 2 x; x \<leftarrow> FILL_STATE A p 2 x;
        x \<leftarrow> HASH_STATE A p 3 x; FILL_STATE A p 3 x
      } else if unroll = 2 then do {
        x \<leftarrow> HASH_STATE A p 0 x; x \<leftarrow> FILL_STATE A p 0 x;
        x \<leftarrow> HASH_STATE A p 1 x; FILL_STATE A p 1 x
      } else do {
        x \<leftarrow> HASH_STATE A p 0 x; FILL_STATE A p 0 x
      })"

lemma stride_pos [simp]: "0 < stride softAes unroll"
  by (simp add: stride_def)

lemma loop_advances: "p < e \<Longrightarrow> 0 < k \<Longrightarrow> e - (p + k) < e - (p :: nat)"
  by linarith

function hash_and_fill_loop :: "aes_instructions \<Rightarrow> nat \<Rightarrow> nat \<Rightarrow> nat \<Rightarrow> nat \<Rightarrow> bytes \<times> lanes \<times> lanes \<Rightarrow>
    (nat \<times> bytes \<times> lanes \<times> lanes) option" where
  "hash_and_fill_loop A softAes unroll scratchpadPtr scratchpadEnd x =
     (if scratchpadPtr < scratchpadEnd then do {
        x' \<leftarrow> hash_and_fill_pass A softAes unroll scratchpadPtr x;
        hash_and_fill_loop A softAes unroll (scratchpadPtr + stride softAes unroll) scratchpadEnd x'
      } else Some (scratchpadPtr, x))"
  by pat_completeness auto
termination
  by (relation "measure (\<lambda>(A, softAes, unroll, ptr, scratchpadEnd, x). scratchpadEnd - ptr)") (simp, simp add: loop_advances)

text \<open>
  The scratchpad, the hash and the state afterwards. The first of the two rounds of the outer loop
  stops \<open>PREFETCH_DISTANCE\<close> before the end; for a smaller scratchpad that pointer would lie before
  the array, which has no meaning in C.
\<close>

definition hashAndFillAes1Rx4 :: "aes_instructions \<Rightarrow> aes_luts \<Rightarrow> nat \<Rightarrow> nat \<Rightarrow> bytes \<Rightarrow> nat \<Rightarrow> bytes \<Rightarrow>
    (bytes \<times> bytes \<times> bytes) option" where
  "hashAndFillAes1Rx4 hw T softAes unroll spad scratchpadSize fill_state = do {
     let A = aes_pair hw T softAes;
     s \<leftarrow> load_lanes fill_state 0;
     if scratchpadSize < PREFETCH_DISTANCE then None else do {
       (p, x) \<leftarrow> hash_and_fill_loop A softAes unroll 0 (scratchpadSize - PREFETCH_DISTANCE) (spad, AES_HASH_1R_STATE, s);
       (_, sp, h, s) \<leftarrow> hash_and_fill_loop A softAes unroll p scratchpadSize x;
       fill_state \<leftarrow> store_lanes fill_state 0 s;
       Some (sp, lanes_bytes (hash_final A h), fill_state)
     }
   }"

text \<open>The instances among which \<open>SelectSoftAESImpl\<close> chooses, and the one for hardware AES.\<close>

definition soft_impls :: "(nat \<times> nat) list" where
  "soft_impls = [(1, 1), (2, 1), (2, 2), (2, 4)]"

definition hard_impl :: "nat \<times> nat" where "hard_impl = (0, 2)"


subsection \<open>The one pass is the two passes\<close>

declare hash_loop.simps [simp del] fill_loop.simps [simp del] hash_and_fill_loop.simps [simp del]

text \<open>One block of 64 bytes hashed and refilled, and \<open>n\<close> of them.\<close>

definition unit_pass :: "aes_instructions \<Rightarrow> nat \<Rightarrow> bytes \<times> lanes \<times> lanes \<Rightarrow> (bytes \<times> lanes \<times> lanes) option" where
  "unit_pass A p x = Option.bind (HASH_STATE A p 0 x) (FILL_STATE A p 0)"

primrec units :: "aes_instructions \<Rightarrow> nat \<Rightarrow> nat \<Rightarrow> bytes \<times> lanes \<times> lanes \<Rightarrow> (bytes \<times> lanes \<times> lanes) option" where
  "units A 0 p x = Some x"
| "units A (Suc n) p x = Option.bind (unit_pass A p x) (units A n (p + 64))"

lemma units_add: "units A (m + n) p x = Option.bind (units A m p x) (units A n (p + 64 * m))"
proof (induction m arbitrary: p x)
  case (Suc m)
  then show ?case by (cases "unit_pass A p x") (simp_all add: add.assoc)
qed simp

lemma length_lanes_bytes [simp]: "length (lanes_bytes s) = 64"
  by (cases s) (simp add: lanes_bytes_def rx_store_vec_i128_def)

lemma store_lanes_drop:
  "store_lanes m off s = Some m' \<Longrightarrow> length m' = length m \<and> drop (off + 64) m' = drop (off + 64) m"
  by (auto simp: store_lanes_def store_at_def memcpy_at_def split: if_splits)

lemma load_lanes_cong:
  assumes "length m' = length m" "drop k m' = drop k m" "k \<le> off"
  shows "load_lanes m' off = load_lanes m off"
proof -
  have "drop off m' = drop off m"
    using assms(2,3) by (metis drop_drop le_add_diff_inverse2)
  with assms(1) show ?thesis by (simp add: load_lanes_def load_at_def)
qed

lemma load_store_lanes:
  "store_lanes m off s = Some m' \<Longrightarrow> off + 64 \<le> q \<Longrightarrow> load_lanes m' q = load_lanes m q"
  by (rule load_lanes_cong [where k = "off + 64"]) (auto dest: store_lanes_drop)

lemma HASH_shift: "HASH_STATE A p k x = HASH_STATE A (p + 64 * k) 0 x"
  and FILL_shift: "FILL_STATE A p k x = FILL_STATE A (p + 64 * k) 0 x"
  by (simp_all add: HASH_STATE_def FILL_STATE_def)

text \<open>Filling a block and hashing a later one commute.\<close>

lemma fill_hash_commute:
  assumes "p + 64 \<le> q"
  shows "Option.bind (FILL_STATE A p 0 x) (HASH_STATE A q 0) = Option.bind (HASH_STATE A q 0 x) (FILL_STATE A p 0)"
proof -
  obtain sp h f where fields: "x = (sp, h, f)" by (cases x rule: prod_cases3)
  show ?thesis
  proof (cases "store_lanes sp p (fill_round A f)")
    case None
    then show ?thesis by (cases "load_lanes sp q") (simp_all add: fields HASH_STATE_def FILL_STATE_def)
  next
    case (Some sp')
    with load_store_lanes [OF Some assms] show ?thesis
      by (cases "load_lanes sp q") (simp_all add: fields HASH_STATE_def FILL_STATE_def)
  qed
qed

lemma bind_assoc_option: "Option.bind (Option.bind m f) g = Option.bind m (\<lambda>x. Option.bind (f x) g)"
  by (cases m) simp_all

lemma unit_pass_eq: "unit_pass A p = (\<lambda>x. Option.bind (HASH_STATE A p 0 x) (FILL_STATE A p 0))"
  by (rule ext) (simp add: unit_pass_def)

lemma units_0: "units A 0 p = Some"
  by (rule ext) simp

lemma units_1: "units A (Suc 0) p = unit_pass A p"
  by (rule ext) (simp add: units_0)

lemma units_2: "units A 2 p = (\<lambda>x. Option.bind (unit_pass A p x) (unit_pass A (p + 64)))"
proof
  fix x
  show "units A 2 p x = Option.bind (unit_pass A p x) (unit_pass A (p + 64))"
    using units_add [of A "Suc 0" "Suc 0" p x] by (simp add: units_1 del: units.simps flip: numeral_2_eq_2)
qed

lemma units_4: "units A 4 p x = Option.bind (units A 2 p x) (units A 2 (p + 128))"
  using units_add [of A 2 2 p x] by simp

lemma pass_shift:
  "HASH_STATE A p 1 = HASH_STATE A (p + 64) 0" "FILL_STATE A p 1 = FILL_STATE A (p + 64) 0"
  "HASH_STATE A p 2 = HASH_STATE A (p + 128) 0" "FILL_STATE A p 2 = FILL_STATE A (p + 128) 0"
  "HASH_STATE A p 3 = HASH_STATE A (192 + p) 0" "FILL_STATE A p 3 = FILL_STATE A (192 + p) 0"
  by (rule ext, simp add: HASH_STATE_def FILL_STATE_def add.commute)+

lemma pass_units: "hash_and_fill_pass A softAes unroll p x = units A (stride softAes unroll div 64) p x"
proof (cases "softAes = 0")
  case True
  have "Option.bind (HASH_STATE A p 0 x) (\<lambda>x. Option.bind (HASH_STATE A (p + 64) 0 x) (\<lambda>x.
      Option.bind (FILL_STATE A p 0 x) (FILL_STATE A (p + 64) 0))) =
    Option.bind (HASH_STATE A p 0 x) (\<lambda>x. Option.bind (Option.bind (FILL_STATE A p 0 x) (HASH_STATE A (p + 64) 0))
      (FILL_STATE A (p + 64) 0))"
    by (simp only: fill_hash_commute [OF order_refl] bind_assoc_option)
  with True show ?thesis
    by (simp only: hash_and_fill_pass_def stride_def if_True pass_shift)
      (simp add: units_2 unit_pass_eq bind_assoc_option)
next
  case False
  then show ?thesis
    by (simp only: hash_and_fill_pass_def stride_def if_False pass_shift)
      (simp add: units_1 units_2 units_4 unit_pass_eq bind_assoc_option del: units.simps)
qed

lemma loop_units:
  assumes "64 * m = stride softAes unroll"
  shows "hash_and_fill_loop A softAes unroll p (p + stride softAes unroll * n) x =
    map_option (Pair (p + stride softAes unroll * n)) (units A (m * n) p x)"
proof (induction n arbitrary: p x)
  case 0
  show ?case by (subst hash_and_fill_loop.simps) simp
next
  case (Suc n)
  have m: "stride softAes unroll div 64 = m" using assms by simp
  have e: "p + stride softAes unroll * Suc n = p + stride softAes unroll + stride softAes unroll * n" by simp
  show ?case
    by (subst hash_and_fill_loop.simps, cases "units A m p x")
      (simp_all add: pass_units m e Suc.IH [of "p + stride softAes unroll", unfolded add.assoc] units_add [of A m "m * n"] assms)
qed

text \<open>The blocks are hashed as they were before the pass, and refilled as if nothing were hashed.\<close>

lemma hash_loop_cong:
  "length m' = length m \<Longrightarrow> drop p m' = drop p m \<Longrightarrow> hash_loop A m' p (p + 64 * n) s = hash_loop A m p (p + 64 * n) s"
proof (induction n arbitrary: p s)
  case 0
  show ?case by (subst (1 2) hash_loop.simps) simp
next
  case (Suc n)
  have "drop (p + 64) m' = drop (p + 64) m" using Suc.prems(2) by (metis drop_drop add.commute)
  with Suc.IH [of "p + 64"] Suc.prems(1) load_lanes_cong [OF Suc.prems, of p] show ?case
    by (subst (1 2) hash_loop.simps) (simp add: add.assoc cong: bind_option_cong)
qed

lemma load_lanes_Some: "off + 64 \<le> length m \<Longrightarrow> \<exists>i. load_lanes m off = Some i"
  by (simp only: load_lanes_def load_at_def if_True option.map) (rule exI, rule refl)

lemma store_lanes_Some: "off + 64 \<le> length m \<Longrightarrow> \<exists>m'. store_lanes m off s = Some m'"
  by (simp add: store_lanes_def store_at_def)

lemma units_two_passes:
  "p + 64 * n \<le> length sp \<Longrightarrow>
   \<exists>h' f' sp'. hash_loop A sp p (p + 64 * n) h = Some h' \<and> fill_loop (fill_round A) p (p + 64 * n) f sp = Some (f', sp') \<and>
     units A n p (sp, h, f) = Some (sp', h', f') \<and> length sp' = length sp"
proof (induction n arbitrary: p sp h f)
  case 0
  show ?case
    by (rule exI [of _ h], rule exI [of _ f], rule exI [of _ sp], subst hash_loop.simps, subst fill_loop.simps) simp
next
  case (Suc n)
  obtain i where i: "load_lanes sp p = Some i" using load_lanes_Some [of p sp] Suc.prems by (auto simp del: split_paired_Ex)
  obtain sp1 where sp1: "store_lanes sp p (fill_round A f) = Some sp1" using store_lanes_Some [of p sp "fill_round A f"] Suc.prems by auto
  note l = store_lanes_drop [OF sp1]
  have e: "p + 64 * Suc n = p + 64 + 64 * n" by simp
  have u: "unit_pass A p (sp, h, f) = Some (sp1, hash_round A h i, fill_round A f)"
    by (simp add: unit_pass_def HASH_STATE_def FILL_STATE_def i sp1)
  have h: "hash_loop A sp p (p + 64 * Suc n) h = hash_loop A sp1 (p + 64) (p + 64 + 64 * n) (hash_round A h i)"
    unfolding e hash_loop_cong [OF l [THEN conjunct1] l [THEN conjunct2]]
    by (subst hash_loop.simps) (simp add: i)
  have f: "fill_loop (fill_round A) p (p + 64 * Suc n) f sp =
      fill_loop (fill_round A) (p + 64) (p + 64 + 64 * n) (fill_round A f) sp1"
    unfolding e by (subst fill_loop.simps) (simp add: sp1)
  show ?case unfolding h f units.simps u bind.bind_lunit
    using Suc.IH [of "p + 64" sp1] Suc.prems l by auto
qed


lemma load_lanes_returns: "64 \<le> length m \<Longrightarrow> \<exists>i. load_lanes m 0 = Some i"
  using load_lanes_Some [of 0 m] by simp

lemma one_pass_is_two:
  assumes "(softAes, unroll) \<in> set (hard_impl # soft_impls)"
    and "256 dvd len" "PREFETCH_DISTANCE \<le> len" "len \<le> length spad" "64 \<le> length state"
  shows "\<exists>hash state' spad'.
    hashAndFillAes1Rx4 hw T softAes unroll spad len state = Some (spad', hash, state') \<and>
    hashAes1Rx4 (aes_pair hw T softAes) spad len = Some hash \<and>
    fillAes1Rx4 (aes_pair hw T softAes) state len spad = Some (state', spad')"
proof -
  let ?A = "aes_pair hw T softAes" and ?d = "stride softAes unroll"
  define m where "m = ?d div 64"
  have m: "64 * m = ?d" and d: "?d dvd 256" by (auto simp: m_def stride_def)
  have p: "?d dvd PREFETCH_DISTANCE" using d by (rule dvd_trans) (simp add: PREFETCH_DISTANCE_def)
  have s: "?d dvd len" using d assms(2) by (rule dvd_trans)
  then have "?d dvd len - PREFETCH_DISTANCE" using p by (rule dvd_diff_nat)
  then obtain n1 where n1: "len - PREFETCH_DISTANCE = ?d * n1" by blast
  from p obtain n2 where n2: "PREFETCH_DISTANCE = ?d * n2" by blast
  have len: "len = ?d * n1 + ?d * n2" using n1 n2 assms(3) by linarith
  obtain f where f: "load_lanes state 0 = Some f" using load_lanes_returns assms(5) by blast
  have l: "0 + 64 * (m * n1 + m * n2) \<le> length spad" using assms(4) len m by (simp add: algebra_simps flip: m)
  obtain h' f' sp' where u: "hash_loop ?A spad 0 (0 + 64 * (m * n1 + m * n2)) AES_HASH_1R_STATE = Some h'"
    "fill_loop (fill_round ?A) 0 (0 + 64 * (m * n1 + m * n2)) f spad = Some (f', sp')"
    "units ?A (m * n1 + m * n2) 0 (spad, AES_HASH_1R_STATE, f) = Some (sp', h', f')"
    using units_two_passes [OF l] by blast
  have len': "0 + 64 * (m * n1 + m * n2) = len" unfolding len m [symmetric] by (simp add: algebra_simps)
  obtain state' where st: "store_lanes state 0 f' = Some state'" using store_lanes_Some [of 0 state f'] assms(5) by auto
  obtain x where x: "units ?A (m * n1) 0 (spad, AES_HASH_1R_STATE, f) = Some x"
    "units ?A (m * n2) (?d * n1) x = Some (sp', h', f')"
    using u(3) unfolding units_add by (auto simp: bind_eq_Some_conv m mult.assoc [symmetric])
  have l1: "hash_and_fill_loop ?A softAes unroll 0 (len - PREFETCH_DISTANCE) (spad, AES_HASH_1R_STATE, f) = Some (?d * n1, x)"
    using loop_units [OF m, of ?A 0 n1] x(1) by (simp add: n1)
  have l2: "hash_and_fill_loop ?A softAes unroll (?d * n1) len x = Some (len, sp', h', f')"
    using loop_units [OF m, of ?A "?d * n1" n2] x(2) by (simp add: len)
  show ?thesis
    using u(1,2) assms(3)
    by (simp add: hashAndFillAes1Rx4_def hashAes1Rx4_def fillAes1Rx4_def f l1 l2 st len' [simplified] Let_def)
qed

text \<open>
  C18. Whichever of its five instances is used, \<open>hashAndFillAes1Rx4\<close> returns and does in one pass over the
  scratchpad what \<open>hashAes1Rx4\<close> and then \<open>fillAes1Rx4\<close> do: the hash is that of the old contents, the
  scratchpad and the generator state are those that the generator leaves.
\<close>

theorem hash_and_fill_fused:
  assumes "(softAes, unroll) \<in> set (hard_impl # soft_impls)"
    and "256 dvd len" "PREFETCH_DISTANCE \<le> len" "len \<le> length spad" "64 \<le> length state"
  shows "\<exists>hash state' spad'.
    hashAndFillAes1Rx4 hw T softAes unroll spad len state = Some (spad', hash, state') \<and>
    hashAes1Rx4 (aes_pair hw T softAes) spad len = Some hash \<and>
    fillAes1Rx4 (aes_pair hw T softAes) state len spad = Some (state', spad')"
  using assms by (rule one_pass_is_two)

theorem hash_and_fill_fused_witness:
  "\<forall>hw T. \<exists>hash state' spad'.
    hashAndFillAes1Rx4 hw T 2 4 (replicate 7168 0) 7168 (replicate 64 0) = Some (spad', hash, state') \<and>
    hashAes1Rx4 (aes_pair hw T 2) (replicate 7168 0) 7168 = Some hash \<and>
    fillAes1Rx4 (aes_pair hw T 2) (replicate 64 0) 7168 (replicate 7168 0) = Some (state', spad')"
proof (intro allI, rule hash_and_fill_fused)
  show "256 dvd (7168 :: nat)" by simp
qed (simp_all add: soft_impls_def PREFETCH_DISTANCE_def)

end
