(* ===== verification/Rx_Hash.thy ===== *)
theory Rx_Hash
  imports Aes_Hash Rx_Vm Blake2b_RFC
begin

text \<open>
  The RandomX hash: the parts of \<open>virtual_machine.cpp\<close> that use AES (program generation, scratchpad,
  final result) and \<open>randomx_calculate_hash\<close> of \<open>randomx.cpp\<close> with its pipelined form
  \<open>randomx_calculate_hash_first\<close> and \<open>randomx_calculate_hash_next\<close>. The platform of a machine is a
  record: the AES instructions and the tables of the soft AES, the template argument \<open>softAes\<close>, the
  instance that \<open>GetSoftAESImpl\<close> returns, the floating-point unit, \<open>datasetRead\<close>, and the
  indeterminate state on the stack of \<open>rx_blake2b\<close>.
\<close>

record rx_platform =
  pl_hw :: aes_instructions
  pl_luts :: aes_luts
  pl_soft :: bool
  pl_impl :: "nat \<times> nat"
  pl_fpu :: fpu
  pl_read :: "u64 \<Rightarrow> u64 list option"
  pl_blake :: blake2b_state

text \<open>
  What a run finds in uninitialised memory: the local registers \<open>f\<close> and \<open>e\<close> and the bytecode array.
\<close>

type_synonym junk = "rx_vec_f128 list \<times> rx_vec_f128 list \<times> InstructionByteCode list"

definition RANDOMX_HASH_SIZE :: nat where "RANDOMX_HASH_SIZE = 32"

definition ScratchpadSize :: "RandomX_Configuration \<Rightarrow> nat" where
  "ScratchpadSize cfg = unat (ScratchpadL3_Size cfg)"

definition vm_aes :: "rx_platform \<Rightarrow> aes_instructions" where
  "vm_aes P = aes_pair (pl_hw P) (pl_luts P) (if pl_soft P then 1 else 0)"

text \<open>\<open>rx_blake2b_wrapper::run(out, outlen, in, inlen)\<close>: the new contents of \<open>out\<close>.\<close>

definition blake2b_run :: "rx_platform \<Rightarrow> bytes \<Rightarrow> nat \<Rightarrow> bytes \<Rightarrow> bytes" where
  "blake2b_run P out outlen inp =
     (case rx_blake2b (pl_blake P) (Some out) outlen (Some inp) (length inp) of (_, out') \<Rightarrow>
        (case out' of None \<Rightarrow> out | Some out' \<Rightarrow> out'))"

text \<open>The bytes of the \<open>RegisterFile\<close>, and writing 64 bytes at its member \<open>a\<close>.\<close>

definition register_file_bytes :: "RegisterFile \<Rightarrow> bytes" where
  "register_file_bytes reg =
     concat (map store64 (rf_r reg)) @ concat (map store_vec (rf_f reg)) @ concat (map store_vec (rf_e reg)) @
     concat (map store_vec (rf_a reg))"

definition set_a_bytes :: "bytes \<Rightarrow> vm \<Rightarrow> vm" where
  "set_a_bytes b s = s\<lparr>vm_reg := (vm_reg s)\<lparr>rf_a :=
     map (\<lambda>i. (load64 (drop (16 * i) b), load64 (drop (16 * i + 8) b))) [0..<RegisterCountFlt]\<rparr>\<rparr>"

subsection \<open>virtual_machine.cpp\<close>

definition resetRoundingMode :: "vm \<Rightarrow> vm" where
  "resetRoundingMode s = s\<lparr>vm_mxcsr := rx_mxcsr_default\<rparr>"

text \<open>The generator state is written back to \<open>seed\<close>.\<close>

definition initScratchpad :: "rx_platform \<Rightarrow> RandomX_Configuration \<Rightarrow> bytes \<Rightarrow> vm \<Rightarrow> (bytes \<times> vm) option" where
  "initScratchpad P cfg seed s = do {
     (seed, sp) \<leftarrow> fillAes1Rx4 (vm_aes P) seed (ScratchpadSize cfg) (vm_scratchpad s);
     Some (seed, s\<lparr>vm_scratchpad := sp\<rparr>)
   }"

definition generateProgram :: "rx_platform \<Rightarrow> RandomX_Configuration \<Rightarrow> bytes \<Rightarrow> vm \<Rightarrow> vm option" where
  "generateProgram P cfg seed s = do {
     p \<leftarrow> fillAes4Rx4 (vm_aes P) cfg seed (128 + ProgramSize cfg * 8) (vm_program s);
     Some (s\<lparr>vm_program := p\<rparr>)
   }"

definition vm_run :: "rx_platform \<Rightarrow> RandomX_Configuration \<Rightarrow> junk \<Rightarrow> bytes \<Rightarrow> vm \<Rightarrow> vm option" where
  "vm_run P cfg = (\<lambda>(f0, e0, bc0) seed s. do {
     s \<leftarrow> generateProgram P cfg seed s;
     run_program (pl_fpu P) cfg (pl_read P) f0 e0 bc0 s
   })"

text \<open>The output buffer held \<open>out\<close> before.\<close>

definition getFinalResult :: "rx_platform \<Rightarrow> RandomX_Configuration \<Rightarrow> bytes \<Rightarrow> vm \<Rightarrow> (bytes \<times> vm) option" where
  "getFinalResult P cfg out s = do {
     h \<leftarrow> hashAes1Rx4 (vm_aes P) (vm_scratchpad s) (ScratchpadSize cfg);
     let s = set_a_bytes h s;
     Some (blake2b_run P out RANDOMX_HASH_SIZE (register_file_bytes (vm_reg s)), s)
   }"

definition hashAndFill :: "rx_platform \<Rightarrow> RandomX_Configuration \<Rightarrow> bytes \<Rightarrow> bytes \<Rightarrow> vm \<Rightarrow> (bytes \<times> bytes \<times> vm) option" where
  "hashAndFill P cfg out fill_state s = do {
     (sp, h, fill_state) \<leftarrow>
       (if \<not> pl_soft P
        then hashAndFillAes1Rx4 (pl_hw P) (pl_luts P) (fst hard_impl) (snd hard_impl) (vm_scratchpad s) (ScratchpadSize cfg) fill_state
        else hashAndFillAes1Rx4 (pl_hw P) (pl_luts P) (fst (pl_impl P)) (snd (pl_impl P)) (vm_scratchpad s) (ScratchpadSize cfg) fill_state);
     let s = set_a_bytes h (s\<lparr>vm_scratchpad := sp\<rparr>);
     Some (blake2b_run P out RANDOMX_HASH_SIZE (register_file_bytes (vm_reg s)), fill_state, s)
   }"

subsection \<open>randomx.cpp\<close>

text \<open>The number of passes of the chain loop; the subtraction is on 32-bit numbers.\<close>

definition chain_count :: "RandomX_Configuration \<Rightarrow> nat" where
  "chain_count cfg = unat (of_nat (ProgramCount cfg) - 1 :: u32)"

text \<open>The loop over \<open>chain\<close>; \<open>J\<close> gives what each run finds in uninitialised memory.\<close>

fun chain_loop :: "rx_platform \<Rightarrow> RandomX_Configuration \<Rightarrow> (nat \<Rightarrow> junk) \<Rightarrow> nat \<Rightarrow> nat \<Rightarrow> bytes \<Rightarrow> vm \<Rightarrow> (bytes \<times> vm) option" where
  "chain_loop P cfg J chain 0 tempHash s = Some (tempHash, s)"
| "chain_loop P cfg J chain (Suc n) tempHash s = do {
     s \<leftarrow> vm_run P cfg (J chain) tempHash s;
     chain_loop P cfg J (chain + 1) n (blake2b_run P tempHash 64 (register_file_bytes (vm_reg s))) s
   }"

text \<open>The runs of all programs of a hash: the loop and the last run.\<close>

definition run_chain :: "rx_platform \<Rightarrow> RandomX_Configuration \<Rightarrow> (nat \<Rightarrow> junk) \<Rightarrow> bytes \<Rightarrow> vm \<Rightarrow> (bytes \<times> vm) option" where
  "run_chain P cfg J tempHash s = do {
     (tempHash, s) \<leftarrow> chain_loop P cfg J 0 (chain_count cfg) tempHash s;
     s \<leftarrow> vm_run P cfg (J (chain_count cfg)) tempHash s;
     Some (tempHash, s)
   }"

text \<open>\<open>th0\<close> is the indeterminate array \<open>tempHash\<close>.\<close>

definition randomx_calculate_hash :: "rx_platform \<Rightarrow> RandomX_Configuration \<Rightarrow> (nat \<Rightarrow> junk) \<Rightarrow> bytes \<Rightarrow> bytes \<Rightarrow> bytes \<Rightarrow> vm \<Rightarrow>
    (bytes \<times> vm) option" where
  "randomx_calculate_hash P cfg J th0 inp out s = do {
     let tempHash = blake2b_run P th0 64 inp;
     (tempHash, s) \<leftarrow> initScratchpad P cfg tempHash s;
     let s = resetRoundingMode s;
     (_, s) \<leftarrow> run_chain P cfg J tempHash s;
     getFinalResult P cfg out s
   }"

definition randomx_calculate_hash_first :: "rx_platform \<Rightarrow> RandomX_Configuration \<Rightarrow> bytes \<Rightarrow> bytes \<Rightarrow> vm \<Rightarrow> (bytes \<times> vm) option" where
  "randomx_calculate_hash_first P cfg tempHash inp s = do {
     let tempHash = blake2b_run P tempHash 64 inp;
     initScratchpad P cfg tempHash s
   }"

text \<open>The output, \<open>tempHash\<close> afterwards and the machine.\<close>

definition randomx_calculate_hash_next :: "rx_platform \<Rightarrow> RandomX_Configuration \<Rightarrow> (nat \<Rightarrow> junk) \<Rightarrow> bytes \<Rightarrow> bytes \<Rightarrow> bytes \<Rightarrow> vm \<Rightarrow>
    (bytes \<times> bytes \<times> vm) option" where
  "randomx_calculate_hash_next P cfg J tempHash nextInput out s = do {
     let s = resetRoundingMode s;
     (tempHash, s) \<leftarrow> run_chain P cfg J tempHash s;
     let tempHash = blake2b_run P tempHash 64 nextInput;
     hashAndFill P cfg out tempHash s
   }"

end
