(* ===== verification/Bytecode_Fresh.thy ===== *)
theory Bytecode_Fresh
  imports Rx_Vm_Safety
begin

text \<open>
  A run does not depend on what the bytecode array and the local floating-point registers held before
  it: the compiler sets every field of a slot that the slot's instruction reads, and the first
  iteration overwrites the registers. This is what makes the result of a hash a function of its
  input although the virtual machine is reused.
\<close>

subsection \<open>Slots that behave alike\<close>

definition slot_eq :: "InstructionByteCode \<Rightarrow> InstructionByteCode \<Rightarrow> bool" where
  "slot_eq b b' \<longleftrightarrow> (\<forall>F config pc st. executeInstruction F config b pc st = executeInstruction F config b' pc st)"

lemma slot_eqI:
  assumes "\<And>F config pc st. executeInstruction F config b pc st = executeInstruction F config b' pc st"
  shows "slot_eq b b'"
  using assms by (simp add: slot_eq_def)

definition case_eq :: "(InstructionByteCode \<times> int list) option \<Rightarrow> (InstructionByteCode \<times> int list) option \<Rightarrow> bool" where
  "case_eq r r' \<longleftrightarrow> (case (r, r') of (Some (b, u), Some (b', u')) \<Rightarrow> slot_eq b b' \<and> u = u' | (None, None) \<Rightarrow> True | _ \<Rightarrow> False)"

lemmas slot_execution = compile_case_def case_eq_def compile_defs compile_CBRANCH_def Let_def slot_eq_def executeInstruction_def
  exe_int_defs exe_flt_defs exe_ISWAP_R_def exe_CBRANCH_def exe_CFROUND_def exe_ISTORE_def load64_at_def load_packed_int_def
  getScratchpadAddress_def

lemma compile_case_eq: "case_eq (compile_case cfg x instr i (b, u)) (compile_case cfg x instr i (b', u))"
proof (cases x)
  case IMUL_RCP
  then show ?thesis
    by (cases "randomx_reciprocal (ucast (getImm32 instr))") (auto simp: slot_execution)
next
  case CBRANCH
  then show ?thesis by (simp add: slot_execution cong: if_cong)
qed (auto simp: slot_execution)

lemma compileInstruction_eq: "case_eq (compileInstruction cfg instr i (b, u)) (compileInstruction cfg instr i (b', u))"
  using compile_case_eq [of cfg _ instr i b u b']
  by (cases "decode_freqs (inst_freqs cfg) (unat (opcode instr))") (simp_all add: compile_decode case_eq_def)

subsection \<open>Programs that behave alike\<close>

definition slots_eq :: "nat \<Rightarrow> InstructionByteCode list \<Rightarrow> InstructionByteCode list \<Rightarrow> bool" where
  "slots_eq k bc bc' \<longleftrightarrow> k \<le> length bc \<and> k \<le> length bc' \<and> (\<forall>j<k. slot_eq (bc ! j) (bc' ! j))"

lemma compile_from_eq:
  "slots_eq i bc bc' \<Longrightarrow> i + n \<le> length bc \<Longrightarrow> i + n \<le> length bc' \<Longrightarrow>
   compile_from cfg p i n (bc, u) = Some (r, v) \<Longrightarrow>
   \<exists>r'. compile_from cfg p i n (bc', u) = Some (r', v) \<and> slots_eq (i + n) r r'"
proof (induction n arbitrary: i bc bc' u)
  case (Suc n)
  from Suc.prems(4) obtain b v1 where c: "compileInstruction cfg (program_instr p i) i (bc ! i, u) = Some (b, v1)"
    and r: "compile_from cfg p (i + 1) n (bc[i := b], v1) = Some (r, v)"
    by (auto simp: bind_eq_Some_conv)
  from compileInstruction_eq [of cfg "program_instr p i" i "bc ! i" u "bc' ! i"] c obtain b'
    where c': "compileInstruction cfg (program_instr p i) i (bc' ! i, u) = Some (b', v1)" and e: "slot_eq b b'"
    by (cases "compileInstruction cfg (program_instr p i) i (bc' ! i, u)") (auto simp: case_eq_def)
  have "slots_eq (i + 1) (bc[i := b]) (bc'[i := b'])"
    using Suc.prems(1-3) e by (auto simp: slots_eq_def nth_list_update less_Suc_eq)
  from Suc.IH [OF this _ _ r] Suc.prems(2,3) c' show ?case by auto
qed auto

lemma compileProgram_eq:
  assumes "compileProgram cfg p bc = Some r" "ProgramSize cfg \<le> length bc" "ProgramSize cfg \<le> length bc'"
  shows "\<exists>r'. compileProgram cfg p bc' = Some r' \<and> slots_eq (ProgramSize cfg) r r'"
proof -
  from assms(1) obtain v where "compile_from cfg p 0 (ProgramSize cfg) (bc, beginCompilation) = Some (r, v)"
    by (auto simp: compileProgram_def)
  from compile_from_eq [OF _ _ _ this, of bc'] assms(2,3) show ?thesis
    by (auto simp: compileProgram_def slots_eq_def)
qed

lemma execute_from_eq:
  "execute_from F config bc n pc st = Some st' \<Longrightarrow> slots_eq n bc bc' \<longrightarrow> execute_from F config bc' n pc st = Some st'"
proof (erule execute_from.raw_induct [rotated], intro impI)
  fix ex F config bc n pc st st'
  assume IH: "\<And>F config bc n pc st st'. ex F config bc n pc st = Some st' \<Longrightarrow>
      slots_eq n bc bc' \<longrightarrow> execute_from F config bc' n pc st = Some st'"
    and r: "(if pc < int n then if 0 \<le> pc \<and> pc < int (length bc) then Option.bind (executeInstruction F config (bc ! nat pc) pc st)
      (\<lambda>(pc, st). ex F config bc n (pc + 1) st) else None else Some st) = Some st'"
    and s: "slots_eq n bc bc'"
  show "execute_from F config bc' n pc st = Some st'"
  proof (cases "pc < int n")
    case False
    with r show ?thesis by (subst execute_from.simps) simp
  next
    case True
    with r have pc: "0 \<le> pc" by (auto split: if_splits)
    with True s have e: "executeInstruction F config (bc' ! nat pc) pc st = executeInstruction F config (bc ! nat pc) pc st"
      and l: "pc < int (length bc')"
      by (auto simp: slots_eq_def slot_eq_def)
    from r True pc obtain pc1 st1 where x: "executeInstruction F config (bc ! nat pc) pc st = Some (pc1, st1)"
      and r1: "ex F config bc n (pc1 + 1) st1 = Some st'"
      by (auto simp: bind_eq_Some_conv split: if_splits)
    from IH [OF r1] s have "execute_from F config bc' n (pc1 + 1) st1 = Some st'" by blast
    with True pc l x show ?thesis by (subst execute_from.simps) (simp add: e)
  qed
qed

lemma execute_bytecode_eq:
  assumes "slots_eq (ProgramSize cfg) bc bc'" "slots_eq (ProgramSize cfg) bc' bc"
  shows "executeBytecode F cfg config bc st = executeBytecode F cfg config bc' st"
  unfolding executeBytecode_def
  using execute_from_eq [of F config bc "ProgramSize cfg" 0 st _ bc'] execute_from_eq [of F config bc' "ProgramSize cfg" 0 st _ bc] assms
  by (cases "execute_from F config bc (ProgramSize cfg) 0 st"; cases "execute_from F config bc' (ProgramSize cfg) 0 st") auto


lemma slots_eq_sym: "slots_eq n bc bc' \<Longrightarrow> slots_eq n bc' bc"
  by (simp add: slots_eq_def slot_eq_def)

subsection \<open>Runs\<close>

lemma load_registers_fresh:
  assumes "nr_r (nreg st) = nr_r (nreg st')" "nr_a (nreg st) = nr_a (nreg st')" "scratchpad st = scratchpad st'" "mxcsr st = mxcsr st'"
  shows "load_registers F cfg config a0 a1 st = load_registers F cfg config a0 a1 st'"
proof -
  have e: "st\<lparr>nreg := (nreg st)\<lparr>nr_r := x, nr_f := y, nr_e := z\<rparr>\<rparr> = st'\<lparr>nreg := (nreg st')\<lparr>nr_r := x, nr_f := y, nr_e := z\<rparr>\<rparr>" for x y z
    using assms(2-4) by simp
  show ?thesis by (simp add: load_registers_def Let_def assms(1,3) e)
qed

lemma iteration_slots:
  assumes "slots_eq (ProgramSize cfg) bc bc'"
  shows "iteration F cfg read config offset bc = iteration F cfg read config offset bc'"
  by (rule ext) (simp add: iteration_def execute_bytecode_eq [OF assms slots_eq_sym [OF assms]])

text \<open>The indeterminate contents do not matter.\<close>

lemma execute_fresh:
  assumes "0 < ProgramIterations cfg" "ProgramSize cfg \<le> length bc0" "ProgramSize cfg \<le> length bc0'"
    and "compileProgram cfg (vm_program s) bc0 = Some bc"
    and "vm_program s' = vm_program s" "vm_mem s' = vm_mem s" "vm_scratchpad s' = vm_scratchpad s" "vm_mxcsr s' = vm_mxcsr s"
      "vm_config s' = vm_config s" "datasetOffset s' = datasetOffset s" "rf_a (vm_reg s') = rf_a (vm_reg s)"
  shows "execute F cfg read f0 e0 bc0 s = execute F cfg read f0' e0' bc0' s'"
proof -
  obtain bc' where bc': "compileProgram cfg (vm_program s) bc0' = Some bc'" "slots_eq (ProgramSize cfg) bc bc'"
    using compileProgram_eq [OF assms(4,2,3)] by blast
  obtain n where n: "ProgramIterations cfg = Suc n" using assms(1) by (cases "ProgramIterations cfg") auto
  let ?st = "\<lambda>f0 e0. \<lparr>nreg = \<lparr>nr_r = replicate RegistersCount 0, nr_f = f0, nr_e = e0, nr_a = rf_a (vm_reg s)\<rparr>,
    scratchpad = vm_scratchpad s, mxcsr = vm_mxcsr s\<rparr>"
  have "load_registers F cfg config a0 a1 (?st f0 e0) = load_registers F cfg config a0 a1 (?st f0' e0')" for config a0 a1
    by (rule load_registers_fresh) simp_all
  then have "iterations (ProgramIterations cfg) (iteration F cfg read (vm_config s) (datasetOffset s) bc) (a0, a1, m, ?st f0 e0) =
      iterations (ProgramIterations cfg) (iteration F cfg read (vm_config s) (datasetOffset s) bc) (a0, a1, m, ?st f0' e0')" for a0 a1 m
    by (simp add: n iteration_def)
  note it = this
  have e: "s\<lparr>vm_reg := (vm_reg s)\<lparr>rf_r := x, rf_f := y, rf_e := z\<rparr>, vm_mem := m, vm_scratchpad := p, vm_mxcsr := c\<rparr> =
      s'\<lparr>vm_reg := (vm_reg s')\<lparr>rf_r := x, rf_f := y, rf_e := z\<rparr>, vm_mem := m, vm_scratchpad := p, vm_mxcsr := c\<rparr>" for x y z m p c
    using assms(5-) by simp
  show ?thesis
    by (simp add: execute_def assms(4-) bc'(1) Let_def iteration_slots [OF bc'(2), symmetric] it e)
qed


lemma run_program_fresh:
  assumes "config_ok cfg" "0 < ProgramIterations cfg" "ProgramSize cfg \<le> length bc0" "ProgramSize cfg \<le> length bc0'"
    and "vm_program s' = vm_program s" "vm_scratchpad s' = vm_scratchpad s" "vm_mxcsr s' = vm_mxcsr s"
  shows "run_program F cfg read f0 e0 bc0 s = run_program F cfg read f0' e0' bc0' s'"
proof -
  have p: "vm_program (initialize t) = vm_program t" "vm_scratchpad (initialize t) = vm_scratchpad t"
    "vm_mxcsr (initialize t) = vm_mxcsr t" for t
    by (simp_all add: initialize_def Let_def)
  have i: "vm_mem (initialize s') = vm_mem (initialize s)" "vm_config (initialize s') = vm_config (initialize s)"
    "datasetOffset (initialize s') = datasetOffset (initialize s)" "rf_a (vm_reg (initialize s')) = rf_a (vm_reg (initialize s))"
    by (simp_all add: initialize_def Let_def assms(5))
  obtain bc where "compileProgram cfg (vm_program (initialize s)) bc0 = Some bc"
    using compileProgram_ok [OF assms(1,3), of "vm_program s"] by (auto simp: returns_def p)
  from execute_fresh [OF assms(2-4) this] show ?thesis
    unfolding run_program_def by (simp add: p i assms(5-7))
qed

end
