(* ===== verification/Aes_Fips.thy ===== *)
theory Aes_Fips
  imports Soft_Aes
begin

text \<open>
  The reference for the soft AES, FIPS 197: the field GF(2^8) (section 4.2), the S-box (5.1.1) and the
  rounds of the cipher and of its inverse (5.1, 5.3), defined as the standard does and apart from the
  code; then the proof that the tables of \<open>Soft_Aes\<close> implement them. The loop of the initialiser is
  followed through the 255 powers of the generator 3: the order of 3 is computed by the
  simplifier on integers, everything else follows from the algebra of the field.
\<close>

subsection \<open>Multiplication in GF(2^8)\<close>

definition xtime :: "u8 \<Rightarrow> u8" where
  "xtime b = push_bit 1 b XOR (if bit b 7 then 0x1B else 0)"

definition gmul :: "u8 \<Rightarrow> u8 \<Rightarrow> u8" where
  "gmul a b = foldr (\<lambda>i s. (if bit b i then (xtime ^^ i) a else 0) XOR s) [0..<8] 0"

lemma u8_eqI:
  fixes a b :: u8
  assumes "bit a 0 = bit b 0" "bit a 1 = bit b 1" "bit a 2 = bit b 2" "bit a 3 = bit b 3"
    "bit a 4 = bit b 4" "bit a 5 = bit b 5" "bit a 6 = bit b 6" "bit a 7 = bit b 7"
  shows "a = b"
proof (rule bit_word_eqI)
  fix n assume "n < LENGTH(8)"
  then have "n \<in> {0, 1, 2, 3, 4, 5, 6, 7}" by auto
  with assms show "bit a n = bit b n" by auto
qed

lemma and_80: "(a AND 0x80 \<noteq> 0) = bit (a :: u8) 7"
proof -
  have "(0x80 :: u8) = push_bit 7 1" by (simp add: push_bit_eq_mult)
  then show ?thesis by (metis and_exp_eq_0_iff_not_bit push_bit_eq_mult mult.left_neutral)
qed

lemma bit_mult_2: "bit (b * 2 :: 'a::len word) n \<longleftrightarrow> n \<noteq> 0 \<and> n < LENGTH('a) \<and> bit b (n - 1)"
  using bit_double_iff [of b n] by (auto simp: mult.commute)

lemmas u8_bits = bit_mult_2 bit_xor_iff bit_or_iff bit_and_iff bit_push_bit_iff bit_drop_bit_eq

lemma next_p_xtime: "next_p p = xtime p XOR p"
  by (simp add: next_p_def xtime_def and_80 xor.commute xor.left_commute)

lemma bit_xtime:
  "bit (xtime b) 0 = bit b 7" "bit (xtime b) (Suc 0) = (bit b 0 \<noteq> bit b 7)" "bit (xtime b) 2 = bit b 1"
  "bit (xtime b) 3 = (bit b 2 \<noteq> bit b 7)" "bit (xtime b) 4 = (bit b 3 \<noteq> bit b 7)" "bit (xtime b) 5 = bit b 4"
  "bit (xtime b) 6 = bit b 5" "bit (xtime b) 7 = bit b 6"
  by (simp_all add: xtime_def u8_bits)

lemma bit_next_p:
  "bit (next_p b) 0 = (bit b 0 \<noteq> bit b 7)" "bit (next_p b) (Suc 0) = (bit b 1 \<noteq> (bit b 0 \<noteq> bit b 7))"
  "bit (next_p b) 2 = (bit b 2 \<noteq> bit b 1)" "bit (next_p b) 3 = (bit b 3 \<noteq> (bit b 2 \<noteq> bit b 7))"
  "bit (next_p b) 4 = (bit b 4 \<noteq> (bit b 3 \<noteq> bit b 7))" "bit (next_p b) 5 = (bit b 5 \<noteq> bit b 4)"
  "bit (next_p b) 6 = (bit b 6 \<noteq> bit b 5)" "bit (next_p b) 7 = (bit b 7 \<noteq> bit b 6)"
  by (simp_all add: next_p_xtime bit_xor_iff bit_xtime) blast+

text \<open>The three shifts of \<open>next_q\<close> are a running parity of the bits.\<close>

fun parity :: "u8 \<Rightarrow> nat \<Rightarrow> bool" where
  "parity q 0 = bit q 0"
| "parity q (Suc n) = (bit q (Suc n) \<noteq> parity q n)"

lemma bit_shift_xor:
  "bit (x XOR push_bit k x :: u8) n \<longleftrightarrow> (bit x n \<noteq> (k \<le> n \<and> n < 8 \<and> bit x (n - k)))"
  by (auto simp: bit_xor_iff bit_push_bit_iff)

lemma bit_running:
  defines "r q \<equiv> (let q = q XOR push_bit 1 q; q = q XOR push_bit 2 q in q XOR push_bit 4 q :: u8)"
  assumes "n < 8"
  shows "bit (r q) n = parity q n"
proof -
  from assms have "n \<in> {0, 1, 2, 3, 4, 5, 6, 7}" by auto
  then show ?thesis unfolding r_def Let_def
    by (elim insertE emptyE; simp only: bit_shift_xor; simp add: numeral_eq_Suc; argo)
qed

lemma bit_next_q:
  assumes "n < 8"
  shows "bit (next_q q) n = (parity q n \<noteq> (parity q 7 \<and> (n = 0 \<or> n = 3)))"
proof -
  have "bit (9 :: u8) n = (n = 0 \<or> n = 3)"
    using assms by (auto simp: less_Suc_eq numeral_eq_Suc)
  with bit_running [of n q] bit_running [of 7 q] assms show ?thesis
    by (simp add: next_q_def and_80 bit_xor_iff Let_def)
qed

lemma next_p_next_q: "next_p (next_q q) = q"
  by (rule u8_eqI; simp only: One_nat_def bit_next_p; simp add: bit_next_q; simp add: numeral_eq_Suc; argo)

lemma next_q_next_p: "next_q (next_p q) = q"
  by (metis next_p_next_q finite_UNIV_surj_inj finite_class.finite_UNIV inj_eq surj_def)


subsection \<open>The powers of 3\<close>

text \<open>The trajectory of \<open>p\<close>, on integers, where the simplifier computes.\<close>

definition times3 :: "int \<Rightarrow> int" where
  "times3 p = p XOR (2 * p) XOR (if 128 \<le> p then 0x11B else 0)"

text \<open>From \<open>p\<close>, 1 is reached after exactly \<open>n\<close> steps.\<close>

fun reaches_1 :: "nat \<Rightarrow> int \<Rightarrow> bool" where
  "reaches_1 0 p = False"
| "reaches_1 (Suc n) p =
     (let t = times3 p in if t = 1 then n = 0 else 0 \<le> t \<and> t < 256 \<and> reaches_1 n t)"

lemma reaches_1_numeral:
  "reaches_1 (numeral k) p =
     (let t = times3 p in if t = 1 then (pred_numeral k :: nat) = 0 else 0 \<le> t \<and> t < 256 \<and> reaches_1 (pred_numeral k) t)"
  by (simp add: numeral_eq_Suc)

lemma reaches_1_255: "reaches_1 255 1"
  by (simp add: reaches_1_numeral times3_def)

lemma next_p_of_int:
  assumes "0 \<le> p" "p < 256"
  shows "next_p (word_of_int p) = word_of_int (times3 p)"
proof -
  have "bit (word_of_int p :: u8) 7 = bit p 7" by (simp add: bit_word_of_int_iff)
  also have "\<dots> = odd (p div 128)" by (simp add: bit_iff_odd)
  also have "\<dots> = (128 \<le> p)"
  proof -
    have "p div 128 = (if 128 \<le> p then 1 else 0)" using assms by auto
    then show ?thesis by simp
  qed
  finally have b: "bit (word_of_int p :: u8) 7 = (128 \<le> p)" .
  have e: "(0x1B :: u8) = 0x11B" by simp
  show ?thesis unfolding next_p_xtime xtime_def times3_def b e
    by (simp add: of_int_xor_eq xor.commute xor.left_commute mult.commute)
qed

lemma reaches_1_next_p:
  assumes "reaches_1 n p" "0 \<le> p" "p < 256"
  shows "(next_p ^^ n) (word_of_int p) = 1 \<and> (\<forall>k. 0 < k \<and> k < n \<longrightarrow> (next_p ^^ k) (word_of_int p) \<noteq> 1)"
  using assms
proof (induction n arbitrary: p)
  case (Suc n)
  let ?t = "times3 p"
  have s: "(next_p ^^ Suc k) (word_of_int p) = (next_p ^^ k) (word_of_int ?t)" for k
    by (simp only: funpow_Suc_right o_apply next_p_of_int [OF Suc.prems(2,3)])
  show ?case
  proof (cases "?t = 1")
    case True
    with Suc.prems(1) have "n = 0" by (simp add: Let_def)
    with s [of 0] True show ?thesis by simp
  next
    case False
    with Suc.prems(1) have t: "0 \<le> ?t" "?t < 256" "reaches_1 n ?t" by (auto simp: Let_def)
    then have "uint (word_of_int ?t :: u8) = ?t" by (simp add: uint_word_of_int_eq take_bit_eq_mod)
    with False have "(word_of_int ?t :: u8) \<noteq> 1" by auto
    have ih: "(next_p ^^ n) (word_of_int ?t) = 1"
      "\<And>k. 0 < k \<Longrightarrow> k < n \<Longrightarrow> (next_p ^^ k) (word_of_int ?t) \<noteq> 1"
      using Suc.IH [OF t(3,1,2)] by blast+
    have "(next_p ^^ k) (word_of_int p) \<noteq> 1" if "0 < k" "k < Suc n" for k
    proof (cases k)
      case (Suc j)
      with that \<open>(word_of_int ?t :: u8) \<noteq> 1\<close> ih(2) [of j] show ?thesis
        unfolding Suc s by (cases "j = 0") simp_all
    qed (use that in simp)
    moreover have "(next_p ^^ Suc n) (word_of_int p) = 1" by (simp only: s ih(1))
    ultimately show ?thesis by blast
  qed
qed simp


lemma power3_period: "(next_p ^^ 255) 1 = 1"
  and power3_ne_1: "0 < k \<Longrightarrow> k < 255 \<Longrightarrow> (next_p ^^ k) 1 \<noteq> 1"
  using reaches_1_next_p [OF reaches_1_255] by simp_all

text \<open>The two sequences of the initialiser; \<open>q\<close> runs through the powers of the inverse of 3.\<close>

definition power3 :: "nat \<Rightarrow> u8" where "power3 k = (next_p ^^ k) 1"
definition inv_power3 :: "nat \<Rightarrow> u8" where "inv_power3 k = (next_q ^^ k) 1"

lemma next_p_inject: "next_p a = next_p b \<longleftrightarrow> a = b"
  by (metis next_q_next_p)

lemma next_p_funpow_inject: "(next_p ^^ k) a = (next_p ^^ k) b \<longleftrightarrow> a = b"
  by (induction k) (simp_all add: next_p_inject)

lemma next_p_inv_power3: "(next_p ^^ k) (inv_power3 k) = 1"
  unfolding inv_power3_def
proof (induction k)
  case (Suc k)
  have "(next_p ^^ Suc k) ((next_q ^^ Suc k) 1) = (next_p ^^ k) (next_p (next_q ((next_q ^^ k) 1)))"
    by (simp only: funpow_Suc_right [of _ next_p] funpow.simps(2) [of _ next_q] o_apply)
  then show ?case by (simp only: next_p_next_q Suc)
qed simp

lemma power3_eq:
  assumes "i \<in> {1..255}" "j \<in> {1..255}" "power3 i = power3 j"
  shows "i = j"
proof -
  have *: False if "i < j" "i \<in> {1..255}" "j \<in> {1..255}" "power3 i = power3 j" for i j
  proof -
    have "j = i + (j - i)" using that(1) by simp
    then have "(next_p ^^ i) 1 = (next_p ^^ i) ((next_p ^^ (j - i)) 1)"
      using that(4) unfolding power3_def by (metis funpow_add o_apply)
    then have "(next_p ^^ (j - i)) 1 = 1" by (simp add: next_p_funpow_inject)
    moreover have "0 < j - i" "j - i < 255" using that(1-3) by auto
    ultimately show False using power3_ne_1 by blast
  qed
  then show ?thesis using assms by (metis linorder_neqE_nat)
qed

lemma inv_power3_eq:
  assumes "i \<in> {1..255}" "j \<in> {1..255}" "inv_power3 i = inv_power3 j"
  shows "i = j"
proof -
  have *: False if "i < j" "i \<in> {1..255}" "j \<in> {1..255}" "inv_power3 i = inv_power3 j" for i j
  proof -
    have "(next_p ^^ (j - i)) 1 = (next_p ^^ (j - i)) ((next_p ^^ i) (inv_power3 i))"
      by (simp only: next_p_inv_power3)
    also have "\<dots> = (next_p ^^ (j - i + i)) (inv_power3 j)" by (simp only: funpow_add o_apply that(4))
    also have "\<dots> = 1" using that(1) by (simp add: next_p_inv_power3)
    finally have "(next_p ^^ (j - i)) 1 = 1" .
    moreover have "0 < j - i" "j - i < 255" using that(1-3) by auto
    ultimately show False using power3_ne_1 by blast
  qed
  then show ?thesis using assms by (metis linorder_neqE_nat)
qed

lemma next_p_eq_0: "next_p a = 0 \<longleftrightarrow> a = 0"
proof -
  have "next_p 0 = 0" by (simp add: next_p_def)
  then show ?thesis by (metis next_p_inject)
qed

lemma power3_nonzero: "power3 k \<noteq> 0"
  unfolding power3_def by (induction k) (simp_all add: next_p_eq_0)

lemma inv_power3_nonzero: "inv_power3 k \<noteq> 0"
proof
  assume "inv_power3 k = 0"
  moreover have "(next_p ^^ k) 0 = 0" by (induction k) (simp_all add: next_p_eq_0)
  ultimately show False using next_p_inv_power3 [of k] by simp
qed

text \<open>Every byte but 0 is one of the 255 powers of 3.\<close>

lemma nonzero_power3:
  assumes "x \<noteq> (0 :: u8)"
  obtains k where "k \<in> {1..255}" "x = power3 k"
proof -
  have inj: "inj_on power3 {1..255}" using power3_eq by (blast intro: inj_onI)
  then have "card (power3 ` {1..255}) = 255" by (simp only: card_image card_atLeastAtMost)
  then have "card (power3 ` {1..255}) = card (UNIV - {0 :: u8})"
    by (simp only:) (simp add: card_Diff_singleton card_word)
  moreover have "power3 ` {1..255} \<subseteq> UNIV - {0}" using power3_nonzero by auto
  ultimately have "power3 ` {1..255} = UNIV - {0}" by (intro card_subset_eq) auto
  with assms that show thesis by (metis (no_types, lifting) Diff_iff UNIV_I imageE singletonD)
qed


subsection \<open>The S-box\<close>

text \<open>Section 5.1.1: the inverse in the field, 0 for 0, then the affine transformation.\<close>

definition all_bytes :: bytes where "all_bytes = map word_of_nat [0..<256]"

definition gf_inverse :: "u8 \<Rightarrow> u8" where
  "gf_inverse x = (case find (\<lambda>y. gmul x y = 1) all_bytes of Some y \<Rightarrow> y | None \<Rightarrow> 0)"

definition affine_bit :: "u8 \<Rightarrow> nat \<Rightarrow> bool" where
  "affine_bit b i = (bit b i \<noteq> (bit b ((i + 4) mod 8) \<noteq> (bit b ((i + 5) mod 8) \<noteq> (bit b ((i + 6) mod 8) \<noteq>
     (bit b ((i + 7) mod 8) \<noteq> bit (0x63 :: u8) i)))))"

definition affine :: "u8 \<Rightarrow> u8" where
  "affine b = foldr (\<lambda>i s. (if affine_bit b i then push_bit i 1 else 0) OR s) [0..<8] 0"

definition sub_byte :: "u8 \<Rightarrow> u8" where "sub_byte x = affine (gf_inverse x)"

definition inv_sub_byte :: "u8 \<Rightarrow> u8" where
  "inv_sub_byte y = (case find (\<lambda>x. sub_byte x = y) all_bytes of Some x \<Rightarrow> x | None \<Rightarrow> 0)"

lemma in_all_bytes [simp]: "x \<in> set all_bytes"
proof -
  have "x = word_of_nat (unat x)" "unat x \<in> set [0..<256]" using unsigned_less [of x] by simp_all
  then show ?thesis unfolding all_bytes_def set_map by blast
qed

lemma bit_foldr:
  "bit (foldr (\<lambda>i s. (if P i then push_bit i 1 else 0) OR s) is 0 :: u8) n \<longleftrightarrow> n \<in> set is \<and> n < 8 \<and> P n"
proof (induction "is")
  case (Cons i "is")
  have "bit (push_bit i 1 :: u8) n \<longleftrightarrow> n = i \<and> n < 8"
    by (auto simp: bit_push_bit_iff bit_1_iff simp del: push_bit_of_1)
  with Cons show ?case by (auto simp: bit_or_iff simp del: push_bit_of_1)
qed simp

lemma bit_affine: "i < 8 \<Longrightarrow> bit (affine b) i = affine_bit b i"
  by (simp add: affine_def bit_foldr)

lemma find_unique:
  assumes "x \<in> set xs" "P x" "\<And>y. P y \<Longrightarrow> y = x"
  shows "find P xs = Some x"
  using assms(1)
proof (induction xs)
  case (Cons y ys)
  show ?case
  proof (cases "y = x")
    case True
    with assms(2) show ?thesis by simp
  next
    case False
    with assms(3) have "\<not> P y" by blast
    with Cons False show ?thesis by simp
  qed
qed simp

lemma xtime_xor: "xtime (a XOR b) = xtime a XOR xtime b"
  by (simp add: xtime_def push_bit_xor bit_xor_iff xor.assoc xor.left_commute)

lemma xtime_funpow_xor: "(xtime ^^ i) (a XOR b) = (xtime ^^ i) a XOR (xtime ^^ i) b"
  by (induction i) (simp_all add: xtime_xor)

lemma gmul_xor: "gmul (a XOR b) c = gmul a c XOR gmul b c"
proof -
  have "foldr (\<lambda>i s. (if bit c i then (xtime ^^ i) (a XOR b) else 0) XOR s) is 0 =
      foldr (\<lambda>i s. (if bit c i then (xtime ^^ i) a else 0) XOR s) is 0 XOR
      foldr (\<lambda>i s. (if bit c i then (xtime ^^ i) b else 0) XOR s) is 0" for "is"
    by (induction "is") (simp_all add: xtime_funpow_xor xor.assoc xor.left_commute)
  then show ?thesis by (simp only: gmul_def)
qed

lemma xtime_foldr:
  "foldr (\<lambda>i s. (if bit c i then (xtime ^^ i) (xtime a) else 0) XOR s) is 0 =
   xtime (foldr (\<lambda>i s. (if bit c i then (xtime ^^ i) a else 0) XOR s) is 0)"
proof (induction "is")
  case Nil
  show ?case by (simp add: xtime_def)
next
  case (Cons i "is")
  moreover have "xtime 0 = 0" by (simp add: xtime_def)
  ultimately show ?case by (simp add: xtime_xor funpow_swap1)
qed

lemma gmul_next_p: "gmul (next_p a) b = next_p (gmul a b)"
proof -
  have "gmul (xtime a) b = xtime (gmul a b)" unfolding gmul_def by (rule xtime_foldr)
  then show ?thesis by (simp add: next_p_xtime gmul_xor)
qed

lemma gmul_1: "gmul 1 b = b"
proof -
  have x: "(xtime ^^ i) 1 = push_bit i 1" if "i < 8" for i
    using that
  proof (induction i)
    case (Suc i)
    then have "\<not> bit (push_bit i 1 :: u8) 7" by (simp add: bit_push_bit_iff bit_1_iff del: push_bit_of_1)
    moreover have "(xtime ^^ i) 1 = push_bit i 1" using Suc by simp
    ultimately have "(xtime ^^ Suc i) 1 = push_bit 1 (push_bit i 1)"
      by (simp only: funpow.simps(2) o_apply xtime_def if_False xor.right_neutral)
    then show ?case by (simp only: push_bit_push_bit plus_1_eq_Suc)
  qed simp
  have "foldr (\<lambda>i s. (if bit b i then (xtime ^^ i) 1 else 0) XOR s) is 0 =
      foldr (\<lambda>i s. (if bit b i then push_bit i 1 else 0) OR s) is 0"
    if "distinct is" "set is \<subseteq> {..<8}" for "is"
    using that
  proof (induction "is")
    case (Cons i "is")
    have "(if bit b i then push_bit i 1 else 0) AND (foldr (\<lambda>i s. (if bit b i then push_bit i 1 else 0) OR s) is (0 :: u8)) = 0"
    proof (rule bit_word_eqI)
      fix n assume "n < LENGTH(8)"
      show "bit ((if bit b i then push_bit i 1 else 0) AND (foldr (\<lambda>i s. (if bit b i then push_bit i 1 else 0) OR s) is (0 :: u8))) n =
        bit (0 :: u8) n"
        using Cons.prems(1) by (auto simp: bit_and_iff bit_foldr bit_push_bit_iff bit_1_iff simp del: push_bit_of_1)
    qed
    then have "(if bit b i then push_bit i 1 else 0) XOR (foldr (\<lambda>i s. (if bit b i then push_bit i 1 else 0) OR s) is 0) =
      (if bit b i then push_bit i 1 else 0) OR (foldr (\<lambda>i s. (if bit b i then push_bit i 1 else 0) OR s) is 0 :: u8)"
      by (simp only: disjunctive_xor_eq_or)
    with Cons x show ?case by (simp del: push_bit_of_1 cong: if_cong)
  qed simp
  from this [of "[0..<8]"] have "gmul 1 b = foldr (\<lambda>i s. (if bit b i then push_bit i 1 else 0) OR s) [0..<8] 0"
    unfolding gmul_def by (simp add: atLeast0LessThan)
  also have "\<dots> = b"
    by (rule bit_word_eqI) (simp add: bit_foldr del: push_bit_of_1)
  finally show ?thesis .
qed

lemma gmul_power3: "gmul (power3 k) b = (next_p ^^ k) b"
  unfolding power3_def by (induction k) (simp_all add: gmul_1 gmul_next_p)

lemma gf_inverse_power3: "gf_inverse (power3 k) = inv_power3 k"
proof -
  have "find (\<lambda>y. gmul (power3 k) y = 1) all_bytes = Some (inv_power3 k)"
    by (rule find_unique) (simp_all add: gmul_power3 next_p_inv_power3, metis next_p_inv_power3 next_p_funpow_inject)
  then show ?thesis by (simp add: gf_inverse_def)
qed


lemma bit_rotl8:
  "k < 8 \<Longrightarrow> 0 < k \<Longrightarrow> n < 8 \<Longrightarrow> bit (ROTL8 b k) n = bit b ((n + 8 - k) mod 8)"
  by (auto simp: ROTL8_def bit_or_iff bit_push_bit_iff bit_drop_bit_eq mod_if add.commute dest: bit_u8)

lemma xor_rearrange:
  "(a = (b = (c = (d = (e = f))))) = (a = (e = (d = (c = (b = f)))))"
  by argo

lemma sbox_value_affine: "sbox_value q = affine q"
proof (rule bit_word_eqI)
  fix n assume "n < LENGTH(8)"
  then have n: "n < 8" by simp
  have "(n + 8 - 1) mod 8 = (n + 7) mod 8" "(n + 8 - 2) mod 8 = (n + 6) mod 8"
    "(n + 8 - 3) mod 8 = (n + 5) mod 8" "(n + 8 - 4) mod 8 = (n + 4) mod 8" by (simp_all add: add.commute)
  with n show "bit (sbox_value q) n = bit (affine q) n"
    by (simp add: sbox_value_def bit_xor_iff bit_rotl8 bit_affine affine_bit_def del: mod_add_self2 One_nat_def) (rule xor_rearrange)
qed

text \<open>The affine transformation has an inverse.\<close>

definition affine_back :: "u8 \<Rightarrow> u8" where
  "affine_back b = ROTL8 b 1 XOR ROTL8 b 3 XOR ROTL8 b 6 XOR 0x05"

lemma affine_back: "affine_back (affine b) = b"
  by (rule u8_eqI; simp add: affine_back_def bit_xor_iff bit_rotl8 bit_affine affine_bit_def; argo?)


text \<open>The arrays after \<open>k\<close> passes of the loop.\<close>

definition filled :: "nat \<Rightarrow> u8 list \<Rightarrow> u8 list \<Rightarrow> bool" where
  "filled n s r \<longleftrightarrow> length s = 256 \<and> length r = 256 \<and>
     (\<forall>k \<in> {1..n}. s ! unat (power3 k) = affine (inv_power3 k) \<and> r ! unat (affine (inv_power3 k)) = power3 k)"

lemma unat_u8 [simp]: "unat (b :: u8) < 256"
  using unsigned_less [of b] by simp

lemma nth_update_u8:
  "length xs = 256 \<Longrightarrow> xs[unat (a :: u8) := x] ! unat b = (if a = b then x else xs ! unat b)"
  by (auto simp: nth_list_update word_unat_eq_iff)

lemma affine_inject: "affine a = affine b \<longleftrightarrow> a = b"
  by (metis affine_back)

lemma filled_Suc:
  assumes "filled n s r" "n < 255"
  shows "filled (Suc n) (s[unat (power3 (Suc n)) := affine (inv_power3 (Suc n))])
           (r[unat (affine (inv_power3 (Suc n))) := power3 (Suc n)])"
proof -
  have ne: "power3 (Suc n) \<noteq> power3 k" "inv_power3 (Suc n) \<noteq> inv_power3 k" if "k \<in> {1..n}" for k
    using that assms(2) power3_eq [of k "Suc n"] inv_power3_eq [of k "Suc n"] by auto
  have "{1..Suc n} = insert (Suc n) {1..n}" by auto
  with assms(1) ne show ?thesis
    by (simp add: filled_def nth_update_u8 affine_inject)
qed

lemma sbox_loop_power3:
  "n < 255 \<Longrightarrow> filled n s r \<Longrightarrow>
   returns (sbox_loop (power3 n) (inv_power3 n) s r) (\<lambda>(s', r'). filled 255 s' r')"
proof (induction "254 - n" arbitrary: n s r)
  case 0
  then have n: "Suc n = 255" by simp
  have "next_p (power3 n) = power3 (Suc n)" "next_q (inv_power3 n) = inv_power3 (Suc n)"
    by (simp_all add: power3_def inv_power3_def)
  moreover have "power3 (Suc n) = 1" unfolding n power3_def by (rule power3_period)
  ultimately show ?case
    using filled_Suc [OF 0(3,2)] unfolding n
    by (subst sbox_loop.simps) (simp add: Let_def sbox_value_affine returns_Some_iff)
next
  case (Suc m)
  have e: "next_p (power3 n) = power3 (Suc n)" "next_q (inv_power3 n) = inv_power3 (Suc n)"
    by (simp_all add: power3_def inv_power3_def)
  have "power3 (Suc n) \<noteq> 1" using power3_ne_1 [of "Suc n"] Suc(2,3) unfolding power3_def by simp
  moreover have "m = 254 - Suc n" "Suc n < 255" using Suc(2,3) by simp_all
  ultimately show ?case
    using Suc(1) [OF _ _ filled_Suc [OF Suc(4,3)]]
    by (subst sbox_loop.simps) (simp add: Let_def sbox_value_affine e)
qed

text \<open>The two arrays are the S-box of the standard and its inverse.\<close>

definition sboxes_ok :: "u8 list \<Rightarrow> u8 list \<Rightarrow> bool" where
  "sboxes_ok s r \<longleftrightarrow> length s = 256 \<and> length r = 256 \<and>
     (\<forall>b. s ! unat b = sub_byte b) \<and> (\<forall>b. r ! unat b = inv_sub_byte b)"

lemma gf_inverse_0: "gf_inverse 0 = 0"
proof -
  have "(xtime ^^ i) 0 = 0" for i by (induction i) (simp_all add: xtime_def)
  then have "foldr (\<lambda>i s. (if bit b i then (xtime ^^ i) 0 else 0) XOR s) is 0 = 0" for b :: u8 and "is"
    by (induction "is") simp_all
  then have "gmul 0 b = 0" for b by (simp add: gmul_def)
  then have "find (\<lambda>y. gmul 0 y = 1) all_bytes = None" unfolding find_None_iff by simp
  then show ?thesis by (simp add: gf_inverse_def)
qed

lemma affine_0: "affine 0 = 0x63"
proof (rule bit_word_eqI)
  fix n assume "n < LENGTH(8)"
  then show "bit (affine 0) n = bit (0x63 :: u8) n" by (simp add: bit_affine affine_bit_def)
qed

lemma gf_inverse_inject: "gf_inverse a = gf_inverse b \<longleftrightarrow> a = b"
proof
  assume e: "gf_inverse a = gf_inverse b"
  show "a = b"
  proof (cases "a = 0 \<or> b = 0")
    case True
    with e show ?thesis
      by (metis gf_inverse_0 gf_inverse_power3 inv_power3_nonzero nonzero_power3)
  next
    case False
    then obtain i j where "i \<in> {1..255}" "j \<in> {1..255}" "a = power3 i" "b = power3 j"
      using nonzero_power3 by metis
    with e inv_power3_eq show ?thesis by (auto simp: gf_inverse_power3)
  qed
qed simp

lemma inv_sub_byte_sub_byte [simp]: "inv_sub_byte (sub_byte b) = b"
proof -
  have "find (\<lambda>x. sub_byte x = sub_byte b) all_bytes = Some b"
    by (rule find_unique) (simp_all add: sub_byte_def affine_inject gf_inverse_inject)
  then show ?thesis by (simp add: inv_sub_byte_def)
qed

lemma sub_byte_surj: obtains x where "b = sub_byte x"
  by (metis finite_UNIV_inj_surj finite_class.finite_UNIV injI inv_sub_byte_sub_byte surj_def)

lemma sub_byte_inv_sub_byte [simp]: "sub_byte (inv_sub_byte b) = b"
  by (metis sub_byte_surj inv_sub_byte_sub_byte)

lemma sboxes_return: "returns sboxes (\<lambda>(s, r). sboxes_ok s r)"
proof -
  have "filled 0 (replicate 256 0) (replicate 256 0)" by (simp add: filled_def)
  from sbox_loop_power3 [OF _ this] obtain s r
    where l: "sbox_loop 1 1 (replicate 256 0) (replicate 256 0) = Some (s, r)" and f: "filled 255 s r"
    by (auto simp: returns_def power3_def inv_power3_def)
  let ?s = "s[unat (0 :: u8) := 0x63]" and ?r = "r[unat (affine 0) := 0]"
  have len: "length s = 256" "length r = 256" using f by (simp_all add: filled_def)
  have s: "?s ! unat b = sub_byte b \<and> ?r ! unat (sub_byte b) = b" for b
  proof (cases "b = 0")
    case True
    then show ?thesis by (simp only: nth_update_u8 len sub_byte_def gf_inverse_0 affine_0 if_True simp_thms)
  next
    case False
    then obtain k where k: "k \<in> {1..255}" "b = power3 k" by (rule nonzero_power3)
    moreover have "inv_power3 k \<noteq> 0" by (rule inv_power3_nonzero)
    moreover have "s ! unat (power3 k) = affine (inv_power3 k)" "r ! unat (affine (inv_power3 k)) = power3 k"
      using f k(1) unfolding filled_def by blast+
    ultimately show ?thesis using False
      by (simp only: nth_update_u8 len sub_byte_def gf_inverse_power3 affine_inject if_False simp_thms eq_commute [of 0])
  qed
  then have r: "?r ! unat b = inv_sub_byte b" for b
    by (metis sub_byte_surj inv_sub_byte_sub_byte)
  have "unat (affine 0) = 99" by (simp add: affine_0)
  with l s r len show ?thesis
    by (simp add: sboxes_def returns_Some_iff sboxes_ok_def)
qed


subsection \<open>The tables\<close>

lemma gmul_constants:
  "gmul a 1 = a"
  "gmul a 0x2 = xtime a"
  "gmul a 0x3 = a XOR xtime a"
  "gmul a 0x9 = a XOR xtime (xtime (xtime a))"
  "gmul a 0xb = a XOR xtime a XOR xtime (xtime (xtime a))"
  "gmul a 0xd = a XOR xtime (xtime a) XOR xtime (xtime (xtime a))"
  "gmul a 0xe = xtime a XOR xtime (xtime a) XOR xtime (xtime (xtime a))"
  by (simp_all add: gmul_def upt_rec numeral_2_eq_2 numeral_3_eq_3 xor.assoc)

lemma mul_gf2_stop: "mul_gf2_loop i 0 k s = Some s"
  by (subst mul_gf2_loop.simps) simp

lemma mul_gf2_step:
  assumes "k < 0x100" "j \<noteq> 0"
  shows "mul_gf2_loop (ucast (a :: u8)) j k s =
    mul_gf2_loop (ucast (xtime a)) (if j AND k \<noteq> 0 then j XOR k else j) (push_bit 1 k)
      (if j AND k \<noteq> 0 then s XOR ucast a else s)"
proof -
  let ?i = "push_bit 1 (ucast a :: u32)"
  have "(?i AND 0x100 \<noteq> 0) = bit ?i 8"
  proof -
    have "(0x100 :: u32) = 2 ^ 8" by simp
    then show ?thesis by (metis and_exp_eq_0_iff_not_bit)
  qed
  also have "\<dots> = bit a 7" by (simp add: bit_mult_2 bit_unsigned_iff)
  finally have c: "(?i AND 0x100 \<noteq> 0) = bit a 7" .
  have x: "(if bit a 7 then ?i XOR 0x11B else ?i) = ucast (xtime a)"
  proof (rule bit_word_eqI)
    fix n assume "n < LENGTH(32)"
    show "bit (if bit a 7 then ?i XOR 0x11B else ?i) n = bit (ucast (xtime a) :: u32) n"
    proof -
      have *: "(0x11B :: u32) = push_bit 8 1 OR ucast (0x1B :: u8)" by simp
      have "bit (push_bit 8 1 OR ucast b :: u32) n \<longleftrightarrow> n = 8 \<or> bit b n" for b :: u8
        using \<open>n < LENGTH(32)\<close> bit_u8 [of b n]
        by (auto simp: bit_or_iff bit_push_bit_iff bit_1_iff bit_unsigned_iff simp del: push_bit_of_1)
      from this [of "0x1B"] have "bit (0x11B :: u32) n \<longleftrightarrow> n = 8 \<or> bit (0x1B :: u8) n" by (simp only: *)
      moreover have "bit (0x1B :: u8) n \<Longrightarrow> n < 8" by (rule bit_u8)
      moreover have "bit a (n - 1) \<Longrightarrow> n \<le> 8" using bit_u8 [of a "n - 1"] by linarith
      moreover have "n \<le> 8 \<Longrightarrow> n < 8 \<or> n = 8" by linarith
      ultimately show ?thesis using \<open>n < LENGTH(32)\<close>
        by (auto simp: xtime_def bit_xor_iff bit_mult_2 bit_unsigned_iff)
    qed
  qed
  have k: "push_bit 8 1 OR push_bit 4 1 OR push_bit 3 1 OR push_bit 1 1 OR push_bit 0 1 = (0x11B :: u32)" by simp
  show ?thesis
    by (subst mul_gf2_loop.simps) (simp only: assms simp_thms if_True Let_def c k x)
qed

lemma mul_gf2_constants:
  "c \<in> {0x2, 0x3, 0x9, 0xb, 0xd, 0xe} \<Longrightarrow> mul_gf2 (ucast a) (ucast c) = Some (ucast (gmul a c))"
  by (elim insertE emptyE; simp add: mul_gf2_def mul_gf2_step mul_gf2_stop gmul_constants unsigned_xor_eq xor.assoc)


text \<open>The columns of MixColumns and of its inverse for one byte.\<close>

definition enc_column :: "u8 \<Rightarrow> bytes" where
  "enc_column b = [gmul b 0x2, b, b, gmul b 0x3]"

definition dec_column :: "u8 \<Rightarrow> bytes" where
  "dec_column b = [gmul b 0xe, gmul b 0x9, gmul b 0xd, gmul b 0xb]"

definition turn :: "bytes \<Rightarrow> bytes" where
  "turn c = [c ! 3, c ! 0, c ! 1, c ! 2]"

lemma rot8_le_word:
  assumes "length c = 4"
  shows "rot8 (le_word c) = le_word (turn c)"
proof (rule bit_word_eqI)
  fix n assume "n < LENGTH(32)"
  then have n: "n < 32" by simp
  have bit: "bit (le_word b :: u32) k = bit (b ! (k div 8)) (k mod 8)" if "length b = 4" "k < 32" for b k
    using that by (simp add: bit_le_word)
  have r: "bit (rot8 w) n = (if 8 \<le> n then bit w (n - 8) else bit w (n + 24))" for w
    using n by (auto simp: rot8_def bit_or_iff bit_push_bit_iff bit_drop_bit_eq add.commute dest: bit_imp_le_length)
  have t: "bit (le_word (turn c) :: u32) n = bit (turn c ! (n div 8)) (n mod 8)"
    by (rule bit) (use n in \<open>simp_all add: turn_def\<close>)
  show "bit (rot8 (le_word c)) n = bit (le_word (turn c) :: u32) n"
  proof (cases "8 \<le> n")
    case True
    then obtain m where m: "n = m + 8" by (metis le_add_diff_inverse2)
    with n have "m div 8 < 3" by linarith
    then have "m div 8 = 0 \<or> m div 8 = 1 \<or> m div 8 = 2" by linarith
    moreover have "(m + 8) div 8 = Suc (m div 8)" by simp
    ultimately have "turn c ! (n div 8) = c ! (m div 8)" unfolding m by (elim disjE) (simp_all add: turn_def)
    with True n assms show ?thesis unfolding r t by (simp add: m bit)
  next
    case False
    then have d: "(n + 24) div 8 = 3" "n div 8 = 0" by linarith+
    have "(n + 24) mod 8 = n mod 8" using mod_mult_self1 [of n 3 8] by simp
    with d False n assms show ?thesis by (simp only: r t) (simp add: bit turn_def)
  qed
qed

lemma byte_back [simp]: "(ucast (ucast (b :: u8) :: u32) :: u8) = b"
  by (rule bit_word_eqI) (simp add: bit_unsigned_iff)

definition luts_ok :: "aes_luts \<Rightarrow> bool" where
  "luts_ok T \<longleftrightarrow> (\<forall>b.
     lutEnc0 T ! unat b = le_word (enc_column (sub_byte b)) \<and>
     lutEnc1 T ! unat b = le_word (turn (enc_column (sub_byte b))) \<and>
     lutEnc2 T ! unat b = le_word (turn (turn (enc_column (sub_byte b)))) \<and>
     lutEnc3 T ! unat b = le_word (turn (turn (turn (enc_column (sub_byte b))))) \<and>
     lutDec0 T ! unat b = le_word (dec_column (inv_sub_byte b)) \<and>
     lutDec1 T ! unat b = le_word (turn (dec_column (inv_sub_byte b))) \<and>
     lutDec2 T ! unat b = le_word (turn (turn (dec_column (inv_sub_byte b)))) \<and>
     lutDec3 T ! unat b = le_word (turn (turn (turn (dec_column (inv_sub_byte b))))))"

lemma those_map: "(\<And>x. x \<in> set xs \<Longrightarrow> f x = Some (g x)) \<Longrightarrow> those (map f xs) = Some (map g xs)"
  by (induction xs) auto

lemma enc_word_eq: "enc_word s i = Some (le_word (enc_column (s ! i)))"
  using mul_gf2_constants [of 2 "s ! i"] mul_gf2_constants [of 3 "s ! i"]
  by (simp add: enc_word_def enc_column_def Let_def)

lemma dec_word_eq: "dec_word s i = Some (le_word (dec_column (s ! i)))"
  using mul_gf2_constants [of "0xe" "s ! i"] mul_gf2_constants [of 9 "s ! i"]
    mul_gf2_constants [of "0xd" "s ! i"] mul_gf2_constants [of "0xb" "s ! i"]
  by (simp add: dec_word_def dec_column_def Let_def)

lemma length_columns [simp]: "length (enc_column b) = 4" "length (dec_column b) = 4" "length (turn c) = 4"
  by (simp_all add: enc_column_def dec_column_def turn_def)

lemma aes_initializer_ok: "returns aes_initializer luts_ok"
proof -
  obtain s r where s: "sboxes = Some (s, r)" "sboxes_ok s r"
    using sboxes_return by (auto simp: returns_def)
  have e: "those (map (enc_word s) [0..<0x100]) = Some (map (\<lambda>i. le_word (enc_column (s ! i))) [0..<0x100])"
    and d: "those (map (dec_word r) [0..<0x100]) = Some (map (\<lambda>i. le_word (dec_column (r ! i))) [0..<0x100])"
    by (rule those_map, simp add: enc_word_eq dec_word_eq)+
  have "s ! unat b = sub_byte b" "r ! unat b = inv_sub_byte b" for b
    using s(2) by (simp_all add: sboxes_ok_def)
  then show ?thesis
    by (simp add: aes_initializer_def s(1) e d returns_Some_iff luts_ok_def rot8_le_word)
qed

subsection \<open>The rounds of the standard\<close>

text \<open>The state is the 16 bytes of the input, column by column (section 3.4).\<close>

definition sub_bytes :: "bytes \<Rightarrow> bytes" where "sub_bytes s = map sub_byte s"
definition inv_sub_bytes :: "bytes \<Rightarrow> bytes" where "inv_sub_bytes s = map inv_sub_byte s"

text \<open>Row \<open>r\<close> is shifted by \<open>r\<close> columns to the left, or to the right in the inverse.\<close>

definition shift_rows :: "bytes \<Rightarrow> bytes" where
  "shift_rows s = map (\<lambda>i. s ! (i mod 4 + 4 * ((i div 4 + i mod 4) mod 4))) [0..<16]"

definition inv_shift_rows :: "bytes \<Rightarrow> bytes" where
  "inv_shift_rows s = map (\<lambda>i. s ! (i mod 4 + 4 * ((i div 4 + 4 - i mod 4) mod 4))) [0..<16]"

definition mix_column :: "u8 list \<Rightarrow> u8 list \<Rightarrow> u8 list" where
  "mix_column m c = map (\<lambda>r. foldr (XOR) (map (\<lambda>k. gmul (c ! k) (m ! ((k + 4 - r) mod 4))) [0..<4]) 0) [0..<4]"

definition mix_columns :: "bytes \<Rightarrow> bytes" where
  "mix_columns s = concat (map (\<lambda>c. mix_column [2, 3, 1, 1] (take 4 (drop (4 * c) s))) [0..<4])"

definition inv_mix_columns :: "bytes \<Rightarrow> bytes" where
  "inv_mix_columns s = concat (map (\<lambda>c. mix_column [0xe, 0xb, 0xd, 9] (take 4 (drop (4 * c) s))) [0..<4])"

definition add_round_key :: "bytes \<Rightarrow> bytes \<Rightarrow> bytes" where
  "add_round_key s k = map2 (XOR) s k"

definition aes_round :: "bytes \<Rightarrow> bytes \<Rightarrow> bytes" where
  "aes_round s k = add_round_key (mix_columns (shift_rows (sub_bytes s))) k"

definition aes_inv_round :: "bytes \<Rightarrow> bytes \<Rightarrow> bytes" where
  "aes_inv_round s k = add_round_key (inv_mix_columns (inv_sub_bytes (inv_shift_rows s))) k"


lemma store32_xor: "store32 (v XOR w) = map2 (XOR) (store32 v) (store32 w)"
  by (simp add: store32_def numeral_eq_Suc drop_bit_xor unsigned_xor_eq)

lemma store32_le_word: "length c = 4 \<Longrightarrow> store32 (le_word c) = c"
  by (simp add: store32_def le_bytes_le_word)

lemma length_4E:
  assumes "length xs = 4"
  obtains a b c d where "xs = [a, b, c, d]"
  using assms by (auto simp: numeral_eq_Suc length_Suc_conv)

lemma store_vecE:
  obtains b0 b1 b2 b3 b4 b5 b6 b7 b8 b9 b10 b11 b12 b13 b14 b15
  where "store32 (rx_vec_i128_x v) = [b0, b1, b2, b3]" "store32 (rx_vec_i128_y v) = [b4, b5, b6, b7]"
    "store32 (rx_vec_i128_z v) = [b8, b9, b10, b11]" "store32 (rx_vec_i128_w v) = [b12, b13, b14, b15]"
  by (metis length_4E length_store32)

lemma byte_indices:
  "unat (w AND 0xff :: u32) = unat (store32 w ! 0)"
  "unat (drop_bit 8 w AND 0xff :: u32) = unat (store32 w ! 1)"
  "unat (drop_bit 16 w AND 0xff :: u32) = unat (store32 w ! 2)"
  "unat (drop_bit 24 w :: u32) = unat (store32 w ! 3)"
proof -
  have m: "unat (v AND 0xff) = unat (ucast v :: u8)" for v :: u32
  proof -
    have "(0xff :: u32) = mask 8" by (simp add: mask_eq_exp_minus_1)
    then have "v AND 0xff = take_bit 8 v" by (simp only: take_bit_eq_mask)
    then show ?thesis by (simp add: unsigned_take_bit_eq unsigned_ucast_eq)
  qed
  have s: "store32 w ! k = ucast (drop_bit (8 * k) w)" if "k < 4" for k
    using that by (simp add: store32_def nth_le_bytes)
  show "unat (w AND 0xff) = unat (store32 w ! 0)"
    "unat (drop_bit 8 w AND 0xff) = unat (store32 w ! 1)"
    "unat (drop_bit 16 w AND 0xff) = unat (store32 w ! 2)"
    by (simp_all only: m s, simp_all)
  have "take_bit 8 (drop_bit 24 w) = drop_bit 24 w"
    by (rule bit_word_eqI) (auto simp: bit_take_bit_iff bit_drop_bit_eq dest: bit_imp_le_length)
  then have "unat (drop_bit 24 w) = take_bit 8 (unat (drop_bit 24 w))"
    by (metis unsigned_take_bit_eq)
  also have "\<dots> = unat (ucast (drop_bit 24 w) :: u8)" by (simp add: unsigned_ucast_eq)
  finally show "unat (drop_bit 24 w) = unat (store32 w ! 3)" by (simp add: s)
qed


lemmas vec_defs = rx_store_vec_i128_def rx_xor_vec_i128_def rx_set_int_vec_i128_def rx_vec_i128_x_def
  rx_vec_i128_y_def rx_vec_i128_z_def rx_vec_i128_w_def

lemma store_set_xor:
  "rx_store_vec_i128 (rx_xor_vec_i128 (rx_set_int_vec_i128 s3 s2 s1 s0) key) =
   add_round_key (store32 s0 @ store32 s1 @ store32 s2 @ store32 s3) (rx_store_vec_i128 key)"
  by (simp add: vec_defs add_round_key_def store32_xor)

lemma upt_16: "[0..<16] = [0, 1, 2, 3, 4, 5, 6, 7, 8, 9, 10, 11, 12, 13, 14, 15]"
  by (simp add: upt_rec)

lemma upt_4: "[0..<4] = [0, 1, 2, 3]"
  by (simp add: upt_rec)

lemma lut_bytes:
  assumes "luts_ok T"
  shows "store32 (lutEnc0 T ! unat b) = enc_column (sub_byte b)"
    "store32 (lutEnc1 T ! unat b) = turn (enc_column (sub_byte b))"
    "store32 (lutEnc2 T ! unat b) = turn (turn (enc_column (sub_byte b)))"
    "store32 (lutEnc3 T ! unat b) = turn (turn (turn (enc_column (sub_byte b))))"
    "store32 (lutDec0 T ! unat b) = dec_column (inv_sub_byte b)"
    "store32 (lutDec1 T ! unat b) = turn (dec_column (inv_sub_byte b))"
    "store32 (lutDec2 T ! unat b) = turn (turn (dec_column (inv_sub_byte b)))"
    "store32 (lutDec3 T ! unat b) = turn (turn (turn (dec_column (inv_sub_byte b))))"
  using assms by (simp_all only: luts_ok_def store32_le_word length_columns)

lemmas columns = enc_column_def dec_column_def turn_def

lemma aesenc1_round:
  assumes "luts_ok T"
  shows "rx_store_vec_i128 (aesenc1 T inp key) = aes_round (rx_store_vec_i128 inp) (rx_store_vec_i128 key)"
proof -
  obtain b0 b1 b2 b3 b4 b5 b6 b7 b8 b9 b10 b11 b12 b13 b14 b15
    where b: "store32 (rx_vec_i128_x inp) = [b0, b1, b2, b3]" "store32 (rx_vec_i128_y inp) = [b4, b5, b6, b7]"
      "store32 (rx_vec_i128_z inp) = [b8, b9, b10, b11]" "store32 (rx_vec_i128_w inp) = [b12, b13, b14, b15]"
    by (rule store_vecE)
  have i: "rx_store_vec_i128 inp = [b0, b1, b2, b3, b4, b5, b6, b7, b8, b9, b10, b11, b12, b13, b14, b15]"
    by (simp add: rx_store_vec_i128_def b)
  show ?thesis
    by (simp add: aesenc1_def Let_def store_set_xor i store32_xor lut_bytes [OF assms] aes_round_def sub_bytes_def
        shift_rows_def upt_16 mix_columns_def mix_column_def upt_4)
      (simp add: columns gmul_constants xor.assoc xor.commute xor.left_commute)
qed

lemma aesdec1_round:
  assumes "luts_ok T"
  shows "rx_store_vec_i128 (aesdec1 T inp key) = aes_inv_round (rx_store_vec_i128 inp) (rx_store_vec_i128 key)"
proof -
  obtain b0 b1 b2 b3 b4 b5 b6 b7 b8 b9 b10 b11 b12 b13 b14 b15
    where b: "store32 (rx_vec_i128_x inp) = [b0, b1, b2, b3]" "store32 (rx_vec_i128_y inp) = [b4, b5, b6, b7]"
      "store32 (rx_vec_i128_z inp) = [b8, b9, b10, b11]" "store32 (rx_vec_i128_w inp) = [b12, b13, b14, b15]"
    by (rule store_vecE)
  have i: "rx_store_vec_i128 inp = [b0, b1, b2, b3, b4, b5, b6, b7, b8, b9, b10, b11, b12, b13, b14, b15]"
    by (simp add: rx_store_vec_i128_def b)
  show ?thesis
    by (simp add: aesdec1_def Let_def store_set_xor i store32_xor lut_bytes [OF assms] aes_inv_round_def
        inv_sub_bytes_def inv_shift_rows_def upt_16 inv_mix_columns_def mix_column_def upt_4)
      (simp add: columns xor.assoc xor.commute xor.left_commute)
qed

lemma byte_selects:
  "rx_store_vec_i128 v ! 0 = store32 (rx_vec_i128_x v) ! 0" "rx_store_vec_i128 v ! 1 = store32 (rx_vec_i128_x v) ! 1"
  "rx_store_vec_i128 v ! 2 = store32 (rx_vec_i128_x v) ! 2" "rx_store_vec_i128 v ! 3 = store32 (rx_vec_i128_x v) ! 3"
  "rx_store_vec_i128 v ! 4 = store32 (rx_vec_i128_y v) ! 0" "rx_store_vec_i128 v ! 5 = store32 (rx_vec_i128_y v) ! 1"
  "rx_store_vec_i128 v ! 6 = store32 (rx_vec_i128_y v) ! 2" "rx_store_vec_i128 v ! 7 = store32 (rx_vec_i128_y v) ! 3"
  "rx_store_vec_i128 v ! 8 = store32 (rx_vec_i128_z v) ! 0" "rx_store_vec_i128 v ! 9 = store32 (rx_vec_i128_z v) ! 1"
  "rx_store_vec_i128 v ! 10 = store32 (rx_vec_i128_z v) ! 2" "rx_store_vec_i128 v ! 11 = store32 (rx_vec_i128_z v) ! 3"
  "rx_store_vec_i128 v ! 12 = store32 (rx_vec_i128_w v) ! 0" "rx_store_vec_i128 v ! 13 = store32 (rx_vec_i128_w v) ! 1"
  "rx_store_vec_i128 v ! 14 = store32 (rx_vec_i128_w v) ! 2" "rx_store_vec_i128 v ! 15 = store32 (rx_vec_i128_w v) ! 3"
  by (simp_all add: rx_store_vec_i128_def nth_append)

lemma length_store_vec_i128 [simp]: "length (rx_store_vec_i128 v) = 16"
  by (simp add: rx_store_vec_i128_def)

lemma soft_variants_agree: "aesenc2 T = aesenc1 T" "aesdec2 T = aesdec1 T"
proof -
  show "aesenc2 T = aesenc1 T"
    by (intro ext) (simp only: aesenc1_def aesenc2_def Let_def byte_indices(2-4), simp add: byte_indices(1) byte_selects [unfolded One_nat_def] xor.assoc)
  show "aesdec2 T = aesdec1 T"
    by (intro ext) (simp only: aesdec1_def aesdec2_def Let_def byte_indices(2-4), simp add: byte_indices(1) byte_selects [unfolded One_nat_def] xor.assoc)
qed

text \<open>
  C19. The static initialiser of the soft AES returns, and with its tables both table-driven versions of
  \<open>aesenc\<close> and \<open>aesdec\<close> compute the rounds of FIPS 197: SubBytes, ShiftRows, MixColumns and AddRoundKey, and
  the inverse transformations; the S-box that it generates from the powers of 3 is the inverse in
  GF(2^8) followed by the affine transformation.
\<close>

theorem soft_aes_fips:
  "\<exists>T. aes_initializer = Some T \<and>
     (\<forall>soft inp key. 0 < soft \<longrightarrow>
        rx_store_vec_i128 (aesenc hw T soft inp key) = aes_round (rx_store_vec_i128 inp) (rx_store_vec_i128 key) \<and>
        rx_store_vec_i128 (aesdec hw T soft inp key) = aes_inv_round (rx_store_vec_i128 inp) (rx_store_vec_i128 key))"
  using aes_initializer_ok
  by (auto simp: returns_def aesenc_def aesdec_def soft_variants_agree aesenc1_round aesdec1_round)

theorem soft_aes_fips_witness:
  "\<exists>T. aes_initializer = Some T \<and>
     rx_store_vec_i128 (aesenc (\<lambda>a b. a, \<lambda>a b. a) T 1 (1, 2, 3, 4) (5, 6, 7, 8)) =
       aes_round (rx_store_vec_i128 (1, 2, 3, 4)) (rx_store_vec_i128 (5, 6, 7, 8)) \<and>
     rx_store_vec_i128 (aesdec (\<lambda>a b. a, \<lambda>a b. a) T 2 (1, 2, 3, 4) (5, 6, 7, 8)) =
       aes_inv_round (rx_store_vec_i128 (1, 2, 3, 4)) (rx_store_vec_i128 (5, 6, 7, 8))"
  using soft_aes_fips [of "(\<lambda>a b. a, \<lambda>a b. a)"] by (metis one_le_numeral zero_less_numeral zero_less_one)

subsection \<open>The inverse rounds\<close>

lemma store_load_vec: "length b = 16 \<Longrightarrow> rx_store_vec_i128 (rx_load_vec_i128 b) = b"
proof -
  assume b: "length b = 16"
  have s: "store32 (load32 p) = take 4 p" if "4 \<le> length p" for p
    using that by (simp add: store32_def load32_def le_bytes_le_word)
  have "take 4 b @ take 4 (drop 4 b) @ take 4 (drop 8 b) @ take 4 (drop 12 b) = take (4 + (4 + (4 + 4))) b"
    by (simp only: take_add drop_drop) simp
  with b show ?thesis by (simp add: rx_load_vec_i128_def vec_defs s)
qed

lemma xor_cancel: "a XOR (a XOR b) = (b :: u8)"
  by (simp flip: xor.assoc)

lemma mix_entries:
  "gmul (gmul a 2) 0xe XOR (gmul a 0xb XOR (gmul a 0xd XOR gmul (gmul a 3) 9)) = a"
  "gmul (gmul a 2) 9 XOR (gmul a 0xe XOR (gmul a 0xb XOR gmul (gmul a 3) 0xd)) = 0"
  "gmul (gmul a 2) 0xd XOR (gmul a 9 XOR (gmul a 0xe XOR gmul (gmul a 3) 0xb)) = 0"
  "gmul (gmul a 2) 0xb XOR (gmul a 0xd XOR (gmul a 9 XOR gmul (gmul a 3) 0xe)) = 0"
  by (simp_all add: gmul_constants xtime_xor xor.assoc xor.commute xor.left_commute xor_cancel)

lemma xor_transpose:
  fixes a0 :: u8
  shows "(a0 XOR (b0 XOR (c0 XOR d0))) XOR ((a1 XOR (b1 XOR (c1 XOR d1))) XOR ((a2 XOR (b2 XOR (c2 XOR d2))) XOR (a3 XOR (b3 XOR (c3 XOR d3))))) =
    (a0 XOR (a1 XOR (a2 XOR a3))) XOR ((b1 XOR (b2 XOR (b3 XOR b0))) XOR ((c2 XOR (c3 XOR (c0 XOR c1))) XOR (d3 XOR (d0 XOR (d1 XOR d2)))))"
  by (simp only: xor.assoc xor.commute xor.left_commute)

lemma mix_column_4:
  "mix_column [m0, m1, m2, m3] [a, b, c, d] =
    [gmul a m0 XOR (gmul b m1 XOR (gmul c m2 XOR gmul d m3)),
     gmul a m3 XOR (gmul b m0 XOR (gmul c m1 XOR gmul d m2)),
     gmul a m2 XOR (gmul b m3 XOR (gmul c m0 XOR gmul d m1)),
     gmul a m1 XOR (gmul b m2 XOR (gmul c m3 XOR gmul d m0))]"
  by (simp add: mix_column_def upt_4)

lemma mix_column_inverse: "mix_column [0xe, 0xb, 0xd, 9] (mix_column [2, 3, 1, 1] [a, b, c, d]) = [a, b, c, d]"
  by (simp only: mix_column_4 gmul_xor xor_transpose gmul_constants(1) mix_entries) simp

lemma length_16E:
  assumes "length s = 16"
  obtains b0 b1 b2 b3 b4 b5 b6 b7 b8 b9 b10 b11 b12 b13 b14 b15
  where "s = [b0, b1, b2, b3, b4, b5, b6, b7, b8, b9, b10, b11, b12, b13, b14, b15]"
  using assms by (auto simp: numeral_eq_Suc length_Suc_conv)

lemma inv_mix_columns_mix_columns:
  assumes "length s = 16"
  shows "inv_mix_columns (mix_columns s) = s"
proof -
  obtain b0 b1 b2 b3 b4 b5 b6 b7 b8 b9 b10 b11 b12 b13 b14 b15
    where s: "s = [b0, b1, b2, b3, b4, b5, b6, b7, b8, b9, b10, b11, b12, b13, b14, b15]"
    using assms by (rule length_16E)
  have "length (mix_column m c) = 4" for m c by (simp add: mix_column_def)
  then show ?thesis
    by (simp add: s mix_columns_def inv_mix_columns_def upt_4 mix_column_inverse)
qed

lemma inv_sub_bytes_sub_bytes: "inv_sub_bytes (sub_bytes s) = s"
  by (simp add: inv_sub_bytes_def sub_bytes_def comp_def)

lemma inv_shift_rows_shift_rows: "length s = 16 \<Longrightarrow> inv_shift_rows (shift_rows s) = s"
  by (erule length_16E) (simp add: inv_shift_rows_def shift_rows_def upt_16)

lemma inv_sub_shift:
  "length s = 16 \<Longrightarrow> inv_sub_bytes (inv_shift_rows (shift_rows (sub_bytes s))) = s"
  using inv_sub_bytes_sub_bytes by (simp add: inv_shift_rows_shift_rows sub_bytes_def)

lemma add_round_key_cancel: "length s = length k \<Longrightarrow> add_round_key (add_round_key s k) k = s"
  by (induction s k rule: list_induct2) (simp_all add: add_round_key_def xor.assoc)


lemma length_mix_columns: "length (mix_columns s) = 16"
  by (simp add: mix_columns_def mix_column_def upt_4)

text \<open>
  The soft AES rounds invert each other in the way of the equivalent inverse cipher: whatever
  \<open>aesenc\<close> makes of a block \<open>x\<close>, once its round key is removed and InvMixColumns is applied, \<open>aesdec\<close>
  turns into InvMixColumns of \<open>x\<close>, so that no information is lost by a round of either kind.
\<close>

lemma soft_aes_roundtrip:
  assumes "aes_initializer = Some T" "0 < soft" "0 < soft'"
    and "rx_store_vec_i128 v =
      inv_mix_columns (add_round_key (rx_store_vec_i128 (aesenc hw T soft x key)) (rx_store_vec_i128 key))"
  shows "rx_store_vec_i128 (aesdec hw T soft' v key') =
      add_round_key (inv_mix_columns (rx_store_vec_i128 x)) (rx_store_vec_i128 key')"
proof -
  have T: "luts_ok T" using aes_initializer_ok unfolding assms(1) returns_Some_iff .
  have "add_round_key (rx_store_vec_i128 (aesenc hw T soft x key)) (rx_store_vec_i128 key) =
      mix_columns (shift_rows (sub_bytes (rx_store_vec_i128 x)))"
    using assms(2) by (simp add: aesenc_def soft_variants_agree aesenc1_round [OF T] aes_round_def
        add_round_key_cancel length_mix_columns)
  with assms(4) have "rx_store_vec_i128 v = shift_rows (sub_bytes (rx_store_vec_i128 x))"
    by (simp add: inv_mix_columns_mix_columns shift_rows_def)
  then show ?thesis
    using assms(3) by (simp add: aesdec_def soft_variants_agree aesdec1_round [OF T] aes_inv_round_def inv_sub_shift)
qed

end
