(* ===== verification/Rx_Hash_Spec.thy ===== *)
theory Rx_Hash_Spec
  imports Rx_Hash Bytecode_Fresh Aes_Fips
begin

text \<open>
  The hash is a function of its input: whatever the machine, the scratchpad and the stack held before,
  \<open>randomx_calculate_hash\<close> returns the same 32 bytes, and the pipelined calls deliver the same
  hashes, one call later.
\<close>

subsection \<open>Generators overwrite\<close>

fun stream :: "(lanes \<Rightarrow> lanes) \<Rightarrow> nat \<Rightarrow> lanes \<Rightarrow> bytes" where
  "stream R 0 f = []"
| "stream R (Suc n) f = lanes_bytes (R f) @ stream R n (R f)"

lemma length_stream [simp]: "length (stream R n f) = 64 * n"
  by (induction n arbitrary: f) simp_all

lemma fill_loop_stream:
  "p + 64 * n \<le> length m \<Longrightarrow>
   fill_loop R p (p + 64 * n) f m = Some ((R ^^ n) f, take p m @ stream R n f @ drop (p + 64 * n) m)"
proof (induction n arbitrary: p f m)
  case 0
  show ?case by (subst fill_loop.simps) simp
next
  case (Suc n)
  let ?m = "take p m @ lanes_bytes (R f) @ drop (p + 64) m"
  have s: "store_lanes m p (R f) = Some ?m"
    using Suc.prems by (simp add: store_lanes_def store_at_def memcpy_at_def)
  have e: "p + 64 * Suc n = p + 64 + 64 * n" by simp
  have "fill_loop R p (p + 64 + 64 * n) f m = fill_loop R (p + 64) (p + 64 + 64 * n) (R f) ?m"
    by (subst fill_loop.simps) (simp add: s Let_def)
  also have "\<dots> = Some ((R ^^ n) (R f), take (p + 64) ?m @ stream R n (R f) @ drop (p + 64 + 64 * n) ?m)"
    using Suc.prems by (intro Suc.IH) simp
  finally show ?case using Suc.prems unfolding e by (simp add: funpow_swap1 add.commute add.left_commute)
qed

lemma fill_whole:
  assumes "length m = 64 * n"
  shows "fill_loop R 0 (64 * n) f m = Some ((R ^^ n) f, stream R n f)"
  using fill_loop_stream [of 0 n m R f] assms by simp

subsection \<open>The platform\<close>

definition rx_ok :: "rx_platform \<Rightarrow> RandomX_Configuration \<Rightarrow> bool" where
  "rx_ok P cfg \<longleftrightarrow> config_ok cfg \<and> 0 < ProgramIterations cfg \<and> ProgramSize cfg = RANDOMX_PROGRAM_MAX_SIZE \<and>
     256 dvd ScratchpadSize cfg \<and> PREFETCH_DISTANCE \<le> ScratchpadSize cfg \<and> pl_impl P \<in> set soft_impls \<and>
     (\<forall>a. address_ok a \<longrightarrow> returns (pl_read P a) (\<lambda>line. length line = 8))"

definition vm_ok :: "RandomX_Configuration \<Rightarrow> vm \<Rightarrow> bool" where
  "vm_ok cfg s \<longleftrightarrow> length (vm_scratchpad s) = ScratchpadSize cfg \<and> length (vm_program s) = 128 + RANDOMX_PROGRAM_MAX_SIZE * 8"

definition junk_ok :: "junk \<Rightarrow> bool" where
  "junk_ok = (\<lambda>(f0, e0, bc0). length f0 = RegisterCountFlt \<and> length e0 = RegisterCountFlt \<and> length bc0 = RANDOMX_PROGRAM_MAX_SIZE)"

lemma blake2b_run_rfc: "0 < n \<Longrightarrow> n \<le> 64 \<Longrightarrow> length out = n \<Longrightarrow> blake2b_run P out n inp = blake2b_rfc n [] inp"
  using one_call [of n out "pl_blake P" inp] by (simp add: blake2b_run_def)

lemma length_blake_64 [simp]: "length (blake2b_rfc 64 [] inp) = 64"
  by (rule length_blake2b_rfc) simp

subsection \<open>The operations of the machine\<close>

lemma initScratchpad_fresh:
  assumes "rx_ok P cfg" "length seed = 64"
  obtains seed' sp where "length seed' = 64" "length sp = ScratchpadSize cfg"
    "\<And>s. vm_ok cfg s \<Longrightarrow> initScratchpad P cfg seed s = Some (seed', s\<lparr>vm_scratchpad := sp\<rparr>)"
proof -
  obtain n where n: "ScratchpadSize cfg = 64 * n"
    using assms(1) by (auto simp: rx_ok_def elim!: dvdE)
  obtain f where f: "load_lanes seed 0 = Some f" using load_lanes_returns assms(2) by fastforce
  let ?f = "(fill_round (vm_aes P) ^^ n) f"
  obtain seed' where s: "store_lanes seed 0 ?f = Some seed'" using store_lanes_Some [of 0 seed ?f] assms(2) by auto
  show thesis
    by (rule that [of seed' "stream (fill_round (vm_aes P)) n f"])
      (use store_lanes_drop [OF s] assms(2) in \<open>auto simp: initScratchpad_def fillAes1Rx4_def f n fill_whole vm_ok_def s\<close>)
qed

lemma generateProgram_fresh:
  assumes "rx_ok P cfg" "length seed = 64"
  obtains p where "\<And>s. vm_ok cfg s \<Longrightarrow> generateProgram P cfg seed s = Some (s\<lparr>vm_program := p\<rparr>)"
    "length p = 128 + RANDOMX_PROGRAM_MAX_SIZE * 8"
proof -
  have n: "128 + ProgramSize cfg * 8 = 64 * 34" "128 + RANDOMX_PROGRAM_MAX_SIZE * 8 = 64 * 34"
    using assms(1) by (simp_all add: rx_ok_def RANDOMX_PROGRAM_MAX_SIZE_def)
  obtain f where f: "load_lanes seed 0 = Some f" using load_lanes_returns assms(2) by fastforce
  let ?R = "fill_round4 (vm_aes P) (fillAes4Rx4_Key cfg)"
  show thesis
    by (rule that [of "stream ?R 34 f"])
      (simp_all only: generateProgram_def fillAes4Rx4_def n vm_ok_def fill_whole f bind.bind_lunit option.map snd_conv length_stream)
qed

lemma execute_program: "execute F cfg read f0 e0 bc0 s = Some s' \<Longrightarrow> vm_program s' = vm_program s"
  by (auto simp: execute_def Let_def bind_eq_Some_conv)

lemma run_program_ok:
  assumes "rx_ok P cfg" "junk_ok (f0, e0, bc0)" "vm_ok cfg s"
  shows "returns (run_program F cfg (pl_read P) f0 e0 bc0 s) (vm_ok cfg)"
proof -
  have i: "vm_program (initialize s) = vm_program s" "vm_scratchpad (initialize s) = vm_scratchpad s"
    by (simp_all add: initialize_def Let_def)
  have "dataset_reader (\<lambda>_ :: unit. pl_read P) (\<lambda>_. True)"
    using assms(1) by (simp add: dataset_reader_def rx_ok_def)
  from dataset_reader.execute_returns [OF this _ _ initialize_ranges(1,3,2,4) [of s], of cfg f0 e0 bc0 F] assms
  obtain s' where s': "execute F cfg (pl_read P) f0 e0 bc0 (initialize s) = Some s'" "length (vm_scratchpad s') = length (vm_scratchpad s)"
    by (auto simp: returns_def rx_ok_def junk_ok_def vm_ok_def i ScratchpadSize_def RegisterCountFlt_def RegistersCount_def)
  moreover have "vm_program s' = vm_program s" using execute_program [OF s'(1)] i(1) by simp
  ultimately show ?thesis using assms(3) by (simp add: run_program_def returns_Some_iff vm_ok_def)
qed

lemma vm_run_fresh:
  assumes "rx_ok P cfg" "length seed = 64" "junk_ok j" "junk_ok j'" "vm_ok cfg s" "vm_ok cfg s'"
    and "vm_scratchpad s' = vm_scratchpad s" "vm_mxcsr s' = vm_mxcsr s"
  shows "\<exists>t. vm_run P cfg j seed s = Some t \<and> vm_run P cfg j' seed s' = Some t \<and> vm_ok cfg t"
proof -
  obtain f0 e0 bc0 f0' e0' bc0' where j: "j = (f0, e0, bc0)" "j' = (f0', e0', bc0')" by (cases j; cases j')
  obtain p where p: "\<And>s. vm_ok cfg s \<Longrightarrow> generateProgram P cfg seed s = Some (s\<lparr>vm_program := p\<rparr>)"
    "length p = 128 + RANDOMX_PROGRAM_MAX_SIZE * 8"
    using generateProgram_fresh [OF assms(1,2)] by blast
  have ok: "vm_ok cfg (s\<lparr>vm_program := p\<rparr>)" using assms(5) p(2) by (simp add: vm_ok_def)
  have "run_program (pl_fpu P) cfg (pl_read P) f0 e0 bc0 (s\<lparr>vm_program := p\<rparr>) =
      run_program (pl_fpu P) cfg (pl_read P) f0' e0' bc0' (s'\<lparr>vm_program := p\<rparr>)"
    by (rule run_program_fresh) (use assms j in \<open>simp_all add: rx_ok_def junk_ok_def\<close>)
  moreover have "returns (run_program (pl_fpu P) cfg (pl_read P) f0 e0 bc0 (s\<lparr>vm_program := p\<rparr>)) (vm_ok cfg)"
    using run_program_ok [OF assms(1) _ ok] assms(3) j(1) by simp
  ultimately show ?thesis by (simp add: vm_run_def j p(1) assms(5,6) returns_def)
qed

lemma chain_loop_fresh:
  assumes "rx_ok P cfg" "\<And>i. junk_ok (J i)" "\<And>i. junk_ok (J' i)"
  shows "length th = 64 \<Longrightarrow> vm_ok cfg s \<Longrightarrow>
    \<exists>th' t. chain_loop P cfg J k n th s = Some (th', t) \<and> chain_loop P cfg J' k n th s = Some (th', t) \<and>
      length th' = 64 \<and> vm_ok cfg t"
proof (induction n arbitrary: k th s)
  case (Suc n)
  from vm_run_fresh [OF assms(1) Suc.prems(1) assms(2) [of k] assms(3) [of k] Suc.prems(2) Suc.prems(2)]
  obtain s1 where s1: "vm_run P cfg (J k) th s = Some s1" "vm_run P cfg (J' k) th s = Some s1" "vm_ok cfg s1"
    by auto
  have "length (blake2b_run P th 64 (register_file_bytes (vm_reg s1))) = 64"
    using Suc.prems(1) by (simp add: blake2b_run_rfc)
  from Suc.IH [OF this s1(3), of "k + 1"] show ?case by (simp add: s1)
qed simp

text \<open>All runs of a hash start from the scratchpad and the rounding mode alone.\<close>

lemma run_chain_fresh:
  assumes "rx_ok P cfg" "\<And>i. junk_ok (J i)" "\<And>i. junk_ok (J' i)" "length th = 64" "vm_ok cfg s" "vm_ok cfg s'"
    and "vm_scratchpad s' = vm_scratchpad s" "vm_mxcsr s' = vm_mxcsr s"
  shows "\<exists>th' t. run_chain P cfg J th s = Some (th', t) \<and> run_chain P cfg J' th s' = Some (th', t) \<and>
    length th' = 64 \<and> vm_ok cfg t"
proof (cases "chain_count cfg")
  case 0
  from vm_run_fresh [OF assms(1,4,2,3,5-8), of 0 0] assms(4) show ?thesis
    by (auto simp: run_chain_def 0)
next
  case (Suc n)
  from vm_run_fresh [OF assms(1,4,2,3,5-8), of 0 0] obtain t where
    t: "vm_run P cfg (J 0) th s = Some t" "vm_run P cfg (J' 0) th s' = Some t" "vm_ok cfg t"
    by auto
  let ?th = "blake2b_run P th 64 (register_file_bytes (vm_reg t))"
  have "length ?th = 64" using assms(4) by (simp add: blake2b_run_rfc)
  from chain_loop_fresh [where J = J and J' = J', OF assms(1-3) this t(3), of 1 n] obtain th' u where
    u: "chain_loop P cfg J 1 n ?th t = Some (th', u)" "chain_loop P cfg J' 1 n ?th t = Some (th', u)" "length th' = 64" "vm_ok cfg u"
    by auto
  from vm_run_fresh [OF assms(1) u(3) assms(2) [of "chain_count cfg"] assms(3) [of "chain_count cfg"] u(4,4)] u t show ?thesis
    by (auto simp: run_chain_def Suc)
qed

subsection \<open>The result\<close>

text \<open>
  A machine that is prepared for the input \<open>inp\<close>: the scratchpad and the generator state are those
  that \<open>initScratchpad\<close> makes of the hash of the input, in any machine.
\<close>

definition prepared :: "rx_platform \<Rightarrow> RandomX_Configuration \<Rightarrow> bytes \<Rightarrow> bytes \<Rightarrow> vm \<Rightarrow> bool" where
  "prepared P cfg inp th s \<longleftrightarrow> length th = 64 \<and> vm_ok cfg s \<and>
     (\<forall>t. vm_ok cfg t \<longrightarrow> initScratchpad P cfg (blake2b_rfc 64 [] inp) t = Some (th, t\<lparr>vm_scratchpad := vm_scratchpad s\<rparr>))"

lemma init_prepared:
  assumes "rx_ok P cfg" "vm_ok cfg s" "initScratchpad P cfg (blake2b_rfc 64 [] inp) s = Some (th, s\<lparr>vm_scratchpad := sp\<rparr>)"
    and "vm_scratchpad t = sp" "vm_program t = vm_program s"
  shows "prepared P cfg inp th t"
proof -
  obtain th' sp' where i: "length th' = 64" "length sp' = ScratchpadSize cfg"
    "\<And>s. vm_ok cfg s \<Longrightarrow> initScratchpad P cfg (blake2b_rfc 64 [] inp) s = Some (th', s\<lparr>vm_scratchpad := sp'\<rparr>)"
    using initScratchpad_fresh [OF assms(1)] length_blake_64 by metis
  from i(3) [OF assms(2)] assms(3) have "th = th'" "vm_scratchpad (s\<lparr>vm_scratchpad := sp\<rparr>) = vm_scratchpad (s\<lparr>vm_scratchpad := sp'\<rparr>)"
    by simp_all
  with i assms(2,4,5) show ?thesis by (simp add: prepared_def vm_ok_def)
qed

lemma first_prepared:
  assumes "rx_ok P cfg" "vm_ok cfg s" "length th0 = 64"
  shows "\<exists>th t. randomx_calculate_hash_first P cfg th0 inp s = Some (th, t) \<and> prepared P cfg inp th t"
proof -
  obtain th sp where i: "initScratchpad P cfg (blake2b_rfc 64 [] inp) s = Some (th, s\<lparr>vm_scratchpad := sp\<rparr>)"
    using initScratchpad_fresh [OF assms(1) length_blake_64] assms(2) by metis
  with init_prepared [OF assms(1,2) i] assms(3) show ?thesis by (simp add: randomx_calculate_hash_first_def blake2b_run_rfc)
qed

text \<open>The end of a hash, from the machine after the last run.\<close>

lemma size_blocks:
  assumes "rx_ok P cfg" "length spad = ScratchpadSize cfg"
  shows "\<exists>h. hashAes1Rx4 A spad (ScratchpadSize cfg) = Some h"
proof -
  obtain n where n: "ScratchpadSize cfg = 0 + 64 * n" using assms(1) by (auto simp: rx_ok_def elim!: dvdE)
  with units_two_passes [of 0 n spad A AES_HASH_1R_STATE AES_HASH_1R_STATE] assms(2) show ?thesis
    by (auto simp: hashAes1Rx4_def)
qed

definition final_hash :: "rx_platform \<Rightarrow> bytes \<Rightarrow> vm \<Rightarrow> bytes" where
  "final_hash P h s = blake2b_rfc 32 [] (register_file_bytes (vm_reg (set_a_bytes h s)))"

lemma getFinalResult_eq:
  assumes "hashAes1Rx4 (vm_aes P) (vm_scratchpad s) (ScratchpadSize cfg) = Some h" "length out = 32"
  shows "getFinalResult P cfg out s = Some (final_hash P h s, set_a_bytes h s)"
  using assms by (simp add: getFinalResult_def final_hash_def RANDOMX_HASH_SIZE_def blake2b_run_rfc Let_def)

lemma impl_aes: "(soft, unroll) \<in> set soft_impls \<Longrightarrow> pl_soft P \<Longrightarrow> aes_pair (pl_hw P) (pl_luts P) soft = vm_aes P"
  by (auto simp: soft_impls_def vm_aes_def aes_pair_def aesenc_def aesdec_def soft_variants_agree)

lemma hashAndFill_eq:
  assumes "rx_ok P cfg" "vm_ok cfg s" "length th = 64" "length out = 32"
    and "hashAes1Rx4 (vm_aes P) (vm_scratchpad s) (ScratchpadSize cfg) = Some h"
  shows "\<exists>th' sp. hashAndFill P cfg out th s = Some (final_hash P h s, th', set_a_bytes h (s\<lparr>vm_scratchpad := sp\<rparr>)) \<and>
    initScratchpad P cfg th s = Some (th', s\<lparr>vm_scratchpad := sp\<rparr>)"
proof -
  define i where "i = (if pl_soft P then pl_impl P else hard_impl)"
  have i: "(fst i, snd i) \<in> set (hard_impl # soft_impls)" "aes_pair (pl_hw P) (pl_luts P) (fst i) = vm_aes P"
    using assms(1) impl_aes [of "fst i" "snd i" P] by (auto simp: i_def rx_ok_def vm_aes_def hard_impl_def)
  have sz: "256 dvd ScratchpadSize cfg" "PREFETCH_DISTANCE \<le> ScratchpadSize cfg" "ScratchpadSize cfg \<le> length (vm_scratchpad s)"
    "64 \<le> length th"
    using assms(1-3) by (simp_all add: rx_ok_def vm_ok_def)
  from one_pass_is_two [OF i(1) sz, of "pl_hw P" "pl_luts P"] assms(5) obtain th' sp where
    f: "hashAndFillAes1Rx4 (pl_hw P) (pl_luts P) (fst i) (snd i) (vm_scratchpad s) (ScratchpadSize cfg) th = Some (sp, h, th')"
    "fillAes1Rx4 (vm_aes P) th (ScratchpadSize cfg) (vm_scratchpad s) = Some (th', sp)"
    unfolding i(2) by auto
  have "vm_reg (set_a_bytes h (s\<lparr>vm_scratchpad := sp\<rparr>)) = vm_reg (set_a_bytes h s)" by (simp add: set_a_bytes_def)
  with f assms(4) show ?thesis
    by (auto simp: hashAndFill_def initScratchpad_def final_hash_def RANDOMX_HASH_SIZE_def blake2b_run_rfc i_def Let_def)
qed

lemma reset_simps [simp]:
  "vm_scratchpad (resetRoundingMode s) = vm_scratchpad s" "vm_mxcsr (resetRoundingMode s) = rx_mxcsr_default"
  "vm_ok cfg (resetRoundingMode s) = vm_ok cfg s"
  by (simp_all add: resetRoundingMode_def vm_ok_def)

lemma next_prepared:
  assumes "rx_ok P cfg" "\<And>i. junk_ok (J i)" "prepared P cfg inp th s" "length out = 32"
  shows "\<exists>h th' t. randomx_calculate_hash_next P cfg J th y out s = Some (h, th', t) \<and> prepared P cfg y th' t \<and> length h = 32 \<and>
    (\<forall>J0 th0 out0 s0. (\<forall>i. junk_ok (J0 i)) \<and> length th0 = 64 \<and> length out0 = 32 \<and> vm_ok cfg s0 \<longrightarrow>
       (\<exists>t0. randomx_calculate_hash P cfg J0 th0 inp out0 s0 = Some (h, t0) \<and> vm_ok cfg t0))"
proof -
  have th: "length th = 64" and s: "vm_ok cfg s" using assms(3) by (simp_all add: prepared_def)
  from run_chain_fresh [where J = J and J' = J, OF assms(1,2,2) th, of "resetRoundingMode s" "resetRoundingMode s"] s
  obtain th1 u where u: "run_chain P cfg J th (resetRoundingMode s) = Some (th1, u)" "length th1 = 64" "vm_ok cfg u" by auto
  obtain h where h: "hashAes1Rx4 (vm_aes P) (vm_scratchpad u) (ScratchpadSize cfg) = Some h"
    using size_blocks [OF assms(1)] u(3) unfolding vm_ok_def by blast
  obtain th' sp where n: "hashAndFill P cfg out (blake2b_rfc 64 [] y) u = Some (final_hash P h u, th', set_a_bytes h (u\<lparr>vm_scratchpad := sp\<rparr>))"
    "initScratchpad P cfg (blake2b_rfc 64 [] y) u = Some (th', u\<lparr>vm_scratchpad := sp\<rparr>)"
    using hashAndFill_eq [OF assms(1) u(3) length_blake_64 assms(4) h] by blast
  have "prepared P cfg y th' (set_a_bytes h (u\<lparr>vm_scratchpad := sp\<rparr>))"
    by (rule init_prepared [OF assms(1) u(3) n(2)]) (simp_all add: set_a_bytes_def)
  moreover have "randomx_calculate_hash_next P cfg J th y out s = Some (final_hash P h u, th', set_a_bytes h (u\<lparr>vm_scratchpad := sp\<rparr>))"
    by (simp add: randomx_calculate_hash_next_def u blake2b_run_rfc n)
  moreover have "randomx_calculate_hash P cfg J0 th0 inp out0 s0 = Some (final_hash P h u, set_a_bytes h u)"
    if "\<And>i. junk_ok (J0 i)" "length th0 = 64" "length out0 = 32" "vm_ok cfg s0" for J0 th0 out0 s0
  proof -
    let ?s0 = "resetRoundingMode (s0\<lparr>vm_scratchpad := vm_scratchpad s\<rparr>)"
    have "vm_ok cfg ?s0" using that(4) s by (simp add: vm_ok_def resetRoundingMode_def)
    with run_chain_fresh [where J = J and J' = J0, OF assms(1,2) that(1) th, of "resetRoundingMode s" ?s0] s u(1)
    have "run_chain P cfg J0 th ?s0 = Some (th1, u)" by simp
    then show ?thesis using assms(3) that
      by (simp add: randomx_calculate_hash_def blake2b_run_rfc prepared_def getFinalResult_eq [OF h])
  qed
  moreover have "vm_ok cfg (set_a_bytes h u)" using u(3) by (simp add: vm_ok_def set_a_bytes_def)
  moreover have "length (final_hash P h u) = 32" by (simp add: final_hash_def length_blake2b_rfc)
  ultimately show ?thesis by blast
qed

text \<open>A platform and a machine that satisfy the hypotheses, for the witnesses.\<close>

definition sample_platform :: rx_platform where
  "sample_platform =
     \<lparr>pl_hw = (\<lambda>a k. rx_xor_vec_i128 a k, \<lambda>a k. a),
      pl_luts = \<lparr>lutEnc0 = [], lutEnc1 = [], lutEnc2 = [], lutEnc3 = [], lutDec0 = [], lutDec1 = [], lutDec2 = [], lutDec3 = []\<rparr>,
      pl_soft = False, pl_impl = (2, 4), pl_fpu = bit_fpu, pl_read = (\<lambda>a. Some (replicate 8 a)), pl_blake = blake2b_start 0 0\<rparr>"

definition sample_config :: RandomX_Configuration where
  "sample_config = Apply RandomX_ConfigurationMonero"

definition sample_vm :: "u8 \<Rightarrow> vm" where
  "sample_vm b = \<lparr>vm_program = replicate 2176 b, vm_reg = \<lparr>rf_r = [], rf_f = [], rf_e = [], rf_a = []\<rparr>,
     vm_config = small_registers, vm_mem = \<lparr>mx = 1, ma = 1\<rparr>, vm_scratchpad = replicate 2097152 b, datasetOffset = 7, vm_mxcsr = 0\<rparr>"

definition sample_junk :: "nat \<Rightarrow> junk" where
  "sample_junk i = (replicate 4 (of_nat i, 2), replicate 4 (3, of_nat i), replicate 256 any_slot)"

lemma sample_ok: "rx_ok sample_platform sample_config" "vm_ok sample_config (sample_vm b)" "junk_ok (sample_junk i)"
proof -
  have c: "config_ok sample_config"
    unfolding sample_config_def
    by (rule Apply_masks_ok) (simp_all add: RandomX_ConfigurationMonero_def RandomX_ConfigurationBase_def inst_freqs_def)
  have l3: "ScratchpadSize sample_config = 2097152"
    by (simp add: ScratchpadSize_def sample_config_def RandomX_ConfigurationMonero_def RandomX_ConfigurationBase_def Apply_def Let_def)
  show "rx_ok sample_platform sample_config"
    unfolding rx_ok_def l3
    by (simp add: c sample_platform_def soft_impls_def PREFETCH_DISTANCE_def returns_Some_iff)
      (simp add: sample_config_def RandomX_ConfigurationMonero_def RandomX_ConfigurationBase_def Apply_def Let_def RANDOMX_PROGRAM_MAX_SIZE_def)
  show "vm_ok sample_config (sample_vm b)" by (simp add: vm_ok_def sample_vm_def l3 RANDOMX_PROGRAM_MAX_SIZE_def)
  show "junk_ok (sample_junk i)"
    by (simp add: junk_ok_def sample_junk_def RegisterCountFlt_def RegistersCount_def RANDOMX_PROGRAM_MAX_SIZE_def)
qed

text \<open>
  C2. The RandomX hash is a function of its input: the hash of an input returns 32 bytes that do not
  depend on what the virtual machine did before, on the contents of the scratchpad, on the rounding
  mode, or on any uninitialised register, bytecode slot or stack array.
\<close>

theorem hash_deterministic:
  assumes "rx_ok P cfg" and "vm_ok cfg s" and "vm_ok cfg s'" and "\<And>i. junk_ok (J i)" and "\<And>i. junk_ok (J' i)"
    and "length th0 = 64" and "length th0' = 64" and "length out = 32" and "length out' = 32"
  shows "\<exists>h t t'. length h = 32 \<and> randomx_calculate_hash P cfg J th0 inp out s = Some (h, t) \<and>
    randomx_calculate_hash P cfg J' th0' inp out' s' = Some (h, t')"
proof -
  obtain th t where "prepared P cfg inp th t" using first_prepared [OF assms(1,2,6)] by blast
  from next_prepared [where J = J, OF assms(1,4) this assms(8)] assms show ?thesis by metis
qed

theorem hash_deterministic_witness:
  "\<exists>h t t'. length h = 32 \<and>
    randomx_calculate_hash sample_platform sample_config sample_junk (replicate 64 1) [1, 2, 3] (replicate 32 4) (sample_vm 5) = Some (h, t) \<and>
    randomx_calculate_hash sample_platform sample_config (\<lambda>i. sample_junk (i + 9)) (replicate 64 6) [1, 2, 3] (replicate 32 7) (sample_vm 8) = Some (h, t')"
  by (rule hash_deterministic) (simp_all add: sample_ok)

end
