(* ===== verification/Nonce.thy ===== *)
theory Nonce
  imports Endian "HOL-Library.Monad_Syntax"
begin

text \<open>
  \<open>crypto/common/Nonce.h\<close> and \<open>Nonce.cpp\<close>: the counters from which all mining threads reserve ranges of
  nonces. The atomic variables are a record; one call of \<open>next\<close> alone is a function on it, and calls
  of several threads are the step relation \<open>nonce_step\<close>, whose atomic actions are the
  \<open>fetch_add\<close> and the decision about the counter that it returned.
\<close>

subsection \<open>State and simple operations\<close>

datatype Backend = CPU | OPENCL | CUDA

record nonces =
  m_paused :: bool
  m_sequence :: "Backend \<Rightarrow> u64"
  m_nonces :: "nat \<Rightarrow> u64"

definition nonces_init :: nonces where
  "nonces_init = \<lparr>m_paused = True, m_sequence = (\<lambda>_. 1), m_nonces = (\<lambda>_. 0)\<rparr>"

definition isOutdated :: "Backend \<Rightarrow> u64 \<Rightarrow> nonces \<Rightarrow> bool" where
  "isOutdated backend sequence st \<longleftrightarrow> m_sequence st backend \<noteq> sequence"

definition pause :: "bool \<Rightarrow> nonces \<Rightarrow> nonces" where
  "pause paused st = st\<lparr>m_paused := paused\<rparr>"

definition reset_nonces :: "nat \<Rightarrow> nonces \<Rightarrow> nonces" where
  "reset_nonces index st = st\<lparr>m_nonces := (m_nonces st)(index := 0)\<rparr>"

definition stop_backend :: "Backend \<Rightarrow> nonces \<Rightarrow> nonces" where
  "stop_backend backend st = st\<lparr>m_sequence := (m_sequence st)(backend := 0)\<rparr>"

definition touch_backend :: "Backend \<Rightarrow> nonces \<Rightarrow> nonces" where
  "touch_backend backend st = st\<lparr>m_sequence := (m_sequence st)(backend := m_sequence st backend + 1)\<rparr>"

definition stop :: "nonces \<Rightarrow> nonces" where
  "stop st = (pause False st)\<lparr>m_sequence := (\<lambda>_. 0)\<rparr>"

definition touch :: "nonces \<Rightarrow> nonces" where
  "touch st = st\<lparr>m_sequence := (\<lambda>i. m_sequence st i + 1)\<rparr>"

subsection \<open>Reserving a range\<close>

text \<open>\<open>m_nonces[index].fetch_add(reserveCount)\<close>.\<close>

definition fetch_add :: "nat \<Rightarrow> u32 \<Rightarrow> nonces \<Rightarrow> u64 \<times> nonces" where
  "fetch_add index reserveCount st =
     (m_nonces st index, st\<lparr>m_nonces := (m_nonces st)(index := m_nonces st index + ucast reserveCount)\<rparr>)"

text \<open>What the body of the loop does with a counter: give up, fetch again, or use it.\<close>

datatype verdict = Refuse | Again | Use

definition nonce_verdict :: "u64 \<Rightarrow> u32 \<Rightarrow> u64 \<Rightarrow> verdict" where
  "nonce_verdict msk reserveCount counter =
     (if msk < counter then Refuse
      else if msk - counter \<le> ucast (reserveCount - 1) then
        (if msk - counter < ucast (reserveCount - 1) then Refuse else Use)
      else if 0xFFFFFFFF - ucast (ucast counter :: u32) < (ucast (reserveCount - 1) :: u64) then Again
      else Use)"

text \<open>Whether \<open>pause(true)\<close> is called on the way.\<close>

definition nonce_pauses :: "u64 \<Rightarrow> u32 \<Rightarrow> u64 \<Rightarrow> bool" where
  "nonce_pauses msk reserveCount counter \<longleftrightarrow> \<not> msk < counter \<and> msk - counter \<le> ucast (reserveCount - 1)"

text \<open>The two words at \<open>nonce\<close> after the range at \<open>counter\<close> has been taken.\<close>

definition write_nonce :: "u64 \<Rightarrow> u64 \<Rightarrow> u32 \<times> u32 \<Rightarrow> u32 \<times> u32" where
  "write_nonce msk counter nonce =
     (ucast ((ucast (fst nonce) AND NOT msk) OR counter),
      if msk > 0xFFFFFFFF then ucast ((ucast (snd nonce) AND drop_bit 32 (NOT msk)) OR drop_bit 32 counter) else snd nonce)"

text \<open>The loop from a counter that has been fetched.\<close>

partial_function (option) next_loop :: "nat \<Rightarrow> u32 \<times> u32 \<Rightarrow> u32 \<Rightarrow> u64 \<Rightarrow> u64 \<Rightarrow> nonces \<Rightarrow> (bool \<times> (u32 \<times> u32) \<times> nonces) option" where
  "next_loop index nonce reserveCount msk counter st =
     (let st = (if nonce_pauses msk reserveCount counter then pause True st else st)
      in case nonce_verdict msk reserveCount counter of
           Refuse \<Rightarrow> Some (False, nonce, st)
         | Again \<Rightarrow> (case fetch_add index reserveCount st of (counter, st) \<Rightarrow> next_loop index nonce reserveCount msk counter st)
         | Use \<Rightarrow> Some (True, write_nonce msk counter nonce, st))"

definition next_nonce :: "nat \<Rightarrow> u32 \<times> u32 \<Rightarrow> u32 \<Rightarrow> u64 \<Rightarrow> nonces \<Rightarrow> (bool \<times> (u32 \<times> u32) \<times> nonces) option" where
  "next_nonce index nonce reserveCount msk st =
     (let msk = msk AND 0x7FFFFFFFFFFFFFFF
      in if reserveCount = 0 \<or> msk < ucast (reserveCount - 1) then Some (False, nonce, st)
         else case fetch_add index reserveCount st of (counter, st) \<Rightarrow> next_loop index nonce reserveCount msk counter st)"

subsection \<open>Verdicts as arithmetic\<close>

text \<open>A range of \<open>r\<close> nonces at \<open>k\<close> that stays below the mask and inside a block of \<open>2\<^sup>3\<^sup>2\<close>.\<close>

definition good_range :: "u64 \<Rightarrow> u32 \<Rightarrow> u64 \<Rightarrow> bool" where
  "good_range msk r k \<longleftrightarrow> unat k + unat r \<le> unat msk + 1 \<and> (unat k mod 2 ^ 32) + unat r \<le> 2 ^ 32"

lemma unat_pred: "r \<noteq> 0 \<Longrightarrow> unat (r - 1) = unat (r :: u32) - 1"
  by (metis unat_minus_one)

lemma unat_ucast_pred: "r \<noteq> 0 \<Longrightarrow> unat (ucast (r - 1 :: u32) :: u64) = unat r - 1"
  by (simp add: unat_pred unsigned_ucast_eq take_bit_nat_eq_self order.strict_trans1 [OF diff_le_self] less_trans [OF unsigned_less [of r, where 'a = nat]])

lemma unat_low: "unat (0xFFFFFFFF - ucast (ucast k :: u32) :: u64) = 2 ^ 32 - 1 - unat (k :: u64) mod 2 ^ 32"
proof -
  have low: "unat (ucast (ucast k :: u32) :: u64) = unat k mod 2 ^ 32"
    by (simp add: unsigned_ucast_eq take_bit_eq_mod unat_mod)
  moreover have "unat k mod 2 ^ 32 \<le> unat (0xFFFFFFFF :: u64)"
    using mod_less_divisor [of "2 ^ 32" "unat k"] by simp
  ultimately show ?thesis
    by (simp add: unat_sub word_le_nat_alt)
qed

lemma verdict_nat:
  assumes "r \<noteq> 0"
  shows "nonce_verdict msk r k =
    (if unat msk < unat k then Refuse
     else if unat msk - unat k \<le> unat r - 1 then (if unat msk - unat k < unat r - 1 then Refuse else Use)
     else if 2 ^ 32 - 1 - unat k mod 2 ^ 32 < unat r - 1 then Again else Use)"
  unfolding nonce_verdict_def word_less_nat_alt [of msk k]
  by (cases "unat msk < unat k")
    (simp_all add: word_less_nat_alt word_le_nat_alt unat_sub unat_ucast_pred [OF assms] unat_low del: unsigned_ucast_eq)

text \<open>The masks of the code are all ones below some bit.\<close>

definition nonce_mask_ok :: "u64 \<Rightarrow> bool" where
  "nonce_mask_ok msk \<longleftrightarrow> (\<exists>n. unat msk + 1 = 2 ^ n)"

lemma mask_blocks:
  assumes "nonce_mask_ok msk"
  shows "unat msk < 2 ^ 32 \<or> (unat msk + 1) mod 2 ^ 32 = 0"
proof -
  obtain n where n: "unat msk + 1 = 2 ^ n" using assms by (auto simp: nonce_mask_ok_def)
  show ?thesis
  proof (cases "n \<le> 32")
    case True
    then have "(2 :: nat) ^ n \<le> 2 ^ 32" by (rule power_increasing) simp
    then show ?thesis using n by linarith
  next
    case False
    then have "(2 :: nat) ^ 32 dvd 2 ^ n" by (intro le_imp_power_dvd) simp
    then show ?thesis using n by (metis dvd_imp_mod_0)
  qed
qed

lemma block_end:
  fixes k r m :: nat
  assumes "k + r = m" "0 < r" "m mod b = 0" "r \<le> b"
  shows "k mod b + r \<le> b"
proof -
  show ?thesis
  proof (cases "r = b")
    case True
    have "k mod b = 0" using assms True by (metis mod_add_self2)
    then show ?thesis using True by simp
  next
    case False
    obtain q where q: "m = b * q" using assms(3) by auto
    then have "q \<noteq> 0" using assms(1,2) by (cases q) auto
    then obtain p where "q = Suc p" by (cases q) auto
    then have "k = b * p + (b - r)" using q assms by simp
    then have "k mod b = (b - r) mod b" by (simp only: mod_mult_self4)
    also have "\<dots> = b - r" using assms(2,4) by (intro mod_less) simp
    finally show ?thesis using assms(4) by simp
  qed
qed

lemma verdict_use:
  assumes "nonce_verdict msk r k = Use" "r \<noteq> 0" "nonce_mask_ok msk"
  shows "good_range msk r k"
proof -
  have r: "unat r < 2 ^ 32" "0 < unat r"
    using unsigned_less [of r, where 'a = nat] assms(2) by (simp_all add: unat_gt_0)
  have v: "unat k + unat r \<le> unat msk + 1 \<and> (unat k + unat r = unat msk + 1 \<or> unat k mod 2 ^ 32 + unat r \<le> 2 ^ 32)"
    using assms(1) r mod_less_divisor [of "2 ^ 32" "unat k"]
    unfolding verdict_nat [OF assms(2)] by (simp split: if_splits) linarith+
  moreover have "unat k mod 2 ^ 32 + unat r \<le> 2 ^ 32" if e: "unat k + unat r = unat msk + 1"
    using mask_blocks [OF assms(3)]
  proof
    assume "unat msk < 2 ^ 32"
    then show ?thesis using e mod_less_eq_dividend [of "unat k" "2 ^ 32"] by linarith
  next
    assume "(unat msk + 1) mod 2 ^ 32 = 0"
    then show ?thesis using block_end [OF e r(2)] r(1) by simp
  qed
  ultimately show ?thesis by (auto simp: good_range_def)
qed

lemma verdict_again:
  assumes "nonce_verdict msk r k = Again" "r \<noteq> 0"
  shows "unat k + unat r \<le> unat msk \<and> 2 ^ 32 < unat k mod 2 ^ 32 + unat r"
proof -
  have "0 < unat r" using assms(2) by (simp add: unat_gt_0)
  then show ?thesis
    using assms(1) mod_less_divisor [of "2 ^ 32" "unat k"]
    unfolding verdict_nat [OF assms(2)] by (simp split: if_splits) linarith
qed

lemma verdict_refuse:
  assumes "nonce_verdict msk r k = Refuse" "r \<noteq> 0"
  shows "unat msk + 1 < unat k + unat r"
proof -
  have "0 < unat r" using assms(2) by (simp add: unat_gt_0)
  then show ?thesis
    using assms(1) unfolding verdict_nat [OF assms(2)] by (auto split: if_splits)
qed

text \<open>A range that is skipped leads into the next block of \<open>2\<^sup>3\<^sup>2\<close>.\<close>

lemma again_next_block:
  assumes "nonce_verdict msk r k = Again" "r \<noteq> 0" "unat k + unat r \<le> k'"
  shows "unat k div 2 ^ 32 < k' div 2 ^ 32" and "unat k div 2 ^ 32 < unat msk div 2 ^ 32"
proof -
  have a: "unat k + unat r \<le> unat msk" "2 ^ 32 < unat k mod 2 ^ 32 + unat r"
    using verdict_again [OF assms(1,2)] by auto
  have "unat k = unat k div 2 ^ 32 * 2 ^ 32 + unat k mod 2 ^ 32"
    by (rule div_mult_mod_eq [symmetric])
  then have "(unat k div 2 ^ 32 + 1) * 2 ^ 32 \<le> unat k + unat r" using a(2) unfolding distrib_right by linarith
  then have "unat k div 2 ^ 32 + 1 \<le> (unat k + unat r) div 2 ^ 32"
    by (simp add: less_eq_div_iff_mult_less_eq)
  moreover have "(unat k + unat r) div 2 ^ 32 \<le> k' div 2 ^ 32" "(unat k + unat r) div 2 ^ 32 \<le> unat msk div 2 ^ 32"
    using assms(3) a(1) by (simp_all add: div_le_mono)
  ultimately show "unat k div 2 ^ 32 < k' div 2 ^ 32" and "unat k div 2 ^ 32 < unat msk div 2 ^ 32"
    by linarith+
qed

subsection \<open>A call by one thread\<close>

lemma unat_add_range:
  assumes "unat k + unat r < 2 ^ 64"
  shows "unat (k + ucast (r :: u32) :: u64) = unat k + unat r"
proof -
  have "unat (ucast r :: u64) = unat r"
    by (simp add: unsigned_ucast_eq take_bit_nat_eq_self less_trans [OF unsigned_less [of r, where 'a = nat]])
  moreover have "unat k + unat r < 2 ^ LENGTH(64)" using assms by simp
  ultimately show ?thesis by (metis unat_add_lem)
qed

lemma again_no_wrap:
  assumes "nonce_verdict msk r k = Again" "r \<noteq> 0"
  shows "unat (k + ucast r :: u64) = unat k + unat r"
proof (rule unat_add_range)
  have "unat k + unat r \<le> unat msk" using verdict_again [OF assms] by simp
  also have "\<dots> < 2 ^ 64" using unsigned_less [of msk, where 'a = nat] by simp
  finally show "unat k + unat r < 2 ^ 64" .
qed

lemma next_loop_returns:
  assumes "r \<noteq> 0" "nonce_mask_ok msk" "m_nonces st index = counter + ucast r"
  shows "\<exists>k st'. next_loop index nonce r msk counter st =
           Some (nonce_verdict msk r k = Use, if nonce_verdict msk r k = Use then write_nonce msk k nonce else nonce, st') \<and>
         nonce_verdict msk r k \<noteq> Again \<and> counter \<le> k \<and> m_nonces st' index = k + ucast r"
  using assms(3)
proof (induction "unat msk - unat counter" arbitrary: counter st rule: less_induct)
  case less
  let ?st = "if nonce_pauses msk r counter then pause True st else st"
  have n: "m_nonces ?st = m_nonces st" by (simp add: pause_def)
  show ?case
  proof (cases "nonce_verdict msk r counter")
    case Again
    let ?c = "counter + ucast r"
    obtain st2 where f: "fetch_add index r ?st = (?c, st2)" and st2: "m_nonces st2 index = ?c + ucast r"
      using less.prems by (simp add: fetch_add_def n)
    have c: "unat ?c = unat counter + unat r" by (rule again_no_wrap [OF Again assms(1)])
    have "unat counter + unat r \<le> unat msk" "0 < unat r"
      using verdict_again [OF Again assms(1)] assms(1) by (simp_all add: unat_gt_0)
    then have dec: "unat msk - unat ?c < unat msk - unat counter" using c by linarith
    from less.hyps [OF dec st2] obtain k st' where k:
      "next_loop index nonce r msk ?c st2 =
         Some (nonce_verdict msk r k = Use, if nonce_verdict msk r k = Use then write_nonce msk k nonce else nonce, st')"
      "nonce_verdict msk r k \<noteq> Again" "?c \<le> k" "m_nonces st' index = k + ucast r" by blast
    have "counter \<le> k" using k(3) c by (simp add: word_le_nat_alt)
    moreover have "next_loop index nonce r msk counter st = next_loop index nonce r msk ?c st2"
      by (subst next_loop.simps) (simp only: Let_def Again f verdict.case prod.case)
    ultimately show ?thesis using k by metis
  next
    case Refuse
    have "next_loop index nonce r msk counter st = Some (False, nonce, ?st)"
      by (subst next_loop.simps) (simp only: Let_def Refuse verdict.case)
    then show ?thesis
      by (intro exI [of _ counter] exI [of _ ?st]) (simp only: Refuse n less.prems, simp)
  next
    case Use
    have "next_loop index nonce r msk counter st = Some (True, write_nonce msk counter nonce, ?st)"
      by (subst next_loop.simps) (simp only: Let_def Use verdict.case)
    then show ?thesis
      by (intro exI [of _ counter] exI [of _ ?st]) (simp only: Use n less.prems, simp)
  qed
qed

lemma nonce_mask_cut:
  assumes "nonce_mask_ok msk"
  shows "nonce_mask_ok (msk AND 0x7FFFFFFFFFFFFFFF)"
proof -
  obtain n where n: "unat msk + 1 = 2 ^ n" using assms by (auto simp: nonce_mask_ok_def)
  have "msk AND 0x7FFFFFFFFFFFFFFF = take_bit 63 msk" by (simp add: take_bit_eq_mask mask_eq_exp_minus_1)
  then have t: "unat (msk AND 0x7FFFFFFFFFFFFFFF) = unat msk mod 2 ^ 63"
    by (simp add: take_bit_eq_mod unat_mod)
  show ?thesis
  proof (cases "n \<le> 63")
    case True
    then have "(2 :: nat) ^ n \<le> 2 ^ 63" by (rule power_increasing) simp
    then show ?thesis using n t by (auto simp: nonce_mask_ok_def intro!: exI [of _ n])
  next
    case False
    have "unat msk < 2 ^ 64" using unsigned_less [of msk, where 'a = nat] by simp
    then have "(2 :: nat) ^ n \<le> 2 ^ 64" using n by linarith
    then have "n \<le> 64" by (subst (asm) power_increasing_iff) simp_all
    then have "n = 64" using False by simp
    then show ?thesis using n t by (auto simp: nonce_mask_ok_def intro!: exI [of _ 63])
  qed
qed

text \<open>
  \<open>next\<close> returns; when it returns true, the range that it took is a good one, starts at or after the
  counter it found, and the counter now stands behind it.
\<close>

definition nonce_granted :: "u64 \<Rightarrow> u32 \<Rightarrow> u64 \<Rightarrow> bool" where
  "nonce_granted msk r k \<longleftrightarrow> r \<noteq> 0 \<and> good_range (msk AND 0x7FFFFFFFFFFFFFFF) r k"

lemma next_nonce_returns:
  assumes "nonce_mask_ok msk"
  obtains (refused) st' where "next_nonce index nonce r msk st = Some (False, nonce, st')"
  | (taken) k st' where "next_nonce index nonce r msk st = Some (True, write_nonce (msk AND 0x7FFFFFFFFFFFFFFF) k nonce, st')"
      "nonce_granted msk r k" "m_nonces st index \<le> k" "m_nonces st' index = k + ucast r"
proof -
  let ?m = "msk AND 0x7FFFFFFFFFFFFFFF"
  show ?thesis
  proof (cases "r = 0 \<or> ?m < ucast (r - 1)")
    case True
    then show ?thesis by (intro refused [of st]) (simp add: next_nonce_def Let_def)
  next
    case False
    let ?c = "m_nonces st index"
    obtain st2 where f: "fetch_add index r st = (?c, st2)" "m_nonces st2 index = ?c + ucast r" by (simp add: fetch_add_def)
    have nn: "next_nonce index nonce r msk st = next_loop index nonce r ?m ?c st2"
      using False by (simp only: next_nonce_def Let_def f(1) if_False prod.case)
    have r: "r \<noteq> 0" using False by simp
    obtain k st' where k: "next_loop index nonce r ?m ?c st2 =
        Some (nonce_verdict ?m r k = Use, if nonce_verdict ?m r k = Use then write_nonce ?m k nonce else nonce, st')"
      "nonce_verdict ?m r k \<noteq> Again" "?c \<le> k" "m_nonces st' index = k + ucast r"
      using next_loop_returns [OF r nonce_mask_cut [OF assms] f(2), of nonce] by blast
    show ?thesis
    proof (cases "nonce_verdict ?m r k = Use")
      case True
      then show ?thesis
        using k nn verdict_use [OF True r nonce_mask_cut [OF assms]] r
        by (intro taken [of k st']) (simp_all add: nonce_granted_def)
    next
      case False
      then show ?thesis using k nn by (intro refused [of st']) simp
    qed
  qed
qed

subsection \<open>What is written\<close>

text \<open>The two words at \<open>nonce\<close> as one number.\<close>

definition nonce64 :: "u32 \<times> u32 \<Rightarrow> u64" where
  "nonce64 nonce = ucast (fst nonce) OR push_bit 32 (ucast (snd nonce))"

lemma small_bits:
  assumes "k \<le> (0xFFFFFFFF :: u64)" "32 \<le> i"
  shows "\<not> bit k i"
proof -
  have "unat k \<le> 0xFFFFFFFF" using assms(1) by (simp add: word_le_nat_alt)
  then have "take_bit 32 k = k" by (intro word_unat_eq_iff [THEN iffD2]) (simp add: unsigned_take_bit_eq take_bit_nat_eq_self)
  then show ?thesis using assms(2) by (metis bit_take_bit_iff leD)
qed

lemma nonce64_write:
  assumes "k \<le> msk"
  shows "nonce64 (write_nonce msk k nonce) = (nonce64 nonce AND NOT msk) OR k"
proof (rule bit_word_eqI)
  fix i assume i: "i < LENGTH(64)"
  show "bit (nonce64 (write_nonce msk k nonce)) i = bit ((nonce64 nonce AND NOT msk) OR k) i"
  proof (cases "i < 32")
    case True
    then show ?thesis by (auto simp: nonce64_def write_nonce_def bit_simps)
  next
    case False
    show ?thesis
    proof (cases "0xFFFFFFFF < msk")
      case True
      then show ?thesis using False i by (auto simp: nonce64_def write_nonce_def bit_simps dest: bit_imp_le_length)
    next
      case small: False
      then have "\<not> bit msk i" "\<not> bit k i"
        using assms False by (simp_all add: small_bits not_less)
      then show ?thesis using False small i by (auto simp: nonce64_def write_nonce_def bit_simps dest: bit_imp_le_length)
    qed
  qed
qed

end
