(* ===== verification/Nonce_Threads.thy ===== *)
theory Nonce_Threads
  imports Nonce
begin

text \<open>
  Calls of \<open>Nonce::next\<close> by several threads. A thread is idle or decides about a counter it has fetched;
  its atomic actions are the \<open>fetch_add\<close> and the decision, and the actions of the threads interleave in
  any order. The history fields of the state record the ranges that were granted and the sum of all
  \<open>reserveCount\<close>s that were added to the counter; the program has no such variables.
\<close>

subsection \<open>Steps\<close>

text \<open>\<open>Deciding r k n\<close>: the counter \<open>k\<close> was fetched for \<open>r\<close> nonces, after \<open>n\<close> counters that were skipped.\<close>

datatype pc = Idle | Deciding u32 u64 nat

record nonce_sys =
  sy_nonces :: nonces
  sy_pc :: "nat \<Rightarrow> pc"
  sy_granted :: "(u64 \<times> u32) list"
  sy_issued :: nat

definition thread_fetch :: "nat \<Rightarrow> nat \<Rightarrow> u32 \<Rightarrow> nat \<Rightarrow> nonce_sys \<Rightarrow> nonce_sys" where
  "thread_fetch index t r n s =
     (case fetch_add index r (sy_nonces s) of (k, st) \<Rightarrow>
        s\<lparr>sy_nonces := st, sy_pc := (sy_pc s)(t := Deciding r k n), sy_issued := sy_issued s + unat r\<rparr>)"

definition thread_return :: "u64 \<Rightarrow> nat \<Rightarrow> u32 \<Rightarrow> u64 \<Rightarrow> nonce_sys \<Rightarrow> nonce_sys" where
  "thread_return msk t r k s =
     s\<lparr>sy_nonces := (if nonce_pauses msk r k then pause True (sy_nonces s) else sy_nonces s), sy_pc := (sy_pc s)(t := Idle)\<rparr>"

text \<open>A step of thread \<open>t\<close>; the mask has its top bit cleared already.\<close>

inductive nonce_step :: "nat \<Rightarrow> u64 \<Rightarrow> nat \<Rightarrow> nonce_sys \<Rightarrow> nonce_sys \<Rightarrow> bool" for index msk where
  call: "nonce_step index msk t s (thread_fetch index t r 0 s)"
    if "sy_pc s t = Idle" "r \<noteq> 0" "\<not> msk < ucast (r - 1)"
| again: "nonce_step index msk t s (thread_fetch index t r (Suc n) s)"
    if "sy_pc s t = Deciding r k n" "nonce_verdict msk r k = Again"
| refuse: "nonce_step index msk t s (thread_return msk t r k s)"
    if "sy_pc s t = Deciding r k n" "nonce_verdict msk r k = Refuse"
| grant: "nonce_step index msk t s ((thread_return msk t r k s)\<lparr>sy_granted := (k, r) # sy_granted s\<rparr>)"
    if "sy_pc s t = Deciding r k n" "nonce_verdict msk r k = Use"

inductive_cases nonce_stepE: "nonce_step index msk t s s'"

definition nonce_start :: "nat \<Rightarrow> nonces \<Rightarrow> nonce_sys" where
  "nonce_start index st =
     \<lparr>sy_nonces = reset_nonces index st, sy_pc = (\<lambda>_. Idle), sy_granted = [], sy_issued = 0\<rparr>"

inductive nonce_reach :: "nat \<Rightarrow> u64 \<Rightarrow> nonce_sys \<Rightarrow> bool" for index msk where
  start: "nonce_reach index msk (nonce_start index st)"
| step: "nonce_reach index msk s \<Longrightarrow> nonce_step index msk t s s' \<Longrightarrow> nonce_reach index msk s'"

subsection \<open>Invariant\<close>

definition span :: "u64 \<Rightarrow> u32 \<Rightarrow> nat set" where
  "span k r = {unat k ..< unat k + unat r}"

primrec pc_span :: "pc \<Rightarrow> nat set" where
  "pc_span Idle = {}"
| "pc_span (Deciding r k n) = span k r"

primrec pc_ok :: "pc \<Rightarrow> bool" where
  "pc_ok Idle = True"
| "pc_ok (Deciding r k n) = (r \<noteq> 0 \<and> n \<le> unat k div 2 ^ 32)"

text \<open>A thread has skipped at most as many counters as the mask has blocks of \<open>2\<^sup>3\<^sup>2\<close> before the last.\<close>

primrec pc_bound :: "u64 \<Rightarrow> pc \<Rightarrow> bool" where
  "pc_bound msk Idle = True"
| "pc_bound msk (Deciding r k n) = (n \<le> unat msk div 2 ^ 32)"

definition apart :: "u64 \<times> u32 \<Rightarrow> u64 \<times> u32 \<Rightarrow> bool" where
  "apart x y \<longleftrightarrow> span (fst x) (snd x) \<inter> span (fst y) (snd y) = {}"

definition range_ok :: "u64 \<Rightarrow> nonce_sys \<Rightarrow> u64 \<times> u32 \<Rightarrow> bool" where
  "range_ok msk s x \<longleftrightarrow> good_range msk (snd x) (fst x) \<and> span (fst x) (snd x) \<subseteq> {..<sy_issued s} \<and>
     (\<forall>t. span (fst x) (snd x) \<inter> pc_span (sy_pc s t) = {})"

definition nonce_inv :: "nat \<Rightarrow> u64 \<Rightarrow> nonce_sys \<Rightarrow> bool" where
  "nonce_inv index msk s \<longleftrightarrow>
     unat (m_nonces (sy_nonces s) index) = sy_issued s \<and>
     (\<forall>t. pc_span (sy_pc s t) \<subseteq> {..<sy_issued s}) \<and>
     (\<forall>t u. t \<noteq> u \<longrightarrow> pc_span (sy_pc s t) \<inter> pc_span (sy_pc s u) = {}) \<and>
     (\<forall>t. pc_ok (sy_pc s t)) \<and> (\<forall>t. pc_bound msk (sy_pc s t)) \<and>
     (\<forall>x\<in>set (sy_granted s). range_ok msk s x) \<and>
     sorted_wrt apart (sy_granted s)"

lemma nonce_step_issued: "nonce_step index msk t s s' \<Longrightarrow> sy_issued s \<le> sy_issued s'"
  by (erule nonce_stepE) (auto simp: thread_fetch_def thread_return_def fetch_add_def)

lemma inv_start: "nonce_inv index msk (nonce_start index st)"
  by (simp add: nonce_inv_def nonce_start_def reset_nonces_def)

text \<open>A fetched range is new: it starts where all others have ended.\<close>

lemma inv_fetch:
  assumes inv: "nonce_inv index msk s" and r: "r \<noteq> 0"
    and small: "sy_issued s + unat r < 2 ^ 64"
    and n: "n \<le> sy_issued s div 2 ^ 32" "n \<le> unat msk div 2 ^ 32"
  shows "nonce_inv index msk (thread_fetch index t r n s)"
proof -
  let ?c = "m_nonces (sy_nonces s) index"
  have c: "unat ?c = sy_issued s" using inv by (simp add: nonce_inv_def)
  then have c': "unat (?c + ucast r) = sy_issued s + unat r" using small by (simp add: unat_add_range)
  have new: "span ?c r = {sy_issued s ..< sy_issued s + unat r}" by (simp add: span_def c)
  have old: "A \<inter> span ?c r = {}" "span ?c r \<inter> A = {}" "A \<subseteq> {..<sy_issued s + unat r}" if "A \<subseteq> {..<sy_issued s}" for A
    using that by (auto simp: new)
  have pcs: "pc_span (sy_pc s u) \<subseteq> {..<sy_issued s}" for u using inv by (simp add: nonce_inv_def)
  have ro: "range_ok msk (thread_fetch index t r n s) x" if "range_ok msk s x" for x
    using that old by (auto simp: range_ok_def thread_fetch_def fetch_add_def)
  show ?thesis
    using inv ro old [OF pcs] c c' r n
    by (auto simp: nonce_inv_def thread_fetch_def fetch_add_def new)
qed

lemma inv_return:
  assumes inv: "nonce_inv index msk s"
  shows "nonce_inv index msk (thread_return msk t r k s)"
proof -
  have "range_ok msk (thread_return msk t r k s) x" if "range_ok msk s x" for x
    using that by (auto simp: range_ok_def thread_return_def)
  then show ?thesis
    using inv by (auto simp: nonce_inv_def thread_return_def pause_def)
qed

lemma inv_grant:
  assumes inv: "nonce_inv index msk s" and pc: "sy_pc s t = Deciding r k n"
    and use: "nonce_verdict msk r k = Use" and msk: "nonce_mask_ok msk"
  shows "nonce_inv index msk ((thread_return msk t r k s)\<lparr>sy_granted := (k, r) # sy_granted s\<rparr>)"
    (is "nonce_inv index msk ?s")
proof -
  have pcs: "sy_pc ?s = (sy_pc s)(t := Idle)" "sy_issued ?s = sy_issued s" by (simp_all add: thread_return_def)
  have here: "pc_span (sy_pc s t) = span k r" "r \<noteq> 0"
    using inv pc by (auto simp: nonce_inv_def dest: spec [of _ t])
  have "range_ok msk ?s x" if "range_ok msk s x" for x
    using that by (auto simp: range_ok_def pcs)
  moreover have "range_ok msk ?s (k, r)"
  proof -
    have "span k r \<inter> pc_span (sy_pc s u) = {}" if "u \<noteq> t" for u
      using inv here(1) that unfolding nonce_inv_def by metis
    moreover have "span k r \<subseteq> {..<sy_issued s}" using inv here(1) unfolding nonce_inv_def by metis
    ultimately show ?thesis using verdict_use [OF use here(2) msk] by (simp add: range_ok_def pcs)
  qed
  moreover have "apart (k, r) x" if "range_ok msk s x" for x
    using that here by (auto simp: range_ok_def apart_def)
  moreover note inv_return [OF inv, of t r k]
  ultimately show ?thesis
    using inv by (auto simp: nonce_inv_def thread_return_def)
qed

lemma inv_step:
  assumes "nonce_step index msk t s s'" "nonce_inv index msk s" "sy_issued s' < 2 ^ 64" "nonce_mask_ok msk"
  shows "nonce_inv index msk s'"
  using assms(1)
proof cases
  case (call r)
  have "sy_issued s + unat r < 2 ^ 64" using assms(3) call(1) by (simp add: thread_fetch_def fetch_add_def)
  then show ?thesis unfolding call(1) by (intro inv_fetch assms(2) call(3)) simp_all
next
  case (again r k n)
  have ok: "r \<noteq> 0" "n \<le> unat k div 2 ^ 32" "unat k + unat r \<le> sy_issued s"
  proof -
    have "pc_ok (sy_pc s t)" "pc_span (sy_pc s t) \<subseteq> {..<sy_issued s}" using assms(2) by (simp_all add: nonce_inv_def)
    then show "r \<noteq> 0" "n \<le> unat k div 2 ^ 32" "unat k + unat r \<le> sy_issued s"
      using again(2) by (auto simp: span_def unat_eq_0 ivl_subset lessThan_atLeast0)
  qed
  show ?thesis
    unfolding again(1) using again_next_block [OF again(3) ok(1,3)] ok assms(2,3) again(1)
    by (intro inv_fetch) (auto simp: thread_fetch_def fetch_add_def)
next
  case refuse
  then show ?thesis using assms(2) by (simp add: inv_return)
next
  case grant
  then show ?thesis using assms(2,4) by (simp add: inv_grant)
qed

lemma reach_inv:
  assumes "nonce_reach index msk s" "sy_issued s < 2 ^ 64" "nonce_mask_ok msk"
  shows "nonce_inv index msk s"
  using assms(1,2)
proof induction
  case start
  show ?case by (rule inv_start)
next
  case (step s t s')
  then show ?case using inv_step assms(3) nonce_step_issued by (meson le_less_trans)
qed

subsection \<open>Safety\<close>

definition range_nonces :: "u64 \<times> u32 \<Rightarrow> nat list" where
  "range_nonces x = [unat (fst x) ..< unat (fst x) + unat (snd x)]"

lemma set_range_nonces: "set (range_nonces x) = span (fst x) (snd x)"
  by (simp add: range_nonces_def span_def)

lemma apart_distinct: "sorted_wrt apart xs \<Longrightarrow> distinct (concat (map range_nonces xs))"
proof (induction xs)
  case (Cons x xs)
  have "set (range_nonces x) \<inter> set (range_nonces y) = {}" if "y \<in> set xs" for y
    using Cons.prems that by (simp add: set_range_nonces apart_def)
  moreover have "distinct (range_nonces x)" by (simp add: range_nonces_def)
  ultimately show ?case using Cons by auto
qed simp

text \<open>Two threads reserve 32768 nonces each; the second one to call is the first to decide.\<close>

definition sample_sys :: "nonce_sys" where
  "sample_sys =
     (let s = nonce_start 0 nonces_init;
          s = thread_fetch 0 0 0x8000 0 s;
          s = thread_fetch 0 1 0x8000 0 s
      in (thread_return 0xFFFFFFFF 1 0x8000 0x8000 s)\<lparr>sy_granted := (0x8000, 0x8000) # sy_granted s\<rparr>)"

lemma sample_verdicts:
  "nonce_verdict 0xFFFFFFFF 0x8000 0x8000 = Use" "nonce_verdict 0xFFFFFFFF 0x8000 0 = Use"
  by (simp_all add: nonce_verdict_def)

lemma sample_reach: "nonce_reach 0 0xFFFFFFFF sample_sys"
proof -
  let ?s0 = "nonce_start 0 nonces_init"
  let ?s1 = "thread_fetch 0 0 0x8000 0 ?s0"
  let ?s2 = "thread_fetch 0 1 0x8000 0 ?s1"
  have "nonce_reach 0 0xFFFFFFFF ?s1"
    by (rule nonce_reach.step [OF nonce_reach.start nonce_step.call]) (simp_all add: nonce_start_def)
  then have "nonce_reach 0 0xFFFFFFFF ?s2"
    by (rule nonce_reach.step [OF _ nonce_step.call]) (simp_all add: thread_fetch_def nonce_start_def fetch_add_def)
  then show ?thesis unfolding sample_sys_def Let_def
    by (rule nonce_reach.step [OF _ nonce_step.grant [where n = 0]])
      (simp_all add: sample_verdicts thread_fetch_def nonce_start_def reset_nonces_def fetch_add_def)
qed

lemma sample_state:
  "sy_granted sample_sys = [(0x8000, 0x8000)]" "sy_issued sample_sys = 65536" "sy_pc sample_sys 0 = Deciding 0x8000 0 0"
  by (simp_all add: sample_sys_def Let_def thread_return_def thread_fetch_def nonce_start_def reset_nonces_def fetch_add_def)

lemma sample_mask: "nonce_mask_ok 0xFFFFFFFF"
  by (auto simp: nonce_mask_ok_def intro: exI [of _ 32])

text \<open>
  C4. Mining threads never try the same nonce twice. In every state that calls of \<open>Nonce::next\<close> can reach
  in any number of threads and in any interleaving of their atomic actions, all nonces that were handed
  out are different, none exceeds the mask, and no range crosses a multiple of \<open>2\<^sup>3\<^sup>2\<close>, so that a worker
  may count through its range by adding to the low word only; as long as fewer than \<open>2\<^sup>6\<^sup>4\<close> nonces have
  been asked for since the counter was reset.
\<close>

theorem nonces_distinct:
  assumes "nonce_reach index msk s" "sy_issued s < 2 ^ 64" "nonce_mask_ok msk"
  shows "distinct (concat (map range_nonces (sy_granted s))) \<and>
    (\<forall>(k, r)\<in>set (sy_granted s). unat k + unat r \<le> unat msk + 1 \<and> unat k mod 2 ^ 32 + unat r \<le> 2 ^ 32)"
proof -
  have "nonce_inv index msk s" by (rule reach_inv [OF assms])
  then show ?thesis
    by (auto simp: nonce_inv_def range_ok_def good_range_def intro: apart_distinct)
qed

lemma nonces_distinct_witness:
  "\<exists>s. nonce_reach 0 0xFFFFFFFF s \<and> sy_granted s = [(0, 0x8000), (0x8000, 0x8000)] \<and>
     distinct (concat (map range_nonces (sy_granted s)))"
proof -
  let ?s = "(thread_return 0xFFFFFFFF 0 0x8000 0 sample_sys)\<lparr>sy_granted := (0, 0x8000) # sy_granted sample_sys\<rparr>"
  have "nonce_reach 0 0xFFFFFFFF ?s"
    by (rule nonce_reach.step [OF sample_reach nonce_step.grant]) (rule sample_state sample_verdicts)+
  then show ?thesis using nonces_distinct [of 0 "0xFFFFFFFF" ?s] sample_mask
    by (intro exI [of _ ?s]) (simp add: sample_state thread_return_def)
qed

text \<open>
  C15. No thread waits for another in \<open>Nonce::next\<close>: a thread that has fetched a counter can always take
  its next step, whatever the others do, that step ends the call or fetches another counter, and it
  fetches another one at most as often as the mask has blocks of \<open>2\<^sup>3\<^sup>2\<close> nonces before the last, which is
  never for the 32-bit masks.
\<close>

theorem nonce_wait_free:
  assumes "nonce_reach index msk s" "sy_issued s + unat r < 2 ^ 64" "nonce_mask_ok msk"
    and "sy_pc s t = Deciding r k n"
  shows "n \<le> unat msk div 2 ^ 32 \<and>
    (\<exists>s'. nonce_step index msk t s s' \<and>
       (sy_pc s' t = Idle \<or> (\<exists>k'. sy_pc s' t = Deciding r k' (Suc n) \<and> Suc n \<le> unat msk div 2 ^ 32)))"
proof -
  have inv: "nonce_inv index msk s" using assms(2) by (intro reach_inv [OF assms(1) _ assms(3)]) simp
  then have n: "n \<le> unat msk div 2 ^ 32"
    using assms(4) by (auto simp: nonce_inv_def dest: spec [of _ t])
  show ?thesis
  proof (cases "nonce_verdict msk r k")
    case Again
    let ?s = "thread_fetch index t r (Suc n) s"
    have step: "nonce_step index msk t s ?s" by (rule nonce_step.again [OF assms(4) Again])
    have pc: "sy_pc ?s t = Deciding r (m_nonces (sy_nonces s) index) (Suc n)"
      by (simp add: thread_fetch_def fetch_add_def)
    have "nonce_inv index msk ?s"
      using inv_step [OF step inv _ assms(3)] assms(2) by (simp add: thread_fetch_def fetch_add_def)
    then have "pc_bound msk (sy_pc ?s t)" by (simp add: nonce_inv_def)
    then show ?thesis using n step pc by auto
  next
    case Refuse
    then show ?thesis using n nonce_step.refuse [OF assms(4) Refuse]
      by (auto simp: thread_return_def intro!: exI [of _ "thread_return msk t r k s"])
  next
    case Use
    let ?s = "(thread_return msk t r k s)\<lparr>sy_granted := (k, r) # sy_granted s\<rparr>"
    have "sy_pc ?s t = Idle" by (simp add: thread_return_def)
    then show ?thesis using n nonce_step.grant [OF assms(4) Use] by blast
  qed
qed

lemma nonce_wait_free_witness:
  "sy_pc sample_sys 0 = Deciding 0x8000 0 0 \<and> (\<exists>s'. nonce_step 0 0xFFFFFFFF 0 sample_sys s' \<and> sy_pc s' 0 = Idle)"
  using nonce_wait_free [OF sample_reach _ sample_mask sample_state(3)] by (auto simp: sample_state)

end
