(* ===== verification/Algorithm.thy ===== *)
theory Algorithm
  imports Prelude
begin

text \<open>
  \<open>base/crypto/Algorithm.h\<close> and \<open>Algorithm.cpp\<close>: the mining algorithms, their families, the sizes of
  their caches. All \<open>XMRIG_ALGO_*\<close> options are on, as in the default build.
\<close>

datatype Id =
    INVALID | CN_0 | CN_1 | CN_2 | CN_R | CN_FAST | CN_HALF | CN_XAO
  | CN_RTO | CN_RWZ | CN_ZLS | CN_DOUBLE | CN_LITE_0 | CN_LITE_1 | CN_HEAVY_0 | CN_HEAVY_TUBE
  | CN_HEAVY_XHV | CN_PICO_0 | CN_PICO_TLO | CN_CCX | CN_UPX2 | RX_0 | RX_WOW | RX_ARQ
  | RX_SFX | RX_KEVA | AR2_CHUKWA | AR2_CHUKWA_V2 | AR2_WRKZ | ASTROBWT_DERO | KAWPOW_RVN

datatype Family = UNKNOWN | CN | CN_LITE | CN_HEAVY | CN_PICO | CN_FEMTO | RANDOM_X | ARGON2 | ASTROBWT | KAWPOW

definition family :: "Id \<Rightarrow> Family" where
  "family i =
     (if i \<in> {CN_0, CN_1, CN_2, CN_R, CN_FAST, CN_HALF, CN_XAO, CN_RTO, CN_RWZ, CN_ZLS, CN_DOUBLE, CN_CCX} then CN
      else if i \<in> {CN_LITE_0, CN_LITE_1} then CN_LITE
      else if i \<in> {CN_HEAVY_0, CN_HEAVY_TUBE, CN_HEAVY_XHV} then CN_HEAVY
      else if i \<in> {CN_PICO_0, CN_PICO_TLO} then CN_PICO
      else if i = CN_UPX2 then CN_FEMTO
      else if i \<in> {RX_0, RX_WOW, RX_ARQ, RX_SFX, RX_KEVA} then RANDOM_X
      else if i \<in> {AR2_CHUKWA, AR2_CHUKWA_V2, AR2_WRKZ} then ARGON2
      else if i = ASTROBWT_DERO then ASTROBWT
      else if i = KAWPOW_RVN then KAWPOW
      else UNKNOWN)"

definition isCN :: "Id \<Rightarrow> bool" where
  "isCN i \<longleftrightarrow> family i \<in> {CN, CN_LITE, CN_HEAVY, CN_PICO, CN_FEMTO}"

definition algorithm_isValid :: "Id \<Rightarrow> bool" where
  "algorithm_isValid i \<longleftrightarrow> i \<noteq> INVALID \<and> family i \<noteq> UNKNOWN"

definition algorithm_l2 :: "Id \<Rightarrow> nat" where
  "algorithm_l2 i =
     (if i \<in> {RX_0, RX_SFX} then 0x40000 else if i \<in> {RX_WOW, RX_KEVA} then 0x20000
      else if i = RX_ARQ then 0x10000 else 0)"

definition oneMiB :: nat where "oneMiB = 0x100000"

definition algorithm_l3 :: "Id \<Rightarrow> nat" where
  "algorithm_l3 i =
     (case family i of
        CN \<Rightarrow> oneMiB * 2 | CN_LITE \<Rightarrow> oneMiB | CN_HEAVY \<Rightarrow> oneMiB * 4
      | CN_PICO \<Rightarrow> oneMiB div 4 | CN_FEMTO \<Rightarrow> oneMiB div 8
      | RANDOM_X \<Rightarrow> if i \<in> {RX_0, RX_SFX} then oneMiB * 2 else if i \<in> {RX_WOW, RX_KEVA} then oneMiB
                   else if i = RX_ARQ then oneMiB div 4 else 0
      | ARGON2 \<Rightarrow> if i = AR2_CHUKWA then oneMiB div 2 else if i = AR2_CHUKWA_V2 then oneMiB
                 else if i = AR2_WRKZ then oneMiB div 4 else 0
      | ASTROBWT \<Rightarrow> if i = ASTROBWT_DERO then oneMiB * 20 else 0
      | KAWPOW \<Rightarrow> if i = KAWPOW_RVN then 32768 else 0
      | UNKNOWN \<Rightarrow> 0)"

definition maxIntensity :: "Id \<Rightarrow> u32" where
  "maxIntensity i = (if family i \<in> {RANDOM_X, ARGON2, ASTROBWT} then 1 else 5)"

text \<open>The scratchpad of every valid algorithm has some size.\<close>

lemma l3_positive: "i \<noteq> INVALID \<Longrightarrow> 0 < algorithm_l3 i"
  by (cases i) (simp_all add: algorithm_l3_def family_def oneMiB_def)

end
