(* ===== verification/Algorithm_Names.thy ===== *)
theory Algorithm_Names
  imports Algorithm
begin

text \<open>
  The table of names in \<open>base/crypto/Algorithm.cpp\<close>, \<open>parse\<close> and \<open>name\<close>. Every name that the program
  prints for an algorithm is parsed as that algorithm again.
\<close>

subsection \<open>Names\<close>

definition algorithm_names :: "(string \<times> string option \<times> Id) list" where
  "algorithm_names =
    [(''cryptonight/0'', Some ''cn/0'', CN_0),
     (''cryptonight'', Some ''cn'', CN_0),
     (''cryptonight/1'', Some ''cn/1'', CN_1),
     (''cryptonight-monerov7'', None, CN_1),
     (''cryptonight_v7'', None, CN_1),
     (''cryptonight/2'', Some ''cn/2'', CN_2),
     (''cryptonight-monerov8'', None, CN_2),
     (''cryptonight_v8'', None, CN_2),
     (''cryptonight/r'', Some ''cn/r'', CN_R),
     (''cryptonight_r'', None, CN_R),
     (''cryptonight/fast'', Some ''cn/fast'', CN_FAST),
     (''cryptonight/msr'', Some ''cn/msr'', CN_FAST),
     (''cryptonight/half'', Some ''cn/half'', CN_HALF),
     (''cryptonight/xao'', Some ''cn/xao'', CN_XAO),
     (''cryptonight_alloy'', None, CN_XAO),
     (''cryptonight/rto'', Some ''cn/rto'', CN_RTO),
     (''cryptonight/rwz'', Some ''cn/rwz'', CN_RWZ),
     (''cryptonight/zls'', Some ''cn/zls'', CN_ZLS),
     (''cryptonight/double'', Some ''cn/double'', CN_DOUBLE),
     (''cryptonight-lite/0'', Some ''cn-lite/0'', CN_LITE_0),
     (''cryptonight-lite/1'', Some ''cn-lite/1'', CN_LITE_1),
     (''cryptonight-lite'', Some ''cn-lite'', CN_LITE_1),
     (''cryptonight-light'', Some ''cn-light'', CN_LITE_1),
     (''cryptonight_lite'', None, CN_LITE_1),
     (''cryptonight-aeonv7'', None, CN_LITE_1),
     (''cryptonight_lite_v7'', None, CN_LITE_1),
     (''cryptonight-heavy/0'', Some ''cn-heavy/0'', CN_HEAVY_0),
     (''cryptonight-heavy'', Some ''cn-heavy'', CN_HEAVY_0),
     (''cryptonight_heavy'', None, CN_HEAVY_0),
     (''cryptonight-heavy/xhv'', Some ''cn-heavy/xhv'', CN_HEAVY_XHV),
     (''cryptonight_haven'', None, CN_HEAVY_XHV),
     (''cryptonight-heavy/tube'', Some ''cn-heavy/tube'', CN_HEAVY_TUBE),
     (''cryptonight-bittube2'', None, CN_HEAVY_TUBE),
     (''cryptonight-pico'', Some ''cn-pico'', CN_PICO_0),
     (''cryptonight-pico/trtl'', Some ''cn-pico/trtl'', CN_PICO_0),
     (''cryptonight-turtle'', Some ''cn-trtl'', CN_PICO_0),
     (''cryptonight-ultralite'', Some ''cn-ultralite'', CN_PICO_0),
     (''cryptonight_turtle'', Some ''cn_turtle'', CN_PICO_0),
     (''cryptonight-pico/tlo'', Some ''cn-pico/tlo'', CN_PICO_TLO),
     (''cryptonight/ultra'', Some ''cn/ultra'', CN_PICO_TLO),
     (''cryptonight-talleo'', Some ''cn-talleo'', CN_PICO_TLO),
     (''cryptonight_talleo'', Some ''cn_talleo'', CN_PICO_TLO),
     (''randomx/0'', Some ''rx/0'', RX_0),
     (''randomx/test'', Some ''rx/test'', RX_0),
     (''RandomX'', Some ''rx'', RX_0),
     (''randomx/wow'', Some ''rx/wow'', RX_WOW),
     (''RandomWOW'', None, RX_WOW),
     (''randomx/arq'', Some ''rx/arq'', RX_ARQ),
     (''RandomARQ'', None, RX_ARQ),
     (''randomx/sfx'', Some ''rx/sfx'', RX_SFX),
     (''RandomSFX'', None, RX_SFX),
     (''randomx/keva'', Some ''rx/keva'', RX_KEVA),
     (''RandomKEVA'', None, RX_KEVA),
     (''argon2/chukwa'', None, AR2_CHUKWA),
     (''chukwa'', None, AR2_CHUKWA),
     (''argon2/chukwav2'', None, AR2_CHUKWA_V2),
     (''chukwav2'', None, AR2_CHUKWA_V2),
     (''argon2/ninja'', None, AR2_WRKZ),
     (''argon2/wrkz'', None, AR2_WRKZ),
     (''astrobwt'', None, ASTROBWT_DERO),
     (''astrobwt/dero'', None, ASTROBWT_DERO),
     (''kawpow'', None, KAWPOW_RVN),
     (''kawpow/rvn'', None, KAWPOW_RVN),
     (''cryptonight/ccx'', Some ''cn/ccx'', CN_CCX),
     (''cryptonight/conceal'', Some ''cn/conceal'', CN_CCX),
     (''cryptonight/upx2'', Some ''cn/upx2'', CN_UPX2),
     (''cn-extremelite/upx2'', None, CN_UPX2),
     (''cryptonight-upx/2'', None, CN_UPX2)]"

text \<open>\<open>strcasecmp(a, b) == 0\<close>.\<close>

definition lower_char :: "char \<Rightarrow> char" where
  "lower_char c = (if 65 \<le> (of_char c :: nat) \<and> (of_char c :: nat) \<le> 90 then char_of ((of_char c :: nat) + 32) else c)"

text \<open>The same on the bits of a character, for evaluation.\<close>

lemma lower_char_bits [code]:
  "lower_char (Char b0 b1 b2 b3 b4 b5 b6 b7) =
    (if b6 \<and> \<not> b7 \<and> \<not> b5 \<and> (b0 \<or> b1 \<or> b2 \<or> b3 \<or> b4) \<and> \<not> (b4 \<and> b3 \<and> (b2 \<or> b1 \<and> b0))
     then Char b0 b1 b2 b3 b4 True b6 b7 else Char b0 b1 b2 b3 b4 b5 b6 b7)"
  by (cases b0; cases b1; cases b2; cases b3; cases b4; cases b5; cases b6; cases b7)
    (simp_all add: lower_char_def char_of_def bit_0)

definition same_name :: "string \<Rightarrow> string \<Rightarrow> bool" where
  "same_name a b \<longleftrightarrow> map lower_char a = map lower_char b"

definition name_matches :: "string \<Rightarrow> string \<times> string option \<times> Id \<Rightarrow> bool" where
  "name_matches name = (\<lambda>(n, short, _). same_name name n \<or> (case short of None \<Rightarrow> False | Some s \<Rightarrow> same_name name s))"

definition parse_algorithm :: "string option \<Rightarrow> Id" where
  "parse_algorithm name =
     (case name of
        None \<Rightarrow> INVALID
      | Some name \<Rightarrow>
          if name = [] then INVALID
          else (case find (name_matches name) algorithm_names of None \<Rightarrow> INVALID | Some (_, _, i) \<Rightarrow> i))"

definition algorithm_name :: "bool \<Rightarrow> Id \<Rightarrow> string" where
  "algorithm_name shortName i =
     (case find (\<lambda>(_, _, j). j = i) algorithm_names of
        None \<Rightarrow> ''invalid''
      | Some (n, short, _) \<Rightarrow> (if shortName then (case short of None \<Rightarrow> n | Some s \<Rightarrow> s) else n))"

definition all_ids :: "Id list" where
  "all_ids =
     [CN_0, CN_1, CN_2, CN_R, CN_FAST, CN_HALF, CN_XAO, CN_RTO,
      CN_RWZ, CN_ZLS, CN_DOUBLE, CN_LITE_0, CN_LITE_1, CN_HEAVY_0, CN_HEAVY_TUBE, CN_HEAVY_XHV,
      CN_PICO_0, CN_PICO_TLO, CN_CCX, CN_UPX2, RX_0, RX_WOW, RX_ARQ, RX_SFX,
      RX_KEVA, AR2_CHUKWA, AR2_CHUKWA_V2, AR2_WRKZ, ASTROBWT_DERO, KAWPOW_RVN]"

lemma all_ids: "i \<noteq> INVALID \<Longrightarrow> i \<in> set all_ids"
  by (cases i) (simp_all add: all_ids_def)

text \<open>The table in small letters.\<close>

definition lower_names :: "(string \<times> string option \<times> Id) list" where
  "lower_names = map (\<lambda>(n, short, i). (map lower_char n, map_option (map lower_char) short, i)) algorithm_names"

lemma lower_names_eq:
  "lower_names =
    [(''cryptonight/0'', Some ''cn/0'', CN_0),
     (''cryptonight'', Some ''cn'', CN_0),
     (''cryptonight/1'', Some ''cn/1'', CN_1),
     (''cryptonight-monerov7'', None, CN_1),
     (''cryptonight_v7'', None, CN_1),
     (''cryptonight/2'', Some ''cn/2'', CN_2),
     (''cryptonight-monerov8'', None, CN_2),
     (''cryptonight_v8'', None, CN_2),
     (''cryptonight/r'', Some ''cn/r'', CN_R),
     (''cryptonight_r'', None, CN_R),
     (''cryptonight/fast'', Some ''cn/fast'', CN_FAST),
     (''cryptonight/msr'', Some ''cn/msr'', CN_FAST),
     (''cryptonight/half'', Some ''cn/half'', CN_HALF),
     (''cryptonight/xao'', Some ''cn/xao'', CN_XAO),
     (''cryptonight_alloy'', None, CN_XAO),
     (''cryptonight/rto'', Some ''cn/rto'', CN_RTO),
     (''cryptonight/rwz'', Some ''cn/rwz'', CN_RWZ),
     (''cryptonight/zls'', Some ''cn/zls'', CN_ZLS),
     (''cryptonight/double'', Some ''cn/double'', CN_DOUBLE),
     (''cryptonight-lite/0'', Some ''cn-lite/0'', CN_LITE_0),
     (''cryptonight-lite/1'', Some ''cn-lite/1'', CN_LITE_1),
     (''cryptonight-lite'', Some ''cn-lite'', CN_LITE_1),
     (''cryptonight-light'', Some ''cn-light'', CN_LITE_1),
     (''cryptonight_lite'', None, CN_LITE_1),
     (''cryptonight-aeonv7'', None, CN_LITE_1),
     (''cryptonight_lite_v7'', None, CN_LITE_1),
     (''cryptonight-heavy/0'', Some ''cn-heavy/0'', CN_HEAVY_0),
     (''cryptonight-heavy'', Some ''cn-heavy'', CN_HEAVY_0),
     (''cryptonight_heavy'', None, CN_HEAVY_0),
     (''cryptonight-heavy/xhv'', Some ''cn-heavy/xhv'', CN_HEAVY_XHV),
     (''cryptonight_haven'', None, CN_HEAVY_XHV),
     (''cryptonight-heavy/tube'', Some ''cn-heavy/tube'', CN_HEAVY_TUBE),
     (''cryptonight-bittube2'', None, CN_HEAVY_TUBE),
     (''cryptonight-pico'', Some ''cn-pico'', CN_PICO_0),
     (''cryptonight-pico/trtl'', Some ''cn-pico/trtl'', CN_PICO_0),
     (''cryptonight-turtle'', Some ''cn-trtl'', CN_PICO_0),
     (''cryptonight-ultralite'', Some ''cn-ultralite'', CN_PICO_0),
     (''cryptonight_turtle'', Some ''cn_turtle'', CN_PICO_0),
     (''cryptonight-pico/tlo'', Some ''cn-pico/tlo'', CN_PICO_TLO),
     (''cryptonight/ultra'', Some ''cn/ultra'', CN_PICO_TLO),
     (''cryptonight-talleo'', Some ''cn-talleo'', CN_PICO_TLO),
     (''cryptonight_talleo'', Some ''cn_talleo'', CN_PICO_TLO),
     (''randomx/0'', Some ''rx/0'', RX_0),
     (''randomx/test'', Some ''rx/test'', RX_0),
     (''randomx'', Some ''rx'', RX_0),
     (''randomx/wow'', Some ''rx/wow'', RX_WOW),
     (''randomwow'', None, RX_WOW),
     (''randomx/arq'', Some ''rx/arq'', RX_ARQ),
     (''randomarq'', None, RX_ARQ),
     (''randomx/sfx'', Some ''rx/sfx'', RX_SFX),
     (''randomsfx'', None, RX_SFX),
     (''randomx/keva'', Some ''rx/keva'', RX_KEVA),
     (''randomkeva'', None, RX_KEVA),
     (''argon2/chukwa'', None, AR2_CHUKWA),
     (''chukwa'', None, AR2_CHUKWA),
     (''argon2/chukwav2'', None, AR2_CHUKWA_V2),
     (''chukwav2'', None, AR2_CHUKWA_V2),
     (''argon2/ninja'', None, AR2_WRKZ),
     (''argon2/wrkz'', None, AR2_WRKZ),
     (''astrobwt'', None, ASTROBWT_DERO),
     (''astrobwt/dero'', None, ASTROBWT_DERO),
     (''kawpow'', None, KAWPOW_RVN),
     (''kawpow/rvn'', None, KAWPOW_RVN),
     (''cryptonight/ccx'', Some ''cn/ccx'', CN_CCX),
     (''cryptonight/conceal'', Some ''cn/conceal'', CN_CCX),
     (''cryptonight/upx2'', Some ''cn/upx2'', CN_UPX2),
     (''cn-extremelite/upx2'', None, CN_UPX2),
     (''cryptonight-upx/2'', None, CN_UPX2)]"
  by code_simp

lemma find_lower:
  "find (name_matches name) xs = None \<longleftrightarrow>
     find (\<lambda>(n, short, _). map lower_char name = n \<or> short = Some (map lower_char name))
       (map (\<lambda>(n, short, i). (map lower_char n, map_option (map lower_char) short, i)) xs) = None"
  "map_option (\<lambda>(_, _, i). i) (find (name_matches name) xs) =
     map_option (\<lambda>(_, _, i). i) (find (\<lambda>(n, short, _). map lower_char name = n \<or> short = Some (map lower_char name))
       (map (\<lambda>(n, short, i). (map lower_char n, map_option (map lower_char) short, i)) xs))"
  by (induction xs) (auto simp: name_matches_def same_name_def split: option.splits)

definition lower_id :: "string \<Rightarrow> Id option" where
  "lower_id name = map_option (\<lambda>(_, _, i). i) (find (\<lambda>(n, short, _). name = n \<or> short = Some name) lower_names)"

lemma parse_lower: "name \<noteq> [] \<Longrightarrow> lower_id (map lower_char name) = Some i \<Longrightarrow> parse_algorithm (Some name) = i"
  using find_lower(2) [of name algorithm_names]
  by (auto simp: lower_id_def lower_names_def parse_algorithm_def split: option.splits prod.splits)

definition name_found :: "string \<Rightarrow> Id \<Rightarrow> bool" where
  "name_found name i \<longleftrightarrow> name \<noteq> [] \<and> lower_id (map lower_char name) = Some i"

lemma name_found_code [code]:
  "name_found name i = (name \<noteq> [] \<and> (let l = map lower_char name in lower_id l = Some i))"
  by (simp add: name_found_def)

lemmas lower_names_code [code] = lower_names_eq

lemma short_names_found: "list_all (\<lambda>i. name_found (algorithm_name True i) i) all_ids"
  by code_simp

lemma names_found: "list_all (\<lambda>i. name_found (algorithm_name False i) i) all_ids"
  by code_simp

lemma parse_name: "i \<noteq> INVALID \<Longrightarrow> parse_algorithm (Some (algorithm_name b i)) = i"
  using names_found short_names_found all_ids [of i]
  by (cases b) (auto simp: list_all_iff name_found_def intro!: parse_lower)

end
