(* ===== verification/Cvt.thy ===== *)
theory Cvt
  imports Endian
begin

text \<open>
  \<open>base/tools/Cvt.cpp\<close>: hexadecimal text. Characters are bytes. \<open>cvt_hex2bin\<close> is modelled for the
  arguments of its only caller: no characters to ignore, and \<open>bin_len\<close> and \<open>hex_end\<close> null.
\<close>

subsection \<open>Printing\<close>

text \<open>The two characters of a byte, in the branch-free form of the code, on \<open>unsigned int\<close>.\<close>

definition bin2hex_pair :: "u8 \<Rightarrow> u8 \<times> u8" where
  "bin2hex_pair v =
     (let c = ucast v AND 0xF :: u32;
          b = drop_bit 4 (ucast v) :: u32;
          x = push_bit 8 (ucast (ucast (87 + c + (drop_bit 8 (c - 10) AND NOT 38)) :: u8)) OR
              ucast (ucast (87 + b + (drop_bit 8 (b - 10) AND NOT 38)) :: u8) :: u32
      in (ucast x, ucast (drop_bit 8 x)))"

definition SIZE_MAX :: nat where "SIZE_MAX = 2 ^ 64 - 1"

text \<open>The buffer \<open>hex\<close> of \<open>hex_maxlen\<close> characters afterwards; \<open>None\<close> is the null result.\<close>

definition cvt_bin2hex :: "bytes \<Rightarrow> bytes \<Rightarrow> bytes option" where
  "cvt_bin2hex hex bin =
     (if SIZE_MAX div 2 \<le> length bin \<or> length hex < length bin * 2 then None
      else (let digits = concat (map (\<lambda>v. case bin2hex_pair v of (a, b) \<Rightarrow> [a, b]) bin);
                hex = memcpy_at hex 0 digits (length bin * 2)
            in Some (if length bin * 2 < length hex then hex[length bin * 2 := 0] else hex)))"

text \<open>
  \<open>toHex(in, size)\<close>: \<open>buf\<close> holds the fresh array, and the result is the string up to its null
  character; \<open>None\<close> is the null string.
\<close>

definition toHex :: "bytes \<Rightarrow> bytes \<Rightarrow> bytes option" where
  "toHex buf inp =
     (if inp = [] then None
      else map_option (takeWhile (\<lambda>c. c \<noteq> 0)) (cvt_bin2hex (take (length inp * 2 + 1) buf) inp))"

subsection \<open>Reading\<close>

text \<open>The value of a digit, \<open>None\<close> when \<open>(c_num0 | c_alpha0) == 0\<close>.\<close>

definition hex_digit :: "u8 \<Rightarrow> u8 option" where
  "hex_digit c =
     (let c_num = c XOR 48;
          c_num0 = ucast (drop_bit 8 (ucast c_num - 10 :: u32)) :: u8;
          c_alpha = ucast ((ucast c AND NOT 32 :: u32) - 55) :: u8;
          c_alpha0 = ucast (drop_bit 8 ((ucast c_alpha - 10 :: u32) XOR (ucast c_alpha - 16))) :: u8
      in if c_num0 OR c_alpha0 = 0 then None
         else Some ((c_num0 AND c_num) OR (c_alpha0 AND c_alpha)))"

text \<open>
  The loop: \<open>ret\<close>, the bytes at \<open>bin\<close>, the number of characters that were not read, and \<open>state\<close>. The
  list \<open>bin\<close> has \<open>bin_maxlen\<close> bytes.
\<close>

fun hex2bin_loop :: "bytes \<Rightarrow> bytes \<Rightarrow> nat \<Rightarrow> u8 \<Rightarrow> u8 \<Rightarrow> int \<times> bytes \<times> nat \<times> u8" where
  "hex2bin_loop [] bin bin_pos c_acc state = (0, bin, 0, state)"
| "hex2bin_loop (c # hex) bin bin_pos c_acc state =
     (case hex_digit c of
        None \<Rightarrow> (0, bin, length (c # hex), state)
      | Some c_val \<Rightarrow>
          if length bin \<le> bin_pos then (- 1, bin, length (c # hex), state)
          else if state = 0 then hex2bin_loop hex bin bin_pos (c_val * 16) (NOT state)
          else hex2bin_loop hex (bin[bin_pos := c_acc OR c_val]) (bin_pos + 1) c_acc (NOT state))"

text \<open>The result and the bytes at \<open>bin\<close>; after an odd number of digits one is put back.\<close>

definition cvt_hex2bin :: "bytes \<Rightarrow> bytes \<Rightarrow> int \<times> bytes" where
  "cvt_hex2bin bin hex =
     (case hex2bin_loop hex bin 0 0 0 of (ret, bin, left, state) \<Rightarrow>
        (let left = (if state \<noteq> 0 then left + 1 else left);
             ret = (if state \<noteq> 0 then - 1 else ret);
             ret = (if left \<noteq> 0 then - 1 else ret)
         in (ret, bin)))"

text \<open>\<open>fromHex(bin, bin_maxlen, hex, hex_len)\<close>: whether it worked, and the bytes at \<open>bin\<close>.\<close>

definition fromHex_into :: "bytes \<Rightarrow> bytes \<Rightarrow> bool \<times> bytes" where
  "fromHex_into bin hex =
     (if hex = [] then (False, bin)
      else case cvt_hex2bin bin hex of (ret, bin) \<Rightarrow> (ret = 0, bin))"

text \<open>\<open>fromHex(buf, in, size)\<close> on a vector that is resized, and \<open>fromHex(in, size)\<close>.\<close>

definition fromHexImpl :: "bytes \<Rightarrow> bytes \<Rightarrow> bool \<times> bytes" where
  "fromHexImpl buf inp =
     (if inp = [] then (False, buf)
      else (let buf = take (length inp div 2) (buf @ replicate (length inp div 2) 0)
            in case cvt_hex2bin buf inp of (ret, buf) \<Rightarrow> (ret = 0, buf)))"

definition fromHex :: "bytes \<Rightarrow> bytes" where
  "fromHex inp = (case fromHexImpl [] inp of (ok, buf) \<Rightarrow> if ok then buf else [])"

subsection \<open>What a digit is\<close>

text \<open>The characters 0 to 9 and a to f, and a capital letter A to F read as the small one.\<close>

definition hex_char :: "u8 \<Rightarrow> u8" where
  "hex_char v = (if v < 10 then 48 + v else 87 + v)"

definition lower_hex :: "u8 \<Rightarrow> u8" where
  "lower_hex c = (if 65 \<le> c \<and> c \<le> 70 then c + 32 else c)"

definition hex_text :: "bytes \<Rightarrow> bytes" where
  "hex_text bs = concat (map (\<lambda>v. [hex_char (drop_bit 4 v), hex_char (v AND 0xF)]) bs)"

lemma byte_cases: "(c :: u8) \<in> set (map of_nat [0..<256])"
proof -
  have "unat c < 256" using unsigned_less [of c, where 'a = nat] by simp
  then show ?thesis by (auto intro!: image_eqI [of _ _ "unat c"])
qed

lemma all_bytes: "list_all P (map of_nat [0..<256]) \<Longrightarrow> P (c :: u8)"
  using byte_cases [of c] by (auto simp: list_all_iff)

lemma hex_digit_all:
  "list_all (\<lambda>c. case hex_digit c of
      None \<Rightarrow> lower_hex c = c
    | Some v \<Rightarrow> v < 16 \<and> hex_char v = lower_hex c) (map of_nat [0..<256])"
  by (simp add: hex_digit_def hex_char_def lower_hex_def Let_def upt_conv_Cons mask_eq_exp_minus_1 word_le_nat_alt word_less_nat_alt)

lemma hex_digit_Some: "hex_digit c = Some v \<Longrightarrow> v < 16 \<and> hex_char v = lower_hex c"
  using all_bytes [OF hex_digit_all, of c] by simp

lemma hex_digit_None: "hex_digit c = None \<Longrightarrow> lower_hex c = c"
  using all_bytes [OF hex_digit_all, of c] by simp

lemma nibble_cases:
  assumes "(v :: u8) < 16"
  shows "v \<in> set (map of_nat [0..<16])"
proof -
  have "unat v < 16" using assms by (simp add: word_less_nat_alt)
  then show ?thesis by (auto intro!: image_eqI [of _ _ "unat v"])
qed

lemma all_nibbles: "list_all P (map of_nat [0..<16]) \<Longrightarrow> v < 16 \<Longrightarrow> P (v :: u8)"
  using nibble_cases [of v] by (auto simp: list_all_iff)

lemma hex_char_digit: "v < 16 \<Longrightarrow> hex_digit (hex_char v) = Some v"
  by (rule all_nibbles [where P = "\<lambda>v. hex_digit (hex_char v) = Some v"])
    (simp_all add: hex_digit_def hex_char_def Let_def upt_conv_Cons mask_eq_exp_minus_1 word_le_nat_alt word_less_nat_alt)

lemma hex_char_print:
  "v < 16 \<Longrightarrow> ucast (87 + ucast v + (drop_bit 8 (ucast v - 10 :: u32) AND NOT 38)) = hex_char v"
  by (rule all_nibbles [where P = "\<lambda>v. ucast (87 + ucast v + (drop_bit 8 (ucast v - 10 :: u32) AND NOT 38)) = hex_char v"])
    (simp_all add: hex_char_def Let_def upt_conv_Cons mask_eq_exp_minus_1 word_le_nat_alt word_less_nat_alt)

lemma low_nibble: "(v :: u8) AND 0xF = take_bit 4 v"
  by (simp add: take_bit_eq_mask mask_eq_exp_minus_1)

lemma nibbles: "drop_bit 4 (v :: u8) < 16" "(v :: u8) AND 0xF < 16"
proof -
  have "unat v < 256" using unsigned_less [of v, where 'a = nat] by simp
  then have "unat v div 16 < 16" by (simp add: less_mult_imp_div_less)
  then show "drop_bit 4 v < 16" by (simp add: word_less_nat_alt drop_bit_eq_div unat_div)
  have "take_bit 4 v < 2 ^ 4" by (simp add: word_less_nat_alt take_bit_eq_mod unat_mod)
  then show "v AND 0xF < 16" by (simp add: low_nibble)
qed

lemma bin2hex_pair_eq: "bin2hex_pair v = (hex_char (drop_bit 4 v), hex_char (v AND 0xF))"
proof -
  have n: "ucast v AND 0xF = (ucast (v AND 0xF) :: u32)" "drop_bit 4 (ucast v) = (ucast (drop_bit 4 v) :: u32)"
    by (force intro!: bit_word_eqI simp: bit_simps dest: bit_u8)+
  have x: "ucast (push_bit 8 (ucast p) OR ucast q :: u32) = q" "ucast (drop_bit 8 (push_bit 8 (ucast p) OR ucast q :: u32)) = p"
    for p q :: u8
    by (auto intro!: bit_word_eqI simp: bit_simps dest: bit_u8)
  show ?thesis
    unfolding bin2hex_pair_def Let_def n x hex_char_print [OF nibbles(1)] hex_char_print [OF nibbles(2)] by simp
qed

subsection \<open>The text of bytes\<close>

lemma length_hex_text [simp]: "length (hex_text bs) = length bs * 2"
  by (induction bs) (simp_all add: hex_text_def)

lemma hex_char_nonzero: "v < 16 \<Longrightarrow> hex_char v \<noteq> 0"
  by (rule all_nibbles [where P = "\<lambda>v. hex_char v \<noteq> 0"]) (simp_all add: hex_char_def upt_conv_Cons word_less_nat_alt)

lemma hex_text_nonzero: "\<forall>c \<in> set (hex_text bs). c \<noteq> 0"
  using nibbles hex_char_nonzero by (auto simp: hex_text_def)

lemma cvt_bin2hex_eq:
  assumes "length bin < SIZE_MAX div 2" "length hex = length bin * 2 + 1"
  shows "cvt_bin2hex hex bin = Some (hex_text bin @ [0])"
proof -
  have d: "concat (map (\<lambda>v. case bin2hex_pair v of (a, b) \<Rightarrow> [a, b]) bin) = hex_text bin"
    by (simp add: hex_text_def bin2hex_pair_eq)
  obtain x where x: "drop (length bin * 2) hex = [x]"
    using assms(2) by (cases "drop (length bin * 2) hex") (auto dest: arg_cong [where f = length])
  have "memcpy_at hex 0 (hex_text bin) (length bin * 2) = hex_text bin @ [x]"
    using x by (simp add: memcpy_at_def)
  then show ?thesis
    unfolding cvt_bin2hex_def d using assms by (simp add: Let_def list_update_append)
qed

lemma toHex_eq:
  assumes "inp \<noteq> []" "length inp < SIZE_MAX div 2" "length inp * 2 + 1 \<le> length buf"
  shows "toHex buf inp = Some (hex_text inp)"
proof -
  have "cvt_bin2hex (take (length inp * 2 + 1) buf) inp = Some (hex_text inp @ [0])"
    using assms by (intro cvt_bin2hex_eq) simp_all
  moreover have "takeWhile (\<lambda>c. c \<noteq> 0) (hex_text inp @ [0]) = hex_text inp"
    using hex_text_nonzero [of inp] by (subst takeWhile_append2) auto
  ultimately show ?thesis using assms(1) by (simp add: toHex_def)
qed

subsection \<open>Reading is the inverse of printing\<close>

definition hex_ok :: "int \<times> bytes \<times> nat \<times> u8 \<Rightarrow> bytes \<Rightarrow> bool" where
  "hex_ok r out \<longleftrightarrow> r = (0, out, 0, 0)"

lemma nibble_join:
  assumes "h < 16" "l < (16 :: u8)"
  shows "drop_bit 4 (h * 16 OR l) = h" "(h * 16 OR l) AND 0xF = l"
proof -
  have n: "\<not> bit h i" "\<not> bit l i" if "4 \<le> i" for i
  proof -
    have "h = take_bit 4 h" "l = take_bit 4 l"
      using assms by (simp_all add: word_less_nat_alt word_unat_eq_iff unsigned_take_bit_eq take_bit_nat_eq_self)
    then show "\<not> bit h i" "\<not> bit l i" using that by (metis bit_take_bit_iff leD)+
  qed
  have h: "h * 16 = push_bit 4 h" by (simp add: push_bit_eq_mult)
  show "drop_bit 4 (h * 16 OR l) = h" "(h * 16 OR l) AND 0xF = l"
    unfolding h low_nibble using n by (auto intro!: bit_word_eqI simp: bit_simps dest: bit_u8 simp flip: not_le)
qed

lemma hex_text_Cons: "h < 16 \<Longrightarrow> l < 16 \<Longrightarrow> hex_text ((h * 16 OR l) # bs) = hex_char h # hex_char l # hex_text bs"
  unfolding hex_text_def by (simp only: nibble_join list.map concat.simps append.simps)

lemma nibble_split: "drop_bit 4 v * 16 OR (v AND 0xF) = (v :: u8)"
proof -
  have h: "drop_bit 4 v * 16 = push_bit 4 (drop_bit 4 v)" by (simp add: push_bit_eq_mult)
  show ?thesis unfolding h low_nibble by (auto intro!: bit_word_eqI simp: bit_simps)
qed

lemma hex_digit_text: "v < 16 \<Longrightarrow> lower_hex c = hex_char v \<Longrightarrow> hex_digit c = Some v"
proof -
  assume v: "v < 16" "lower_hex c = hex_char v"
  show "hex_digit c = Some v"
  proof (cases "hex_digit c")
    case None
    then have "c = hex_char v" using v(2) hex_digit_None by simp
    then show ?thesis using v(1) hex_char_digit None by simp
  next
    case (Some w)
    then have w: "w < 16" "hex_char w = hex_char v" using hex_digit_Some [OF Some] v(2) by simp_all
    have "Some w = hex_digit (hex_char w)" using hex_char_digit [OF w(1)] by (rule sym)
    also have "\<dots> = Some v" unfolding w(2) by (rule hex_char_digit [OF v(1)])
    finally show ?thesis using Some by simp
  qed
qed

lemma take_Suc_update: "pos < length xs \<Longrightarrow> take (Suc pos) (xs[pos := v]) = take pos xs @ [v]"
  by (simp add: take_Suc_conv_app_nth)

lemma hex2bin_text:
  "pos \<le> length bin \<Longrightarrow>
   hex_ok (hex2bin_loop hex bin pos acc 0) out \<longleftrightarrow>
   (\<exists>bs. map lower_hex hex = hex_text bs \<and> pos + length bs \<le> length bin \<and> out = take pos bin @ bs @ drop (pos + length bs) bin)"
proof (induction hex arbitrary: bin pos acc rule: induct_list012)
  case 1
  then show ?case by (auto simp: hex_ok_def hex_text_def)
next
  case (2 c)
  have "map lower_hex [c] \<noteq> hex_text bs" for bs
  proof
    assume "map lower_hex [c] = hex_text bs"
    then have "length [c] = length bs * 2" by (metis length_hex_text length_map)
    then show False by simp
  qed
  then show ?case by (auto simp: hex_ok_def split: option.splits)
next
  case (3 c d hex)
  note IH = "3.IH"(1)
  show ?case (is "?L \<longleftrightarrow> ?R")
  proof
    assume L: ?L
    then obtain h where h: "hex_digit c = Some h" "pos < length bin" by (auto simp: hex_ok_def split: option.splits if_splits)
    moreover from L h obtain l where l: "hex_digit d = Some l" by (auto simp: hex_ok_def split: option.splits if_splits)
    ultimately have "hex_ok (hex2bin_loop hex (bin[pos := h * 16 OR l]) (pos + 1) (h * 16) 0) out"
      using L by simp
    then obtain bs where bs: "map lower_hex hex = hex_text bs" "pos + 1 + length bs \<le> length bin"
      "out = take (pos + 1) (bin[pos := h * 16 OR l]) @ bs @ drop (pos + 1 + length bs) (bin[pos := h * 16 OR l])"
      using IH [of "pos + 1" "bin[pos := h * 16 OR l]" "h * 16"] h(2) by auto
    have "map lower_hex (c # d # hex) = hex_text ((h * 16 OR l) # bs)"
      using hex_digit_Some [OF h(1)] hex_digit_Some [OF l] bs(1) by (simp add: hex_text_Cons)
    then show ?R using bs h(2)
      by (intro exI [of _ "(h * 16 OR l) # bs"]) (simp add: take_Suc_update)
  next
    assume ?R
    then obtain bs where bs: "map lower_hex (c # d # hex) = hex_text bs" "pos + length bs \<le> length bin"
      "out = take pos bin @ bs @ drop (pos + length bs) bin" by blast
    then obtain v bs' where v: "bs = v # bs'" by (cases bs) (auto simp: hex_text_def)
    let ?h = "drop_bit 4 v" and ?l = "v AND 0xF"
    have c: "hex_digit c = Some ?h" "hex_digit d = Some ?l" "map lower_hex hex = hex_text bs'"
      using bs(1) v nibbles [of v] by (simp_all add: hex_text_def hex_digit_text)
    have "hex_ok (hex2bin_loop hex (bin[pos := v]) (pos + 1) (?h * 16) 0) out"
      using IH [of "pos + 1" "bin[pos := v]" "?h * 16"] bs c(3) v
      by (auto intro!: exI [of _ bs'] simp: take_Suc_update)
    then show ?L using c bs(2) v by (simp add: nibble_split)
  qed
qed

lemma cvt_hex2bin_ok: "fst (cvt_hex2bin bin hex) = 0 \<Longrightarrow> hex_ok (hex2bin_loop hex bin 0 0 0) (snd (cvt_hex2bin bin hex))"
  by (auto simp: cvt_hex2bin_def hex_ok_def Let_def split: prod.splits if_splits)

lemma cvt_hex2bin_text:
  "(\<exists>out. cvt_hex2bin bin hex = (0, out) \<and> P out) \<longleftrightarrow>
   (\<exists>bs. map lower_hex hex = hex_text bs \<and> length bs \<le> length bin \<and> P (bs @ drop (length bs) bin))"
proof -
  have "cvt_hex2bin bin hex = (0, out) \<longleftrightarrow> hex_ok (hex2bin_loop hex bin 0 0 0) out" for out
    using cvt_hex2bin_ok [of bin hex] by (auto simp: cvt_hex2bin_def hex_ok_def)
  then show ?thesis by (simp add: hex2bin_text) blast
qed

lemma fromHex_text:
  assumes "0 < length bs"
  shows "fromHex s = bs \<longleftrightarrow> map lower_hex s = hex_text bs"
proof -
  have s: "s \<noteq> [] \<and> length s div 2 = length bs" if "map lower_hex s = hex_text bs"
  proof -
    have "length s = length bs * 2" using that by (metis length_hex_text length_map)
    then show ?thesis using assms by auto
  qed
  have "fromHex s = bs \<longleftrightarrow> s \<noteq> [] \<and> (\<exists>out. cvt_hex2bin (replicate (length s div 2) 0) s = (0, out) \<and> out = bs)"
    using assms by (auto simp: fromHex_def fromHexImpl_def split: prod.splits)
  also have "\<dots> \<longleftrightarrow> map lower_hex s = hex_text bs"
    unfolding cvt_hex2bin_text
  proof safe
    fix xs assume x: "map lower_hex s = hex_text xs" "length xs \<le> length (replicate (length s div 2) 0)"
      "bs = xs @ drop (length xs) (replicate (length s div 2) 0)"
    have "length s = length xs * 2" using x(1) by (metis length_hex_text length_map)
    then show "map lower_hex s = hex_text (xs @ drop (length xs) (replicate (length s div 2) 0))" using x(1) by simp
  next
    assume "map lower_hex s = hex_text bs"
    with s show "\<exists>xs. map lower_hex s = hex_text xs \<and> length xs \<le> length (replicate (length s div 2) 0) \<and>
        xs @ drop (length xs) (replicate (length s div 2) 0) = bs" by (intro exI [of _ bs]) simp
  qed (use s in auto)
  finally show ?thesis .
qed

text \<open>
  C35. Reading hexadecimal text is the inverse of printing it: a non-empty text is read, and read as
  the bytes \<open>bs\<close>, exactly when in small letters it is what \<open>toHex\<close> prints for \<open>bs\<close>. In particular text of
  odd length and text with any other character is refused.
\<close>

theorem hex_roundtrip:
  assumes "0 < length bs" "length bs < SIZE_MAX div 2" "length bs * 2 + 1 \<le> length buf"
  shows "fromHex s = bs \<longleftrightarrow> toHex buf bs = Some (map lower_hex s)"
  using assms by (auto simp: toHex_eq fromHex_text)

theorem hex_roundtrip_witness:
  "fromHex [97, 70, 48, 55] = [0xAF, 7] \<longleftrightarrow> toHex (replicate 10 1) [0xAF, 7] = Some (map lower_hex [97, 70, 48, 55])"
  by (rule hex_roundtrip) (simp_all add: SIZE_MAX_def)

end
