(* ===== verification/Job.thy ===== *)
theory Job
  imports Algorithm Cvt Nonce
begin

text \<open>
  \<open>base/net/stratum/Job.h\<close> and \<open>Job.cpp\<close>: a unit of work from a pool, in the build without
  \<open>XMRIG_PROXY_PROJECT\<close> and \<open>XMRIG_FEATURE_BENCHMARK\<close>. A null \<open>char\<close> pointer is \<^term>\<open>None\<close>, and a C string
  is the list of its characters before the null. Copying a job is copying the record.
\<close>

definition kMaxBlobSize :: nat where "kMaxBlobSize = 408"
definition kMaxSeedSize :: nat where "kMaxSeedSize = 32"

record job =
  m_algorithm :: Id
  m_nicehash :: bool
  m_seed :: bytes
  m_size :: nat
  m_clientId :: bytes
  m_extraNonce :: bytes
  m_id :: bytes
  m_poolWallet :: bytes
  m_backend :: Backend
  m_diff :: u64
  m_height :: u64
  m_target :: u64
  m_blob :: bytes
  job_index :: nat

definition job_init :: "bool \<Rightarrow> Id \<Rightarrow> bytes \<Rightarrow> job" where
  "job_init nicehash algorithm clientId =
     \<lparr>m_algorithm = algorithm, m_nicehash = nicehash, m_seed = [], m_size = 0, m_clientId = clientId, m_extraNonce = [],
      m_id = [], m_poolWallet = [], m_backend = CPU, m_diff = 0, m_height = 0, m_target = 0,
      m_blob = replicate kMaxBlobSize 0, job_index = 0\<rparr>"

definition isEqual :: "job \<Rightarrow> job \<Rightarrow> bool" where
  "isEqual j other \<longleftrightarrow> m_id j = m_id other \<and> m_clientId j = m_clientId other \<and> m_blob j = m_blob other"

definition job_isValid :: "job \<Rightarrow> bool" where
  "job_isValid j \<longleftrightarrow> 0 < m_size j \<and> 0 < m_diff j \<or> m_poolWallet j \<noteq> []"

definition nonceOffset :: "job \<Rightarrow> nat" where
  "nonceOffset j = (if family (m_algorithm j) = KAWPOW then 32 else 39)"

definition nonceSize :: "job \<Rightarrow> nat" where
  "nonceSize j = (if family (m_algorithm j) = KAWPOW then 8 else 4)"

text \<open>
  The shift of the last case is undefined in C from 64 bits on, that is for an extra nonce of 16
  characters or more; the model gives \<^term>\<open>None\<close> there.
\<close>

definition nonceMask :: "job \<Rightarrow> u64 option" where
  "nonceMask j =
     (if m_nicehash j then Some 0xFFFFFF
      else if nonceSize j = 8 then
        (if length (m_extraNonce j) * 4 < 64 then Some (drop_bit (length (m_extraNonce j) * 4) (- 1)) else None)
      else Some 0xFFFFFFFF)"

text \<open>The 32-bit word at \<open>nonce()\<close>.\<close>

definition job_nonce :: "job \<Rightarrow> u32" where
  "job_nonce j = load32 (drop (nonceOffset j) (m_blob j))"

definition toDiff :: "u64 \<Rightarrow> u64" where
  "toDiff target = (if target \<noteq> 0 then 0xFFFFFFFFFFFFFFFF div target else 0)"

subsection \<open>Setting the fields\<close>

definition setBlob :: "bytes option \<Rightarrow> job \<Rightarrow> bool \<times> job" where
  "setBlob blob j =
     (case blob of
        None \<Rightarrow> (False, j)
      | Some blob \<Rightarrow>
          (let j = j\<lparr>m_size := length blob\<rparr>
           in if m_size j mod 2 \<noteq> 0 then (False, j)
              else (let j = j\<lparr>m_size := m_size j div 2\<rparr>
                    in if m_size j < nonceOffset j + nonceSize j \<or> length (m_blob j) \<le> m_size j then (False, j)
                       else (case fromHex_into (m_blob j) (take (m_size j * 2) blob) of (ok, bin) \<Rightarrow>
                         (let j = j\<lparr>m_blob := bin\<rparr>
                          in if \<not> ok then (False, j)
                             else (True, if job_nonce j \<noteq> 0 \<and> \<not> m_nicehash j then j\<lparr>m_nicehash := True\<rparr> else j))))))"

definition setSeedHash :: "bytes option \<Rightarrow> job \<Rightarrow> bool \<times> job" where
  "setSeedHash hash j =
     (case hash of
        None \<Rightarrow> (False, j)
      | Some hash \<Rightarrow>
          if length hash \<noteq> kMaxSeedSize * 2 then (False, j)
          else (let j = j\<lparr>m_seed := fromHex (take (kMaxSeedSize * 2) hash)\<rparr> in (m_seed j \<noteq> [], j)))"

text \<open>\<^term>\<open>None\<close> is the division by zero for a target of four zero bytes.\<close>

definition setTarget :: "bytes option \<Rightarrow> job \<Rightarrow> (bool \<times> job) option" where
  "setTarget target j =
     (case target of
        None \<Rightarrow> Some (False, j)
      | Some target \<Rightarrow>
          (let raw = fromHex target
           in if length raw = 4 then
                (let t = ucast (load32 raw) :: u64
                 in if t = 0 then None
                    else (let j = j\<lparr>m_target := 0xFFFFFFFFFFFFFFFF div (0xFFFFFFFF div t)\<rparr>
                          in Some (True, j\<lparr>m_diff := toDiff (m_target j)\<rparr>)))
              else if length raw = 8 then
                (let j = j\<lparr>m_target := load64 raw\<rparr> in Some (True, j\<lparr>m_diff := toDiff (m_target j)\<rparr>))
              else Some (False, j)))"

definition setDiff :: "u64 \<Rightarrow> job \<Rightarrow> job" where
  "setDiff diff j = j\<lparr>m_diff := diff, m_target := toDiff diff\<rparr>"

definition reset_job :: "job \<Rightarrow> job" where
  "reset_job j = j\<lparr>m_size := 0, m_diff := 0\<rparr>"

subsection \<open>Facts\<close>

definition job_ok :: "job \<Rightarrow> bool" where
  "job_ok j \<longleftrightarrow> length (m_blob j) = kMaxBlobSize \<and> nonceOffset j + nonceSize j \<le> m_size j \<and> m_size j < kMaxBlobSize"

lemma cvt_hex2bin_length [len_simps]: "length (snd (cvt_hex2bin bin hex)) = length bin"
proof -
  have "length (fst (snd (hex2bin_loop hex bin pos acc st))) = length bin" for pos acc st
    by (induction hex bin pos acc st rule: hex2bin_loop.induct) (auto split: option.splits)
  then show ?thesis by (simp add: cvt_hex2bin_def Let_def split: prod.split) (metis fst_conv snd_conv)
qed

lemma fromHex_into_length: "fromHex_into bin hex = (ok, bin') \<Longrightarrow> length bin' = length bin"
  using cvt_hex2bin_length [of bin hex] by (auto simp: fromHex_into_def split: if_splits prod.splits)

text \<open>A blob that is accepted leaves room for the nonce inside the blob, and the blob inside its array.\<close>

lemma setBlob_ok:
  assumes "length (m_blob j) = kMaxBlobSize" "setBlob blob j = (True, j')"
  shows "job_ok j'"
  using assms
  by (auto simp: setBlob_def Let_def job_ok_def nonceOffset_def nonceSize_def split: option.splits if_splits prod.splits
      dest!: fromHex_into_length)

lemma nonceMask_ok: "nonceMask j = Some msk \<Longrightarrow> nonce_mask_ok msk"
proof -
  assume m: "nonceMask j = Some msk"
  have d: "nonce_mask_ok (drop_bit n (- 1))" if "n < 64" for n
  proof -
    have "drop_bit n (- 1) = (mask (64 - n) :: u64)"
      by (auto intro!: bit_word_eqI simp: bit_simps)
    then have "uint (drop_bit n (- 1 :: u64)) = 2 ^ (64 - n) - 1"
      by (simp only: uint_mask_eq) (simp add: mask_eq_exp_minus_1)
    then have "unat (drop_bit n (- 1 :: u64)) + 1 = 2 ^ (64 - n)"
      unfolding unat_eq_nat_uint by (simp add: nat_diff_distrib nat_power_eq)
    then show ?thesis by (auto simp: nonce_mask_ok_def intro!: exI [of _ "64 - n"])
  qed
  have "nonce_mask_ok 0xFFFFFF" "nonce_mask_ok 0xFFFFFFFF"
    by (auto simp: nonce_mask_ok_def intro: exI [of _ 24] exI [of _ 32])
  with m d show ?thesis by (auto simp: nonceMask_def split: if_splits)
qed

text \<open>A target of four zero bytes divides by zero.\<close>

lemma setTarget_zero: "setTarget (Some [48, 48, 48, 48, 48, 48, 48, 48]) j = None"
proof -
  have "fromHex [48, 48, 48, 48, 48, 48, 48, 48] = [0, 0, 0, 0]"
    by (simp add: fromHex_text hex_text_def hex_char_def lower_hex_def word_le_nat_alt)
  then show ?thesis by (simp add: setTarget_def load32_def Let_def)
qed

end
