(* ===== verification/Worker_Job.thy ===== *)
theory Worker_Job
  imports Job
begin

text \<open>
  \<open>backend/common/WorkerJob.h\<close> for one hash at a time (\<open>WorkerJob<1>\<close>): the two jobs a worker keeps, one
  of the user and one of the donation, each with its blob and the nonces it has reserved in it.
\<close>

record worker_job =
  wj_blobs :: "nat \<Rightarrow> bytes"
  wj_jobs :: "nat \<Rightarrow> job"
  wj_rounds :: "nat \<Rightarrow> u32"
  wj_nonce_mask :: "nat \<Rightarrow> u64"
  wj_sequence :: u64
  wj_index :: nat

definition worker_job_init :: worker_job where
  "worker_job_init =
     \<lparr>wj_blobs = (\<lambda>_. replicate kMaxBlobSize 0), wj_jobs = (\<lambda>_. job_init False INVALID []), wj_rounds = (\<lambda>_. 0),
      wj_nonce_mask = (\<lambda>_. 0), wj_sequence = 0, wj_index = 0\<rparr>"

definition currentJob :: "worker_job \<Rightarrow> job" where
  "currentJob w = wj_jobs w (wj_index w)"

definition wj_blob :: "worker_job \<Rightarrow> bytes" where
  "wj_blob w = wj_blobs w (wj_index w)"

text \<open>The two words at \<open>nonce()\<close>.\<close>

definition wj_nonce :: "worker_job \<Rightarrow> u32 \<times> u32" where
  "wj_nonce w =
     (load32 (drop (nonceOffset (currentJob w)) (wj_blob w)), load32 (drop (nonceOffset (currentJob w) + 4) (wj_blob w)))"

definition wj_set_nonce :: "u32 \<times> u32 \<Rightarrow> worker_job \<Rightarrow> worker_job" where
  "wj_set_nonce n w = w\<lparr>wj_blobs := (wj_blobs w)(wj_index w :=
     memcpy_at (wj_blob w) (nonceOffset (currentJob w)) (store32 (fst n) @ store32 (snd n)) 8)\<rparr>"

text \<open>\<open>Nonce::next\<close> at the nonce of the worker.\<close>

definition wj_reserve :: "u32 \<Rightarrow> worker_job \<Rightarrow> nonces \<Rightarrow> (bool \<times> worker_job \<times> nonces) option" where
  "wj_reserve reserveCount w st =
     map_option (\<lambda>(ok, n, st). (ok, wj_set_nonce n w, st))
       (next_nonce (wj_index w) (wj_nonce w) reserveCount (wj_nonce_mask w (wj_index w)) st)"

text \<open>The result of \<open>Nonce::next\<close> is not used.\<close>

definition wj_save :: "job \<Rightarrow> u32 \<Rightarrow> Backend \<Rightarrow> worker_job \<Rightarrow> nonces \<Rightarrow> (worker_job \<times> nonces) option" where
  "wj_save j reserveCount backend w st =
     (case nonceMask j of
        None \<Rightarrow> None
      | Some msk \<Rightarrow>
          (let i = job_index j;
               w = w\<lparr>wj_index := i, wj_jobs := (wj_jobs w)(i := j\<lparr>m_backend := backend\<rparr>), wj_rounds := (wj_rounds w)(i := 0),
                     wj_nonce_mask := (wj_nonce_mask w)(i := msk)\<rparr>;
               w = w\<lparr>wj_blobs := (wj_blobs w)(i := memcpy_at (wj_blob w) 0 (m_blob j) (m_size j))\<rparr>
           in map_option snd (wj_reserve reserveCount w st)))"

definition wj_add :: "job \<Rightarrow> u32 \<Rightarrow> Backend \<Rightarrow> worker_job \<Rightarrow> nonces \<Rightarrow> (worker_job \<times> nonces) option" where
  "wj_add j reserveCount backend w st =
     (let w = w\<lparr>wj_sequence := m_sequence st backend\<rparr>
      in if isEqual (currentJob w) j then Some (w, st)
         else if wj_index w = 1 \<and> job_index j = 0 \<and> isEqual j (wj_jobs w 0) then Some (w\<lparr>wj_index := 0\<rparr>, st)
         else wj_save j reserveCount backend w st)"

text \<open>With a nonce of eight bytes the high word is copied into the job as well.\<close>

definition wj_nextRound :: "u32 \<Rightarrow> u32 \<Rightarrow> worker_job \<Rightarrow> nonces \<Rightarrow> (bool \<times> worker_job \<times> nonces) option" where
  "wj_nextRound rounds roundSize w st =
     (let i = wj_index w;
          w = w\<lparr>wj_rounds := (wj_rounds w)(i := wj_rounds w i + 1)\<rparr>
      in if wj_rounds w i AND (rounds - 1) = 0 then
           (case wj_reserve (rounds * roundSize) w st of
              None \<Rightarrow> None
            | Some (False, w, st) \<Rightarrow> Some (False, w, st)
            | Some (True, w, st) \<Rightarrow>
                Some (True,
                      if nonceSize (currentJob w) = 8 then
                        w\<lparr>wj_jobs := (wj_jobs w)(i := (currentJob w)\<lparr>m_blob :=
                          memcpy_at (m_blob (currentJob w)) (nonceOffset (currentJob w) + 4) (store32 (snd (wj_nonce w))) 4\<rparr>)\<rparr>
                      else w, st))
         else Some (True, wj_set_nonce (fst (wj_nonce w) + roundSize, snd (wj_nonce w)) w, st))"

subsection \<open>The bytes of the nonce\<close>

definition wj_blob_ok :: "worker_job \<Rightarrow> bool" where
  "wj_blob_ok w \<longleftrightarrow> length (wj_blob w) = kMaxBlobSize"

lemma nonceOffset_bound: "nonceOffset j + 8 \<le> kMaxBlobSize" "nonceOffset j + 8 \<le> 47"
  by (simp_all add: nonceOffset_def kMaxBlobSize_def)

lemma set_nonce_simps [simp]:
  "wj_index (wj_set_nonce n w) = wj_index w" "wj_jobs (wj_set_nonce n w) = wj_jobs w"
  "wj_rounds (wj_set_nonce n w) = wj_rounds w" "wj_nonce_mask (wj_set_nonce n w) = wj_nonce_mask w"
  "wj_sequence (wj_set_nonce n w) = wj_sequence w" "currentJob (wj_set_nonce n w) = currentJob w"
  by (simp_all add: wj_set_nonce_def currentJob_def)

lemma set_nonce_ok: "wj_blob_ok w \<Longrightarrow> wj_blob_ok (wj_set_nonce n w)"
  using nonceOffset_bound(1) [of "currentJob w"]
  by (simp add: wj_blob_ok_def wj_set_nonce_def wj_blob_def)

lemma load32_append: "load32 (store32 a @ xs) = a"
proof -
  have "take 4 (store32 a @ xs) = store32 a" by simp
  then show ?thesis using load32_store32 [of a] by (simp add: load32_def)
qed

lemma get_set_nonce:
  assumes "wj_blob_ok w"
  shows "wj_nonce (wj_set_nonce n w) = n"
proof -
  let ?o = "nonceOffset (currentJob w)"
  have b: "wj_blob (wj_set_nonce n w) = take ?o (wj_blob w) @ store32 (fst n) @ store32 (snd n) @ drop (?o + 8) (wj_blob w)"
    by (simp add: wj_set_nonce_def wj_blob_def memcpy_at_def)
  have o: "length (take ?o (wj_blob w)) = ?o"
    using assms nonceOffset_bound(1) [of "currentJob w"] by (simp add: wj_blob_ok_def)
  have "drop ?o (wj_blob (wj_set_nonce n w)) = store32 (fst n) @ store32 (snd n) @ drop (?o + 8) (wj_blob w)"
    "drop (?o + 4) (wj_blob (wj_set_nonce n w)) = store32 (snd n) @ drop (?o + 8) (wj_blob w)"
    unfolding b using o by simp_all
  then show ?thesis by (simp add: wj_nonce_def load32_append)
qed

text \<open>A refused reservation leaves everything as it was.\<close>

lemma set_same_nonce:
  assumes "wj_blob_ok w"
  shows "wj_set_nonce (wj_nonce w) w = w"
proof -
  let ?o = "nonceOffset (currentJob w)"
  have o: "?o + 8 \<le> length (wj_blob w)" using assms nonceOffset_bound(1) [of "currentJob w"] by (simp add: wj_blob_ok_def)
  have s: "store32 (load32 (drop k (wj_blob w))) = take 4 (drop k (wj_blob w))" if "k + 4 \<le> length (wj_blob w)" for k
    using that by (simp add: store32_def load32_def le_bytes_le_word)
  have "memcpy_at (wj_blob w) ?o (store32 (fst (wj_nonce w)) @ store32 (snd (wj_nonce w))) 8 = wj_blob w"
  proof -
    have "take 4 (drop ?o (wj_blob w)) @ take 4 (drop (?o + 4) (wj_blob w)) = take 8 (drop ?o (wj_blob w))"
      using take_add [of 4 4 "drop ?o (wj_blob w)"] by (simp add: add.commute)
    moreover have "take ?o (wj_blob w) @ take 8 (drop ?o (wj_blob w)) @ drop (?o + 8) (wj_blob w) = wj_blob w"
      by (metis append_take_drop_id drop_drop add.commute)
    ultimately show ?thesis using o s [of ?o] s [of "?o + 4"] by (simp add: memcpy_at_def wj_nonce_def)
  qed
  then show ?thesis by (simp add: wj_set_nonce_def wj_blob_def)
qed

subsection \<open>Counting through a reserved range\<close>

lemma nonce64_split: "nonce64 (ucast N, ucast (drop_bit 32 N)) = N"
proof (rule bit_word_eqI)
  fix i assume "i < LENGTH(64)"
  then show "bit (nonce64 (ucast N, ucast (drop_bit 32 N))) i = bit N i"
    by (cases "i < 32") (auto simp: nonce64_def bit_simps dest: bit_imp_le_length)
qed

lemma bit_u32: "bit (x :: u32) n \<Longrightarrow> n < 32"
  using bit_imp_le_length [of x n] by simp

lemma split_nonce64: "fst n = ucast (nonce64 n)" "snd n = ucast (drop_bit 32 (nonce64 n))"
  by (auto intro!: bit_word_eqI simp: nonce64_def bit_simps dest: bit_u32)

lemma unat_mask64:
  assumes "n \<le> 64"
  shows "unat (mask n :: u64) = 2 ^ n - 1"
proof -
  have "uint (mask n :: u64) = mask n" using assms by (simp only: uint_mask_eq) simp
  then have "uint (mask n :: u64) = 2 ^ n - 1" by (simp only: mask_eq_exp_minus_1)
  then show ?thesis unfolding unat_eq_nat_uint by (simp add: nat_diff_distrib nat_power_eq)
qed

lemma mask_form:
  assumes "nonce_mask_ok m"
  obtains n where "m = mask n" "n \<le> 64"
proof -
  obtain n where n: "unat m + 1 = 2 ^ n" using assms by (auto simp: nonce_mask_ok_def)
  have n64: "n \<le> 64"
  proof (rule ccontr)
    assume "\<not> n \<le> 64"
    then have "(2 :: nat) ^ 65 \<le> 2 ^ n" by (intro power_increasing) simp_all
    then show False using n unsigned_less [of m, where 'a = nat] by simp
  qed
  have "unat m = 2 ^ n - 1" using n by linarith
  then have "m = mask n" using unat_mask64 [OF n64] by (intro word_unat_eq_iff [THEN iffD2]) simp
  then show thesis using n64 by (rule that)
qed

lemma below_mask_bits:
  assumes "nonce_mask_ok m" "K \<le> m" "bit K i"
  shows "bit m i"
proof -
  obtain n where n: "m = mask n" "n \<le> 64" using mask_form [OF assms(1)] .
  have "unat K \<le> 2 ^ n - 1" using assms(2) unat_mask64 [OF n(2)] n(1) by (simp add: word_le_nat_alt)
  moreover have "(0 :: nat) < 2 ^ n" by simp
  ultimately have "unat K < 2 ^ n" by linarith
  then have "take_bit n K = K"
    by (intro word_unat_eq_iff [THEN iffD2]) (simp only: unsigned_take_bit_eq take_bit_nat_eq_self)
  then have "i < n" using assms(3) by (metis bit_take_bit_iff)
  then show ?thesis using bit_imp_le_length [OF assms(3)] by (simp add: n(1) bit_simps)
qed

lemma or_is_plus:
  assumes "nonce_mask_ok m" "K \<le> m"
  shows "(base AND NOT m) OR K = (base AND NOT m) + K"
  using below_mask_bits [OF assms] by (intro disjunctive_add_eq_or [symmetric]) (auto intro!: bit_word_eqI simp: bit_simps)

lemma ucast_Suc: "(ucast (N + 1 :: u64) :: u32) = ucast N + 1"
proof -
  have "unat (N + 1) = (unat N + 1) mod 2 ^ 64" by (simp add: unat_word_ariths)
  then have "unat (N + 1) mod 2 ^ 32 = (unat N + 1) mod 2 ^ 32"
    using mod_mod_cancel [of "2 ^ 32" "2 ^ 64" "unat N + 1"] by simp
  then show ?thesis
    by (intro word_unat_eq_iff [THEN iffD2]) (simp add: unsigned_ucast_eq unat_word_ariths take_bit_eq_mod mod_Suc_eq unat_mod)
qed

lemma step_nonce:
  assumes m: "nonce_mask_ok m" and K: "unat K < unat m" "unat K mod 2 ^ 32 + 1 < 2 ^ 32"
    and n: "nonce64 n = (base AND NOT m) OR K"
  shows "nonce64 (fst n + 1, snd n) = (base AND NOT m) OR (K + 1)"
proof -
  let ?A = "base AND NOT m"
  have small: "unat K + 1 < 2 ^ 64" using K(1) unsigned_less [of m, where 'a = nat] by simp
  then have K1: "unat (K + 1) = unat K + 1" using unat_add_range [of K 1] by simp
  have le: "K \<le> m" "K + 1 \<le> m" using K(1) K1 by (simp_all add: word_le_nat_alt)
  have N: "(?A OR K) + 1 = ?A OR (K + 1)" by (simp only: or_is_plus [OF m le(1)] or_is_plus [OF m le(2)] add.assoc)
  have "(unat K + 1) div 2 ^ 32 = unat K div 2 ^ 32"
  proof (rule div_nat_eqI)
    have "unat K = 2 ^ 32 * (unat K div 2 ^ 32) + unat K mod 2 ^ 32" by (rule mult_div_mod_eq [symmetric])
    then show "2 ^ 32 * (unat K div 2 ^ 32) \<le> unat K + 1" "unat K + 1 < 2 ^ 32 * Suc (unat K div 2 ^ 32)"
      using K(2) unfolding mult_Suc_right by linarith+
  qed
  then have "drop_bit 32 (K + 1) = drop_bit 32 K"
    by (intro word_unat_eq_iff [THEN iffD2]) (simp add: unsigned_drop_bit_eq drop_bit_eq_div unat_div K1)
  then have hi: "drop_bit 32 (?A OR (K + 1)) = drop_bit 32 (?A OR K)" by simp
  have lo: "(ucast (?A OR (K + 1)) :: u32) = ucast (?A OR K) + 1"
    unfolding N [symmetric] by (rule ucast_Suc)
  show ?thesis
    using nonce64_split [of "?A OR (K + 1)"] unfolding hi lo
    by (simp add: split_nonce64 n)
qed

subsection \<open>Reserved nonces\<close>

text \<open>
  The nonce of the worker lies in a range of \<open>R\<close> nonces at \<open>k\<close> that was granted to it, as far from its start
  as \<open>m_rounds\<close> says, and the bits above the mask are those of \<open>base\<close>.
\<close>

definition wj_mask :: "worker_job \<Rightarrow> u64" where
  "wj_mask w = wj_nonce_mask w (wj_index w) AND 0x7FFFFFFFFFFFFFFF"

definition reserved :: "u32 \<Rightarrow> u64 \<Rightarrow> worker_job \<Rightarrow> u64 \<Rightarrow> bool" where
  "reserved R base w k \<longleftrightarrow>
     nonce_granted (wj_nonce_mask w (wj_index w)) R k \<and>
     nonce64 (wj_nonce w) = (base AND NOT (wj_mask w)) OR (k + of_nat (unat (wj_rounds w (wj_index w)) mod unat R))"

lemma round_test:
  assumes "unat R = 2 ^ p"
  shows "r AND (R - 1) = 0 \<longleftrightarrow> unat (r :: u32) mod unat R = 0"
proof -
  have p: "p < 32"
  proof (rule ccontr)
    assume "\<not> p < 32"
    then have "(2 :: nat) ^ 32 \<le> 2 ^ p" by (intro power_increasing) simp_all
    then show False using assms unsigned_less [of R, where 'a = nat] by simp
  qed
  then have "(2 :: nat) ^ p < 2 ^ 32" by (intro power_strict_increasing) simp_all
  moreover have "(2 :: u32) ^ p = of_nat (2 ^ p)" by simp
  ultimately have "unat (2 ^ p :: u32) = 2 ^ p" by (simp only: unat_of_nat) simp
  then have "R = 2 ^ p" using assms by (intro word_unat_eq_iff [THEN iffD2]) simp
  then have "r AND (R - 1) = take_bit p r" by (simp add: take_bit_eq_mask mask_eq_exp_minus_1)
  then have "unat (r AND (R - 1)) = unat r mod unat R"
    by (simp only: assms unsigned_take_bit_eq take_bit_eq_mod [where 'a = nat])
  then show ?thesis by (metis unat_eq_0)
qed

lemma round_Suc:
  assumes "unat (R :: u32) = 2 ^ p"
  shows "unat (r + 1 :: u32) mod unat R = (unat r mod unat R + 1) mod unat R"
proof -
  have "(2 :: nat) ^ p \<le> 2 ^ 32" using assms unsigned_less [of R, where 'a = nat] by simp
  then have "p \<le> 32" using power_increasing_iff [of "2 :: nat" p 32] by simp
  then have "(2 :: nat) ^ p dvd 2 ^ 32" by (rule le_imp_power_dvd)
  moreover have "unat (r + 1) = (unat r + 1) mod 2 ^ 32" by (simp add: unat_word_ariths)
  ultimately show ?thesis unfolding assms by (simp only: mod_mod_cancel mod_add_left_eq)
qed

lemma granted_offset:
  assumes "nonce_granted msk R k" "i < unat R"
  shows "unat (k + of_nat i) = unat k + i" "unat k + i \<le> unat (msk AND 0x7FFFFFFFFFFFFFFF)"
    "unat k mod 2 ^ 32 + i < 2 ^ 32"
proof -
  have g: "unat k + unat R \<le> unat (msk AND 0x7FFFFFFFFFFFFFFF) + 1" "unat k mod 2 ^ 32 + unat R \<le> 2 ^ 32"
    using assms(1) by (simp_all add: nonce_granted_def good_range_def)
  then show "unat k + i \<le> unat (msk AND 0x7FFFFFFFFFFFFFFF)" "unat k mod 2 ^ 32 + i < 2 ^ 32" using assms(2) by linarith+
  then have s: "unat k + i < 2 ^ 64" using unsigned_less [of "msk AND 0x7FFFFFFFFFFFFFFF", where 'a = nat] by simp
  then have "unat (of_nat i :: u64) = i" by (simp add: unat_of_nat)
  then show "unat (k + of_nat i) = unat k + i" using s by (simp add: unat_word_ariths)
qed

lemma wj_reserve_returns:
  assumes "nonce_mask_ok (wj_nonce_mask w (wj_index w))" "wj_blob_ok w"
  obtains (refused) st' where "wj_reserve R w st = Some (False, w, st')"
  | (taken) k st' where "wj_reserve R w st = Some (True, wj_set_nonce (write_nonce (wj_mask w) k (wj_nonce w)) w, st')"
      "nonce_granted (wj_nonce_mask w (wj_index w)) R k" "m_nonces st (wj_index w) \<le> k"
proof (rule next_nonce_returns [OF assms(1), of "wj_index w" "wj_nonce w" R st])
  fix st' assume "next_nonce (wj_index w) (wj_nonce w) R (wj_nonce_mask w (wj_index w)) st = Some (False, wj_nonce w, st')"
  then show thesis by (intro refused [of st']) (simp add: wj_reserve_def set_same_nonce [OF assms(2)])
next
  fix k st' assume "next_nonce (wj_index w) (wj_nonce w) R (wj_nonce_mask w (wj_index w)) st =
      Some (True, write_nonce (wj_nonce_mask w (wj_index w) AND 0x7FFFFFFFFFFFFFFF) k (wj_nonce w), st')"
    "nonce_granted (wj_nonce_mask w (wj_index w)) R k" "m_nonces st (wj_index w) \<le> k"
  then show thesis by (intro taken [of k st']) (simp_all add: wj_reserve_def wj_mask_def)
qed

lemma taken_reserved:
  assumes "nonce_granted (wj_nonce_mask w (wj_index w)) R k" "wj_blob_ok w"
    and "nonce64 (wj_nonce w) AND NOT (wj_mask w) = base AND NOT (wj_mask w)" "unat (wj_rounds w (wj_index w)) mod unat R = 0"
  shows "reserved R base (wj_set_nonce (write_nonce (wj_mask w) k (wj_nonce w)) w) k"
proof -
  have "0 < unat R" using assms(1) by (simp add: nonce_granted_def unat_gt_0)
  from granted_offset(2) [OF assms(1) this] have "k \<le> wj_mask w" by (simp add: word_le_nat_alt wj_mask_def)
  from nonce64_write [OF this] show ?thesis
    using assms by (simp add: reserved_def get_set_nonce wj_mask_def)
qed

lemma reserved_high:
  assumes "reserved R base w k" "nonce_mask_ok (wj_nonce_mask w (wj_index w))"
  shows "nonce64 (wj_nonce w) AND NOT (wj_mask w) = base AND NOT (wj_mask w)"
proof -
  let ?i = "unat (wj_rounds w (wj_index w)) mod unat R"
  have g: "nonce_granted (wj_nonce_mask w (wj_index w)) R k" using assms(1) by (simp add: reserved_def)
  then have "?i < unat R" by (simp add: nonce_granted_def unat_gt_0)
  from granted_offset [OF g this] have "k + of_nat ?i \<le> wj_mask w" by (simp add: word_le_nat_alt wj_mask_def)
  from below_mask_bits [OF nonce_mask_cut [OF assms(2), folded wj_mask_def] this] show ?thesis
    using assms(1) by (auto intro!: bit_word_eqI simp: reserved_def bit_simps)
qed

text \<open>The next round moves to the next nonce of the range, or to the first of a new one.\<close>

lemma next_round_step:
  assumes "reserved R base w k" "wj_blob_ok w" "nonce_mask_ok (wj_nonce_mask w (wj_index w))"
    and "unat (wj_rounds w (wj_index w)) mod unat R + 1 < unat R"
  shows "nonce64 (fst (wj_nonce w) + 1, snd (wj_nonce w)) =
    (base AND NOT (wj_mask w)) OR (k + of_nat (unat (wj_rounds w (wj_index w)) mod unat R + 1))"
proof -
  let ?i = "unat (wj_rounds w (wj_index w)) mod unat R"
  have g: "nonce_granted (wj_nonce_mask w (wj_index w)) R k" using assms(1) by (simp add: reserved_def)
  have i: "?i < unat R" using assms(4) by simp
  note o = granted_offset [OF g i, folded wj_mask_def] granted_offset [OF g assms(4), folded wj_mask_def]
  have "(unat k + ?i) mod 2 ^ 32 = unat k mod 2 ^ 32 + ?i"
    using o(3) by (metis mod_add_left_eq mod_less)
  with o have K: "unat (k + of_nat ?i) < unat (wj_mask w)" "unat (k + of_nat ?i) mod 2 ^ 32 + 1 < 2 ^ 32" by simp_all
  have n: "nonce64 (wj_nonce w) = (base AND NOT (wj_mask w)) OR (k + of_nat ?i)" using assms(1) by (simp only: reserved_def)
  have "k + of_nat (?i + 1) = k + of_nat ?i + 1" by simp
  then show ?thesis using step_nonce [OF nonce_mask_cut [OF assms(3), folded wj_mask_def] K n] by (simp only:)
qed

text \<open>What a call of \<open>nextRound\<close> does, on its three branches.\<close>

definition wj_tick :: "worker_job \<Rightarrow> worker_job" where
  "wj_tick w = w\<lparr>wj_rounds := (wj_rounds w)(wj_index w := wj_rounds w (wj_index w) + 1)\<rparr>"

lemma tick_simps [simp]:
  "wj_index (wj_tick w) = wj_index w" "wj_jobs (wj_tick w) = wj_jobs w" "wj_blobs (wj_tick w) = wj_blobs w"
  "wj_nonce_mask (wj_tick w) = wj_nonce_mask w" "wj_blob (wj_tick w) = wj_blob w" "currentJob (wj_tick w) = currentJob w"
  "wj_nonce (wj_tick w) = wj_nonce w" "wj_mask (wj_tick w) = wj_mask w" "wj_blob_ok (wj_tick w) = wj_blob_ok w"
  by (simp_all add: wj_tick_def wj_blob_def currentJob_def wj_nonce_def wj_mask_def wj_blob_ok_def)

text \<open>The copy of the high word into the job, for a nonce of eight bytes.\<close>

definition wj_copy_high :: "worker_job \<Rightarrow> worker_job" where
  "wj_copy_high w =
     (if nonceSize (currentJob w) = 8 then
        w\<lparr>wj_jobs := (wj_jobs w)(wj_index w := (currentJob w)\<lparr>m_blob :=
          memcpy_at (m_blob (currentJob w)) (nonceOffset (currentJob w) + 4) (store32 (snd (wj_nonce w))) 4\<rparr>)\<rparr>
      else w)"

lemma copy_high_simps [simp]:
  "wj_index (wj_copy_high w) = wj_index w" "wj_blobs (wj_copy_high w) = wj_blobs w" "wj_rounds (wj_copy_high w) = wj_rounds w"
  "wj_nonce_mask (wj_copy_high w) = wj_nonce_mask w" "wj_blob (wj_copy_high w) = wj_blob w"
  "wj_nonce (wj_copy_high w) = wj_nonce w" "wj_blob_ok (wj_copy_high w) = wj_blob_ok w" "wj_mask (wj_copy_high w) = wj_mask w"
  by (simp_all add: wj_copy_high_def wj_blob_def wj_blob_ok_def wj_mask_def wj_nonce_def currentJob_def nonceOffset_def)

lemma nextRound_cases:
  assumes "nonce_mask_ok (wj_nonce_mask w (wj_index w))" "wj_blob_ok w" "unat R = 2 ^ p"
  obtains (counted) "unat (wj_rounds (wj_tick w) (wj_index w)) mod unat R \<noteq> 0"
      "wj_nextRound R 1 w st = Some (True, wj_set_nonce (fst (wj_nonce w) + 1, snd (wj_nonce w)) (wj_tick w), st)"
  | (refused) st' where "unat (wj_rounds (wj_tick w) (wj_index w)) mod unat R = 0"
      "wj_nextRound R 1 w st = Some (False, wj_tick w, st')"
  | (taken) k st' where "unat (wj_rounds (wj_tick w) (wj_index w)) mod unat R = 0"
      "wj_nextRound R 1 w st = Some (True, wj_copy_high (wj_set_nonce (write_nonce (wj_mask w) k (wj_nonce w)) (wj_tick w)), st')"
      "nonce_granted (wj_nonce_mask w (wj_index w)) R k" "m_nonces st (wj_index w) \<le> k"
proof (cases "unat (wj_rounds (wj_tick w) (wj_index w)) mod unat R = 0")
  case True
  then have t: "wj_rounds w (wj_index w) + 1 AND (R - 1) = 0" using round_test [OF assms(3)] by (simp add: wj_tick_def)
  have n: "wj_nextRound R 1 w st = (case wj_reserve R (wj_tick w) st of
      None \<Rightarrow> None | Some (False, w, st) \<Rightarrow> Some (False, w, st) | Some (True, w', st) \<Rightarrow> Some (True, wj_copy_high w', st))"
  proof (cases "wj_reserve R (wj_tick w) st")
    case (Some x)
    obtain ok w' st' where x: "x = (ok, w', st')" by (cases x)
    then have "wj_index w' = wj_index w" using Some by (auto simp: wj_reserve_def)
    then show ?thesis using t Some x
      by (simp add: wj_nextRound_def wj_copy_high_def Let_def flip: wj_tick_def split: bool.split)
  qed (use t in \<open>simp add: wj_nextRound_def Let_def flip: wj_tick_def\<close>)
  show thesis
    by (rule wj_reserve_returns [of "wj_tick w" R st]) (use assms True n in \<open>auto intro: refused taken\<close>)
next
  case False
  then have t: "wj_rounds w (wj_index w) + 1 AND (R - 1) \<noteq> 0" using round_test [OF assms(3)] by (simp add: wj_tick_def)
  show thesis
    by (rule counted [OF False]) (use t in \<open>simp add: wj_nextRound_def Let_def flip: wj_tick_def\<close>)
qed

lemma counted_reserved:
  assumes "reserved R base w k" "wj_blob_ok w" "nonce_mask_ok (wj_nonce_mask w (wj_index w))" "unat R = 2 ^ p"
    and "unat (wj_rounds (wj_tick w) (wj_index w)) mod unat R \<noteq> 0"
  shows "reserved R base (wj_set_nonce (fst (wj_nonce w) + 1, snd (wj_nonce w)) (wj_tick w)) k"
proof -
  let ?i = "unat (wj_rounds w (wj_index w)) mod unat R"
  have t: "unat (wj_rounds (wj_tick w) (wj_index w)) mod unat R = (?i + 1) mod unat R"
    using round_Suc [OF assms(4)] by (simp add: wj_tick_def)
  have "?i < unat R" using assms(4) by simp
  moreover have "?i + 1 \<noteq> unat R"
  proof
    assume "?i + 1 = unat R"
    then have "(?i + 1) mod unat R = 0" by simp
    then show False using t assms(5) by simp
  qed
  ultimately have i: "?i + 1 < unat R" by linarith
  then have "unat (wj_rounds (wj_tick w) (wj_index w)) mod unat R = ?i + 1" using t by (simp only: mod_less)
  moreover have "wj_mask (wj_set_nonce n (wj_tick w)) = wj_mask w" for n by (simp add: wj_mask_def)
  ultimately show ?thesis
    using next_round_step [OF assms(1-3) i] assms(1,2)
    by (simp only: reserved_def get_set_nonce tick_simps set_nonce_simps)
qed

lemma copy_high_reserved: "reserved R base (wj_copy_high w) k \<longleftrightarrow> reserved R base w k"
  by (simp add: reserved_def)

text \<open>A call of \<open>nextRound\<close> from a reserved nonce: to the next one of the range, or at its end to a new range.\<close>

definition wj_pos :: "u32 \<Rightarrow> worker_job \<Rightarrow> nat" where
  "wj_pos R w = unat (wj_rounds w (wj_index w)) mod unat R"

definition wj_at :: "u32 \<Rightarrow> u64 \<Rightarrow> nat \<Rightarrow> u64 \<Rightarrow> worker_job \<Rightarrow> u64 \<Rightarrow> bool" where
  "wj_at R base i msk w k \<longleftrightarrow>
     reserved R base w k \<and> wj_blob_ok w \<and> nonce_mask_ok msk \<and> wj_index w = i \<and> wj_nonce_mask w i = msk"

lemma round_returns:
  assumes "wj_at R base i msk w k" and "unat R = 2 ^ p"
  obtains (counted) w' where "wj_nextRound R 1 w st = Some (True, w', st)" "wj_at R base i msk w' k" "wj_pos R w' = Suc (wj_pos R w)"
      "Suc (wj_pos R w) < unat R"
  | (refused) w' st' where "wj_nextRound R 1 w st = Some (False, w', st')" "Suc (wj_pos R w) = unat R"
  | (taken) k' w' st' where "wj_nextRound R 1 w st = Some (True, w', st')" "wj_at R base i msk w' k'" "wj_pos R w' = 0"
      "Suc (wj_pos R w) = unat R" "m_nonces st i \<le> k'"
proof -
  have w: "reserved R base w k" "wj_blob_ok w" "nonce_mask_ok (wj_nonce_mask w (wj_index w))" "wj_index w = i" "wj_nonce_mask w i = msk"
    "nonce_mask_ok msk"
    using assms(1) by (auto simp: wj_at_def)
  have lt: "wj_pos R w < unat R" using assms(2) by (simp add: wj_pos_def)
  have t: "unat (wj_rounds (wj_tick w) (wj_index w)) mod unat R = Suc (wj_pos R w) mod unat R"
    using round_Suc [OF assms(2)] by (simp add: wj_tick_def wj_pos_def)
  have p: "wj_pos R (wj_set_nonce n (wj_tick w)) = Suc (wj_pos R w) mod unat R"
    "wj_pos R (wj_copy_high (wj_set_nonce n (wj_tick w))) = Suc (wj_pos R w) mod unat R" for n
    using t by (simp_all add: wj_pos_def)
  have last: "Suc (wj_pos R w) = unat R" if "unat (wj_rounds (wj_tick w) (wj_index w)) mod unat R = 0"
  proof (rule ccontr)
    assume "Suc (wj_pos R w) \<noteq> unat R"
    with lt have "Suc (wj_pos R w) < unat R" by linarith
    with t that show False by simp
  qed
  show thesis
  proof (rule nextRound_cases [OF w(3,2) assms(2), of st])
    assume n: "unat (wj_rounds (wj_tick w) (wj_index w)) mod unat R \<noteq> 0"
      and e: "wj_nextRound R 1 w st = Some (True, wj_set_nonce (fst (wj_nonce w) + 1, snd (wj_nonce w)) (wj_tick w), st)"
    from n t lt have "Suc (wj_pos R w) \<noteq> unat R" by auto
    with lt have "Suc (wj_pos R w) < unat R" by linarith
    then show thesis
      using counted [OF e] counted_reserved [OF w(1-3) assms(2) n] w p by (simp add: wj_at_def set_nonce_ok)
  next
    fix st' assume "unat (wj_rounds (wj_tick w) (wj_index w)) mod unat R = 0" "wj_nextRound R 1 w st = Some (False, wj_tick w, st')"
    with last show thesis by (intro refused)
  next
    fix k' st'
    assume n: "unat (wj_rounds (wj_tick w) (wj_index w)) mod unat R = 0"
      and e: "wj_nextRound R 1 w st = Some (True, wj_copy_high (wj_set_nonce (write_nonce (wj_mask w) k' (wj_nonce w)) (wj_tick w)), st')"
      and g: "nonce_granted (wj_nonce_mask w (wj_index w)) R k'" "m_nonces st (wj_index w) \<le> k'"
    have "reserved R base (wj_set_nonce (write_nonce (wj_mask (wj_tick w)) k' (wj_nonce (wj_tick w))) (wj_tick w)) k'"
      by (rule taken_reserved) (use g n w(2) reserved_high [OF w(1,3)] in simp_all)
    then show thesis
      using taken [OF e] g(2) last [OF n] w p by (simp add: wj_at_def set_nonce_ok copy_high_reserved)
  qed
qed

text \<open>
  The nonces a worker tries up to the first refusal: one, and one more for each call of \<open>nextRound\<close> that returns true. The
  counters that the calls find are given, since other workers move them in between.
\<close>

fun tried :: "u32 \<Rightarrow> nonces list \<Rightarrow> worker_job \<Rightarrow> u64 list" where
  "tried R [] w = [nonce64 (wj_nonce w)]"
| "tried R (st # sts) w = nonce64 (wj_nonce w) #
     (case wj_nextRound R 1 w st of Some (True, w', st') \<Rightarrow> tried R sts w' | _ \<Rightarrow> [])"

text \<open>The nonce \<open>N\<close> in place \<open>q\<close>, counted from the start of the first of the ranges \<open>ks\<close>.\<close>

definition in_range :: "u32 \<Rightarrow> u64 \<Rightarrow> u64 \<Rightarrow> u64 list \<Rightarrow> nat \<Rightarrow> u64 \<Rightarrow> bool" where
  "in_range R base msk ks q N \<longleftrightarrow>
     q div unat R < length ks \<and> nonce_granted msk R (ks ! (q div unat R)) \<and>
     N = (base AND NOT (msk AND 0x7FFFFFFFFFFFFFFF)) OR (ks ! (q div unat R) + of_nat (q mod unat R))"

definition ranges :: "u32 \<Rightarrow> u64 \<Rightarrow> nat \<Rightarrow> u64 \<Rightarrow> nonces list \<Rightarrow> nat \<Rightarrow> u64 list \<Rightarrow> u64 list \<Rightarrow> bool" where
  "ranges R base i msk sts r ks Ns \<longleftrightarrow>
     (\<forall>n < length Ns. in_range R base msk ks (r + n) (Ns ! n) \<and>
        (0 < n \<and> (r + n) mod unat R = 0 \<longrightarrow> m_nonces (sts ! (n - 1)) i \<le> ks ! ((r + n) div unat R)))"

lemma at_nonce:
  assumes "wj_at R base i msk w k" and "unat R = 2 ^ p"
  shows "nonce_granted msk R k" "wj_pos R w < unat R"
    "nonce64 (wj_nonce w) = (base AND NOT (msk AND 0x7FFFFFFFFFFFFFFF)) OR (k + of_nat (wj_pos R w))"
  using assms by (auto simp: wj_at_def reserved_def wj_pos_def wj_mask_def)

lemma at_in_range:
  assumes "wj_at R base i msk w k" and "unat R = 2 ^ p"
  shows "in_range R base msk (k # ks) (wj_pos R w) (nonce64 (wj_nonce w))"
  using at_nonce [OF assms] by (simp add: in_range_def)

lemma ranges_counted:
  assumes "ranges R base i msk sts (Suc r) (k # ks) Ns" and "Suc r < unat R" and "in_range R base msk (k # ks) r N"
  shows "ranges R base i msk (st # sts) r (k # ks) (N # Ns)"
  unfolding ranges_def
proof (intro allI impI)
  fix n assume n: "n < length (N # Ns)"
  show "in_range R base msk (k # ks) (r + n) ((N # Ns) ! n) \<and>
      (0 < n \<and> (r + n) mod unat R = 0 \<longrightarrow> m_nonces ((st # sts) ! (n - 1)) i \<le> (k # ks) ! ((r + n) div unat R))"
  proof (cases n)
    case (Suc m)
    then have m: "in_range R base msk (k # ks) (Suc r + m) (Ns ! m)"
      "0 < m \<and> (Suc r + m) mod unat R = 0 \<longrightarrow> m_nonces (sts ! (m - 1)) i \<le> (k # ks) ! ((Suc r + m) div unat R)"
      using assms(1) n by (simp_all add: ranges_def)
    then show ?thesis using assms(2) by (cases m) (simp_all add: Suc)
  qed (use assms(3) in simp)
qed

lemma ranges_taken:
  assumes "ranges R base i msk sts 0 (k' # ks) Ns" and "Suc r = unat R" and "in_range R base msk [k] r N" and "m_nonces st i \<le> k'"
  shows "ranges R base i msk (st # sts) r (k # k' # ks) (N # Ns)"
  unfolding ranges_def
proof (intro allI impI)
  fix n assume n: "n < length (N # Ns)"
  have R: "0 < unat R" using assms(2) by linarith
  show "in_range R base msk (k # k' # ks) (r + n) ((N # Ns) ! n) \<and>
      (0 < n \<and> (r + n) mod unat R = 0 \<longrightarrow> m_nonces ((st # sts) ! (n - 1)) i \<le> (k # k' # ks) ! ((r + n) div unat R))"
  proof (cases n)
    case 0
    have "r < unat R" using assms(2) by linarith
    with 0 assms(3) show ?thesis by (simp add: in_range_def)
  next
    case (Suc m)
    have "r + n = m + unat R" using assms(2) Suc by linarith
    moreover have "(m + unat R) div unat R = m div unat R + 1" using R by (intro div_add_self2) linarith
    ultimately have e: "(r + n) div unat R = Suc (m div unat R)" "(r + n) mod unat R = m mod unat R" by simp_all
    have m: "in_range R base msk (k' # ks) m (Ns ! m)"
      "0 < m \<and> m mod unat R = 0 \<longrightarrow> m_nonces (sts ! (m - 1)) i \<le> (k' # ks) ! (m div unat R)"
      using assms(1) n Suc by (simp_all add: ranges_def)
    have "in_range R base msk (k # k' # ks) (r + n) ((N # Ns) ! n)"
      using m(1) unfolding in_range_def e by (simp add: Suc)
    moreover have "m_nonces ((st # sts) ! (n - 1)) i \<le> (k # k' # ks) ! ((r + n) div unat R)" if "(r + n) mod unat R = 0"
      using m(2) that assms(4) unfolding e by (cases m) (simp_all add: Suc)
    ultimately show ?thesis by auto
  qed
qed

lemma tried_ranges:
  assumes "wj_at R base i msk w k" and "unat R = 2 ^ p"
  shows "(\<exists>ks. ranges R base i msk sts (wj_pos R w) (k # ks) (tried R sts w)) \<and>
    min (Suc (length sts)) (unat R - wj_pos R w) \<le> length (tried R sts w)"
  using assms(1)
proof (induction sts arbitrary: w k)
  case Nil
  then show ?case using at_in_range [OF Nil assms(2)] by (auto simp: ranges_def)
next
  case (Cons st sts)
  note now = at_in_range [OF Cons.prems assms(2)]
  show ?case
  proof (rule round_returns [OF Cons.prems assms(2), of st])
    fix w' assume w': "wj_nextRound R 1 w st = Some (True, w', st)" "wj_at R base i msk w' k" "wj_pos R w' = Suc (wj_pos R w)"
      "Suc (wj_pos R w) < unat R"
    obtain ks where "ranges R base i msk sts (Suc (wj_pos R w)) (k # ks) (tried R sts w')"
      and l: "min (Suc (length sts)) (unat R - Suc (wj_pos R w)) \<le> length (tried R sts w')"
      using Cons.IH [OF w'(2)] w'(3) by auto
    from ranges_counted [OF this(1) w'(4) now] l show ?thesis using w'(1) by auto
  next
    fix w' st' assume "wj_nextRound R 1 w st = Some (False, w', st')" "Suc (wj_pos R w) = unat R"
    with now show ?thesis by (auto simp: ranges_def)
  next
    fix k' w' st' assume w': "wj_nextRound R 1 w st = Some (True, w', st')" "wj_at R base i msk w' k'" "wj_pos R w' = 0"
      "Suc (wj_pos R w) = unat R" "m_nonces st i \<le> k'"
    obtain ks where "ranges R base i msk sts 0 (k' # ks) (tried R sts w')" using Cons.IH [OF w'(2)] w'(3) by auto
    from ranges_taken [OF this w'(4) now w'(5)] show ?thesis using w'(1,4) by auto
  qed
qed

text \<open>What \<open>save\<close> has written before it asks for a range.\<close>

definition wj_prepared :: "job \<Rightarrow> Backend \<Rightarrow> u64 \<Rightarrow> worker_job \<Rightarrow> worker_job" where
  "wj_prepared j backend msk w =
     w\<lparr>wj_index := job_index j, wj_jobs := (wj_jobs w)(job_index j := j\<lparr>m_backend := backend\<rparr>),
       wj_rounds := (wj_rounds w)(job_index j := 0), wj_nonce_mask := (wj_nonce_mask w)(job_index j := msk),
       wj_blobs := (wj_blobs w)(job_index j := memcpy_at (wj_blobs w (job_index j)) 0 (m_blob j) (m_size j))\<rparr>"

lemma save_prepared:
  assumes "nonceMask j = Some msk"
  shows "wj_save j R backend w st = map_option snd (wj_reserve R (wj_prepared j backend msk w) st)"
  using assms by (simp add: wj_save_def wj_prepared_def Let_def wj_blob_def)

lemma saved_at:
  assumes "nonceMask j = Some msk" "length (m_blob j) = kMaxBlobSize" "m_size j \<le> kMaxBlobSize"
    and "length (wj_blobs w (job_index j)) = kMaxBlobSize"
    and "wj_reserve R (wj_prepared j backend msk w) st = Some (True, w0, st0)"
  obtains k where "wj_at R (nonce64 (wj_nonce (wj_prepared j backend msk w))) (job_index j) msk w0 k" "wj_pos R w0 = 0"
    "m_nonces st (job_index j) \<le> k"
proof -
  let ?w = "wj_prepared j backend msk w"
  have m: "nonce_mask_ok msk" by (rule nonceMask_ok [OF assms(1)])
  have w: "wj_index ?w = job_index j" "wj_nonce_mask ?w (job_index j) = msk" "wj_rounds ?w (job_index j) = 0" "wj_blob_ok ?w"
    using assms(2-4) by (simp_all add: wj_prepared_def wj_blob_ok_def wj_blob_def memcpy_at_def)
  show thesis
  proof (rule wj_reserve_returns [of ?w R st])
    show "nonce_mask_ok (wj_nonce_mask ?w (wj_index ?w))" "wj_blob_ok ?w" using m w by simp_all
  next
    fix k st' assume e: "wj_reserve R ?w st = Some (True, wj_set_nonce (write_nonce (wj_mask ?w) k (wj_nonce ?w)) ?w, st')"
      and g: "nonce_granted (wj_nonce_mask ?w (wj_index ?w)) R k" "m_nonces st (wj_index ?w) \<le> k"
    have w0: "w0 = wj_set_nonce (write_nonce (wj_mask ?w) k (wj_nonce ?w)) ?w" using e assms(5) by simp
    have "reserved R (nonce64 (wj_nonce ?w)) w0 k"
      unfolding w0 by (rule taken_reserved) (use g w in simp_all)
    then show thesis using w m g(2) by (intro that [of k]) (simp_all add: w0 wj_at_def wj_pos_def set_nonce_ok)
  qed (use assms(5) in simp)
qed

text \<open>
  C16. A worker that saves a job and is granted a range for it tries, up to the first refusal, exactly the nonces of ranges
  that were granted to it, in order: the \<open>R\<close> nonces of the first range, then those of the range that \<open>Nonce::next\<close> grants it
  at its end, which starts at or behind the counter found there, and so on, whatever the other workers do to the counters in
  between. The bits above the mask, among them the byte that a pool reserves in a nicehash job, keep their value. The
  first \<open>R\<close> nonces need no second grant. Nothing is said of a worker whose first reservation was refused, or that is
  resumed after a refusal: the code ignores the result of \<open>Nonce::next\<close> in \<open>save\<close>, and \<open>resumed_after_refusal\<close> below shows
  that it then tries nonces nobody has reserved.
\<close>

theorem worker_nonce_reserved:
  assumes "nonceMask j = Some msk" "length (m_blob j) = kMaxBlobSize" "m_size j \<le> kMaxBlobSize"
    and "length (wj_blobs w (job_index j)) = kMaxBlobSize" and "unat R = 2 ^ p"
    and "wj_reserve R (wj_prepared j backend msk w) st = Some (True, w0, st0)"
  shows "wj_save j R backend w st = Some (w0, st0) \<and> min (Suc (length sts)) (unat R) \<le> length (tried R sts w0) \<and>
    (\<exists>ks. m_nonces st (job_index j) \<le> ks ! 0 \<and>
      (\<forall>n < length (tried R sts w0). n div unat R < length ks \<and> nonce_granted msk R (ks ! (n div unat R)) \<and>
        tried R sts w0 ! n = (nonce64 (wj_nonce (wj_prepared j backend msk w)) AND NOT (msk AND 0x7FFFFFFFFFFFFFFF)) OR
          (ks ! (n div unat R) + of_nat (n mod unat R)) \<and>
        (0 < n \<and> n mod unat R = 0 \<longrightarrow> m_nonces (sts ! (n - 1)) (job_index j) \<le> ks ! (n div unat R))))"
proof -
  obtain k where k: "wj_at R (nonce64 (wj_nonce (wj_prepared j backend msk w))) (job_index j) msk w0 k" "wj_pos R w0 = 0"
    "m_nonces st (job_index j) \<le> k"
    by (rule saved_at [OF assms(1-4,6)])
  from tried_ranges [OF k(1) assms(5), of sts] obtain ks where
    "ranges R (nonce64 (wj_nonce (wj_prepared j backend msk w))) (job_index j) msk sts 0 (k # ks) (tried R sts w0)"
    and "min (Suc (length sts)) (unat R) \<le> length (tried R sts w0)"
    by (auto simp: k(2))
  then show ?thesis
    using k(3) assms(6) save_prepared [OF assms(1), of R backend w st] unfolding ranges_def in_range_def add_0
    by (intro conjI exI [of _ "k # ks"]) simp_all
qed

text \<open>
  After a refusal the count of rounds has passed the point at which a range is reserved: if the worker is
  resumed with the same job, \<open>nextRound\<close> returns true again and moves on to the nonce behind its range,
  which nobody has reserved.
\<close>

lemma resumed_after_refusal:
  assumes "wj_nextRound R 1 w st = Some (False, w', st')" "wj_blob_ok w" "nonce_mask_ok (wj_nonce_mask w (wj_index w))"
    and "unat R = 2 ^ p" "1 \<le> p"
  shows "\<exists>w''. wj_nextRound R 1 w' st2 = Some (True, w'', st2) \<and> wj_nonce w'' = (fst (wj_nonce w) + 1, snd (wj_nonce w))"
proof -
  have w': "w' = wj_tick w" "unat (wj_rounds (wj_tick w) (wj_index w)) mod unat R = 0"
    using nextRound_cases [OF assms(3,2,4), of st] assms(1) by fastforce+
  have "(2 :: nat) ^ 1 \<le> 2 ^ p" using assms(5) by (intro power_increasing) simp_all
  then have "unat (wj_rounds (wj_tick w') (wj_index w')) mod unat R \<noteq> 0"
    using round_Suc [OF assms(4), of "wj_rounds (wj_tick w) (wj_index w)"] w' assms(4,5) by (simp add: wj_tick_def)
  then show ?thesis
    using assms(2,3) w'(1) get_set_nonce [of "wj_tick (wj_tick w)"]
    by (auto intro: nextRound_cases [OF _ _ assms(4), of w' st2])
qed

text \<open>A worker that starts on an empty RandomX job and is granted the first range.\<close>

definition empty_rx_job :: job where
  "empty_rx_job = job_init False RX_0 []"

lemma empty_rx_job_facts:
  "nonceMask empty_rx_job = Some 0xFFFFFFFF" "length (m_blob empty_rx_job) = kMaxBlobSize" "m_size empty_rx_job = 0" "job_index empty_rx_job = 0"
  by (simp_all add: empty_rx_job_def job_init_def nonceMask_def nonceSize_def family_def)

lemma first_reservation:
  "\<exists>w0 st0. wj_reserve 0x8000 (wj_prepared empty_rx_job CPU 0xFFFFFFFF worker_job_init) nonces_init = Some (True, w0, st0)"
proof -
  have "nonce_verdict 0xFFFFFFFF 0x8000 0 = Use" by (simp add: nonce_verdict_def)
  then have "next_nonce 0 n 0x8000 0xFFFFFFFF nonces_init =
      Some (True, write_nonce 0xFFFFFFFF 0 n, nonces_init\<lparr>m_nonces := (m_nonces nonces_init)(0 := 0x8000)\<rparr>)" for n
    by (simp add: next_nonce_def fetch_add_def next_loop.simps nonces_init_def nonce_pauses_def)
  moreover have "wj_index (wj_prepared empty_rx_job CPU 0xFFFFFFFF worker_job_init) = 0"
    "wj_nonce_mask (wj_prepared empty_rx_job CPU 0xFFFFFFFF worker_job_init) 0 = 0xFFFFFFFF"
    by (simp_all add: wj_prepared_def empty_rx_job_facts)
  ultimately show ?thesis by (simp add: wj_reserve_def)
qed

theorem worker_nonce_reserved_witness:
  "\<exists>w0 st0 k b. wj_save empty_rx_job 0x8000 CPU worker_job_init nonces_init = Some (w0, st0) \<and>
    3 \<le> length (tried 0x8000 [st0, st0] w0) \<and> nonce_granted 0xFFFFFFFF 0x8000 k \<and>
    tried 0x8000 [st0, st0] w0 ! 2 = (b AND NOT 0xFFFFFFFF) OR (k + 2)"
proof -
  obtain w0 st0 where w0: "wj_reserve 0x8000 (wj_prepared empty_rx_job CPU 0xFFFFFFFF worker_job_init) nonces_init = Some (True, w0, st0)"
    using first_reservation by blast
  have p: "unat (0x8000 :: u32) = 2 ^ 15" by simp
  have "length (wj_blobs worker_job_init (job_index empty_rx_job)) = kMaxBlobSize" by (simp add: worker_job_init_def)
  from worker_nonce_reserved [OF empty_rx_job_facts(1,2) _ this p w0, of "[st0, st0]"]
  obtain ks where "wj_save empty_rx_job 0x8000 CPU worker_job_init nonces_init = Some (w0, st0)"
    and l: "3 \<le> length (tried 0x8000 [st0, st0] w0)"
    and all: "\<forall>n < length (tried 0x8000 [st0, st0] w0). nonce_granted 0xFFFFFFFF 0x8000 (ks ! (n div 32768)) \<and>
      tried 0x8000 [st0, st0] w0 ! n = (nonce64 (wj_nonce (wj_prepared empty_rx_job CPU 0xFFFFFFFF worker_job_init)) AND
        NOT (0xFFFFFFFF AND 0x7FFFFFFFFFFFFFFF)) OR (ks ! (n div 32768) + of_nat (n mod 32768))"
    by (auto simp: empty_rx_job_facts)
  moreover have "2 < length (tried 0x8000 [st0, st0] w0)" using l by simp
  with all have "nonce_granted 0xFFFFFFFF 0x8000 (ks ! 0)" "tried 0x8000 [st0, st0] w0 ! 2 =
      (nonce64 (wj_nonce (wj_prepared empty_rx_job CPU 0xFFFFFFFF worker_job_init)) AND NOT 0xFFFFFFFF) OR (ks ! 0 + 2)"
    by fastforce+
  ultimately show ?thesis by blast
qed

end
