(* ===== verification/Cpu_Worker.thy ===== *)
theory Cpu_Worker
  imports Worker_Job Rx_Hash_Spec
begin

text \<open>
  \<open>backend/cpu/CpuWorker.cpp\<close> for one RandomX hash at a time (\<open>CpuWorker<1>\<close>, built without
  \<open>XMRIG_FEATURE_BENCHMARK\<close>): the loop of a mining thread. The hash of the nonce in the blob is
  prepared in one iteration and finished in the next one, after the next nonce has been written to
  the blob. The thread runs beside others: between two of its steps the shared counters may change in
  any way, and the job that it takes from the miner is any job.
\<close>

subsection \<open>State\<close>

text \<open>
  The lists at the end record the calls of \<open>JobResults::submit\<close> and \<open>JobResults::done\<close>; \<open>cw_tried\<close> is a
  history of all finished hashes that the program does not keep.

  Where the thread is: at the head of the outer loop, waiting while paused, in the inner loop, or gone.\<close>

datatype worker_pc = Outer | Paused | Mining | Stopped

record cpu_worker =
  cw_pc :: worker_pc
  cw_job :: worker_job
  cw_vm :: vm
  cw_first :: bool
  cw_tempHash :: bytes
  cw_hash :: bytes
  cw_count :: u64
  cw_submitted :: "(job \<times> u32 \<times> bytes) list"
  cw_done :: "job list"
  cw_tried :: "(job \<times> u32 \<times> bytes) list"

definition kReserveCount :: u32 where "kReserveCount = 32768"

subsection \<open>Operations\<close>

definition cw_nextRound :: "cpu_worker \<Rightarrow> nonces \<Rightarrow> (bool \<times> cpu_worker \<times> nonces) option" where
  "cw_nextRound w st =
     map_option (\<lambda>(ok, wj, st).
         (ok, if ok then w\<lparr>cw_job := wj\<rparr> else w\<lparr>cw_job := wj, cw_done := currentJob wj # cw_done w\<rparr>, st))
       (wj_nextRound kReserveCount 1 (cw_job w) st)"

text \<open>The job \<open>j\<close> is \<open>m_miner->job()\<close>; the virtual machine exists.\<close>

definition consumeJob :: "job \<Rightarrow> cpu_worker \<Rightarrow> nonces \<Rightarrow> (cpu_worker \<times> nonces) option" where
  "consumeJob j w st =
     (if m_sequence st CPU = 0 then Some (w, st)
      else map_option (\<lambda>(wj, st). (w\<lparr>cw_job := wj\<rparr>, st)) (wj_add j kReserveCount CPU (cw_job w) st))"

text \<open>The bytes that are hashed.\<close>

definition cw_input :: "cpu_worker \<Rightarrow> bytes" where
  "cw_input w = take (m_size (currentJob (cw_job w))) (wj_blob (cw_job w))"

text \<open>The result of a finished hash: it is submitted when it is below the target.\<close>

definition cw_result :: "job \<Rightarrow> u32 \<Rightarrow> cpu_worker \<Rightarrow> cpu_worker" where
  "cw_result j nonce w =
     (let value = load64 (drop 24 (cw_hash w));
          w = w\<lparr>cw_tried := (j, nonce, cw_hash w) # cw_tried w\<rparr>;
          w = (if value < m_target j then w\<lparr>cw_submitted := (j, nonce, cw_hash w) # cw_submitted w\<rparr> else w)
      in w\<lparr>cw_count := cw_count w + 1\<rparr>)"

text \<open>
  One iteration of the inner loop on a RandomX job: whether the loop goes on, and the worker. \<open>alg\<close> is
  \<open>m_algorithm\<close>, the algorithm the thread was started for.
\<close>

definition cw_iteration :: "rx_platform \<Rightarrow> RandomX_Configuration \<Rightarrow> Id \<Rightarrow> (nat \<Rightarrow> junk) \<Rightarrow> cpu_worker \<Rightarrow> nonces \<Rightarrow>
    (bool \<times> cpu_worker \<times> nonces) option" where
  "cw_iteration P cfg alg J w st =
     (let j = currentJob (cw_job w)
      in if algorithm_l3 (m_algorithm j) \<noteq> algorithm_l3 alg then Some (False, w, st)
         else do {
           let current_job_nonce = fst (wj_nonce (cw_job w));
           w \<leftarrow> (if cw_first w then do {
                   (tempHash, vm) \<leftarrow> randomx_calculate_hash_first P cfg (cw_tempHash w) (cw_input w) (cw_vm w);
                   Some (w\<lparr>cw_first := False, cw_tempHash := tempHash, cw_vm := vm\<rparr>)
                 } else Some w);
           (ok, w, st) \<leftarrow> cw_nextRound w st;
           if \<not> ok then Some (False, w, st)
           else do {
             (h, tempHash, vm) \<leftarrow> randomx_calculate_hash_next P cfg J (cw_tempHash w) (cw_input w) (cw_hash w) (cw_vm w);
             let w = w\<lparr>cw_hash := h, cw_tempHash := tempHash, cw_vm := vm\<rparr>;
             Some (True, cw_result j current_job_nonce w, st)
           }
         })"

text \<open>Entering the inner loop: \<open>first\<close> and \<open>tempHash\<close> are local to an iteration of the outer one.\<close>

definition cw_enter :: "cpu_worker \<Rightarrow> cpu_worker" where
  "cw_enter w = w\<lparr>cw_pc := Mining, cw_first := True, cw_tempHash := replicate 64 0\<rparr>"

subsection \<open>The loop as a step relation\<close>

definition job_accepted :: "job \<Rightarrow> bool" where
  "job_accepted j \<longleftrightarrow> job_ok j \<and> job_index j \<le> 1 \<and> nonceMask j \<noteq> None"

inductive worker_step :: "rx_platform \<Rightarrow> RandomX_Configuration \<Rightarrow> Id \<Rightarrow> cpu_worker \<times> nonces \<Rightarrow> cpu_worker \<times> nonces \<Rightarrow> bool"
  for P cfg alg where
  others: "worker_step P cfg alg (w, st) (w, st')"
| pause: "worker_step P cfg alg (w, st) (w\<lparr>cw_pc := Paused\<rparr>, st)"
    if "cw_pc w = Outer" "m_sequence st CPU > 0" "m_paused st"
| resume: "worker_step P cfg alg (w, st) (cw_enter w', st')"
    if "cw_pc w = Paused" "\<not> m_paused st" "m_sequence st CPU > 0" "job_accepted j" "consumeJob j w st = Some (w', st')"
| enter: "worker_step P cfg alg (w, st) (cw_enter w, st)"
    if "cw_pc w = Outer" "m_sequence st CPU > 0" "\<not> m_paused st"
| stop: "worker_step P cfg alg (w, st) (w\<lparr>cw_pc := Stopped\<rparr>, st)"
    if "cw_pc w = Outer \<or> cw_pc w = Paused" "m_sequence st CPU = 0"
| mine: "worker_step P cfg alg (w, st) (w', st')"
    if "cw_pc w = Mining" "\<not> isOutdated CPU (wj_sequence (cw_job w)) st"
      "algorithm_l3 (m_algorithm (currentJob (cw_job w))) = algorithm_l3 alg \<longrightarrow> family (m_algorithm (currentJob (cw_job w))) = RANDOM_X"
      "\<And>i. junk_ok (J i)" "cw_iteration P cfg alg J w st = Some (True, w', st')"
| break: "worker_step P cfg alg (w, st) (w'\<lparr>cw_pc := Outer\<rparr>, st')"
    if "cw_pc w = Mining" "\<not> isOutdated CPU (wj_sequence (cw_job w)) st"
      "algorithm_l3 (m_algorithm (currentJob (cw_job w))) = algorithm_l3 alg \<longrightarrow> family (m_algorithm (currentJob (cw_job w))) = RANDOM_X"
      "\<And>i. junk_ok (J i)" "cw_iteration P cfg alg J w st = Some (False, w1, st1)"
      "job_accepted j" "consumeJob j w1 st2 = Some (w', st')"
| outdated: "worker_step P cfg alg (w, st) (w'\<lparr>cw_pc := Outer\<rparr>, st')"
    if "cw_pc w = Mining" "isOutdated CPU (wj_sequence (cw_job w)) st" "job_accepted j" "consumeJob j w st = Some (w', st')"

inductive worker_reach :: "rx_platform \<Rightarrow> RandomX_Configuration \<Rightarrow> Id \<Rightarrow> vm \<Rightarrow> cpu_worker \<times> nonces \<Rightarrow> bool" for P cfg alg vm where
  start: "worker_reach P cfg alg vm
    (\<lparr>cw_pc = Outer, cw_job = worker_job_init, cw_vm = vm, cw_first = True, cw_tempHash = replicate 64 0,
      cw_hash = replicate 32 0, cw_count = 0, cw_submitted = [], cw_done = [], cw_tried = []\<rparr>, st)"
| step: "worker_reach P cfg alg vm x \<Longrightarrow> worker_step P cfg alg x y \<Longrightarrow> worker_reach P cfg alg vm y"

subsection \<open>The blob of a job with a nonce\<close>

definition job_input :: "job \<Rightarrow> u32 \<Rightarrow> bytes" where
  "job_input j nonce = take 39 (m_blob j) @ store32 nonce @ drop 43 (take (m_size j) (m_blob j))"

definition slot_ok :: "worker_job \<Rightarrow> nat \<Rightarrow> bool" where
  "slot_ok w i \<longleftrightarrow> length (wj_blobs w i) = kMaxBlobSize \<and> nonce_mask_ok (wj_nonce_mask w i) \<and>
     (family (m_algorithm (wj_jobs w i)) = RANDOM_X \<longrightarrow>
        job_ok (wj_jobs w i) \<and> wj_nonce_mask w i \<le> 0xFFFFFFFF \<and>
        take (m_size (wj_jobs w i)) (wj_blobs w i) = job_input (wj_jobs w i) (load32 (drop 39 (wj_blobs w i))))"

definition wj_inv :: "worker_job \<Rightarrow> bool" where
  "wj_inv w \<longleftrightarrow> (\<forall>i. slot_ok w i)"

lemma wj_inv_facts:
  assumes "wj_inv w"
  shows "wj_blob_ok w" "nonce_mask_ok (wj_nonce_mask w (wj_index w))"
  using assms by (simp_all add: wj_inv_def slot_ok_def wj_blob_ok_def wj_blob_def)

lemma store_load32: "k + 4 \<le> length b \<Longrightarrow> store32 (load32 (drop k b)) = take 4 (drop k b)"
  by (simp add: store32_def load32_def le_bytes_le_word)

lemma input_replace:
  assumes "job_ok j" "nonceSize j = 4" "nonceOffset j = 39" "length b = kMaxBlobSize" "take (m_size j) b = job_input j n"
  shows "take (m_size j) (memcpy_at b 39 (store32 a @ store32 (load32 (drop 43 b))) 8) = job_input j a"
proof -
  have s: "43 \<le> m_size j" "m_size j < kMaxBlobSize" "length (m_blob j) = kMaxBlobSize"
    using assms(1-3) by (simp_all add: job_ok_def)
  have d: "take 4 (drop 43 b) @ drop 47 b = drop 43 b"
    using append_take_drop_id [of 4 "drop 43 b"] by simp
  have "memcpy_at b 39 (store32 a @ store32 (load32 (drop 43 b))) 8 = take 39 b @ store32 a @ drop 43 b"
    using assms(4) d by (simp add: memcpy_at_def store_load32 kMaxBlobSize_def)
  then have "take (m_size j) (memcpy_at b 39 (store32 a @ store32 (load32 (drop 43 b))) 8) =
      take 39 b @ store32 a @ take (m_size j - 43) (drop 43 b)"
    using s assms(4) by simp
  moreover have "take 39 (take (m_size j) b) = take 39 (m_blob j)" unfolding assms(5)
    using s by (simp add: job_input_def kMaxBlobSize_def)
  then have "take 39 b = take 39 (m_blob j)" using s by (simp add: min_def)
  moreover have "drop 43 (take (m_size j) b) = drop 43 (take (m_size j) (m_blob j))" unfolding assms(5)
    using s by (simp add: job_input_def kMaxBlobSize_def)
  then have "take (m_size j - 43) (drop 43 b) = drop 43 (take (m_size j) (m_blob j))" by (simp add: drop_take)
  ultimately show ?thesis by (simp add: job_input_def)
qed

lemma rx_nonce: "family (m_algorithm j) = RANDOM_X \<Longrightarrow> nonceOffset j = 39 \<and> nonceSize j = 4"
  by (simp add: nonceOffset_def nonceSize_def)

text \<open>Writing a nonce whose second word is the old one.\<close>

lemma set_nonce_inv:
  assumes "wj_inv w" "family (m_algorithm (currentJob w)) = RANDOM_X \<longrightarrow> snd n = snd (wj_nonce w)"
  shows "wj_inv (wj_set_nonce n w)"
  unfolding wj_inv_def
proof
  fix i
  have inv: "slot_ok w i" using assms(1) by (simp add: wj_inv_def)
  show "slot_ok (wj_set_nonce n w) i"
  proof (cases "i = wj_index w")
    case False
    then show ?thesis using inv by (simp add: slot_ok_def wj_set_nonce_def)
  next
    case True
    let ?b = "wj_blob (wj_set_nonce n w)"
    have len: "length ?b = kMaxBlobSize"
      using set_nonce_ok [OF wj_inv_facts(1) [OF assms(1)], of n] by (simp add: wj_blob_ok_def)
    have "take (m_size (currentJob w)) ?b = job_input (currentJob w) (load32 (drop 39 ?b))"
      if rx: "family (m_algorithm (currentJob w)) = RANDOM_X"
    proof -
      note o = rx_nonce [OF rx]
      have j: "job_ok (currentJob w)" "take (m_size (currentJob w)) (wj_blob w) = job_input (currentJob w) (load32 (drop 39 (wj_blob w)))"
        "length (wj_blob w) = kMaxBlobSize"
        using inv True rx by (simp_all add: slot_ok_def currentJob_def wj_blob_def)
      have b: "?b = memcpy_at (wj_blob w) 39 (store32 (fst n) @ store32 (load32 (drop 43 (wj_blob w)))) 8"
        using assms(2) rx o by (simp add: wj_set_nonce_def wj_blob_def wj_nonce_def)
      have "load32 (drop 39 ?b) = fst n"
        using j(3) by (simp add: b memcpy_at_def kMaxBlobSize_def load32_append)
      then show ?thesis using input_replace [OF j(1) _ _ j(3,2), of "fst n"] o b by simp
    qed
    then show ?thesis using inv True len
      by (simp add: slot_ok_def wj_blob_def currentJob_def wj_set_nonce_def [of n w])
  qed
qed

lemma tick_inv: "wj_inv (wj_tick w) = wj_inv w"
  by (simp add: wj_inv_def slot_ok_def)

lemma copy_high_inv: "wj_inv w \<Longrightarrow> wj_inv (wj_copy_high w)"
  by (auto simp: wj_inv_def slot_ok_def wj_copy_high_def nonceSize_def currentJob_def split: if_splits)

lemma write_nonce_inv:
  assumes "wj_inv w"
  shows "wj_inv (wj_set_nonce (write_nonce (wj_mask w) k (wj_nonce w)) w)"
proof (rule set_nonce_inv [OF assms], rule impI)
  assume "family (m_algorithm (currentJob w)) = RANDOM_X"
  then have "wj_nonce_mask w (wj_index w) \<le> 0xFFFFFFFF"
    using assms by (simp add: wj_inv_def slot_ok_def currentJob_def)
  moreover have "wj_mask w \<le> wj_nonce_mask w (wj_index w)" by (simp add: wj_mask_def word_and_le2)
  ultimately have "\<not> 0xFFFFFFFF < wj_mask w" by (meson leD order_trans)
  then show "snd (write_nonce (wj_mask w) k (wj_nonce w)) = snd (wj_nonce w)"
    by (simp only: write_nonce_def if_False snd_conv)
qed

lemma nextRound_inv:
  assumes "wj_inv w"
  obtains ok w' st' where "wj_nextRound kReserveCount 1 w st = Some (ok, w', st')" "wj_inv w'"
    "wj_index w' = wj_index w" "family (m_algorithm (currentJob w)) = RANDOM_X \<longrightarrow> wj_jobs w' = wj_jobs w"
proof -
  have p: "unat kReserveCount = 2 ^ 15" by (simp add: kReserveCount_def)
  have t: "wj_inv (wj_tick w)" using assms by (simp add: tick_inv)
  show thesis
  proof (rule nextRound_cases [OF wj_inv_facts(2,1) [OF assms] p, of st])
    assume n: "wj_nextRound kReserveCount 1 w st = Some (True, wj_set_nonce (fst (wj_nonce w) + 1, snd (wj_nonce w)) (wj_tick w), st)"
    show thesis by (rule that [OF n]) (use t in \<open>auto intro!: set_nonce_inv\<close>)
  next
    fix st' assume n: "wj_nextRound kReserveCount 1 w st = Some (False, wj_tick w, st')"
    show thesis by (rule that [OF n]) (use t in simp_all)
  next
    fix k st'
    assume n: "wj_nextRound kReserveCount 1 w st =
      Some (True, wj_copy_high (wj_set_nonce (write_nonce (wj_mask w) k (wj_nonce w)) (wj_tick w)), st')"
    show thesis
    proof (rule that [OF n])
      show "wj_inv (wj_copy_high (wj_set_nonce (write_nonce (wj_mask w) k (wj_nonce w)) (wj_tick w)))"
        using write_nonce_inv [OF t, of k] by (intro copy_high_inv) simp
    qed (auto simp: wj_copy_high_def nonceSize_def)
  qed
qed

lemma wj_init_inv: "wj_inv worker_job_init"
  by (auto simp: wj_inv_def slot_ok_def worker_job_init_def nonce_mask_ok_def job_init_def family_def intro: exI [of _ 0])

subsection \<open>Taking a job\<close>

lemma save_inv:
  assumes "wj_inv w" "job_accepted j"
  shows "returns (wj_save j kReserveCount b w st) (\<lambda>(w', st'). wj_inv w')"
proof -
  let ?i = "job_index j"
  obtain msk where m: "nonceMask j = Some msk" "nonce_mask_ok msk"
    using assms(2) nonceMask_ok by (auto simp: job_accepted_def)
  have small: "family (m_algorithm j) = RANDOM_X \<longrightarrow> msk \<le> 0xFFFFFFFF"
    using m(1) by (auto simp: nonceMask_def nonceSize_def word_le_nat_alt split: if_splits)
  have j: "job_ok j" using assms(2) by (simp add: job_accepted_def)
  define w1 where "w1 = w\<lparr>wj_index := ?i, wj_jobs := (wj_jobs w)(?i := j\<lparr>m_backend := b\<rparr>), wj_rounds := (wj_rounds w)(?i := 0),
    wj_nonce_mask := (wj_nonce_mask w)(?i := msk)\<rparr>"
  define w2 where "w2 = w1\<lparr>wj_blobs := (wj_blobs w1)(?i := memcpy_at (wj_blob w1) 0 (m_blob j) (m_size j))\<rparr>"
  have sv: "wj_save j kReserveCount b w st = map_option snd (wj_reserve kReserveCount w2 st)"
    by (simp add: wj_save_def m(1) Let_def w2_def w1_def)
  have jb: "job_ok (j\<lparr>m_backend := b\<rparr>)" using j by (simp add: job_ok_def nonceOffset_def nonceSize_def)
  have "wj_inv w2"
    unfolding wj_inv_def
  proof
    fix i
    have inv: "slot_ok w i" using assms(1) by (simp add: wj_inv_def)
    show "slot_ok w2 i"
    proof (cases "i = ?i")
      case False
      then show ?thesis using inv by (simp add: slot_ok_def w2_def w1_def)
    next
      case True
      have s: "m_size j \<le> length (m_blob j)" "m_size j \<le> kMaxBlobSize" "43 \<le> m_size j \<or> family (m_algorithm j) \<noteq> RANDOM_X"
        using j rx_nonce [of j] by (auto simp: job_ok_def)
      have b: "wj_blobs w2 i = take (m_size j) (m_blob j) @ drop (m_size j) (wj_blobs w i)"
        using True by (simp add: w2_def w1_def wj_blob_def memcpy_at_def)
      have len: "length (wj_blobs w2 i) = kMaxBlobSize" using inv s by (simp add: b slot_ok_def)
      have "take (m_size j) (m_blob j) = job_input (j\<lparr>m_backend := b\<rparr>) (load32 (drop 39 (take (m_size j) (m_blob j) @ drop (m_size j) (wj_blobs w i))))"
        if "family (m_algorithm j) = RANDOM_X"
      proof -
        let ?t = "take (m_size j) (m_blob j)"
        have t: "43 \<le> length ?t" using s that by simp
        then have l: "load32 (drop 39 ?t @ xs) = load32 (drop 39 ?t)" for xs by (simp add: load32_def)
        have "store32 (load32 (drop 39 ?t)) = take 4 (drop 39 ?t)" using t by (intro store_load32) simp
        moreover have "take 39 ?t = take 39 (m_blob j)" using s that by (simp add: min_def)
        moreover have "take 39 ?t @ take 4 (drop 39 ?t) @ drop 43 ?t = ?t"
          using append_take_drop_id [of 39 ?t] append_take_drop_id [of 4 "drop 39 ?t"] by simp
        ultimately show ?thesis by (simp add: job_input_def l)
      qed
      moreover have "wj_jobs w2 i = j\<lparr>m_backend := b\<rparr>" "wj_nonce_mask w2 i = msk"
        using True by (simp_all add: w2_def w1_def)
      ultimately show ?thesis using s jb len m(2) small by (simp add: slot_ok_def b)
    qed
  qed
  note inv2 = this
  show ?thesis
    by (rule wj_reserve_returns [OF wj_inv_facts(2,1) [OF inv2], of kReserveCount st])
      (use inv2 write_nonce_inv [OF inv2] in \<open>auto simp: sv returns_def\<close>)
qed

lemma add_inv:
  assumes "wj_inv w" "job_accepted j"
  shows "returns (wj_add j kReserveCount b w st) (\<lambda>(w', st'). wj_inv w')"
proof -
  have "wj_inv (w\<lparr>wj_sequence := s\<rparr>)" "wj_inv (w\<lparr>wj_sequence := s, wj_index := i\<rparr>)" for s i
    using assms(1) by (simp_all add: wj_inv_def slot_ok_def)
  then show ?thesis using save_inv [OF _ assms(2)] by (auto simp: wj_add_def Let_def returns_Some_iff)
qed

subsection \<open>The pipeline\<close>

text \<open>The hash of \<open>inp\<close>: what \<open>randomx_calculate_hash\<close> returns for it, in any machine.\<close>

definition is_hash :: "rx_platform \<Rightarrow> RandomX_Configuration \<Rightarrow> bytes \<Rightarrow> bytes \<Rightarrow> bool" where
  "is_hash P cfg inp h \<longleftrightarrow>
     (\<forall>J th0 out s. (\<forall>i. junk_ok (J i)) \<and> length th0 = 64 \<and> length out = 32 \<and> vm_ok cfg s \<longrightarrow>
        (\<exists>t. randomx_calculate_hash P cfg J th0 inp out s = Some (h, t)))"

definition hash_ok :: "rx_platform \<Rightarrow> RandomX_Configuration \<Rightarrow> job \<times> u32 \<times> bytes \<Rightarrow> bool" where
  "hash_ok P cfg = (\<lambda>(j, nonce, h). length h = 32 \<and> is_hash P cfg (job_input j nonce) h)"

definition below_target :: "job \<times> u32 \<times> bytes \<Rightarrow> bool" where
  "below_target = (\<lambda>(j, nonce, h). load64 (drop 24 h) < m_target j)"

definition cw_inv :: "rx_platform \<Rightarrow> RandomX_Configuration \<Rightarrow> cpu_worker \<Rightarrow> bool" where
  "cw_inv P cfg w \<longleftrightarrow> wj_inv (cw_job w) \<and> vm_ok cfg (cw_vm w) \<and> length (cw_tempHash w) = 64 \<and> length (cw_hash w) = 32 \<and>
     (cw_pc w = Mining \<and> \<not> cw_first w \<longrightarrow> prepared P cfg (cw_input w) (cw_tempHash w) (cw_vm w)) \<and>
     (\<forall>x\<in>set (cw_tried w). hash_ok P cfg x) \<and> cw_submitted w = filter below_target (cw_tried w)"

lemma current_input:
  assumes "wj_inv (cw_job w)" "family (m_algorithm (currentJob (cw_job w))) = RANDOM_X"
  shows "cw_input w = job_input (currentJob (cw_job w)) (fst (wj_nonce (cw_job w)))"
  using assms rx_nonce [OF assms(2)]
  by (simp add: wj_inv_def slot_ok_def cw_input_def wj_nonce_def currentJob_def wj_blob_def)

lemma next_is_hash:
  assumes "rx_ok P cfg" "\<And>i. junk_ok (J i)" "prepared P cfg inp th s" "length out = 32"
  shows "\<exists>h th' t. randomx_calculate_hash_next P cfg J th y out s = Some (h, th', t) \<and> prepared P cfg y th' t \<and>
    length h = 32 \<and> is_hash P cfg inp h"
proof -
  obtain h th' t where n: "randomx_calculate_hash_next P cfg J th y out s = Some (h, th', t)" "prepared P cfg y th' t" "length h = 32"
    and a: "\<And>J0 th0 out0 s0. (\<forall>i. junk_ok (J0 i)) \<and> length th0 = 64 \<and> length out0 = 32 \<and> vm_ok cfg s0 \<longrightarrow>
      (\<exists>t0. randomx_calculate_hash P cfg J0 th0 inp out0 s0 = Some (h, t0) \<and> vm_ok cfg t0)"
    using next_prepared [where J = J, OF assms, of y] by blast
  have "is_hash P cfg inp h" unfolding is_hash_def using a by blast
  with n show ?thesis by blast
qed

text \<open>The first hash of a run, when there is one to start.\<close>

lemma start_hash:
  assumes "rx_ok P cfg" "cw_inv P cfg w" "cw_pc w = Mining"
  obtains th vm where
    "(if cw_first w then do {
        (tempHash, vm) \<leftarrow> randomx_calculate_hash_first P cfg (cw_tempHash w) (cw_input w) (cw_vm w);
        Some (w\<lparr>cw_first := False, cw_tempHash := tempHash, cw_vm := vm\<rparr>)
      } else Some w) = Some (w\<lparr>cw_first := False, cw_tempHash := th, cw_vm := vm\<rparr>)"
    "prepared P cfg (cw_input w) th vm"
proof (cases "cw_first w")
  case True
  obtain th vm where "randomx_calculate_hash_first P cfg (cw_tempHash w) (cw_input w) (cw_vm w) = Some (th, vm)"
    "prepared P cfg (cw_input w) th vm"
    using first_prepared [OF assms(1)] assms(2) unfolding cw_inv_def by blast
  then show thesis using True by (intro that) simp_all
next
  case False
  then show thesis using assms(2,3) by (intro that [of "cw_vm w" "cw_tempHash w"]) (simp_all add: cw_inv_def)
qed

lemma iteration_inv:
  assumes "rx_ok P cfg" "cw_inv P cfg w" "cw_pc w = Mining" "\<And>i. junk_ok (J i)"
    and "algorithm_l3 (m_algorithm (currentJob (cw_job w))) = algorithm_l3 alg \<longrightarrow> family (m_algorithm (currentJob (cw_job w))) = RANDOM_X"
  shows "returns (cw_iteration P cfg alg J w st) (\<lambda>(ok, w', st').
    cw_inv P cfg (w'\<lparr>cw_pc := Outer\<rparr>) \<and>
    (ok \<longrightarrow> cw_inv P cfg w' \<and> cw_pc w' = Mining \<and>
       (\<exists>h. cw_tried w' = (currentJob (cw_job w), fst (wj_nonce (cw_job w)), h) # cw_tried w)) \<and>
    (algorithm_l3 (m_algorithm (currentJob (cw_job w))) = algorithm_l3 alg \<longrightarrow>
       ok = fst (the (wj_nextRound kReserveCount 1 (cw_job w) st))))"
proof (cases "algorithm_l3 (m_algorithm (currentJob (cw_job w))) = algorithm_l3 alg")
  case False
  then show ?thesis using assms(2,3) by (simp add: cw_iteration_def returns_Some_iff cw_inv_def)
next
  case True
  let ?j = "currentJob (cw_job w)" and ?n = "fst (wj_nonce (cw_job w))"
  have rx: "family (m_algorithm ?j) = RANDOM_X" using assms(5) True by simp
  have inv: "wj_inv (cw_job w)" using assms(2) by (simp add: cw_inv_def)
  obtain th vm where f:
    "(if cw_first w then do {
        (tempHash, vm) \<leftarrow> randomx_calculate_hash_first P cfg (cw_tempHash w) (cw_input w) (cw_vm w);
        Some (w\<lparr>cw_first := False, cw_tempHash := tempHash, cw_vm := vm\<rparr>)
      } else Some w) = Some (w\<lparr>cw_first := False, cw_tempHash := th, cw_vm := vm\<rparr>)"
    "prepared P cfg (cw_input w) th vm"
    using start_hash [OF assms(1-3)] .
  obtain ok wj st' where r: "wj_nextRound kReserveCount 1 (cw_job w) st = Some (ok, wj, st')" "wj_inv wj"
    "wj_index wj = wj_index (cw_job w)" "wj_jobs wj = wj_jobs (cw_job w)"
    using nextRound_inv [OF inv] rx by metis
  let ?w1 = "w\<lparr>cw_first := False, cw_tempHash := th, cw_vm := vm\<rparr>"
  have tv: "length th = 64" "vm_ok cfg vm" using f(2) by (simp_all add: prepared_def)
  show ?thesis
  proof (cases ok)
    case False
    have "cw_iteration P cfg alg J w st =
        Some (False, ?w1\<lparr>cw_job := wj, cw_done := currentJob wj # cw_done w\<rparr>, st')"
      by (simp add: cw_iteration_def Let_def True f(1) cw_nextRound_def r(1) False)
    then show ?thesis using assms(2) tv r(1,2) False by (simp add: returns_Some_iff cw_inv_def)
  next
    case ok: True
    let ?w2 = "?w1\<lparr>cw_job := wj\<rparr>"
    obtain h th' vm' where n:
      "randomx_calculate_hash_next P cfg J th (cw_input ?w2) (cw_hash w) vm = Some (h, th', vm')"
      "prepared P cfg (cw_input ?w2) th' vm'" "length h = 32" "is_hash P cfg (cw_input w) h"
      using next_is_hash [where J = J and y = "cw_input ?w2" and out = "cw_hash w", OF assms(1,4) f(2)] assms(2) unfolding cw_inv_def by blast
    let ?w3 = "?w2\<lparr>cw_hash := h, cw_tempHash := th', cw_vm := vm'\<rparr>"
    have i: "cw_iteration P cfg alg J w st = Some (True, cw_result ?j ?n ?w3, st')"
      using n(1) by (simp add: cw_iteration_def Let_def True f(1) cw_nextRound_def r(1) ok)
    have h: "hash_ok P cfg (?j, ?n, h)"
      using n(3,4) current_input [OF inv rx] by (simp add: hash_ok_def)
    have "cw_inv P cfg (cw_result ?j ?n ?w3) \<and> cw_pc (cw_result ?j ?n ?w3) = Mining \<and>
        cw_tried (cw_result ?j ?n ?w3) = (?j, ?n, h) # cw_tried w"
      using assms(2,3) n(2,3) r(2) h
      by (auto simp: cw_inv_def cw_result_def Let_def cw_input_def prepared_def below_target_def)
    then show ?thesis using r(1) ok by (simp add: i returns_Some_iff cw_inv_def)
  qed
qed

lemma consume_inv:
  assumes "cw_inv P cfg (w\<lparr>cw_pc := Outer\<rparr>)" "job_accepted j"
  shows "returns (consumeJob j w st) (\<lambda>(w', st'). cw_inv P cfg (w'\<lparr>cw_pc := Outer\<rparr>))"
  using add_inv [of "cw_job w" j CPU st] assms
  by (auto simp: consumeJob_def returns_def cw_inv_def)

lemma enter_inv: "cw_inv P cfg (w\<lparr>cw_pc := Outer\<rparr>) \<Longrightarrow> cw_inv P cfg (cw_enter w)"
  by (simp add: cw_inv_def cw_enter_def)

lemma leave_inv: "cw_inv P cfg w \<Longrightarrow> pc \<noteq> Mining \<Longrightarrow> cw_inv P cfg (w\<lparr>cw_pc := pc\<rparr>)"
  by (simp add: cw_inv_def)

lemma returnsD: "returns m P \<Longrightarrow> m = Some x \<Longrightarrow> P x"
  by (simp add: returns_def)

lemma step_inv:
  assumes "worker_step P cfg alg x y" "rx_ok P cfg" "cw_inv P cfg (fst x)"
  shows "cw_inv P cfg (fst y)"
  using assms(1)
proof cases
  case (mine w st J w' st')
  then show ?thesis using returnsD [OF iteration_inv [OF assms(2), of w J alg st]] assms(3) by auto
next
  case (break w st J w1 st1 j st2 w' st')
  then have "cw_inv P cfg (w1\<lparr>cw_pc := Outer\<rparr>)"
    using returnsD [OF iteration_inv [OF assms(2), of w J alg st]] assms(3) by auto
  then show ?thesis using returnsD [OF consume_inv] break by auto
next
  case (outdated w st j w' st')
  then show ?thesis using returnsD [OF consume_inv [OF leave_inv [of P cfg w Outer]]] assms(3) by auto
next
  case (resume w st j w' st')
  then have "cw_inv P cfg (w'\<lparr>cw_pc := Outer\<rparr>)"
    using returnsD [OF consume_inv [OF leave_inv [of P cfg w Outer]]] assms(3) by auto
  then show ?thesis using resume by (simp add: enter_inv)
qed (use assms(3) in \<open>auto intro: leave_inv enter_inv\<close>)

lemma reach_inv_worker:
  assumes "worker_reach P cfg alg vm x" "rx_ok P cfg" "vm_ok cfg vm"
  shows "cw_inv P cfg (fst x)"
  using assms(1)
proof induction
  case start
  show ?case using assms(3) wj_init_inv by (simp add: cw_inv_def)
next
  case (step x y)
  then show ?case using step_inv assms(2) by blast
qed

text \<open>
  C3. A mining thread submits right results, and all of them. Whatever the other threads do to the shared
  counters and whichever jobs the miner hands out, every hash that the thread has finished is the RandomX
  hash of the blob of its job with the nonce in it that the thread takes it for, although the loop
  hashes one nonce behind the one in the blob; and it has submitted the hash exactly when it is below
  the target of that job.
\<close>

theorem submissions_right:
  assumes "worker_reach P cfg alg vm (w, st)" "rx_ok P cfg" "vm_ok cfg vm" "(j, nonce, h) \<in> set (cw_tried w)"
  shows "length h = 32 \<and> is_hash P cfg (job_input j nonce) h \<and>
    ((j, nonce, h) \<in> set (cw_submitted w) \<longleftrightarrow> load64 (drop 24 h) < m_target j)"
  using reach_inv_worker [OF assms(1-3)] assms(4) by (auto simp: cw_inv_def hash_ok_def below_target_def)

text \<open>A run of a thread that takes a job and finishes one hash.\<close>

definition sample_job :: job where
  "sample_job = (job_init False RX_0 [])\<lparr>m_id := [49], m_size := 76, m_target := 0xFFFFFFFF\<rparr>"

lemma sample_job_ok: "job_accepted sample_job"
  by (simp add: job_accepted_def sample_job_def job_ok_def job_init_def nonceMask_def nonceOffset_def nonceSize_def family_def
      kMaxBlobSize_def)

lemma save_facts:
  "wj_save j r b w st = Some (w', st') \<Longrightarrow>
   currentJob w' = j\<lparr>m_backend := b\<rparr> \<and> wj_rounds w' (wj_index w') = 0 \<and> wj_sequence w' = wj_sequence w"
  by (auto simp: wj_save_def wj_reserve_def Let_def currentJob_def split: option.splits)

lemma sample_run:
  assumes "rx_ok P cfg" "vm_ok cfg vm" "\<And>i :: nat. junk_ok (J i)"
  shows "\<exists>w st n h. worker_reach P cfg RX_0 vm (w, st) \<and> cw_tried w = [(sample_job, n, h)]"
proof -
  define st where "st = nonces_init\<lparr>m_paused := False\<rparr>"
  define w0 where "w0 = \<lparr>cw_pc = Outer, cw_job = worker_job_init, cw_vm = vm, cw_first = True, cw_tempHash = replicate 64 0,
    cw_hash = replicate 32 0, cw_count = 0, cw_submitted = [], cw_done = [], cw_tried = []\<rparr>"
  have st: "m_sequence st CPU = 1" "\<not> m_paused st" by (simp_all add: st_def nonces_init_def)
  have r0: "worker_reach P cfg RX_0 vm (w0, st)" unfolding w0_def by (rule worker_reach.start)
  have r1: "worker_reach P cfg RX_0 vm (cw_enter w0, st)"
    by (rule worker_reach.step [OF r0 worker_step.enter]) (simp_all add: w0_def st)
  have ne: "\<not> isEqual (currentJob (worker_job_init\<lparr>wj_sequence := 1\<rparr>)) sample_job"
    by (simp add: isEqual_def currentJob_def worker_job_init_def sample_job_def job_init_def)
  have a: "wj_add sample_job kReserveCount CPU worker_job_init st =
      wj_save sample_job kReserveCount CPU (worker_job_init\<lparr>wj_sequence := 1\<rparr>) st"
    using ne by (simp add: wj_add_def st worker_job_init_def)
  have "wj_inv (worker_job_init\<lparr>wj_sequence := 1\<rparr>)" using wj_init_inv by (simp add: wj_inv_def slot_ok_def)
  from save_inv [OF this sample_job_ok, of CPU st] obtain wj st' where
    sv: "wj_save sample_job kReserveCount CPU (worker_job_init\<lparr>wj_sequence := 1\<rparr>) st = Some (wj, st')"
    by (auto simp: returns_def)
  then have wj: "currentJob wj = sample_job" "wj_rounds wj (wj_index wj) = 0" "wj_sequence wj = 1"
    using save_facts [OF sv] by (simp_all add: sample_job_def job_init_def)
  have c: "consumeJob sample_job (cw_enter w0) st = Some ((cw_enter w0)\<lparr>cw_job := wj\<rparr>, st')"
    by (simp add: consumeJob_def st cw_enter_def w0_def a sv)
  have r2: "worker_reach P cfg RX_0 vm ((cw_enter w0)\<lparr>cw_job := wj, cw_pc := Outer\<rparr>, st')"
    by (rule worker_reach.step [OF r1 worker_step.outdated [OF _ _ sample_job_ok c]])
      (simp_all add: cw_enter_def isOutdated_def st w0_def worker_job_init_def)
  note r3 = worker_reach.step [OF r2 worker_step.others, of st]
  define w1 where "w1 = cw_enter ((cw_enter w0)\<lparr>cw_job := wj, cw_pc := Outer\<rparr>)"
  have r4: "worker_reach P cfg RX_0 vm (w1, st)"
    unfolding w1_def by (rule worker_reach.step [OF r3 worker_step.enter]) (simp_all add: st)
  have w1: "cw_job w1 = wj" "cw_pc w1 = Mining" "cw_tried w1 = []" by (simp_all add: w1_def cw_enter_def w0_def)
  have inv: "cw_inv P cfg w1" using reach_inv_worker [OF r4 assms(1,2)] by simp
  have "wj_inv wj" using inv w1(1) by (simp add: cw_inv_def)
  moreover have p: "unat kReserveCount = 2 ^ 15" by (simp add: kReserveCount_def)
  moreover have "unat (wj_rounds (wj_tick wj) (wj_index wj)) mod unat kReserveCount \<noteq> 0"
    using wj(2) by (simp add: wj_tick_def kReserveCount_def)
  ultimately have n: "fst (the (wj_nextRound kReserveCount 1 wj st))"
    using nextRound_cases [OF wj_inv_facts(2,1), of wj kReserveCount 15 st] by fastforce
  have rx: "family (m_algorithm (currentJob (cw_job w1))) = RANDOM_X" "m_algorithm (currentJob (cw_job w1)) = RX_0"
    by (simp_all add: w1(1) wj(1) sample_job_def job_init_def family_def)
  from iteration_inv [where J = J, OF assms(1) inv w1(2) assms(3), of RX_0 st] rx(1) obtain w2 st2 h where
    i: "cw_iteration P cfg RX_0 J w1 st = Some (True, w2, st2)" "cw_tried w2 = [(sample_job, fst (wj_nonce wj), h)]"
    using n rx(2) unfolding w1(1,3) wj(1) by (auto simp: returns_def)
  have "worker_reach P cfg RX_0 vm (w2, st2)"
    by (rule worker_reach.step [OF r4 worker_step.mine [where J = J, OF w1(2) _ _ assms(3) i(1)]])
      (simp_all add: isOutdated_def st w1(1) wj(3) rx(1) [unfolded w1(1)])
  with i(2) show ?thesis by blast
qed

theorem submissions_right_witness:
  "\<exists>w st n h. worker_reach sample_platform sample_config RX_0 (sample_vm 1) (w, st) \<and> (sample_job, n, h) \<in> set (cw_tried w) \<and>
    is_hash sample_platform sample_config (job_input sample_job n) h"
proof -
  obtain w st n h where w: "worker_reach sample_platform sample_config RX_0 (sample_vm 1) (w, st)" "cw_tried w = [(sample_job, n, h)]"
    using sample_run [of sample_platform sample_config "sample_vm 1" sample_junk] sample_ok by blast
  with submissions_right [OF w(1) sample_ok(1,2), of sample_job n h] show ?thesis by auto
qed

end
