(* ===== verification/Variant4.thy ===== *)
theory Variant4
  imports Blake256_Spec Endian "HOL-Library.Monad_Syntax"
begin

text \<open>
  \<open>crypto/cn/r/variant4_random_math.h\<close>: the random programs of CryptoNight/R. The generator draws
  instructions from a stream of hashed bytes, subject to a model of the latencies and the ALUs of a CPU, and
  the interpreter runs the program on nine registers. The C type \<open>int\<close> is \<^typ>\<open>int\<close>: all counters stay
  below a few hundred. An access outside an array, the code that is marked unreachable, and a loop
  that never ends are \<^term>\<open>None\<close>. The hash \<open>hash_extra_blake\<close> is the argument \<open>H\<close>; the program's is \<open>v4_hash\<close>.
\<close>

subsection \<open>Constants\<close>

definition TOTAL_LATENCY :: int where "TOTAL_LATENCY = 45"
definition NUM_INSTRUCTIONS_MIN :: int where "NUM_INSTRUCTIONS_MIN = 60"
definition NUM_INSTRUCTIONS_MAX :: int where "NUM_INSTRUCTIONS_MAX = 70"
definition ALU_COUNT_MUL :: nat where "ALU_COUNT_MUL = 1"
definition ALU_COUNT :: nat where "ALU_COUNT = 3"

definition v4_MUL :: u8 where "v4_MUL = 0"
definition v4_ADD :: u8 where "v4_ADD = 1"
definition v4_SUB :: u8 where "v4_SUB = 2"
definition v4_ROR :: u8 where "v4_ROR = 3"
definition v4_ROL :: u8 where "v4_ROL = 4"
definition v4_XOR :: u8 where "v4_XOR = 5"
definition v4_RET :: u8 where "v4_RET = 6"

lemmas v4_opcodes = v4_MUL_def v4_ADD_def v4_SUB_def v4_ROR_def v4_ROL_def v4_XOR_def v4_RET_def

record V4_Instruction =
  v4_opcode :: u8
  v4_dst :: u8
  v4_src :: u8
  v4_C :: u32

subsection \<open>The interpreter\<close>

text \<open>A read and a write at a C index.\<close>

definition at_int :: "'a list \<Rightarrow> int \<Rightarrow> 'a option" where
  "at_int xs i = (if 0 \<le> i then nth_opt xs (nat i) else None)"

definition upd_int :: "'a list \<Rightarrow> int \<Rightarrow> 'a \<Rightarrow> 'a list option" where
  "upd_int xs i x = (if 0 \<le> i then upd_opt xs (nat i) x else None)"

definition v4_rotr :: "'a::len word \<Rightarrow> 'a word \<Rightarrow> 'a word" where
  "v4_rotr dst src =
     (let shift = unat src mod LENGTH('a) in drop_bit shift dst OR push_bit ((LENGTH('a) - shift) mod LENGTH('a)) dst)"

definition v4_rotl :: "'a::len word \<Rightarrow> 'a word \<Rightarrow> 'a word" where
  "v4_rotl dst src =
     (let shift = unat src mod LENGTH('a) in push_bit shift dst OR drop_bit ((LENGTH('a) - shift) mod LENGTH('a)) dst)"

text \<open>\<open>V4_EXEC\<close> without its \<open>RET\<close>: the registers afterwards.\<close>

definition v4_exec :: "V4_Instruction \<Rightarrow> 'a::len word list \<Rightarrow> 'a word list option" where
  "v4_exec op r = do {
     src \<leftarrow> nth_opt r (unat (v4_src op));
     dst \<leftarrow> nth_opt r (unat (v4_dst op));
     let write = (\<lambda>v. upd_opt r (unat (v4_dst op)) v);
     if v4_opcode op = v4_MUL then write (dst * src)
     else if v4_opcode op = v4_ADD then write (dst + (src + ucast (v4_C op)))
     else if v4_opcode op = v4_SUB then write (dst - src)
     else if v4_opcode op = v4_ROR then write (v4_rotr dst src)
     else if v4_opcode op = v4_ROL then write (v4_rotl dst src)
     else if v4_opcode op = v4_XOR then write (dst XOR src)
     else None
   }"

text \<open>The unrolled sequence of \<open>V4_EXEC(i)\<close>.\<close>

fun v4_exec_from :: "V4_Instruction list \<Rightarrow> nat list \<Rightarrow> 'a::len word list \<Rightarrow> 'a word list option" where
  "v4_exec_from code [] r = Some r"
| "v4_exec_from code (i # is) r = do {
     op \<leftarrow> nth_opt code i;
     if v4_opcode op = v4_RET then Some r else do { r \<leftarrow> v4_exec op r; v4_exec_from code is r }
   }"

definition v4_random_math :: "V4_Instruction list \<Rightarrow> 'a::len word list \<Rightarrow> 'a word list option" where
  "v4_random_math code r = v4_exec_from code [0..<70] r"

subsection \<open>The generator\<close>

definition op_latency :: "u8 \<Rightarrow> int option" where
  "op_latency opcode = nth_opt [3, 2, 1, 2, 2, 1] (unat opcode)"

definition asic_op_latency :: "u8 \<Rightarrow> int option" where
  "asic_op_latency opcode = nth_opt [3, 1, 1, 1, 1, 1] (unat opcode)"

definition op_ALUs :: "u8 \<Rightarrow> nat option" where
  "op_ALUs opcode = nth_opt [ALU_COUNT_MUL, ALU_COUNT, ALU_COUNT, ALU_COUNT, ALU_COUNT, ALU_COUNT] (unat opcode)"

definition is_rotation :: "u8 \<Rightarrow> bool" where
  "is_rotation opcode \<longleftrightarrow> opcode = v4_ROR \<or> opcode = v4_ROL"

record v4_state =
  v4_data :: bytes
  v4_index :: nat
  v4_code :: "V4_Instruction list"
  v4_latency :: "int list"
  v4_asic_latency :: "int list"
  v4_inst_data :: "u32 list"
  v4_alu_busy :: "bool list list"
  v4_rotated :: "bool list"
  v4_rotate_count :: int
  v4_num_retries :: int
  v4_code_size :: int
  v4_iterations :: int
  v4_r8_used :: bool

definition v4_check_data :: "(bytes \<Rightarrow> bytes) \<Rightarrow> nat \<Rightarrow> v4_state \<Rightarrow> v4_state" where
  "v4_check_data H bytes_needed s =
     (if v4_index s + bytes_needed > 32 then s\<lparr>v4_data := H (v4_data s), v4_index := 0\<rparr> else s)"

definition v4_byte :: "(bytes \<Rightarrow> bytes) \<Rightarrow> v4_state \<Rightarrow> (u8 \<times> v4_state) option" where
  "v4_byte H s =
     (let s = v4_check_data H 1 s in map_option (\<lambda>c. (c, s\<lparr>v4_index := v4_index s + 1\<rparr>)) (nth_opt (v4_data s) (v4_index s)))"

definition v4_word :: "(bytes \<Rightarrow> bytes) \<Rightarrow> v4_state \<Rightarrow> (u32 \<times> v4_state) option" where
  "v4_word H s =
     (let s = v4_check_data H 4 s
      in if v4_index s + 4 \<le> length (v4_data s)
         then Some (load32 (drop (v4_index s) (v4_data s)), s\<lparr>v4_index := v4_index s + 4\<rparr>) else None)"

text \<open>The choice of the opcode from the byte \<open>c\<close>; the sign of a second byte selects the rotation.\<close>

definition v4_pick_opcode :: "(bytes \<Rightarrow> bytes) \<Rightarrow> u8 \<Rightarrow> v4_state \<Rightarrow> (u8 \<times> v4_state) option" where
  "v4_pick_opcode H c s =
     (let opcode = c AND 7
      in if opcode = 5 then map_option (\<lambda>(d, s). (if 0 \<le> sint d then v4_ROR else v4_ROL, s)) (v4_byte H s)
         else if 6 \<le> opcode then Some (v4_XOR, s)
         else Some (if opcode \<le> 2 then v4_MUL else opcode - 2, s))"

definition v4_busy :: "v4_state \<Rightarrow> int \<Rightarrow> nat \<Rightarrow> bool option" where
  "v4_busy s t i = do { row \<leftarrow> at_int (v4_alu_busy s) t; nth_opt row i }"

text \<open>The loop over the ALUs at one cycle, from the highest to the lowest.\<close>

fun v4_find_alu :: "v4_state \<Rightarrow> u8 \<Rightarrow> int \<Rightarrow> nat list \<Rightarrow> nat option option" where
  "v4_find_alu s opcode t [] = Some None"
| "v4_find_alu s opcode t (i # is) = do {
     b \<leftarrow> v4_busy s t i;
     if b then v4_find_alu s opcode t is
     else do {
       b \<leftarrow> (if opcode = v4_ADD then v4_busy s (t + 1) i else Some False);
       if b then v4_find_alu s opcode t is
       else do {
         l \<leftarrow> op_latency opcode;
         if is_rotation opcode \<and> t < v4_rotate_count s * l then v4_find_alu s opcode t is else Some (Some i)
       }
     }
   }"

text \<open>The search over the cycles: the cycle and the ALU.\<close>

partial_function (option) v4_find_slot :: "v4_state \<Rightarrow> u8 \<Rightarrow> int \<Rightarrow> (int \<times> nat option) option" where
  [code]: "v4_find_slot s opcode t =
     (if t < TOTAL_LATENCY then do {
        n \<leftarrow> op_ALUs opcode;
        r \<leftarrow> v4_find_alu s opcode t (rev [0..<n]);
        (case r of Some i \<Rightarrow> Some (t, Some i) | None \<Rightarrow> v4_find_slot s opcode (t + 1))
      } else Some (t, None))"

text \<open>Marking an ALU busy.\<close>

definition v4_mark :: "int \<Rightarrow> nat option \<Rightarrow> v4_state \<Rightarrow> v4_state option" where
  "v4_mark t alu s = do {
     i \<leftarrow> alu;
     row \<leftarrow> at_int (v4_alu_busy s) t;
     row \<leftarrow> upd_opt row i True;
     b \<leftarrow> upd_int (v4_alu_busy s) t row;
     Some (s\<lparr>v4_alu_busy := b\<rparr>)
   }"

text \<open>Writing the instruction at \<open>code_size\<close> with the accounting around it; \<open>next_latency\<close> includes the latency.\<close>

definition v4_emit :: "(bytes \<Rightarrow> bytes) \<Rightarrow> u8 \<Rightarrow> u8 \<Rightarrow> u8 \<Rightarrow> int \<Rightarrow> nat option \<Rightarrow> v4_state \<Rightarrow> v4_state option" where
  "v4_emit H opcode dst_index src_index next_latency alu s = do {
     let a = unat dst_index;
     let b = unat src_index;
     l \<leftarrow> op_latency opcode;
     al \<leftarrow> asic_op_latency opcode;
     let s = (if is_rotation opcode then s\<lparr>v4_rotate_count := v4_rotate_count s + 1\<rparr> else s);
     s \<leftarrow> v4_mark (next_latency - l) alu s;
     lat \<leftarrow> upd_opt (v4_latency s) a next_latency;
     x \<leftarrow> nth_opt (v4_asic_latency s) a;
     y \<leftarrow> nth_opt (v4_asic_latency s) b;
     asic \<leftarrow> upd_opt (v4_asic_latency s) a ((if x > y then x else y) + al);
     rot \<leftarrow> upd_opt (v4_rotated s) a (is_rotation opcode);
     ib \<leftarrow> nth_opt (v4_inst_data s) b;
     inst \<leftarrow> upd_opt (v4_inst_data s) a (of_int (v4_code_size s) + push_bit 8 (ucast opcode) + push_bit 16 (ib AND 255));
     code \<leftarrow> upd_int (v4_code s) (v4_code_size s) \<lparr>v4_opcode = opcode, v4_dst = dst_index, v4_src = src_index, v4_C = 0\<rparr>;
     let s = s\<lparr>v4_latency := lat, v4_asic_latency := asic, v4_rotated := rot, v4_inst_data := inst, v4_code := code,
               v4_r8_used := (v4_r8_used s \<or> src_index = 8)\<rparr>;
     s \<leftarrow> (if opcode = v4_ADD then do {
             s \<leftarrow> v4_mark (next_latency - l + 1) alu s;
             (t, s) \<leftarrow> v4_word H s;
             code \<leftarrow> upd_int (v4_code s) (v4_code_size s) \<lparr>v4_opcode = opcode, v4_dst = dst_index, v4_src = src_index, v4_C = t\<rparr>;
             Some (s\<lparr>v4_code := code\<rparr>)
           } else Some s);
     Some (s\<lparr>v4_code_size := v4_code_size s + 1\<rparr>)
   }"

text \<open>One iteration of the main loop, after the fail-safe: whether the loop is left, and the state.\<close>

definition v4_iteration :: "(bytes \<Rightarrow> bytes) \<Rightarrow> v4_state \<Rightarrow> (bool \<times> v4_state) option" where
  "v4_iteration H s = do {
     (c, s) \<leftarrow> v4_byte H s;
     (opcode, s) \<leftarrow> v4_pick_opcode H c s;
     let dst_index = drop_bit 3 c AND 3;
     let src_index = drop_bit 5 c AND 7;
     let a = unat dst_index;
     let src_index = (if (opcode = v4_ADD \<or> opcode = v4_SUB \<or> opcode = v4_XOR) \<and> dst_index = src_index then 8 else src_index);
     let b = unat src_index;
     rot \<leftarrow> nth_opt (v4_rotated s) a;
     if is_rotation opcode \<and> rot then Some (False, s) else do {
     ia \<leftarrow> nth_opt (v4_inst_data s) a;
     ib \<leftarrow> nth_opt (v4_inst_data s) b;
     if opcode \<noteq> v4_MUL \<and> ia AND 0xFFFF00 = push_bit 8 (ucast opcode) + push_bit 16 (ib AND 255) then Some (False, s) else do {
     la \<leftarrow> nth_opt (v4_latency s) a;
     lb \<leftarrow> nth_opt (v4_latency s) b;
     (next_latency, alu) \<leftarrow> v4_find_slot s opcode (if la > lb then la else lb);
     if next_latency > la + 7 then Some (False, s) else do {
     l \<leftarrow> op_latency opcode;
     let next_latency = next_latency + l;
     if next_latency \<le> TOTAL_LATENCY then do {
       s \<leftarrow> v4_emit H opcode dst_index src_index next_latency alu s;
       Some (v4_code_size s \<ge> NUM_INSTRUCTIONS_MIN, s)
     } else Some (False, s\<lparr>v4_num_retries := v4_num_retries s + 1\<rparr>)
     }}}
   }"

definition v4_unfinished :: "int list \<Rightarrow> bool" where
  "v4_unfinished latency \<longleftrightarrow>
     latency ! 0 < TOTAL_LATENCY \<or> latency ! 1 < TOTAL_LATENCY \<or> latency ! 2 < TOTAL_LATENCY \<or> latency ! 3 < TOTAL_LATENCY"

partial_function (option) v4_main_loop :: "(bytes \<Rightarrow> bytes) \<Rightarrow> v4_state \<Rightarrow> v4_state option" where
  [code]: "v4_main_loop H s =
     (if v4_unfinished (v4_latency s) \<and> v4_num_retries s < 64 then
        (let s = s\<lparr>v4_iterations := v4_iterations s + 1\<rparr>
         in if v4_iterations s > 256 then Some s
            else do { (left, s) \<leftarrow> v4_iteration H s; if left then Some s else v4_main_loop H s })
      else Some s)"

text \<open>The loop over \<open>i\<close> that finds \<open>min_idx\<close> and \<open>max_idx\<close>.\<close>

definition v4_min_max :: "int list \<Rightarrow> nat \<times> nat" where
  "v4_min_max asic =
     foldl (\<lambda>(min_idx, max_idx) i.
        (if asic ! i < asic ! min_idx then i else min_idx, if asic ! i > asic ! max_idx then i else max_idx)) (0, 0) [1, 2, 3]"

definition v4_all_below :: "int list \<Rightarrow> bool" where
  "v4_all_below asic \<longleftrightarrow>
     asic ! 0 < TOTAL_LATENCY \<and> asic ! 1 < TOTAL_LATENCY \<and> asic ! 2 < TOTAL_LATENCY \<and> asic ! 3 < TOTAL_LATENCY"

partial_function (option) v4_asic_loop :: "int \<Rightarrow> v4_state \<Rightarrow> v4_state option" where
  [code]: "v4_asic_loop prev_code_size s =
     (if v4_code_size s < NUM_INSTRUCTIONS_MAX \<and> v4_all_below (v4_asic_latency s) then do {
        let (min_idx, max_idx) = v4_min_max (v4_asic_latency s);
        opcode \<leftarrow> at_int [v4_ROR, v4_MUL, v4_MUL] ((v4_code_size s - prev_code_size) mod 3);
        l \<leftarrow> op_latency opcode;
        al \<leftarrow> asic_op_latency opcode;
        code \<leftarrow> upd_int (v4_code s) (v4_code_size s)
          \<lparr>v4_opcode = opcode, v4_dst = of_nat min_idx, v4_src = of_nat max_idx, v4_C = 0\<rparr>;
        v4_asic_loop prev_code_size
          (s\<lparr>v4_latency := (v4_latency s)[min_idx := v4_latency s ! max_idx + l],
             v4_asic_latency := (v4_asic_latency s)[min_idx := v4_asic_latency s ! max_idx + al],
             v4_code := code, v4_code_size := v4_code_size s + 1\<rparr>)
      } else Some s)"

text \<open>One pass of the outer loop: everything but the bytes and the code starts anew.\<close>

definition v4_reset :: "v4_state \<Rightarrow> v4_state" where
  "v4_reset s =
     s\<lparr>v4_latency := replicate 9 0, v4_asic_latency := replicate 9 0,
       v4_inst_data := [0, 1, 2, 3, 0xFFFFFF, 0xFFFFFF, 0xFFFFFF, 0xFFFFFF, 0xFFFFFF],
       v4_alu_busy := replicate 46 (replicate ALU_COUNT False), v4_rotated := replicate 4 False, v4_rotate_count := 0,
       v4_num_retries := 0, v4_code_size := 0, v4_iterations := 0, v4_r8_used := False\<rparr>"

definition v4_attempt :: "(bytes \<Rightarrow> bytes) \<Rightarrow> v4_state \<Rightarrow> v4_state option" where
  "v4_attempt H s = do {
     s \<leftarrow> v4_main_loop H (v4_reset s);
     v4_asic_loop (v4_code_size s) s
   }"

definition v4_again :: "v4_state \<Rightarrow> bool" where
  "v4_again s \<longleftrightarrow> \<not> v4_r8_used s \<or> v4_code_size s < NUM_INSTRUCTIONS_MIN \<or> v4_code_size s > NUM_INSTRUCTIONS_MAX"

partial_function (option) v4_outer_loop :: "(bytes \<Rightarrow> bytes) \<Rightarrow> v4_state \<Rightarrow> v4_state option" where
  [code]: "v4_outer_loop H s = do {
     s \<leftarrow> v4_attempt H s;
     if v4_again s then v4_outer_loop H s else Some s
   }"

text \<open>\<open>cn_r\<close> says that the algorithm is \<open>CN_R\<close>; the byte -38 is 218. \<open>code\<close> is the array of the caller.\<close>

definition v4_start :: "bool \<Rightarrow> V4_Instruction list \<Rightarrow> u64 \<Rightarrow> v4_state" where
  "v4_start cn_r code height =
     (let data = memcpy_at (replicate 32 0) 0 (store64 height) 8;
          data = (if cn_r then data[20 := 218] else data)
      in \<lparr>v4_data = data, v4_index = 32, v4_code = code, v4_latency = [], v4_asic_latency = [], v4_inst_data = [],
          v4_alu_busy = [], v4_rotated = [], v4_rotate_count = 0, v4_num_retries = 0, v4_code_size = 0, v4_iterations = 0,
          v4_r8_used = False\<rparr>)"

definition v4_random_math_init :: "(bytes \<Rightarrow> bytes) \<Rightarrow> bool \<Rightarrow> V4_Instruction list \<Rightarrow> u64 \<Rightarrow> (int \<times> V4_Instruction list) option" where
  "v4_random_math_init H cn_r code height = do {
     s \<leftarrow> v4_outer_loop H (v4_start cn_r code height);
     code \<leftarrow> upd_int (v4_code s) (v4_code_size s) \<lparr>v4_opcode = v4_RET, v4_dst = 0, v4_src = 0, v4_C = 0\<rparr>;
     Some (v4_code_size s, code)
   }"

text \<open>The hash of the generator: BLAKE-256 of the 32 bytes, written over them. \<open>S0\<close> is the indeterminate local state.\<close>

definition v4_hash :: "blake256_state \<Rightarrow> bytes \<Rightarrow> bytes" where
  "v4_hash S0 data = blake256_hash S0 data data 32"

end
