(* ===== verification/Variant4_Safety.thy ===== *)
theory Variant4_Safety
  imports Variant4
begin

text \<open>
  The programs of CryptoNight/R are safe. Every pass of the generator ends with no access outside an array, and
  the array that \<open>v4_random_math_init\<close> fills holds 60 to 70 instructions and a \<open>RET\<close>, which the
  interpreter runs to the \<open>RET\<close> and no further.
\<close>

subsection \<open>The invariant of the generator\<close>

definition v4_instr_ok :: "V4_Instruction \<Rightarrow> bool" where
  "v4_instr_ok i \<longleftrightarrow> v4_opcode i < v4_RET \<and> v4_dst i < 4 \<and> v4_src i \<le> 8 \<and>
     (v4_opcode i \<in> {v4_ADD, v4_SUB, v4_XOR} \<longrightarrow> v4_dst i \<noteq> v4_src i)"

definition v4_frame :: "v4_state \<Rightarrow> bool" where
  "v4_frame s \<longleftrightarrow> length (v4_data s) = 32 \<and> length (v4_code s) = 71"

definition v4_inv :: "v4_state \<Rightarrow> bool" where
  "v4_inv s \<longleftrightarrow> v4_frame s \<and> length (v4_latency s) = 9 \<and> length (v4_asic_latency s) = 9 \<and>
     length (v4_inst_data s) = 9 \<and> length (v4_rotated s) = 4 \<and>
     length (v4_alu_busy s) = 46 \<and> (\<forall>row \<in> set (v4_alu_busy s). length row = 3) \<and>
     (\<forall>l \<in> set (v4_latency s). 0 \<le> l) \<and> 0 \<le> v4_code_size s \<and>
     (\<forall>j < nat (v4_code_size s). v4_instr_ok (v4_code s ! j)) \<and>
     (v4_r8_used s \<longrightarrow> (\<exists>j < nat (v4_code_size s). v4_src (v4_code s ! j) = 8))"

lemma v4_invD:
  assumes "v4_inv s"
  shows "length (v4_data s) = 32" "length (v4_code s) = 71" "length (v4_latency s) = 9"
    "length (v4_asic_latency s) = 9" "length (v4_inst_data s) = 9" "length (v4_rotated s) = 4"
    "length (v4_alu_busy s) = 46" "\<And>t. t < 46 \<Longrightarrow> length (v4_alu_busy s ! t) = 3"
    "\<And>i. i < 9 \<Longrightarrow> 0 \<le> v4_latency s ! i" "0 \<le> v4_code_size s"
    "\<And>j. int j < v4_code_size s \<Longrightarrow> v4_instr_ok (v4_code s ! j)"
    "v4_r8_used s \<Longrightarrow> \<exists>j < nat (v4_code_size s). v4_src (v4_code s ! j) = 8"
  using assms by (auto simp: v4_inv_def v4_frame_def)

text \<open>The bytes with their index and the counters of the loop are not constrained further.\<close>

lemma v4_inv_counters [simp]:
  "v4_inv (s\<lparr>v4_iterations := i\<rparr>) = v4_inv s" "v4_inv (s\<lparr>v4_num_retries := i\<rparr>) = v4_inv s"
  "v4_inv (s\<lparr>v4_rotate_count := i\<rparr>) = v4_inv s"
  by (simp_all add: v4_inv_def v4_frame_def)

lemma v4_inv_data: "v4_inv s \<Longrightarrow> length d = 32 \<Longrightarrow> v4_inv (s\<lparr>v4_data := d, v4_index := i\<rparr>)"
  by (simp add: v4_inv_def v4_frame_def)

lemma v4_opcode_cases:
  assumes "(opcode :: u8) < v4_RET"
  obtains "opcode = v4_MUL" | "opcode = v4_ADD" | "opcode = v4_SUB" | "opcode = v4_ROR" | "opcode = v4_ROL" | "opcode = v4_XOR"
proof -
  have "unat opcode < 6" using assms by (simp add: v4_RET_def word_less_nat_alt)
  then have "unat opcode \<in> {0, 1, 2, 3, 4, 5}" by auto
  then have "opcode \<in> {0, 1, 2, 3, 4, 5}" by (auto simp: word_unat_eq_iff)
  then show thesis using that by (auto simp: v4_opcodes)
qed

subsection \<open>The stream of bytes\<close>

lemma returns_at_int [wp]: "0 \<le> i \<Longrightarrow> nat i < length xs \<Longrightarrow> P (xs ! nat i) \<Longrightarrow> returns (at_int xs i) P"
  by (simp add: at_int_def wp)

lemma returns_upd_int [wp]: "0 \<le> i \<Longrightarrow> nat i < length xs \<Longrightarrow> P (xs[nat i := x]) \<Longrightarrow> returns (upd_int xs i x) P"
  by (simp add: upd_int_def wp)

lemma v4_byte_returns:
  assumes "\<And>x. length x = 32 \<Longrightarrow> length (H x) = 32" and "length (v4_data s) = 32"
    and "\<And>c d i. length d = 32 \<Longrightarrow> P (c, s\<lparr>v4_data := d, v4_index := i\<rparr>)"
  shows "returns (v4_byte H s) P"
proof (cases "v4_index s + 1 > 32")
  case True
  then show ?thesis using assms(3) [OF assms(1) [OF assms(2)]] assms(1) [OF assms(2)]
    by (auto simp: v4_byte_def v4_check_data_def nth_opt_def returns_def)
next
  case False
  have "s\<lparr>v4_index := i\<rparr> = s\<lparr>v4_data := v4_data s, v4_index := i\<rparr>" for i by simp
  then show ?thesis using False assms(3) [OF assms(2)] assms(2)
    by (auto simp: v4_byte_def v4_check_data_def nth_opt_def returns_def)
qed

lemma v4_word_returns:
  assumes "\<And>x. length x = 32 \<Longrightarrow> length (H x) = 32" and "length (v4_data s) = 32"
    and "\<And>c d i. length d = 32 \<Longrightarrow> P (c, s\<lparr>v4_data := d, v4_index := i\<rparr>)"
  shows "returns (v4_word H s) P"
proof (cases "v4_index s + 4 > 32")
  case True
  then show ?thesis using assms(3) [OF assms(1) [OF assms(2)]] assms(1) [OF assms(2)]
    by (auto simp: v4_word_def v4_check_data_def returns_def)
next
  case False
  have "s\<lparr>v4_index := i\<rparr> = s\<lparr>v4_data := v4_data s, v4_index := i\<rparr>" for i by simp
  then show ?thesis using False assms(3) [OF assms(2)] assms(2)
    by (auto simp: v4_word_def v4_check_data_def returns_def)
qed

lemma v4_pick_opcode_returns:
  assumes H: "\<And>x. length x = 32 \<Longrightarrow> length (H x) = 32" and l: "length (v4_data s) = 32"
    and P: "\<And>opcode d i. opcode < v4_RET \<Longrightarrow> length d = 32 \<Longrightarrow> P (opcode, s\<lparr>v4_data := d, v4_index := i\<rparr>)"
  shows "returns (v4_pick_opcode H c s) P"
proof -
  have small: "(if c AND 7 \<le> 2 then v4_MUL else (c AND 7) - 2) < v4_RET" if "\<not> 6 \<le> c AND 7"
  proof (cases "c AND 7 \<le> 2")
    case False
    then have "unat (c AND 7) > 2" "unat (c AND 7) < 6" using that by (simp_all add: word_le_nat_alt)
    moreover have "unat ((c AND 7) - 2) = unat (c AND 7) - 2" using False
      by (subst unat_sub) (simp_all add: word_le_nat_alt)
    ultimately show ?thesis using False by (simp add: v4_opcodes word_less_nat_alt)
  qed (simp add: v4_opcodes)
  have same: "P (opcode, s)" if "opcode < v4_RET" for opcode
    using P [OF that l, of "v4_index s"] by simp
  show ?thesis
    unfolding v4_pick_opcode_def Let_def
    using small same
    by (auto intro!: wp v4_byte_returns [OF H l] P simp: v4_opcodes simp del: One_nat_def)
qed

subsection \<open>The search for an ALU\<close>

lemma v4_op_tables:
  assumes "opcode < v4_RET"
  shows "(\<exists>l. op_latency opcode = Some l \<and> 1 \<le> l \<and> l \<le> 3 \<and> (opcode = v4_ADD \<longrightarrow> l = 2)) \<and>
    (\<exists>l. asic_op_latency opcode = Some l) \<and> (\<exists>n \<le> 3. op_ALUs opcode = Some n)"
  by (rule v4_opcode_cases [OF assms];
      simp add: op_latency_def asic_op_latency_def op_ALUs_def v4_opcodes nth_opt_def ALU_COUNT_def ALU_COUNT_MUL_def)

lemmas v4_latency_bounds = v4_op_tables [THEN conjunct1] v4_op_tables [THEN conjunct2, THEN conjunct1]
  v4_op_tables [THEN conjunct2, THEN conjunct2]

lemma v4_busy_returns:
  assumes "v4_inv s" "0 \<le> t" "t \<le> 45" "i < 3" and "P (v4_alu_busy s ! nat t ! i)"
  shows "returns (v4_busy s t i) P"
  using assms v4_invD(7,8) [OF assms(1)] by (auto simp: v4_busy_def intro!: wp)

lemma v4_find_alu_returns:
  assumes "v4_inv s" "opcode < v4_RET" "0 \<le> t" "t < 45" "set is \<subseteq> {0..<3}"
  shows "returns (v4_find_alu s opcode t is)
    (\<lambda>r. \<forall>i. r = Some i \<longrightarrow> i \<in> set is \<and> \<not> v4_alu_busy s ! nat t ! i)"
  using assms(5)
proof (induction "is")
  case Nil
  then show ?case by (simp add: wp)
next
  case (Cons i "is")
  have i: "i < 3" and IH: "returns (v4_find_alu s opcode t is)
      (\<lambda>r. \<forall>j. r = Some j \<longrightarrow> j \<in> set (i # is) \<and> \<not> v4_alu_busy s ! nat t ! j)"
    using Cons by (auto elim!: returns_mono)
  obtain l where l: "op_latency opcode = Some l" using v4_latency_bounds(1) [OF assms(2)] by auto
  show ?case
    using IH assms(3,4) i l list.set_intros(1) [of i "is"]
    by (auto intro!: wp v4_busy_returns [OF assms(1)] simp del: set_simps split: if_split)
qed

lemma v4_find_slot_returns:
  assumes "v4_inv s" "opcode < v4_RET" "0 \<le> t"
  shows "returns (v4_find_slot s opcode t)
    (\<lambda>(t', alu). t \<le> t' \<and> (t' < TOTAL_LATENCY \<longrightarrow> (\<exists>i < 3. alu = Some i \<and> \<not> v4_alu_busy s ! nat t' ! i)))"
  using assms(3)
proof (induction "nat (45 - t)" arbitrary: t rule: less_induct)
  case less
  show ?case
  proof (cases "t < TOTAL_LATENCY")
    case True
    then have t: "t < 45" by (simp add: TOTAL_LATENCY_def)
    obtain n where n: "n \<le> 3" "op_ALUs opcode = Some n" using v4_latency_bounds(3) [OF assms(2)] by auto
    then have sub: "set (rev [0..<n]) \<subseteq> {0..<3}" by auto
    have step: "returns (v4_find_slot s opcode (t + 1))
        (\<lambda>(t', alu). t \<le> t' \<and> (t' < TOTAL_LATENCY \<longrightarrow> (\<exists>i < 3. alu = Some i \<and> \<not> v4_alu_busy s ! nat t' ! i)))"
      by (rule returns_mono [OF less.hyps]) (use t less.prems in auto)
    show ?thesis
      using v4_find_alu_returns [OF assms(1,2) less.prems t sub] True n step
      by (subst v4_find_slot.simps) (auto simp: returns_def split: option.splits)
  qed (subst v4_find_slot.simps, simp add: wp)
qed

subsection \<open>Emitting an instruction\<close>

lemma v4_inv_busy: "v4_inv s \<Longrightarrow> length b = 46 \<Longrightarrow> \<forall>row \<in> set b. length row = 3 \<Longrightarrow> v4_inv (s\<lparr>v4_alu_busy := b\<rparr>)"
  by (simp add: v4_inv_def v4_frame_def)

lemma v4_mark_returns:
  assumes "length (v4_alu_busy s) = 46" "\<forall>row \<in> set (v4_alu_busy s). length row = 3" "0 \<le> t" "t \<le> 45" "i < 3"
    and "\<And>b. length b = 46 \<Longrightarrow> \<forall>row \<in> set b. length row = 3 \<Longrightarrow> P (s\<lparr>v4_alu_busy := b\<rparr>)"
  shows "returns (v4_mark t (Some i) s) P"
proof -
  have l: "nat t < 46" "length (v4_alu_busy s ! nat t) = 3"
    using assms(1-4) by auto
  have "\<forall>row \<in> set ((v4_alu_busy s)[nat t := (v4_alu_busy s ! nat t)[i := True]]). length row = 3"
    using assms(2) l by (auto dest!: set_update_subset_insert [THEN subsetD])
  then show ?thesis
    unfolding v4_mark_def using l assms by (auto intro!: wp)
qed

text \<open>The state after an instruction.\<close>

definition v4_emitted :: "v4_state \<Rightarrow> v4_state \<Rightarrow> bool" where
  "v4_emitted s s' \<longleftrightarrow> v4_inv s' \<and> v4_code_size s' = v4_code_size s + 1 \<and>
     v4_iterations s' = v4_iterations s \<and> v4_num_retries s' = v4_num_retries s"

lemma v4_inv_write:
  assumes inv: "v4_inv s" and size: "v4_code_size s < 71" and ok: "v4_instr_ok op"
    and code: "v4_code s' = (v4_code s)[nat (v4_code_size s) := op]" "v4_code_size s' = v4_code_size s + 1"
    and r8: "v4_r8_used s' \<Longrightarrow> v4_r8_used s \<or> v4_src op = 8"
    and rest: "length (v4_latency s') = 9" "\<forall>l \<in> set (v4_latency s'). 0 \<le> l" "length (v4_asic_latency s') = 9"
      "length (v4_inst_data s') = 9" "length (v4_rotated s') = 4" "length (v4_data s') = 32"
      "length (v4_alu_busy s') = 46" "\<forall>row \<in> set (v4_alu_busy s'). length row = 3"
  shows "v4_inv s'"
proof -
  have n: "nat (v4_code_size s + 1) = Suc (nat (v4_code_size s))" "nat (v4_code_size s) < length (v4_code s)"
    using v4_invD(2,10) [OF inv] size by auto
  have "\<forall>j < Suc (nat (v4_code_size s)). v4_instr_ok (v4_code s' ! j)"
    using v4_invD(11) [OF inv] ok n code by (auto simp: less_Suc_eq)
  moreover have "\<exists>j < Suc (nat (v4_code_size s)). v4_src (v4_code s' ! j) = 8" if used: "v4_r8_used s'"
  proof (cases "v4_src op = 8")
    case True
    then show ?thesis using n code by (intro exI [of _ "nat (v4_code_size s)"]) simp
  next
    case False
    then obtain j where "j < nat (v4_code_size s)" "v4_src (v4_code s ! j) = 8"
      using r8 [OF used] v4_invD(12) [OF inv] by auto
    then show ?thesis using code by (intro exI [of _ j]) simp
  qed
  ultimately show ?thesis using rest n code v4_invD(2,10) [OF inv] by (simp add: v4_inv_def v4_frame_def)
qed

lemma v4_emit_returns:
  assumes H: "\<And>x. length x = 32 \<Longrightarrow> length (H x) = 32" and inv: "v4_inv s" and size: "v4_code_size s < 71"
    and op: "opcode < v4_RET" "dst < 4" "src \<le> 8" "opcode \<in> {v4_ADD, v4_SUB, v4_XOR} \<Longrightarrow> dst \<noteq> src"
    and t: "0 \<le> t" "t < TOTAL_LATENCY" "op_latency opcode = Some l" and i: "i < 3"
  shows "returns (v4_emit H opcode dst src (t + l) (Some i) s) (v4_emitted s)"
proof -
  have l: "0 \<le> l" "opcode = v4_ADD \<Longrightarrow> l = 2" using v4_latency_bounds(1) [OF op(1)] t(3) by auto
  obtain al where al: "asic_op_latency opcode = Some al" using v4_latency_bounds(2) [OF op(1)] by auto
  have t45: "t \<le> 45" "1 + t \<le> 45" using t by (simp_all add: TOTAL_LATENCY_def)
  have ix: "unat dst < 4" "unat src < 9" using op(2,3) by (simp_all add: word_less_nat_alt word_le_nat_alt)
  define s1 where "s1 = (if is_rotation opcode then s\<lparr>v4_rotate_count := v4_rotate_count s + 1\<rparr> else s)"
  have s1: "v4_inv s1" "s1 = s\<lparr>v4_rotate_count := v4_rotate_count s1\<rparr>" using inv by (simp_all add: s1_def)
  note d = v4_invD(1-10) [OF inv]
  have lat: "\<forall>x \<in> set ((v4_latency s)[unat dst := t + l]). 0 \<le> x"
    using inv t l by (auto simp: v4_inv_def dest!: set_update_subset_insert [THEN subsetD])
  have fin: "v4_emitted s s'"
    if "v4_code s' = (v4_code s)[nat (v4_code_size s) := \<lparr>v4_opcode = opcode, v4_dst = dst, v4_src = src, v4_C = C\<rparr>]"
      "v4_code_size s' = v4_code_size s + 1" "v4_latency s' = (v4_latency s)[unat dst := t + l]"
      "v4_r8_used s' = (v4_r8_used s \<or> src = 8)" "length (v4_asic_latency s') = 9" "length (v4_inst_data s') = 9"
      "length (v4_rotated s') = 4" "length (v4_data s') = 32" "length (v4_alu_busy s') = 46"
      "\<forall>row \<in> set (v4_alu_busy s'). length row = 3" "v4_iterations s' = v4_iterations s"
      "v4_num_retries s' = v4_num_retries s" for s' C
    using that op lat d(3) unfolding v4_emitted_def
    by (auto intro!: v4_inv_write [OF inv size, where op = "\<lparr>v4_opcode = opcode, v4_dst = dst, v4_src = src, v4_C = C\<rparr>"]
        simp: v4_instr_ok_def)
  have n: "nat (v4_code_size s) < 71" using size d(10) by simp
  have fields: "v4_data s1 = v4_data s" "v4_code s1 = v4_code s" "v4_latency s1 = v4_latency s"
    "v4_asic_latency s1 = v4_asic_latency s" "v4_inst_data s1 = v4_inst_data s" "v4_rotated s1 = v4_rotated s"
    "v4_code_size s1 = v4_code_size s" "v4_r8_used s1 = v4_r8_used s" "v4_iterations s1 = v4_iterations s"
    "v4_num_retries s1 = v4_num_retries s" "v4_alu_busy s1 = v4_alu_busy s" by (simp_all add: s1_def)
  have busy: "length (v4_alu_busy s) = 46" "\<forall>row \<in> set (v4_alu_busy s). length row = 3" using inv by (simp_all add: v4_inv_def)
  show ?thesis
  proof (cases "opcode = v4_ADD")
    case True
    show ?thesis
      unfolding v4_emit_def Let_def s1_def [symmetric]
      using True t al n d ix busy l(2)
      by (auto intro!: wp v4_mark_returns [OF _ _ t(1) t45(1) i] v4_mark_returns [OF _ _ _ t45(2) i] v4_word_returns [OF H] fin
          simp: fields)
  next
    case False
    show ?thesis
      unfolding v4_emit_def Let_def s1_def [symmetric]
      using False t al n d ix busy
      by (auto intro!: wp v4_mark_returns [OF _ _ t(1) t45(1) i] fin [where C = 0] simp: fields)
  qed
qed

subsection \<open>The loops\<close>

definition v4_stepped :: "v4_state \<Rightarrow> bool \<times> v4_state \<Rightarrow> bool" where
  "v4_stepped s r \<longleftrightarrow> (case r of (left, s') \<Rightarrow> v4_inv s' \<and> v4_iterations s' = v4_iterations s \<and> v4_code_size s' \<le> 60 \<and>
     (\<not> left \<longrightarrow> v4_code_size s' < 60))"

lemma v4_byte_Some:
  assumes "\<And>x. length x = 32 \<Longrightarrow> length (H x) = 32" "length (v4_data s) = 32"
  shows "\<exists>c d i. v4_byte H s = Some (c, s\<lparr>v4_data := d, v4_index := i\<rparr>) \<and> length d = 32"
proof -
  have "returns (v4_byte H s) (\<lambda>r. \<exists>c d i. length d = 32 \<and> r = (c, s\<lparr>v4_data := d, v4_index := i\<rparr>))"
    by (rule v4_byte_returns [OF assms]) blast+
  then show ?thesis by (auto simp: returns_def)
qed

lemma v4_pick_opcode_Some:
  assumes "\<And>x. length x = 32 \<Longrightarrow> length (H x) = 32" "length (v4_data s) = 32"
  shows "\<exists>opcode d i. v4_pick_opcode H c s = Some (opcode, s\<lparr>v4_data := d, v4_index := i\<rparr>) \<and> length d = 32 \<and> opcode < v4_RET"
proof -
  have "returns (v4_pick_opcode H c s) (\<lambda>r. \<exists>opcode d i. opcode < v4_RET \<and> length d = 32 \<and> r = (opcode, s\<lparr>v4_data := d, v4_index := i\<rparr>))"
    by (rule v4_pick_opcode_returns [OF assms]) blast+
  then show ?thesis by (auto simp: returns_def)
qed

lemma v4_iteration_returns:
  assumes H: "\<And>x. length x = 32 \<Longrightarrow> length (H x) = 32" and inv: "v4_inv s" and size: "v4_code_size s < 60"
  shows "returns (v4_iteration H s) (v4_stepped s)"
proof -
  obtain c d i where c: "v4_byte H s = Some (c, s\<lparr>v4_data := d, v4_index := i\<rparr>)" and d: "length d = 32"
    using v4_byte_Some [where H = H, OF H v4_invD(1) [OF inv]] by blast
  obtain opcode d' i' where opcode: "opcode < v4_RET" and d': "length d' = 32"
    and pick: "v4_pick_opcode H c (s\<lparr>v4_data := d, v4_index := i\<rparr>) = Some (opcode, s\<lparr>v4_data := d', v4_index := i'\<rparr>)"
    using v4_pick_opcode_Some [where H = H, OF H, where s = "s\<lparr>v4_data := d, v4_index := i\<rparr>" and c = c] d by auto
  define s1 where "s1 = s\<lparr>v4_data := d', v4_index := i'\<rparr>"
  have s1: "v4_inv s1" "v4_code_size s1 = v4_code_size s" "v4_iterations s1 = v4_iterations s"
    using v4_inv_data [OF inv d'] by (simp_all add: s1_def)
  define dst where "dst = drop_bit 3 c AND 3"
  define src0 where "src0 = drop_bit 5 c AND 7"
  define src where "src = (if (opcode = v4_ADD \<or> opcode = v4_SUB \<or> opcode = v4_XOR) \<and> dst = src0 then 8 else src0)"
  have dst: "dst < 4" and src: "src \<le> 8"
    using word_and_le1 [of "drop_bit 3 c" 3] word_and_le1 [of "drop_bit 5 c" 7]
    by (auto simp: dst_def src0_def src_def word_le_nat_alt word_less_nat_alt)
  then have ix: "unat dst < 4" "unat src < 9" by (simp_all add: word_less_nat_alt word_le_nat_alt)
  have ne: "opcode \<in> {v4_ADD, v4_SUB, v4_XOR} \<Longrightarrow> dst \<noteq> src" using dst by (auto simp: src_def)
  obtain l where l: "op_latency opcode = Some l" "1 \<le> l" using v4_latency_bounds(1) [OF opcode] by auto
  define t0 where "t0 = (if v4_latency s1 ! unat dst > v4_latency s1 ! unat src then v4_latency s1 ! unat dst else v4_latency s1 ! unat src)"
  have t0: "0 \<le> t0" using v4_invD(9) [OF s1(1)] ix by (simp add: t0_def)
  obtain t alu where slot: "v4_find_slot s1 opcode t0 = Some (t, alu)" and "t0 \<le> t"
    and alu: "t < TOTAL_LATENCY \<Longrightarrow> \<exists>i < 3. alu = Some i"
    using v4_find_slot_returns [OF s1(1) opcode t0] by (auto simp: returns_def)
  have emit: "returns (v4_emit H opcode dst src (t + l) alu s1) (v4_emitted s1)" if "t + l \<le> TOTAL_LATENCY"
    using alu that l t0 \<open>t0 \<le> t\<close> size s1(2) v4_emit_returns [where H = H, OF H s1(1) _ opcode dst src ne] by auto
  have mul: "op_latency v4_MUL = Some l" if "opcode = v4_MUL" using l that by simp
  show ?thesis
    unfolding v4_iteration_def
    using v4_invD(3,5,6) [OF s1(1)] ix s1 size emit mul
    by (simp add: c pick s1_def [symmetric] dst_def [symmetric] src0_def [symmetric] src_def [symmetric],
        simp add: Let_def nth_opt_def t0_def [symmetric] slot l)
      (auto simp: v4_stepped_def v4_emitted_def NUM_INSTRUCTIONS_MIN_def intro!: wp elim!: returns_mono)
qed

text \<open>The main loop ends: the fail-safe counts at most 256 iterations.\<close>

lemma v4_main_loop_returns:
  assumes H: "\<And>x. length x = 32 \<Longrightarrow> length (H x) = 32" and "v4_inv s" "v4_code_size s < 60"
  shows "returns (v4_main_loop H s) (\<lambda>s'. v4_inv s' \<and> v4_code_size s' \<le> 60)"
  using assms(2,3)
proof (induction "nat (257 - v4_iterations s)" arbitrary: s rule: less_induct)
  case less
  let ?s = "s\<lparr>v4_iterations := v4_iterations s + 1\<rparr>"
  have step: "returns (v4_iteration H ?s) (v4_stepped ?s)"
    using less.prems by (intro v4_iteration_returns [OF H]) simp_all
  show ?case
  proof (cases "v4_unfinished (v4_latency s) \<and> v4_num_retries s < 64 \<and> v4_iterations s + 1 \<le> 256")
    case True
    obtain left s' where s': "v4_iteration H ?s = Some (left, s')" "v4_stepped ?s (left, s')"
      using step by (auto simp: returns_def)
    then show ?thesis using True less.prems less.hyps [of s']
      by (subst v4_main_loop.simps) (auto simp: v4_stepped_def Let_def intro!: wp)
  next
    case False
    then show ?thesis using less.prems by (subst v4_main_loop.simps) (auto simp: Let_def intro!: wp)
  qed
qed

text \<open>The second loop adds at most ten instructions; its minimum and maximum are two of the four registers.\<close>

lemma v4_min_max_bounds: "fst (v4_min_max asic) < 4 \<and> snd (v4_min_max asic) < 4"
  by (simp add: v4_min_max_def)

lemma v4_asic_loop_returns:
  assumes "v4_inv s" "v4_code_size s \<le> 70"
  shows "returns (v4_asic_loop prev s) (\<lambda>s'. v4_inv s' \<and> v4_code_size s' \<le> 70)"
  using assms
proof (induction "nat (70 - v4_code_size s)" arbitrary: s rule: less_induct)
  case less
  show ?case
  proof (cases "v4_code_size s < NUM_INSTRUCTIONS_MAX \<and> v4_all_below (v4_asic_latency s)")
    case True
    then have size: "v4_code_size s < 70" by (simp add: NUM_INSTRUCTIONS_MAX_def)
    note d = v4_invD(1-10) [OF less.prems(1)]
    obtain mi ma where mm: "v4_min_max (v4_asic_latency s) = (mi, ma)" "mi < 4" "ma < 4"
      using v4_min_max_bounds [of "v4_asic_latency s"] by (cases "v4_min_max (v4_asic_latency s)") auto
    define k where "k = (v4_code_size s - prev) mod 3"
    have "k \<in> {0, 1, 2}" using pos_mod_bound [of 3 "v4_code_size s - prev"] pos_mod_sign [of 3 "v4_code_size s - prev"]
      by (auto simp: k_def)
    then obtain opcode where opcode: "at_int [v4_ROR, v4_MUL, v4_MUL] k = Some opcode" "opcode = v4_ROR \<or> opcode = v4_MUL"
      by (auto simp: at_int_def nth_opt_def)
    then have valid: "opcode < v4_RET" "opcode \<notin> {v4_ADD, v4_SUB, v4_XOR}" by (auto simp: v4_opcodes)
    obtain l al where l: "op_latency opcode = Some l" "0 \<le> l" "asic_op_latency opcode = Some al"
      using v4_latency_bounds(1,2) [OF valid(1)] by auto
    define op where "op = \<lparr>v4_opcode = opcode, v4_dst = of_nat mi, v4_src = of_nat ma, v4_C = 0\<rparr>"
    define s' where "s' = s\<lparr>v4_latency := (v4_latency s)[mi := v4_latency s ! ma + l],
      v4_asic_latency := (v4_asic_latency s)[mi := v4_asic_latency s ! ma + al],
      v4_code := (v4_code s)[nat (v4_code_size s) := op], v4_code_size := v4_code_size s + 1\<rparr>"
    have "of_nat mi < (4 :: u8)" "of_nat ma \<le> (8 :: u8)"
      using mm(2,3) by (auto simp: word_less_nat_alt word_le_nat_alt unat_of_nat)
    then have ok: "v4_instr_ok op" using valid by (simp add: op_def v4_instr_ok_def)
    have lat: "\<forall>x \<in> set ((v4_latency s)[mi := v4_latency s ! ma + l]). 0 \<le> x"
      using less.prems(1) d(9) [of ma] mm(3) l by (auto simp: v4_inv_def dest!: set_update_subset_insert [THEN subsetD])
    have inv': "v4_inv s'"
      by (rule v4_inv_write [OF less.prems(1) _ ok]) (use d lat size less.prems(1) in \<open>auto simp: s'_def v4_inv_def\<close>)
    have "returns (v4_asic_loop prev s') (\<lambda>s'. v4_inv s' \<and> v4_code_size s' \<le> 70)"
      by (rule less.hyps [OF _ inv']) (use size in \<open>simp_all add: s'_def\<close>)
    moreover have "nat (v4_code_size s) < 71" using size by simp
    ultimately show ?thesis
      using True d(2,10)
      by (subst v4_asic_loop.simps)
        (simp add: mm k_def [symmetric] opcode(1) l upd_int_def upd_opt_def op_def [symmetric] s'_def [symmetric])
  next
    case False
    then show ?thesis using less.prems by (subst v4_asic_loop.simps) (auto intro!: wp)
  qed
qed

subsection \<open>The attempts\<close>

lemma v4_inv_reset: "v4_frame s \<Longrightarrow> v4_inv (v4_reset s)"
  by (auto simp: v4_inv_def v4_frame_def v4_reset_def ALU_COUNT_def)

lemma v4_attempt_returns:
  assumes "\<And>x. length x = 32 \<Longrightarrow> length (H x) = 32" and "v4_frame s"
  shows "returns (v4_attempt H s) (\<lambda>s'. v4_inv s' \<and> v4_code_size s' \<le> 70)"
  unfolding v4_attempt_def
  by (rule returns_bind, rule returns_mono, rule v4_main_loop_returns [where H = H, OF assms(1) v4_inv_reset [OF assms(2)]])
    (simp_all add: v4_reset_def v4_asic_loop_returns)

text \<open>The state after attempt \<open>n\<close> (from 0) when every one before has to be repeated.\<close>

fun v4_attempts :: "(bytes \<Rightarrow> bytes) \<Rightarrow> nat \<Rightarrow> v4_state \<Rightarrow> v4_state option" where
  "v4_attempts H 0 s = v4_attempt H s"
| "v4_attempts H (Suc n) s = do { s \<leftarrow> v4_attempt H s; v4_attempts H n s }"

lemma v4_inv_frame: "v4_inv s \<Longrightarrow> v4_frame s"
  by (simp add: v4_inv_def)

lemma v4_attempts_returns:
  assumes "\<And>x. length x = 32 \<Longrightarrow> length (H x) = 32" and "v4_frame s"
  shows "returns (v4_attempts H n s) (\<lambda>s'. v4_inv s' \<and> v4_code_size s' \<le> 70)"
  using assms(2)
proof (induction n arbitrary: s)
  case 0
  then show ?case using v4_attempt_returns [where H = H, OF assms(1)] by simp
next
  case (Suc n)
  then show ?case
    by (auto intro!: wp returns_mono [OF v4_attempt_returns [where H = H, OF assms(1)]] dest: v4_inv_frame)
qed

text \<open>The outer loop returns the state of the first attempt that need not be repeated.\<close>

lemma v4_outer_loop_attempts:
  "v4_outer_loop H s = Some s' \<Longrightarrow>
   \<exists>n. v4_attempts H n s = Some s' \<and> \<not> v4_again s' \<and> (\<forall>k < n. \<exists>t. v4_attempts H k s = Some t \<and> v4_again t)"
proof (erule v4_outer_loop.raw_induct [rotated], goal_cases)
  case (1 loop H s s')
  then obtain t where t: "v4_attempt H s = Some t" "(if v4_again t then loop H t else Some t) = Some s'"
    by (auto simp: Option.bind_eq_Some_conv)
  show ?case
  proof (cases "v4_again t")
    case True
    then have "loop H t = Some s'" using t by simp
    from 1(1) [OF this] obtain n where n: "v4_attempts H n t = Some s'" "\<not> v4_again s'"
      "\<forall>k < n. \<exists>t'. v4_attempts H k t = Some t' \<and> v4_again t'" by blast
    have "\<exists>t'. v4_attempts H k s = Some t' \<and> v4_again t'" if "k < Suc n" for k
      using that t True n(3) by (cases k) auto
    then show ?thesis using n t by (intro exI [of _ "Suc n"]) auto
  next
    case False
    then show ?thesis using t by (intro exI [of _ 0]) auto
  qed
qed

lemma v4_outer_loop_stops:
  assumes "v4_attempts H n s = Some s'" "\<not> v4_again s'" "\<forall>k < n. \<exists>t. v4_attempts H k s = Some t \<and> v4_again t"
  shows "v4_outer_loop H s = Some s'"
  using assms
proof (induction n arbitrary: s)
  case 0
  then show ?case by (subst v4_outer_loop.simps) simp
next
  case (Suc n)
  from Suc.prems(3) have "\<exists>t. v4_attempts H 0 s = Some t \<and> v4_again t" by blast
  then obtain t where t: "v4_attempt H s = Some t" "v4_again t" by auto
  have "\<exists>t'. v4_attempts H k t = Some t' \<and> v4_again t'" if "k < n" for k
    using Suc.prems(3) that t by (auto dest: spec [of _ "Suc k"])
  then show ?case using Suc.IH [of t] Suc.prems t by (subst v4_outer_loop.simps) simp
qed

lemma v4_outer_loop_yields:
  assumes H: "\<And>x. length x = 32 \<Longrightarrow> length (H x) = 32" and fr: "v4_frame s"
  shows "yields (\<forall>n. \<exists>t. v4_attempts H n s = Some t \<and> v4_again t) (v4_outer_loop H s)
    (\<lambda>s'. v4_inv s' \<and> v4_code_size s' \<le> 70 \<and> \<not> v4_again s')"
proof (cases "v4_outer_loop H s")
  case None
  have all: "\<exists>t. v4_attempts H n s = Some t" for n
    using v4_attempts_returns [where H = H, OF H fr] by (auto simp: returns_def)
  have "\<exists>t. v4_attempts H n s = Some t \<and> v4_again t" for n
  proof (induction n rule: less_induct)
    case (less n)
    then show ?case using all [of n] v4_outer_loop_stops [of H n s] None by auto
  qed
  then show ?thesis by (simp add: yields_def None)
next
  case (Some s')
  then obtain n where "v4_attempts H n s = Some s'" "\<not> v4_again s'" using v4_outer_loop_attempts by blast
  then show ?thesis using v4_attempts_returns [where H = H and n = n, OF H fr] Some by (simp add: yields_def returns_def)
qed

text \<open>What \<open>v4_random_math_init\<close> promises of its array.\<close>

definition v4_program :: "int \<Rightarrow> V4_Instruction list \<Rightarrow> bool" where
  "v4_program n code \<longleftrightarrow> NUM_INSTRUCTIONS_MIN \<le> n \<and> n \<le> NUM_INSTRUCTIONS_MAX \<and> length code = 71 \<and>
     (\<forall>j < nat n. v4_instr_ok (code ! j)) \<and> (\<exists>j < nat n. v4_src (code ! j) = 8) \<and> v4_opcode (code ! nat n) = v4_RET"

lemma v4_start_frame: "length code = 71 \<Longrightarrow> v4_frame (v4_start cn_r code height)"
  by (simp add: v4_start_def v4_frame_def Let_def)

lemma v4_init_yields:
  assumes "\<And>x. length x = 32 \<Longrightarrow> length (H x) = 32" and "length code = 71"
  shows "yields (\<forall>n. \<exists>t. v4_attempts H n (v4_start cn_r code height) = Some t \<and> v4_again t)
    (v4_random_math_init H cn_r code height) (\<lambda>(n, code). v4_program n code)"
proof -
  have prog: "nat (v4_code_size s) < 71 \<and> v4_program (v4_code_size s) ((v4_code s)[nat (v4_code_size s) := \<lparr>v4_opcode = v4_RET, v4_dst = 0, v4_src = 0, v4_C = 0\<rparr>])"
    if s: "v4_inv s" "v4_code_size s \<le> 70" "\<not> v4_again s" for s
    using that v4_invD(2,10,11,12) [OF s(1)]
    by (auto simp: v4_program_def v4_again_def NUM_INSTRUCTIONS_MAX_def)
  show ?thesis
    unfolding v4_random_math_init_def
    by (rule yields_bind, rule yields_mono, rule v4_outer_loop_yields [where H = H, OF assms(1) v4_start_frame [OF assms(2)]])
      (use prog in \<open>auto simp: upd_int_def upd_opt_def yields_Some v4_inv_def v4_frame_def\<close>)
qed

subsection \<open>The interpreter\<close>

text \<open>The intended effect of an instruction, with the rotations of the word library.\<close>

definition v4_effect :: "V4_Instruction \<Rightarrow> 'a::len word list \<Rightarrow> 'a word list" where
  "v4_effect op r =
     (let d = unat (v4_dst op); x = r ! d; y = r ! unat (v4_src op)
      in r[d := (if v4_opcode op = v4_MUL then x * y
                 else if v4_opcode op = v4_ADD then x + y + ucast (v4_C op)
                 else if v4_opcode op = v4_SUB then x - y
                 else if v4_opcode op = v4_ROR then word_rotr (unat y) x
                 else if v4_opcode op = v4_ROL then word_rotl (unat y) x
                 else x XOR y)])"

lemma rotate_right_index: "m < n \<Longrightarrow> s < n \<Longrightarrow> (m + s) mod n = (if m + s < n then m + s else m + s - (n :: nat))"
  by (simp add: mod_if)

lemma rotate_left_index: "m < n \<Longrightarrow> s < n \<Longrightarrow> (m + (n - s)) mod n = (if m < s then n + m - s else m - (s :: nat))"
  by (auto simp: mod_if)

lemma v4_rotr_rotr: "v4_rotr x y = word_rotr (unat y) (x :: 'a::len word)"
proof (rule bit_word_eqI)
  fix m assume m: "m < LENGTH('a)"
  define s where "s = unat y mod LENGTH('a)"
  have s: "s < LENGTH('a)" by (simp add: s_def)
  have "bit (v4_rotr x y) m \<longleftrightarrow> bit x ((m + s) mod LENGTH('a))"
    using m s bit_imp_le_length [of x "m + s"] unfolding v4_rotr_def s_def [symmetric] Let_def rotate_right_index [OF m s]
    by (cases "s = 0") (auto simp: bit_simps not_less add.commute [of s])
  then show "bit (v4_rotr x y) m = bit (word_rotr (unat y) x) m"
    using m by (simp add: bit_word_rotr_iff s_def mod_add_right_eq)
qed

lemma v4_rotl_rotl: "v4_rotl x y = word_rotl (unat y) (x :: 'a::len word)"
proof (rule bit_word_eqI)
  fix m assume m: "m < LENGTH('a)"
  define s where "s = unat y mod LENGTH('a)"
  have s: "s < LENGTH('a)" by (simp add: s_def)
  show "bit (v4_rotl x y) m = bit (word_rotl (unat y) x) m"
    using m s bit_imp_le_length [of x "LENGTH('a) + m - s"]
    unfolding v4_rotl_def s_def [symmetric] Let_def bit_word_rotl_iff rotate_left_index [OF m s]
    by (cases "s = 0") (auto simp: bit_simps not_less)
qed

lemma v4_exec_effect:
  assumes "v4_instr_ok op" "length r = 9"
  shows "v4_exec op r = Some (v4_effect op r)"
proof -
  have op: "v4_opcode op < v4_RET" and ix: "unat (v4_dst op) < 9" "unat (v4_src op) < 9"
    using assms(1) by (simp_all add: v4_instr_ok_def word_less_nat_alt word_le_nat_alt)
  have "v4_opcode op \<in> {v4_MUL, v4_ADD, v4_SUB, v4_ROR, v4_ROL, v4_XOR}" by (rule v4_opcode_cases [OF op]) simp_all
  then show ?thesis using ix assms(2)
    by (simp only: v4_exec_def v4_effect_def Let_def nth_opt_def upd_opt_def v4_rotr_rotr v4_rotl_rotl add.assoc if_True
        Option.bind.simps)
      (elim insertE emptyE; simp)
qed

lemma v4_effect_constant:
  assumes "v4_instr_ok op"
  shows "length (v4_effect op r) = length r" and "4 \<le> i \<Longrightarrow> v4_effect op r ! i = r ! i"
  using assms by (auto simp: v4_effect_def Let_def v4_instr_ok_def word_less_nat_alt)

lemma v4_exec_from_effects:
  assumes "length code = 71" "n \<le> 70" "\<forall>j < n. v4_instr_ok (code ! j)" "v4_opcode (code ! n) = v4_RET"
    and "length r = 9" "k \<le> n"
  shows "v4_exec_from code [k..<70] r = Some (foldl (\<lambda>r op. v4_effect op r) r (drop k (take n code)))"
  using assms(5,6)
proof (induction "n - k" arbitrary: k r)
  case 0
  then have "k = n" by simp
  then show ?case using assms(1,2,4)
    by (cases "n = 70") (simp_all add: upt_rec [of n] nth_opt_def)
next
  case (Suc m)
  then have k: "k < n" "k < 70" using assms(2) by simp_all
  have op: "v4_instr_ok (code ! k)" "v4_opcode (code ! k) \<noteq> v4_RET" using assms(3) k by (auto simp: v4_instr_ok_def)
  have "drop k (take n code) = code ! k # drop (Suc k) (take n code)"
    using k assms(1,2) by (simp add: Cons_nth_drop_Suc [symmetric])
  then show ?case
    using Suc k op assms(1) v4_exec_effect [OF op(1) Suc.prems(1)] v4_effect_constant(1) [OF op(1), of r]
    by (simp add: upt_rec [of k] nth_opt_def)
qed

lemma v4_effects_constant:
  "\<forall>op \<in> set ops. v4_instr_ok op \<Longrightarrow> length (foldl (\<lambda>r op. v4_effect op r) r ops) = length r"
  "\<forall>op \<in> set ops. v4_instr_ok op \<Longrightarrow> 4 \<le> i \<Longrightarrow> foldl (\<lambda>r op. v4_effect op r) r ops ! i = r ! i"
  by (induction ops arbitrary: r) (simp_all add: v4_effect_constant)

lemma v4_random_math_effects:
  assumes "v4_program n code" "length (r :: 'a::len word list) = 9"
  shows "v4_random_math code r = Some (foldl (\<lambda>r op. v4_effect op r) r (take (nat n) code))"
proof -
  have "nat n \<le> 70" using assms(1) by (auto simp: v4_program_def NUM_INSTRUCTIONS_MAX_def)
  then show ?thesis using v4_exec_from_effects [of code "nat n" r 0] assms by (simp add: v4_random_math_def v4_program_def)
qed

lemma v4_random_math_runs:
  assumes "v4_program n code" "length (r :: 'a::len word list) = 9"
  shows "\<exists>r'. v4_random_math code r = Some r' \<and> r' = foldl (\<lambda>r op. v4_effect op r) r (take (nat n) code) \<and>
    length r' = 9 \<and> drop 4 r' = drop 4 r"
proof -
  have ok: "\<forall>op \<in> set (take (nat n) code). v4_instr_ok op" using assms(1) by (auto simp: v4_program_def in_set_conv_nth)
  show ?thesis
    using v4_random_math_effects [OF assms] v4_effects_constant(1) [OF ok, of r] v4_effects_constant(2) [OF ok, of _ r] assms(2)
    by (auto intro!: nth_equalityI)
qed

subsection \<open>The programs of the miner\<close>

lemma v4_hash_length: "length (bl_buf S0) = 64 \<Longrightarrow> length x = 32 \<Longrightarrow> length (v4_hash S0 x) = 32"
  using hash_256 [of S0 x x] by (simp add: v4_hash_def blake256_spec_def blake_iv256_def)

text \<open>C17. The generator of CryptoNight/R never accesses an array outside its bounds and never loops inside a pass: every
  pass of its outer loop ends, for each height, with the invariant of its arrays and at most 70 instructions. So
  \<open>v4_random_math_init\<close> returns, unless every pass, for ever, gives a program that has to be thrown away
  (fewer than 60 instructions or no use of R8). What it returns is a program of 60 to 70 valid instructions that reads R8,
  with \<open>RET\<close> behind it.\<close>

theorem v4_generator_safe:
  assumes "length (bl_buf S0) = 64" and "length code = 71"
  shows "(\<forall>n. \<exists>s. v4_attempts (v4_hash S0) n (v4_start cn_r code height) = Some s \<and> v4_inv s \<and> v4_code_size s \<le> 70) \<and>
    yields (\<forall>n. \<exists>s. v4_attempts (v4_hash S0) n (v4_start cn_r code height) = Some s \<and> v4_again s)
      (v4_random_math_init (v4_hash S0) cn_r code height) (\<lambda>(n, code). v4_program n code)"
  using v4_attempts_returns [where H = "v4_hash S0", OF v4_hash_length [OF assms(1)] v4_start_frame [OF assms(2)]]
    v4_init_yields [where H = "v4_hash S0", OF v4_hash_length [OF assms(1)] assms(2)]
  by (auto simp: returns_def)

theorem v4_generator_safe_witness:
  "\<exists>s. v4_attempts (v4_hash blake256_any) 3
     (v4_start True (replicate 71 \<lparr>v4_opcode = 0, v4_dst = 0, v4_src = 0, v4_C = 0\<rparr>) 1806260) = Some s \<and> v4_inv s \<and> v4_code_size s \<le> 70"
  using v4_generator_safe [of blake256_any "replicate 71 \<lparr>v4_opcode = 0, v4_dst = 0, v4_src = 0, v4_C = 0\<rparr>" True 1806260]
  by (simp add: blake256_any_def)

text \<open>C24. The interpreter runs each program of the generator, on registers of any width, to its \<open>RET\<close> with no access
  outside an array and without the code marked unreachable: the registers it leaves are those of the instructions before the
  \<open>RET\<close>, applied in order with true rotations, and the constant registers R4 to R8 keep their values.\<close>

theorem v4_program_runs:
  assumes "length (bl_buf S0) = 64" and "length code = 71" and "length (r :: 'a::len word list) = 9"
  shows "yields (\<forall>n. \<exists>s. v4_attempts (v4_hash S0) n (v4_start cn_r code height) = Some s \<and> v4_again s)
      (v4_random_math_init (v4_hash S0) cn_r code height)
      (\<lambda>(n, code). \<exists>r'. v4_random_math code r = Some r' \<and> r' = foldl (\<lambda>r op. v4_effect op r) r (take (nat n) code) \<and>
         length r' = 9 \<and> drop 4 r' = drop 4 r)"
  using v4_random_math_runs [OF _ assms(3)]
  by (auto intro!: yields_mono [OF v4_init_yields [where H = "v4_hash S0", OF v4_hash_length [OF assms(1)] assms(2)]])

theorem v4_program_runs_witness:
  "yields (\<forall>n. \<exists>s. v4_attempts (v4_hash blake256_any) n
      (v4_start True (replicate 71 \<lparr>v4_opcode = 0, v4_dst = 0, v4_src = 0, v4_C = 0\<rparr>) 1806260) = Some s \<and> v4_again s)
    (v4_random_math_init (v4_hash blake256_any) True (replicate 71 \<lparr>v4_opcode = 0, v4_dst = 0, v4_src = 0, v4_C = 0\<rparr>) 1806260)
    (\<lambda>(n, code). \<exists>r'. v4_random_math code (replicate 9 (7 :: u32)) = Some r' \<and> drop 4 r' = replicate 5 7)"
  by (rule yields_mono, rule v4_program_runs [of _ _ "replicate 9 (7 :: u32)"]) (auto simp: blake256_any_def)

end
