(* ===== verification/Rx_Storage.thy ===== *)
theory Rx_Storage
  imports Algorithm Rx_Config Job "HOL-Library.Monad_Syntax"
begin

text \<open>
  The memory of RandomX: \<open>crypto/rx/RxSeed.h\<close>, \<open>RxAlgo.cpp\<close>, \<open>RxCache.cpp\<close>, \<open>RxDataset.cpp\<close>, and the two
  storages \<open>RxBasicStorage.cpp\<close> and \<open>RxNUMAStorage.cpp\<close> behind the interface \<open>IRxStorage\<close>.

  The contents of a cache and of a dataset have the types \<open>'c\<close> and \<open>'d\<close>. The argument \<open>F\<close> is
  \<open>randomx_init_cache\<close> under a configuration, and \<open>E\<close> the initialisation of the whole dataset from a cache
  (the theory Dataset has both in detail, with the split among threads). What the platform decides, whether an allocation
  succeeds, is a field of \<open>rx_env\<close>. The current configuration \<open>RandomX_CurrentConfig\<close> is passed as \<open>cfg\<close>.
  Messages of the log are left out. An exception or an undefined access is \<^term>\<open>None\<close>.
\<close>

subsection \<open>Seeds and algorithms\<close>

record RxSeed =
  rxs_algorithm :: Id
  rxs_data :: bytes

definition RxSeed_default :: RxSeed where
  "RxSeed_default = \<lparr>rxs_algorithm = INVALID, rxs_data = []\<rparr>"

definition RxSeed_of_job :: "job \<Rightarrow> RxSeed" where
  "RxSeed_of_job j = \<lparr>rxs_algorithm = m_algorithm j, rxs_data = m_seed j\<rparr>"

definition RxSeed_isEqual :: "RxSeed \<Rightarrow> RxSeed \<Rightarrow> bool" where
  "RxSeed_isEqual s s' \<longleftrightarrow> rxs_algorithm s = rxs_algorithm s' \<and> rxs_data s = rxs_data s'"

lemma RxSeed_isEqual_eq [simp]: "RxSeed_isEqual s s' \<longleftrightarrow> s = s'"
  by (cases s; cases s') (simp add: RxSeed_isEqual_def)

definition RxAlgo_base :: "Id \<Rightarrow> RandomX_Configuration" where
  "RxAlgo_base algorithm =
     (if algorithm = RX_WOW then RandomX_ConfigurationWownero
      else if algorithm = RX_ARQ then RandomX_ConfigurationArqma
      else if algorithm = RX_SFX then RandomX_ConfigurationSafex
      else if algorithm = RX_KEVA then RandomX_ConfigurationKeva
      else RandomX_ConfigurationMonero)"

definition RxAlgo_version :: "Id \<Rightarrow> u32" where
  "RxAlgo_version algorithm = (if algorithm = RX_WOW then 103 else 104)"

definition RxAlgo_programCount :: "Id \<Rightarrow> nat" where
  "RxAlgo_programCount algorithm = ProgramCount (RxAlgo_base algorithm)"

definition RxAlgo_programIterations :: "Id \<Rightarrow> nat" where
  "RxAlgo_programIterations algorithm = ProgramIterations (RxAlgo_base algorithm)"

definition RxAlgo_programSize :: "Id \<Rightarrow> nat" where
  "RxAlgo_programSize algorithm = ProgramSize (RxAlgo_base algorithm)"

text \<open>\<open>RxAlgo::apply\<close>: the new current configuration.\<close>

definition RxAlgo_apply :: "Id \<Rightarrow> RandomX_Configuration" where
  "RxAlgo_apply algorithm = Apply (RxAlgo_base algorithm)"

subsection \<open>The platform and virtual memory\<close>

definition RANDOMX_CACHE_MAX_SIZE :: nat where "RANDOMX_CACHE_MAX_SIZE = 268435456"
definition RANDOMX_DATASET_MAX_SIZE :: nat where "RANDOMX_DATASET_MAX_SIZE = 2181038080"
definition RANDOMX_SCRATCHPAD_L3_MAX_SIZE :: u64 where "RANDOMX_SCRATCHPAD_L3_MAX_SIZE = 2097152"

text \<open>
  The outcomes of the platform calls; \<open>env_onegb\<close>, \<open>env_large\<close> and \<open>env_malloc\<close> for an allocation of a
  size on a node, \<open>env_bind\<close> for \<open>bindToNUMANode\<close>, \<open>env_jit\<close> and \<open>env_plain\<close> for
  \<open>randomx_create_cache\<close> with and without the flag. Fresh memory has some contents.
\<close>

record ('c, 'd) rx_env =
  env_total_memory :: nat
  env_onegb :: "nat \<Rightarrow> u32 \<Rightarrow> bool"
  env_large :: "nat \<Rightarrow> u32 \<Rightarrow> bool"
  env_malloc :: "nat \<Rightarrow> u32 \<Rightarrow> bool"
  env_bind :: "u32 \<Rightarrow> bool"
  env_jit :: "u32 \<Rightarrow> bool"
  env_plain :: "u32 \<Rightarrow> bool"
  env_cache_memory :: 'c
  env_dataset_memory :: 'd

record VirtualMemory =
  vm_raw :: bool
  vm_isOneGbPages :: bool
  vm_capacity :: nat

definition VirtualMemory_align :: "nat \<Rightarrow> nat \<Rightarrow> nat" where
  "VirtualMemory_align pos align = ((pos - 1) div align + 1) * align"

text \<open>The constructor, for \<open>usePool\<close> false and the default size of huge pages; \<open>vm_raw\<close> says that \<open>raw()\<close> is not null.\<close>

definition VirtualMemory_new :: "('c, 'd) rx_env \<Rightarrow> nat \<Rightarrow> bool \<Rightarrow> bool \<Rightarrow> u32 \<Rightarrow> VirtualMemory" where
  "VirtualMemory_new env sz hugePages oneGbPages node =
     (let m_size = VirtualMemory_align sz 2097152
      in if oneGbPages \<and> env_onegb env m_size node
         then \<lparr>vm_raw = True, vm_isOneGbPages = True, vm_capacity = VirtualMemory_align sz (2 ^ 30)\<rparr>
         else if hugePages \<and> env_large env m_size node
         then \<lparr>vm_raw = True, vm_isOneGbPages = False, vm_capacity = m_size\<rparr>
         else \<lparr>vm_raw = env_malloc env m_size node, vm_isOneGbPages = False, vm_capacity = m_size\<rparr>)"

subsection \<open>RxCache\<close>

text \<open>\<open>rxc_cache\<close> is \<open>m_cache\<close>, with the contents of the memory behind it.\<close>

record 'c RxCache =
  rxc_jit :: bool
  rxc_seed :: bytes
  rxc_cache :: "'c option"

definition RxCache_create :: "('c, 'd) rx_env \<Rightarrow> u32 \<Rightarrow> bool \<Rightarrow> 'c RxCache" where
  "RxCache_create env node memory =
     (if \<not> memory then \<lparr>rxc_jit = True, rxc_seed = [], rxc_cache = None\<rparr>
      else if env_jit env node then \<lparr>rxc_jit = True, rxc_seed = [], rxc_cache = Some (env_cache_memory env)\<rparr>
      else \<lparr>rxc_jit = False, rxc_seed = [], rxc_cache = (if env_plain env node then Some (env_cache_memory env) else None)\<rparr>)"

definition RxCache_new :: "('c, 'd) rx_env \<Rightarrow> bool \<Rightarrow> u32 \<Rightarrow> 'c RxCache" where
  "RxCache_new env hugePages node =
     RxCache_create env node (vm_raw (VirtualMemory_new env RANDOMX_CACHE_MAX_SIZE hugePages False node))"

type_synonym 'c init_cache = "RandomX_Configuration \<Rightarrow> bytes \<Rightarrow> 'c \<Rightarrow> 'c"

definition RxCache_init :: "'c init_cache \<Rightarrow> RandomX_Configuration \<Rightarrow> bytes \<Rightarrow> 'c RxCache \<Rightarrow> bool \<times> 'c RxCache" where
  "RxCache_init F cfg seed c =
     (if rxc_seed c = seed then (False, c)
      else let c = c\<lparr>rxc_seed := seed\<rparr>
           in case rxc_cache c of
                Some mem \<Rightarrow> (True, c\<lparr>rxc_cache := Some (F cfg seed mem)\<rparr>)
              | None \<Rightarrow> (False, c))"

subsection \<open>RxDataset\<close>

datatype Mode = AutoMode | FastMode | LightMode

record ('c, 'd) RxDataset =
  rxd_mode :: Mode
  rxd_node :: u32
  rxd_dataset :: "'d option"
  rxd_cache :: "'c RxCache option"
  rxd_scratchpadLimit :: u64
  rxd_scratchpadOffset :: u64
  rxd_memory :: "VirtualMemory option"

definition RxDataset_isOneGbPages :: "('c, 'd) RxDataset \<Rightarrow> bool" where
  "RxDataset_isOneGbPages d \<longleftrightarrow> (case rxd_memory d of None \<Rightarrow> False | Some vm \<Rightarrow> vm_isOneGbPages vm)"

definition RxDataset_allocate :: "('c, 'd) rx_env \<Rightarrow> bool \<Rightarrow> bool \<Rightarrow> ('c, 'd) RxDataset \<Rightarrow> ('c, 'd) RxDataset" where
  "RxDataset_allocate env hugePages oneGbPages d =
     (if rxd_mode d = LightMode then d
      else if rxd_mode d = AutoMode \<and> env_total_memory env < RANDOMX_DATASET_MAX_SIZE + RANDOMX_CACHE_MAX_SIZE then d
      else let vm = VirtualMemory_new env RANDOMX_DATASET_MAX_SIZE hugePages oneGbPages (rxd_node d);
               d = d\<lparr>rxd_memory := Some vm\<rparr>;
               d = (if vm_isOneGbPages vm
                    then d\<lparr>rxd_scratchpadOffset := of_nat (RANDOMX_DATASET_MAX_SIZE + RANDOMX_CACHE_MAX_SIZE),
                           rxd_scratchpadLimit := of_nat (vm_capacity vm)\<rparr>
                    else d)
           in d\<lparr>rxd_dataset := (if vm_raw vm then Some (env_dataset_memory env) else None)\<rparr>)"

definition RxDataset_new :: "('c, 'd) rx_env \<Rightarrow> bool \<Rightarrow> bool \<Rightarrow> bool \<Rightarrow> Mode \<Rightarrow> u32 \<Rightarrow> ('c, 'd) RxDataset" where
  "RxDataset_new env hugePages oneGbPages cache mode node =
     (let d = RxDataset_allocate env hugePages oneGbPages
                \<lparr>rxd_mode = mode, rxd_node = node, rxd_dataset = None, rxd_cache = None, rxd_scratchpadLimit = 0,
                 rxd_scratchpadOffset = 0, rxd_memory = None\<rparr>
      in if RxDataset_isOneGbPages d then d\<lparr>rxd_cache := Some (RxCache_create env node True)\<rparr>
         else if cache then d\<lparr>rxd_cache := Some (RxCache_new env hugePages node)\<rparr> else d)"

definition RxDataset_of_cache :: "'c RxCache \<Rightarrow> ('c, 'd) RxDataset" where
  "RxDataset_of_cache c =
     \<lparr>rxd_mode = FastMode, rxd_node = 0, rxd_dataset = None, rxd_cache = Some c, rxd_scratchpadLimit = 0,
      rxd_scratchpadOffset = 0, rxd_memory = None\<rparr>"

type_synonym ('c, 'd) init_dataset = "RandomX_Configuration \<Rightarrow> 'c \<Rightarrow> 'd \<Rightarrow> 'd"

definition RxDataset_init :: "'c init_cache \<Rightarrow> ('c, 'd) init_dataset \<Rightarrow> RandomX_Configuration \<Rightarrow> bytes \<Rightarrow> ('c, 'd) RxDataset \<Rightarrow>
    bool \<times> ('c, 'd) RxDataset" where
  "RxDataset_init F E cfg seed d =
     (case rxd_cache d of
        None \<Rightarrow> (False, d)
      | Some c \<Rightarrow>
          if rxc_cache c = None then (False, d)
          else let c = snd (RxCache_init F cfg seed c);
                   d = d\<lparr>rxd_cache := Some c\<rparr>
               in case rxd_dataset d of
                    None \<Rightarrow> (True, d)
                  | Some mem \<Rightarrow> (True, d\<lparr>rxd_dataset := Some (E cfg (the (rxc_cache c)) mem)\<rparr>))"

text \<open>\<open>tryAllocateScrathpad\<close>: the offset of the scratchpad from \<open>raw()\<close>; the counter is fetched and added in one step.\<close>

definition tryAllocateScrathpad :: "('c, 'd) RxDataset \<Rightarrow> u64 option \<times> ('c, 'd) RxDataset" where
  "tryAllocateScrathpad d =
     (if rxd_dataset d = None then (None, d)
      else let offset = rxd_scratchpadOffset d;
               d = d\<lparr>rxd_scratchpadOffset := offset + RANDOMX_SCRATCHPAD_L3_MAX_SIZE\<rparr>
           in if offset + RANDOMX_SCRATCHPAD_L3_MAX_SIZE > rxd_scratchpadLimit d then (None, d) else (Some offset, d))"

definition setRaw :: "'d \<Rightarrow> ('c, 'd) RxDataset \<Rightarrow> ('c, 'd) RxDataset" where
  "setRaw raw d = (case rxd_dataset d of None \<Rightarrow> d | Some _ \<Rightarrow> d\<lparr>rxd_dataset := Some raw\<rparr>)"

subsection \<open>RxBasicStorage\<close>

record ('c, 'd) RxBasicStorage =
  rbs_ready :: bool
  rbs_dataset :: "('c, 'd) RxDataset option"
  rbs_seed :: RxSeed

definition RxBasicStorage_new :: "('c, 'd) RxBasicStorage" where
  "RxBasicStorage_new = \<lparr>rbs_ready = False, rbs_dataset = None, rbs_seed = RxSeed_default\<rparr>"

definition rbs_isReady :: "RxSeed \<Rightarrow> ('c, 'd) RxBasicStorage \<Rightarrow> bool" where
  "rbs_isReady jb s \<longleftrightarrow> rbs_ready s \<and> RxSeed_isEqual (rbs_seed s) jb"

definition rbs_setSeed :: "RxSeed \<Rightarrow> RandomX_Configuration \<Rightarrow> ('c, 'd) RxBasicStorage \<Rightarrow> RandomX_Configuration \<times> ('c, 'd) RxBasicStorage" where
  "rbs_setSeed seed cfg s =
     (let s = s\<lparr>rbs_ready := False\<rparr>;
          cfg = (if rxs_algorithm (rbs_seed s) \<noteq> rxs_algorithm seed then RxAlgo_apply (rxs_algorithm seed) else cfg)
      in (cfg, s\<lparr>rbs_seed := seed\<rparr>))"

definition rbs_createDataset :: "('c, 'd) rx_env \<Rightarrow> bool \<Rightarrow> bool \<Rightarrow> Mode \<Rightarrow> ('c, 'd) RxBasicStorage \<Rightarrow>
    (bool \<times> ('c, 'd) RxBasicStorage) option" where
  "rbs_createDataset env hugePages oneGbPages mode s = do {
     let d = RxDataset_new env hugePages oneGbPages True mode 0;
     c \<leftarrow> rxd_cache d;
     Some (if rxc_cache c = None then (False, s\<lparr>rbs_dataset := None\<rparr>) else (True, s\<lparr>rbs_dataset := Some d\<rparr>))
   }"

definition rbs_initDataset :: "'c init_cache \<Rightarrow> ('c, 'd) init_dataset \<Rightarrow> RandomX_Configuration \<Rightarrow> ('c, 'd) RxBasicStorage \<Rightarrow>
    ('c, 'd) RxBasicStorage option" where
  "rbs_initDataset F E cfg s = do {
     d \<leftarrow> rbs_dataset s;
     let (ready, d) = RxDataset_init F E cfg (rxs_data (rbs_seed s)) d;
     Some (s\<lparr>rbs_ready := ready, rbs_dataset := Some d\<rparr>)
   }"

definition rbs_isAllocated :: "('c, 'd) RxBasicStorage \<Rightarrow> bool" where
  "rbs_isAllocated s \<longleftrightarrow>
     (case rbs_dataset s of None \<Rightarrow> False
      | Some d \<Rightarrow> (case rxd_cache d of None \<Rightarrow> False | Some c \<Rightarrow> rxc_cache c \<noteq> None))"

text \<open>\<open>dataset\<close>: \<^term>\<open>None\<close> inside is the null pointer.\<close>

definition rbs_get_dataset :: "RxSeed \<Rightarrow> u32 \<Rightarrow> ('c, 'd) RxBasicStorage \<Rightarrow> ('c, 'd) RxDataset option option" where
  "rbs_get_dataset jb nodeId s = Some (if \<not> rbs_isReady jb s then None else rbs_dataset s)"

definition rbs_init :: "'c init_cache \<Rightarrow> ('c, 'd) init_dataset \<Rightarrow> ('c, 'd) rx_env \<Rightarrow> RxSeed \<Rightarrow> bool \<Rightarrow> bool \<Rightarrow> Mode \<Rightarrow>
    RandomX_Configuration \<Rightarrow> ('c, 'd) RxBasicStorage \<Rightarrow> (RandomX_Configuration \<times> ('c, 'd) RxBasicStorage) option" where
  "rbs_init F E env seed hugePages oneGbPages mode cfg s = do {
     let (cfg, s) = rbs_setSeed seed cfg s;
     (created, s) \<leftarrow> (if rbs_dataset s = None then rbs_createDataset env hugePages oneGbPages mode s else Some (True, s));
     if \<not> created then Some (cfg, s)
     else do { s \<leftarrow> rbs_initDataset F E cfg s; Some (cfg, s) }
   }"

subsection \<open>RxNUMAStorage\<close>

text \<open>
  \<open>m_datasets\<close> is the list of the entries of the map, by increasing node. The dataset of the first node
  shares the cache of the storage by its pointer; the storage's own copy, \<open>rns_cache\<close>, is not used after that.
\<close>

record ('c, 'd) RxNUMAStorage =
  rns_allocated :: bool
  rns_ready :: bool
  rns_cache :: "'c RxCache option"
  rns_seed :: RxSeed
  rns_datasets :: "(u32 \<times> ('c, 'd) RxDataset) list"
  rns_nodeset :: "u32 list"

definition RxNUMAStorage_new :: "u32 list \<Rightarrow> ('c, 'd) RxNUMAStorage" where
  "RxNUMAStorage_new nodeset =
     \<lparr>rns_allocated = False, rns_ready = False, rns_cache = None, rns_seed = RxSeed_default, rns_datasets = [], rns_nodeset = nodeset\<rparr>"

text \<open>\<open>std::map::insert\<close>: an entry that is there stays. The update of an entry through its pointer.\<close>

fun node_insert :: "u32 \<Rightarrow> 'a \<Rightarrow> (u32 \<times> 'a) list \<Rightarrow> (u32 \<times> 'a) list" where
  "node_insert k v [] = [(k, v)]"
| "node_insert k v ((k', v') # xs) =
     (if k < k' then (k, v) # (k', v') # xs else if k = k' then (k', v') # xs else (k', v') # node_insert k v xs)"

definition node_update :: "u32 \<Rightarrow> ('a \<Rightarrow> 'a) \<Rightarrow> (u32 \<times> 'a) list \<Rightarrow> (u32 \<times> 'a) list" where
  "node_update k f xs = map (\<lambda>(k', v). (k', if k' = k then f v else v)) xs"

text \<open>\<open>dataset(nodeId)\<close>: the key it is found at. \<open>at\<close> throws, and \<open>front\<close> needs a node.\<close>

definition rns_key :: "u32 \<Rightarrow> ('c, 'd) RxNUMAStorage \<Rightarrow> u32 option" where
  "rns_key nodeId s =
     (if map_of (rns_datasets s) nodeId \<noteq> None then Some nodeId
      else case rns_nodeset s of [] \<Rightarrow> None | n # _ \<Rightarrow> if map_of (rns_datasets s) n \<noteq> None then Some n else None)"

definition rns_dataset :: "u32 \<Rightarrow> ('c, 'd) RxNUMAStorage \<Rightarrow> ('c, 'd) RxDataset option" where
  "rns_dataset nodeId s = Option.bind (rns_key nodeId s) (map_of (rns_datasets s))"

definition rns_setSeed :: "RxSeed \<Rightarrow> RandomX_Configuration \<Rightarrow> ('c, 'd) RxNUMAStorage \<Rightarrow> RandomX_Configuration \<times> ('c, 'd) RxNUMAStorage" where
  "rns_setSeed seed cfg s =
     (let s = s\<lparr>rns_ready := False\<rparr>;
          cfg = (if rxs_algorithm (rns_seed s) \<noteq> rxs_algorithm seed then RxAlgo_apply (rxs_algorithm seed) else cfg)
      in (cfg, s\<lparr>rns_seed := seed\<rparr>))"

text \<open>The body of the thread \<open>allocate\<close> of a node; the threads of different nodes commute.\<close>

definition rns_allocate :: "('c, 'd) rx_env \<Rightarrow> bool \<Rightarrow> bool \<Rightarrow> u32 \<Rightarrow> ('c, 'd) RxNUMAStorage \<Rightarrow> ('c, 'd) RxNUMAStorage" where
  "rns_allocate env hugePages oneGbPages nodeId s =
     (if \<not> env_bind env nodeId then s
      else let d = RxDataset_new env hugePages oneGbPages False FastMode nodeId
           in if rxd_dataset d = None then s else s\<lparr>rns_datasets := node_insert nodeId d (rns_datasets s)\<rparr>)"

definition rns_isCacheRequired :: "('c, 'd) RxNUMAStorage \<Rightarrow> bool" where
  "rns_isCacheRequired s \<longleftrightarrow> rns_datasets s = [] \<or> \<not> list_ex (\<lambda>(_, d). RxDataset_isOneGbPages d) (rns_datasets s)"

definition rns_allocateCache :: "('c, 'd) rx_env \<Rightarrow> u32 \<Rightarrow> bool \<Rightarrow> ('c, 'd) RxNUMAStorage \<Rightarrow> ('c, 'd) RxNUMAStorage" where
  "rns_allocateCache env nodeId hugePages s =
     (let c = RxCache_new env hugePages nodeId in if rxc_cache c = None then s else s\<lparr>rns_cache := Some c\<rparr>)"

definition rns_front :: "('c, 'd) RxNUMAStorage \<Rightarrow> u32 option" where
  "rns_front s = (case rns_nodeset s of [] \<Rightarrow> None | n # _ \<Rightarrow> Some n)"

definition rns_createDatasets :: "('c, 'd) rx_env \<Rightarrow> bool \<Rightarrow> bool \<Rightarrow> ('c, 'd) RxNUMAStorage \<Rightarrow> (bool \<times> ('c, 'd) RxNUMAStorage) option" where
  "rns_createDatasets env hugePages oneGbPages s = do {
     let s = fold (rns_allocate env hugePages oneGbPages) (rns_nodeset s) s;
     front \<leftarrow> rns_front s;
     let required = rns_isCacheRequired s;
     let s = (if required then rns_allocateCache env front hugePages s else s);
     if required \<and> rns_cache s = None then Some (False, s)
     else if rns_datasets s = [] then do {
       c \<leftarrow> rns_cache s;
       Some (True, s\<lparr>rns_datasets := node_insert front (RxDataset_of_cache c) (rns_datasets s), rns_allocated := True\<rparr>)
     }
     else if rns_cache s \<noteq> None then do {
       k \<leftarrow> rns_key front s;
       Some (True, s\<lparr>rns_datasets := node_update k (\<lambda>d. d\<lparr>rxd_cache := rns_cache s\<rparr>) (rns_datasets s), rns_allocated := True\<rparr>)
     }
     else Some (True, s\<lparr>rns_allocated := True\<rparr>)
   }"

text \<open>The loop that looks for a dataset with a cache, and the copies of the primary dataset to the other nodes.\<close>

definition rns_primary :: "('c, 'd) RxNUMAStorage \<Rightarrow> u32" where
  "rns_primary s = foldl (\<lambda>i (k, d). if rxd_cache d \<noteq> None then k else i) 0 (rns_datasets s)"

definition rns_copyDatasets :: "u32 \<Rightarrow> 'd option \<Rightarrow> (u32 \<times> ('c, 'd) RxDataset) list \<Rightarrow> (u32 \<times> ('c, 'd) RxDataset) list option" where
  "rns_copyDatasets i raw xs =
     (if list_all (\<lambda>(k, d). k = i \<or> rxd_dataset d = None \<or> raw \<noteq> None) xs
      then Some (map (\<lambda>(k, d). (k, if k = i then d else setRaw (the raw) d)) xs) else None)"

definition rns_initDatasets :: "'c init_cache \<Rightarrow> ('c, 'd) init_dataset \<Rightarrow> RandomX_Configuration \<Rightarrow> ('c, 'd) RxNUMAStorage \<Rightarrow>
    ('c, 'd) RxNUMAStorage option" where
  "rns_initDatasets F E cfg s = do {
     let i = rns_primary s;
     k \<leftarrow> rns_key i s;
     d \<leftarrow> map_of (rns_datasets s) k;
     let d = snd (RxDataset_init F E cfg (rxs_data (rns_seed s)) d);
     let xs = node_update k (\<lambda>_. d) (rns_datasets s);
     xs \<leftarrow> (if length xs > 1 then rns_copyDatasets i (rxd_dataset d) xs else Some xs);
     Some (s\<lparr>rns_datasets := xs, rns_ready := True\<rparr>)
   }"

definition rns_isReady :: "RxSeed \<Rightarrow> ('c, 'd) RxNUMAStorage \<Rightarrow> bool" where
  "rns_isReady jb s \<longleftrightarrow> rns_ready s \<and> RxSeed_isEqual (rns_seed s) jb"

definition rns_get_dataset :: "RxSeed \<Rightarrow> u32 \<Rightarrow> ('c, 'd) RxNUMAStorage \<Rightarrow> ('c, 'd) RxDataset option option" where
  "rns_get_dataset jb nodeId s = (if \<not> rns_isReady jb s then Some None else map_option Some (rns_dataset nodeId s))"

definition rns_init :: "'c init_cache \<Rightarrow> ('c, 'd) init_dataset \<Rightarrow> ('c, 'd) rx_env \<Rightarrow> RxSeed \<Rightarrow> bool \<Rightarrow> bool \<Rightarrow> Mode \<Rightarrow>
    RandomX_Configuration \<Rightarrow> ('c, 'd) RxNUMAStorage \<Rightarrow> (RandomX_Configuration \<times> ('c, 'd) RxNUMAStorage) option" where
  "rns_init F E env seed hugePages oneGbPages mode cfg s = do {
     let (cfg, s) = rns_setSeed seed cfg s;
     (created, s) \<leftarrow> (if \<not> rns_allocated s then rns_createDatasets env hugePages oneGbPages s else Some (True, s));
     if \<not> created then Some (cfg, s)
     else do { s \<leftarrow> rns_initDatasets F E cfg s; Some (cfg, s) }
   }"

subsection \<open>Both storages keep the seed they are initialised for\<close>

text \<open>The configuration after \<open>setSeed\<close>.\<close>

definition config_after :: "RxSeed \<Rightarrow> RxSeed \<Rightarrow> RandomX_Configuration \<Rightarrow> RandomX_Configuration" where
  "config_after old seed cfg =
     (if rxs_algorithm old \<noteq> rxs_algorithm seed then RxAlgo_apply (rxs_algorithm seed) else cfg)"

lemma rbs_createDataset_Some:
  "rbs_createDataset env h o1 mode s = Some (b, s') \<Longrightarrow>
   rbs_seed s' = rbs_seed s \<and> rbs_ready s' = rbs_ready s \<and> (b \<longrightarrow> rbs_isAllocated s') \<and> (\<not> b \<longrightarrow> rbs_dataset s' = None)"
  by (auto simp: rbs_createDataset_def Let_def Option.bind_eq_Some_conv rbs_isAllocated_def split: if_splits)

lemma rbs_init_seed:
  "rbs_init F E env seed h o1 mode cfg s = Some (cfg', s') \<Longrightarrow> rbs_seed s' = seed \<and> cfg' = config_after (rbs_seed s) seed cfg"
  by (auto simp: rbs_init_def rbs_setSeed_def rbs_initDataset_def Let_def Option.bind_eq_Some_conv config_after_def
      split_beta split: if_splits dest!: rbs_createDataset_Some)

lemma rns_allocate_seed: "rns_seed (fold (rns_allocate env h o1) ns s) = rns_seed s"
  by (induction ns arbitrary: s) (simp_all add: rns_allocate_def Let_def)

lemma rns_createDatasets_seed: "rns_createDatasets env h o1 s = Some (b, s') \<Longrightarrow> rns_seed s' = rns_seed s"
  by (auto simp: rns_createDatasets_def rns_allocateCache_def Let_def Option.bind_eq_Some_conv rns_allocate_seed split: if_splits)

lemma rns_init_seed:
  "rns_init F E env seed h o1 mode cfg s = Some (cfg', s') \<Longrightarrow> rns_seed s' = seed \<and> cfg' = config_after (rns_seed s) seed cfg"
  by (auto simp: rns_init_def rns_setSeed_def rns_initDatasets_def Let_def Option.bind_eq_Some_conv config_after_def
      split_beta split: if_splits dest!: rns_createDatasets_seed)

lemma rbs_get_dataset_seed: "rbs_get_dataset jb n s = Some (Some d) \<Longrightarrow> rbs_ready s \<and> rbs_seed s = jb \<and> rbs_dataset s = Some d"
  by (auto simp: rbs_get_dataset_def rbs_isReady_def split: if_splits)

lemma rns_get_dataset_seed: "rns_get_dataset jb n s = Some (Some d) \<Longrightarrow> rns_ready s \<and> rns_seed s = jb \<and> rns_dataset n s = Some d"
  by (auto simp: rns_get_dataset_def rns_isReady_def split: if_splits)

text \<open>The basic storage never throws.\<close>

lemma RxDataset_new_cache: "\<exists>c. rxd_cache (RxDataset_new env h o1 True mode node) = Some c"
  by (simp add: RxDataset_new_def Let_def)

lemma rbs_init_returns: "\<exists>cfg' s'. rbs_init F E env seed h o1 mode cfg s = Some (cfg', s')"
proof -
  obtain c where c: "rxd_cache (RxDataset_new env h o1 True mode 0) = Some c" using RxDataset_new_cache by blast
  show ?thesis
    by (cases "rbs_dataset s")
      (auto simp: rbs_init_def rbs_setSeed_def rbs_createDataset_def rbs_initDataset_def Let_def split_beta c)
qed

lemma rbs_init_not_None: "rbs_init F E env seed h o1 mode cfg s \<noteq> None"
  using rbs_init_returns [of F E env seed h o1 mode cfg s] by auto

end
