(* ===== verification/Rx_Queue.thy ===== *)
theory Rx_Queue
  imports Rx_Storage
begin

text \<open>
  \<open>crypto/rx/RxQueue.cpp\<close>: the queue of seeds. The main thread enqueues the seed of each new job, and a background
  thread initialises the storage for the newest one. Every section under the mutex is one step; the thread runs
  \<open>IRxStorage::init\<close> outside the mutex, and the invariant shows that nobody is given the dataset meanwhile.
  The storage, its constructor and its virtual functions are arguments, as behind the interface \<open>IRxStorage\<close>; the locale
  \<open>rx_storage\<close> states what the queue needs of them, and both storages provide it.
\<close>

subsection \<open>The interface\<close>

record RxQueueItem =
  rqi_seed :: RxSeed
  rqi_nodeset :: "u32 list"
  rqi_threads :: u32
  rqi_hugePages :: bool
  rqi_oneGbPages :: bool
  rqi_mode :: Mode
  rqi_priority :: int

datatype ('c, 'd) IRxStorage = Basic "('c, 'd) RxBasicStorage" | NUMA "('c, 'd) RxNUMAStorage"

text \<open>The choice of the class in \<open>enqueue\<close>, with \<open>XMRIG_FEATURE_HWLOC\<close>.\<close>

definition storage_new :: "u32 list \<Rightarrow> ('c, 'd) IRxStorage" where
  "storage_new nodeset = (if nodeset \<noteq> [] then NUMA (RxNUMAStorage_new nodeset) else Basic RxBasicStorage_new)"

definition storage_init :: "'c init_cache \<Rightarrow> ('c, 'd) init_dataset \<Rightarrow> ('c, 'd) rx_env \<Rightarrow> RxQueueItem \<Rightarrow> RandomX_Configuration \<Rightarrow>
    ('c, 'd) IRxStorage \<Rightarrow> (RandomX_Configuration \<times> ('c, 'd) IRxStorage) option" where
  "storage_init F E env item cfg s =
     (case s of
        Basic b \<Rightarrow> map_option (\<lambda>(cfg, b). (cfg, Basic b))
                     (rbs_init F E env (rqi_seed item) (rqi_hugePages item) (rqi_oneGbPages item) (rqi_mode item) cfg b)
      | NUMA n \<Rightarrow> map_option (\<lambda>(cfg, n). (cfg, NUMA n))
                    (rns_init F E env (rqi_seed item) (rqi_hugePages item) (rqi_oneGbPages item) (rqi_mode item) cfg n))"

definition storage_isAllocated :: "('c, 'd) IRxStorage \<Rightarrow> bool" where
  "storage_isAllocated s = (case s of Basic b \<Rightarrow> rbs_isAllocated b | NUMA n \<Rightarrow> rns_allocated n)"

definition storage_dataset :: "RxSeed \<Rightarrow> u32 \<Rightarrow> ('c, 'd) IRxStorage \<Rightarrow> ('c, 'd) RxDataset option option" where
  "storage_dataset jb nodeId s = (case s of Basic b \<Rightarrow> rbs_get_dataset jb nodeId b | NUMA n \<Rightarrow> rns_get_dataset jb nodeId n)"

subsection \<open>The queue\<close>

datatype State = STATE_IDLE | STATE_PENDING | STATE_SHUTDOWN

text \<open>
  Where the background thread is: at the test of the loop, before the lock, in \<open>m_cv.wait\<close>, before and after
  \<open>m_storage->init\<close>, and at its end.
\<close>

datatype RxThread = Bg_Top | Bg_Lock | Bg_Wait | Bg_Init RxQueueItem | Bg_Done RxQueueItem | Bg_Exit

text \<open>\<open>rq_async\<close>: a pending \<open>m_async->send()\<close>; \<open>rq_calls\<close> counts \<open>onDatasetReady\<close>; \<open>rq_config\<close> is the global configuration.\<close>

record 's RxQueue =
  rq_listener :: bool
  rq_storage :: "'s option"
  rq_seed :: RxSeed
  rq_state :: State
  rq_queue :: "RxQueueItem list"
  rq_thread :: RxThread
  rq_async :: bool
  rq_calls :: nat
  rq_config :: RandomX_Configuration

definition RxQueue_new :: "bool \<Rightarrow> RandomX_Configuration \<Rightarrow> 's RxQueue" where
  "RxQueue_new listener cfg =
     \<lparr>rq_listener = listener, rq_storage = None, rq_seed = RxSeed_default, rq_state = STATE_IDLE, rq_queue = [],
      rq_thread = Bg_Top, rq_async = False, rq_calls = 0, rq_config = cfg\<rparr>"

text \<open>The first part of the destructor, up to the join of the thread.\<close>

definition rq_shutdown :: "'s RxQueue \<Rightarrow> 's RxQueue" where
  "rq_shutdown q = q\<lparr>rq_state := STATE_SHUTDOWN\<rparr>"

definition rq_enqueue :: "(u32 list \<Rightarrow> 's) \<Rightarrow> RxQueueItem \<Rightarrow> 's RxQueue \<Rightarrow> 's RxQueue" where
  "rq_enqueue new item q =
     (let q = (if rq_storage q = None then q\<lparr>rq_storage := Some (new (rqi_nodeset item))\<rparr> else q)
      in if rq_state q = STATE_PENDING \<and> RxSeed_isEqual (rq_seed q) (rqi_seed item) then q
         else q\<lparr>rq_queue := rq_queue q @ [item], rq_seed := rqi_seed item, rq_state := STATE_PENDING\<rparr>)"

definition isReadyUnsafe :: "('s \<Rightarrow> bool) \<Rightarrow> RxSeed \<Rightarrow> 's RxQueue \<Rightarrow> bool" where
  "isReadyUnsafe isAllocated seed q \<longleftrightarrow>
     (case rq_storage q of None \<Rightarrow> False | Some s \<Rightarrow> isAllocated s) \<and> rq_state q = STATE_IDLE \<and> RxSeed_isEqual (rq_seed q) seed"

definition rq_dataset :: "('s \<Rightarrow> bool) \<Rightarrow> (RxSeed \<Rightarrow> u32 \<Rightarrow> 's \<Rightarrow> 'a option option) \<Rightarrow> RxSeed \<Rightarrow> u32 \<Rightarrow> 's RxQueue \<Rightarrow> 'a option option" where
  "rq_dataset isAllocated dataset jb nodeId q =
     (if isReadyUnsafe isAllocated jb q then Option.bind (rq_storage q) (dataset jb nodeId) else Some None)"

text \<open>The part of \<open>backgroundInit\<close> after the wait, up to the unlock.\<close>

definition bg_take :: "'s RxQueue \<Rightarrow> 's RxQueue option" where
  "bg_take q =
     (if rq_state q \<noteq> STATE_PENDING then Some (q\<lparr>rq_thread := Bg_Top\<rparr>)
      else if rq_queue q = [] then None
      else Some (q\<lparr>rq_thread := Bg_Init (last (rq_queue q)), rq_queue := []\<rparr>))"

text \<open>One step of the background thread; in the wait it may also do nothing.\<close>

definition bg_step :: "(RxQueueItem \<Rightarrow> RandomX_Configuration \<Rightarrow> 's \<Rightarrow> (RandomX_Configuration \<times> 's) option) \<Rightarrow> 's RxQueue \<Rightarrow> 's RxQueue option" where
  "bg_step init q =
     (case rq_thread q of
        Bg_Top \<Rightarrow> Some (q\<lparr>rq_thread := (if rq_state q \<noteq> STATE_SHUTDOWN then Bg_Lock else Bg_Exit)\<rparr>)
      | Bg_Lock \<Rightarrow> if rq_state q = STATE_IDLE then Some (q\<lparr>rq_thread := Bg_Wait\<rparr>) else bg_take q
      | Bg_Wait \<Rightarrow> if rq_state q = STATE_IDLE then Some q else bg_take q
      | Bg_Init item \<Rightarrow> do {
          s \<leftarrow> rq_storage q;
          (cfg, s) \<leftarrow> init item (rq_config q) s;
          Some (q\<lparr>rq_storage := Some s, rq_config := cfg, rq_thread := Bg_Done item\<rparr>)
        }
      | Bg_Done item \<Rightarrow>
          if rq_state q = STATE_SHUTDOWN \<or> rq_queue q \<noteq> [] then Some (q\<lparr>rq_thread := Bg_Top\<rparr>)
          else Some (q\<lparr>rq_state := STATE_IDLE, rq_async := True, rq_thread := Bg_Top\<rparr>)
      | Bg_Exit \<Rightarrow> Some q)"

text \<open>\<open>onAsync\<close>, which calls \<open>onReady\<close>.\<close>

definition rq_onReady :: "'s RxQueue \<Rightarrow> 's RxQueue" where
  "rq_onReady q =
     (let q = q\<lparr>rq_async := False\<rparr>; ready = rq_listener q \<and> rq_state q = STATE_IDLE
      in if ready then q\<lparr>rq_calls := rq_calls q + 1\<rparr> else q)"

text \<open>
  \<open>Rx::init\<close> with \<open>XMRIG_ALGO_CN_HEAVY\<close>, without the tuning of the CPU: whether the miner may start at once, and
  the queue.
\<close>

definition Rx_init :: "(u32 list \<Rightarrow> 's) \<Rightarrow> ('s \<Rightarrow> bool) \<Rightarrow> RxQueueItem \<Rightarrow> 's RxQueue \<Rightarrow> bool \<times> 's RxQueue" where
  "Rx_init new isAllocated item q =
     (let f = family (rxs_algorithm (rqi_seed item))
      in if f \<noteq> RANDOM_X \<and> f \<noteq> CN_HEAVY then (True, q)
         else if f = CN_HEAVY then (True, q)
         else if isReadyUnsafe isAllocated (rqi_seed item) q then (True, q)
         else (False, rq_enqueue new item q))"

subsection \<open>The runs\<close>

text \<open>
  All states of a run, with the seeds enqueued so far: the main thread enqueues, handles the signal and at last
  shuts the queue down, and the background thread steps, on a platform that may change from step to step.
\<close>

inductive rq_reach :: "('e \<Rightarrow> RxQueueItem \<Rightarrow> RandomX_Configuration \<Rightarrow> 's \<Rightarrow> (RandomX_Configuration \<times> 's) option) \<Rightarrow> (u32 list \<Rightarrow> 's) \<Rightarrow>
    's RxQueue \<Rightarrow> RxSeed list \<Rightarrow> bool" for init new where
  start: "rq_reach init new (RxQueue_new listener cfg) []"
| enqueue: "rq_reach init new q seeds \<Longrightarrow> rq_state q \<noteq> STATE_SHUTDOWN \<Longrightarrow>
    rq_reach init new (rq_enqueue new item q) (rqi_seed item # seeds)"
| background: "rq_reach init new q seeds \<Longrightarrow> bg_step (init env) q = Some q' \<Longrightarrow> rq_reach init new q' seeds"
| signal: "rq_reach init new q seeds \<Longrightarrow> rq_async q \<Longrightarrow> rq_reach init new (rq_onReady q) seeds"
| shutdown: "rq_reach init new q seeds \<Longrightarrow> rq_reach init new (rq_shutdown q) seeds"

inductive_simps rq_reach_start: "rq_reach init new q []"

text \<open>The background thread alone, for \<open>n\<close> steps.\<close>

fun bg_run :: "(RxQueueItem \<Rightarrow> RandomX_Configuration \<Rightarrow> 's \<Rightarrow> (RandomX_Configuration \<times> 's) option) \<Rightarrow> nat \<Rightarrow> 's RxQueue \<Rightarrow> 's RxQueue option" where
  "bg_run init 0 q = Some q"
| "bg_run init (Suc n) q = Option.bind (bg_step init q) (bg_run init n)"

subsection \<open>What the queue needs of a storage\<close>

locale rx_storage =
  fixes init :: "'e \<Rightarrow> RxQueueItem \<Rightarrow> RandomX_Configuration \<Rightarrow> 's \<Rightarrow> (RandomX_Configuration \<times> 's) option"
    and new :: "u32 list \<Rightarrow> 's" and isAllocated :: "'s \<Rightarrow> bool"
    and dataset :: "RxSeed \<Rightarrow> u32 \<Rightarrow> 's \<Rightarrow> 'a option option" and seed :: "'s \<Rightarrow> RxSeed"
  assumes new_seed: "seed (new nodeset) = RxSeed_default"
    and init_seed: "init env item cfg s = Some (cfg', s') \<Longrightarrow> seed s' = rqi_seed item"
    and init_config: "init env item cfg s = Some (cfg', s') \<Longrightarrow>
      cfg' = (if rxs_algorithm (seed s) \<noteq> rxs_algorithm (rqi_seed item) then RxAlgo_apply (rxs_algorithm (rqi_seed item)) else cfg)"
    and dataset_seed: "dataset jb nodeId s = Some (Some d) \<Longrightarrow> seed s = jb"
begin

text \<open>The invariant of the queue: which seed the storage has, and which is still to come.\<close>

definition busy :: "'s RxQueue \<Rightarrow> bool" where
  "busy q \<longleftrightarrow> (\<exists>item. rq_thread q = Bg_Init item \<or> rq_thread q = Bg_Done item)"

definition stored :: "'s option \<Rightarrow> RxSeed" where
  "stored st = (case st of None \<Rightarrow> RxSeed_default | Some s \<Rightarrow> seed s)"

definition target :: "RxQueueItem list \<Rightarrow> RxThread \<Rightarrow> 's option \<Rightarrow> RxSeed" where
  "target items th st =
     (if items \<noteq> [] then rqi_seed (last items) else case th of Bg_Init item \<Rightarrow> rqi_seed item | _ \<Rightarrow> stored st)"

definition inv :: "'s RxQueue \<Rightarrow> bool" where
  "inv q \<longleftrightarrow> (rq_state q = STATE_IDLE \<longrightarrow> \<not> busy q \<and> rq_queue q = []) \<and>
     (rq_state q = STATE_PENDING \<longrightarrow> busy q \<or> rq_queue q \<noteq> []) \<and>
     (rq_state q = STATE_PENDING \<or> rq_queue q \<noteq> [] \<or> busy q \<longrightarrow> rq_storage q \<noteq> None) \<and>
     (rq_thread q = Bg_Exit \<longrightarrow> rq_state q = STATE_SHUTDOWN) \<and>
     target (rq_queue q) (rq_thread q) (rq_storage q) = rq_seed q \<and>
     (\<forall>item. rq_thread q = Bg_Done item \<longrightarrow> (\<exists>s. rq_storage q = Some s \<and> seed s = rqi_seed item)) \<and>
     (\<forall>s. rq_storage q = Some s \<longrightarrow> rxs_algorithm (seed s) \<noteq> INVALID \<longrightarrow> rq_config q = RxAlgo_apply (rxs_algorithm (seed s)))"

lemma target_simps [simp]:
  "items \<noteq> [] \<Longrightarrow> target items th st = rqi_seed (last items)"
  "target [] (Bg_Init item) st = rqi_seed item" "target [] (Bg_Done item) st = stored st" "target [] Bg_Top st = stored st"
  "target [] Bg_Lock st = stored st" "target [] Bg_Wait st = stored st" "target [] Bg_Exit st = stored st"
  "stored None = RxSeed_default" "stored (Some s) = seed s"
  by (simp_all add: target_def stored_def)

lemma target_idle: "\<not> (\<exists>item. th = Bg_Init item) \<Longrightarrow> target [] th st = stored st"
  by (cases th) simp_all

lemma inv_new: "inv (RxQueue_new listener cfg)"
  by (simp add: inv_def RxQueue_new_def busy_def)

lemma inv_enqueue:
  assumes "inv q" "rq_state q \<noteq> STATE_SHUTDOWN"
  shows "inv (rq_enqueue new item q)"
proof (cases "rq_storage q")
  case None
  then have "\<not> busy q" "rq_state q = STATE_IDLE" "rq_queue q = []" using assms by (cases "rq_state q"; auto simp: inv_def)+
  then show ?thesis using None assms(1) by (auto simp: inv_def rq_enqueue_def Let_def busy_def new_seed RxSeed_default_def)
next
  case (Some s)
  then show ?thesis using assms by (auto simp: inv_def rq_enqueue_def Let_def busy_def)
qed

lemma inv_take:
  assumes "inv q" "\<not> busy q" "bg_take q = Some q'"
  shows "inv q'"
proof (cases "rq_state q = STATE_PENDING")
  case True
  then have q': "rq_queue q \<noteq> []" "q' = q\<lparr>rq_thread := Bg_Init (last (rq_queue q)), rq_queue := []\<rparr>"
    using assms by (auto simp: bg_take_def inv_def)
  then show ?thesis using assms(1) True by (auto simp: inv_def busy_def)
next
  case False
  have th: "target items (rq_thread q) st = target items Bg_Top st" for items st
    using assms(2) by (cases "items = []") (auto simp: busy_def target_idle)
  show ?thesis using assms False th by (auto simp: bg_take_def inv_def busy_def)
qed

lemma inv_thread:
  assumes "inv q" "\<not> busy q" "\<not> (\<exists>item. th = Bg_Init item \<or> th = Bg_Done item)"
    and "th = Bg_Exit \<Longrightarrow> rq_state q = STATE_SHUTDOWN"
  shows "inv (q\<lparr>rq_thread := th\<rparr>)"
proof -
  have "target items (rq_thread q) st = target items th st" for items st
    using assms(2,3) by (cases "items = []") (auto simp: busy_def target_idle)
  then show ?thesis using assms by (auto simp: inv_def busy_def)
qed

lemma queue_inv_step:
  assumes "inv q" "bg_step (init env) q = Some q'"
  shows "inv q'"
proof (cases "rq_thread q")
  case (Bg_Init item)
  then obtain s cfg s' where s: "rq_storage q = Some s" "init env item (rq_config q) s = Some (cfg, s')"
    "q' = q\<lparr>rq_storage := Some s', rq_config := cfg, rq_thread := Bg_Done item\<rparr>"
    using assms(2) by (auto simp: bg_step_def Option.bind_eq_Some_conv)
  have "target (rq_queue q) (Bg_Done item) (Some s') = target (rq_queue q) (Bg_Init item) (Some s)"
    using init_seed [OF s(2)] by (cases "rq_queue q = []") simp_all
  then show ?thesis
    using assms(1) Bg_Init s init_seed [OF s(2)] init_config [OF s(2)]
    by (auto simp: inv_def busy_def split: if_splits)
next
  case (Bg_Done item)
  have th: "target items (Bg_Done item) st = target items Bg_Top st" for items st
    by (cases "items = []") simp_all
  show ?thesis using assms Bg_Done th by (auto simp: bg_step_def inv_def busy_def split: if_splits)
qed (use assms in \<open>auto simp: bg_step_def busy_def split: if_splits intro: inv_take inv_thread\<close>)

lemma inv_signal: "inv q \<Longrightarrow> inv (rq_onReady q)"
  by (auto simp: inv_def rq_onReady_def Let_def busy_def)

lemma inv_shutdown: "inv q \<Longrightarrow> inv (rq_shutdown q)"
  by (simp add: inv_def rq_shutdown_def busy_def)

lemma queue_reach_inv: "rq_reach init new q seeds \<Longrightarrow> inv q"
  by (induction rule: rq_reach.induct) (blast intro: inv_new inv_enqueue queue_inv_step inv_signal inv_shutdown)+

text \<open>A dataset that is handed out belongs to the seed of the job, and nobody is writing it.\<close>

lemma handed_out:
  assumes "rq_reach init new q seeds" "rq_dataset isAllocated dataset jb nodeId q = Some (Some d)"
  shows "\<exists>s. rq_storage q = Some s \<and> dataset jb nodeId s = Some (Some d) \<and> seed s = jb \<and> \<not> busy q \<and> rq_queue q = [] \<and>
    (rxs_algorithm jb \<noteq> INVALID \<longrightarrow> rq_config q = RxAlgo_apply (rxs_algorithm jb))"
  using queue_reach_inv [OF assms(1)] assms(2) dataset_seed
  by (auto simp: rq_dataset_def isReadyUnsafe_def inv_def split: if_splits option.splits)

text \<open>The background thread is never undefined on its own.\<close>

lemma step_defined:
  assumes "rq_reach init new q seeds" "bg_step (init env) q = None"
  shows "\<exists>item s. rq_thread q = Bg_Init item \<and> rq_storage q = Some s \<and> init env item (rq_config q) s = None"
proof (cases "rq_thread q")
  case (Bg_Init item)
  then obtain s where s: "rq_storage q = Some s" using queue_reach_inv [OF assms(1)] by (auto simp: inv_def busy_def)
  then show ?thesis using assms(2) Bg_Init by (cases "init env item (rq_config q) s") (auto simp: bg_step_def split_beta)
qed (use queue_reach_inv [OF assms(1)] assms(2) in \<open>auto simp: bg_step_def bg_take_def inv_def busy_def split: if_splits\<close>)

text \<open>
  Left alone, the thread initialises the storage for the newest seed within seven steps, unless the storage fails. It
  then sends its signal.
\<close>

definition settled :: "RxSeed \<Rightarrow> 's RxQueue \<Rightarrow> bool" where
  "settled sd q \<longleftrightarrow> rq_state q = STATE_IDLE \<and> rq_async q \<and> rq_seed q = sd \<and> (\<exists>s. rq_storage q = Some s \<and> seed s = sd)"

definition throws :: "'e \<Rightarrow> 's RxQueue \<Rightarrow> bool" where
  "throws env q \<longleftrightarrow> (\<exists>item s. rq_thread q = Bg_Init item \<and> rq_storage q = Some s \<and> init env item (rq_config q) s = None)"

definition settles :: "'e \<Rightarrow> nat \<Rightarrow> 's RxQueue \<Rightarrow> bool" where
  "settles env k q \<longleftrightarrow> (\<exists>n \<le> k. \<exists>q'. bg_run (init env) n q = Some q' \<and> (settled (rq_seed q) q' \<or> throws env q'))"

lemma settles_step:
  assumes "bg_step (init env) q = Some q1" "settles env k q1" "rq_seed q1 = rq_seed q"
  shows "settles env (Suc k) q"
proof -
  obtain n q' where "n \<le> k" "bg_run (init env) n q1 = Some q'" "settled (rq_seed q) q' \<or> throws env q'"
    using assms(2,3) by (auto simp: settles_def)
  then show ?thesis using assms(1) by (auto simp: settles_def intro!: exI [of _ "Suc n"])
qed

lemma settles_mono: "settles env k q \<Longrightarrow> k \<le> k' \<Longrightarrow> settles env k' q"
  unfolding settles_def by (meson le_trans)

lemma settles_done:
  assumes "inv q" "rq_thread q = Bg_Done item" "rq_state q = STATE_PENDING" "rq_queue q = []"
  shows "settles env 1 q"
  using assms by (auto simp: settles_def bg_step_def settled_def inv_def intro!: exI [of _ "Suc 0"])

lemma settles_init:
  assumes "inv q" "rq_thread q = Bg_Init item" "rq_state q = STATE_PENDING"
    and rest: "\<And>q1. inv q1 \<Longrightarrow> rq_thread q1 = Bg_Done item \<Longrightarrow> rq_state q1 = STATE_PENDING \<Longrightarrow> rq_queue q1 = rq_queue q \<Longrightarrow>
      settles env k q1"
  shows "settles env (Suc k) q"
proof -
  obtain s where s: "rq_storage q = Some s" using assms(1,2) by (auto simp: inv_def busy_def)
  show ?thesis
  proof (cases "init env item (rq_config q) s")
    case None
    then show ?thesis using s assms(2) by (auto simp: settles_def throws_def intro!: exI [of _ "0 :: nat"])
  next
    case (Some r)
    obtain cfg s' where r: "r = (cfg, s')" by (cases r)
    define q1 where "q1 = q\<lparr>rq_storage := Some s', rq_config := cfg, rq_thread := Bg_Done item\<rparr>"
    have q1: "bg_step (init env) q = Some q1" using assms(2) s Some r by (simp add: bg_step_def q1_def)
    show ?thesis
      using rest [OF queue_inv_step [OF assms(1) q1]] assms(3) by (intro settles_step [OF q1]) (simp_all add: q1_def)
  qed
qed

lemma settles_take:
  assumes "inv q" "rq_state q = STATE_PENDING" "rq_thread q = Bg_Lock \<or> rq_thread q = Bg_Wait"
  shows "settles env 3 q"
proof -
  define q1 where "q1 = q\<lparr>rq_thread := Bg_Init (last (rq_queue q)), rq_queue := []\<rparr>"
  have "rq_queue q \<noteq> []" using assms(1-3) by (auto simp: inv_def busy_def)
  then have q1: "bg_step (init env) q = Some q1" using assms(2,3) by (auto simp: bg_step_def bg_take_def q1_def)
  have "settles env (Suc 1) q1"
    by (rule settles_init [OF queue_inv_step [OF assms(1) q1] _ _ settles_done]) (simp_all add: q1_def assms(2))
  then show ?thesis using settles_step [OF q1, of 2] by (simp add: q1_def eval_nat_numeral)
qed

lemma settles_top:
  assumes "inv q" "rq_state q = STATE_PENDING" "rq_thread q = Bg_Top"
  shows "settles env 4 q"
proof -
  have q1: "bg_step (init env) q = Some (q\<lparr>rq_thread := Bg_Lock\<rparr>)" using assms(2,3) by (simp add: bg_step_def)
  show ?thesis
    using settles_step [OF q1 settles_take [OF queue_inv_step [OF assms(1) q1]]] assms(2) by (simp add: eval_nat_numeral)
qed

lemma settles_again:
  assumes "inv q" "rq_thread q = Bg_Done item" "rq_state q = STATE_PENDING" "rq_queue q \<noteq> []"
  shows "settles env 5 q"
proof -
  have q1: "bg_step (init env) q = Some (q\<lparr>rq_thread := Bg_Top\<rparr>)" using assms(2-4) by (simp add: bg_step_def)
  show ?thesis
    using settles_step [OF q1 settles_top [OF queue_inv_step [OF assms(1) q1]]] assms(3) by (simp add: eval_nat_numeral)
qed

lemma pending_settles:
  assumes reach: "rq_reach init new q seeds" and pend: "rq_state q = STATE_PENDING"
  shows "settles env 6 q"
proof -
  note inv = queue_reach_inv [OF reach]
  have fin: "settles env 5 q" if "inv q" "rq_thread q = Bg_Done item" "rq_state q = STATE_PENDING" for q item
    using that settles_done [of q item env] settles_again [of q item] settles_mono [of env 1 q 5]
    by (cases "rq_queue q = []") auto
  show ?thesis
  proof (cases "rq_thread q")
    case (Bg_Init item)
    show ?thesis using settles_init [OF inv Bg_Init pend, of env 5] fin by simp
  next
    case (Bg_Done item)
    then show ?thesis using fin inv pend settles_mono [of env 5 q 6] by auto
  next
    case Bg_Exit
    then show ?thesis using inv pend by (simp add: inv_def)
  qed (use settles_top [OF inv pend] settles_take [OF inv pend] settles_mono [of env 4 q 6] settles_mono [of env 3 q 6]
    in auto)
qed

end

subsection \<open>The storages of the miner provide the interface\<close>

definition storage_seed :: "('c, 'd) IRxStorage \<Rightarrow> RxSeed" where
  "storage_seed s = (case s of Basic b \<Rightarrow> rbs_seed b | NUMA n \<Rightarrow> rns_seed n)"

lemma storage_init_seed:
  "storage_init F E env item cfg s = Some (cfg', s') \<Longrightarrow>
   storage_seed s' = rqi_seed item \<and> cfg' = config_after (storage_seed s) (rqi_seed item) cfg"
  by (cases s) (auto simp: storage_init_def storage_seed_def dest!: rbs_init_seed rns_init_seed)

interpretation rx: rx_storage "storage_init F E" storage_new storage_isAllocated storage_dataset storage_seed
  by unfold_locales
    (auto simp: storage_new_def RxBasicStorage_new_def RxNUMAStorage_new_def storage_seed_def storage_dataset_def config_after_def
      dest!: storage_init_seed rbs_get_dataset_seed rns_get_dataset_seed split: IRxStorage.splits)

text \<open>C5. \<open>RxQueue::dataset\<close> never gives out a dataset that is being written or belongs to another job: whatever the
  main thread enqueues and however the background thread is interleaved with it, when a dataset is returned for a job, the storage was
  initialised for the seed of that job, the background thread is not inside \<open>IRxStorage::init\<close>, no other seed waits, and the
  configuration of RandomX is the one of the job's algorithm.\<close>

theorem queue_dataset_right:
  assumes "rq_reach (storage_init F E) storage_new q seeds"
    and "rq_dataset storage_isAllocated storage_dataset (RxSeed_of_job j) nodeId q = Some (Some d)"
  shows "(\<exists>s. rq_storage q = Some s \<and> storage_dataset (RxSeed_of_job j) nodeId s = Some (Some d) \<and> storage_seed s = RxSeed_of_job j) \<and>
    \<not> (\<exists>item. rq_thread q = Bg_Init item) \<and> rq_queue q = [] \<and>
    (m_algorithm j \<noteq> INVALID \<longrightarrow> rq_config q = RxAlgo_apply (m_algorithm j))"
  using rx.handed_out [OF assms] by (auto simp: rx.busy_def RxSeed_of_job_def)

text \<open>C10. The background thread is always defined outside the storage (it never takes the last element of an empty queue and never
  uses a null storage), and a pending queue settles: left alone for at most six steps, the thread has initialised the storage
  for the seed that was enqueued last, is idle and has sent its signal, unless \<open>IRxStorage::init\<close> throws, which the
  basic storage never does.\<close>

theorem queue_settles:
  assumes "rq_reach (storage_init F E) storage_new q seeds"
  shows "(bg_step (storage_init F E env) q = None \<longrightarrow>
      (\<exists>item n. rq_thread q = Bg_Init item \<and> rq_storage q = Some (NUMA n) \<and> storage_init F E env item (rq_config q) (NUMA n) = None)) \<and>
    (rq_state q = STATE_PENDING \<longrightarrow>
      (\<exists>n \<le> 6. \<exists>q' s. bg_run (storage_init F E env) n q = Some q' \<and> rq_storage q' = Some s \<and>
        (rq_state q' = STATE_IDLE \<and> rq_async q' \<and> rq_seed q' = rq_seed q \<and> storage_seed s = rq_seed q \<or>
         (\<exists>item n. rq_thread q' = Bg_Init item \<and> s = NUMA n \<and> storage_init F E env item (rq_config q') s = None))))"
proof -
  have numa: "\<exists>n. s = NUMA n" if "storage_init F E env item cfg s = None" for item cfg and s :: "('a, 'b) IRxStorage"
    using that by (cases s) (auto simp: storage_init_def rbs_init_not_None)
  show ?thesis
    using rx.step_defined [OF assms, of env] rx.pending_settles [OF assms, of env] numa
    unfolding rx.settles_def rx.settled_def rx.throws_def by (intro conjI impI) (metis, metis)
qed

end
