(* ===== verification/Rx_Contents.thy ===== *)
theory Rx_Contents
  imports Rx_Queue
begin

text \<open>
  What is in the memory that the queue of seeds gives out: the cache and the dataset of the basic storage belong to the
  algorithm and the seed of the job, as long as no two algorithms are used with the same seed bytes. With equal bytes
  \<open>RxCache::init\<close> keeps the cache of the other algorithm, which the last theorem shows. Also the errors
  of the NUMA storage and the scratchpads that a dataset in 1 GB pages provides.
\<close>

subsection \<open>The invariant of the basic storage\<close>

definition filled :: "'c init_cache \<Rightarrow> RxSeed list \<Rightarrow> bytes \<Rightarrow> 'c \<Rightarrow> bool" where
  "filled F seeds key mem \<longleftrightarrow>
     (\<exists>sd \<in> set seeds. rxs_data sd = key \<and> (\<exists>m. mem = F (RxAlgo_apply (rxs_algorithm sd)) key m))"

definition cache_content :: "'c init_cache \<Rightarrow> RxSeed list \<Rightarrow> 'c RxCache \<Rightarrow> bool" where
  "cache_content F seeds c \<longleftrightarrow> (\<exists>mem. rxc_cache c = Some mem \<and> (rxc_seed c = [] \<or> filled F seeds (rxc_seed c) mem))"

lemma filledI: "sd \<in> set seeds \<Longrightarrow> filled F seeds (rxs_data sd) (F (RxAlgo_apply (rxs_algorithm sd)) (rxs_data sd) m)"
  by (auto simp: filled_def)

definition ready_content :: "('c, 'd) init_dataset \<Rightarrow> RxSeed \<Rightarrow> ('c, 'd) RxDataset \<Rightarrow> bool" where
  "ready_content E sd d \<longleftrightarrow> (\<exists>c. rxd_cache d = Some c \<and> rxc_seed c = rxs_data sd \<and>
     (rxd_dataset d = None \<or> (\<exists>m. rxd_dataset d = Some (E (RxAlgo_apply (rxs_algorithm sd)) (the (rxc_cache c)) m))))"

definition basic_content :: "'c init_cache \<Rightarrow> ('c, 'd) init_dataset \<Rightarrow> RxSeed list \<Rightarrow> ('c, 'd) RxBasicStorage \<Rightarrow> bool" where
  "basic_content F E seeds b \<longleftrightarrow>
     (\<forall>d. rbs_dataset b = Some d \<longrightarrow> (\<exists>c. rxd_cache d = Some c \<and> cache_content F seeds c)) \<and>
     (rbs_ready b \<longrightarrow> rbs_seed b \<in> set seeds \<and> (\<exists>d. rbs_dataset b = Some d \<and> ready_content E (rbs_seed b) d))"

lemma cache_content_fresh: "rxc_cache (RxCache_create env node mem) \<noteq> None \<Longrightarrow> cache_content F seeds (RxCache_create env node mem)"
  by (auto simp: cache_content_def RxCache_create_def split: if_splits)

lemma RxDataset_new_content:
  assumes "rxd_cache (RxDataset_new env h o1 True mode node) = Some c" "rxc_cache c \<noteq> None"
  shows "cache_content F seeds c"
  using assms cache_content_fresh [of env node _ F seeds]
  by (auto simp: RxDataset_new_def Let_def RxCache_new_def split: if_splits)

lemma RxCache_init_content:
  assumes "cache_content F seeds c" "sd \<in> set seeds"
  shows "cache_content F seeds (snd (RxCache_init F (RxAlgo_apply (rxs_algorithm sd)) (rxs_data sd) c))"
    and "rxc_seed (snd (RxCache_init F cfg (rxs_data sd) c)) = rxs_data sd"
    and "rxc_cache c \<noteq> None"
  using assms by (auto simp: cache_content_def RxCache_init_def Let_def filledI)

lemma RxDataset_init_content:
  assumes "rxd_cache d = Some c" "cache_content F seeds c" "sd \<in> set seeds"
  shows "\<exists>c'. rxd_cache (snd (RxDataset_init F E (RxAlgo_apply (rxs_algorithm sd)) (rxs_data sd) d)) = Some c' \<and> cache_content F seeds c'"
    and "ready_content E sd (snd (RxDataset_init F E (RxAlgo_apply (rxs_algorithm sd)) (rxs_data sd) d))"
  using assms(1) RxCache_init_content [OF assms(2,3)]
  by (auto simp: RxDataset_init_def Let_def ready_content_def split: option.splits)

lemma rbs_init_content:
  assumes b: "basic_content F E seeds b" and sd: "sd \<in> set seeds"
    and cfg: "config_after (rbs_seed b) sd cfg = RxAlgo_apply (rxs_algorithm sd)"
    and init: "rbs_init F E env sd h o1 mode cfg b = Some (cfg', b')"
  shows "basic_content F E seeds b'"
proof -
  define b1 where "b1 = b\<lparr>rbs_ready := False, rbs_seed := sd\<rparr>"
  have b1: "basic_content F E seeds b1" "rbs_seed b1 = sd" using b by (simp_all add: basic_content_def b1_def)
  have set: "rbs_setSeed sd cfg b = (RxAlgo_apply (rxs_algorithm sd), b1)"
    using cfg by (simp add: rbs_setSeed_def config_after_def b1_def)
  have fin: "basic_content F E seeds b'"
    if "rbs_dataset b2 = Some d" "rxd_cache d = Some c" "cache_content F seeds c" "rbs_seed b2 = sd"
      "rbs_initDataset F E (RxAlgo_apply (rxs_algorithm sd)) b2 = Some b'" for b2 d c
    using that(1,4,5) sd RxDataset_init_content [OF that(2,3) sd, of E]
    by (auto simp: rbs_initDataset_def basic_content_def split_beta)
  show ?thesis
  proof (cases "rbs_dataset b1")
    case None
    let ?d = "RxDataset_new env h o1 True mode 0"
    obtain c where c: "rxd_cache ?d = Some c" using RxDataset_new_cache by blast
    show ?thesis
    proof (cases "rxc_cache c = None")
      case True
      then have "b' = b1\<lparr>rbs_dataset := None\<rparr>"
        using None init c by (simp add: rbs_init_def set rbs_createDataset_def Let_def)
      then show ?thesis by (simp add: basic_content_def b1_def)
    next
      case False
      then have "rbs_initDataset F E (RxAlgo_apply (rxs_algorithm sd)) (b1\<lparr>rbs_dataset := Some ?d\<rparr>) = Some b'"
        using None init c by (auto simp: rbs_init_def set rbs_createDataset_def Let_def Option.bind_eq_Some_conv)
      then show ?thesis using fin [of "b1\<lparr>rbs_dataset := Some ?d\<rparr>" ?d c] c RxDataset_new_content [OF c False] b1(2) by simp
    qed
  next
    case (Some d)
    then obtain c where "rxd_cache d = Some c" "cache_content F seeds c" using b1(1) by (auto simp: basic_content_def)
    then show ?thesis using init Some b1(2) fin by (auto simp: rbs_init_def set Option.bind_eq_Some_conv)
  qed
qed

text \<open>Along every run.\<close>

definition content_inv :: "'c init_cache \<Rightarrow> ('c, 'd) init_dataset \<Rightarrow> RxSeed list \<Rightarrow> ('c, 'd) IRxStorage RxQueue \<Rightarrow> bool" where
  "content_inv F E seeds q \<longleftrightarrow> (\<forall>item \<in> set (rq_queue q). rqi_seed item \<in> set seeds) \<and>
     (\<forall>item. rq_thread q = Bg_Init item \<longrightarrow> rqi_seed item \<in> set seeds) \<and>
     (\<forall>b. rq_storage q = Some (Basic b) \<longrightarrow> basic_content F E seeds b)"

lemma cache_content_mono: "cache_content F seeds c \<Longrightarrow> cache_content F (sd # seeds) c"
  by (auto simp: cache_content_def filled_def)

lemma basic_content_mono: "basic_content F E seeds b \<Longrightarrow> basic_content F E (sd # seeds) b"
  unfolding basic_content_def by (auto dest!: spec intro: cache_content_mono)

lemma content_enqueue: "content_inv F E seeds q \<Longrightarrow> content_inv F E (rqi_seed item # seeds) (rq_enqueue storage_new item q)"
  by (auto simp: content_inv_def rq_enqueue_def Let_def storage_new_def RxBasicStorage_new_def basic_content_mono
      split: if_splits) (simp_all add: basic_content_def)

lemma content_take:
  "content_inv F E seeds q \<Longrightarrow> bg_take q = Some q' \<Longrightarrow> content_inv F E seeds q'"
  by (auto simp: content_inv_def bg_take_def split: if_splits)

lemma content_thread:
  "content_inv F E seeds q \<Longrightarrow> \<not> (\<exists>item. th = Bg_Init item) \<Longrightarrow> content_inv F E seeds (q\<lparr>rq_thread := th\<rparr>)"
  by (auto simp: content_inv_def)

lemma content_step:
  assumes reach: "rq_reach (storage_init F E) storage_new q seeds" and inv: "content_inv F E seeds q"
    and valid: "\<forall>sd \<in> set seeds. rxs_algorithm sd \<noteq> INVALID"
    and step: "bg_step (storage_init F E env) q = Some q'"
  shows "content_inv F E seeds q'"
proof (cases "rq_thread q")
  case (Bg_Init item)
  then obtain s cfg s' where s: "rq_storage q = Some s" "storage_init F E env item (rq_config q) s = Some (cfg, s')"
    "q' = q\<lparr>rq_storage := Some s', rq_config := cfg, rq_thread := Bg_Done item\<rparr>"
    using step by (auto simp: bg_step_def Option.bind_eq_Some_conv)
  have sd: "rqi_seed item \<in> set seeds" using inv Bg_Init by (simp add: content_inv_def)
  have "config_after (storage_seed s) (rqi_seed item) (rq_config q) = RxAlgo_apply (rxs_algorithm (rqi_seed item))"
    using rx.queue_reach_inv [OF reach] s(1) valid sd by (auto simp: rx.inv_def config_after_def)
  then have "basic_content F E seeds b'" if "s' = Basic b'" for b'
    using that s inv rbs_init_content [OF _ sd, of F E _ "rq_config q" env] by (auto simp: storage_init_def storage_seed_def content_inv_def split: IRxStorage.splits)
  then show ?thesis using inv s by (auto simp: content_inv_def)
next
  case (Bg_Done item)
  then show ?thesis using step inv by (auto simp: bg_step_def content_inv_def split: if_splits)
qed (use step inv content_take [OF inv] content_thread [OF inv] in \<open>auto simp: bg_step_def split: if_splits\<close>)

lemma reach_content:
  "rq_reach (storage_init F E) storage_new q seeds \<Longrightarrow> \<forall>sd \<in> set seeds. rxs_algorithm sd \<noteq> INVALID \<Longrightarrow> content_inv F E seeds q"
proof (induction rule: rq_reach.induct)
  case (start listener cfg)
  then show ?case by (simp add: content_inv_def RxQueue_new_def)
next
  case (enqueue q seeds item)
  then show ?case by (simp add: content_enqueue)
next
  case (background q seeds env q')
  then show ?case using content_step by blast
next
  case (signal q seeds)
  then show ?case by (simp add: content_inv_def rq_onReady_def Let_def)
next
  case (shutdown q seeds)
  then show ?case by (simp add: content_inv_def rq_shutdown_def)
qed

text \<open>C11. The memory behind a dataset that the queue gives out is the one of the job, for the basic storage: if every seed of the run has
  a valid algorithm and some bytes, and no two algorithms come with the same bytes, then the cache holds the result of
  \<open>randomx_init_cache\<close> under the configuration of the job's algorithm on the seed of the job, and the dataset,
  if there is one, the result of its initialisation from that cache.\<close>

theorem queue_contents:
  assumes "rq_reach (storage_init F E) storage_new q seeds"
    and "\<forall>sd \<in> set seeds. rxs_algorithm sd \<noteq> INVALID \<and> rxs_data sd \<noteq> []"
    and "\<forall>a \<in> set seeds. \<forall>b \<in> set seeds. rxs_data a = rxs_data b \<longrightarrow> rxs_algorithm a = rxs_algorithm b"
    and "rq_storage q = Some (Basic b)"
    and "rq_dataset storage_isAllocated storage_dataset (RxSeed_of_job j) nodeId q = Some (Some d)"
  shows "\<exists>c m. rxd_cache d = Some c \<and> rxc_cache c = Some (F (RxAlgo_apply (m_algorithm j)) (m_seed j) m) \<and>
    (rxd_dataset d = None \<or>
     (\<exists>m0. rxd_dataset d = Some (E (RxAlgo_apply (m_algorithm j)) (F (RxAlgo_apply (m_algorithm j)) (m_seed j) m) m0)))"
proof -
  have b: "basic_content F E seeds b" using reach_content [OF assms(1)] assms(2,4) by (simp add: content_inv_def)
  have d: "rbs_ready b" "rbs_seed b = RxSeed_of_job j" "rbs_dataset b = Some d"
    using rx.handed_out [OF assms(1,5)] assms(4) rbs_get_dataset_seed [of "RxSeed_of_job j" nodeId b d]
    by (auto simp: storage_dataset_def)
  then have r: "ready_content E (RxSeed_of_job j) d" and mem: "RxSeed_of_job j \<in> set seeds"
    and cc: "\<exists>c. rxd_cache d = Some c \<and> cache_content F seeds c" using b by (auto simp: basic_content_def)
  obtain c where c: "rxd_cache d = Some c" "rxc_seed c = rxs_data (RxSeed_of_job j)"
    "rxd_dataset d = None \<or> (\<exists>m. rxd_dataset d = Some (E (RxAlgo_apply (rxs_algorithm (RxSeed_of_job j))) (the (rxc_cache c)) m))"
    using r unfolding ready_content_def by blast
  note c = c [unfolded RxSeed_of_job_def RxSeed.simps] and cc = cc [unfolded c(1) option.inject]
  have "m_seed j \<noteq> []" using assms(2) mem by (auto simp: RxSeed_of_job_def)
  then obtain sd m where "sd \<in> set seeds" "rxs_data sd = m_seed j" "rxc_cache c = Some (F (RxAlgo_apply (rxs_algorithm sd)) (m_seed j) m)"
    using c(2) cc by (auto simp: cache_content_def filled_def)
  moreover have "rxs_algorithm sd = m_algorithm j"
    using assms(3) mem \<open>sd \<in> set seeds\<close> \<open>rxs_data sd = m_seed j\<close> by (force simp: RxSeed_of_job_def)
  ultimately show ?thesis using c by auto
qed

subsection \<open>A run\<close>

lemma reach_run:
  "rq_reach init new q seeds \<Longrightarrow> bg_run (init env) n q = Some q' \<Longrightarrow> rq_reach init new q' seeds"
  by (induction n arbitrary: q) (auto simp: Option.bind_eq_Some_conv intro: rq_reach.background)

text \<open>A platform that grants every allocation but the one in 1 GB pages, and two items.\<close>

definition rx_platform :: "'c \<Rightarrow> 'd \<Rightarrow> ('c, 'd) rx_env" where
  "rx_platform c d = \<lparr>env_total_memory = 2 ^ 34, env_onegb = (\<lambda>_ _. False), env_large = (\<lambda>_ _. True), env_malloc = (\<lambda>_ _. True),
     env_bind = (\<lambda>_. True), env_jit = (\<lambda>_. True), env_plain = (\<lambda>_. True), env_cache_memory = c, env_dataset_memory = d\<rparr>"

definition rx_item :: "Id \<Rightarrow> bytes \<Rightarrow> RxQueueItem" where
  "rx_item i key = \<lparr>rqi_seed = \<lparr>rxs_algorithm = i, rxs_data = key\<rparr>, rqi_nodeset = [], rqi_threads = 4, rqi_hugePages = True,
     rqi_oneGbPages = False, rqi_mode = FastMode, rqi_priority = 0\<rparr>"

definition rx_basic :: "Id \<Rightarrow> bytes \<Rightarrow> 'c \<Rightarrow> 'd \<Rightarrow> ('c, 'd) RxBasicStorage" where
  "rx_basic i key c d =
     \<lparr>rbs_ready = True,
      rbs_dataset = Some \<lparr>rxd_mode = FastMode, rxd_node = 0, rxd_dataset = Some d,
        rxd_cache = Some \<lparr>rxc_jit = True, rxc_seed = key, rxc_cache = Some c\<rparr>, rxd_scratchpadLimit = 0,
        rxd_scratchpadOffset = 0, rxd_memory = Some \<lparr>vm_raw = True, vm_isOneGbPages = False, vm_capacity = 2181038080\<rparr>\<rparr>,
      rbs_seed = \<lparr>rxs_algorithm = i, rxs_data = key\<rparr>\<rparr>"

definition rx_filled :: "nat \<Rightarrow> RandomX_Configuration \<Rightarrow> Id \<Rightarrow> bytes \<Rightarrow> ('c, 'd) RxBasicStorage \<Rightarrow> ('c, 'd) IRxStorage RxQueue" where
  "rx_filled n cfg i key b =
     \<lparr>rq_listener = True, rq_storage = Some (Basic b),
      rq_seed = \<lparr>rxs_algorithm = i, rxs_data = key\<rparr>, rq_state = STATE_IDLE, rq_queue = [], rq_thread = Bg_Top, rq_async = True,
      rq_calls = n, rq_config = cfg\<rparr>"

lemma rbs_init_fresh:
  assumes "i \<noteq> INVALID" "key \<noteq> []"
  shows "rbs_init F E (rx_platform c d) \<lparr>rxs_algorithm = i, rxs_data = key\<rparr> True False FastMode cfg RxBasicStorage_new =
    Some (RxAlgo_apply i, rx_basic i key (F (RxAlgo_apply i) key c) (E (RxAlgo_apply i) (F (RxAlgo_apply i) key c) d))"
proof -
  have "RxDataset_new (rx_platform c d) True False True FastMode 0 = the (rbs_dataset (rx_basic i [] c d))"
    by (simp add: RxDataset_new_def RxDataset_allocate_def RxDataset_isOneGbPages_def VirtualMemory_new_def rx_platform_def
        RxCache_new_def RxCache_create_def Let_def rx_basic_def VirtualMemory_align_def RANDOMX_DATASET_MAX_SIZE_def)
  then show ?thesis
    using assms by (simp add: rbs_init_def rbs_setSeed_def Let_def rbs_createDataset_def rbs_initDataset_def RxBasicStorage_new_def
        RxSeed_default_def rx_basic_def RxDataset_init_def RxCache_init_def)
qed

text \<open>With the same bytes the cache stays what it is.\<close>

lemma rbs_init_same:
  assumes "i' \<noteq> i"
  shows "rbs_init F E env \<lparr>rxs_algorithm = i', rxs_data = key\<rparr> True False FastMode cfg (rx_basic i key c d) =
    Some (RxAlgo_apply i', rx_basic i' key c (E (RxAlgo_apply i') c d))"
  using assms by (simp add: rbs_init_def rbs_setSeed_def Let_def rbs_initDataset_def rx_basic_def RxDataset_init_def RxCache_init_def)

lemma four_steps: "bg_run init 4 q = Option.bind (bg_step init q) (\<lambda>q. Option.bind (bg_step init q) (\<lambda>q.
    Option.bind (bg_step init q) (bg_step init)))"
proof -
  have Suc: "bg_run init (Suc n) = (\<lambda>q. Option.bind (bg_step init q) (bg_run init n))" for n by (rule ext) simp
  have zero: "bg_run init 0 = Some" by (rule ext) simp
  show ?thesis by (simp add: numeral_eq_Suc Suc zero del: bg_run.simps)
qed

lemma first_run:
  assumes "i \<noteq> INVALID" "key \<noteq> []"
  shows "bg_run (storage_init F E (rx_platform c d)) 4 (rq_enqueue storage_new (rx_item i key) (RxQueue_new True cfg)) =
    Some (rx_filled 0 (RxAlgo_apply i) i key (rx_basic i key (F (RxAlgo_apply i) key c) (E (RxAlgo_apply i) (F (RxAlgo_apply i) key c) d)))"
  using rbs_init_fresh [OF assms, of F E c d cfg]
  by (simp add: four_steps rq_enqueue_def rx_item_def RxQueue_new_def storage_new_def Let_def bg_step_def bg_take_def storage_init_def
      rx_filled_def)

lemma second_run:
  assumes "i' \<noteq> i"
  shows "bg_run (storage_init F E env) 4 (rq_enqueue storage_new (rx_item i' key) (rx_filled n cfg i key (rx_basic i key c d))) =
    Some (rx_filled n (RxAlgo_apply i') i' key (rx_basic i' key c (E (RxAlgo_apply i') c d)))"
  using rbs_init_same [OF assms, of F E env key cfg c d]
  by (simp add: four_steps rq_enqueue_def rx_item_def Let_def bg_step_def bg_take_def storage_init_def rx_filled_def)

lemma filled_dataset:
  "rq_dataset storage_isAllocated storage_dataset \<lparr>rxs_algorithm = i, rxs_data = key\<rparr> nodeId (rx_filled n cfg i key (rx_basic i key c d)) =
   Some (rbs_dataset (rx_basic i key c d))"
  by (simp add: rq_dataset_def isReadyUnsafe_def rx_filled_def rx_basic_def storage_isAllocated_def storage_dataset_def
      rbs_isAllocated_def rbs_get_dataset_def rbs_isReady_def)

lemma first_reach:
  assumes "i \<noteq> INVALID" "key \<noteq> []"
  shows "rq_reach (storage_init F E) storage_new (rx_filled 0 (RxAlgo_apply i) i key
      (rx_basic i key (F (RxAlgo_apply i) key c) (E (RxAlgo_apply i) (F (RxAlgo_apply i) key c) d))) [\<lparr>rxs_algorithm = i, rxs_data = key\<rparr>]"
  using reach_run [where init = "storage_init F E", OF rq_reach.enqueue [where init = "storage_init F E" and item = "rx_item i key",
    OF rq_reach.start [of _ _ True RandomX_ConfigurationBase]] first_run [OF assms, of F E c d]]
  by (simp add: rx_item_def RxQueue_new_def)

lemma second_reach:
  assumes "i \<noteq> INVALID" "i' \<noteq> i" "key \<noteq> []"
  shows "rq_reach (storage_init F E) storage_new (rx_filled 0 (RxAlgo_apply i') i' key
      (rx_basic i' key (F (RxAlgo_apply i) key c) (E (RxAlgo_apply i') (F (RxAlgo_apply i) key c)
        (E (RxAlgo_apply i) (F (RxAlgo_apply i) key c) d))))
    [\<lparr>rxs_algorithm = i', rxs_data = key\<rparr>, \<lparr>rxs_algorithm = i, rxs_data = key\<rparr>]"
  using reach_run [where init = "storage_init F E", OF rq_reach.enqueue [where item = "rx_item i' key", OF first_reach [OF assms(1,3)]]
    second_run [OF assms(2), of F E]]
  by (simp add: rx_item_def rx_filled_def)

text \<open>C37. With the bytes of the seed of another algorithm the queue gives out a wrong dataset: the miner initialises \<open>RX_0\<close> for some
  bytes, then \<open>RX_WOW\<close> for the same bytes, and the queue says that it is ready for the second, but the cache is still
  filled under the configuration of \<open>RX_0\<close>, because \<open>RxCache::init\<close> compares only the bytes, and the dataset of
  \<open>RX_WOW\<close> is made from it.\<close>

theorem same_bytes_stale_cache:
  fixes F :: "'c init_cache" and E :: "('c, 'd) init_dataset" and c0 :: 'c and d0 :: 'd
  shows "\<exists>q d c mem0. rq_reach (storage_init F E) storage_new q
      [\<lparr>rxs_algorithm = RX_WOW, rxs_data = [1]\<rparr>, \<lparr>rxs_algorithm = RX_0, rxs_data = [1]\<rparr>] \<and>
    rq_dataset storage_isAllocated storage_dataset \<lparr>rxs_algorithm = RX_WOW, rxs_data = [1]\<rparr> 0 q = Some (Some d) \<and>
    rxd_cache d = Some c \<and> rxc_cache c = Some (F (RxAlgo_apply RX_0) [1] c0) \<and>
    rxd_dataset d = Some (E (RxAlgo_apply RX_WOW) (F (RxAlgo_apply RX_0) [1] c0) mem0)"
  using second_reach [of RX_0 RX_WOW "[1]" F E c0 d0]
  by (intro exI conjI) (auto simp: filled_dataset, auto simp: rx_basic_def)

text \<open>The run above for one algorithm, with the cache made of the seed bytes and the dataset of the cache.\<close>

definition rx_job :: job where
  "rx_job = (job_init False RX_0 [])\<lparr>m_seed := [1, 2]\<rparr>"

lemma rx_job_seed: "RxSeed_of_job rx_job = \<lparr>rxs_algorithm = RX_0, rxs_data = [1, 2]\<rparr>"
  by (simp add: RxSeed_of_job_def rx_job_def job_init_def)

definition rx_example :: "(bytes, bytes) IRxStorage RxQueue" where
  "rx_example = rx_filled 0 (RxAlgo_apply RX_0) RX_0 [1, 2] (rx_basic RX_0 [1, 2] [1, 2, 3] [1, 2, 3, 4])"

lemma rx_example_reach:
  "rq_reach (storage_init (\<lambda>cfg key m. key @ m) (\<lambda>cfg c m. c @ m)) storage_new rx_example [\<lparr>rxs_algorithm = RX_0, rxs_data = [1, 2]\<rparr>]"
  using first_reach [of RX_0 "[1, 2]" "\<lambda>cfg key m. key @ m" "\<lambda>cfg c m. c @ m" "[3]" "[4]"] by (simp add: rx_example_def)

lemma rx_example_dataset:
  "rq_dataset storage_isAllocated storage_dataset (RxSeed_of_job rx_job) 0 rx_example = Some (rbs_dataset (rx_basic RX_0 [1, 2] [1, 2, 3] [1, 2, 3, 4]))"
  by (simp add: rx_job_seed rx_example_def filled_dataset)

theorem queue_dataset_right_witness:
  "\<exists>s d. rq_storage rx_example = Some s \<and> storage_dataset (RxSeed_of_job rx_job) 0 s = Some (Some d) \<and>
     rq_config rx_example = RxAlgo_apply RX_0"
proof -
  obtain d where d: "rbs_dataset (rx_basic RX_0 [1, 2] [1, 2, 3 :: u8] [1, 2, 3, 4 :: u8]) = Some d" by (simp add: rx_basic_def)
  show ?thesis
    using queue_dataset_right [OF rx_example_reach, of rx_job 0 d] rx_example_dataset d
    by (auto simp: rx_job_def job_init_def)
qed

definition rx_pending :: "(bytes, bytes) IRxStorage RxQueue" where
  "rx_pending = rq_enqueue storage_new (rx_item RX_WOW [5]) rx_example"

theorem queue_settles_witness:
  "rq_state rx_pending = STATE_PENDING \<and>
   (\<exists>n \<le> 6. \<exists>q' s. bg_run (storage_init (\<lambda>cfg key m. key @ m) (\<lambda>cfg c m. c @ m) (rx_platform [] [])) n rx_pending = Some q' \<and>
      rq_storage q' = Some s \<and>
      (rq_state q' = STATE_IDLE \<and> rq_async q' \<and> rq_seed q' = rq_seed rx_pending \<and> storage_seed s = rq_seed rx_pending \<or>
       (\<exists>item n. rq_thread q' = Bg_Init item \<and> s = NUMA n \<and>
          storage_init (\<lambda>cfg key m. key @ m) (\<lambda>cfg c m. c @ m) (rx_platform [] []) item (rq_config q') s = None)))"
proof -
  have reach: "rq_reach (storage_init (\<lambda>cfg key m. key @ m) (\<lambda>cfg c m. c @ m)) storage_new rx_pending
      (rqi_seed (rx_item RX_WOW [5]) # [\<lparr>rxs_algorithm = RX_0, rxs_data = [1, 2]\<rparr>])"
    unfolding rx_pending_def
    by (rule rq_reach.enqueue [OF rx_example_reach]) (simp add: rx_example_def rx_filled_def)
  have "rq_state rx_pending = STATE_PENDING"
    by (simp add: rx_pending_def rq_enqueue_def rx_example_def rx_filled_def rx_item_def Let_def)
  then show ?thesis using queue_settles [OF reach, of "rx_platform [] []"] by simp
qed

theorem queue_contents_witness:
  "\<exists>d c m. rbs_dataset (rx_basic RX_0 [1, 2] [1, 2, 3 :: u8] [1, 2, 3, 4 :: u8]) = Some d \<and> rxd_cache d = Some c \<and>
    rxc_cache c = Some ([1, 2] @ m)"
proof -
  obtain d where d: "rbs_dataset (rx_basic RX_0 [1, 2] [1, 2, 3 :: u8] [1, 2, 3, 4 :: u8]) = Some d" by (simp add: rx_basic_def)
  have st: "rq_storage rx_example = Some (Basic (rx_basic RX_0 [1, 2] [1, 2, 3] [1, 2, 3, 4]))"
    by (simp add: rx_example_def rx_filled_def)
  show ?thesis
    using queue_contents [OF rx_example_reach _ _ st, of rx_job 0 d] rx_example_dataset d
    by (auto simp: rx_job_def job_init_def)
qed

subsection \<open>The errors of the NUMA storage\<close>

text \<open>Whether the thread of a node gets a dataset, without 1 GB pages.\<close>

definition node_ok :: "('c, 'd) rx_env \<Rightarrow> bool \<Rightarrow> u32 \<Rightarrow> bool" where
  "node_ok env hugePages k \<longleftrightarrow> env_bind env k \<and> vm_raw (VirtualMemory_new env RANDOMX_DATASET_MAX_SIZE hugePages False k)"

definition node_dataset :: "u32 \<times> ('c, 'd) RxDataset \<Rightarrow> bool" where
  "node_dataset e \<longleftrightarrow> \<not> RxDataset_isOneGbPages (snd e) \<and> rxd_cache (snd e) = None \<and> rxd_dataset (snd e) \<noteq> None"

lemma map_of_node_insert: "map_of (node_insert k v xs) j \<noteq> None \<longleftrightarrow> j = k \<or> map_of xs j \<noteq> None"
  by (induction k v xs rule: node_insert.induct) auto

lemma set_node_insert: "set (node_insert k v xs) \<subseteq> insert (k, v) (set xs)"
  by (induction k v xs rule: node_insert.induct) auto

lemma map_of_node_update: "map_of (node_update k f xs) j = map_option (if j = k then f else (\<lambda>v. v)) (map_of xs j)"
  by (induction xs) (auto simp: node_update_def)

lemma new_node_dataset:
  "\<not> RxDataset_isOneGbPages (RxDataset_new env h False False FastMode k)" "rxd_cache (RxDataset_new env h False False FastMode k) = None"
  "rxd_dataset (RxDataset_new env h False False FastMode k) \<noteq> None \<longleftrightarrow> vm_raw (VirtualMemory_new env RANDOMX_DATASET_MAX_SIZE h False k)"
  by (simp_all add: RxDataset_new_def RxDataset_allocate_def RxDataset_isOneGbPages_def VirtualMemory_new_def Let_def)

lemma allocate_nodes:
  assumes "\<forall>e \<in> set (rns_datasets s). node_dataset e"
  shows "(\<forall>e \<in> set (rns_datasets (fold (rns_allocate env h False) ns s)). node_dataset e) \<and>
    (\<forall>k. map_of (rns_datasets (fold (rns_allocate env h False) ns s)) k \<noteq> None \<longleftrightarrow>
       map_of (rns_datasets s) k \<noteq> None \<or> k \<in> set ns \<and> node_ok env h k)"
  using assms
proof (induction ns arbitrary: s)
  case (Cons n ns)
  define s1 where "s1 = rns_allocate env h False n s"
  have "\<forall>e \<in> set (rns_datasets s1). node_dataset e"
    using Cons.prems set_node_insert [of n "RxDataset_new env h False False FastMode n" "rns_datasets s"]
    by (auto simp: s1_def rns_allocate_def Let_def node_dataset_def new_node_dataset)
  moreover have "map_of (rns_datasets s1) k \<noteq> None \<longleftrightarrow> map_of (rns_datasets s) k \<noteq> None \<or> k = n \<and> node_ok env h n" for k
    using map_of_node_insert [of n "RxDataset_new env h False False FastMode n" "rns_datasets s" k] new_node_dataset(3) [of env h n]
    by (auto simp: s1_def rns_allocate_def Let_def node_ok_def)
  ultimately show ?case using Cons.IH [of s1] by (auto simp: s1_def)
qed simp

lemma allocate_rest:
  "rns_nodeset (fold (rns_allocate env h o1) ns s) = rns_nodeset s" "rns_cache (fold (rns_allocate env h o1) ns s) = rns_cache s"
  by (induction ns arbitrary: s) (simp_all add: rns_allocate_def Let_def)

lemma last_with_cache:
  assumes "\<And>k d. (k, d) \<in> set xs \<Longrightarrow> P d \<Longrightarrow> k = f" "\<exists>k d. (k, d) \<in> set xs \<and> P d"
  shows "foldl (\<lambda>i (k, d). if P d then k else i) z xs = f"
  using assms
proof (induction xs rule: rev_induct)
  case (snoc x xs)
  obtain k d where x: "x = (k, d)" by (cases x)
  show ?case
  proof (cases "P d")
    case True
    then show ?thesis using snoc.prems(1) [of k d] x by simp
  next
    case False
    have "foldl (\<lambda>i (k, d). if P d then k else i) z xs = f"
    proof (rule snoc.IH)
      show "\<exists>k d. (k, d) \<in> set xs \<and> P d" using snoc.prems(2) x False by auto
    qed (use snoc.prems(1) in auto)
    then show ?thesis using x False by simp
  qed
qed simp

lemma created_datasets:
  fixes env :: "('c, 'd) rx_env"
  assumes inv: "\<forall>e \<in> set xs. node_dataset e" and front: "map_of xs n \<noteq> None"
    and c: "rxc_cache c \<noteq> None" and s: "rns_datasets s = node_update n (\<lambda>d. d\<lparr>rxd_cache := Some c\<rparr>) xs"
  shows "rns_initDatasets F E cfg s \<noteq> None"
proof -
  obtain d where d: "map_of xs n = Some d" using front by auto
  then have dn: "(n, d) \<in> set xs" by (rule map_of_SomeD)
  define d1 where "d1 = d\<lparr>rxd_cache := Some c\<rparr>"
  have at: "map_of (rns_datasets s) n = Some d1" using d by (simp add: s map_of_node_update d1_def)
  have prim: "rns_primary s = n"
    unfolding rns_primary_def
  proof (rule last_with_cache)
    fix k d assume "(k, d) \<in> set (rns_datasets s)" "rxd_cache d \<noteq> None"
    then show "k = n" using inv by (auto simp: s node_update_def node_dataset_def split: if_splits)
  next
    show "\<exists>k d. (k, d) \<in> set (rns_datasets s) \<and> rxd_cache d \<noteq> None"
      using map_of_SomeD [OF at] by (intro exI [of _ n] exI [of _ d1]) (simp add: d1_def)
  qed
  have raw: "rxd_dataset (snd (RxDataset_init F E cfg key d1)) \<noteq> None" for key
    using inv dn c by (auto simp: d1_def node_dataset_def RxDataset_init_def Let_def split: option.splits)
  obtain r where r: "rxd_dataset (snd (RxDataset_init F E cfg (rxs_data (rns_seed s)) d1)) = Some r" using raw by auto
  have copy: "\<exists>zs. rns_copyDatasets n (Some r) ys = Some zs" for ys
    by (auto simp: rns_copyDatasets_def list_all_iff)
  define ys where "ys = node_update n (\<lambda>_. snd (RxDataset_init F E cfg (rxs_data (rns_seed s)) d1)) (rns_datasets s)"
  obtain zs where "rns_copyDatasets n (Some r) ys = Some zs" using copy by blast
  then show ?thesis
    using at r by (auto simp: rns_initDatasets_def Let_def prim rns_key_def ys_def)
qed

text \<open>The first initialisation up to the datasets of the nodes: \<open>s0\<close> is the storage of \<open>n # ns\<close> with its seed set.\<close>

definition numa_start :: "RxSeed \<Rightarrow> RandomX_Configuration \<Rightarrow> u32 \<Rightarrow> u32 list \<Rightarrow> ('c, 'd) RxNUMAStorage" where
  "numa_start seed cfg n ns = snd (rns_setSeed seed cfg (RxNUMAStorage_new (n # ns)))"

lemma numa_start_simps:
  "rns_datasets (numa_start seed cfg n ns) = []" "rns_nodeset (numa_start seed cfg n ns) = n # ns"
  "rns_cache (numa_start seed cfg n ns) = None" "\<not> rns_allocated (numa_start seed cfg n ns)"
  by (simp_all add: numa_start_def rns_setSeed_def Let_def RxNUMAStorage_new_def)

lemma numa_init:
  "rns_init F E env seed h False mode cfg (RxNUMAStorage_new (n # ns)) =
    Option.bind (rns_createDatasets env h False (numa_start seed cfg n ns))
      (\<lambda>(created, s). if \<not> created then Some (config_after RxSeed_default seed cfg, s)
         else Option.bind (rns_initDatasets F E (config_after RxSeed_default seed cfg) s) (\<lambda>s. Some (config_after RxSeed_default seed cfg, s)))"
  unfolding config_after_def
  by (cases "rxs_algorithm RxSeed_default = rxs_algorithm seed")
    (simp_all add: rns_init_def rns_setSeed_def Let_def numa_start_def RxNUMAStorage_new_def)

lemma numa_nodes:
  assumes "s1 = fold (rns_allocate env h False) (n # ns) (numa_start seed cfg n ns)"
  shows "\<forall>e \<in> set (rns_datasets s1). node_dataset e"
    "map_of (rns_datasets s1) k \<noteq> None \<longleftrightarrow> k \<in> set (n # ns) \<and> node_ok env h k"
    "rns_nodeset s1 = n # ns" "rns_cache s1 = None" "rns_isCacheRequired s1"
proof -
  note nodes = allocate_nodes [of "numa_start seed cfg n ns" env h "n # ns"]
  show all: "\<forall>e \<in> set (rns_datasets s1). node_dataset e" using nodes unfolding assms numa_start_simps by auto
  show "map_of (rns_datasets s1) k \<noteq> None \<longleftrightarrow> k \<in> set (n # ns) \<and> node_ok env h k"
    using nodes unfolding assms numa_start_simps by auto
  show "rns_nodeset s1 = n # ns" "rns_cache s1 = None"
    using allocate_rest [of env h False "n # ns" "numa_start seed cfg n ns"] unfolding assms numa_start_simps by auto
  show "rns_isCacheRequired s1" using all by (auto simp: rns_isCacheRequired_def list_ex_iff node_dataset_def)
qed

lemma numa_create:
  assumes s1: "s1 = fold (rns_allocate env h False) (n # ns) (numa_start seed cfg n ns)" and c: "c = RxCache_new env h n"
  shows "rns_createDatasets env h False (numa_start seed cfg n ns) =
    (if rxc_cache c = None then Some (False, s1)
     else if rns_datasets s1 = [] then Some (True, s1\<lparr>rns_cache := Some c, rns_datasets := [(n, RxDataset_of_cache c)], rns_allocated := True\<rparr>)
     else if node_ok env h n
     then Some (True, s1\<lparr>rns_cache := Some c, rns_datasets := node_update n (\<lambda>d. d\<lparr>rxd_cache := Some c\<rparr>) (rns_datasets s1), rns_allocated := True\<rparr>)
     else None)"
proof -
  note nodes = numa_nodes [OF s1]
  have fold: "fold (rns_allocate env h False) (rns_nodeset (numa_start seed cfg n ns)) (numa_start seed cfg n ns) = s1"
    by (simp only: s1 numa_start_simps)
  have key: "rns_key n (s1\<lparr>rns_cache := Some c\<rparr>) = (if node_ok env h n then Some n else None)"
    using nodes(2) [of n] nodes(3) by (auto simp: rns_key_def)
  show ?thesis
    using nodes(3,4,5) key
    by (cases "rxc_cache c") (simp_all add: rns_createDatasets_def Let_def fold rns_front_def rns_allocateCache_def c [symmetric])
qed

text \<open>C38. The exception of \<open>RxNUMAStorage\<close>: the first initialisation of a storage with 1 GB pages off throws (\<open>std::map::at\<close>,
  in the background thread, which ends the miner) exactly when the dataset of the first node could not be
  allocated, that of some other node could, and the cache could, too; with all allocations of the other nodes failing as well it
  goes on in the slow mode, and without a cache it stays unallocated.\<close>

theorem numa_first_node_missing:
  fixes env :: "('c, 'd) rx_env"
  shows "rns_init F E env seed hugePages False mode cfg (RxNUMAStorage_new (n # ns)) = None \<longleftrightarrow>
   \<not> node_ok env hugePages n \<and> (\<exists>k \<in> set ns. node_ok env hugePages k) \<and> rxc_cache (RxCache_new env hugePages n) \<noteq> None"
proof -
  define s1 where "s1 = fold (rns_allocate env hugePages False) (n # ns) (numa_start seed cfg n ns :: ('c, 'd) RxNUMAStorage)"
  define c where "c = RxCache_new env hugePages n"
  note nodes = numa_nodes [OF s1_def] and init = numa_init [of F E env seed hugePages mode cfg n ns, unfolded numa_create [OF s1_def c_def]]
  consider "rxc_cache c = None" | "rxc_cache c \<noteq> None" "rns_datasets s1 = []"
    | "rxc_cache c \<noteq> None" "rns_datasets s1 \<noteq> []" "node_ok env hugePages n"
    | "rxc_cache c \<noteq> None" "rns_datasets s1 \<noteq> []" "\<not> node_ok env hugePages n" by blast
  then show ?thesis
  proof cases
    case 1
    then show ?thesis by (simp add: init c_def)
  next
    case 2
    then have "\<not> (\<exists>k \<in> set (n # ns). node_ok env hugePages k)" using nodes(2) by fastforce
    then show ?thesis
      using 2 by (auto simp: init rns_initDatasets_def rns_primary_def rns_key_def Let_def RxDataset_of_cache_def
          node_update_def split: option.splits)
  next
    case 3
    then have "rns_initDatasets F E (config_after RxSeed_default seed cfg) (s1\<lparr>rns_cache := Some c, rns_datasets :=
        node_update n (\<lambda>d. d\<lparr>rxd_cache := Some c\<rparr>) (rns_datasets s1), rns_allocated := True\<rparr>) \<noteq> None"
      using nodes(2) [of n] by (intro created_datasets [OF nodes(1), where n = n and c = c]) auto
    then show ?thesis using 3 by (auto simp: init)
  next
    case 4
    have "\<exists>k \<in> set (n # ns). node_ok env hugePages k"
      using 4(2) nodes(2) by (cases "rns_datasets s1") (auto, metis map_of_Cons_code(2) option.distinct(1))
    then show ?thesis using 4 by (auto simp: init c_def)
  qed
qed

end
