(* ===== verification/Keccak.thy ===== *)
theory Keccak
  imports Endian
begin

text \<open>
  \<open>base/crypto/keccak.cpp\<close> and \<open>base/crypto/sha3.cpp\<close>: the permutation, the one-call Keccak with the
  padding of the original submission, which CryptoNight uses, and the incremental SHA-3. A state is the list of its
  25 words. The message lengths are natural numbers: the code's \<open>int\<close> and \<open>size_t\<close> hold the size of an object.
\<close>

subsection \<open>The permutation\<close>

definition KECCAK_ROUNDS :: nat where "KECCAK_ROUNDS = 24"
definition HASH_DATA_AREA :: int where "HASH_DATA_AREA = 136"

definition ROTL64 :: "u64 \<Rightarrow> nat \<Rightarrow> u64" where
  "ROTL64 x y = push_bit y x OR drop_bit (64 - y) x"

definition keccakf_rndc :: "u64 list" where
  "keccakf_rndc =
     [0x0000000000000001, 0x0000000000008082, 0x800000000000808a,
      0x8000000080008000, 0x000000000000808b, 0x0000000080000001,
      0x8000000080008081, 0x8000000000008009, 0x000000000000008a,
      0x0000000000000088, 0x0000000080008009, 0x000000008000000a,
      0x000000008000808b, 0x800000000000008b, 0x8000000000008089,
      0x8000000000008003, 0x8000000000008002, 0x8000000000000080,
      0x000000000000800a, 0x800000008000000a, 0x8000000080008081,
      0x8000000000008080, 0x0000000080000001, 0x8000000080008008]"

definition keccak_theta :: "u64 list \<Rightarrow> u64 list" where
  "keccak_theta st =
     (let bc = [st ! 0 XOR st ! 5 XOR st ! 10 XOR st ! 15 XOR st ! 20,
                st ! 1 XOR st ! 6 XOR st ! 11 XOR st ! 16 XOR st ! 21,
                st ! 2 XOR st ! 7 XOR st ! 12 XOR st ! 17 XOR st ! 22,
                st ! 3 XOR st ! 8 XOR st ! 13 XOR st ! 18 XOR st ! 23,
                st ! 4 XOR st ! 9 XOR st ! 14 XOR st ! 19 XOR st ! 24]
      in fold (\<lambda>i st.
           let t = bc ! ((i + 4) mod 5) XOR ROTL64 (bc ! ((i + 1) mod 5)) 1;
               st = st[i := st ! i XOR t];
               st = st[i + 5 := st ! (i + 5) XOR t];
               st = st[i + 10 := st ! (i + 10) XOR t];
               st = st[i + 15 := st ! (i + 15) XOR t]
           in st[i + 20 := st ! (i + 20) XOR t]) [0, 1, 2, 3, 4] st)"

text \<open>The assignments \<open>st[d] = ROTL64(st[s], n)\<close> of \<open>Rho Pi\<close>, in their order.\<close>

definition rho_pi_moves :: "(nat \<times> nat \<times> nat) list" where
  "rho_pi_moves =
     [(1, 6, 44), (6, 9, 20), (9, 22, 61), (22, 14, 39), (14, 20, 18), (20, 2, 62), (2, 12, 43), (12, 13, 25),
      (13, 19, 8), (19, 23, 56), (23, 15, 41), (15, 4, 27), (4, 24, 14), (24, 21, 2), (21, 8, 55), (8, 16, 45),
      (16, 5, 36), (5, 3, 28), (3, 18, 21), (18, 17, 15), (17, 11, 10), (11, 7, 6), (7, 10, 3)]"

definition keccak_rho_pi :: "u64 list \<Rightarrow> u64 list" where
  "keccak_rho_pi st =
     (let t = st ! 1;
          st = fold (\<lambda>(d, s, n) st. st[d := ROTL64 (st ! s) n]) rho_pi_moves st
      in st[10 := ROTL64 t 1])"

definition keccak_chi_row :: "nat \<Rightarrow> u64 list \<Rightarrow> u64 list" where
  "keccak_chi_row j st =
     (let b0 = st ! j; b1 = st ! (j + 1);
          st = st[j := st ! j XOR (NOT (st ! (j + 1)) AND st ! (j + 2))];
          st = st[j + 1 := st ! (j + 1) XOR (NOT (st ! (j + 2)) AND st ! (j + 3))];
          st = st[j + 2 := st ! (j + 2) XOR (NOT (st ! (j + 3)) AND st ! (j + 4))];
          st = st[j + 3 := st ! (j + 3) XOR (NOT (st ! (j + 4)) AND b0)]
      in st[j + 4 := st ! (j + 4) XOR (NOT b0 AND b1)])"

definition keccak_chi_last :: "u64 list \<Rightarrow> u64 list" where
  "keccak_chi_last st =
     (let b0 = st ! 20; b1 = st ! 21; b2 = st ! 22; b3 = st ! 23; b4 = st ! 24;
          st = st[20 := st ! 20 XOR (NOT b1 AND b2)];
          st = st[21 := st ! 21 XOR (NOT b2 AND b3)];
          st = st[22 := st ! 22 XOR (NOT b3 AND b4)];
          st = st[23 := st ! 23 XOR (NOT b4 AND b0)]
      in st[24 := st ! 24 XOR (NOT b0 AND b1)])"

definition keccak_chi :: "u64 list \<Rightarrow> u64 list" where
  "keccak_chi st = keccak_chi_last (keccak_chi_row 15 (keccak_chi_row 10 (keccak_chi_row 5 (keccak_chi_row 0 st))))"

definition keccak_round :: "nat \<Rightarrow> u64 list \<Rightarrow> u64 list" where
  "keccak_round round st =
     (let st = keccak_chi (keccak_rho_pi (keccak_theta st)) in st[0 := st ! 0 XOR keccakf_rndc ! round])"

definition keccakf :: "u64 list \<Rightarrow> nat \<Rightarrow> u64 list" where
  "keccakf st rounds = fold keccak_round [0..<rounds] st"

subsection \<open>keccak\<close>

definition xor_words :: "nat \<Rightarrow> bytes \<Rightarrow> u64 list \<Rightarrow> u64 list" where
  "xor_words rsizw p st = fold (\<lambda>i st. st[i := st ! i XOR load64_native (drop (8 * i) p)]) [0..<rsizw] st"

function keccak_loop :: "nat \<Rightarrow> bytes \<Rightarrow> u64 list \<Rightarrow> u64 list \<times> bytes" where
  "keccak_loop rsiz inp st =
     (if 0 < rsiz \<and> rsiz \<le> length inp
      then keccak_loop rsiz (drop rsiz inp) (keccakf (xor_words (rsiz div 8) inp st) KECCAK_ROUNDS)
      else (st, inp))"
  by pat_completeness auto
termination by (relation "measure (\<lambda>(rsiz, inp, st). length inp)") auto

declare keccak_loop.simps [simp del]

text \<open>
  The digest for \<open>mdlen\<close> bytes. With \<open>rsiz\<close> above the 144 bytes of \<open>temp\<close>, or not positive, and with more than the
  200 bytes of the state, the code leaves its arrays or never ends: \<^term>\<open>None\<close>.
\<close>

definition keccak :: "bytes \<Rightarrow> int \<Rightarrow> bytes option" where
  "keccak inp mdlen =
     (let rsiz = (if mdlen = 200 then HASH_DATA_AREA else 200 - 2 * mdlen)
      in if rsiz \<le> 0 \<or> 144 < rsiz \<or> mdlen < 0 then None
         else
           let r = nat rsiz;
               (st, inp) = keccak_loop r inp (replicate 25 0);
               temp = inp @ [1] @ replicate (r - length inp - 1) 0;
               temp = temp[r - 1 := temp ! (r - 1) OR 0x80];
               st = keccakf (xor_words (r div 8) temp st) KECCAK_ROUNDS
           in Some (take (nat mdlen) (concat (map store64_native st))))"

subsection \<open>SHA-3\<close>

definition SHA3_USE_KECCAK_FLAG :: u32 where "SHA3_USE_KECCAK_FLAG = 0x80000000"
definition SHA3_KECCAK_SPONGE_WORDS :: nat where "SHA3_KECCAK_SPONGE_WORDS = 25"

definition SHA3_CW :: "u32 \<Rightarrow> nat" where
  "SHA3_CW x = unat (x AND NOT SHA3_USE_KECCAK_FLAG)"

record sha3_context =
  sha_saved :: u64
  sha_s :: "u64 list"
  sha_byteIndex :: nat
  sha_wordIndex :: nat
  sha_capacityWords :: u32

datatype sha3_return = SHA3_RETURN_OK | SHA3_RETURN_BAD_PARAMS

text \<open>\<open>sha3_Init\<close>: a context, unless the size is refused; the old contents of the context do not matter.\<close>

definition sha3_Init :: "u32 \<Rightarrow> sha3_context option" where
  "sha3_Init bitSize =
     (if bitSize \<noteq> 256 \<and> bitSize \<noteq> 384 \<and> bitSize \<noteq> 512 then None
      else Some \<lparr>sha_saved = 0, sha_s = replicate 25 0, sha_byteIndex = 0, sha_wordIndex = 0,
                 sha_capacityWords = 2 * bitSize div (8 * 8)\<rparr>)"

definition SHA3_FLAGS_NONE :: u32 where "SHA3_FLAGS_NONE = 0"
definition SHA3_FLAGS_KECCAK :: u32 where "SHA3_FLAGS_KECCAK = 1"

definition sha3_SetFlags :: "u32 \<Rightarrow> sha3_context \<Rightarrow> u32 \<times> sha3_context" where
  "sha3_SetFlags flags ctx =
     (let flags = flags AND SHA3_FLAGS_KECCAK
      in (flags, ctx\<lparr>sha_capacityWords := sha_capacityWords ctx OR (if flags = SHA3_FLAGS_KECCAK then SHA3_USE_KECCAK_FLAG else 0)\<rparr>))"

text \<open>The loops that store bytes in \<open>saved\<close>.\<close>

definition sha3_save :: "bytes \<Rightarrow> sha3_context \<Rightarrow> sha3_context" where
  "sha3_save bs ctx =
     fold (\<lambda>b ctx. ctx\<lparr>sha_saved := sha_saved ctx OR push_bit (sha_byteIndex ctx * 8) (ucast b),
                       sha_byteIndex := sha_byteIndex ctx + 1\<rparr>) bs ctx"

text \<open>A full word goes into the sponge.\<close>

definition sha3_rate_words :: "sha3_context \<Rightarrow> nat" where
  "sha3_rate_words ctx = SHA3_KECCAK_SPONGE_WORDS - SHA3_CW (sha_capacityWords ctx)"

definition sha3_word :: "u64 \<Rightarrow> sha3_context \<Rightarrow> sha3_context" where
  "sha3_word t ctx =
     (let ctx = ctx\<lparr>sha_s := (sha_s ctx)[sha_wordIndex ctx := sha_s ctx ! sha_wordIndex ctx XOR t]\<rparr>;
          ctx = ctx\<lparr>sha_wordIndex := sha_wordIndex ctx + 1\<rparr>
      in if sha_wordIndex ctx = sha3_rate_words ctx
         then ctx\<lparr>sha_s := keccakf (sha_s ctx) KECCAK_ROUNDS, sha_wordIndex := 0\<rparr> else ctx)"

text \<open>The word that starts at \<open>buf\<close>, from its bytes.\<close>

definition sha3_load :: "bytes \<Rightarrow> u64" where
  "sha3_load buf =
     ucast (buf ! 0) OR push_bit (8 * 1) (ucast (buf ! 1)) OR push_bit (8 * 2) (ucast (buf ! 2)) OR
     push_bit (8 * 3) (ucast (buf ! 3)) OR push_bit (8 * 4) (ucast (buf ! 4)) OR push_bit (8 * 5) (ucast (buf ! 5)) OR
     push_bit (8 * 6) (ucast (buf ! 6)) OR push_bit (8 * 7) (ucast (buf ! 7))"

definition sha3_words :: "nat \<Rightarrow> bytes \<Rightarrow> sha3_context \<Rightarrow> sha3_context" where
  "sha3_words words buf ctx = fold (\<lambda>i ctx. sha3_word (sha3_load (drop (8 * i) buf)) ctx) [0..<words] ctx"

definition sha3_Update :: "sha3_context \<Rightarrow> bytes \<Rightarrow> sha3_context" where
  "sha3_Update ctx buf =
     (let old_tail = (8 - sha_byteIndex ctx) mod 8
      in if length buf < old_tail then sha3_save buf ctx
         else
           let ctx = (if old_tail \<noteq> 0
                      then let ctx = sha3_save (take old_tail buf) ctx
                           in sha3_word (sha_saved ctx) (ctx\<lparr>sha_byteIndex := 0, sha_saved := 0\<rparr>)
                      else ctx);
               buf = drop old_tail buf;
               words = length buf div 8;
               tail = length buf - words * 8
           in sha3_save (take tail (drop (words * 8) buf)) (sha3_words words buf ctx))"

text \<open>\<open>sha3_Finalize\<close>: the bytes of the union, which the conversion leaves as they are on a little-endian machine.\<close>

definition sha3_split :: "u64 \<Rightarrow> bytes" where
  "sha3_split w =
     (let t1 = ucast w :: u32; t2 = ucast (drop_bit 16 (drop_bit 16 w)) :: u32
      in [ucast t1, ucast (drop_bit 8 t1), ucast (drop_bit 16 t1), ucast (drop_bit 24 t1),
          ucast t2, ucast (drop_bit 8 t2), ucast (drop_bit 16 t2), ucast (drop_bit 24 t2)])"

definition sha3_Finalize :: "sha3_context \<Rightarrow> bytes" where
  "sha3_Finalize ctx =
     (let t = (if sha_capacityWords ctx AND SHA3_USE_KECCAK_FLAG \<noteq> 0 then push_bit (sha_byteIndex ctx * 8) 1
               else push_bit (sha_byteIndex ctx * 8) (0x02 OR push_bit 2 1));
          s = (sha_s ctx)[sha_wordIndex ctx := sha_s ctx ! sha_wordIndex ctx XOR (sha_saved ctx XOR t)];
          n = sha3_rate_words ctx - 1;
          s = s[n := s ! n XOR 0x8000000000000000];
          s = keccakf s KECCAK_ROUNDS
      in concat (map sha3_split s))"

definition sha3_HashBuffer :: "u32 \<Rightarrow> u32 \<Rightarrow> bytes \<Rightarrow> bytes \<Rightarrow> u32 \<Rightarrow> sha3_return \<times> bytes" where
  "sha3_HashBuffer bitSize flags inp out outBytes =
     (case sha3_Init bitSize of
        None \<Rightarrow> (SHA3_RETURN_BAD_PARAMS, out)
      | Some c \<Rightarrow>
          let (flags', c) = sha3_SetFlags flags c
          in if flags' \<noteq> flags then (SHA3_RETURN_BAD_PARAMS, out)
             else let h = sha3_Finalize (sha3_Update c inp);
                      outBytes = (if outBytes > bitSize div 8 then bitSize div 8 else outBytes)
                  in (SHA3_RETURN_OK, memcpy_at out 0 h (unat outBytes)))"

end
