(* ===== verification/Keccak_Fips.thy ===== *)
theory Keccak_Fips
  imports Keccak Stream_Hash
begin

text \<open>
  The permutation of \<open>keccak.cpp\<close> is Keccak-f[1600] of FIPS 202, and \<open>keccak\<close> and the incremental functions
  of \<open>sha3.cpp\<close> are its sponge with the paddings of Keccak and of SHA-3. The standard's step mappings are stated as it
  has them, with the rotation offsets from their walk and the round constants from their shift register.
\<close>

subsection \<open>Keccak-f[1600] of FIPS 202\<close>

text \<open>The lane at \<open>(x, y)\<close> is the word \<open>x + 5 y\<close>.\<close>

definition fips_C :: "u64 list \<Rightarrow> nat \<Rightarrow> u64" where
  "fips_C A x = A ! x XOR A ! (x + 5) XOR A ! (x + 10) XOR A ! (x + 15) XOR A ! (x + 20)"

definition fips_theta :: "u64 list \<Rightarrow> u64 list" where
  "fips_theta A = map (\<lambda>i. A ! i XOR (fips_C A ((i + 4) mod 5) XOR word_rotl 1 (fips_C A ((i + 1) mod 5)))) [0..<25]"

fun rho_walk :: "nat \<Rightarrow> nat \<times> nat" where
  "rho_walk 0 = (1, 0)"
| "rho_walk (Suc t) = (let (x, y) = rho_walk t in (y, (2 * x + 3 * y) mod 5))"

definition fips_rho :: "u64 list \<Rightarrow> u64 list" where
  "fips_rho A =
     fold (\<lambda>t A'. let (x, y) = rho_walk t; i = x + 5 * y
                  in A'[i := word_rotl ((t + 1) * (t + 2) div 2 mod 64) (A ! i)]) [0..<24] A"

definition fips_pi :: "u64 list \<Rightarrow> u64 list" where
  "fips_pi A = map (\<lambda>i. let x = i mod 5; y = i div 5 in A ! ((x + 3 * y) mod 5 + 5 * x)) [0..<25]"

definition fips_chi :: "u64 list \<Rightarrow> u64 list" where
  "fips_chi A =
     map (\<lambda>i. let x = i mod 5; y = i div 5
              in A ! i XOR (NOT (A ! ((x + 1) mod 5 + 5 * y)) AND A ! ((x + 2) mod 5 + 5 * y))) [0..<25]"

text \<open>Algorithm 5: the bit \<open>rc t\<close>.\<close>

definition rc_step :: "bool list \<Rightarrow> bool list" where
  "rc_step R =
     (let R = False # R; l = R ! 8;
          R = R[0 := R ! 0 \<noteq> l]; R = R[4 := R ! 4 \<noteq> l]; R = R[5 := R ! 5 \<noteq> l]; R = R[6 := R ! 6 \<noteq> l]
      in take 8 R)"

fun rc_state :: "nat \<Rightarrow> bool list" where
  "rc_state 0 = [True, False, False, False, False, False, False, False]"
| "rc_state (Suc t) = rc_step (rc_state t)"

definition fips_rc :: "nat \<Rightarrow> bool" where
  "fips_rc t = hd (rc_state (t mod 255))"

definition fips_RC :: "nat \<Rightarrow> u64" where
  "fips_RC r = fold (\<lambda>j w. if fips_rc (j + 7 * r) then w OR push_bit (2 ^ j - 1) 1 else w) [0..<7] 0"

definition fips_round :: "nat \<Rightarrow> u64 list \<Rightarrow> u64 list" where
  "fips_round r A = (let A = fips_chi (fips_pi (fips_rho (fips_theta A))) in A[0 := A ! 0 XOR fips_RC r])"

definition keccak_f :: "u64 list \<Rightarrow> u64 list" where
  "keccak_f A = fold fips_round [0..<24] A"

subsection \<open>The permutation of the code\<close>

lemma ROTL64_rotl: "0 < n \<Longrightarrow> n < 64 \<Longrightarrow> ROTL64 x n = word_rotl n x"
proof -
  assume n: "0 < n" "n < 64"
  have "ROTL64 x n = word_rotr (64 - n) x"
    using rotr_idiom [of "64 - n" x] n by (simp add: ROTL64_def or.commute)
  also have "\<dots> = word_rotl n x"
    using n by (intro bit_word_eqI) (simp add: bit_word_rotr_iff bit_word_rotl_iff)
  finally show ?thesis .
qed

lemma upt_25: "[0..<25] = [0, 1, 2, 3, 4, 5, 6, 7, 8, 9, 10, 11, 12, 13, 14, 15, 16, 17, 18, 19, 20, 21, 22, 23, 24 :: nat]"
  by (simp add: upt_rec)

lemma state_25:
  assumes "length (st :: u64 list) = 25"
  obtains a0 a1 a2 a3 a4 a5 a6 a7 a8 a9 a10 a11 a12 a13 a14 a15 a16 a17 a18 a19 a20 a21 a22 a23 a24
  where "st = [a0, a1, a2, a3, a4, a5, a6, a7, a8, a9, a10, a11, a12, a13, a14, a15, a16, a17, a18, a19, a20, a21, a22, a23, a24]"
  using list_eq_map_nth [OF assms] unfolding upt_25 list.map by (rule that)

lemma theta_fips:
  assumes "length st = 25"
  shows "keccak_theta st = fips_theta st"
  by (rule state_25 [OF assms])
    (simp add: keccak_theta_def fips_theta_def fips_C_def upt_25 ROTL64_rotl Let_def)

lemma rho_table:
  "map (\<lambda>t. (fst (rho_walk t) + 5 * snd (rho_walk t), (t + 1) * (t + 2) div 2 mod 64)) [0..<24] =
   [(1, 1),
    (10, 3), (7, 6), (11, 10), (17, 15), (18, 21), (3, 28), (5, 36), (16, 45), (8, 55), (21, 2), (24, 14), (4, 27), (15, 41), (23, 56), (19, 8), (13, 25), (12, 43), (2, 62), (20, 18), (14, 39), (22, 61), (9, 20), (6, 44)]"
  by code_simp

lemma fips_rho_table:
  "fips_rho A = fold (\<lambda>(i, n) A'. A'[i := word_rotl n (A ! i)])
   [(1, 1),
    (10, 3), (7, 6), (11, 10), (17, 15), (18, 21), (3, 28), (5, 36), (16, 45), (8, 55), (21, 2), (24, 14), (4, 27), (15, 41), (23, 56), (19, 8), (13, 25), (12, 43), (2, 62), (20, 18), (14, 39), (22, 61), (9, 20), (6, 44)] A"
  unfolding rho_table [symmetric] by (simp add: fips_rho_def fold_map comp_def split_beta Let_def)

lemma rho_pi_fips:
  assumes "length st = 25"
  shows "keccak_rho_pi st = fips_pi (fips_rho st)"
  by (rule state_25 [OF assms])
    (simp add: keccak_rho_pi_def rho_pi_moves_def fips_pi_def fips_rho_table upt_25 ROTL64_rotl Let_def del: upt_Suc)

lemma chi_fips:
  assumes "length st = 25"
  shows "keccak_chi st = fips_chi st"
  by (rule state_25 [OF assms])
    (simp add: keccak_chi_def keccak_chi_row_def keccak_chi_last_def fips_chi_def upt_25 Let_def)

lemma rc_table:
  "map (\<lambda>r. map (\<lambda>j. fips_rc (j + 7 * r)) [0..<7]) [0..<24] =
   [[True, False, False, False, False, False, False],
    [False, True, False, True, True, False, False],
    [False, True, True, True, True, False, True],
    [False, False, False, False, True, True, True],
    [True, True, True, True, True, False, False],
    [True, False, False, False, False, True, False],
    [True, False, False, True, True, True, True],
    [True, False, True, False, True, False, True],
    [False, True, True, True, False, False, False],
    [False, False, True, True, False, False, False],
    [True, False, True, False, True, True, False],
    [False, True, True, False, False, True, False],
    [True, True, True, True, True, True, False],
    [True, True, True, True, False, False, True],
    [True, False, True, True, True, False, True],
    [True, True, False, False, True, False, True],
    [False, True, False, False, True, False, True],
    [False, False, False, True, False, False, True],
    [False, True, True, False, True, False, False],
    [False, True, True, False, False, True, True],
    [True, False, False, True, True, True, True],
    [False, False, False, True, True, False, True],
    [True, False, False, False, False, True, False],
    [False, False, True, False, True, True, True]]"
  by code_simp

lemma fips_RC_row:
  "fips_RC r = fold (\<lambda>(j, b) w. if b then w OR push_bit (2 ^ j - 1) 1 else w) (zip [0..<7] (map (\<lambda>j. fips_rc (j + 7 * r)) [0..<7])) 0"
  by (simp add: fips_RC_def zip_map2 zip_same_conv_map fold_map comp_def)

lemma RC_fips:
  assumes "r < 24"
  shows "keccakf_rndc ! r = fips_RC r"
proof -
  have row: "map (\<lambda>j. fips_rc (j + 7 * r)) [0..<7] = map (\<lambda>r. map (\<lambda>j. fips_rc (j + 7 * r)) [0..<7]) [0..<24] ! r"
    using assms by (simp del: upt_Suc)
  have "r \<in> set [0..<24]" using assms by simp
  then show ?thesis
    unfolding fips_RC_row row rc_table
    by (simp add: upt_rec) (elim disjE; simp add: keccakf_rndc_def upt_rec)
qed

lemma length_fips_round [len_simps, simp]: "length (fips_round r A) = 25"
  by (simp add: fips_round_def Let_def fips_chi_def)

lemma length_fips_rho: "length (fips_rho A) = length A"
proof -
  have "length (fold (\<lambda>t A'. let (x, y) = rho_walk t; i = x + 5 * y
      in A'[i := word_rotl ((t + 1) * (t + 2) div 2 mod 64) (A ! i)]) ts A0) = length A0" for ts A0
    by (induction ts arbitrary: A0) (simp_all add: split_beta Let_def)
  then show ?thesis by (simp add: fips_rho_def)
qed

lemma keccak_round_fips:
  assumes "length st = 25" "r < 24"
  shows "keccak_round r st = fips_round r st"
proof -
  have "length (fips_theta st) = 25" "length (fips_pi (fips_rho (fips_theta st))) = 25"
    by (simp_all add: fips_theta_def fips_pi_def)
  then show ?thesis
    using assms by (simp add: keccak_round_def fips_round_def theta_fips rho_pi_fips chi_fips RC_fips)
qed

lemma keccakf_rounds:
  assumes "length st = 25" "n \<le> 24"
  shows "keccakf st n = fold fips_round [0..<n] st \<and> length (keccakf st n) = 25"
  using assms(2)
proof (induction n)
  case 0
  then show ?case using assms(1) by (simp add: keccakf_def)
next
  case (Suc n)
  then have "keccakf st (Suc n) = keccak_round n (keccakf st n)" by (simp add: keccakf_def)
  moreover have "keccak_round n (keccakf st n) = fips_round n (keccakf st n)"
    by (rule keccak_round_fips [OF Suc.IH [OF Suc_leD [OF Suc.prems], THEN conjunct2]]) (use Suc.prems in simp)
  moreover have "keccakf st n = fold fips_round [0..<n] st" using Suc by simp
  ultimately show ?case by simp
qed

lemma keccakf_keccak_f: "length st = 25 \<Longrightarrow> keccakf st KECCAK_ROUNDS = keccak_f st"
  using keccakf_rounds [of st 24] by (simp add: keccak_f_def KECCAK_ROUNDS_def del: upt_Suc)

lemma length_keccak_f [simp]: "length st = 25 \<Longrightarrow> length (keccak_f st) = 25"
  using keccakf_rounds [of st 24] by (auto simp: keccak_f_def simp del: upt_Suc)

subsection \<open>The sponge\<close>

text \<open>A block is added to the first lanes of the state.\<close>

definition xor_block :: "u64 list \<Rightarrow> bytes \<Rightarrow> u64 list" where
  "xor_block S b = map (\<lambda>i. if 8 * i < length b then S ! i XOR load64_native (drop (8 * i) b) else S ! i) [0..<25]"

definition sponge_step :: "u64 list \<Rightarrow> bytes \<Rightarrow> u64 list" where
  "sponge_step S b = keccak_f (xor_block S b)"

text \<open>
  The padding \<open>pad10*1\<close> to whole blocks of \<open>r\<close> bytes, after the domain bits: \<open>d\<close> is 1 for Keccak, and 6 for
  the bits 01 of SHA-3.
\<close>

definition pad101 :: "nat \<Rightarrow> u8 \<Rightarrow> bytes \<Rightarrow> bytes" where
  "pad101 r d M =
     (let n = r - length M mod r in M @ (if n = 1 then [d OR 0x80] else d # replicate (n - 2) 0 @ [0x80]))"

definition sponge_state :: "nat \<Rightarrow> u8 \<Rightarrow> bytes \<Rightarrow> u64 list" where
  "sponge_state r d M = fst (absorb r r sponge_step (replicate 25 0) (pad101 r d M))"

definition keccak_c :: "nat \<Rightarrow> u8 \<Rightarrow> bytes \<Rightarrow> nat \<Rightarrow> bytes" where
  "keccak_c r d M n = take n (concat (map store64_native (sponge_state r d M)))"

lemma length_xor_block [simp]: "length (xor_block S b) = 25"
  by (simp add: xor_block_def)

lemma length_sponge_step [simp]: "length (sponge_step S b) = 25"
  by (simp add: sponge_step_def)

lemma absorb_rest_length:
  assumes "0 < r"
  shows "length (snd (absorb r r f c M)) = length M mod r"
proof -
  obtain n where n: "snd (absorb r r f c M) = drop (n * r) M" "n * r \<le> length M"
    using absorb_suffix [OF assms, of r f c M] by auto
  have "length M = length (drop (n * r) M) + n * r" using n(2) by simp
  then have "length M mod r = length (drop (n * r) M) mod r" by (metis mod_mult_self1 mult.commute)
  then show ?thesis using length_snd_absorb [OF assms, of r f c M] n(1) by simp
qed

text \<open>The padded message is the whole blocks of the message and one last block.\<close>

lemma sponge_last_block:
  assumes "0 < r" "absorb r r sponge_step (replicate 25 0) M = (S, p)"
  shows "sponge_state r d M = sponge_step S (p @ (if r - length p = 1 then [d OR 0x80] else d # replicate (r - length p - 2) 0 @ [0x80]))"
proof -
  let ?e = "if r - length p = 1 then [d OR 0x80] else d # replicate (r - length p - 2) 0 @ [0x80]"
  have p: "length p = length M mod r" using absorb_rest_length [OF assms(1), of sponge_step "replicate 25 0" M] assms(2) by simp
  then have lt: "length p < r" using assms(1) by simp
  have "pad101 r d M = M @ ?e" by (simp add: pad101_def Let_def p)
  moreover have "length (p @ ?e) = r" using lt by auto
  ultimately show ?thesis
    using absorb_append [OF assms(1), of r sponge_step "replicate 25 0" M ?e] assms
      absorb_step [OF assms(1), of r "p @ ?e" sponge_step S] absorb_short [of "[]" r r sponge_step]
    by (simp add: sponge_state_def)
qed

lemma load64_native_take: "8 * i + 8 \<le> n \<Longrightarrow> load64_native (drop (8 * i) (take n p)) = load64_native (drop (8 * i) p)"
  by (simp add: load64_native_def drop_take min_def)

lemma xor_words_nth:
  assumes "length st = 25" "n \<le> 25"
  shows "length (xor_words n p st) = 25 \<and>
    (\<forall>i < 25. xor_words n p st ! i = (if i < n then st ! i XOR load64_native (drop (8 * i) p) else st ! i))"
  using assms(2)
proof (induction n)
  case 0
  then show ?case using assms(1) by (simp add: xor_words_def)
next
  case (Suc n)
  then show ?case by (auto simp: xor_words_def nth_list_update)
qed

lemma xor_words_block:
  assumes "length st = 25" "n \<le> 25" "8 * n \<le> length p"
  shows "xor_words n p st = xor_block st (take (8 * n) p)"
proof (rule nth_equalityI)
  fix i assume "i < length (xor_words n p st)"
  then have "i < 25" using xor_words_nth [OF assms(1,2), of p] by simp
  then show "xor_words n p st ! i = xor_block st (take (8 * n) p) ! i"
    using xor_words_nth [OF assms(1,2), of p] assms(3) load64_native_take [of i "8 * n" p]
    by (auto simp: xor_block_def simp del: upt_Suc)
qed (use xor_words_nth [OF assms(1,2)] in simp)

lemma keccak_loop_absorb:
  assumes "0 < r" "8 dvd r" "r \<le> 200" "length st = 25"
  shows "keccak_loop r inp st = absorb r r sponge_step st inp"
  using assms(4)
proof (induction "length inp" arbitrary: inp st rule: less_induct)
  case less
  have r: "r div 8 \<le> 25" "8 * (r div 8) = r" using assms by auto
  show ?case
  proof (cases "r \<le> length inp")
    case True
    have "keccakf (xor_words (r div 8) inp st) KECCAK_ROUNDS = sponge_step st (take r inp)"
      using xor_words_block [OF less.prems r(1), of inp] True r
      by (simp add: sponge_step_def keccakf_keccak_f)
    then show ?thesis
      using True assms(1) less.hyps [of "drop r inp" "sponge_step st (take r inp)"]
      by (subst keccak_loop.simps) (simp add: absorb_step)
  next
    case False
    then show ?thesis by (subst keccak_loop.simps) (simp add: absorb_short)
  qed
qed

lemma last_byte:
  assumes "length p < r"
  shows "(p @ [d] @ replicate (r - length p - 1) 0)[r - 1 := (p @ [d] @ replicate (r - length p - 1) 0) ! (r - 1) OR 0x80] =
    p @ (if r - length p = 1 then [d OR 0x80] else d # replicate (r - length p - 2) 0 @ [0x80 :: u8])"
proof (rule nth_equalityI)
  fix i assume "i < length ((p @ [d] @ replicate (r - length p - 1) 0)[r - 1 := (p @ [d] @ replicate (r - length p - 1) 0) ! (r - 1) OR 0x80])"
  then have "i < r" using assms by simp
  then show "(p @ [d] @ replicate (r - length p - 1) 0)[r - 1 := (p @ [d] @ replicate (r - length p - 1) 0) ! (r - 1) OR 0x80] ! i =
      (p @ (if r - length p = 1 then [d OR 0x80] else d # replicate (r - length p - 2) 0 @ [0x80 :: u8])) ! i"
    using assms by (auto simp: nth_list_update nth_append nth_Cons')
qed (use assms in auto)

lemma keccak_sponge:
  assumes r: "r = nat (if mdlen = 200 then HASH_DATA_AREA else 200 - 2 * mdlen)" "0 < r" "r \<le> 144" "8 dvd r" and m: "0 \<le> mdlen"
  shows "keccak inp mdlen = Some (keccak_c r 1 inp (nat mdlen))"
proof -
  obtain S p where a: "absorb r r sponge_step (replicate 25 0) inp = (S, p)" by (cases "absorb r r sponge_step (replicate 25 0) inp")
  have p: "length p < r" using absorb_rest_length [OF r(2), of sponge_step "replicate 25 0" inp] a r(2) by simp
  have S: "length S = 25"
    using absorb_invariant [of "\<lambda>c. length c = 25" r sponge_step r "replicate 25 0" inp] a r(2) by simp
  have loop: "keccak_loop r inp (replicate 25 0) = (S, p)" using keccak_loop_absorb [OF r(2,4), of "replicate 25 0" inp] r(3) a by simp
  define e where "e = p @ (if r - length p = 1 then [1 OR 0x80] else 1 # replicate (r - length p - 2) 0 @ [0x80 :: u8])"
  have e: "length e = r" using p by (auto simp: e_def)
  have "keccakf (xor_words (r div 8) e S) KECCAK_ROUNDS = sponge_step S e"
    using xor_words_block [OF S, of "r div 8" e] r e by (simp add: keccakf_keccak_f sponge_step_def)
  moreover have "sponge_state r 1 inp = sponge_step S e" using sponge_last_block [OF r(2) a, of 1] by (simp add: e_def)
  moreover have "(if mdlen = 200 then HASH_DATA_AREA else 200 - 2 * mdlen) = int r" using r(1,2) by simp
  moreover have "(p @ [1] @ replicate (r - length p - 1) 0)[r - 1 := (p @ [1] @ replicate (r - length p - 1) 0) ! (r - 1) OR 0x80] = e"
    unfolding e_def by (rule last_byte [OF p])
  ultimately show ?thesis
    using r(2,3) m unfolding keccak_def Let_def by (simp only: loop nat_int split) (simp add: keccak_c_def)
qed

text \<open>C27. \<open>keccakf\<close> with its 24 rounds is Keccak-f[1600] as FIPS 202 defines it, with the rotation offsets of the
  standard's walk and the round constants of its shift register; and \<open>keccak\<close> is the sponge over it with the padding
  \<open>1 0* 1\<close> of Keccak: for a digest of \<open>mdlen\<close> bytes at the rate \<open>200 - 2 mdlen\<close>, and for 200 bytes, the call of
  CryptoNight, at the rate 136 with the whole state as its result.\<close>

theorem keccak_fips:
  "(length st = 25 \<longrightarrow> keccakf st 24 = keccak_f st) \<and>
   keccak inp 200 = Some (keccak_c 136 1 inp 200) \<and>
   (28 \<le> mdlen \<longrightarrow> mdlen < 100 \<longrightarrow> mdlen mod 4 = 0 \<longrightarrow> keccak inp mdlen = Some (keccak_c (nat (200 - 2 * mdlen)) 1 inp (nat mdlen)))"
proof -
  have rate: "nat (200 - 2 * mdlen) mod 8 = 0" if lt: "mdlen < 100" and four: "mdlen mod 4 = 0"
  proof -
    obtain k where k: "mdlen = 4 * k" using four by (auto simp: mod_eq_0_iff_dvd dvd_def)
    then have "nat (200 - 2 * mdlen) = 8 * nat (25 - k)" using lt by (simp flip: nat_mult_distrib)
    then show ?thesis by simp
  qed
  then show ?thesis
    using keccakf_keccak_f [of st] keccak_sponge [of 136 200 inp] keccak_sponge [of "nat (200 - 2 * mdlen)" mdlen inp]
    by (auto simp: KECCAK_ROUNDS_def HASH_DATA_AREA_def mod_eq_0_iff_dvd)
qed

theorem keccak_fips_witness:
  "keccakf (replicate 25 7) 24 = keccak_f (replicate 25 7) \<and> keccak [1, 2, 3] 200 = Some (keccak_c 136 1 [1, 2, 3] 200) \<and>
   keccak [1, 2, 3] 32 = Some (keccak_c 136 1 [1, 2, 3] 32)"
  using keccak_fips [of "replicate 25 7" "[1, 2, 3]" 32] by simp

end
