(* ===== verification/Sha3_Fips.thy ===== *)
theory Sha3_Fips
  imports Keccak_Fips
begin

text \<open>
  The incremental SHA-3 of \<open>sha3.cpp\<close>. Its update is a stream over words of 8 bytes, an instance of
  \<open>stream_hash\<close>; the words of a block are the block of the sponge; and the finalisation adds the padding in place.
\<close>

subsection \<open>The bytes in the saved word\<close>

lemma take_le_bytes: "k \<le> n \<Longrightarrow> take k (le_bytes n w) = le_bytes k w"
  by (rule nth_equalityI) (simp_all add: nth_le_bytes)

lemma le_word_append: "le_word (xs @ ys) = le_word xs OR push_bit (8 * length xs) (le_word ys :: 'a::len word)"
  by (induction xs) (simp_all add: push_bit_or or.assoc add.commute)

lemma le_word_snoc: "le_word (xs @ [b]) = le_word xs OR push_bit (8 * length xs) (ucast b :: 'a::len word)"
  by (simp add: le_word_append)

lemma take_saved: "length p \<le> 8 \<Longrightarrow> take (length p) (store64_native (le_word p)) = p"
  by (simp add: store64_native_def take_le_bytes le_bytes_le_word)

definition sha_inv :: "sha3_context \<Rightarrow> bool" where
  "sha_inv ctx \<longleftrightarrow> sha_byteIndex ctx < 8 \<and> (\<exists>p. length p = sha_byteIndex ctx \<and> sha_saved ctx = le_word p)"

definition sha_pend :: "sha3_context \<Rightarrow> bytes" where
  "sha_pend ctx = take (sha_byteIndex ctx) (store64_native (sha_saved ctx))"

lemma sha_inv_pend:
  assumes "sha_inv ctx"
  shows "length (sha_pend ctx) = sha_byteIndex ctx" "sha_saved ctx = le_word (sha_pend ctx)" "length (sha_pend ctx) < 8"
proof -
  obtain p where p: "length p = sha_byteIndex ctx" "sha_saved ctx = le_word p" "sha_byteIndex ctx < 8"
    using assms by (auto simp: sha_inv_def)
  then have "sha_pend ctx = p" using take_saved [of p] by (simp add: sha_pend_def)
  then show "length (sha_pend ctx) = sha_byteIndex ctx" "sha_saved ctx = le_word (sha_pend ctx)" "length (sha_pend ctx) < 8"
    using p by simp_all
qed

lemma sha_pend_eq:
  "sha_byteIndex ctx < 8 \<Longrightarrow> length p = sha_byteIndex ctx \<Longrightarrow> sha_saved ctx = le_word p \<Longrightarrow> sha_inv ctx \<and> sha_pend ctx = p"
  using take_saved [of p] by (auto simp: sha_inv_def sha_pend_def)

lemma sha3_save_eq:
  assumes "length p = sha_byteIndex ctx" "sha_saved ctx = le_word p"
  shows "sha3_save bs ctx = ctx\<lparr>sha_saved := le_word (p @ bs), sha_byteIndex := sha_byteIndex ctx + length bs\<rparr>"
  using assms
proof (induction bs arbitrary: p ctx)
  case Nil
  then show ?case by (simp add: sha3_save_def)
next
  case (Cons b bs)
  let ?c = "ctx\<lparr>sha_saved := sha_saved ctx OR push_bit (sha_byteIndex ctx * 8) (ucast b), sha_byteIndex := sha_byteIndex ctx + 1\<rparr>"
  have "sha_saved ?c = le_word (p @ [b])" using Cons.prems by (simp add: le_word_snoc mult.commute)
  then show ?case using Cons.IH [of "p @ [b]" ?c] Cons.prems by (simp add: sha3_save_def)
qed

lemma sha3_load_native: "8 \<le> length buf \<Longrightarrow> sha3_load buf = load64_native buf"
  by (simp add: sha3_load_def load64_native_def take_nth_expand push_bit_or or.assoc)

subsection \<open>The update is a stream of words\<close>

type_synonym sha_chain = "u32 \<times> u64 list \<times> nat"

definition word_step :: "sha_chain \<Rightarrow> bytes \<Rightarrow> sha_chain" where
  "word_step = (\<lambda>(cap, s, i) b.
     (let s = s[i := s ! i XOR load64_native b]
      in if i + 1 = SHA3_KECCAK_SPONGE_WORDS - SHA3_CW cap then (cap, keccakf s KECCAK_ROUNDS, 0) else (cap, s, i + 1)))"

definition sha_chain :: "sha3_context \<Rightarrow> sha_chain" where
  "sha_chain ctx = (sha_capacityWords ctx, sha_s ctx, sha_wordIndex ctx)"

lemma sha3_word_step:
  "sha_chain (sha3_word (load64_native b) ctx) = word_step (sha_chain ctx) b"
  "sha_saved (sha3_word w ctx) = sha_saved ctx" "sha_byteIndex (sha3_word w ctx) = sha_byteIndex ctx"
  by (simp_all add: sha3_word_def sha_chain_def word_step_def Let_def sha3_rate_words_def)

lemma fold_upt_Suc: "fold f [0..<Suc n] x = fold (\<lambda>i. f (Suc i)) [0..<n] (f 0 x)"
proof -
  have "[0..<Suc n] = 0 # map Suc [0..<n]" by (simp only: map_Suc_upt upt_conv_Cons zero_less_Suc)
  then show ?thesis by (simp add: fold_map comp_def del: upt_Suc)
qed

lemma sha3_words_absorb:
  assumes "n = length buf div 8"
  shows "absorb 8 8 word_step (sha_chain ctx) buf = (sha_chain (sha3_words n buf ctx), drop (8 * n) buf) \<and>
    sha_saved (sha3_words n buf ctx) = sha_saved ctx \<and> sha_byteIndex (sha3_words n buf ctx) = sha_byteIndex ctx"
  using assms
proof (induction n arbitrary: buf ctx)
  case 0
  then have "length buf < 8" by auto
  then show ?case by (simp add: absorb_short sha3_words_def)
next
  case (Suc n)
  have "8 \<le> length buf"
  proof (rule ccontr)
    assume "\<not> 8 \<le> length buf"
    then show False using Suc.prems by simp
  qed
  then have len: "8 \<le> length buf" "n = length (drop 8 buf) div 8" using Suc.prems by (simp_all add: le_div_geq)
  have "sha3_words (Suc n) buf ctx = sha3_words n (drop 8 buf) (sha3_word (sha3_load buf) ctx)"
    by (simp add: sha3_words_def fold_upt_Suc add.commute del: upt_Suc)
  moreover have "sha_chain (sha3_word (sha3_load buf) ctx) = word_step (sha_chain ctx) (take 8 buf)"
    using len(1) by (simp add: sha3_load_native load64_native_def flip: sha3_word_step(1))
  ultimately show ?case
    using Suc.IH [OF len(2), of "sha3_word (sha3_load buf) ctx"] len(1) by (simp add: absorb_step sha3_word_step add.commute)
qed

text \<open>Without a started word: the words of the piece, and its rest is saved.\<close>

definition sha3_rest :: "bytes \<Rightarrow> sha3_context \<Rightarrow> sha3_context" where
  "sha3_rest b c = sha3_save (take (length b - length b div 8 * 8) (drop (length b div 8 * 8) b)) (sha3_words (length b div 8) b c)"

lemma sha3_rest_refines:
  assumes "sha_saved c = 0" "sha_byteIndex c = 0"
  shows "sha_inv (sha3_rest b c) \<and> (sha_chain (sha3_rest b c), sha_pend (sha3_rest b c)) = absorb 8 8 word_step (sha_chain c) b"
proof -
  note w = sha3_words_absorb [OF refl, where buf = b and ctx = c]
  let ?c = "sha3_words (length b div 8) b c" and ?t = "drop (length b div 8 * 8) b"
  have t: "take (length b - length b div 8 * 8) ?t = ?t" "length ?t < 8" by (simp_all add: minus_div_mult_eq_mod)
  have "sha3_save ?t ?c = ?c\<lparr>sha_saved := le_word ?t, sha_byteIndex := length ?t\<rparr>"
    using w assms by (subst sha3_save_eq [of "[]"]) simp_all
  then show ?thesis
    using w t sha_pend_eq [of "?c\<lparr>sha_saved := le_word ?t, sha_byteIndex := length ?t\<rparr>" ?t]
    by (simp add: sha3_rest_def sha_chain_def mult.commute)
qed

lemma sha3_Update_rest:
  "ot = (8 - sha_byteIndex ctx) mod 8 \<Longrightarrow> sha3_Update ctx m =
    (if length m < ot then sha3_save m ctx
     else sha3_rest (drop ot m) (if ot = 0 then ctx
       else sha3_word (sha_saved (sha3_save (take ot m) ctx)) ((sha3_save (take ot m) ctx)\<lparr>sha_byteIndex := 0, sha_saved := 0\<rparr>)))"
  unfolding sha3_Update_def sha3_rest_def Let_def
  by (cases "ot = 0") (simp_all only: simp_thms if_True if_False)

lemma sha3_Update_refines:
  assumes inv: "sha_inv ctx"
  shows "sha_inv (sha3_Update ctx m) \<and>
    (sha_chain (sha3_Update ctx m), sha_pend (sha3_Update ctx m)) = absorb 8 8 word_step (sha_chain ctx) (sha_pend ctx @ m)"
proof -
  define p where "p = sha_pend ctx"
  have p: "length p = sha_byteIndex ctx" "sha_saved ctx = le_word p" "length p < 8" using sha_inv_pend [OF inv] by (simp_all add: p_def)
  define ot where "ot = (8 - sha_byteIndex ctx) mod 8"
  show ?thesis
  proof (cases "length m < ot")
    case True
    then have l: "length (p @ m) < 8" using p by (simp add: ot_def mod_if split: if_splits)
    have "sha3_Update ctx m = ctx\<lparr>sha_saved := le_word (p @ m), sha_byteIndex := sha_byteIndex ctx + length m\<rparr>"
      using True p by (simp add: sha3_Update_rest [OF ot_def] sha3_save_eq [of p])
    then show ?thesis
      using l p sha_pend_eq [of "sha3_Update ctx m" "p @ m"] by (simp add: p_def [symmetric] absorb_short sha_chain_def)
  next
    case False
    show ?thesis
    proof (cases "ot = 0")
      case True
      then have "p = []" using p by (cases "sha_byteIndex ctx = 0") (auto simp: ot_def)
      then show ?thesis
        using True p sha3_rest_refines [of ctx m] by (simp add: sha3_Update_rest [OF ot_def] p_def [symmetric])
    next
      case no: False
      then have ot: "length p + ot = 8" "ot \<noteq> 0" using p by (auto simp: ot_def mod_if split: if_splits)
      define c1 where "c1 = sha3_word (le_word (p @ take ot m)) (ctx\<lparr>sha_byteIndex := 0, sha_saved := 0\<rparr>)"
      have word: "le_word (p @ take ot m) = load64_native (p @ take ot m)"
      proof -
        have "length (p @ take ot m) = 8" using ot False by simp
        then show ?thesis by (simp add: load64_native_def del: take_append append_take_drop_id)
      qed
      have c1: "sha_saved c1 = 0" "sha_byteIndex c1 = 0" "sha_chain c1 = word_step (sha_chain ctx) (p @ take ot m)"
        unfolding c1_def word by (simp_all add: sha3_word_step) (simp add: sha_chain_def)
      have "sha3_save (take ot m) ctx = ctx\<lparr>sha_saved := le_word (p @ take ot m), sha_byteIndex := sha_byteIndex ctx + length (take ot m)\<rparr>"
        using p by (intro sha3_save_eq) simp_all
      then have "sha3_Update ctx m = sha3_rest (drop ot m) c1"
        using no False by (simp add: sha3_Update_rest [OF ot_def] c1_def del: length_take)
      moreover have "absorb 8 8 word_step (sha_chain ctx) (p @ m) = absorb 8 8 word_step (sha_chain c1) (drop ot m)"
        using absorb_block [of 8 8 "p @ take ot m" "drop ot m" word_step "sha_chain ctx"] ot False by (simp add: c1(3))
      ultimately show ?thesis using sha3_rest_refines [OF c1(1,2), of "drop ot m"] by (simp only: p_def [symmetric])
    qed
  qed
qed

interpretation sha: stream_hash 8 8 word_step sha3_Update sha_chain sha_pend sha_inv
  by unfold_locales (use sha3_Update_refines in auto)

subsection \<open>Words and blocks\<close>

text \<open>With the capacity \<open>cap\<close> the rate is \<open>R\<close> words.\<close>

lemma xor_words_Suc: "xor_words (Suc n) p st = (xor_words n p st)[n := xor_words n p st ! n XOR load64_native (drop (8 * n) p)]"
  by (simp add: xor_words_def)

lemma words_absorb:
  assumes "25 - SHA3_CW cap = R" "8 * n \<le> length M" "n < R"
  shows "absorb 8 8 word_step (cap, S, 0) M = absorb 8 8 word_step (cap, xor_words n M S, n) (drop (8 * n) M)"
  using assms(2,3)
proof (induction n)
  case 0
  then show ?case by (simp add: xor_words_def)
next
  case (Suc n)
  have "8 \<le> length (drop (8 * n) M)" using Suc.prems by simp
  then have "absorb 8 8 word_step (cap, xor_words n M S, n) (drop (8 * n) M) =
      absorb 8 8 word_step (word_step (cap, xor_words n M S, n) (take 8 (drop (8 * n) M))) (drop (8 + 8 * n) M)"
    by (simp add: absorb_step)
  also have "word_step (cap, xor_words n M S, n) (take 8 (drop (8 * n) M)) = (cap, xor_words (Suc n) M S, Suc n)"
    using Suc.prems(2) assms(1) by (simp add: word_step_def Let_def xor_words_Suc SHA3_KECCAK_SPONGE_WORDS_def load64_native_def)
  finally show ?case using Suc by simp
qed

lemma block_absorb:
  assumes R: "25 - SHA3_CW cap = R" "0 < R" and S: "length S = 25" and M: "8 * R \<le> length M"
  shows "absorb 8 8 word_step (cap, S, 0) M = absorb 8 8 word_step (cap, sponge_step S (take (8 * R) M), 0) (drop (8 * R) M)"
proof -
  obtain n where n: "R = Suc n" using R(2) by (cases R) simp_all
  have "absorb 8 8 word_step (cap, S, 0) M = absorb 8 8 word_step (cap, xor_words n M S, n) (drop (8 * n) M)"
    using words_absorb [OF R(1), of n M S] M n by simp
  also have "\<dots> = absorb 8 8 word_step (word_step (cap, xor_words n M S, n) (take 8 (drop (8 * n) M))) (drop (8 + 8 * n) M)"
    using M n by (simp add: absorb_step)
  also have "word_step (cap, xor_words n M S, n) (take 8 (drop (8 * n) M)) = (cap, keccakf (xor_words R M S) KECCAK_ROUNDS, 0)"
    using R(1) n by (simp add: word_step_def Let_def xor_words_Suc SHA3_KECCAK_SPONGE_WORDS_def load64_native_def)
  also have "keccakf (xor_words R M S) KECCAK_ROUNDS = sponge_step S (take (8 * R) M)"
    using xor_words_block [OF S, of R M] M R(1) by (simp add: keccakf_keccak_f sponge_step_def)
  finally show ?thesis using n by simp
qed

text \<open>The whole message: the state after its blocks, with the words of the rest added.\<close>

lemma stream_sponge:
  assumes R: "25 - SHA3_CW cap = R" "0 < R" and S: "length S = 25"
    and a: "absorb (8 * R) (8 * R) sponge_step S M = (S', q)"
  shows "absorb 8 8 word_step (cap, S, 0) M = ((cap, xor_words (length q div 8) q S', length q div 8), drop (8 * (length q div 8)) q) \<and>
    length q < 8 * R \<and> length S' = 25"
  using S a
proof (induction "length M" arbitrary: S M rule: less_induct)
  case less
  show ?case
  proof (cases "8 * R \<le> length M")
    case True
    have "absorb (8 * R) (8 * R) sponge_step (sponge_step S (take (8 * R) M)) (drop (8 * R) M) = (S', q)"
      using less.prems(2) True R(2) by (simp add: absorb_step)
    then show ?thesis
      using less.hyps [of "drop (8 * R) M" "sponge_step S (take (8 * R) M)"] block_absorb [OF R less.prems(1) True] True R(2) by simp
  next
    case False
    then have q: "q = M" "S' = S" using less.prems(2) R(2) by (simp_all add: absorb_short)
    have n: "8 * (length M div 8) \<le> length M" "length M div 8 < R" using False by auto
    have "length (drop (8 * (length M div 8)) M) < 8" by (simp add: minus_mult_div_eq_mod)
    then show ?thesis
      using words_absorb [OF R(1) n, of S] False less.prems(1) q by (simp add: absorb_short)
  qed
qed

subsection \<open>The padding\<close>

text \<open>The bytes of a rest with its padding, one formula for all positions.\<close>

lemma padded_nth:
  assumes "length q < r" "k < r"
  shows "(q @ (if r - length q = 1 then [d OR 0x80] else d # replicate (r - length q - 2) 0 @ [0x80])) ! k =
    (if k < length q then q ! k else (if k = length q then d else 0) OR (if k = r - 1 then 0x80 else (0 :: u8)))"
  using assms by (auto simp: nth_append nth_Cons')

lemma bit_load64_at:
  assumes "8 * i + 8 \<le> length e" "j < 64"
  shows "bit (load64_native (drop (8 * i) e)) j = bit (e ! (8 * i + j div 8)) (j mod 8)"
proof -
  have "j div 8 < 8" using assms(2) by (simp add: less_mult_imp_div_less)
  then show ?thesis using assms by (simp add: load64_native_def bit_le_word)
qed

lemma bit_0x80: "b < 8 \<Longrightarrow> bit (0x80 :: u8) b \<longleftrightarrow> b = 7"
proof -
  have "(0x80 :: u8) = push_bit 7 1" by simp
  then show "b < 8 \<Longrightarrow> ?thesis" by (simp only: bit_push_bit_iff bit_1_iff) auto
qed

lemma bit_top: "j = 8 * a + b \<Longrightarrow> b < 8 \<Longrightarrow> bit (0x8000000000000000 :: u64) j \<longleftrightarrow> a = 7 \<and> b = 7"
proof -
  have "(0x8000000000000000 :: u64) = push_bit 63 1" by simp
  then show "j = 8 * a + b \<Longrightarrow> b < 8 \<Longrightarrow> ?thesis" by (simp only: bit_push_bit_iff bit_1_iff) (auto, presburger+)
qed

lemma bit_pushed_byte:
  assumes "j = 8 * a + b" "b < 8" "l < 8"
  shows "bit (push_bit (l * 8) (ucast (d :: u8)) :: u64) j \<longleftrightarrow> a = l \<and> bit d b"
proof -
  consider "a < l" | "a = l" | "l < a" by linarith
  then show ?thesis
  proof cases
    case 1
    then show ?thesis using assms by (simp add: bit_push_bit_iff)
  next
    case 2
    then show ?thesis using assms by (simp add: bit_push_bit_iff bit_unsigned_iff)
  next
    case 3
    then have "\<not> bit d (j - l * 8)" using assms bit_u8 [of d "j - l * 8"] by auto
    then show ?thesis using 3 by (simp add: bit_push_bit_iff bit_unsigned_iff)
  qed
qed

text \<open>The padding byte \<open>d\<close> leaves the last bit of a word free.\<close>

lemma padded_word:
  assumes q: "length q < 8 * R" "i < R" and d: "\<not> bit d 7"
    and e: "e = q @ (if 8 * R - length q = 1 then [d OR 0x80] else d # replicate (8 * R - length q - 2) 0 @ [0x80 :: u8])"
    and w: "w = length q div 8"
  shows "load64_native (drop (8 * i) e) =
    (if i < w then load64_native (drop (8 * i) q)
     else if i = w then le_word (drop (8 * w) q) XOR push_bit ((length q - 8 * w) * 8) (ucast d) else 0) XOR
    (if i = R - 1 then 0x8000000000000000 else 0)" (is "?l = ?r")
proof (rule bit_word_eqI)
  fix j assume "j < LENGTH(64)"
  then have j: "j < 64" "j div 8 < 8" by auto
  have le: "length e = 8 * R" using q(1) by (auto simp: e)
  have k: "8 * i + j div 8 < 8 * R" using j q(2) by linarith
  have "bit ?l j = bit (e ! (8 * i + j div 8)) (j mod 8)" using bit_load64_at [of i e j] le q(2) j by simp
  also have "\<dots> = bit (if 8 * i + j div 8 < length q then q ! (8 * i + j div 8)
      else (if 8 * i + j div 8 = length q then d else 0) OR (if 8 * i + j div 8 = 8 * R - 1 then 0x80 else 0)) (j mod 8)"
    unfolding e by (subst padded_nth [OF q(1) k]) simp
  also have "\<dots> = bit ?r j"
  proof -
    define l where "l = length q - 8 * w"
    have l: "length q = 8 * w + l" "l < 8" using w by (auto simp: l_def minus_mult_div_eq_mod)
    define a b where "a = j div 8" and "b = j mod 8"
    have ab: "j = 8 * a + b" "b < 8" "a < 8" using j(2) by (simp_all add: a_def b_def)
    have eq: "j div 8 = a" "j mod 8 = b" by (simp_all add: a_def b_def)
    note last = bit_0x80 [OF ab(2)] bit_top [OF ab(1,2)]
    have dbit: "bit (push_bit (l * 8) (ucast d) :: u64) j \<longleftrightarrow> a = l \<and> bit d b"
      by (rule bit_pushed_byte [OF ab(1,2) l(2)])
    have qbit: "bit (le_word (drop (8 * w) q) :: u64) j \<longleftrightarrow> a < l \<and> bit (q ! (8 * w + a)) b"
    proof -
      have "j < 8 * l \<longleftrightarrow> a < l" using ab(1,2) by linarith
      then show ?thesis using j(1) l(1) by (simp add: bit_le_word eq)
    qed
    have R: "8 * i + a = 8 * R - 1 \<longleftrightarrow> i = R - 1 \<and> a = 7" using ab(3) q by linarith
    have d7: "\<not> (bit d b \<and> b = 7)" using d by auto
    consider "i < w" | "i = w" | "w < i" by linarith
    then show ?thesis
    proof cases
      case 1
      have h: "8 * i + a < length q" "8 * i + 8 \<le> length q" using 1 l(1) ab(3) by linarith+
      have "i \<noteq> R - 1" using h(2) q(1) 1 by linarith
      then show ?thesis using h 1 bit_load64_at [OF h(2) j(1)] by (simp add: eq)
    next
      case 2
      have h: "8 * i + a < length q \<longleftrightarrow> a < l" "8 * i + a = length q \<longleftrightarrow> a = l" using 2 l(1) by linarith+
      show ?thesis
        unfolding eq using 2 h R dbit qbit last d7 l(2)
        by (cases "a < l"; cases "i = R - 1") (auto simp: bit_xor_iff bit_or_iff l_def [symmetric])
    next
      case 3
      have h: "\<not> 8 * i + a < length q" "8 * i + a \<noteq> length q" using 3 l by linarith+
      show ?thesis
        unfolding eq using 3 h R last by (simp add: bit_xor_iff bit_or_iff)
    qed
  qed
  finally show "bit ?l j = bit ?r j" .
qed

subsection \<open>The finalisation is the last block\<close>

lemma le_bytes_map: "le_bytes n w = map (\<lambda>i. ucast (drop_bit (8 * i) w)) [0..<n]"
  by (rule nth_equalityI) (simp_all add: nth_le_bytes)

lemma ucast_u32_byte: "k \<le> 24 \<Longrightarrow> ucast (drop_bit k (ucast (v :: u64) :: u32)) = (ucast (drop_bit k v) :: u8)"
  by (intro bit_word_eqI) (auto simp: bit_unsigned_iff bit_drop_bit_eq)

lemma sha3_split_store: "sha3_split w = store64_native w"
proof -
  have upt: "[0..<8] = [0, 1, 2, 3, 4, 5, 6, 7 :: nat]" by (simp add: upt_rec)
  have "ucast (ucast v :: u32) = (ucast v :: u8)" for v :: u64 using ucast_u32_byte [of 0 v] by simp
  then show ?thesis
    by (simp add: sha3_split_def store64_native_def le_bytes_map upt ucast_u32_byte Let_def)
qed

definition pad_bits :: "u32 \<Rightarrow> u8" where
  "pad_bits cap = (if cap AND SHA3_USE_KECCAK_FLAG \<noteq> 0 then 1 else 6)"

lemma finalize_block:
  assumes q: "length q < 8 * R" and R: "R = sha3_rate_words ctx" "R \<le> 25" and S: "length S = 25"
    and inv: "sha_inv ctx" and chain: "sha_s ctx = xor_words (length q div 8) q S" "sha_wordIndex ctx = length q div 8"
    and pend: "sha_pend ctx = drop (8 * (length q div 8)) q" and d: "d = pad_bits (sha_capacityWords ctx)"
    and e: "e = q @ (if 8 * R - length q = 1 then [d OR 0x80] else d # replicate (8 * R - length q - 2) 0 @ [0x80])"
  shows "sha3_Finalize ctx = concat (map store64_native (sponge_step S e))"
proof -
  define w where "w = length q div 8"
  have w: "w < R" "w \<le> 25" "w < 25" "0 < R" using q R(2) by (simp_all add: w_def)
  have le: "length e = 8 * R" using q by (auto simp: e)
  have byte: "sha_byteIndex ctx = length q - 8 * w" using sha_inv_pend(1) [OF inv] by (simp add: pend w_def)
  have saved: "sha_saved ctx = le_word (drop (8 * w) q)" using sha_inv_pend(2) [OF inv] by (simp add: pend w_def)
  have d7: "\<not> bit d 7" using bit_0x80 by (auto simp: d pad_bits_def dest: bit_u8)
  have t: "(if sha_capacityWords ctx AND SHA3_USE_KECCAK_FLAG \<noteq> 0 then push_bit (sha_byteIndex ctx * 8) 1
      else push_bit (sha_byteIndex ctx * 8) (0x02 OR push_bit 2 1)) = push_bit ((length q - 8 * w) * 8) (ucast d :: u64)"
    by (simp add: d pad_bits_def byte)
  let ?s = "xor_words w q S"
  let ?s1 = "?s[w := ?s ! w XOR (sha_saved ctx XOR push_bit ((length q - 8 * w) * 8) (ucast d))]"
  have ls: "length ?s = 25" using xor_words_nth [OF S w(2)] by blast
  have "?s1[R - 1 := ?s1 ! (R - 1) XOR 0x8000000000000000] = xor_block S e"
  proof (rule nth_equalityI)
    fix i assume "i < length (?s1[R - 1 := ?s1 ! (R - 1) XOR 0x8000000000000000])"
    then have i: "i < 25" using ls by simp
    have base: "?s ! i = (if i < w then S ! i XOR load64_native (drop (8 * i) q) else S ! i)"
      using xor_words_nth [OF S w(2), of q] i by blast
    show "?s1[R - 1 := ?s1 ! (R - 1) XOR 0x8000000000000000] ! i = xor_block S e ! i"
    proof (cases "i < R")
      case True
      note pw = padded_word [OF q True d7 e w_def]
      have "xor_block S e ! i = S ! i XOR load64_native (drop (8 * i) e)"
        using i le True by (simp add: xor_block_def del: upt_Suc)
      note block = this [unfolded pw]
      show ?thesis
        using True w ls base i block
        by (cases "i = w"; cases "i = R - 1") (auto simp: nth_list_update saved xor.assoc)
    next
      case False
      then show ?thesis using i le w ls base by (simp add: xor_block_def nth_list_update del: upt_Suc)
    qed
  qed (simp add: ls)
  moreover have "length (xor_block S e) = 25" by simp
  ultimately show ?thesis
    unfolding sha3_Finalize_def t chain(1,2) w_def [symmetric] R(1) [symmetric] Let_def
    by (simp only: keccakf_keccak_f sha3_split_store sponge_step_def cong: map_cong) 
qed

subsection \<open>SHA-3 of a message\<close>

definition sha3_ready :: "u32 \<Rightarrow> u32 \<Rightarrow> sha3_context" where
  "sha3_ready n flags = snd (sha3_SetFlags flags (the (sha3_Init n)))"

lemma sha3_ready_facts:
  assumes "n = 256 \<or> n = 384 \<or> n = 512" "flags = SHA3_FLAGS_NONE \<or> flags = SHA3_FLAGS_KECCAK"
  shows "sha_inv (sha3_ready n flags)" "sha_pend (sha3_ready n flags) = []"
    "\<exists>cap R. sha_chain (sha3_ready n flags) = (cap, replicate 25 0, 0) \<and> 25 - SHA3_CW cap = R \<and> 0 < R \<and> R \<le> 25 \<and>
      8 * R = 200 - 2 * (unat n div 8) \<and> pad_bits cap = (if flags = SHA3_FLAGS_NONE then 6 else 1)"
proof -
  have r: "sha3_ready n flags = \<lparr>sha_saved = 0, sha_s = replicate 25 0, sha_byteIndex = 0, sha_wordIndex = 0,
      sha_capacityWords = (2 * n div 64) OR (if flags = SHA3_FLAGS_KECCAK then SHA3_USE_KECCAK_FLAG else 0)\<rparr>"
    using assms by (auto simp: sha3_ready_def sha3_Init_def sha3_SetFlags_def Let_def SHA3_FLAGS_NONE_def SHA3_FLAGS_KECCAK_def)
  then show "sha_inv (sha3_ready n flags)" "sha_pend (sha3_ready n flags) = []"
    by (simp_all add: sha_inv_def sha_pend_def)
  show "\<exists>cap R. sha_chain (sha3_ready n flags) = (cap, replicate 25 0, 0) \<and> 25 - SHA3_CW cap = R \<and> 0 < R \<and> R \<le> 25 \<and>
      8 * R = 200 - 2 * (unat n div 8) \<and> pad_bits cap = (if flags = SHA3_FLAGS_NONE then 6 else 1)"
    using assms unfolding r sha_chain_def
    by (elim disjE)
      (simp_all add: SHA3_CW_def SHA3_USE_KECCAK_FLAG_def SHA3_FLAGS_NONE_def SHA3_FLAGS_KECCAK_def pad_bits_def)
qed

lemma sha3_stream:
  assumes "n = 256 \<or> n = 384 \<or> n = 512" "flags = SHA3_FLAGS_NONE \<or> flags = SHA3_FLAGS_KECCAK"
  shows "sha3_Finalize (foldl sha3_Update (sha3_ready n flags) ms) =
    concat (map store64_native (sponge_state (200 - 2 * (unat n div 8)) (if flags = SHA3_FLAGS_NONE then 6 else 1) (concat ms)))"
proof -
  let ?c = "sha3_ready n flags" and ?f = "foldl sha3_Update (sha3_ready n flags) ms"
  obtain cap R where R: "sha_chain ?c = (cap, replicate 25 0, 0)" "25 - SHA3_CW cap = R" "0 < R" "R \<le> 25"
      "8 * R = 200 - 2 * (unat n div 8)" "pad_bits cap = (if flags = SHA3_FLAGS_NONE then 6 else 1)"
    using sha3_ready_facts(3) [OF assms] by blast
  obtain S q where a: "absorb (8 * R) (8 * R) sponge_step (replicate 25 0) (concat ms) = (S, q)"
    by (cases "absorb (8 * R) (8 * R) sponge_step (replicate 25 0) (concat ms)")
  note st = stream_sponge [OF R(2,3) _ a, simplified length_replicate, OF refl]
  have inv: "sha_inv ?f" by (rule sha.foldl_upd_inv [OF sha3_ready_facts(1) [OF assms]])
  have f: "(sha_chain ?f, sha_pend ?f) = ((cap, xor_words (length q div 8) q S, length q div 8), drop (8 * (length q div 8)) q)"
    using sha.foldl_upd_refines [OF sha3_ready_facts(1) [OF assms], of ms] st sha3_ready_facts(2) [OF assms] R(1) by simp
  have "sha3_Finalize ?f = concat (map store64_native (sponge_step S
      (q @ (if 8 * R - length q = 1 then [pad_bits cap OR 0x80] else pad_bits cap # replicate (8 * R - length q - 2) 0 @ [0x80]))))"
    by (rule finalize_block [where ctx = ?f and R = R])
      (use f st inv R in \<open>simp_all add: sha_chain_def sha3_rate_words_def SHA3_KECCAK_SPONGE_WORDS_def\<close>)
  also have "\<dots> = concat (map store64_native (sponge_state (8 * R) (pad_bits cap) (concat ms)))"
    using sponge_last_block [OF _ a, of "pad_bits cap"] R(3) by simp
  finally show ?thesis using R(5,6) by simp
qed

text \<open>C28. The functions of \<open>sha3.cpp\<close> are SHA-3 of FIPS 202, and with the flag the Keccak of the original submission:
  whatever pieces the message comes in, and however they cut its words and blocks, the first \<open>n / 8\<close> bytes
  that \<open>sha3_Finalize\<close> leaves in the state are the sponge of the whole message at the rate \<open>200 - n / 4\<close>.
  \<open>sha3_HashBuffer\<close> writes those bytes, at most as many as the caller has room for and nothing after them; for any other
  size or flag it writes nothing and says so.\<close>

theorem sha3_fips:
  assumes "n = 256 \<or> n = 384 \<or> n = 512" "flags = SHA3_FLAGS_NONE \<or> flags = SHA3_FLAGS_KECCAK"
    and "dg = (\<lambda>M. keccak_c (200 - 2 * (unat n div 8)) (if flags = SHA3_FLAGS_NONE then 6 else 1) M (unat n div 8))"
    and "bad \<notin> {256, 384, 512} \<or> other \<notin> {SHA3_FLAGS_NONE, SHA3_FLAGS_KECCAK}"
  shows "(\<exists>c. sha3_Init n = Some c \<and>
      take (unat n div 8) (sha3_Finalize (foldl sha3_Update (snd (sha3_SetFlags flags c)) ms)) = dg (concat ms)) \<and>
    sha3_HashBuffer n flags inp out k =
      (SHA3_RETURN_OK, take (unat k) (dg inp) @ drop (min (unat k) (unat n div 8)) out) \<and>
    sha3_HashBuffer bad other inp out k = (SHA3_RETURN_BAD_PARAMS, out)"
proof -
  obtain c where c: "sha3_Init n = Some c" using assms(1) by (auto simp: sha3_Init_def)
  have flags: "fst (sha3_SetFlags flags c) = flags"
    using assms(2) by (auto simp: sha3_SetFlags_def Let_def SHA3_FLAGS_NONE_def SHA3_FLAGS_KECCAK_def)
  have ready: "snd (sha3_SetFlags flags c) = sha3_ready n flags" by (simp add: sha3_ready_def c)
  have all: "take (unat n div 8) (sha3_Finalize (foldl sha3_Update (sha3_ready n flags) ms)) = dg (concat ms)" for ms
    by (simp add: sha3_stream [OF assms(1,2)] assms(3) keccak_c_def)
  have len: "length (dg M) \<le> unat n div 8" for M by (simp add: assms(3) keccak_c_def)
  have out: "unat (if k > n div 8 then n div 8 else k) = min (unat k) (unat n div 8)"
    by (simp add: word_less_nat_alt unat_div min_def)
  have "sha3_HashBuffer n flags inp out k =
      (SHA3_RETURN_OK, memcpy_at out 0 (sha3_Finalize (sha3_Update (sha3_ready n flags) inp)) (min (unat k) (unat n div 8)))"
    using flags ready out by (simp add: sha3_HashBuffer_def c Let_def split_beta)
  also have "memcpy_at out 0 (sha3_Finalize (sha3_Update (sha3_ready n flags) inp)) (min (unat k) (unat n div 8)) =
      take (unat k) (dg inp) @ drop (min (unat k) (unat n div 8)) out"
    using all [of "[inp]", symmetric] by (simp add: memcpy_at_start min_def)
  finally have ok: "sha3_HashBuffer n flags inp out k =
      (SHA3_RETURN_OK, take (unat k) (dg inp) @ drop (min (unat k) (unat n div 8)) out)" .
  have "other AND SHA3_FLAGS_KECCAK \<noteq> other" if "other \<notin> {SHA3_FLAGS_NONE, SHA3_FLAGS_KECCAK}"
  proof
    assume h: "other AND SHA3_FLAGS_KECCAK = other"
    have "other AND 1 = 0 \<or> other AND 1 = 1" by (simp add: and_one_eq mod_2_eq_odd)
    then show False using h that by (auto simp: SHA3_FLAGS_NONE_def SHA3_FLAGS_KECCAK_def)
  qed
  then have "sha3_HashBuffer bad other inp out k = (SHA3_RETURN_BAD_PARAMS, out)"
    using assms(4) by (auto simp: sha3_HashBuffer_def sha3_Init_def sha3_SetFlags_def Let_def)
  then show ?thesis using c all ready ok by simp
qed

theorem sha3_fips_witness:
  "take 32 (sha3_Finalize (foldl sha3_Update (snd (sha3_SetFlags 1 (the (sha3_Init 256)))) [[1, 2], [], [3]])) = keccak_c 136 1 [1, 2, 3] 32 \<and>
   sha3_HashBuffer 256 1 [7] (replicate 40 0) 64 = (SHA3_RETURN_OK, keccak_c 136 1 [7] 32 @ replicate 8 0) \<and>
   sha3_HashBuffer 224 0 [7] [] 0 = (SHA3_RETURN_BAD_PARAMS, [])"
  using sha3_fips [of 256 SHA3_FLAGS_KECCAK "\<lambda>M. keccak_c 136 1 M 32" 224 0 "[[1, 2], [], [3]]" "[7]" "replicate 40 0" 64]
    sha3_fips [of 256 SHA3_FLAGS_KECCAK "\<lambda>M. keccak_c 136 1 M 32" 224 0 "[[1, 2], [], [3]]" "[7]" "[]" 0]
  by (auto simp: SHA3_FLAGS_KECCAK_def SHA3_FLAGS_NONE_def keccak_c_def)

end
