(* ===== verification/Json.thy ===== *)
theory Json
  imports Prelude
begin

text \<open>
  \<open>base/io/json/Json.cpp\<close>: reading members of a message. The values are those of the JSON library, after its parser; a
  string can hold any characters, and a C string taken from it ends at its first null.
\<close>

datatype json =
    JNull | JBool bool | JInt int | JDouble | JString string | JArray "json list" | JObject "(string \<times> json) list"

definition cstr :: "string \<Rightarrow> string" where
  "cstr = takeWhile (\<lambda>c. c \<noteq> CHR 0x00)"

definition json_isObject :: "json \<Rightarrow> bool" where
  "json_isObject v \<longleftrightarrow> (case v of JObject ms \<Rightarrow> True | _ \<Rightarrow> False)"

definition json_isEmpty :: "json \<Rightarrow> bool" where
  "json_isEmpty obj \<longleftrightarrow> (case obj of JObject ms \<Rightarrow> ms = [] | _ \<Rightarrow> True)"

definition FindMember :: "json \<Rightarrow> string \<Rightarrow> json option" where
  "FindMember obj key = (case obj of JObject ms \<Rightarrow> map_of ms key | _ \<Rightarrow> None)"

definition getString :: "json \<Rightarrow> string \<Rightarrow> string option" where
  "getString obj key =
     (if json_isEmpty obj then None
      else (case FindMember obj key of Some (JString s) \<Rightarrow> Some (cstr s) | _ \<Rightarrow> None))"

definition getValue :: "json \<Rightarrow> string \<Rightarrow> json" where
  "getValue obj key =
     (if json_isEmpty obj then JNull else (case FindMember obj key of Some v \<Rightarrow> v | None \<Rightarrow> JNull))"

definition getUint64 :: "json \<Rightarrow> string \<Rightarrow> u64" where
  "getUint64 obj key =
     (if json_isEmpty obj then 0
      else (case FindMember obj key of
              Some (JInt i) \<Rightarrow> if 0 \<le> i \<and> i < 2 ^ 64 then word_of_int i else 0
            | _ \<Rightarrow> 0))"

text \<open>
  \<open>obj[key]\<close> and \<open>v.GetString()\<close>, whose assertions the library in the repository has turned off: a missing member is a
  null value, whose string is a null pointer, as that of a number; the pointer of an array or an
  object is not to characters, which is \<^term>\<open>None\<close>.
\<close>

definition member :: "json \<Rightarrow> string \<Rightarrow> json" where
  "member obj key = (case FindMember obj key of Some v \<Rightarrow> v | None \<Rightarrow> JNull)"

definition GetString :: "json \<Rightarrow> string option option" where
  "GetString v =
     (case v of JString s \<Rightarrow> Some (Some (cstr s)) | JArray vs \<Rightarrow> None | JObject ms \<Rightarrow> None | _ \<Rightarrow> Some None)"

definition isInt64 :: "json \<Rightarrow> bool" where
  "isInt64 v \<longleftrightarrow> (case v of JInt i \<Rightarrow> - (2 ^ 63) \<le> i \<and> i < 2 ^ 63 | _ \<Rightarrow> False)"

definition GetInt64 :: "json \<Rightarrow> int" where
  "GetInt64 v = (case v of JInt i \<Rightarrow> i | _ \<Rightarrow> 0)"

end
