(* ===== verification/Line_Reader.thy ===== *)
theory Line_Reader
  imports Prelude
begin

text \<open>
  \<open>base/net/tools/LineReader.cpp\<close>: the lines of a stream that arrives in pieces. The state is the text in the buffer,
  the \<open>m_pos\<close> characters at \<open>m_buf\<close>; an empty buffer is the same with and without its memory.
\<close>

subsection \<open>The code\<close>

definition NET_BUFFER_CHUNK_SIZE :: nat where "NET_BUFFER_CHUNK_SIZE = 64 * 1024"

abbreviation newline :: char where "newline \<equiv> CHR 0x0A"

definition lr_add :: "string \<Rightarrow> string \<Rightarrow> string" where
  "lr_add buf d = (if length d + length buf > NET_BUFFER_CHUNK_SIZE then buf else buf @ d)"

text \<open>\<open>getline\<close>: the lines given to the listener, and the buffer. The newline of a line becomes its final null.\<close>

function lr_getline :: "string \<Rightarrow> string \<Rightarrow> string list \<times> string" where
  "lr_getline buf d =
     (if newline \<in> set d then
        let start = takeWhile (\<lambda>c. c \<noteq> newline) d @ [CHR 0x00];
            rest = drop (length start) d;
            line = (if buf \<noteq> [] then let b = lr_add buf start in [take (length b - 1) b]
                    else if 1 < length start then [take (length start - 1) start] else []);
            (out, buf) = lr_getline [] rest
        in (line @ out, buf)
      else if d = [] then ([], []) else ([], lr_add buf d))"
  by pat_completeness auto
termination by (relation "measure (\<lambda>(buf, d). length d)") (auto simp: in_set_conv_decomp)

declare lr_getline.simps [simp del]

definition lr_parse :: "string \<Rightarrow> string \<Rightarrow> string list \<times> string" where
  "lr_parse buf d = (if d = [] then ([], buf) else lr_getline buf d)"

definition lr_chunks :: "string list \<Rightarrow> string list \<times> string" where
  "lr_chunks ds = foldl (\<lambda>(out, buf) d. case lr_parse buf d of (ls, buf) \<Rightarrow> (out @ ls, buf)) ([], []) ds"

subsection \<open>The lines of a text\<close>

function split_lines :: "string \<Rightarrow> string list \<times> string" where
  "split_lines text =
     (if newline \<in> set text then
        let line = takeWhile (\<lambda>c. c \<noteq> newline) text; (out, r) = split_lines (drop (length line + 1) text)
        in ((if line = [] then out else line # out), r)
      else ([], text))"
  by pat_completeness auto
termination by (relation "measure length") (auto simp: in_set_conv_decomp)

declare split_lines.simps [simp del]

text \<open>Every line fits the buffer, with its newline.\<close>

function short_lines :: "string \<Rightarrow> bool" where
  "short_lines text \<longleftrightarrow>
     (if newline \<in> set text then
        length (takeWhile (\<lambda>c. c \<noteq> newline) text) < NET_BUFFER_CHUNK_SIZE \<and>
        short_lines (drop (length (takeWhile (\<lambda>c. c \<noteq> newline) text) + 1) text)
      else length text \<le> NET_BUFFER_CHUNK_SIZE)"
  by pat_completeness auto
termination by (relation "measure length") (auto simp: in_set_conv_decomp)

declare short_lines.simps [simp del]

lemma first_line: "newline \<notin> set l \<Longrightarrow> takeWhile (\<lambda>c. c \<noteq> newline) (l @ newline # r) = l"
  by (induction l) auto

lemma split_lines_line:
  "newline \<notin> set l \<Longrightarrow> split_lines (l @ newline # r) = ((if l = [] then fst (split_lines r) else l # fst (split_lines r)), snd (split_lines r))"
  by (subst split_lines.simps) (simp add: first_line split_beta Let_def)

lemma split_lines_rest: "newline \<notin> set l \<Longrightarrow> split_lines l = ([], l)"
  by (subst split_lines.simps) simp

lemma short_lines_line: "newline \<notin> set l \<Longrightarrow> short_lines (l @ newline # r) \<longleftrightarrow> length l < NET_BUFFER_CHUNK_SIZE \<and> short_lines r"
  by (subst short_lines.simps) (simp add: first_line)

lemma short_lines_rest: "newline \<notin> set l \<Longrightarrow> short_lines l \<longleftrightarrow> length l \<le> NET_BUFFER_CHUNK_SIZE"
  by (subst short_lines.simps) simp

lemma split_at_newline: "newline \<in> set text \<Longrightarrow> \<exists>l r. text = l @ newline # r \<and> newline \<notin> set l"
  by (rule split_list_first)

lemma split_lines_append:
  "split_lines (xs @ ys) =
    (fst (split_lines xs) @ fst (split_lines (snd (split_lines xs) @ ys)), snd (split_lines (snd (split_lines xs) @ ys)))"
proof (induction "length xs" arbitrary: xs rule: less_induct)
  case less
  show ?case
  proof (cases "newline \<in> set xs")
    case True
    then obtain l r where xs: "xs = l @ newline # r" "newline \<notin> set l" using split_at_newline by blast
    then show ?thesis using less.hyps [of r] by (simp add: split_lines_line)
  qed (simp add: split_lines_rest)
qed

lemma short_lines_append:
  "short_lines (xs @ ys) \<Longrightarrow> short_lines xs \<and> short_lines (snd (split_lines xs) @ ys)"
proof (induction "length xs" arbitrary: xs rule: less_induct)
  case less
  show ?case
  proof (cases "newline \<in> set xs")
    case True
    then obtain l r where xs: "xs = l @ newline # r" "newline \<notin> set l" using split_at_newline by blast
    then show ?thesis using less.hyps [of r] less.prems by (simp add: split_lines_line short_lines_line)
  next
    case no: False
    have "length xs \<le> NET_BUFFER_CHUNK_SIZE"
    proof (cases "newline \<in> set ys")
      case True
      then obtain l r where "ys = l @ newline # r" "newline \<notin> set l" using split_at_newline by blast
      then show ?thesis using less.prems no short_lines_line [of "xs @ l" r] by simp
    next
      case False
      then show ?thesis using less.prems no short_lines_rest [of "xs @ ys"] by simp
    qed
    then show ?thesis using no less.prems by (simp add: split_lines_rest short_lines_rest)
  qed
qed

lemma rest_no_newline: "newline \<notin> set (snd (split_lines xs))"
proof (induction "length xs" arbitrary: xs rule: less_induct)
  case less
  show ?case
  proof (cases "newline \<in> set xs")
    case True
    then obtain l r where xs: "xs = l @ newline # r" "newline \<notin> set l" using split_at_newline by blast
    then show ?thesis using less.hyps [of r] by (simp add: split_lines_line)
  qed (simp add: split_lines_rest)
qed

lemma getline_split:
  assumes "newline \<notin> set buf" "d \<noteq> [] \<or> buf = []" "short_lines (buf @ d)"
  shows "lr_getline buf d = split_lines (buf @ d)"
  using assms
proof (induction "length d" arbitrary: buf d rule: less_induct)
  case less
  show ?case
  proof (cases "newline \<in> set d")
    case True
    then obtain l r where d: "d = l @ newline # r" "newline \<notin> set l" using split_at_newline by blast
    have short: "length (buf @ l) < NET_BUFFER_CHUNK_SIZE" "short_lines r"
      using less.prems d short_lines_line [of "buf @ l" r] by simp_all
    have rest: "lr_getline [] r = split_lines r" using less.hyps [of r "[]"] d short(2) by simp
    have add: "lr_add buf (l @ [CHR 0x00]) = buf @ l @ [CHR 0x00]" using short(1) by (simp add: lr_add_def)
    show ?thesis
      using less.prems(1) d split_lines_line [of "buf @ l" r]
      by (subst lr_getline.simps) (simp add: first_line rest add Let_def split_beta)
  next
    case False
    then show ?thesis
      using less.prems short_lines_rest [of "buf @ d"] by (subst lr_getline.simps) (auto simp: split_lines_rest lr_add_def)
  qed
qed

lemma chunks_split:
  assumes "short_lines (concat ds)"
  shows "lr_chunks ds = split_lines (concat ds)"
  using assms
proof (induction ds rule: rev_induct)
  case Nil
  then show ?case by (simp add: lr_chunks_def split_lines_rest)
next
  case (snoc d ds)
  let ?s = "split_lines (concat ds)"
  note short = short_lines_append [of "concat ds" d]
  have IH: "lr_chunks ds = ?s" using snoc short by simp
  have "lr_parse (snd ?s) d = split_lines (snd ?s @ d)"
  proof (cases "d = []")
    case True
    then show ?thesis by (simp add: lr_parse_def split_lines_rest rest_no_newline)
  next
    case False
    then show ?thesis using snoc.prems short by (simp add: lr_parse_def getline_split rest_no_newline)
  qed
  then show ?case
    using IH split_lines_append [of "concat ds" d] by (simp add: lr_chunks_def split_beta)
qed

text \<open>C36. However the network cuts a stream into pieces, the listener gets its lines: the non-empty ones, whole and in
  order, as long as none is longer than the buffer. What follows the last newline waits for the next piece.\<close>

theorem line_reader_lines:
  assumes "short_lines (concat ds)" "concat ds = concat es"
  shows "lr_chunks ds = lr_chunks es \<and> lr_chunks ds = split_lines (concat ds)"
  using chunks_split [OF assms(1)] chunks_split [of es] assms by simp

theorem line_reader_lines_witness:
  "lr_chunks [''{a'', ''b}'' @ [newline, newline] @ ''{'', ''c'', [newline]] = ([''{ab}'', ''{c''], [])"
  by (subst line_reader_lines [of _ "[''{ab}'' @ [newline, newline] @ ''{c'' @ [newline]]", THEN conjunct2])
    (simp_all add: NET_BUFFER_CHUNK_SIZE_def short_lines.simps split_lines.simps)

end
