(* ===== verification/Stratum_Client.thy ===== *)
theory Stratum_Client
  imports Json Line_Reader Job Algorithm_Names "HOL-Library.Monad_Syntax"
begin

text \<open>
  The connection to one pool: \<open>base/net/stratum/Client.cpp\<close> with \<open>BaseClient.cpp\<close>, in the build without TLS, with
  no SOCKS5 proxy and without \<open>XMRIG_PROXY_PROJECT\<close>. The state holds what the code keeps, and the callbacks and
  messages that an operation makes, in their order, in \<open>cl_out\<close>: none of the callbacks comes back before the operation is
  through with what it changes. What libuv does is the environment \<open>uv_env\<close> of an operation, and which of its callbacks
  comes next is up to the steps that use these definitions. \<^term>\<open>None\<close> is undefined behaviour.
\<close>

subsection \<open>The pool and its coin\<close>

datatype Coin = COIN_INVALID | MONERO | ARQMA | DERO | KEVA | RAVEN | CONCEAL

definition Coin_algorithm :: "Coin \<Rightarrow> u8 \<Rightarrow> Id" where
  "Coin_algorithm coin blobVersion =
     (case coin of
        MONERO \<Rightarrow> if blobVersion \<ge> 12 then RX_0 else CN_R
      | ARQMA \<Rightarrow> if blobVersion \<ge> 15 then RX_ARQ else CN_PICO_0
      | DERO \<Rightarrow> if blobVersion \<ge> 4 then ASTROBWT_DERO else CN_0
      | KEVA \<Rightarrow> if blobVersion \<ge> 11 then RX_KEVA else CN_R
      | RAVEN \<Rightarrow> KAWPOW_RVN
      | CONCEAL \<Rightarrow> CN_CCX
      | COIN_INVALID \<Rightarrow> INVALID)"

datatype Pool_Mode = MODE_POOL | MODE_DAEMON | MODE_SELF_SELECT | MODE_AUTO_ETH

definition kKeepAliveTimeout :: int where "kKeepAliveTimeout = 60"

record Pool =
  pool_algorithm :: Id
  pool_coin :: Coin
  pool_mode :: Pool_Mode
  pool_nicehash :: bool
  pool_keepAlive :: int

subsection \<open>The client\<close>

datatype SocketState = UnconnectedState | HostLookupState | ConnectingState | ConnectedState | ClosingState | ReconnectingState

datatype Extension = EXT_ALGO | EXT_NICEHASH | EXT_CONNECT | EXT_TLS | EXT_KEEPALIVE

text \<open>
  \<open>m_socket\<close>: null; a handle, which is connected and read from or still waits for its connection; or a handle that
  \<open>uv_close\<close> was called on and whose close callback is due.
\<close>

datatype Socket = No_Socket | Open_Socket bool | Closing_Socket

record JobResult =
  jr_algorithm :: Id
  jr_clientId :: bytes
  jr_jobId :: bytes
  jr_backend :: Backend
  jr_nonce :: u64
  jr_diff :: u64
  jr_result :: bytes
  jr_index :: nat

record SubmitResult =
  sr_reqId :: int
  sr_seq :: int
  sr_backend :: Backend
  sr_actualDiff :: u64
  sr_diff :: u64
  sr_elapsed :: u64
  sr_start :: u64

datatype Request =
    Req_Login
  | Req_Submit string bytes bytes bytes "Id option"
  | Req_Keepalived "string option"

text \<open>What the client sends, and the calls of its listener and of the callbacks of requests.\<close>

datatype client_event =
    Out_Send int Request
  | Out_Close int
  | Out_Login
  | Out_LoginSuccess
  | Out_Job job
  | Out_Result SubmitResult "string option"
  | Out_Callback int bool

text \<open>\<open>cl_sequence\<close> is a static member, which the clients of a program share.\<close>

record Client =
  cl_id :: int
  cl_listener :: bool
  cl_removed :: bool
  cl_failures :: int
  cl_job :: job
  cl_pool :: Pool
  cl_state :: SocketState
  cl_callbacks :: "int list"
  cl_results :: "int \<rightharpoonup> SubmitResult"
  cl_retryPause :: u64
  cl_reader :: string
  cl_extensions :: "Extension set"
  cl_dns :: bool
  cl_rpcId :: "string option"
  cl_expire :: u64
  cl_jobs :: u64
  cl_keepAlive :: u64
  cl_socket :: Socket
  cl_sequence :: int
  cl_out :: "client_event list"

record uv_env =
  uv_now :: u64
  uv_writable :: bool
  uv_written :: bool
  uv_too_big :: bool

definition kConnectTimeout :: u64 where "kConnectTimeout = 20 * 1000"
definition kResponseTimeout :: u64 where "kResponseTimeout = 20 * 1000"

definition Client_new :: "int \<Rightarrow> Pool \<Rightarrow> u64 \<Rightarrow> int \<Rightarrow> Client" where
  "Client_new i p retryPause sequence =
     \<lparr>cl_id = i, cl_listener = True, cl_removed = False, cl_failures = 0, cl_job = job_init False INVALID [], cl_pool = p,
      cl_state = UnconnectedState, cl_callbacks = [], cl_results = Map.empty, cl_retryPause = retryPause, cl_reader = [],
      cl_extensions = {}, cl_dns = False, cl_rpcId = None, cl_expire = 0, cl_jobs = 0, cl_keepAlive = 0,
      cl_socket = No_Socket, cl_sequence = sequence, cl_out = []\<rparr>"

definition emit :: "client_event \<Rightarrow> Client \<Rightarrow> Client" where
  "emit e c = c\<lparr>cl_out := cl_out c @ [e]\<rparr>"

definition has_nicehash :: "Client \<Rightarrow> bool" where
  "has_nicehash c \<longleftrightarrow> EXT_NICEHASH \<in> cl_extensions c \<or> pool_nicehash (cl_pool c)"

definition has_keepalive :: "Client \<Rightarrow> bool" where
  "has_keepalive c \<longleftrightarrow> EXT_KEEPALIVE \<in> cl_extensions c \<or> pool_keepAlive (cl_pool c) > 0"

subsection \<open>Connecting and closing\<close>

definition cl_setState :: "uv_env \<Rightarrow> SocketState \<Rightarrow> Client \<Rightarrow> Client" where
  "cl_setState uv state c =
     (if cl_state c = state then c
      else
        let c = (case state of
                   HostLookupState \<Rightarrow> c\<lparr>cl_expire := 0\<rparr>
                 | ConnectingState \<Rightarrow> c\<lparr>cl_expire := uv_now uv + kConnectTimeout\<rparr>
                 | ReconnectingState \<Rightarrow> c\<lparr>cl_expire := uv_now uv + cl_retryPause c\<rparr>
                 | _ \<Rightarrow> c)
        in c\<lparr>cl_state := state\<rparr>)"

definition cl_close :: "Client \<Rightarrow> bool \<times> Client" where
  "cl_close c =
     (if cl_state c = ClosingState then (cl_socket c \<noteq> No_Socket, c)
      else if cl_state c = UnconnectedState \<or> cl_socket c = No_Socket then (False, c)
      else (True, c\<lparr>cl_state := ClosingState, cl_socket := Closing_Socket\<rparr>))"

definition cl_closed :: "Client \<Rightarrow> Client" where
  "cl_closed c = snd (cl_close c)"

definition cl_disconnect :: "Client \<Rightarrow> bool \<times> Client" where
  "cl_disconnect c = cl_close (c\<lparr>cl_keepAlive := 0, cl_expire := 0, cl_failures := - 1\<rparr>)"

definition cl_reconnect :: "uv_env \<Rightarrow> Client \<Rightarrow> Client" where
  "cl_reconnect uv c =
     (if \<not> cl_listener c then c\<lparr>cl_removed := True\<rparr>
      else
        let c = c\<lparr>cl_keepAlive := 0\<rparr>
        in if cl_failures c = - 1 then emit (Out_Close (- 1)) c
           else
             let c = cl_setState uv ReconnectingState c;
                 c = c\<lparr>cl_failures := cl_failures c + 1\<rparr>
             in emit (Out_Close (cl_failures c)) c)"

text \<open>
  \<open>connect(addr)\<close>. With a handle in \<open>m_socket\<close> the new one takes its place. The close callback of an old handle that is
  closing frees the new one while libuv uses it, and an old handle that is open is lost and goes on calling the client.
\<close>

definition cl_connect_addr :: "uv_env \<Rightarrow> Client \<Rightarrow> Client option" where
  "cl_connect_addr uv c =
     (if cl_socket c \<noteq> No_Socket then None else Some ((cl_setState uv ConnectingState c)\<lparr>cl_socket := Open_Socket False\<rparr>))"

text \<open>\<open>onResolved\<close>; \<open>ok\<close> says that there are records or no error. Without a listener its assertion fails.\<close>

definition cl_onResolved :: "uv_env \<Rightarrow> bool \<Rightarrow> Client \<Rightarrow> Client option" where
  "cl_onResolved uv ok c =
     (let c = c\<lparr>cl_dns := False\<rparr>
      in if \<not> cl_listener c then None
         else if \<not> ok then Some (cl_reconnect uv c)
         else cl_connect_addr uv c)"

text \<open>
  \<open>connect\<close> and \<open>resolve\<close>. With an answer in the cache of the resolver, \<open>cached\<close>, \<open>onResolved\<close> is called at once;
  otherwise the request waits.
\<close>

definition cl_connect :: "uv_env \<Rightarrow> bool \<Rightarrow> Client \<Rightarrow> Client option" where
  "cl_connect uv cached c =
     (let c = cl_setState uv HostLookupState c;
          c = c\<lparr>cl_reader := []\<rparr>;
          c = (if cl_failures c = - 1 then c\<lparr>cl_failures := 0\<rparr> else c)
      in if cached then cl_onResolved uv True c else Some (c\<lparr>cl_dns := True\<rparr>))"

definition cl_deleteLater :: "Client \<Rightarrow> Client" where
  "cl_deleteLater c =
     (if \<not> cl_listener c then c
      else
        let (closing, c) = cl_disconnect (c\<lparr>cl_listener := False\<rparr>)
        in if \<not> closing then c\<lparr>cl_removed := True\<rparr> else c)"

text \<open>The close callback.\<close>

definition cl_onClose :: "uv_env \<Rightarrow> Client \<Rightarrow> Client" where
  "cl_onClose uv c = cl_reconnect uv (cl_setState uv UnconnectedState (c\<lparr>cl_socket := No_Socket\<rparr>))"

subsection \<open>Sending\<close>

text \<open>\<open>send(size)\<close> with the request in the buffer, and \<open>send(obj)\<close>.\<close>

definition cl_send_buf :: "uv_env \<Rightarrow> Request \<Rightarrow> Client \<Rightarrow> int \<times> Client" where
  "cl_send_buf uv r c =
     (if cl_state c \<noteq> ConnectedState \<or> \<not> uv_writable uv then (- 1, c)
      else if \<not> uv_written uv then (- 1, cl_closed c)
      else
        let c = emit (Out_Send (cl_sequence c) r) c;
            c = c\<lparr>cl_expire := uv_now uv + kResponseTimeout\<rparr>
        in (cl_sequence c, c\<lparr>cl_sequence := cl_sequence c + 1\<rparr>))"

definition cl_send :: "uv_env \<Rightarrow> Request \<Rightarrow> Client \<Rightarrow> int \<times> Client" where
  "cl_send uv r c = (if uv_too_big uv then (- 1, cl_closed c) else cl_send_buf uv r c)"

definition str_bytes :: "string \<Rightarrow> bytes" where
  "str_bytes = map of_char"

definition rpc_bytes :: "string option \<Rightarrow> bytes" where
  "rpc_bytes s = (case s of None \<Rightarrow> [] | Some s \<Rightarrow> str_bytes s)"

definition actualDiff :: "JobResult \<Rightarrow> u64" where
  "actualDiff r = toDiff (load64 (drop 24 (jr_result r)))"

definition SubmitResult_new :: "uv_env \<Rightarrow> int \<Rightarrow> u64 \<Rightarrow> u64 \<Rightarrow> Backend \<Rightarrow> SubmitResult" where
  "SubmitResult_new uv seq diff actual backend =
     \<lparr>sr_reqId = 0, sr_seq = seq, sr_backend = backend, sr_actualDiff = actual, sr_diff = diff, sr_elapsed = 0, sr_start = uv_now uv\<rparr>"

text \<open>The text that \<open>Cvt::toHex\<close> leaves in the buffer, up to its null.\<close>

definition hex_field :: "bytes \<Rightarrow> bytes option" where
  "hex_field bin = map_option (takeWhile (\<lambda>c. c \<noteq> 0)) (cvt_bin2hex (replicate (2 * length bin + 1) 0) bin)"

text \<open>A job without an id of the client has the empty one.\<close>

definition cl_submit :: "uv_env \<Rightarrow> JobResult \<Rightarrow> Client \<Rightarrow> (int \<times> Client) option" where
  "cl_submit uv r c =
     (case cl_rpcId c of
        None \<Rightarrow> Some (- 1, c)
      | Some rpc \<Rightarrow>
          if jr_clientId r \<noteq> str_bytes rpc \<or> cl_state c \<noteq> ConnectedState then Some (- 1, c)
          else if jr_diff r = 0 then Some (- 1, cl_closed c)
          else do {
            nonce \<leftarrow> hex_field (take 4 (store64_native (jr_nonce r)));
            dat \<leftarrow> hex_field (jr_result r);
            let algo = (if EXT_ALGO \<in> cl_extensions c \<and> algorithm_isValid (jr_algorithm r) then Some (jr_algorithm r) else None);
            let c = c\<lparr>cl_results := (cl_results c)
              (cl_sequence c \<mapsto> SubmitResult_new uv (cl_sequence c) (jr_diff r) (actualDiff r) (jr_backend r))\<rparr>;
            Some (cl_send uv (Req_Submit rpc (jr_jobId r) nonce dat algo) c)
          })"

definition cl_login :: "uv_env \<Rightarrow> Client \<Rightarrow> Client" where
  "cl_login uv c = snd (cl_send uv Req_Login (emit Out_Login (c\<lparr>cl_results := Map.empty\<rparr>)))"

definition cl_ping :: "uv_env \<Rightarrow> Client \<Rightarrow> Client" where
  "cl_ping uv c = (snd (cl_send_buf uv (Req_Keepalived (cl_rpcId c)) c))\<lparr>cl_keepAlive := 0\<rparr>"

text \<open>\<open>tick\<close>; \<open>now\<close> is the time of the environment.\<close>

definition cl_tick :: "uv_env \<Rightarrow> bool \<Rightarrow> Client \<Rightarrow> Client option" where
  "cl_tick uv cached c =
     (if cl_state c = ConnectedState then
        (if cl_expire c \<noteq> 0 \<and> uv_now uv > cl_expire c then Some (cl_closed c)
         else if cl_keepAlive c \<noteq> 0 \<and> uv_now uv > cl_keepAlive c then Some (cl_ping uv c)
         else Some c)
      else if cl_state c = ReconnectingState \<and> cl_expire c \<noteq> 0 \<and> uv_now uv > cl_expire c then cl_connect uv cached c
      else if cl_state c = ConnectingState \<and> cl_expire c \<noteq> 0 \<and> uv_now uv > cl_expire c then Some (cl_closed c)
      else Some c)"

text \<open>The connect callback.\<close>

definition cl_onConnect :: "uv_env \<Rightarrow> bool \<Rightarrow> Client \<Rightarrow> Client" where
  "cl_onConnect uv ok c =
     (if \<not> ok then (if cl_state c \<noteq> ConnectingState then c else cl_closed c)
      else if cl_state c = ConnectedState then c
      else cl_login uv ((cl_setState uv ConnectedState c)\<lparr>cl_socket := Open_Socket True\<rparr>))"

subsection \<open>Messages\<close>

definition cl_startTimeout :: "uv_env \<Rightarrow> Client \<Rightarrow> Client" where
  "cl_startTimeout uv c =
     (let c = c\<lparr>cl_expire := 0\<rparr>
      in if has_keepalive c
         then let ms = (if pool_keepAlive (cl_pool c) > 0 then word_of_int (pool_keepAlive (cl_pool c)) else word_of_int kKeepAliveTimeout) * 1000
              in c\<lparr>cl_keepAlive := uv_now uv + ms\<rparr>
         else c)"

text \<open>\<open>strncasecmp(message, s, n) == 0\<close>, where \<open>s\<close> has \<open>n\<close> characters.\<close>

definition case_prefix :: "string \<Rightarrow> string \<Rightarrow> bool" where
  "case_prefix s message \<longleftrightarrow> same_name (take (length s) message) s"

definition isCriticalError :: "string option \<Rightarrow> bool" where
  "isCriticalError message =
     (case message of
        None \<Rightarrow> False
      | Some m \<Rightarrow> case_prefix ''Unauthenticated'' m \<or> case_prefix ''your IP is banned'' m \<or>
                  case_prefix ''IP Address currently banned'' m \<or> case_prefix ''Invalid job id'' m)"

text \<open>\<open>Cvt::fromHex(&blobVersion, 1, blobData, 2)\<close>.\<close>

definition blobVersion :: "string option \<Rightarrow> u8" where
  "blobVersion blob = (case blob of None \<Rightarrow> 0 | Some b \<Rightarrow> hd (snd (fromHex_into [0] (take 2 (str_bytes b)))))"

definition job_algorithm :: "Pool \<Rightarrow> string option \<Rightarrow> string option \<Rightarrow> Id" where
  "job_algorithm p algo blob =
     (case algo of
        Some a \<Rightarrow> parse_algorithm (Some a)
      | None \<Rightarrow> if pool_coin p \<noteq> COIN_INVALID then Coin_algorithm (pool_coin p) (blobVersion blob) else pool_algorithm p)"

text \<open>The blob, or the parts of a self-select job: a missing part is refused.\<close>

definition job_body :: "Pool \<Rightarrow> json \<Rightarrow> job \<Rightarrow> bool \<times> job" where
  "job_body p params j =
     (if pool_mode p = MODE_SELF_SELECT then
        (case (getString params ''extra_nonce'', getString params ''pool_wallet'') of
           (Some e, Some w) \<Rightarrow> (True, j\<lparr>m_extraNonce := str_bytes e, m_poolWallet := str_bytes w\<rparr>)
         | _ \<Rightarrow> (False, j))
      else setBlob (map_option str_bytes (getString params ''blob'')) j)"

definition verifyAlgorithm :: "(Id \<Rightarrow> bool) \<Rightarrow> Id \<Rightarrow> bool" where
  "verifyAlgorithm enabled i \<longleftrightarrow> algorithm_isValid i \<and> enabled i"

text \<open>The job of the parameters, or the code of the error.\<close>

definition read_job :: "(Id \<Rightarrow> bool) \<Rightarrow> Client \<Rightarrow> json \<Rightarrow> (int + job) option" where
  "read_job enabled c params =
     (if \<not> json_isObject params then Some (Inl 2)
      else do {
        let p = cl_pool c;
        let j = job_init (has_nicehash c) (pool_algorithm p) (rpc_bytes (cl_rpcId c));
        i \<leftarrow> GetString (member params ''job_id'');
        case i of None \<Rightarrow> Some (Inl 3) | Some i \<Rightarrow> do {
          let j = j\<lparr>m_id := str_bytes i\<rparr>;
          let j = j\<lparr>m_algorithm := job_algorithm p (getString params ''algo'') (getString params ''blob'')\<rparr>;
          let (ok, j) = job_body p params j;
          if \<not> ok then Some (Inl 4)
          else do {
            t \<leftarrow> GetString (member params ''target'');
            (ok, j) \<leftarrow> setTarget (map_option str_bytes t) j;
            if \<not> ok then Some (Inl 5)
            else
              let j = j\<lparr>m_height := getUint64 params ''height''\<rparr>
              in if \<not> verifyAlgorithm enabled (m_algorithm j) then Some (Inl 6)
                 else if pool_mode p \<noteq> MODE_SELF_SELECT \<and> family (m_algorithm j) = RANDOM_X then
                   (let (ok, j) = setSeedHash (map_option str_bytes (getString params ''seed_hash'')) j
                    in if \<not> ok then Some (Inl 7) else Some (Inr j))
                 else Some (Inr j)
          }
        }
      })"

text \<open>\<open>parseJob\<close>: whether there is a new job, the code, and the client.\<close>

definition cl_parseJob :: "(Id \<Rightarrow> bool) \<Rightarrow> json \<Rightarrow> Client \<Rightarrow> (bool \<times> int \<times> Client) option" where
  "cl_parseJob enabled params c = do {
     r \<leftarrow> read_job enabled c params;
     case r of Inl code \<Rightarrow> Some (False, code, c)
     | Inr job \<Rightarrow>
         let c = c\<lparr>cl_job := (cl_job c)\<lparr>m_clientId := rpc_bytes (cl_rpcId c)\<rparr>\<rparr>
         in if \<not> isEqual (cl_job c) job then Some (True, - 1, c\<lparr>cl_jobs := cl_jobs c + 1, cl_job := job\<rparr>)
            else if cl_jobs c = 0 then Some (False, - 1, c)
            else Some (False, - 1, cl_closed c)
   }"

definition extension_names :: "(string \<times> Extension) list" where
  "extension_names = [(''algo'', EXT_ALGO), (''nicehash'', EXT_NICEHASH), (''connect'', EXT_CONNECT), (''keepalive'', EXT_KEEPALIVE)]"

definition cl_parseExtensions :: "uv_env \<Rightarrow> json \<Rightarrow> Client \<Rightarrow> Client" where
  "cl_parseExtensions uv result c =
     (let c = c\<lparr>cl_extensions := {}\<rparr>
      in case FindMember result ''extensions'' of
           Some (JArray es) \<Rightarrow>
             fold (\<lambda>e c. case e of
                 JString s \<Rightarrow>
                   (case map_of extension_names (cstr s) of
                      None \<Rightarrow> c
                    | Some x \<Rightarrow>
                        let c = c\<lparr>cl_extensions := insert x (cl_extensions c)\<rparr>
                        in if x = EXT_KEEPALIVE then cl_startTimeout uv c else c)
               | _ \<Rightarrow> c) es c
         | _ \<Rightarrow> c)"

definition cl_parseLogin :: "uv_env \<Rightarrow> (Id \<Rightarrow> bool) \<Rightarrow> json \<Rightarrow> Client \<Rightarrow> (bool \<times> int \<times> Client) option" where
  "cl_parseLogin uv enabled result c =
     (let c = c\<lparr>cl_rpcId := getString result ''id''\<rparr>
      in if cl_rpcId c = None then Some (False, 1, c)
         else do {
           (rc, code, c) \<leftarrow> cl_parseJob enabled (member result ''job'') (cl_parseExtensions uv result c);
           Some (rc, code, c\<lparr>cl_jobs := 0\<rparr>)
         })"

definition cl_parseNotification :: "(Id \<Rightarrow> bool) \<Rightarrow> string \<Rightarrow> json \<Rightarrow> Client \<Rightarrow> Client option" where
  "cl_parseNotification enabled method params c =
     (if method = ''job'' then do {
        (rc, code, c) \<leftarrow> cl_parseJob enabled params c;
        Some (if rc then emit (Out_Job (cl_job c)) c else cl_closed c)
      } else Some c)"

definition cl_handleResponse :: "int \<Rightarrow> json \<Rightarrow> json \<Rightarrow> Client \<Rightarrow> bool \<times> Client" where
  "cl_handleResponse i result err c =
     (if i = 1 then (False, c)
      else if i \<in> set (cl_callbacks c)
      then (True, (emit (Out_Callback i (\<not> json_isObject err)) c)\<lparr>cl_callbacks := removeAll i (cl_callbacks c)\<rparr>)
      else (False, c))"

definition cl_handleSubmitResponse :: "uv_env \<Rightarrow> int \<Rightarrow> string option \<Rightarrow> Client \<Rightarrow> bool \<times> Client" where
  "cl_handleSubmitResponse uv i err c =
     (case cl_results c i of
        None \<Rightarrow> (False, c)
      | Some r \<Rightarrow>
          let r = r\<lparr>sr_elapsed := uv_now uv - sr_start r\<rparr>
          in (True, (emit (Out_Result r err) c)\<lparr>cl_results := (cl_results c)(i := None)\<rparr>))"

text \<open>\<open>parseResponse\<close>; the third condition tests the number of the client, \<open>m_id\<close>, as the code does.\<close>

definition cl_parseResponse :: "uv_env \<Rightarrow> (Id \<Rightarrow> bool) \<Rightarrow> int \<Rightarrow> json \<Rightarrow> json \<Rightarrow> Client \<Rightarrow> Client option" where
  "cl_parseResponse uv enabled i result err c =
     (let (handled, c) = cl_handleResponse i result err c
      in if handled then Some c
         else if json_isObject err then do {
           message \<leftarrow> GetString (member err ''message'');
           let c = snd (cl_handleSubmitResponse uv i message c);
           Some (if cl_id c = 1 \<or> isCriticalError message then cl_closed c else c)
         }
         else if \<not> json_isObject result then Some c
         else if i = 1 then do {
           (rc, code, c) \<leftarrow> cl_parseLogin uv enabled result c;
           if \<not> rc then Some (cl_closed c)
           else
             let c = emit Out_LoginSuccess (c\<lparr>cl_failures := 0\<rparr>)
             in Some (if job_isValid (cl_job c) then emit (Out_Job (cl_job c)) c else c)
         }
         else Some (snd (cl_handleSubmitResponse uv i None c)))"

text \<open>\<open>parse\<close> for a line; \<open>J\<close> is the parser of the library.\<close>

definition cl_parse :: "uv_env \<Rightarrow> (string \<Rightarrow> json option) \<Rightarrow> (Id \<Rightarrow> bool) \<Rightarrow> string \<Rightarrow> Client \<Rightarrow> Client option" where
  "cl_parse uv J enabled line c =
     (let c = cl_startTimeout uv c
      in if length line < 32 \<or> hd line \<noteq> CHR ''{'' then Some c
         else case J line of
           None \<Rightarrow> Some c
         | Some doc \<Rightarrow>
             if \<not> json_isObject doc then Some c
             else
               let i = getValue doc ''id''; err = getValue doc ''error''
               in if isInt64 i then cl_parseResponse uv enabled (GetInt64 i) (getValue doc ''result'') err c
                  else (case getString doc ''method'' of
                          None \<Rightarrow> Some c
                        | Some method \<Rightarrow>
                            if json_isObject err then Some c
                            else cl_parseNotification enabled method (getValue doc ''params'') c))"

definition cl_parse_lines :: "uv_env \<Rightarrow> (string \<Rightarrow> json option) \<Rightarrow> (Id \<Rightarrow> bool) \<Rightarrow> string list \<Rightarrow> Client \<Rightarrow> Client option" where
  "cl_parse_lines uv J enabled ls c = foldl (\<lambda>c l. Option.bind c (cl_parse uv J enabled l)) (Some c) ls"

text \<open>\<open>read\<close>: an error, or some characters; the lines of one piece are handled to the last, also after a \<open>close\<close>.\<close>

definition cl_read :: "uv_env \<Rightarrow> (string \<Rightarrow> json option) \<Rightarrow> (Id \<Rightarrow> bool) \<Rightarrow> string option \<Rightarrow> Client \<Rightarrow> Client option" where
  "cl_read uv J enabled buf c =
     (case buf of
        None \<Rightarrow> Some (cl_closed c)
      | Some s \<Rightarrow>
          if \<not> cl_listener c then None
          else (let (ls, r) = lr_parse (cl_reader c) s in cl_parse_lines uv J enabled ls (c\<lparr>cl_reader := r\<rparr>)))"

end
