(* ===== verification/Pool_Strategy.thy ===== *)
theory Pool_Strategy
  imports Stratum_Client Cpu_Worker
begin

text \<open>
  \<open>base/net/stratum/strategies/FailoverStrategy.cpp\<close> and \<open>SinglePoolStrategy.cpp\<close>: the clients of the configured pools, and
  which of them the miner works for. A callback of a client is handled as soon as the client's operation has made it, as
  the calls of the code nest; none of the handlers calls a client back in a way that makes another callback.
\<close>

subsection \<open>FailoverStrategy\<close>

text \<open>The calls of the listener of the strategy, and what the clients send.\<close>

datatype strategy_event =
    St_Active int
  | St_Pause
  | St_Job int job
  | St_Login int
  | St_Result int SubmitResult "string option"
  | St_Sent int int Request

record Failover =
  fo_retries :: int
  fo_active :: int
  fo_index :: nat
  fo_clients :: "Client list"
  fo_sequence :: int
  fo_out :: "strategy_event list"

definition fo_emit :: "strategy_event \<Rightarrow> Failover \<Rightarrow> Failover" where
  "fo_emit e fo = fo\<lparr>fo_out := fo_out fo @ [e]\<rparr>"

text \<open>The constructor with its pools: \<open>add\<close> for each of them.\<close>

definition Failover_new :: "Pool list \<Rightarrow> int \<Rightarrow> int \<Rightarrow> Failover" where
  "Failover_new pools retryPause retries =
     \<lparr>fo_retries = retries, fo_active = - 1, fo_index = 0,
      fo_clients = map (\<lambda>i. Client_new (int i) (pools ! i) (word_of_int (retryPause * 1000)) 1) [0..<length pools],
      fo_sequence = 1, fo_out = []\<rparr>"

definition fo_isActive :: "Failover \<Rightarrow> bool" where
  "fo_isActive fo \<longleftrightarrow> 0 \<le> fo_active fo"

text \<open>An operation on client \<open>i\<close> that makes no callback.\<close>

definition fo_silent :: "nat \<Rightarrow> (Client \<Rightarrow> Client) \<Rightarrow> Failover \<Rightarrow> Failover" where
  "fo_silent i f fo = fo\<lparr>fo_clients := (fo_clients fo)[i := f (fo_clients fo ! i)]\<rparr>"

definition fo_disconnect :: "nat \<Rightarrow> Failover \<Rightarrow> Failover" where
  "fo_disconnect i = fo_silent i (\<lambda>c. snd (cl_disconnect c))"

definition fo_connect :: "uv_env \<Rightarrow> bool \<Rightarrow> nat \<Rightarrow> Failover \<Rightarrow> Failover option" where
  "fo_connect uv cached i fo = do {
     c \<leftarrow> cl_connect uv cached (fo_clients fo ! i);
     Some (fo_silent i (\<lambda>_. c) fo)
   }"

definition fo_onClose :: "uv_env \<Rightarrow> bool \<Rightarrow> int \<Rightarrow> int \<Rightarrow> Failover \<Rightarrow> Failover option" where
  "fo_onClose uv cached client failures fo =
     (if failures = - 1 then Some fo
      else
        let fo = (if fo_active fo = client then fo_emit St_Pause (fo\<lparr>fo_active := - 1\<rparr>) else fo)
        in if fo_index fo = 0 \<and> failures < fo_retries fo then Some fo
           else if int (fo_index fo) = client \<and> length (fo_clients fo) - fo_index fo > 1
           then let fo = fo\<lparr>fo_index := fo_index fo + 1\<rparr> in fo_connect uv cached (fo_index fo) fo
           else Some fo)"

definition fo_onLoginSuccess :: "int \<Rightarrow> Failover \<Rightarrow> Failover" where
  "fo_onLoginSuccess client fo =
     (let active = (if client = 0 \<or> \<not> fo_isActive fo then client else fo_active fo);
          fo = fold (\<lambda>i fo. if active \<noteq> int i then fo_disconnect i fo else fo) [1..<length (fo_clients fo)] fo
      in if 0 \<le> active \<and> active \<noteq> fo_active fo
         then fo_emit (St_Active client) (fo\<lparr>fo_active := active, fo_index := nat active\<rparr>)
         else fo)"

definition fo_onJobReceived :: "int \<Rightarrow> job \<Rightarrow> Failover \<Rightarrow> Failover" where
  "fo_onJobReceived client j fo = (if fo_active fo = client then fo_emit (St_Job client j) fo else fo)"

text \<open>One callback of a client; and an operation of client \<open>i\<close> with its callbacks.\<close>

definition fo_event :: "uv_env \<Rightarrow> bool \<Rightarrow> int \<Rightarrow> client_event \<Rightarrow> Failover \<Rightarrow> Failover option" where
  "fo_event uv cached client e fo =
     (case e of
        Out_Send seq r \<Rightarrow> Some (fo_emit (St_Sent client seq r) fo)
      | Out_Close failures \<Rightarrow> fo_onClose uv cached client failures fo
      | Out_Login \<Rightarrow> Some (fo_emit (St_Login client) fo)
      | Out_LoginSuccess \<Rightarrow> Some (fo_onLoginSuccess client fo)
      | Out_Job j \<Rightarrow> Some (fo_onJobReceived client j fo)
      | Out_Result r err \<Rightarrow> Some (fo_emit (St_Result client r err) fo)
      | Out_Callback i ok \<Rightarrow> Some fo)"

definition fo_client :: "uv_env \<Rightarrow> bool \<Rightarrow> nat \<Rightarrow> (Client \<Rightarrow> Client option) \<Rightarrow> Failover \<Rightarrow> Failover option" where
  "fo_client uv cached i f fo = do {
     c \<leftarrow> f ((fo_clients fo ! i)\<lparr>cl_sequence := fo_sequence fo\<rparr>);
     let fo = fo\<lparr>fo_clients := (fo_clients fo)[i := c\<lparr>cl_out := []\<rparr>], fo_sequence := cl_sequence c\<rparr>;
     foldl (\<lambda>fo e. Option.bind fo (fo_event uv cached (cl_id c) e)) (Some fo) (cl_out c)
   }"

text \<open>The operations of the strategy itself.\<close>

definition fo_submit :: "uv_env \<Rightarrow> bool \<Rightarrow> JobResult \<Rightarrow> Failover \<Rightarrow> Failover option" where
  "fo_submit uv cached r fo =
     (if \<not> fo_isActive fo then Some fo
      else fo_client uv cached (nat (fo_active fo)) (\<lambda>c. map_option snd (cl_submit uv r c)) fo)"

definition fo_start :: "uv_env \<Rightarrow> bool \<Rightarrow> Failover \<Rightarrow> Failover option" where
  "fo_start uv cached fo = fo_connect uv cached (fo_index fo) fo"

definition fo_resume :: "Failover \<Rightarrow> Failover" where
  "fo_resume fo =
     (if \<not> fo_isActive fo then fo
      else fo_emit (St_Job (fo_active fo) (cl_job (fo_clients fo ! nat (fo_active fo)))) fo)"

definition fo_setAlgo :: "Id \<Rightarrow> Failover \<Rightarrow> Failover" where
  "fo_setAlgo algo fo =
     fo\<lparr>fo_clients := map (\<lambda>c. c\<lparr>cl_pool := (cl_pool c)\<lparr>pool_algorithm := algo\<rparr>\<rparr>) (fo_clients fo)\<rparr>"

definition fo_stop :: "Failover \<Rightarrow> Failover" where
  "fo_stop fo =
     (let fo = fold fo_disconnect [0..<length (fo_clients fo)] fo
      in fo_emit St_Pause (fo\<lparr>fo_index := 0, fo_active := - 1\<rparr>))"

definition fo_tick :: "uv_env \<Rightarrow> bool \<Rightarrow> Failover \<Rightarrow> Failover option" where
  "fo_tick uv cached fo =
     foldl (\<lambda>fo i. Option.bind fo (fo_client uv cached i (cl_tick uv cached))) (Some fo) [0..<length (fo_clients fo)]"

text \<open>A piece of input of client \<open>i\<close>: its lines one by one, each with its callbacks.\<close>

definition fo_read :: "uv_env \<Rightarrow> bool \<Rightarrow> (string \<Rightarrow> json option) \<Rightarrow> (Id \<Rightarrow> bool) \<Rightarrow> nat \<Rightarrow> string \<Rightarrow> Failover \<Rightarrow> Failover option" where
  "fo_read uv cached J enabled i s fo =
     (let (ls, r) = lr_parse (cl_reader (fo_clients fo ! i)) s
      in foldl (\<lambda>fo l. Option.bind fo (fo_client uv cached i (cl_parse uv J enabled l)))
           (Some (fo_silent i (\<lambda>c. c\<lparr>cl_reader := r\<rparr>) fo)) ls)"

subsection \<open>The steps\<close>

text \<open>
  What can happen next: a callback of libuv for client \<open>i\<close>, or a call of the strategy. A callback comes only when its
  request is open; libuv makes the close callbacks at the end of the iteration of its loop in which \<open>uv_close\<close> was
  called, so that no answer of the resolver comes before. The callbacks of a connection that was refused
  or given up change nothing.
\<close>

datatype net_step =
    Net_Resolved nat bool
  | Net_Connected nat bool
  | Net_Read nat "string option"
  | Net_Closed nat
  | Net_Tick
  | Net_Connect
  | Net_Stop
  | Net_Resume
  | Net_SetAlgo Id
  | Net_Submit JobResult

definition enabled_step :: "net_step \<Rightarrow> Failover \<Rightarrow> bool" where
  "enabled_step s fo \<longleftrightarrow>
     (case s of
        Net_Resolved i ok \<Rightarrow> i < length (fo_clients fo) \<and> cl_dns (fo_clients fo ! i) \<and> cl_socket (fo_clients fo ! i) \<noteq> Closing_Socket
      | Net_Connected i ok \<Rightarrow> i < length (fo_clients fo) \<and> cl_socket (fo_clients fo ! i) = Open_Socket False
      | Net_Read i buf \<Rightarrow> i < length (fo_clients fo) \<and> cl_socket (fo_clients fo ! i) = Open_Socket True
      | Net_Closed i \<Rightarrow> i < length (fo_clients fo) \<and> cl_socket (fo_clients fo ! i) = Closing_Socket
      | _ \<Rightarrow> True)"

definition do_step :: "uv_env \<Rightarrow> bool \<Rightarrow> (string \<Rightarrow> json option) \<Rightarrow> (Id \<Rightarrow> bool) \<Rightarrow> net_step \<Rightarrow> Failover \<Rightarrow> Failover option" where
  "do_step uv cached J enabled s fo =
     (case s of
        Net_Resolved i ok \<Rightarrow> fo_client uv cached i (cl_onResolved uv ok) fo
      | Net_Connected i ok \<Rightarrow> fo_client uv cached i (\<lambda>c. Some (cl_onConnect uv ok c)) fo
      | Net_Read i None \<Rightarrow> fo_client uv cached i (\<lambda>c. Some (cl_closed c)) fo
      | Net_Read i (Some t) \<Rightarrow> fo_read uv cached J enabled i t fo
      | Net_Closed i \<Rightarrow> fo_client uv cached i (\<lambda>c. Some (cl_onClose uv c)) fo
      | Net_Tick \<Rightarrow> fo_tick uv cached fo
      | Net_Connect \<Rightarrow> fo_start uv cached fo
      | Net_Stop \<Rightarrow> Some (fo_stop fo)
      | Net_Resume \<Rightarrow> Some (fo_resume fo)
      | Net_SetAlgo algo \<Rightarrow> Some (fo_setAlgo algo fo)
      | Net_Submit r \<Rightarrow> fo_submit uv cached r fo)"

inductive fo_reach :: "(string \<Rightarrow> json option) \<Rightarrow> (Id \<Rightarrow> bool) \<Rightarrow> Pool list \<Rightarrow> int \<Rightarrow> int \<Rightarrow> Failover \<Rightarrow> bool"
  for J enabled pools pause retries where
  start: "fo_reach J enabled pools pause retries (Failover_new pools pause retries)"
| step: "fo_reach J enabled pools pause retries fo \<Longrightarrow> enabled_step s fo \<Longrightarrow>
    do_step uv cached J enabled s fo = Some fo' \<Longrightarrow> fo_reach J enabled pools pause retries fo'"

end
