(* ===== verification/Client_Safety.thy ===== *)
theory Client_Safety
  imports Stratum_Client
begin

text \<open>
  What the operations of a client do, as the strategies see it: each is plain, ends a login or gives the connection up.
\<close>

subsection \<open>What an operation of a client does\<close>

text \<open>A client that was disconnected and is not asked to connect stays away: its timer is off.\<close>

definition asleep_ok :: "Client \<Rightarrow> bool" where
  "asleep_ok c \<longleftrightarrow> - 1 \<le> cl_failures c \<and> (cl_failures c = - 1 \<and> cl_state c = ReconnectingState \<longrightarrow> cl_expire c = 0)"

definition plain_event :: "client_event \<Rightarrow> bool" where
  "plain_event e \<longleftrightarrow> (case e of Out_Close f \<Rightarrow> False | Out_LoginSuccess \<Rightarrow> False | _ \<Rightarrow> True)"

text \<open>An operation is plain, ends a login, or gives the connection up.\<close>

definition same_client :: "Client \<Rightarrow> Client \<Rightarrow> bool" where
  "same_client c c' \<longleftrightarrow> cl_id c' = cl_id c \<and> cl_listener c' = cl_listener c \<and> cl_removed c' = cl_removed c \<and> asleep_ok c'"

definition keeps_socket :: "Client \<Rightarrow> Client \<Rightarrow> bool" where
  "keeps_socket c c' \<longleftrightarrow> (cl_socket c \<noteq> No_Socket \<longrightarrow> cl_socket c' \<noteq> No_Socket)"

definition op_plain :: "Client \<Rightarrow> Client \<Rightarrow> bool" where
  "op_plain c c' \<longleftrightarrow> same_client c c' \<and> keeps_socket c c' \<and> cl_failures c' = cl_failures c \<and> (\<forall>e \<in> set (cl_out c'). plain_event e)"

definition op_login :: "Client \<Rightarrow> Client \<Rightarrow> bool" where
  "op_login c c' \<longleftrightarrow> same_client c c' \<and> keeps_socket c c' \<and> cl_failures c' = 0 \<and>
     (\<exists>js. (\<forall>e \<in> set js. plain_event e) \<and> cl_out c' = Out_LoginSuccess # js)"

definition op_close :: "Client \<Rightarrow> Client \<Rightarrow> bool" where
  "op_close c c' \<longleftrightarrow> same_client c c' \<and> cl_out c' = [Out_Close (cl_failures c')] \<and>
     cl_failures c' = (if cl_failures c = - 1 then - 1 else cl_failures c + 1)"

lemmas op_defs = op_plain_def op_login_def op_close_def same_client_def keeps_socket_def asleep_ok_def plain_event_def

lemma cl_closed_simps [simp]:
  "cl_id (cl_closed c) = cl_id c" "cl_listener (cl_closed c) = cl_listener c" "cl_removed (cl_closed c) = cl_removed c"
  "cl_out (cl_closed c) = cl_out c" "cl_failures (cl_closed c) = cl_failures c" "cl_expire (cl_closed c) = cl_expire c"
  "cl_job (cl_closed c) = cl_job c" "cl_pool (cl_closed c) = cl_pool c" "cl_rpcId (cl_closed c) = cl_rpcId c"
  "cl_sequence (cl_closed c) = cl_sequence c" "cl_dns (cl_closed c) = cl_dns c"
  "cl_socket (cl_closed c) = No_Socket \<longleftrightarrow> cl_socket c = No_Socket"
  "cl_state (cl_closed c) = ReconnectingState \<Longrightarrow> cl_state c = ReconnectingState"
  by (auto simp: cl_closed_def cl_close_def split: if_splits)

lemma plain_refl: "asleep_ok c \<Longrightarrow> (\<forall>e \<in> set (cl_out c). plain_event e) \<Longrightarrow> op_plain c c"
  by (simp add: op_plain_def same_client_def keeps_socket_def)

lemma plain_trans: "op_plain a b \<Longrightarrow> op_plain b c \<Longrightarrow> op_plain a c"
  by (auto simp: op_plain_def same_client_def keeps_socket_def)

lemma plain_closed: "asleep_ok c \<Longrightarrow> (\<forall>e \<in> set (cl_out c). plain_event e) \<Longrightarrow> op_plain c (cl_closed c)"
  by (auto simp: op_plain_def same_client_def keeps_socket_def asleep_ok_def)

text \<open>Changes of the other fields.\<close>

lemma plain_fields [simp]:
  "op_plain c (c'\<lparr>cl_results := m\<rparr>) = op_plain c c'" "op_plain c (c'\<lparr>cl_keepAlive := k\<rparr>) = op_plain c c'"
  "op_plain c (c'\<lparr>cl_jobs := n\<rparr>) = op_plain c c'" "op_plain c (c'\<lparr>cl_job := j\<rparr>) = op_plain c c'"
  "op_plain c (c'\<lparr>cl_rpcId := i\<rparr>) = op_plain c c'" "op_plain c (c'\<lparr>cl_extensions := x\<rparr>) = op_plain c c'"
  "op_plain c (c'\<lparr>cl_callbacks := l\<rparr>) = op_plain c c'" "op_plain c (c'\<lparr>cl_reader := t\<rparr>) = op_plain c c'"
  by (simp_all add: op_plain_def same_client_def keeps_socket_def asleep_ok_def)

lemma plain_expire: "op_plain c c' \<Longrightarrow> op_plain c (c'\<lparr>cl_expire := 0\<rparr>)"
  by (auto simp: op_plain_def same_client_def keeps_socket_def asleep_ok_def)

lemma setState_eq:
  "cl_setState uv st c = c\<lparr>cl_state := st, cl_expire := (if cl_state c = st then cl_expire c else
     case st of HostLookupState \<Rightarrow> 0 | ConnectingState \<Rightarrow> uv_now uv + kConnectTimeout
     | ReconnectingState \<Rightarrow> uv_now uv + cl_retryPause c | _ \<Rightarrow> cl_expire c)\<rparr>"
proof (cases "cl_state c = st")
  case True
  moreover have "c\<lparr>cl_state := cl_state c, cl_expire := cl_expire c\<rparr> = c" by simp
  ultimately show ?thesis unfolding cl_setState_def by simp
next
  case False
  then show ?thesis unfolding cl_setState_def Let_def by (simp only: if_False) (cases st; simp only: SocketState.case; simp)
qed

lemma setState_simps [simp]:
  "cl_id (cl_setState uv st c) = cl_id c" "cl_listener (cl_setState uv st c) = cl_listener c"
  "cl_removed (cl_setState uv st c) = cl_removed c" "cl_failures (cl_setState uv st c) = cl_failures c"
  "cl_socket (cl_setState uv st c) = cl_socket c" "cl_out (cl_setState uv st c) = cl_out c"
  "cl_state (cl_setState uv st c) = st" "cl_pool (cl_setState uv st c) = cl_pool c" "cl_job (cl_setState uv st c) = cl_job c"
  "cl_keepAlive (cl_setState uv st c) = cl_keepAlive c" "cl_rpcId (cl_setState uv st c) = cl_rpcId c" "cl_dns (cl_setState uv st c) = cl_dns c"
  by (simp_all add: setState_eq)

lemma op_close_reconnect:
  assumes "- 1 \<le> cl_failures c" "cl_failures c = - 1 \<Longrightarrow> cl_state c = ReconnectingState \<Longrightarrow> cl_expire c = 0" "cl_out c = []" "cl_listener c"
  shows "op_close c (cl_reconnect uv c)"
proof (cases "cl_failures c = - 1")
  case True
  then show ?thesis using assms by (simp add: cl_reconnect_def op_close_def same_client_def asleep_ok_def emit_def)
next
  case False
  then have "0 \<le> cl_failures c" using assms(1) by simp
  then show ?thesis using assms False by (simp add: cl_reconnect_def op_close_def same_client_def asleep_ok_def emit_def Let_def)
qed

lemma op_close_after:
  "op_close c c' \<Longrightarrow> cl_id c0 = cl_id c \<Longrightarrow> cl_listener c0 = cl_listener c \<Longrightarrow> cl_removed c0 = cl_removed c \<Longrightarrow>
   cl_failures c0 = cl_failures c \<Longrightarrow> op_close c0 c'"
  by (simp add: op_close_def same_client_def)

lemma op_close_onClose: "asleep_ok c \<Longrightarrow> cl_out c = [] \<Longrightarrow> cl_listener c \<Longrightarrow> op_close c (cl_onClose uv c)"
  unfolding cl_onClose_def by (rule op_close_after [OF op_close_reconnect]) (simp_all add: asleep_ok_def)

lemma op_onResolved:
  assumes "asleep_ok c" "cl_out c = []" "cl_onResolved uv ok c = Some c'"
  shows "op_plain c c' \<or> op_close c c'"
proof (cases ok)
  case True
  then show ?thesis
    using assms by (simp add: cl_onResolved_def cl_connect_addr_def Let_def split: if_splits) (auto simp: op_plain_def same_client_def keeps_socket_def asleep_ok_def)
next
  case False
  have "op_close c (cl_reconnect uv (c\<lparr>cl_dns := False\<rparr>))" if "cl_listener c"
    by (rule op_close_after [OF op_close_reconnect]) (use assms(1,2) that in \<open>simp_all add: asleep_ok_def\<close>)
  then show ?thesis using assms False by (simp add: cl_onResolved_def Let_def split: if_splits)
qed

lemma connect_facts:
  assumes "asleep_ok c" "cl_connect uv cached c = Some c'"
  shows "same_client c c' \<and> keeps_socket c c' \<and> cl_out c' = cl_out c \<and> cl_failures c' = (if cl_failures c = - 1 then 0 else cl_failures c)"
  using assms
  by (simp add: cl_connect_def cl_onResolved_def cl_connect_addr_def Let_def split: if_splits)
    (auto simp: same_client_def keeps_socket_def asleep_ok_def)

lemma plain_send_buf:
  "asleep_ok c \<Longrightarrow> (\<forall>e \<in> set (cl_out c). plain_event e) \<Longrightarrow> op_plain c (snd (cl_send_buf uv r c))"
  by (simp add: cl_send_buf_def plain_refl plain_closed Let_def) (auto simp: op_plain_def same_client_def keeps_socket_def asleep_ok_def plain_event_def emit_def)

lemma plain_send: "asleep_ok c \<Longrightarrow> (\<forall>e \<in> set (cl_out c). plain_event e) \<Longrightarrow> op_plain c (snd (cl_send uv r c))"
  by (simp add: cl_send_def plain_send_buf plain_closed)

text \<open>An operation that only changes other fields and adds plain callbacks.\<close>

lemma plain_emit: "op_plain c c' \<Longrightarrow> plain_event e \<Longrightarrow> op_plain c (emit e c')"
  by (auto simp: op_plain_def same_client_def keeps_socket_def asleep_ok_def emit_def)

lemma plain_then: "op_plain c c' \<Longrightarrow> (asleep_ok c' \<Longrightarrow> (\<forall>e \<in> set (cl_out c'). plain_event e) \<Longrightarrow> op_plain c' c'') \<Longrightarrow> op_plain c c''"
  by (rule plain_trans) (auto simp: op_plain_def same_client_def)

lemma plain_closed_then: "op_plain c c' \<Longrightarrow> op_plain c (cl_closed c')"
  by (rule plain_then) (auto intro: plain_closed)

lemma plain_login: "op_plain c c' \<Longrightarrow> op_plain c (cl_login uv c')"
  unfolding cl_login_def
  by (rule plain_then [OF plain_emit plain_send]) (simp_all add: plain_event_def)

lemma plain_ping: "op_plain c c' \<Longrightarrow> op_plain c (cl_ping uv c')"
  unfolding cl_ping_def
  by simp (rule plain_then [OF _ plain_send_buf])

lemma plain_setState:
  "op_plain c c' \<Longrightarrow> st \<noteq> ReconnectingState \<Longrightarrow> op_plain c (cl_setState uv st c')"
  by (auto simp: op_plain_def same_client_def keeps_socket_def asleep_ok_def)

lemma plain_onConnect:
  assumes "asleep_ok c" "cl_out c = []"
  shows "op_plain c (cl_onConnect uv ok c)"
proof -
  have r: "op_plain c c" by (rule plain_refl) (use assms in simp_all)
  have "op_plain c ((cl_setState uv ConnectedState c)\<lparr>cl_socket := Open_Socket True\<rparr>)"
    using plain_setState [OF r, of ConnectedState uv] by (simp add: op_plain_def same_client_def keeps_socket_def asleep_ok_def)
  then show ?thesis by (auto simp: cl_onConnect_def r plain_closed_then plain_login)
qed

lemma tick_cases:
  assumes "asleep_ok c" "cl_out c = []" "cl_tick uv cached c = Some c'"
  shows "op_plain c c'"
proof -
  have r: "op_plain c c" by (rule plain_refl) (use assms in simp_all)
  have conn: "op_plain c c'" if "cl_connect uv cached c = Some c'" "cl_state c = ReconnectingState" "cl_expire c \<noteq> 0"
    using connect_facts [OF assms(1) that(1)] assms(1,2) that(2,3) by (auto simp: op_plain_def asleep_ok_def)
  show ?thesis
    using assms(3) r conn plain_closed_then [OF r] plain_ping [OF r, of uv] by (auto simp: cl_tick_def split: if_splits)
qed

lemma plain_submit:
  assumes "asleep_ok c" "cl_out c = []" "cl_submit uv r c = Some (n, c')"
  shows "op_plain c c'"
proof -
  have r: "op_plain c c" by (rule plain_refl) (use assms in simp_all)
  have "op_plain c (snd (cl_send uv q (c\<lparr>cl_results := m\<rparr>)))" for q m
    by (rule plain_then [OF _ plain_send]) (simp_all add: r)
  then show ?thesis
    using assms(3) r plain_closed_then [OF r]
    by (auto simp: cl_submit_def Let_def split: option.splits if_splits bind_splits) (metis snd_conv)+
qed

subsection \<open>Messages\<close>

lemma startTimeout_simps [simp]:
  "cl_out (cl_startTimeout uv c) = cl_out c" "cl_job (cl_startTimeout uv c) = cl_job c" "cl_pool (cl_startTimeout uv c) = cl_pool c"
  "cl_id (cl_startTimeout uv c) = cl_id c" "cl_rpcId (cl_startTimeout uv c) = cl_rpcId c" "cl_state (cl_startTimeout uv c) = cl_state c"
  "cl_failures (cl_startTimeout uv c) = cl_failures c" "cl_expire (cl_startTimeout uv c) = 0"
  by (simp_all add: cl_startTimeout_def Let_def)

lemma plain_startTimeout: "op_plain c c' \<Longrightarrow> op_plain c (cl_startTimeout uv c')"
  using plain_expire [of c c'] by (simp add: cl_startTimeout_def Let_def)

lemma plain_parseJob:
  assumes "op_plain c c'" "cl_parseJob enabled params c' = Some (rc, code, c'')"
  shows "op_plain c c'' \<and> cl_out c'' = cl_out c'"
  using assms(2) plain_closed_then [OF assms(1)] assms(1)
  by (auto simp: cl_parseJob_def Let_def split: bind_splits sum.splits if_splits intro!: plain_closed_then)

definition ext_step :: "uv_env \<Rightarrow> json \<Rightarrow> Client \<Rightarrow> Client" where
  "ext_step uv e c =
     (case e of
        JString s \<Rightarrow>
          (case map_of extension_names (cstr s) of
             None \<Rightarrow> c
           | Some x \<Rightarrow>
               let c = c\<lparr>cl_extensions := insert x (cl_extensions c)\<rparr>
               in if x = EXT_KEEPALIVE then cl_startTimeout uv c else c)
      | _ \<Rightarrow> c)"

lemma parseExtensions_steps:
  "cl_parseExtensions uv result c =
    (case FindMember result ''extensions'' of
       Some (JArray es) \<Rightarrow> fold (ext_step uv) es (c\<lparr>cl_extensions := {}\<rparr>)
     | _ \<Rightarrow> c\<lparr>cl_extensions := {}\<rparr>)"
  unfolding cl_parseExtensions_def ext_step_def [abs_def] Let_def by (rule refl)

lemma ext_step_facts:
  "op_plain c c' \<Longrightarrow> op_plain c (ext_step uv e c')" "cl_out (ext_step uv e c') = cl_out c'" "cl_job (ext_step uv e c') = cl_job c'"
  "cl_pool (ext_step uv e c') = cl_pool c'" "cl_rpcId (ext_step uv e c') = cl_rpcId c'" "cl_id (ext_step uv e c') = cl_id c'"
  by (auto simp: ext_step_def Let_def plain_startTimeout split: json.split option.split)

lemma ext_steps_facts:
  "(op_plain c c' \<longrightarrow> op_plain c (fold (ext_step uv) es c')) \<and> cl_out (fold (ext_step uv) es c') = cl_out c' \<and>
   cl_job (fold (ext_step uv) es c') = cl_job c' \<and> cl_pool (fold (ext_step uv) es c') = cl_pool c' \<and>
   cl_rpcId (fold (ext_step uv) es c') = cl_rpcId c' \<and> cl_id (fold (ext_step uv) es c') = cl_id c'"
  by (induction es arbitrary: c') (simp_all add: ext_step_facts)

lemma parseExtensions_facts:
  "op_plain c c' \<Longrightarrow> op_plain c (cl_parseExtensions uv result c')" "cl_out (cl_parseExtensions uv result c') = cl_out c'"
  "cl_job (cl_parseExtensions uv result c') = cl_job c'" "cl_pool (cl_parseExtensions uv result c') = cl_pool c'"
  "cl_rpcId (cl_parseExtensions uv result c') = cl_rpcId c'" "cl_id (cl_parseExtensions uv result c') = cl_id c'"
  by (auto simp: parseExtensions_steps ext_steps_facts split: option.split json.split)

lemma plain_parseLogin:
  assumes "op_plain c c'" "cl_parseLogin uv enabled result c' = Some (rc, code, c'')"
  shows "op_plain c c'' \<and> cl_out c'' = cl_out c'"
proof (cases "getString result ''id''")
  case None
  then show ?thesis using assms by (auto simp: cl_parseLogin_def Let_def)
next
  case (Some i)
  let ?c = "cl_parseExtensions uv result (c'\<lparr>cl_rpcId := Some i\<rparr>)"
  obtain c2 where c2: "cl_parseJob enabled (member result ''job'') ?c = Some (rc, code, c2)" "c'' = c2\<lparr>cl_jobs := 0\<rparr>"
    using assms(2) Some by (auto simp: cl_parseLogin_def Let_def split: bind_splits)
  have "op_plain c ?c" by (rule parseExtensions_facts) (simp add: assms(1))
  then show ?thesis using plain_parseJob [OF _ c2(1)] by (simp add: c2(2) parseExtensions_facts)
qed

lemma plain_handleResponse: "op_plain c c' \<Longrightarrow> op_plain c (snd (cl_handleResponse i result err c'))"
  by (auto simp: cl_handleResponse_def intro: plain_emit simp: plain_event_def)

lemma plain_submitResponse: "op_plain c c' \<Longrightarrow> op_plain c (snd (cl_handleSubmitResponse uv i err c'))"
  by (auto simp: cl_handleSubmitResponse_def Let_def intro!: plain_emit simp: plain_event_def split: option.split)

lemma parseResponse_cases:
  assumes "op_plain c c'" "cl_out c' = []" "cl_parseResponse uv enabled i result err c' = Some c''"
  shows "op_plain c c'' \<or> op_login c c''"
proof -
  obtain handled c1 where h: "cl_handleResponse i result err c' = (handled, c1)" by (cases "cl_handleResponse i result err c'")
  have c1: "op_plain c c1" using plain_handleResponse [OF assms(1), of i result err] h by simp
  have out: "cl_out c1 = []" if "i = 1" using h that assms(2) by (simp add: cl_handleResponse_def)
  show ?thesis
  proof (cases "\<not> handled \<and> \<not> json_isObject err \<and> json_isObject result \<and> i = 1")
    case True
    then obtain rc code c2 where c2: "cl_parseLogin uv enabled result c1 = Some (rc, code, c2)"
        "c'' = (if \<not> rc then cl_closed c2 else
          (let c = emit Out_LoginSuccess (c2\<lparr>cl_failures := 0\<rparr>) in if job_isValid (cl_job c) then emit (Out_Job (cl_job c)) c else c))"
      using assms(3) h by (auto simp: cl_parseResponse_def Let_def split: bind_splits if_splits)
    have p: "op_plain c c2" "cl_out c2 = []" using plain_parseLogin [OF c1 c2(1)] out True by simp_all
    show ?thesis
    proof (cases rc)
      case rc: True
      have "same_client c (c2\<lparr>cl_failures := 0\<rparr>)" using p(1) by (simp add: op_plain_def same_client_def asleep_ok_def)
      then have "op_login c c''"
        using rc p by (simp add: c2(2) op_login_def emit_def op_plain_def same_client_def keeps_socket_def asleep_ok_def plain_event_def Let_def)
      then show ?thesis ..
    next
      case False
      then show ?thesis using plain_closed_then [OF p(1)] by (simp add: c2(2))
    qed
  next
    case False
    have "op_plain c (snd (cl_handleSubmitResponse uv i m c1))" for m by (rule plain_submitResponse [OF c1])
    then have "op_plain c c''"
      using assms(3) h False c1 by (auto simp: cl_parseResponse_def Let_def intro: plain_closed_then split: bind_splits if_splits)
    then show ?thesis ..
  qed
qed

lemma parse_cases:
  assumes "asleep_ok c" "cl_out c = []" "cl_parse uv J enabled line c = Some c'"
  shows "op_plain c c' \<or> op_login c c'"
proof -
  have r: "op_plain c (cl_startTimeout uv c)" by (rule plain_startTimeout [OF plain_refl]) (use assms in simp_all)
  have note_job: "op_plain c c'" if "cl_parseNotification enabled m ps (cl_startTimeout uv c) = Some c'" for m ps
    using that r plain_parseJob [OF r]
    by (auto simp: cl_parseNotification_def plain_event_def intro!: plain_emit plain_closed_then split: bind_splits if_splits)
  show ?thesis
    using assms(3) r note_job parseResponse_cases [OF r] assms(2)
    by (auto simp: cl_parse_def Let_def split: if_splits option.splits)
qed

end
