(* ===== verification/Failover_Safety.thy ===== *)
theory Failover_Safety
  imports Pool_Strategy Client_Safety
begin

text \<open>
  What holds in every run of the failover strategy: which pool is active and what is known of its connection and of the
  other pools.
\<close>

subsection \<open>The invariant of the strategy\<close>

definition client_ok :: "nat \<Rightarrow> Client \<Rightarrow> bool" where
  "client_ok i c \<longleftrightarrow> cl_id c = int i \<and> cl_listener c \<and> \<not> cl_removed c \<and> asleep_ok c \<and> cl_out c = []"

text \<open>The active pool is the one of the index, its client has a connection, and all backup pools but it are disconnected.\<close>

definition active_ok :: "nat \<Rightarrow> Client list \<Rightarrow> bool" where
  "active_ok k cs \<longleftrightarrow> cl_failures (cs ! k) = 0 \<and> cl_socket (cs ! k) \<noteq> No_Socket \<and>
     (\<forall>j. 0 < j \<longrightarrow> j < length cs \<longrightarrow> j \<noteq> k \<longrightarrow> cl_failures (cs ! j) = - 1)"

definition clients_ok :: "nat \<Rightarrow> Failover \<Rightarrow> bool" where
  "clients_ok n fo \<longleftrightarrow> length (fo_clients fo) = n \<and> fo_index fo < n \<and> - 1 \<le> fo_active fo \<and>
     (\<forall>i < n. client_ok i (fo_clients fo ! i)) \<and> (fo_isActive fo \<longrightarrow> int (fo_index fo) = fo_active fo)"

definition fo_inv :: "nat \<Rightarrow> Failover \<Rightarrow> bool" where
  "fo_inv n fo \<longleftrightarrow> clients_ok n fo \<and> (fo_isActive fo \<longrightarrow> active_ok (fo_index fo) (fo_clients fo))"

lemma fo_inv_out [simp]: "fo_inv n (fo\<lparr>fo_out := out\<rparr>) = fo_inv n fo" "fo_inv n (fo\<lparr>fo_sequence := k\<rparr>) = fo_inv n fo"
  by (simp_all add: fo_inv_def clients_ok_def fo_isActive_def)

lemma fo_inv_emit [simp]: "fo_inv n (fo_emit e fo) = fo_inv n fo"
  by (simp add: fo_emit_def)

lemma fo_event_plain:
  "plain_event e \<Longrightarrow> \<exists>out. fo_event uv cached k e fo = Some (fo\<lparr>fo_out := out\<rparr>)"
  by (cases e) (auto simp: fo_event_def plain_event_def fo_emit_def fo_onJobReceived_def intro: exI [of _ "fo_out fo"])

lemma fo_events_plain:
  "(\<forall>e \<in> set es. plain_event e) \<Longrightarrow> \<exists>out. foldl (\<lambda>fo e. Option.bind fo (fo_event uv cached k e)) (Some fo) es = Some (fo\<lparr>fo_out := out\<rparr>)"
proof (induction es arbitrary: fo)
  case Nil
  then show ?case by (intro exI [of _ "fo_out fo"]) simp
next
  case (Cons e es)
  obtain out where "fo_event uv cached k e fo = Some (fo\<lparr>fo_out := out\<rparr>)" using fo_event_plain [of e uv cached k fo] Cons.prems by auto
  then show ?case using Cons.IH [of "fo\<lparr>fo_out := out\<rparr>"] Cons.prems by auto
qed

lemma disconnect_facts:
  "client_ok i c \<Longrightarrow> client_ok i (snd (cl_disconnect c))" "cl_failures (snd (cl_disconnect c)) = - 1"
  "cl_socket (snd (cl_disconnect c)) = No_Socket \<longleftrightarrow> cl_socket c = No_Socket"
proof -
  have eq: "snd (cl_disconnect c) = cl_closed (c\<lparr>cl_keepAlive := 0, cl_expire := 0, cl_failures := - 1\<rparr>)"
    by (simp add: cl_disconnect_def cl_closed_def)
  show "client_ok i c \<Longrightarrow> client_ok i (snd (cl_disconnect c))" "cl_failures (snd (cl_disconnect c)) = - 1"
    "cl_socket (snd (cl_disconnect c)) = No_Socket \<longleftrightarrow> cl_socket c = No_Socket"
    by (simp_all add: eq client_ok_def asleep_ok_def)
qed

text \<open>The disconnections of a login, all at once.\<close>

lemma fold_disconnect:
  assumes "distinct is" "\<forall>i \<in> set is. i < length (fo_clients fo)"
  shows "fold (\<lambda>i fo. if P i then fo_disconnect i fo else fo) is fo =
    fo\<lparr>fo_clients := map (\<lambda>j. if j \<in> set is \<and> P j then snd (cl_disconnect (fo_clients fo ! j)) else fo_clients fo ! j) [0..<length (fo_clients fo)]\<rparr>"
  using assms
proof (induction "is" arbitrary: fo)
  case Nil
  then show ?case by (simp add: map_nth)
next
  case (Cons i "is")
  define fo1 where "fo1 = (if P i then fo_disconnect i fo else fo)"
  have l: "length (fo_clients fo1) = length (fo_clients fo)" by (simp add: fo1_def fo_disconnect_def fo_silent_def)
  have n: "fo_clients fo1 ! j = (if j = i \<and> P i then snd (cl_disconnect (fo_clients fo ! j)) else fo_clients fo ! j)" if "j < length (fo_clients fo)" for j
    using that by (simp add: fo1_def fo_disconnect_def fo_silent_def nth_list_update)
  have f: "fo1\<lparr>fo_clients := cs\<rparr> = fo\<lparr>fo_clients := cs\<rparr>" for cs by (simp add: fo1_def fo_disconnect_def fo_silent_def)
  have "fold (\<lambda>i fo. if P i then fo_disconnect i fo else fo) (i # is) fo = fold (\<lambda>i fo. if P i then fo_disconnect i fo else fo) is fo1"
    by (simp add: fo1_def)
  also have "\<dots> = fo1\<lparr>fo_clients := map (\<lambda>j. if j \<in> set is \<and> P j then snd (cl_disconnect (fo_clients fo1 ! j)) else fo_clients fo1 ! j) [0..<length (fo_clients fo1)]\<rparr>"
    by (rule Cons.IH) (use Cons.prems l in auto)
  also have "map (\<lambda>j. if j \<in> set is \<and> P j then snd (cl_disconnect (fo_clients fo1 ! j)) else fo_clients fo1 ! j) [0..<length (fo_clients fo1)] =
      map (\<lambda>j. if j \<in> set (i # is) \<and> P j then snd (cl_disconnect (fo_clients fo ! j)) else fo_clients fo ! j) [0..<length (fo_clients fo)]"
    unfolding l
  proof (rule map_cong [OF refl])
    fix j assume "j \<in> set [0..<length (fo_clients fo)]"
    then have "j < length (fo_clients fo)" by simp
    then show "(if j \<in> set is \<and> P j then snd (cl_disconnect (fo_clients fo1 ! j)) else fo_clients fo1 ! j) =
        (if j \<in> set (i # is) \<and> P j then snd (cl_disconnect (fo_clients fo ! j)) else fo_clients fo ! j)"
      using Cons.prems(1) n [of j] by (cases "j = i"; cases "P i") simp_all
  qed
  also note f
  finally show ?case .
qed

lemma login_inv:
  assumes ok: "clients_ok n fo" and i: "i < n" "cl_failures (fo_clients fo ! i) = 0" "cl_socket (fo_clients fo ! i) \<noteq> No_Socket"
    and act: "fo_isActive fo \<Longrightarrow> cl_failures (fo_clients fo ! fo_index fo) = 0 \<and> cl_socket (fo_clients fo ! fo_index fo) \<noteq> No_Socket"
  shows "fo_inv n (fo_onLoginSuccess (int i) fo) \<and>
    (\<forall>j < n. cl_socket (fo_clients (fo_onLoginSuccess (int i) fo) ! j) = No_Socket \<longleftrightarrow> cl_socket (fo_clients fo ! j) = No_Socket)"
proof -
  define active where "active = (if int i = 0 \<or> \<not> fo_isActive fo then int i else fo_active fo)"
  define k where "k = nat active"
  have k: "active = int k" "k < n"
    using ok i(1) by (auto simp: k_def active_def clients_ok_def fo_isActive_def)
  have n: "length (fo_clients fo) = n" using ok by (simp add: clients_ok_def)
  define cs where "cs = map (\<lambda>j. if j \<in> set [1..<n] \<and> active \<noteq> int j then snd (cl_disconnect (fo_clients fo ! j)) else fo_clients fo ! j) [0..<n]"
  have all: "fold (\<lambda>i fo. if active \<noteq> int i then fo_disconnect i fo else fo) [1..<n] fo = fo\<lparr>fo_clients := cs\<rparr>"
    by (subst fold_disconnect) (simp_all add: n cs_def)
  have pos: "0 \<le> active" "nat active = k" using k(1) by simp_all
  have r: "fo_onLoginSuccess (int i) fo = (if active \<noteq> fo_active fo
      then fo_emit (St_Active (int i)) (fo\<lparr>fo_clients := cs, fo_active := active, fo_index := k\<rparr>) else fo\<lparr>fo_clients := cs\<rparr>)"
    unfolding fo_onLoginSuccess_def Let_def active_def [symmetric] n all by (simp add: pos)
  have cs: "length cs = n" "\<And>j. j < n \<Longrightarrow> cs ! j = (if 1 \<le> j \<and> j \<noteq> k then snd (cl_disconnect (fo_clients fo ! j)) else fo_clients fo ! j)"
    by (auto simp: cs_def k)
  have "k = i \<or> fo_isActive fo \<and> k = fo_index fo" using ok by (auto simp: k_def active_def clients_ok_def)
  then have "active_ok k cs" using i act k(2) cs by (auto simp: active_ok_def disconnect_facts)
  moreover have "\<forall>j < n. client_ok j (cs ! j)" using ok cs(2) by (simp add: clients_ok_def disconnect_facts)
  moreover have "active = fo_active fo \<Longrightarrow> fo_index fo = k" using ok k by (auto simp: clients_ok_def fo_isActive_def)
  ultimately have "fo_inv n (fo_onLoginSuccess (int i) fo)"
    using k cs(1) ok by (auto simp: r fo_inv_def clients_ok_def fo_isActive_def fo_emit_def)
  moreover have "fo_clients (fo_onLoginSuccess (int i) fo) = cs" by (simp add: r fo_emit_def)
  ultimately show ?thesis using cs(2) by (simp add: disconnect_facts)
qed

text \<open>The state between an operation of client \<open>i\<close> and its callbacks.\<close>

definition after_op :: "nat \<Rightarrow> Client \<Rightarrow> Failover \<Rightarrow> Failover" where
  "after_op i c fo = fo\<lparr>fo_clients := (fo_clients fo)[i := c\<lparr>cl_out := []\<rparr>], fo_sequence := cl_sequence c\<rparr>"

lemma after_op_simps [simp]:
  "fo_active (after_op i c fo) = fo_active fo" "fo_index (after_op i c fo) = fo_index fo" "fo_isActive (after_op i c fo) = fo_isActive fo"
  "length (fo_clients (after_op i c fo)) = length (fo_clients fo)" "fo_retries (after_op i c fo) = fo_retries fo"
  by (simp_all add: after_op_def fo_isActive_def)

lemma after_op_nth:
  "j < length (fo_clients fo) \<Longrightarrow> fo_clients (after_op i c fo) ! j = (if j = i then c\<lparr>cl_out := []\<rparr> else fo_clients fo ! j)"
  by (simp add: after_op_def nth_list_update)

lemma client_okD:
  assumes "clients_ok n fo" "i < n"
  shows "cl_id (fo_clients fo ! i) = int i" "cl_listener (fo_clients fo ! i)" "asleep_ok (fo_clients fo ! i)" "cl_out (fo_clients fo ! i) = []"
  using assms by (simp_all add: clients_ok_def client_ok_def)

lemma asleep_out [simp]: "asleep_ok (c\<lparr>cl_out := es\<rparr>) = asleep_ok c" "asleep_ok (c\<lparr>cl_sequence := k\<rparr>) = asleep_ok c"
  by (simp_all add: asleep_ok_def)

lemma after_op_ok:
  assumes "clients_ok n fo" "i < n" "same_client ((fo_clients fo ! i)\<lparr>cl_sequence := k\<rparr>) c"
  shows "clients_ok n (after_op i c fo)"
proof -
  have "client_ok i (c\<lparr>cl_out := []\<rparr>)"
    using assms by (simp add: clients_ok_def client_ok_def same_client_def)
  then show ?thesis using assms(1) after_op_nth [of _ fo i c] by (simp add: clients_ok_def)
qed

lemma plain_inv:
  assumes inv: "fo_inv n fo" and i: "i < n" and op: "op_plain ((fo_clients fo ! i)\<lparr>cl_sequence := k\<rparr>) c"
  shows "fo_inv n (after_op i c fo)"
proof -
  have ok: "clients_ok n (after_op i c fo)" using inv i op by (intro after_op_ok [where k = k]) (simp_all add: fo_inv_def op_plain_def)
  have n: "length (fo_clients fo) = n" "fo_index fo < n" using inv by (simp_all add: fo_inv_def clients_ok_def)
  have "active_ok (fo_index fo) (fo_clients (after_op i c fo))" if "fo_isActive fo"
    using inv that op n after_op_nth [of _ fo i c] by (auto simp: fo_inv_def active_ok_def op_plain_def keeps_socket_def)
  then show ?thesis using ok by (simp add: fo_inv_def)
qed

lemma clients_ok_fields [simp]:
  "clients_ok n (fo\<lparr>fo_out := out\<rparr>) = clients_ok n fo"
  by (simp add: clients_ok_def fo_isActive_def)

lemma connect_ok:
  assumes ok: "clients_ok n fo" and j: "j < n" and c: "fo_connect uv cached j fo = Some fo'"
  shows "clients_ok n fo' \<and> fo_active fo' = fo_active fo \<and> fo_index fo' = fo_index fo \<and>
    (\<forall>i < n. keeps_socket (fo_clients fo ! i) (fo_clients fo' ! i)) \<and>
    (\<forall>i < n. cl_failures (fo_clients fo' ! i) = (if i = j \<and> cl_failures (fo_clients fo ! i) = - 1 then 0 else cl_failures (fo_clients fo ! i)))"
proof -
  obtain c' where c': "cl_connect uv cached (fo_clients fo ! j) = Some c'" "fo' = fo_silent j (\<lambda>_. c') fo"
    using c by (auto simp: fo_connect_def split: bind_splits)
  note f = connect_facts [OF client_okD(3) [OF ok j] c'(1)]
  have n: "length (fo_clients fo) = n" using ok by (simp add: clients_ok_def)
  have nth: "fo_clients fo' ! i = (if i = j then c' else fo_clients fo ! i)" if "i < n" for i
    using that n by (simp add: c'(2) fo_silent_def nth_list_update)
  have "client_ok j c'" using ok j f by (simp add: clients_ok_def client_ok_def same_client_def)
  then have "clients_ok n fo'" using ok nth by (simp add: clients_ok_def) (simp add: c'(2) fo_silent_def fo_isActive_def)
  moreover have "fo_active fo' = fo_active fo" "fo_index fo' = fo_index fo" by (simp_all add: c'(2) fo_silent_def)
  ultimately show ?thesis using f nth by (simp add: keeps_socket_def)
qed

lemma close_inv:
  assumes inv: "fo_inv n fo" and i: "i < n" and op: "op_close ((fo_clients fo ! i)\<lparr>cl_sequence := k\<rparr>) c"
    and r: "fo_onClose uv cached (int i) (cl_failures c) (after_op i c fo) = Some fo'"
  shows "fo_inv n fo'"
proof -
  let ?fo = "after_op i c fo"
  have ok: "clients_ok n ?fo" using inv i op by (intro after_op_ok [where k = k]) (simp_all add: fo_inv_def op_close_def)
  have n: "length (fo_clients fo) = n" "fo_index fo < n" using inv by (simp_all add: fo_inv_def clients_ok_def)
  have act: "int (fo_index fo) = fo_active fo" "active_ok (fo_index fo) (fo_clients fo)" if "fo_isActive fo"
    using inv that by (simp_all add: fo_inv_def clients_ok_def)
  have fail: "cl_failures c = (if cl_failures (fo_clients fo ! i) = - 1 then - 1 else cl_failures (fo_clients fo ! i) + 1)"
    using op by (simp add: op_close_def)
  show ?thesis
  proof (cases "fo_isActive fo \<and> int i \<noteq> fo_active fo")
    case True
    then have ni: "i \<noteq> fo_index fo" using act by auto
    have keep: "active_ok (fo_index fo) (fo_clients ?fo)" if "0 < i \<longrightarrow> cl_failures c = - 1"
      using act True ni that n after_op_nth [of _ fo i c] by (auto simp: active_ok_def)
    have z: "0 < i \<longrightarrow> cl_failures c = - 1" using act(2) True ni i n fail by (auto simp: active_ok_def)
    have "fo' = ?fo"
      using r True ni z act(1) by (auto simp: fo_onClose_def Let_def split: if_splits)
    then show ?thesis using keep [OF z] ok by (simp add: fo_inv_def)
  next
    case False
    define fo1 where "fo1 = (if fo_active ?fo = int i then fo_emit St_Pause (?fo\<lparr>fo_active := - 1\<rparr>) else ?fo)"
    show ?thesis
    proof (cases "cl_failures c = - 1")
      case True
      moreover have "i = fo_index fo" if "fo_isActive fo" using that False act(1) by simp
      ultimately have "\<not> fo_isActive fo" using fail act(2) by (auto simp: active_ok_def)
      moreover have "fo' = ?fo" using r True by (simp add: fo_onClose_def)
      ultimately show ?thesis using ok by (simp add: fo_inv_def)
    next
      case nz: False
      have off: "\<not> fo_isActive fo1" using False by (auto simp: fo1_def fo_emit_def fo_isActive_def)
      have ok1: "clients_ok n fo1" using ok by (auto simp: fo1_def fo_emit_def clients_ok_def fo_isActive_def)
      have step: "fo_inv n fo'" if "fo' = fo1 \<or> (fo_index fo1 + 1 < n \<and> fo_connect uv cached (fo_index fo1 + 1) (fo1\<lparr>fo_index := fo_index fo1 + 1\<rparr>) = Some fo')"
        using that
      proof
        assume "fo' = fo1"
        then show ?thesis using off ok1 by (simp add: fo_inv_def)
      next
        assume h: "fo_index fo1 + 1 < n \<and> fo_connect uv cached (fo_index fo1 + 1) (fo1\<lparr>fo_index := fo_index fo1 + 1\<rparr>) = Some fo'"
        have "clients_ok n (fo1\<lparr>fo_index := fo_index fo1 + 1\<rparr>)" using ok1 h off by (simp add: clients_ok_def fo_isActive_def)
        from connect_ok [OF this _ h [THEN conjunct2]] show ?thesis
          using h off by (simp add: fo_inv_def fo_isActive_def)
      qed
      have "length (fo_clients fo1) = n" using ok1 by (simp add: clients_ok_def)
      then show ?thesis
        using r nz unfolding fo_onClose_def fo1_def [symmetric] Let_def
        by (intro step) (auto split: if_splits)
    qed
  qed
qed

text \<open>An operation of client \<open>i\<close> with its callbacks.\<close>

lemma fo_client_kept:
  assumes inv: "fo_inv n fo" and i: "i < n" and op: "op_plain c0 c \<or> op_login c0 c"
    and c0: "c0 = (fo_clients fo ! i)\<lparr>cl_sequence := fo_sequence fo\<rparr>" and s: "cl_socket c0 \<noteq> No_Socket \<or> op_plain c0 c"
    and r: "fo_client uv cached i (\<lambda>_. Some c) fo = Some fo'"
  shows "fo_inv n fo' \<and> (cl_socket (fo_clients fo ! i) \<noteq> No_Socket \<longrightarrow> cl_socket (fo_clients fo' ! i) \<noteq> No_Socket)"
proof -
  let ?fo = "after_op i c fo"
  have n: "length (fo_clients fo) = n" using inv by (simp add: fo_inv_def clients_ok_def)
  have same: "same_client c0 c" "keeps_socket c0 c" using op by (auto simp: op_plain_def op_login_def)
  have id: "cl_id c = int i"
    using same(1) c0 client_okD(1) [of n fo i] inv i by (simp add: same_client_def fo_inv_def)
  have fold: "Some fo' = foldl (\<lambda>fo e. Option.bind fo (fo_event uv cached (int i) e)) (Some ?fo) (cl_out c)"
    using r by (simp add: fo_client_def Let_def after_op_def id)
  have kept: "cl_socket (fo_clients ?fo ! i) \<noteq> No_Socket" if "cl_socket (fo_clients fo ! i) \<noteq> No_Socket"
    using that same(2) i n by (simp add: after_op_nth keeps_socket_def c0)
  show ?thesis
  proof (cases "op_plain c0 c")
    case True
    then obtain out where "fo' = ?fo\<lparr>fo_out := out\<rparr>"
      using fo_events_plain [of "cl_out c" uv cached "int i" ?fo] fold by (auto simp: op_plain_def)
    then show ?thesis using plain_inv [OF inv i True [unfolded c0]] kept by simp
  next
    case False
    then obtain js where js: "\<forall>e \<in> set js. plain_event e" "cl_out c = Out_LoginSuccess # js" and f: "cl_failures c = 0"
      using op by (auto simp: op_login_def)
    define fo1 where "fo1 = fo_onLoginSuccess (int i) ?fo"
    obtain out where out: "fo' = fo1\<lparr>fo_out := out\<rparr>"
      using fo_events_plain [OF js(1), of uv cached "int i" fo1] fold by (auto simp: js(2) fo_event_def fo1_def)
    have ok: "clients_ok n ?fo" by (rule after_op_ok) (use inv i same(1) c0 in \<open>simp_all add: fo_inv_def\<close>)
    have si: "cl_failures (fo_clients ?fo ! i) = 0" "cl_socket (fo_clients ?fo ! i) \<noteq> No_Socket"
      using f kept s False i n by (simp_all add: after_op_nth c0)
    have "cl_failures (fo_clients ?fo ! fo_index ?fo) = 0 \<and> cl_socket (fo_clients ?fo ! fo_index ?fo) \<noteq> No_Socket" if "fo_isActive ?fo"
      using inv that si n ok by (cases "fo_index fo = i") (simp_all add: fo_inv_def active_ok_def clients_ok_def after_op_nth)
    from login_inv [OF ok i si this] show ?thesis using i kept by (simp add: out fo1_def)
  qed
qed

lemma fo_client_inv:
  assumes inv: "fo_inv n fo" and i: "i < n" and r: "fo_client uv cached i f fo = Some fo'"
    and f: "\<And>c. f ((fo_clients fo ! i)\<lparr>cl_sequence := fo_sequence fo\<rparr>) = Some c \<Longrightarrow>
      op_plain ((fo_clients fo ! i)\<lparr>cl_sequence := fo_sequence fo\<rparr>) c \<or> op_close ((fo_clients fo ! i)\<lparr>cl_sequence := fo_sequence fo\<rparr>) c"
  shows "fo_inv n fo'"
proof -
  let ?c = "(fo_clients fo ! i)\<lparr>cl_sequence := fo_sequence fo\<rparr>"
  obtain c where c: "f ?c = Some c" using r by (auto simp: fo_client_def split: bind_splits)
  from f [OF c] show ?thesis
  proof
    assume "op_plain ?c c"
    then show ?thesis using fo_client_kept [OF inv i disjI1 refl disjI2] r c by (simp add: fo_client_def)
  next
    assume op: "op_close ?c c"
    moreover have "cl_id c = int i"
      using op client_okD(1) [of n fo i] inv i by (simp add: op_close_def same_client_def fo_inv_def)
    ultimately have "fo_onClose uv cached (int i) (cl_failures c) (after_op i c fo) = Some fo'"
      using r c by (simp add: fo_client_def Let_def after_op_def op_close_def fo_event_def)
    then show ?thesis by (rule close_inv [OF inv i op])
  qed
qed

subsection \<open>Every step\<close>

lemma client_ok_run:
  assumes "fo_inv n fo" "i < n"
  shows "asleep_ok ((fo_clients fo ! i)\<lparr>cl_sequence := k\<rparr>)" "cl_out ((fo_clients fo ! i)\<lparr>cl_sequence := k\<rparr>) = []"
    "cl_listener ((fo_clients fo ! i)\<lparr>cl_sequence := k\<rparr>)"
  using client_okD [of n fo i] assms by (simp_all add: fo_inv_def)

lemma silent_reader_inv:
  assumes "fo_inv n fo" "i < n"
  shows "fo_inv n (fo_silent i (\<lambda>c. c\<lparr>cl_reader := r\<rparr>) fo)"
    "cl_socket (fo_clients (fo_silent i (\<lambda>c. c\<lparr>cl_reader := r\<rparr>) fo) ! i) = cl_socket (fo_clients fo ! i)"
proof -
  have l: "length (fo_clients fo) = n" using assms(1) by (simp add: fo_inv_def clients_ok_def)
  have nth: "(fo_clients fo)[i := (fo_clients fo ! i)\<lparr>cl_reader := r\<rparr>] ! j = (if j = i then (fo_clients fo ! i)\<lparr>cl_reader := r\<rparr> else fo_clients fo ! j)"
    if "j < n" for j using that l by (simp add: nth_list_update)
  have ok: "client_ok j ((fo_clients fo)[i := (fo_clients fo ! i)\<lparr>cl_reader := r\<rparr>] ! j)" if "j < n" for j
    using assms that by (cases "j = i") (simp_all add: nth [OF that] fo_inv_def clients_ok_def client_ok_def asleep_ok_def)
  have act: "active_ok k ((fo_clients fo)[i := (fo_clients fo ! i)\<lparr>cl_reader := r\<rparr>])" if "active_ok k (fo_clients fo)" "k < n" for k
    using that l by (auto simp: active_ok_def nth)
  show "fo_inv n (fo_silent i (\<lambda>c. c\<lparr>cl_reader := r\<rparr>) fo)"
    using assms ok act by (simp add: fo_silent_def fo_inv_def clients_ok_def fo_isActive_def)
  show "cl_socket (fo_clients (fo_silent i (\<lambda>c. c\<lparr>cl_reader := r\<rparr>) fo) ! i) = cl_socket (fo_clients fo ! i)"
    using nth [OF assms(2)] by (simp add: fo_silent_def)
qed

lemma bind_foldl_None: "foldl (\<lambda>r x. Option.bind r (g x)) None xs = None"
  by (induction xs) simp_all

text \<open>What every element keeps holds after the last.\<close>

lemma foldl_bind_keeps:
  assumes "P a" "\<And>x a b. x \<in> set xs \<Longrightarrow> P a \<Longrightarrow> g x a = Some b \<Longrightarrow> P b" "foldl (\<lambda>r x. Option.bind r (g x)) (Some a) xs = Some b"
  shows "P b"
  using assms
proof (induction xs arbitrary: a)
  case (Cons x xs)
  obtain a' where a': "g x a = Some a'" using Cons.prems(3) by (cases "g x a") (simp_all add: bind_foldl_None)
  have "P a'" by (rule Cons.prems(2) [OF _ Cons.prems(1) a']) simp
  moreover have "P b" if "x' \<in> set xs" "P a" "g x' a = Some b" for x' a b
    by (rule Cons.prems(2) [OF _ that(2,3)]) (simp add: that(1))
  ultimately show ?case by (rule Cons.IH) (use Cons.prems(3) a' in simp_all)
qed simp

lemma parse_line_inv:
  assumes inv: "fo_inv n fo" and i: "i < n" and s: "cl_socket (fo_clients fo ! i) \<noteq> No_Socket"
    and r: "fo_client uv cached i (cl_parse uv J enabled l) fo = Some fo'"
  shows "fo_inv n fo' \<and> cl_socket (fo_clients fo' ! i) \<noteq> No_Socket"
proof -
  let ?c = "(fo_clients fo ! i)\<lparr>cl_sequence := fo_sequence fo\<rparr>"
  obtain c where c: "cl_parse uv J enabled l ?c = Some c" using r by (auto simp: fo_client_def split: bind_splits)
  have "op_plain ?c c \<or> op_login ?c c" by (rule parse_cases [OF client_ok_run(1,2) [OF inv i] c])
  from fo_client_kept [OF inv i this refl _, of uv cached fo'] show ?thesis using r c s by (simp add: fo_client_def)
qed

lemma read_inv:
  assumes "fo_inv n fo" "i < n" "cl_socket (fo_clients fo ! i) \<noteq> No_Socket" "fo_read uv cached J enabled i t fo = Some fo'"
  shows "fo_inv n fo'"
proof -
  obtain ls r where lr: "lr_parse (cl_reader (fo_clients fo ! i)) t = (ls, r)" by (cases "lr_parse (cl_reader (fo_clients fo ! i)) t")
  then have "foldl (\<lambda>fo l. Option.bind fo (fo_client uv cached i (cl_parse uv J enabled l)))
      (Some (fo_silent i (\<lambda>c. c\<lparr>cl_reader := r\<rparr>) fo)) ls = Some fo'"
    using assms(4) by (simp add: fo_read_def)
  with _ parse_line_inv [OF _ assms(2)] have "fo_inv n fo' \<and> cl_socket (fo_clients fo' ! i) \<noteq> No_Socket"
    by (rule foldl_bind_keeps [where P = "\<lambda>fo. fo_inv n fo \<and> cl_socket (fo_clients fo ! i) \<noteq> No_Socket"])
      (simp_all only: silent_reader_inv [OF assms(1,2)] assms(3) simp_thms)
  then show ?thesis ..
qed

lemma tick_client_inv:
  assumes "fo_inv n fo" "i < n" "fo_client uv cached i (cl_tick uv cached) fo = Some fo'"
  shows "fo_inv n fo'"
  by (rule fo_client_inv [OF assms]) (rule disjI1, rule tick_cases [OF client_ok_run(1,2) [OF assms(1,2)]])

lemma tick_inv_failover:
  assumes "fo_inv n fo" "fo_tick uv cached fo = Some fo'"
  shows "fo_inv n fo'"
proof -
  have "length (fo_clients fo) = n" using assms(1) by (simp add: fo_inv_def clients_ok_def)
  then show ?thesis
    using foldl_bind_keeps [where P = "fo_inv n", OF assms(1) _ assms(2) [unfolded fo_tick_def]] tick_client_inv by simp
qed

lemma submit_inv:
  assumes inv: "fo_inv n fo" and r: "fo_submit uv cached jr fo = Some fo'"
  shows "fo_inv n fo'"
proof (cases "fo_isActive fo")
  case True
  then have i: "nat (fo_active fo) < n" using inv by (auto simp: fo_inv_def clients_ok_def)
  have r': "fo_client uv cached (nat (fo_active fo)) (\<lambda>c. map_option snd (cl_submit uv jr c)) fo = Some fo'"
    using r True by (simp add: fo_submit_def)
  show ?thesis
    by (rule fo_client_inv [OF inv i r']) (auto intro: plain_submit [OF client_ok_run(1,2) [OF inv i]])
next
  case False
  then show ?thesis using inv r by (simp add: fo_submit_def)
qed

lemma start_inv:
  assumes inv: "fo_inv n fo" and r: "fo_start uv cached fo = Some fo'"
  shows "fo_inv n fo'"
proof -
  have ok: "clients_ok n fo" and k: "fo_index fo < n" using inv by (simp_all add: fo_inv_def clients_ok_def)
  note c = connect_ok [OF ok k r [unfolded fo_start_def]]
  have l: "length (fo_clients fo) = n" "length (fo_clients fo') = n" using ok c by (simp_all add: clients_ok_def)
  have "active_ok (fo_index fo) (fo_clients fo')" if "fo_isActive fo"
    using inv that c k l by (auto simp: fo_inv_def active_ok_def keeps_socket_def)
  then show ?thesis using c by (simp add: fo_inv_def fo_isActive_def)
qed

lemma stop_inv:
  assumes inv: "fo_inv n fo" and n: "0 < n"
  shows "fo_inv n (fo_stop fo)" "fo_active (fo_stop fo) = - 1" "\<forall>i < n. cl_failures (fo_clients (fo_stop fo) ! i) = - 1"
proof -
  have l: "length (fo_clients fo) = n" using inv by (simp add: fo_inv_def clients_ok_def)
  have "fold fo_disconnect [0..<n] fo = fold (\<lambda>i fo. if True then fo_disconnect i fo else fo) [0..<n] fo" by simp
  also have "\<dots> = fo\<lparr>fo_clients := map (\<lambda>j. snd (cl_disconnect (fo_clients fo ! j))) [0..<n]\<rparr>"
    by (subst fold_disconnect) (auto simp: l)
  finally have eq: "fo_stop fo = fo_emit St_Pause (fo\<lparr>fo_clients := map (\<lambda>j. snd (cl_disconnect (fo_clients fo ! j))) [0..<n],
      fo_index := 0, fo_active := - 1\<rparr>)"
    by (simp add: fo_stop_def l Let_def)
  show "fo_inv n (fo_stop fo)"
    using inv n unfolding eq fo_inv_emit by (simp add: fo_inv_def clients_ok_def fo_isActive_def disconnect_facts)
  show "fo_active (fo_stop fo) = - 1" "\<forall>i < n. cl_failures (fo_clients (fo_stop fo) ! i) = - 1"
    by (simp_all add: eq fo_emit_def disconnect_facts)
qed

lemma setAlgo_inv: "fo_inv n fo \<Longrightarrow> fo_inv n (fo_setAlgo algo fo)"
  by (auto simp: fo_setAlgo_def fo_inv_def clients_ok_def client_ok_def asleep_ok_def active_ok_def fo_isActive_def)

lemma resume_inv: "fo_inv n fo \<Longrightarrow> fo_inv n (fo_resume fo)"
  by (simp add: fo_resume_def)

lemma new_inv: "pools \<noteq> [] \<Longrightarrow> fo_inv (length pools) (Failover_new pools ms retries)"
  by (simp add: Failover_new_def Client_new_def fo_inv_def clients_ok_def client_ok_def asleep_ok_def fo_isActive_def)

lemma failover_step_inv:
  assumes inv: "fo_inv n fo" and n: "0 < n" and e: "enabled_step s fo" and r: "do_step uv cached J enabled s fo = Some fo'"
  shows "fo_inv n fo'"
proof -
  have l: "length (fo_clients fo) = n" using inv by (simp add: fo_inv_def clients_ok_def)
  note run = client_ok_run [OF inv, where k = "fo_sequence fo"]
  show ?thesis
  proof (cases s)
    case (Net_Resolved i ok)
    with e l have i: "i < n" by (simp add: enabled_step_def)
    show ?thesis
      by (rule fo_client_inv [OF inv i, where f = "cl_onResolved uv ok"]) (use r Net_Resolved op_onResolved [OF run(1,2) [OF i]] in \<open>simp_all add: do_step_def\<close>)
  next
    case (Net_Connected i ok)
    with e l have i: "i < n" by (simp add: enabled_step_def)
    show ?thesis
      by (rule fo_client_inv [OF inv i, where f = "\<lambda>c. Some (cl_onConnect uv ok c)"])
        (use r Net_Connected plain_onConnect [OF run(1,2) [OF i]] in \<open>auto simp: do_step_def\<close>)
  next
    case (Net_Read i buf)
    with e l have i: "i < n" and s: "cl_socket (fo_clients fo ! i) \<noteq> No_Socket" by (simp_all add: enabled_step_def)
    show ?thesis
    proof (cases buf)
      case None
      show ?thesis
        by (rule fo_client_inv [OF inv i, where f = "\<lambda>c. Some (cl_closed c)"])
          (use r Net_Read None plain_closed [OF run(1) [OF i]] run(2) [OF i] in \<open>auto simp: do_step_def\<close>)
    next
      case (Some t)
      then show ?thesis using read_inv [OF inv i s] r Net_Read by (simp add: do_step_def)
    qed
  next
    case (Net_Closed i)
    with e l have i: "i < n" by (simp add: enabled_step_def)
    show ?thesis
      by (rule fo_client_inv [OF inv i, where f = "\<lambda>c. Some (cl_onClose uv c)"])
        (use r Net_Closed op_close_onClose [OF run [OF i]] in \<open>auto simp: do_step_def\<close>)
  qed (use r inv n tick_inv_failover [OF inv] start_inv [OF inv] stop_inv(1) [OF inv n] resume_inv [OF inv] setAlgo_inv [OF inv] submit_inv [OF inv]
      in \<open>simp_all add: do_step_def\<close>, blast+)
qed

lemma failover_reach_inv:
  assumes "fo_reach J enabled pools ms retries fo" "pools \<noteq> []"
  shows "fo_inv (length pools) fo"
  using assms
proof (induction rule: fo_reach.induct)
  case start
  then show ?case by (rule new_inv)
next
  case (step fo s uv cached fo')
  then show ?case using failover_step_inv [of "length pools" fo s uv cached J enabled fo'] by simp
qed

end
