(* ===== verification/Failover_Jobs.thy ===== *)
theory Failover_Jobs
  imports Failover_Safety
begin

text \<open>
  The jobs that the failover strategy hands to the miner: each can be taken by a worker, and comes from the pool that was
  announced last.
\<close>

subsection \<open>A job that was read\<close>

text \<open>What the worker asks of a job, an algorithm that is enabled, and for RandomX a whole seed.\<close>

definition job_good :: "(Id \<Rightarrow> bool) \<Rightarrow> job \<Rightarrow> bool" where
  "job_good enabled j \<longleftrightarrow> job_accepted j \<and> verifyAlgorithm enabled (m_algorithm j) \<and>
     (family (m_algorithm j) = RANDOM_X \<longrightarrow> length (m_seed j) = kMaxSeedSize)"

lemma setBlob_frame:
  "setBlob b j = (ok, j') \<Longrightarrow> m_algorithm j' = m_algorithm j \<and> m_extraNonce j' = m_extraNonce j \<and> job_index j' = job_index j"
  by (auto simp: setBlob_def Let_def split: option.splits if_splits prod.splits)

lemma setTarget_frame:
  "setTarget t j = Some (True, j') \<Longrightarrow> \<exists>a b. j' = j\<lparr>m_target := a, m_diff := b\<rparr>"
  by (auto simp: setTarget_def Let_def split: option.splits if_splits)

lemma setSeedHash_frame:
  assumes "setSeedHash h j = (True, j')"
  shows "\<exists>s. length s = kMaxSeedSize \<and> j' = j\<lparr>m_seed := s\<rparr>"
proof -
  obtain h' where h: "h = Some h'" "length h' = kMaxSeedSize * 2" "j' = j\<lparr>m_seed := fromHex h'\<rparr>" "fromHex h' \<noteq> []"
    using assms by (auto simp: setSeedHash_def Let_def split: option.splits if_splits)
  have "length (fromHex h') = kMaxSeedSize"
    using h(2,4) cvt_hex2bin_length [of "replicate kMaxSeedSize 0" h']
    by (auto simp: fromHex_def fromHexImpl_def Let_def split: if_splits prod.splits)
  then show ?thesis using h(3) by blast
qed

lemma read_job_good:
  assumes r: "read_job enabled c params = Some (Inr j)" and m: "pool_mode (cl_pool c) = MODE_POOL"
  shows "job_good enabled j"
proof -
  define j0 where "j0 = job_init (has_nicehash c) (pool_algorithm (cl_pool c)) (rpc_bytes (cl_rpcId c))"
  obtain i a t j1 j2 h where
    b: "setBlob (map_option str_bytes (getString params ''blob'')) (j0\<lparr>m_id := i, m_algorithm := a\<rparr>) = (True, j1)" and
    t: "setTarget t j1 = Some (True, j2)" and v: "verifyAlgorithm enabled (m_algorithm j2)" and
    j: "j = j2\<lparr>m_height := h\<rparr> \<and> family (m_algorithm j2) \<noteq> RANDOM_X \<or>
      family (m_algorithm j2) = RANDOM_X \<and> setSeedHash (map_option str_bytes (getString params ''seed_hash'')) (j2\<lparr>m_height := h\<rparr>) = (True, j)"
    using r m by (auto simp: read_job_def job_body_def Let_def j0_def split: if_splits option.splits bind_splits prod.splits)
  have j1: "job_ok j1 \<and> m_extraNonce j1 = [] \<and> job_index j1 = 0"
    using setBlob_ok [OF _ b] setBlob_frame [OF b] by (simp add: j0_def job_init_def)
  obtain x y where j2: "j2 = j1\<lparr>m_target := x, m_diff := y\<rparr>" using setTarget_frame [OF t] by blast
  have acc: "job_accepted (j2\<lparr>m_height := h\<rparr>)" "job_accepted (j2\<lparr>m_height := h, m_seed := s\<rparr>)" for s
    using j1 by (simp_all add: j2 job_accepted_def job_ok_def nonceOffset_def nonceSize_def nonceMask_def)
  from j show ?thesis
  proof
    assume "j = j2\<lparr>m_height := h\<rparr> \<and> family (m_algorithm j2) \<noteq> RANDOM_X"
    then show ?thesis using acc v by (simp add: job_good_def)
  next
    assume h: "family (m_algorithm j2) = RANDOM_X \<and> setSeedHash (map_option str_bytes (getString params ''seed_hash'')) (j2\<lparr>m_height := h\<rparr>) = (True, j)"
    then obtain s where "length s = kMaxSeedSize" "j = j2\<lparr>m_height := h, m_seed := s\<rparr>" using setSeedHash_frame by blast
    then show ?thesis using acc v h by (simp add: job_good_def)
  qed
qed

lemma job_good_clientId [simp]: "job_good enabled (j\<lparr>m_clientId := i\<rparr>) = job_good enabled j"
  by (simp add: job_good_def job_accepted_def job_ok_def nonceOffset_def nonceSize_def nonceMask_def)

subsection \<open>The jobs of a client\<close>

text \<open>
  An operation keeps the mode of the pool; the job it leaves is good if it was before or the operation ends a login, and so
  are the jobs it reports. Most operations leave the job alone and report none.
\<close>

definition op_jobs :: "(Id \<Rightarrow> bool) \<Rightarrow> Client \<Rightarrow> Client \<Rightarrow> bool" where
  "op_jobs enabled c c' \<longleftrightarrow> pool_mode (cl_pool c') = pool_mode (cl_pool c) \<and>
     (job_good enabled (cl_job c) \<or> Out_LoginSuccess \<in> set (cl_out c') \<longrightarrow> job_good enabled (cl_job c')) \<and>
     (\<forall>j. Out_Job j \<in> set (cl_out c') \<longrightarrow> job_good enabled j)"

definition quiet_event :: "client_event \<Rightarrow> bool" where
  "quiet_event e \<longleftrightarrow> (case e of Out_Job j \<Rightarrow> False | Out_LoginSuccess \<Rightarrow> False | _ \<Rightarrow> True)"

definition op_quiet :: "Client \<Rightarrow> Client \<Rightarrow> bool" where
  "op_quiet c c' \<longleftrightarrow> cl_job c' = cl_job c \<and> cl_pool c' = cl_pool c \<and> (\<forall>e \<in> set (cl_out c'). quiet_event e)"

lemma quiet_jobs: "op_quiet c c' \<Longrightarrow> op_jobs enabled c c'"
  by (auto simp: op_quiet_def op_jobs_def quiet_event_def)

lemma quiet_emit: "op_quiet c c' \<Longrightarrow> quiet_event e \<Longrightarrow> op_quiet c (emit e c')"
  by (simp add: op_quiet_def emit_def)

lemma quiet_closed: "op_quiet c c' \<Longrightarrow> op_quiet c (cl_closed c')"
  by (simp add: op_quiet_def)

lemma quiet_fields [simp]:
  "op_quiet c (c'\<lparr>cl_results := m\<rparr>) = op_quiet c c'" "op_quiet c (c'\<lparr>cl_keepAlive := k\<rparr>) = op_quiet c c'"
  "op_quiet c (c'\<lparr>cl_expire := t\<rparr>) = op_quiet c c'" "op_quiet c (c'\<lparr>cl_failures := f\<rparr>) = op_quiet c c'"
  "op_quiet c (c'\<lparr>cl_dns := b\<rparr>) = op_quiet c c'" "op_quiet c (c'\<lparr>cl_socket := s\<rparr>) = op_quiet c c'"
  "op_quiet c (c'\<lparr>cl_reader := r\<rparr>) = op_quiet c c'" "op_quiet c (c'\<lparr>cl_sequence := n\<rparr>) = op_quiet c c'"
  "op_quiet c (c'\<lparr>cl_removed := b\<rparr>) = op_quiet c c'" "op_quiet c (cl_setState uv st c') = op_quiet c c'"
  by (simp_all add: op_quiet_def)

lemma quiet_send: "op_quiet c c' \<Longrightarrow> op_quiet c (snd (cl_send_buf uv r c'))" "op_quiet c c' \<Longrightarrow> op_quiet c (snd (cl_send uv r c'))"
  by (auto simp: cl_send_def cl_send_buf_def Let_def quiet_event_def intro!: quiet_closed quiet_emit)

lemma quiet_login: "op_quiet c c' \<Longrightarrow> op_quiet c (cl_login uv c')"
  by (simp add: cl_login_def quiet_send quiet_emit quiet_event_def)

lemma quiet_reconnect: "op_quiet c c' \<Longrightarrow> op_quiet c (cl_reconnect uv c')"
  by (simp add: cl_reconnect_def Let_def quiet_emit quiet_event_def)

lemma quiet_onResolved: "op_quiet c c' \<Longrightarrow> cl_onResolved uv ok c' = Some c'' \<Longrightarrow> op_quiet c c''"
  by (auto simp: cl_onResolved_def cl_connect_addr_def Let_def quiet_reconnect split: if_splits)

lemma quiet_connect: "op_quiet c c' \<Longrightarrow> cl_connect uv cached c' = Some c'' \<Longrightarrow> op_quiet c c''"
  by (auto simp: cl_connect_def Let_def intro: quiet_onResolved [rotated] split: if_splits)

lemma quiet_onClose: "op_quiet c c' \<Longrightarrow> op_quiet c (cl_onClose uv c')"
  by (simp add: cl_onClose_def quiet_reconnect)

lemma quiet_onConnect: "op_quiet c c' \<Longrightarrow> op_quiet c (cl_onConnect uv ok c')"
  by (simp add: cl_onConnect_def quiet_login quiet_closed)

lemma quiet_tick: "op_quiet c c' \<Longrightarrow> cl_tick uv cached c' = Some c'' \<Longrightarrow> op_quiet c c''"
  by (auto simp: cl_tick_def cl_ping_def quiet_send quiet_closed quiet_connect split: if_splits)

lemma quiet_submit: "op_quiet c c' \<Longrightarrow> cl_submit uv r c' = Some (n, c'') \<Longrightarrow> op_quiet c c''"
  using quiet_send(2) [of c "c'\<lparr>cl_results := m\<rparr>" for m]
  by (auto simp: cl_submit_def Let_def quiet_closed split: option.splits if_splits bind_splits) (metis snd_conv quiet_fields(1))+

subsection \<open>The jobs of a message\<close>

lemma parseJob_jobs:
  assumes q: "op_quiet c c'" and m: "pool_mode (cl_pool c) = MODE_POOL" and r: "cl_parseJob enabled params c' = Some (rc, code, c'')"
  shows "cl_pool c'' = cl_pool c \<and> cl_out c'' = cl_out c' \<and>
    (rc \<or> job_good enabled (cl_job c) \<longrightarrow> job_good enabled (cl_job c''))"
proof -
  have "pool_mode (cl_pool c') = MODE_POOL" using q m by (simp add: op_quiet_def)
  then show ?thesis
    using r q by (auto simp: cl_parseJob_def Let_def op_quiet_def dest: read_job_good split: bind_splits sum.splits if_splits)
qed

lemma parseResponse_jobs:
  assumes q: "op_quiet c c'" and m: "pool_mode (cl_pool c) = MODE_POOL"
    and r: "cl_parseResponse uv enabled i result err c' = Some c''"
  shows "op_jobs enabled c c''"
proof -
  obtain handled c1 where h: "cl_handleResponse i result err c' = (handled, c1)" by (cases "cl_handleResponse i result err c'")
  have c1: "op_quiet c c1"
    using q h quiet_emit [OF q, of "Out_Callback i (\<not> json_isObject err)"]
    by (auto simp: cl_handleResponse_def quiet_event_def op_quiet_def emit_def split: if_splits)
  have sub: "op_quiet c (snd (cl_handleSubmitResponse uv i e c1))" for e
    by (auto simp: cl_handleSubmitResponse_def Let_def c1 quiet_event_def intro!: quiet_emit split: option.split)
  show ?thesis
  proof (cases "\<not> handled \<and> \<not> json_isObject err \<and> json_isObject result \<and> i = 1")
    case True
    then obtain rc code c2 where c2: "cl_parseLogin uv enabled result c1 = Some (rc, code, c2)"
        "c'' = (if \<not> rc then cl_closed c2 else
          (let c = emit Out_LoginSuccess (c2\<lparr>cl_failures := 0\<rparr>) in if job_isValid (cl_job c) then emit (Out_Job (cl_job c)) c else c))"
      using r h by (auto simp: cl_parseResponse_def Let_def split: bind_splits if_splits)
    have "cl_pool c2 = cl_pool c \<and> cl_out c2 = cl_out c1 \<and> (rc \<or> job_good enabled (cl_job c) \<longrightarrow> job_good enabled (cl_job c2))"
    proof (cases "getString result ''id''")
      case None
      then show ?thesis using c1 c2(1) by (auto simp: cl_parseLogin_def Let_def op_quiet_def)
    next
      case (Some s)
      let ?c = "cl_parseExtensions uv result (c1\<lparr>cl_rpcId := Some s\<rparr>)"
      have "op_quiet c ?c" using c1 by (simp add: op_quiet_def parseExtensions_facts)
      moreover obtain c3 where "cl_parseJob enabled (member result ''job'') ?c = Some (rc, code, c3)" "c2 = c3\<lparr>cl_jobs := 0\<rparr>"
        using c2(1) Some by (auto simp: cl_parseLogin_def Let_def split: bind_splits)
      ultimately show ?thesis using parseJob_jobs [OF _ m, of ?c] by (simp add: parseExtensions_facts)
    qed
    then show ?thesis
      using c1 by (auto simp: c2(2) op_jobs_def emit_def Let_def op_quiet_def quiet_event_def)
  next
    case False
    have "op_quiet c c''"
      using r h False c1 sub by (auto simp: cl_parseResponse_def Let_def intro: quiet_closed split: bind_splits if_splits)
    then show ?thesis by (rule quiet_jobs)
  qed
qed

lemma parse_jobs:
  assumes out: "cl_out c = []" and m: "pool_mode (cl_pool c) = MODE_POOL" and r: "cl_parse uv J enabled line c = Some c'"
  shows "op_jobs enabled c c'"
proof -
  have q: "op_quiet c (cl_startTimeout uv c)" using out by (simp add: op_quiet_def)
  have note_job: "op_jobs enabled c c'" if "cl_parseNotification enabled me ps (cl_startTimeout uv c) = Some c'" for me ps
    using that parseJob_jobs [OF q m] quiet_jobs [OF q] out
    by (auto simp: cl_parseNotification_def op_jobs_def emit_def split: bind_splits if_splits)
  show ?thesis
    using r quiet_jobs [OF q] note_job parseResponse_jobs [OF q m]
    by (auto simp: cl_parse_def Let_def split: if_splits option.splits)
qed

subsection \<open>What the miner sees\<close>

text \<open>The pool that was announced last, as the listener of the strategy sees it; \<open>- 1\<close> is none.\<close>

definition announced :: "strategy_event list \<Rightarrow> int" where
  "announced es = fold (\<lambda>e a. case e of St_Active k \<Rightarrow> k | St_Pause \<Rightarrow> - 1 | _ \<Rightarrow> a) es (- 1)"

definition trace_ok :: "(Id \<Rightarrow> bool) \<Rightarrow> strategy_event list \<Rightarrow> bool" where
  "trace_ok enabled es \<longleftrightarrow> (\<forall>xs k j ys. es = xs @ St_Job k j # ys \<longrightarrow> 0 \<le> k \<and> announced xs = k \<and> job_good enabled j)"

lemma announced_snoc [simp]:
  "announced (es @ [e]) = (case e of St_Active k \<Rightarrow> k | St_Pause \<Rightarrow> - 1 | _ \<Rightarrow> announced es)"
  by (cases e) (simp_all add: announced_def)

lemma trace_ok_snoc [simp]:
  "trace_ok enabled (es @ [e]) \<longleftrightarrow> trace_ok enabled es \<and> (\<forall>k j. e = St_Job k j \<longrightarrow> 0 \<le> k \<and> announced es = k \<and> job_good enabled j)"
proof -
  have split: "es @ [e] = xs @ x # ys \<longleftrightarrow> (ys = [] \<and> xs = es \<and> x = e) \<or> (\<exists>zs. ys = zs @ [e] \<and> es = xs @ x # zs)" for xs x ys
    by (cases ys rule: rev_cases) auto
  show ?thesis unfolding trace_ok_def split by blast
qed

definition view :: "Failover \<Rightarrow> (job \<times> Pool) list" where
  "view fo = map (\<lambda>c. (cl_job c, cl_pool c)) (fo_clients fo)"

definition jobs_inv :: "(Id \<Rightarrow> bool) \<Rightarrow> Failover \<Rightarrow> bool" where
  "jobs_inv enabled fo \<longleftrightarrow> trace_ok enabled (fo_out fo) \<and> announced (fo_out fo) = fo_active fo \<and>
     (\<forall>v \<in> set (view fo). pool_mode (snd v) = MODE_POOL) \<and>
     (fo_isActive fo \<longrightarrow> nat (fo_active fo) < length (view fo) \<and> job_good enabled (fst (view fo ! nat (fo_active fo))))"

lemma view_silent:
  assumes "cl_job (f (fo_clients fo ! i)) = cl_job (fo_clients fo ! i)" "cl_pool (f (fo_clients fo ! i)) = cl_pool (fo_clients fo ! i)"
  shows "view (fo_silent i f fo) = view fo"
  using assms by (cases "i < length (fo_clients fo)") (simp_all add: view_def fo_silent_def map_update list_update_same_conv list_update_beyond)

lemma silent_simps [simp]:
  "fo_out (fo_silent i f fo) = fo_out fo" "fo_active (fo_silent i f fo) = fo_active fo" "fo_isActive (fo_silent i f fo) = fo_isActive fo"
  by (simp_all add: fo_silent_def fo_isActive_def)

lemma view_emit [simp]:
  "view (fo_emit e fo) = view fo" "view (fo\<lparr>fo_active := a\<rparr>) = view fo" "view (fo\<lparr>fo_index := k\<rparr>) = view fo"
  by (simp_all add: view_def fo_emit_def)

lemma emit_simps [simp]:
  "fo_out (fo_emit e fo) = fo_out fo @ [e]" "fo_active (fo_emit e fo) = fo_active fo" "fo_index (fo_emit e fo) = fo_index fo"
  "fo_clients (fo_emit e fo) = fo_clients fo"
  by (simp_all add: fo_emit_def)

lemma disconnect_view [simp]:
  "view (fo_disconnect i fo) = view fo" "fo_out (fo_disconnect i fo) = fo_out fo" "fo_active (fo_disconnect i fo) = fo_active fo"
  unfolding fo_disconnect_def by (rule view_silent) (simp_all add: cl_disconnect_def cl_close_def)

lemma disconnects_view:
  "view (fold (\<lambda>i fo. if P i then fo_disconnect i fo else fo) is fo) = view fo \<and>
   fo_out (fold (\<lambda>i fo. if P i then fo_disconnect i fo else fo) is fo) = fo_out fo \<and>
   fo_active (fold (\<lambda>i fo. if P i then fo_disconnect i fo else fo) is fo) = fo_active fo"
  by (induction "is" arbitrary: fo) simp_all

lemma connect_view:
  assumes "fo_connect uv cached i fo = Some fo'"
  shows "view fo' = view fo \<and> fo_out fo' = fo_out fo \<and> fo_active fo' = fo_active fo"
proof -
  obtain c where c: "cl_connect uv cached (fo_clients fo ! i) = Some c" "fo' = fo_silent i (\<lambda>_. c) fo"
    using assms by (auto simp: fo_connect_def split: bind_splits)
  have "op_quiet (fo_clients fo ! i) ((fo_clients fo ! i)\<lparr>cl_out := []\<rparr>)" by (simp add: op_quiet_def)
  have "cl_job c = cl_job (fo_clients fo ! i) \<and> cl_pool c = cl_pool (fo_clients fo ! i)"
    using c(1) by (auto simp: cl_connect_def cl_onResolved_def cl_connect_addr_def Let_def split: if_splits)
  then show ?thesis using c(2) by (simp add: view_silent)
qed

lemma jobs_invI:
  "jobs_inv enabled fo \<Longrightarrow> view fo' = view fo \<Longrightarrow> fo_out fo' = fo_out fo \<Longrightarrow> fo_active fo' = fo_active fo \<Longrightarrow> jobs_inv enabled fo'"
  by (simp add: jobs_inv_def fo_isActive_def)

lemma jobs_inv_quiet:
  "jobs_inv enabled fo \<Longrightarrow> \<forall>k j. e \<noteq> St_Job k j \<Longrightarrow> \<forall>k. e \<noteq> St_Active k \<Longrightarrow> e \<noteq> St_Pause \<Longrightarrow> jobs_inv enabled (fo_emit e fo)"
  by (auto simp: jobs_inv_def fo_isActive_def split: strategy_event.split)

lemma jobs_inv_pause: "jobs_inv enabled fo \<Longrightarrow> jobs_inv enabled (fo_emit St_Pause (fo\<lparr>fo_active := - 1\<rparr>))"
  by (simp add: jobs_inv_def fo_isActive_def)

lemma close_jobs:
  assumes inv: "jobs_inv enabled fo" and r: "fo_onClose uv cached k f fo = Some fo'"
  shows "jobs_inv enabled fo' \<and> view fo' = view fo"
proof -
  define fo1 where "fo1 = (if fo_active fo = k then fo_emit St_Pause (fo\<lparr>fo_active := - 1\<rparr>) else fo)"
  have fo1: "jobs_inv enabled fo1" "view fo1 = view fo" using inv jobs_inv_pause [OF inv] by (simp_all add: fo1_def)
  have idx: "jobs_inv enabled (fo1\<lparr>fo_index := n\<rparr>)" for n by (rule jobs_invI [OF fo1(1)]) simp_all
  have "fo' = fo \<or> fo' = fo1 \<or> fo_connect uv cached (fo_index fo1 + 1) (fo1\<lparr>fo_index := fo_index fo1 + 1\<rparr>) = Some fo'"
    using r unfolding fo_onClose_def fo1_def [symmetric] Let_def by (simp only: split: if_splits) simp_all
  then show ?thesis
    using connect_view [of uv cached "fo_index fo1 + 1" "fo1\<lparr>fo_index := fo_index fo1 + 1\<rparr>" fo'] jobs_invI [OF idx] inv fo1 by auto
qed

lemma login_jobs:
  assumes inv: "jobs_inv enabled fo" and i: "i < length (view fo)" and g: "job_good enabled (fst (view fo ! i))"
  shows "jobs_inv enabled (fo_onLoginSuccess (int i) fo) \<and> view (fo_onLoginSuccess (int i) fo) = view fo"
proof -
  define active where "active = (if int i = 0 \<or> \<not> fo_isActive fo then int i else fo_active fo)"
  define fo1 where "fo1 = fold (\<lambda>i fo. if active \<noteq> int i then fo_disconnect i fo else fo) [1..<length (fo_clients fo)] fo"
  have fo1: "view fo1 = view fo" "fo_out fo1 = fo_out fo" "fo_active fo1 = fo_active fo"
    using disconnects_view [of "\<lambda>i. active \<noteq> int i" "[1..<length (fo_clients fo)]" fo] by (simp_all add: fo1_def)
  have inv1: "jobs_inv enabled fo1" by (rule jobs_invI [OF inv fo1])
  have r: "fo_onLoginSuccess (int i) fo = (if 0 \<le> active \<and> active \<noteq> fo_active fo1
      then fo_emit (St_Active (int i)) (fo1\<lparr>fo_active := active, fo_index := nat active\<rparr>) else fo1)"
    unfolding fo_onLoginSuccess_def Let_def active_def [symmetric] fo1_def [symmetric] by (simp add: fo1)
  show ?thesis
  proof (cases "0 \<le> active \<and> active \<noteq> fo_active fo1")
    case True
    then have "active = int i" by (auto simp: active_def fo1 split: if_splits)
    then show ?thesis
      using True inv1 i g fo1 by (simp add: r jobs_inv_def fo_isActive_def)
  next
    case False
    then show ?thesis using inv1 fo1 by (simp only: r if_False simp_thms)
  qed
qed

text \<open>One callback, and all those of an operation.\<close>

lemma event_jobs:
  assumes inv: "jobs_inv enabled fo" and i: "i < length (view fo)"
    and e: "\<forall>j. e = Out_Job j \<longrightarrow> job_good enabled j" "e = Out_LoginSuccess \<longrightarrow> job_good enabled (fst (view fo ! i))"
    and r: "fo_event uv cached (int i) e fo = Some fo'"
  shows "jobs_inv enabled fo' \<and> view fo' = view fo"
proof (cases e)
  case (Out_Job j)
  then have "fo' = (if fo_active fo = int i then fo_emit (St_Job (int i) j) fo else fo)"
    using r by (simp add: fo_event_def fo_onJobReceived_def)
  then show ?thesis using inv e(1) Out_Job by (auto simp: jobs_inv_def fo_isActive_def)
next
  case Out_LoginSuccess
  then show ?thesis using r login_jobs [OF inv i] e(2) by (simp add: fo_event_def)
next
  case (Out_Close f)
  then show ?thesis using r close_jobs [OF inv] by (simp add: fo_event_def)
qed (use r inv jobs_inv_quiet [OF inv] in \<open>auto simp: fo_event_def\<close>)

lemma events_jobs:
  assumes inv: "jobs_inv enabled fo" and i: "i < length (view fo)"
    and e: "\<forall>j. Out_Job j \<in> set es \<longrightarrow> job_good enabled j" "Out_LoginSuccess \<in> set es \<longrightarrow> job_good enabled (fst (view fo ! i))"
    and r: "foldl (\<lambda>fo e. Option.bind fo (fo_event uv cached (int i) e)) (Some fo) es = Some fo'"
  shows "jobs_inv enabled fo' \<and> view fo' = view fo"
proof (rule foldl_bind_keeps [where P = "\<lambda>f. jobs_inv enabled f \<and> view f = view fo", OF _ _ r])
  show "jobs_inv enabled b \<and> view b = view fo"
    if "x \<in> set es" "jobs_inv enabled a \<and> view a = view fo" "fo_event uv cached (int i) x a = Some b" for x a b
    using event_jobs [of enabled a i x uv cached b] that i e by auto
qed (simp add: inv)

subsection \<open>Every step\<close>

lemma view_after_op: "view (after_op i c fo) = (view fo)[i := (cl_job c, cl_pool c)]"
  by (simp add: view_def after_op_def map_update)

lemma op_same_id: "op_plain c c' \<or> op_close c c' \<or> op_login c c' \<Longrightarrow> cl_id c' = cl_id c"
  by (auto simp: op_defs)

lemma after_op_jobs:
  assumes inv: "jobs_inv enabled fo" and i: "i < length (fo_clients fo)"
    and op: "op_jobs enabled ((fo_clients fo ! i)\<lparr>cl_sequence := s\<rparr>) c"
  shows "jobs_inv enabled (after_op i c fo)"
proof -
  have v: "view fo ! i = (cl_job (fo_clients fo ! i), cl_pool (fo_clients fo ! i))" "i < length (view fo)" using i by (simp_all add: view_def)
  have "\<forall>w \<in> set ((view fo)[i := (cl_job c, cl_pool c)]). pool_mode (snd w) = MODE_POOL"
  proof
    fix w assume "w \<in> set ((view fo)[i := (cl_job c, cl_pool c)])"
    then have "w = (cl_job c, cl_pool c) \<or> w \<in> set (view fo)" using set_update_subset_insert by fastforce
    moreover have "pool_mode (snd (view fo ! i)) = MODE_POOL" using inv v(2) by (simp add: jobs_inv_def)
    ultimately show "pool_mode (snd w) = MODE_POOL" using inv op v by (auto simp: jobs_inv_def op_jobs_def)
  qed
  moreover have "fo_out (after_op i c fo) = fo_out fo" by (simp add: after_op_def)
  ultimately show ?thesis
    using inv op v by (auto simp: jobs_inv_def view_after_op op_jobs_def nth_list_update)
qed

lemma client_jobs:
  assumes fo: "fo_inv n fo" and inv: "jobs_inv enabled fo" and i: "i < n" and r: "fo_client uv cached i f fo = Some fo'"
    and f: "\<And>c. f ((fo_clients fo ! i)\<lparr>cl_sequence := fo_sequence fo\<rparr>) = Some c \<Longrightarrow>
      cl_id c = cl_id (fo_clients fo ! i) \<and> op_jobs enabled ((fo_clients fo ! i)\<lparr>cl_sequence := fo_sequence fo\<rparr>) c"
  shows "jobs_inv enabled fo'"
proof -
  obtain c where c: "f ((fo_clients fo ! i)\<lparr>cl_sequence := fo_sequence fo\<rparr>) = Some c" using r by (auto simp: fo_client_def split: bind_splits)
  have n: "i < length (fo_clients fo)" using fo i by (simp add: fo_inv_def clients_ok_def)
  have id: "cl_id c = int i" using f [OF c] client_okD(1) [of n fo i] fo i by (simp add: fo_inv_def)
  have fold: "foldl (\<lambda>fo e. Option.bind fo (fo_event uv cached (int i) e)) (Some (after_op i c fo)) (cl_out c) = Some fo'"
    using r c id by (simp add: fo_client_def after_op_def Let_def)
  have op: "op_jobs enabled ((fo_clients fo ! i)\<lparr>cl_sequence := fo_sequence fo\<rparr>) c" using f [OF c] by simp
  have vi: "i < length (view fo)" using n by (simp add: view_def)
  show ?thesis
    using events_jobs [OF after_op_jobs [OF inv n op] _ _ _ fold] op vi by (simp add: view_after_op op_jobs_def)
qed

lemma quiet_start:
  assumes "fo_inv n fo" "i < n"
  shows "op_quiet ((fo_clients fo ! i)\<lparr>cl_sequence := s\<rparr>) ((fo_clients fo ! i)\<lparr>cl_sequence := s\<rparr>)"
  using client_ok_run(2) [OF assms] by (simp add: op_quiet_def)

lemma parse_line_jobs:
  assumes fo: "fo_inv n fo" and inv: "jobs_inv enabled fo" and i: "i < n" and r: "fo_client uv cached i (cl_parse uv J enabled l) fo = Some fo'"
  shows "jobs_inv enabled fo'"
proof (rule client_jobs [OF fo inv i r])
  fix c assume c: "cl_parse uv J enabled l ((fo_clients fo ! i)\<lparr>cl_sequence := fo_sequence fo\<rparr>) = Some c"
  have "i < length (view fo)" using fo i by (simp add: fo_inv_def clients_ok_def view_def)
  then have "pool_mode (snd (view fo ! i)) = MODE_POOL" using inv by (simp add: jobs_inv_def)
  then have "pool_mode (cl_pool (fo_clients fo ! i)) = MODE_POOL" using \<open>i < length (view fo)\<close> by (simp add: view_def)
  then show "cl_id c = cl_id (fo_clients fo ! i) \<and> op_jobs enabled ((fo_clients fo ! i)\<lparr>cl_sequence := fo_sequence fo\<rparr>) c"
    using parse_cases [OF client_ok_run(1,2) [OF fo i] c] op_same_id parse_jobs [OF client_ok_run(2) [OF fo i] _ c] by fastforce
qed

lemma read_jobs:
  assumes fo: "fo_inv n fo" and inv: "jobs_inv enabled fo" and i: "i < n" and s: "cl_socket (fo_clients fo ! i) \<noteq> No_Socket"
    and r: "fo_read uv cached J enabled i t fo = Some fo'"
  shows "jobs_inv enabled fo'"
proof -
  obtain ls q where lr: "lr_parse (cl_reader (fo_clients fo ! i)) t = (ls, q)" by (cases "lr_parse (cl_reader (fo_clients fo ! i)) t")
  let ?fo = "fo_silent i (\<lambda>c. c\<lparr>cl_reader := q\<rparr>) fo"
  have fold: "foldl (\<lambda>fo l. Option.bind fo (fo_client uv cached i (cl_parse uv J enabled l))) (Some ?fo) ls = Some fo'"
    using r lr by (simp add: fo_read_def)
  have "jobs_inv enabled ?fo" by (rule jobs_invI [OF inv]) (simp_all add: view_silent)
  then have "fo_inv n ?fo \<and> cl_socket (fo_clients ?fo ! i) \<noteq> No_Socket \<and> jobs_inv enabled ?fo"
    using silent_reader_inv [OF fo i] s by simp
  then have "fo_inv n fo' \<and> cl_socket (fo_clients fo' ! i) \<noteq> No_Socket \<and> jobs_inv enabled fo'"
    by (rule foldl_bind_keeps [OF _ _ fold]) (use parse_line_inv [OF _ i] parse_line_jobs [OF _ _ i] in blast)
  then show ?thesis by simp
qed

lemma quiet_client_jobs:
  assumes "fo_inv n fo" "jobs_inv enabled fo" "i < n" "fo_client uv cached i f fo = Some fo'"
    and f: "\<And>c. f ((fo_clients fo ! i)\<lparr>cl_sequence := fo_sequence fo\<rparr>) = Some c \<Longrightarrow>
      (op_plain ((fo_clients fo ! i)\<lparr>cl_sequence := fo_sequence fo\<rparr>) c \<or> op_close ((fo_clients fo ! i)\<lparr>cl_sequence := fo_sequence fo\<rparr>) c) \<and>
      op_quiet ((fo_clients fo ! i)\<lparr>cl_sequence := fo_sequence fo\<rparr>) c"
  shows "jobs_inv enabled fo'"
proof (rule client_jobs [OF assms(1-4)])
  fix c assume "f ((fo_clients fo ! i)\<lparr>cl_sequence := fo_sequence fo\<rparr>) = Some c"
  from f [OF this] show "cl_id c = cl_id (fo_clients fo ! i) \<and> op_jobs enabled ((fo_clients fo ! i)\<lparr>cl_sequence := fo_sequence fo\<rparr>) c"
    using op_same_id quiet_jobs by fastforce
qed

lemma tick_jobs:
  assumes fo: "fo_inv n fo" and inv: "jobs_inv enabled fo" and r: "fo_tick uv cached fo = Some fo'"
  shows "jobs_inv enabled fo'"
proof -
  have n: "length (fo_clients fo) = n" using fo by (simp add: fo_inv_def clients_ok_def)
  have one: "jobs_inv enabled b" if "fo_inv n a" "jobs_inv enabled a" "i < n" "fo_client uv cached i (cl_tick uv cached) a = Some b" for i a b
    by (rule quiet_client_jobs [OF that]) (use tick_cases [OF client_ok_run(1,2) [OF that(1,3)]] quiet_tick [OF quiet_start [OF that(1,3)]] in blast)
  have "fo_inv n fo' \<and> jobs_inv enabled fo'"
  proof (rule foldl_bind_keeps [where P = "\<lambda>f. fo_inv n f \<and> jobs_inv enabled f", OF _ _ r [unfolded fo_tick_def n]])
    show "fo_inv n b \<and> jobs_inv enabled b"
      if "i \<in> set [0..<n]" "fo_inv n a \<and> jobs_inv enabled a" "fo_client uv cached i (cl_tick uv cached) a = Some b" for i a b
      using tick_client_inv [of n a i uv cached b] one [of a i b] that by simp
  qed (simp add: fo inv)
  then show ?thesis ..
qed

lemma submit_jobs:
  assumes fo: "fo_inv n fo" and inv: "jobs_inv enabled fo" and r: "fo_submit uv cached jr fo = Some fo'"
  shows "jobs_inv enabled fo'"
proof (cases "fo_isActive fo")
  case True
  then have i: "nat (fo_active fo) < n" using fo by (auto simp: fo_inv_def clients_ok_def)
  have r': "fo_client uv cached (nat (fo_active fo)) (\<lambda>c. map_option snd (cl_submit uv jr c)) fo = Some fo'"
    using r True by (simp add: fo_submit_def)
  show ?thesis
    by (rule quiet_client_jobs [OF fo inv i r'])
      (auto intro: plain_submit [OF client_ok_run(1,2) [OF fo i]] quiet_submit [OF quiet_start [OF fo i]])
next
  case False
  then show ?thesis using inv r by (simp add: fo_submit_def)
qed

lemma stop_jobs: "jobs_inv enabled fo \<Longrightarrow> jobs_inv enabled (fo_stop fo)"
proof -
  assume inv: "jobs_inv enabled fo"
  define fo1 where "fo1 = fold fo_disconnect [0..<length (fo_clients fo)] fo"
  have "jobs_inv enabled fo1"
    using jobs_invI [OF inv, of fo1] disconnects_view [of "\<lambda>_. True" "[0..<length (fo_clients fo)]" fo] by (simp add: fo1_def)
  then show ?thesis unfolding fo_stop_def Let_def fo1_def [symmetric] by (rule jobs_invI [OF jobs_inv_pause]) simp_all
qed

lemma resume_jobs: "jobs_inv enabled fo \<Longrightarrow> jobs_inv enabled (fo_resume fo)"
  by (auto simp: fo_resume_def jobs_inv_def fo_isActive_def view_def)

lemma setAlgo_jobs: "jobs_inv enabled fo \<Longrightarrow> jobs_inv enabled (fo_setAlgo algo fo)"
  by (auto simp: fo_setAlgo_def jobs_inv_def fo_isActive_def view_def)

lemma new_jobs: "\<forall>p \<in> set pools. pool_mode p = MODE_POOL \<Longrightarrow> jobs_inv enabled (Failover_new pools ms retries)"
  by (auto simp: Failover_new_def Client_new_def jobs_inv_def fo_isActive_def view_def trace_ok_def announced_def)

lemma failover_step_jobs:
  assumes fo: "fo_inv n fo" and inv: "jobs_inv enabled fo" and e: "enabled_step s fo" and r: "do_step uv cached J enabled s fo = Some fo'"
  shows "jobs_inv enabled fo'"
proof -
  have l: "length (fo_clients fo) = n" using fo by (simp add: fo_inv_def clients_ok_def)
  note run = client_ok_run [OF fo, where k = "fo_sequence fo"] and q = quiet_start [OF fo, where s = "fo_sequence fo"]
  show ?thesis
  proof (cases s)
    case (Net_Resolved i ok)
    with e l have i: "i < n" by (simp add: enabled_step_def)
    show ?thesis
      by (rule quiet_client_jobs [OF fo inv i, where f = "cl_onResolved uv ok"])
        (use r Net_Resolved op_onResolved [OF run(1,2) [OF i]] quiet_onResolved [OF q [OF i]] in \<open>simp_all add: do_step_def\<close>)
  next
    case (Net_Connected i ok)
    with e l have i: "i < n" by (simp add: enabled_step_def)
    show ?thesis
      by (rule quiet_client_jobs [OF fo inv i, where f = "\<lambda>c. Some (cl_onConnect uv ok c)"])
        (use r Net_Connected plain_onConnect [OF run(1,2) [OF i]] quiet_onConnect [OF q [OF i]] in \<open>auto simp: do_step_def\<close>)
  next
    case (Net_Read i buf)
    with e l have i: "i < n" and s: "cl_socket (fo_clients fo ! i) \<noteq> No_Socket" by (simp_all add: enabled_step_def)
    show ?thesis
    proof (cases buf)
      case None
      show ?thesis
        by (rule quiet_client_jobs [OF fo inv i, where f = "\<lambda>c. Some (cl_closed c)"])
          (use r Net_Read None plain_closed [OF run(1) [OF i]] run(2) [OF i] quiet_closed [OF q [OF i]] in \<open>auto simp: do_step_def\<close>)
    next
      case (Some t)
      then show ?thesis using read_jobs [OF fo inv i s] r Net_Read by (simp add: do_step_def)
    qed
  next
    case (Net_Closed i)
    with e l have i: "i < n" by (simp add: enabled_step_def)
    show ?thesis
      by (rule quiet_client_jobs [OF fo inv i, where f = "\<lambda>c. Some (cl_onClose uv c)"])
        (use r Net_Closed op_close_onClose [OF run [OF i]] quiet_onClose [OF q [OF i]] in \<open>auto simp: do_step_def\<close>)
  next
    case Net_Connect
    then have "fo_connect uv cached (fo_index fo) fo = Some fo'" using r by (simp add: do_step_def fo_start_def)
    from connect_view [OF this] show ?thesis using jobs_invI [OF inv] by simp
  qed (use r inv tick_jobs [OF fo inv] stop_jobs [OF inv] resume_jobs [OF inv] setAlgo_jobs [OF inv] submit_jobs [OF fo inv]
      in \<open>simp_all add: do_step_def\<close>, blast+)
qed

lemma failover_reach_jobs:
  assumes "fo_reach J enabled pools ms retries fo" "pools \<noteq> []" "\<forall>p \<in> set pools. pool_mode p = MODE_POOL"
  shows "jobs_inv enabled fo"
  using assms
proof (induction rule: fo_reach.induct)
  case start
  then show ?case by (simp add: new_jobs)
next
  case (step fo s uv cached fo')
  then show ?case using failover_step_jobs [OF failover_reach_inv [OF step.hyps(1)]] by blast
qed

end
