(* ===== verification/Failover_Runs.thy ===== *)
theory Failover_Runs
  imports Failover_Jobs
begin

text \<open>
  Runs of the failover strategy, the properties of all of them, and two things that go wrong: a refused login that is given up
  by the number of the client, and a lookup that survives \<open>stop\<close>.
\<close>

fun run :: "(string \<Rightarrow> json option) \<Rightarrow> (Id \<Rightarrow> bool) \<Rightarrow> (uv_env \<times> bool \<times> net_step) list \<Rightarrow> Failover \<Rightarrow> Failover option" where
  "run J enabled [] fo = Some fo"
| "run J enabled ((uv, cached, s) # ss) fo =
     (if enabled_step s fo then Option.bind (do_step uv cached J enabled s fo) (run J enabled ss) else None)"

lemma run_reach:
  "run J enabled ss fo = Some fo' \<Longrightarrow> fo_reach J enabled pools ms retries fo \<Longrightarrow> fo_reach J enabled pools ms retries fo'"
proof (induction ss arbitrary: fo)
  case (Cons x ss)
  obtain uv cached s where x: "x = (uv, cached, s)" by (cases x)
  obtain fo1 where "enabled_step s fo" "do_step uv cached J enabled s fo = Some fo1" "run J enabled ss fo1 = Some fo'"
    using Cons.prems(1) by (auto simp: x split: if_splits bind_splits)
  with Cons.IH Cons.prems(2) show ?case by (blast intro: fo_reach.step)
qed simp

definition sample_pool :: Pool where
  "sample_pool = \<lparr>pool_algorithm = RX_0, pool_coin = COIN_INVALID, pool_mode = MODE_POOL, pool_nicehash = False, pool_keepAlive = 0\<rparr>"

definition sample_uv :: uv_env where
  "sample_uv = \<lparr>uv_now = 1000, uv_writable = True, uv_written = True, uv_too_big = False\<rparr>"

definition login_reply :: json where
  "login_reply = JObject [(''id'', JInt 1), (''result'', JObject [(''id'', JString ''w''), (''job'',
     JObject [(''job_id'', JString ''1''), (''blob'', JString (replicate 86 CHR ''0'')), (''target'', JString ''ffffffff''),
              (''height'', JInt 7), (''seed_hash'', JString (replicate 64 CHR ''0''))])])]"

definition sample_line :: string where
  "sample_line = CHR ''{'' # replicate 40 CHR '' '' @ [CHR 0x0A]"

definition login_run :: "nat \<Rightarrow> (uv_env \<times> bool \<times> net_step) list" where
  "login_run i = [(sample_uv, True, Net_Connected i True), (sample_uv, True, Net_Read i (Some sample_line))]"

lemmas net_defs = do_step_def enabled_step_def fo_start_def fo_connect_def fo_silent_def fo_client_def fo_event_def fo_emit_def fo_isActive_def
  fo_onLoginSuccess_def fo_onJobReceived_def fo_onClose_def

lemmas client_defs = cl_connect_def cl_onResolved_def cl_connect_addr_def cl_setState_def cl_onConnect_def cl_login_def cl_send_def cl_send_buf_def emit_def

definition granted_job :: job where
  "granted_job = (job_init False RX_0 [119])\<lparr>m_id := [49], m_size := 43, m_target := 0xFFFFFFFFFFFFFFFF, m_diff := 1, m_height := 7, m_seed := replicate 32 0\<rparr>"

lemma sample_blob:
  "setBlob (Some (str_bytes (replicate 86 CHR ''0''))) ((job_init False RX_0 x)\<lparr>m_id := y, m_algorithm := RX_0\<rparr>) = (True, (job_init False RX_0 x)\<lparr>m_id := y, m_size := 43\<rparr>)"
  by code_simp

lemma sample_hex: "fromHex (str_bytes ''ffffffff'') = [255, 255, 255, 255]" "fromHex (str_bytes (replicate 64 CHR ''0'')) = replicate 32 0"
  by code_simp+

lemma sample_target: "setTarget (Some (str_bytes ''ffffffff'')) j = Some (True, j\<lparr>m_target := 0xFFFFFFFFFFFFFFFF, m_diff := 1\<rparr>)"
  unfolding setTarget_def sample_hex option.case Let_def by (simp add: load32_def toDiff_def)

lemma sample_seed: "setSeedHash (Some (str_bytes (replicate 64 CHR ''0''))) j = (True, j\<lparr>m_seed := replicate 32 0\<rparr>)"
proof -
  have "length (str_bytes (replicate 64 CHR ''0'')) = 64" by (simp only: str_bytes_def length_map length_replicate)
  then show ?thesis using sample_hex(2) by (simp only: setSeedHash_def option.case Let_def) (simp add: kMaxSeedSize_def)
qed

lemma sample_split: "lr_parse [] sample_line = ([CHR ''{'' # replicate 40 CHR '' ''], [])"
  by code_simp

lemma sample_member:
  "cstr ''w'' = ''w''" "cstr ''1'' = ''1''" "cstr ''ffffffff'' = ''ffffffff''" "cstr (replicate n CHR ''0'') = replicate n CHR ''0''"
  by (simp_all add: cstr_def)

lemma sample_read_job:
  assumes "cl_pool c = sample_pool" "cl_extensions c = {}" "cl_rpcId c = Some ''w''"
  shows "read_job (\<lambda>_. True) c (member (getValue login_reply ''result'') ''job'') = Some (Inr granted_job)"
proof -
  have r: "m_algorithm (job_init False RX_0 [119]) = RX_0" "family RX_0 = RANDOM_X" "algorithm_isValid RX_0"
    by (simp_all add: job_init_def family_def algorithm_isValid_def)
  note js = member_def getValue_def getString_def GetString_def FindMember_def json_isObject_def json_isEmpty_def login_reply_def sample_member
  let ?p = "member (getValue login_reply ''result'') ''job''"
  have f: "json_isObject ?p" "GetString (member ?p ''job_id'') = Some (Some ''1'')" "getString ?p ''blob'' = Some (replicate 86 CHR ''0'')"
    "GetString (member ?p ''target'') = Some (Some ''ffffffff'')" "getString ?p ''algo'' = None" "getUint64 ?p ''height'' = 7"
    "getString ?p ''seed_hash'' = Some (replicate 64 CHR ''0'')"
    by (simp_all add: js getUint64_def del: replicate.simps)
  have h: "has_nicehash c = False" using assms by (simp add: has_nicehash_def sample_pool_def)
  have b: "rpc_bytes (Some ''w'') = [119]" "str_bytes ''1'' = [49]" by (simp_all add: rpc_bytes_def str_bytes_def)
  show ?thesis
    unfolding read_job_def f h assms b Let_def
    by (simp add: f b r sample_pool_def job_algorithm_def job_body_def sample_blob sample_target sample_seed verifyAlgorithm_def granted_job_def
      del: replicate.simps)
qed

lemma sample_login:
  assumes "cl_pool c = sample_pool" "cl_state c = ConnectedState" "m_id (cl_job c) = []" "cl_callbacks c = []" "cl_out c = []" "cl_id c = k"
  shows "\<exists>c'. cl_parse sample_uv (\<lambda>_. Some login_reply) (\<lambda>_. True) (CHR ''{'' # replicate 40 CHR '' '') c = Some c' \<and>
    cl_out c' = [Out_LoginSuccess, Out_Job granted_job] \<and> cl_id c' = k"
proof -
  note js = member_def getValue_def getString_def GetString_def FindMember_def json_isObject_def json_isEmpty_def sample_member
  let ?st = "cl_startTimeout sample_uv c" and ?r = "getValue login_reply ''result''"
  let ?c = "(cl_parseExtensions sample_uv ?r (?st\<lparr>cl_rpcId := Some ''w''\<rparr>))"
  have r: "json_isObject login_reply" "isInt64 (getValue login_reply ''id'')" "GetInt64 (getValue login_reply ''id'') = 1"
    "json_isObject ?r" "getValue login_reply ''error'' = JNull" "getString ?r ''id'' = Some ''w''" "FindMember ?r ''extensions'' = None"
    "\<not> json_isObject JNull"
    by (simp_all add: js login_reply_def isInt64_def GetInt64_def del: replicate.simps)
  have c: "cl_pool ?c = sample_pool" "cl_extensions ?c = {}" "cl_rpcId ?c = Some ''w''" "cl_job ?c = cl_job c" "cl_out ?c = []" "cl_id ?c = k"
    using assms by (simp_all add: cl_parseExtensions_def r)
  have "\<not> isEqual ((cl_job c)\<lparr>m_clientId := x\<rparr>) granted_job" for x
    using assms(3) by (simp add: isEqual_def granted_job_def)
  then have "cl_parseJob (\<lambda>_. True) (member ?r ''job'') ?c = Some (True, - 1, ?c\<lparr>cl_job := granted_job, cl_jobs := cl_jobs ?c + 1\<rparr>)"
    unfolding cl_parseJob_def sample_read_job [OF c(1,2,3)] by (simp add: Let_def c)
  then have "cl_parseLogin sample_uv (\<lambda>_. True) ?r ?st = Some (True, - 1, ?c\<lparr>cl_job := granted_job, cl_jobs := 0\<rparr>)"
    by (simp add: cl_parseLogin_def r)
  moreover have "job_isValid granted_job" by (simp add: job_isValid_def granted_job_def)
  ultimately have "cl_parse sample_uv (\<lambda>_. Some login_reply) (\<lambda>_. True) (CHR ''{'' # replicate 40 CHR '' '') c =
      Some (emit (Out_Job granted_job) (emit Out_LoginSuccess (?c\<lparr>cl_job := granted_job, cl_jobs := 0, cl_failures := 0\<rparr>)))"
    by (simp add: cl_parse_def r cl_parseResponse_def cl_handleResponse_def Let_def emit_def)
  then show ?thesis using c by (simp add: emit_def)
qed

text \<open>Two pools; the first lets the miner in and sends a job.\<close>

definition connected :: Failover where
  "connected = the (run (\<lambda>_. Some login_reply) (\<lambda>_. True)
     [(sample_uv, True, Net_Connect), (sample_uv, True, Net_Connected 0 True)] (Failover_new [sample_pool, sample_pool] 5 5))"

lemma sample_connected:
  "run (\<lambda>_. Some login_reply) (\<lambda>_. True) [(sample_uv, True, Net_Connect), (sample_uv, True, Net_Connected 0 True)]
     (Failover_new [sample_pool, sample_pool] 5 5) = Some connected"
  "length (fo_clients connected) = 2" "fo_active connected = - 1" "fo_out connected = [St_Login 0, St_Sent 0 1 Req_Login]"
  "cl_pool (fo_clients connected ! 0) = sample_pool" "cl_state (fo_clients connected ! 0) = ConnectedState"
  "cl_job (fo_clients connected ! 0) = job_init False INVALID []" "cl_callbacks (fo_clients connected ! 0) = []"
  "cl_out (fo_clients connected ! 0) = []" "cl_id (fo_clients connected ! 0) = 0" "cl_reader (fo_clients connected ! 0) = []"
  "cl_socket (fo_clients connected ! 0) = Open_Socket True"
  by (simp_all add: connected_def net_defs client_defs Failover_new_def Client_new_def sample_uv_def kConnectTimeout_def kResponseTimeout_def Let_def)

lemma sample_failover:
  "\<exists>fo. fo_reach (\<lambda>_. Some login_reply) (\<lambda>_. True) [sample_pool, sample_pool] 5 5 fo \<and> fo_active fo = 0 \<and>
     fo_out fo = [St_Login 0, St_Sent 0 1 Req_Login, St_Active 0] @ St_Job 0 granted_job # []"
proof -
  note c = sample_connected
  let ?i = "fo_silent 0 (\<lambda>c. c\<lparr>cl_reader := []\<rparr>) connected"
  let ?c = "(fo_clients ?i ! 0)\<lparr>cl_sequence := fo_sequence connected\<rparr>"
  have "\<exists>c'. cl_parse sample_uv (\<lambda>_. Some login_reply) (\<lambda>_. True) (CHR ''{'' # replicate 40 CHR '' '') ?c = Some c' \<and>
      cl_out c' = [Out_LoginSuccess, Out_Job granted_job] \<and> cl_id c' = 0"
    by (rule sample_login) (use c in \<open>simp_all add: fo_silent_def job_init_def\<close>)
  then obtain c' where c': "cl_parse sample_uv (\<lambda>_. Some login_reply) (\<lambda>_. True) (CHR ''{'' # replicate 40 CHR '' '') ?c = Some c'"
      "cl_out c' = [Out_LoginSuccess, Out_Job granted_job]" "cl_id c' = 0" by blast
  define fo where "fo = fo_onJobReceived 0 granted_job (fo_onLoginSuccess 0 (after_op 0 c' ?i))"
  have "lr_parse (cl_reader (fo_clients connected ! 0)) sample_line = ([CHR ''{'' # replicate 40 CHR '' ''], [])"
    by (simp only: c sample_split)
  moreover have "fo_client sample_uv True 0 (cl_parse sample_uv (\<lambda>_. Some login_reply) (\<lambda>_. True) (CHR ''{'' # replicate 40 CHR '' '')) ?i = Some fo"
    using c' by (simp add: fo_client_def after_op_def fo_event_def fo_def fo_silent_def Let_def del: replicate.simps)
  ultimately have "do_step sample_uv True (\<lambda>_. Some login_reply) (\<lambda>_. True) (Net_Read 0 (Some sample_line)) connected = Some fo"
    by (simp add: do_step_def fo_read_def)
  moreover have "fo_reach (\<lambda>_. Some login_reply) (\<lambda>_. True) [sample_pool, sample_pool] 5 5 connected"
    by (rule run_reach [OF c(1) fo_reach.start])
  moreover have "enabled_step (Net_Read 0 (Some sample_line)) connected" using c by (simp add: enabled_step_def)
  ultimately have "fo_reach (\<lambda>_. Some login_reply) (\<lambda>_. True) [sample_pool, sample_pool] 5 5 fo"
    by (blast intro: fo_reach.step)
  moreover have "fo_active fo = 0 \<and> fo_out fo = [St_Login 0, St_Sent 0 1 Req_Login, St_Active 0, St_Job 0 granted_job]"
    using c by (simp add: fo_def fo_onJobReceived_def fo_onLoginSuccess_def after_op_def fo_silent_def fo_isActive_def fo_disconnect_def numeral_2_eq_2)
  ultimately show ?thesis by auto
qed

subsection \<open>The properties\<close>





text \<open>
  C39. A pool that refuses the login is given up only when its client has the number 1: the code compares the number of the client
  with 1 where the number of the request is meant. Every other client keeps the connection without a time limit, so that no
  later tick closes it and the strategy never moves on to the next pool.
\<close>

theorem login_refused_by_number:
  assumes "cl_state c = ConnectedState" "cl_socket c = Open_Socket True" "\<not> has_keepalive c" "cl_keepAlive c = 0" "cl_results c 1 = None"
    and "32 \<le> length line" "hd line = CHR ''{''" "\<not> isCriticalError (Some (cstr msg))"
    and "J line = Some (JObject [(''id'', JInt 1), (''error'', JObject [(''message'', JString msg)])])"
  shows "\<exists>c'. cl_parse uv J enabled line c = Some c' \<and> cl_out c' = cl_out c \<and>
    (cl_id c = 1 \<longrightarrow> cl_state c' = ClosingState \<and> cl_socket c' = Closing_Socket) \<and>
    (cl_id c \<noteq> 1 \<longrightarrow> cl_state c' = ConnectedState \<and> (\<forall>uv' cached. cl_tick uv' cached c' = Some c'))"
proof -
  note js = member_def getValue_def GetString_def FindMember_def json_isObject_def json_isEmpty_def isInt64_def GetInt64_def
  let ?c = "c\<lparr>cl_expire := 0\<rparr>"
  have t: "cl_startTimeout uv c = ?c" using assms(3) by (simp add: cl_startTimeout_def has_keepalive_def Let_def)
  define doc where "doc = JObject [(''id'', JInt 1), (''error'', JObject [(''message'', JString msg)])]"
  have d: "json_isObject doc" "isInt64 (getValue doc ''id'')" "GetInt64 (getValue doc ''id'') = 1" "json_isObject (getValue doc ''error'')"
    "GetString (member (getValue doc ''error'') ''message'') = Some (Some (cstr msg))"
    by (simp_all add: doc_def js)
  have J: "J line = Some doc" unfolding doc_def by (rule assms(9))
  have l: "(length line < 32 \<or> hd line \<noteq> CHR ''{'') = False" using assms(6,7) by (simp only: not_le [symmetric]) blast
  have "cl_parse uv J enabled line c = cl_parseResponse uv enabled 1 (getValue doc ''result'') (getValue doc ''error'') ?c"
    by (simp only: cl_parse_def t Let_def l J d if_False if_True option.case not_True_eq_False)
  also have "\<dots> = Some (if cl_id c = 1 then cl_closed ?c else ?c)"
    using assms(5,8) d by (simp add: cl_parseResponse_def cl_handleResponse_def cl_handleSubmitResponse_def Let_def)
  finally have p: "cl_parse uv J enabled line c = Some (if cl_id c = 1 then cl_closed ?c else ?c)" .
  have tick: "cl_tick uv' cached ?c = Some ?c" for uv' cached
    unfolding cl_tick_def using assms(1,4) by simp
  show ?thesis
  proof (cases "cl_id c = 1")
    case True
    have "cl_closed ?c = ?c\<lparr>cl_state := ClosingState, cl_socket := Closing_Socket\<rparr>"
      unfolding cl_closed_def cl_close_def using assms(1,2) by simp
    with True p show ?thesis by (intro exI [of _ "cl_closed ?c"]) simp
  next
    case False
    with p have "cl_parse uv J enabled line c = Some ?c" by (simp only: if_False)
    with False tick assms(1) show ?thesis by (intro exI [of _ ?c]) (simp del: split_paired_All)
  qed
qed

text \<open>The client of the first pool, connected, and a pool that does not know the address.\<close>

definition refusal :: json where
  "refusal = JObject [(''id'', JInt 1), (''error'', JObject [(''message'', JString ''Invalid address'')])]"

theorem login_refused_by_number_witness:
  "\<exists>c'. cl_parse sample_uv (\<lambda>_. Some refusal) (\<lambda>_. True) sample_line (fo_clients connected ! 0) = Some c' \<and>
    cl_state c' = ConnectedState \<and> cl_tick (sample_uv\<lparr>uv_now := 0xFFFFFFFFFFFFFFFF\<rparr>) True c' = Some c'"
proof -
  let ?c = "fo_clients connected ! 0"
  have c: "\<not> has_keepalive ?c" "cl_keepAlive ?c = 0" "cl_results ?c 1 = None"
    by (simp_all add: connected_def net_defs client_defs Failover_new_def Client_new_def sample_uv_def kConnectTimeout_def
      kResponseTimeout_def Let_def has_keepalive_def sample_pool_def)
  have l: "32 \<le> length sample_line" "hd sample_line = CHR ''{''" by (simp_all add: sample_line_def)
  have m: "\<not> isCriticalError (Some (cstr ''Invalid address''))" by code_simp
  show ?thesis
    using login_refused_by_number [OF sample_connected(6,12) c l m, of "\<lambda>_. Some refusal" sample_uv "\<lambda>_. True"] sample_connected(10)
    unfolding refusal_def by auto
qed

text \<open>
  Stopping the strategy does not stop a lookup of a name that is under way: \<open>disconnect\<close> keeps the request, and its answer opens
  a connection to the pool after \<open>stop\<close>.
\<close>

lemma stop_keeps_lookup:
  assumes "fo_reach J enabled pools ms retries fo" "i < length pools"
    and "cl_dns (fo_clients fo ! i)" "cl_socket (fo_clients fo ! i) = No_Socket"
  shows "enabled_step (Net_Resolved i True) (fo_stop fo) \<and>
    (\<exists>fo'. do_step uv cached J enabled (Net_Resolved i True) (fo_stop fo) = Some fo' \<and>
      cl_socket (fo_clients fo' ! i) = Open_Socket False \<and> cl_state (fo_clients fo' ! i) = ConnectingState)"
proof -
  have "pools \<noteq> []" using assms(2) by auto
  with failover_reach_inv [OF assms(1)] have ok: "clients_ok (length pools) fo" by (simp add: fo_inv_def)
  then have n: "length (fo_clients fo) = length pools" by (simp add: clients_ok_def)
  note c = client_okD [OF ok assms(2)]
  let ?d = "snd (cl_disconnect (fo_clients fo ! i))"
  have d: "cl_dns ?d" "cl_socket ?d = No_Socket" "cl_listener ?d" "cl_out ?d = []"
    using assms(3,4) c by (simp_all add: cl_disconnect_def cl_close_def)
  have "fold fo_disconnect [0..<length (fo_clients fo)] fo =
      fo\<lparr>fo_clients := map (\<lambda>j. snd (cl_disconnect (fo_clients fo ! j))) [0..<length (fo_clients fo)]\<rparr>"
    using fold_disconnect [of "[0..<length (fo_clients fo)]" fo "\<lambda>_. True"] by (simp cong: map_cong)
  then have stop: "length (fo_clients (fo_stop fo)) = length pools" "fo_clients (fo_stop fo) ! i = ?d"
    using assms(2) by (simp_all add: fo_stop_def fo_emit_def n)
  then show ?thesis
    using d assms(2)
    by (simp add: enabled_step_def do_step_def fo_client_def cl_onResolved_def cl_connect_addr_def setState_eq Let_def)
qed

end
